(* ===== verification/Prelude.thy ===== *)
theory Prelude
  imports Main "HOL-Library.AList" "HOL-Library.Char_ord" "HOL-Library.List_Lexorder"
    "HOL-Library.Multiset"
begin

text \<open>
  What every component of the development shares: Rust's \<^verbatim>\<open>str\<close> operations on UTF-8
  byte strings, the insertion-ordered \<^verbatim>\<open>IndexMap\<close>, the two \<^verbatim>\<open>Result\<close>
  combinators, the contract of a keyed store, and the generic facts about closed sets of a
  relation that the graph passes use.

  A Rust string is its list of UTF-8 bytes: a HOL \<open>char\<close> is one byte.  Byte-wise
  lexicographic order (from \<^verbatim>\<open>List_Lexorder\<close> and \<^verbatim>\<open>Char_ord\<close>) is then
  Rust's order on strings, and searching for an ASCII delimiter byte-wise is the same as
  searching for it character-wise.
\<close>

named_theorems str_simps \<open>unfolding rules of the string operations\<close>

section \<open>Strings\<close>

definition starts_with :: "string \<Rightarrow> string \<Rightarrow> bool" where
  "starts_with s p \<longleftrightarrow> take (length p) s = p"

definition ends_with :: "string \<Rightarrow> string \<Rightarrow> bool" where
  "ends_with s p \<longleftrightarrow> length p \<le> length s \<and> drop (length s - length p) s = p"

definition strip_prefix :: "string \<Rightarrow> string \<Rightarrow> string option" where
  "strip_prefix s p = (if starts_with s p then Some (drop (length p) s) else None)"

definition strip_suffix :: "string \<Rightarrow> string \<Rightarrow> string option" where
  "strip_suffix s p =
     (if ends_with s p then Some (take (length s - length p) s) else None)"

text \<open>\<^verbatim>\<open>str::find\<close>: the byte offset of the first occurrence of a pattern.\<close>

fun find_str :: "string \<Rightarrow> string \<Rightarrow> nat option" where
  "find_str [] p = (if p = [] then Some 0 else None)"
| "find_str (c # cs) p =
     (if starts_with (c # cs) p then Some 0 else map_option Suc (find_str cs p))"

definition str_contains :: "string \<Rightarrow> string \<Rightarrow> bool" where
  "str_contains s p \<longleftrightarrow> find_str s p \<noteq> None"

text \<open>\<^verbatim>\<open>split_once\<close> at an ASCII delimiter.\<close>

fun split_once :: "char \<Rightarrow> string \<Rightarrow> (string \<times> string) option" where
  "split_once d [] = None"
| "split_once d (c # cs) =
     (if c = d then Some ([], cs)
      else map_option (\<lambda>(a, b). (c # a, b)) (split_once d cs))"

text \<open>\<^verbatim>\<open>splitn(n, d)\<close>: at most \<open>n\<close> parts, the last one unsplit.\<close>

fun splitn :: "nat \<Rightarrow> char \<Rightarrow> string \<Rightarrow> string list" where
  "splitn 0 d s = []"
| "splitn (Suc 0) d s = [s]"
| "splitn (Suc (Suc n)) d s =
     (case split_once d s of None \<Rightarrow> [s] | Some (a, b) \<Rightarrow> a # splitn (Suc n) d b)"

fun join :: "string \<Rightarrow> string list \<Rightarrow> string" where
  "join sep [] = []"
| "join sep [x] = x"
| "join sep (x # y # ys) = x @ sep @ join sep (y # ys)"

definition ascii_alpha :: "char \<Rightarrow> bool" where
  "ascii_alpha c \<longleftrightarrow> (CHR ''a'' \<le> c \<and> c \<le> CHR ''z'') \<or> (CHR ''A'' \<le> c \<and> c \<le> CHR ''Z'')"

definition ascii_digit :: "char \<Rightarrow> bool" where
  "ascii_digit c \<longleftrightarrow> CHR ''0'' \<le> c \<and> c \<le> CHR ''9''"

definition ascii_alphanumeric :: "char \<Rightarrow> bool" where
  "ascii_alphanumeric c \<longleftrightarrow> ascii_alpha c \<or> ascii_digit c"

definition to_ascii_lower :: "char \<Rightarrow> char" where
  "to_ascii_lower c =
     (if CHR ''A'' \<le> c \<and> c \<le> CHR ''Z'' then char_of (of_char c + (32 :: nat)) else c)"

definition to_ascii_lowercase :: "string \<Rightarrow> string" where
  "to_ascii_lowercase s = map to_ascii_lower s"

text \<open>
  \<^verbatim>\<open>trim\<close> removes Unicode white space.  On UTF-8 bytes a white-space character is one
  of the ASCII bytes 9--13 and 32, or one of the encodings of U+0085, U+00A0, U+1680,
  U+2000--U+200A, U+2028, U+2029, U+202F, U+205F and U+3000.  \<open>ws_len\<close> is the number of
  bytes of the white-space character a string starts with, 0 when it starts with none;
  \<open>ws_len_rev\<close> is the same for the end of a string, read backwards.
\<close>

definition ascii_ws :: "char \<Rightarrow> bool" where
  "ascii_ws c \<longleftrightarrow> (CHR 0x09 \<le> c \<and> c \<le> CHR 0x0D) \<or> c = CHR 0x20"

definition ws2 :: "char \<Rightarrow> char \<Rightarrow> bool" where
  "ws2 a b \<longleftrightarrow> a = CHR 0xC2 \<and> (b = CHR 0x85 \<or> b = CHR 0xA0)"

definition ws3 :: "char \<Rightarrow> char \<Rightarrow> char \<Rightarrow> bool" where
  "ws3 a b c \<longleftrightarrow>
     (a = CHR 0xE1 \<and> b = CHR 0x9A \<and> c = CHR 0x80) \<or>
     (a = CHR 0xE2 \<and> b = CHR 0x80 \<and>
        ((CHR 0x80 \<le> c \<and> c \<le> CHR 0x8A) \<or> c = CHR 0xA8 \<or> c = CHR 0xA9 \<or> c = CHR 0xAF)) \<or>
     (a = CHR 0xE2 \<and> b = CHR 0x81 \<and> c = CHR 0x9F) \<or>
     (a = CHR 0xE3 \<and> b = CHR 0x80 \<and> c = CHR 0x80)"

fun ws_len :: "string \<Rightarrow> nat" where
  "ws_len [] = 0"
| "ws_len [a] = (if ascii_ws a then 1 else 0)"
| "ws_len [a, b] = (if ascii_ws a then 1 else if ws2 a b then 2 else 0)"
| "ws_len (a # b # c # _) =
     (if ascii_ws a then 1 else if ws2 a b then 2 else if ws3 a b c then 3 else 0)"

fun ws_len_rev :: "string \<Rightarrow> nat" where
  "ws_len_rev [] = 0"
| "ws_len_rev [a] = (if ascii_ws a then 1 else 0)"
| "ws_len_rev [a, b] = (if ascii_ws a then 1 else if ws2 b a then 2 else 0)"
| "ws_len_rev (a # b # c # _) =
     (if ascii_ws a then 1 else if ws2 b a then 2 else if ws3 c b a then 3 else 0)"

function drop_ws :: "(string \<Rightarrow> nat) \<Rightarrow> string \<Rightarrow> string" where
  "drop_ws f s = (if s = [] \<or> f s = 0 then s else drop_ws f (drop (f s) s))"
  by pat_completeness auto
termination
  by (relation "measure (\<lambda>(f, s). length s)") auto

declare drop_ws.simps [simp del]

definition trim_start :: "string \<Rightarrow> string" where
  "trim_start s = drop_ws ws_len s"

definition trim_end :: "string \<Rightarrow> string" where
  "trim_end s = rev (drop_ws ws_len_rev (rev s))"

definition trim :: "string \<Rightarrow> string" where
  "trim s = trim_end (trim_start s)"

text \<open>
  \<^verbatim>\<open>format!\<close>: each \<open>{}\<close> of the template takes the next argument, and a doubled
  brace is a literal one.  The templates of the source are kept as they are.  A character
  that is not ASCII is passed as an argument (\<open>em_dash\<close>, \<open>right_arrow\<close>), and so is a
  single quote that ends a template (\<open>squote\<close>).
\<close>

fun fmt :: "string \<Rightarrow> string list \<Rightarrow> string" where
  "fmt [] args = []"
| "fmt [c] args = [c]"
| "fmt (c # d # cs) args =
     (if c = CHR ''{'' \<and> d = CHR ''}'' then
        (case args of [] \<Rightarrow> fmt cs [] | a # as \<Rightarrow> a @ fmt cs as)
      else if c = d \<and> (c = CHR ''{'' \<or> c = CHR ''}'') then c # fmt cs args
      else c # fmt (d # cs) args)"

declare fmt.simps [simp del]

definition em_dash :: string where
  "em_dash = [CHR 0xE2, CHR 0x80, CHR 0x94]"

definition right_arrow :: string where
  "right_arrow = [CHR 0xE2, CHR 0x86, CHR 0x92]"

definition squote :: string where
  "squote = [CHR 0x27]"

text \<open>Decimal rendering of an unsigned number (\<^verbatim>\<open>Display\<close> of the integer types).\<close>

fun nat_str :: "nat \<Rightarrow> string" where
  "nat_str n = (if n < 10 then [char_of (48 + n)]
                else nat_str (n div 10) @ [char_of (48 + n mod 10)])"

declare nat_str.simps [simp del]

text \<open>\<^verbatim>\<open>str::replace\<close> of a non-empty pattern.\<close>

function replace_all :: "string \<Rightarrow> string \<Rightarrow> string \<Rightarrow> string" where
  "replace_all pat new s =
     (if pat = [] then s
      else case strip_prefix s pat of
        Some rest \<Rightarrow> new @ replace_all pat new rest
      | None \<Rightarrow> (case s of [] \<Rightarrow> [] | c # cs \<Rightarrow> c # replace_all pat new cs))"
  by pat_completeness auto
termination
proof (relation "measure (\<lambda>(pat, new, s). length s)", goal_cases)
  case (3 pat new s rest)
  then have "length rest + length pat = length s"
    by (auto simp: strip_prefix_def starts_with_def split: if_splits)
      (metis add.commute append_take_drop_id length_append length_drop)
  moreover have "0 < length pat" using 3 by simp
  ultimately have "length rest < length s" by linarith
  then show ?case by simp
qed auto

declare replace_all.simps [simp del]

text \<open>\<^verbatim>\<open>split\<close> and \<^verbatim>\<open>rsplit_once\<close> at an ASCII delimiter.\<close>

fun split_all :: "char \<Rightarrow> string \<Rightarrow> string list" where
  "split_all d [] = [[]]"
| "split_all d (c # cs) =
     (if c = d then [] # split_all d cs
      else (case split_all d cs of [] \<Rightarrow> [[c]] | s # ss \<Rightarrow> (c # s) # ss))"

definition rsplit_once :: "char \<Rightarrow> string \<Rightarrow> (string \<times> string) option" where
  "rsplit_once d s = map_option (\<lambda>(a, b). (rev b, rev a)) (split_once d (rev s))"

text \<open>
  \<^verbatim>\<open>parse\<close> of an unsigned integer below \<open>bound\<close>: decimal digits, with an optional
  plus sign.
\<close>

definition digits_value :: "string \<Rightarrow> nat" where
  "digits_value ds = foldl (\<lambda>n c. 10 * n + (of_char c - 48)) 0 ds"

definition parse_uint :: "nat \<Rightarrow> string \<Rightarrow> nat option" where
  "parse_uint bound s =
     (let ds = (if starts_with s ''+'' then drop 1 s else s)
      in if ds \<noteq> [] \<and> list_all ascii_digit ds \<and> digits_value ds < bound then Some (digits_value ds) else None)"

lemmas [str_simps] = starts_with_def ends_with_def strip_prefix_def str_contains_def

lemma starts_with_append [simp]: "starts_with (p @ s) p"
  by (simp add: starts_with_def)

lemma starts_with_Nil [simp]: "starts_with s []"
  by (simp add: starts_with_def)

lemma starts_with_iff: "starts_with s p \<longleftrightarrow> (\<exists>t. s = p @ t)"
  by (auto simp: starts_with_def) (metis append_take_drop_id)

lemma starts_with_Cons [simp]:
  "starts_with (c # cs) (d # ds) \<longleftrightarrow> c = d \<and> starts_with cs ds"
  by (auto simp: starts_with_def)

lemma starts_with_empty [simp]: "starts_with [] p \<longleftrightarrow> p = []"
  by (auto simp: starts_with_def)

lemma strip_prefix_append [simp]: "strip_prefix (p @ s) p = Some s"
  by (simp add: strip_prefix_def)

lemma strip_prefix_Some: "strip_prefix s p = Some t \<longleftrightarrow> s = p @ t"
  by (auto simp: strip_prefix_def starts_with_def) (metis append_take_drop_id)

lemma strip_prefix_None: "strip_prefix s p = None \<longleftrightarrow> \<not> starts_with s p"
  by (simp add: strip_prefix_def)

lemma split_once_Some: "split_once d s = Some (a, b) \<longleftrightarrow> s = a @ d # b \<and> d \<notin> set a"
proof (induction s arbitrary: a)
  case Nil
  then show ?case by simp
next
  case (Cons c cs)
  show ?case
  proof (cases "c = d")
    case True
    then show ?thesis by (cases a) auto
  next
    case False
    show ?thesis
    proof (cases a)
      case Nil
      with False show ?thesis by (auto split: option.split)
    next
      case (Cons x a')
      with False Cons.IH [of a'] show ?thesis
        by (cases "split_once d cs") auto
    qed
  qed
qed

lemma split_once_None: "split_once d s = None \<longleftrightarrow> d \<notin> set s"
  by (induction s) auto

lemma find_str_SomeD:
  "find_str s p = Some i \<Longrightarrow> i \<le> length s \<and> starts_with (drop i s) p"
  by (induction s arbitrary: i) (auto split: if_splits)

lemma str_contains_iff: "str_contains s p \<longleftrightarrow> (\<exists>a b. s = a @ p @ b)"
proof (induction s)
  case Nil
  show ?case by (auto simp: str_contains_def)
next
  case (Cons c cs)
  have "str_contains (c # cs) p \<longleftrightarrow> starts_with (c # cs) p \<or> str_contains cs p"
    by (simp add: str_contains_def)
  also have "\<dots> \<longleftrightarrow> (\<exists>a b. c # cs = a @ p @ b)"
    unfolding Cons.IH by (metis Cons_eq_append_conv append_Cons append_Nil starts_with_iff)
  finally show ?case .
qed

lemma ends_with_append [simp]: "ends_with (s @ p) p"
  by (simp add: ends_with_def)

lemma ends_with_iff: "ends_with s p \<longleftrightarrow> (\<exists>t. s = t @ p)"
  by (auto simp: ends_with_def) (metis append_take_drop_id)

lemma strip_suffix_append [simp]: "strip_suffix (s @ p) p = Some s"
  by (simp add: strip_suffix_def)

lemma strip_suffix_Some: "strip_suffix s p = Some t \<longleftrightarrow> s = t @ p"
  by (auto simp: strip_suffix_def ends_with_def) (metis append_take_drop_id)

section \<open>Parts of strings\<close>

lemma split_all_not_Nil [simp]: "split_all d s \<noteq> []"
  by (induction s) (auto split: list.split)

lemma split_all_plain: "d \<notin> set s \<Longrightarrow> split_all d s = [s]"
  by (induction s) auto

lemma split_all_cut: "d \<notin> set a \<Longrightarrow> split_all d (a @ d # b) = a # split_all d b"
  by (induction a) auto

lemma split_all_hd: "split_all d s = a # ss \<Longrightarrow> d \<notin> set a \<and> (s = a \<and> ss = [] \<or> (\<exists>b. s = a @ d # b \<and> ss = split_all d b))"
proof (cases "d \<in> set s")
  case True
  then obtain x y where "s = x @ d # y" "d \<notin> set x" by (metis split_list_first)
  moreover assume "split_all d s = a # ss"
  ultimately show ?thesis by (auto simp: split_all_cut)
next
  case False
  moreover assume "split_all d s = a # ss"
  ultimately show ?thesis by (auto simp: split_all_plain)
qed

lemma rsplit_once_Some: "rsplit_once d s = Some (a, b) \<longleftrightarrow> s = a @ d # b \<and> d \<notin> set b"
proof -
  have "rsplit_once d s = Some (a, b) \<longleftrightarrow> split_once d (rev s) = Some (rev b, rev a)"
    by (auto simp: rsplit_once_def)
  also have "\<dots> \<longleftrightarrow> rev s = rev b @ d # rev a \<and> d \<notin> set b" by (simp add: split_once_Some)
  also have "rev s = rev b @ d # rev a \<longleftrightarrow> s = a @ d # b"
    by (metis append.assoc append_Cons append_Nil rev.simps(2) rev_append rev_rev_ident)
  finally show ?thesis .
qed

lemma replace_all_unchanged: "c \<notin> set (replace_all pat [c] s) \<Longrightarrow> replace_all pat [c] s = s"
proof (induction pat "[c]" s rule: replace_all.induct)
  case (1 pat s)
  show ?case
  proof (cases "pat = []")
    case True
    then show ?thesis by (subst replace_all.simps) simp
  next
    case False
    show ?thesis
    proof (cases "strip_prefix s pat")
      case None
      note e = replace_all.simps [of pat "[c]" s]
      show ?thesis
        using "1.hyps"(1) [OF False None] "1.prems" False None e by (cases s) auto
    next
      case (Some rest)
      with "1.prems" False show ?thesis by (subst (asm) replace_all.simps) simp
    qed
  qed
qed

lemma digits_value_snoc: "digits_value (ds @ [c]) = 10 * digits_value ds + (of_char c - 48)"
  by (simp add: digits_value_def)

lemma digit_char: "k < 10 \<Longrightarrow> ascii_digit (char_of (48 + k)) \<and> of_char (char_of (48 + k) :: char) = 48 + k" for k :: nat
  by (simp add: ascii_digit_def less_eq_char_def)

lemma nat_str_digits: "nat_str n \<noteq> [] \<and> list_all ascii_digit (nat_str n) \<and> digits_value (nat_str n) = n"
proof (induction n rule: nat_str.induct)
  case (1 n)
  show ?case
  proof (cases "n < 10")
    case True
    then have e: "nat_str n = [char_of (48 + n)]" by (subst nat_str.simps) simp
    show ?thesis using digit_char [OF True] by (simp add: e digits_value_def)
  next
    case False
    then have e: "nat_str n = nat_str (n div 10) @ [char_of (48 + n mod 10)]" by (subst nat_str.simps) simp
    show ?thesis
      using "1.IH" [OF False] digit_char [of "n mod 10"] by (simp add: e digits_value_snoc)
  qed
qed

lemma nat_str_inj: "nat_str m = nat_str n \<longleftrightarrow> m = n"
  by (metis nat_str_digits)

lemma parse_nat_str: "n < bound \<Longrightarrow> parse_uint bound (nat_str n) = Some n"
proof -
  have "\<not> starts_with (nat_str n) ''+''"
    using nat_str_digits [of n] by (cases "nat_str n") (auto simp: ascii_digit_def starts_with_def less_eq_char_def)
  moreover assume "n < bound"
  ultimately show ?thesis using nat_str_digits [of n] by (simp add: parse_uint_def)
qed

section \<open>Trimmed strings\<close>

definition trimmed :: "string \<Rightarrow> bool" where
  "trimmed s \<longleftrightarrow> ws_len s = 0 \<and> ws_len_rev (rev s) = 0"

lemma drop_ws_id: "f s = 0 \<Longrightarrow> drop_ws f s = s"
  by (subst drop_ws.simps) simp

lemma drop_ws_step: "s \<noteq> [] \<Longrightarrow> f s \<noteq> 0 \<Longrightarrow> drop_ws f s = drop_ws f (drop (f s) s)"
  by (subst drop_ws.simps) simp

lemma drop_ws_suffix: "\<exists>a. s = a @ drop_ws f s \<and> (drop_ws f s = [] \<or> f (drop_ws f s) = 0)"
proof (induction f s rule: drop_ws.induct)
  case (1 f s)
  show ?case
  proof (cases "s = [] \<or> f s = 0")
    case True
    then have "drop_ws f s = s" by (subst drop_ws.simps) simp
    with True show ?thesis by auto
  next
    case False
    then have e: "drop_ws f s = drop_ws f (drop (f s) s)" by (simp add: drop_ws_step)
    from 1 [OF False] obtain a where
      "drop (f s) s = a @ drop_ws f s" "drop_ws f s = [] \<or> f (drop_ws f s) = 0"
      by (auto simp: e)
    then show ?thesis
      by (intro exI [of _ "take (f s) s @ a"]) (metis append.assoc append_take_drop_id)
  qed
qed

lemma trim_trimmed: "trimmed s \<Longrightarrow> trim s = s"
  by (simp add: trimmed_def trim_def trim_start_def trim_end_def drop_ws_id)

lemma ws_len_prefix: "ws_len (s @ t) = 0 \<Longrightarrow> ws_len s = 0"
  by (cases "s @ t" rule: ws_len.cases; cases s rule: ws_len.cases) (auto split: if_splits)

lemma trimmed_trim: "trimmed (trim s)"
proof -
  obtain a where a: "s = a @ trim_start s" "trim_start s = [] \<or> ws_len (trim_start s) = 0"
    using drop_ws_suffix [of s ws_len] by (auto simp: trim_start_def)
  obtain b where b: "rev (trim_start s) = b @ rev (trim s)"
      "rev (trim s) = [] \<or> ws_len_rev (rev (trim s)) = 0"
    using drop_ws_suffix [of "rev (trim_start s)" ws_len_rev] by (auto simp: trim_def trim_end_def)
  from b(1) have "trim_start s = trim s @ rev b"
    by (metis rev_append rev_rev_ident)
  with a(2) b(2) show ?thesis
    by (auto simp: trimmed_def dest: ws_len_prefix)
qed

lemma trim_idem [simp]: "trim (trim s) = trim s"
  by (rule trim_trimmed [OF trimmed_trim])

lemma ws_len_append_space: "s \<noteq> [] \<Longrightarrow> ws_len s = 0 \<Longrightarrow> ws_len (s @ CHR '' '' # t) = 0"
  by (cases s rule: ws_len.cases; cases t) (auto simp: ws2_def ws3_def split: if_splits)

lemma ws_len_rev_append_space: "s \<noteq> [] \<Longrightarrow> ws_len_rev s = 0 \<Longrightarrow> ws_len_rev (s @ CHR '' '' # t) = 0"
  by (cases s rule: ws_len_rev.cases; cases t) (auto simp: ws2_def ws3_def split: if_splits)

lemma ws_len_space: "ws_len (CHR '' '' # s) = 1"
  by (cases "CHR '' '' # s" rule: ws_len.cases) (auto simp: ascii_ws_def)

lemma ws_len_rev_space: "ws_len_rev (CHR '' '' # s) = 1"
  by (cases "CHR '' '' # s" rule: ws_len_rev.cases) (auto simp: ascii_ws_def)

lemma trim_space_end: "trimmed s \<Longrightarrow> s \<noteq> [] \<Longrightarrow> trim (s @ '' '') = s"
  by (simp add: trim_def trim_start_def trim_end_def trimmed_def drop_ws_id ws_len_append_space
      drop_ws_step ws_len_rev_space)

lemma trim_space_start: "trimmed s \<Longrightarrow> trim (CHR '' '' # s) = s"
  by (simp add: trim_def trim_start_def trim_end_def trimmed_def drop_ws_id
      drop_ws_step ws_len_space)

lemma trimmed_spaced: "trimmed a \<Longrightarrow> a \<noteq> [] \<Longrightarrow> trimmed b \<Longrightarrow> b \<noteq> [] \<Longrightarrow>
    trimmed (a @ '' '' @ m @ '' '' @ b)"
  by (simp add: trimmed_def ws_len_append_space ws_len_rev_append_space)

section \<open>The keyed store\<close>

text \<open>
  Several components keep values under keys and rely on nothing but the law of
  \<open>get\<close> after \<open>put\<close>: the insertion-ordered map below, the executor's layered step
  outputs, the stores of plans, runs and patches.  What a client proves from the law alone
  is proved here once.
\<close>

locale keyed_store =
  fixes get :: "'s \<Rightarrow> 'k \<Rightarrow> 'v option"
    and put :: "'k \<Rightarrow> 'v \<Rightarrow> 's \<Rightarrow> 's"
  assumes get_put: "get (put k v s) j = (if j = k then Some v else get s j)"
begin

lemma get_same [simp]: "get (put k v s) k = Some v"
  by (simp add: get_put)

lemma get_other: "j \<noteq> k \<Longrightarrow> get (put k v s) j = get s j"
  by (simp add: get_put)

lemma get_puts: "get (fold (\<lambda>(k, v). put k v) kvs s) j =
    (case map_of (rev kvs) j of Some v \<Rightarrow> Some v | None \<Rightarrow> get s j)"
proof (induction kvs arbitrary: s)
  case Nil
  show ?case by simp
next
  case (Cons kv kvs)
  then show ?case
    by (cases kv) (auto simp: get_put map_add_def split: option.split)
qed

lemma get_puts_other: "j \<notin> fst ` set kvs \<Longrightarrow> get (fold (\<lambda>(k, v). put k v) kvs s) j = get s j"
  by (induction kvs arbitrary: s) (auto simp: get_put)

end

section \<open>Insertion-ordered maps\<close>

text \<open>
  \<^verbatim>\<open>IndexMap<String, V>\<close>: an association list with distinct keys.  \<open>im_insert\<close>
  replaces the value of a present key in place and appends a new key.
\<close>

type_synonym 'v imap = "(string \<times> 'v) list"

definition im_get :: "'v imap \<Rightarrow> string \<Rightarrow> 'v option" where
  "im_get m k = map_of m k"

definition im_insert :: "string \<Rightarrow> 'v \<Rightarrow> 'v imap \<Rightarrow> 'v imap" where
  "im_insert k v m = AList.update k v m"

definition im_contains :: "'v imap \<Rightarrow> string \<Rightarrow> bool" where
  "im_contains m k \<longleftrightarrow> im_get m k \<noteq> None"

definition im_keys :: "'v imap \<Rightarrow> string list" where
  "im_keys m = map fst m"

definition im_remove :: "string \<Rightarrow> 'v imap \<Rightarrow> 'v imap" where
  "im_remove k m = filter (\<lambda>(j, v). j \<noteq> k) m"

text \<open>\<^verbatim>\<open>extend\<close> and \<^verbatim>\<open>collect\<close>: insert one after another.\<close>

definition im_extend :: "'v imap \<Rightarrow> 'v imap \<Rightarrow> 'v imap" where
  "im_extend m kvs = fold (\<lambda>(k, v). im_insert k v) kvs m"

interpretation im: keyed_store im_get im_insert
  by unfold_locales (simp add: im_get_def im_insert_def update_conv')

lemma im_get_Nil [simp]: "im_get [] k = None"
  by (simp add: im_get_def)

lemma im_contains_insert [simp]: "im_contains (im_insert k v m) j \<longleftrightarrow> j = k \<or> im_contains m j"
  by (simp add: im_contains_def im.get_put)

lemma im_contains_iff: "im_contains m k \<longleftrightarrow> k \<in> set (im_keys m)"
  by (simp add: im_contains_def im_get_def im_keys_def map_of_eq_None_iff)

lemma im_keys_insert: "im_keys (im_insert k v m) =
    (if k \<in> set (im_keys m) then im_keys m else im_keys m @ [k])"
  by (simp add: im_keys_def im_insert_def update_keys)

lemma im_insert_distinct: "distinct (im_keys m) \<Longrightarrow> distinct (im_keys (im_insert k v m))"
  by (simp add: im_keys_insert)

lemma im_get_remove: "im_get (im_remove k m) j = (if j = k then None else im_get m j)"
  by (induction m) (auto simp: im_remove_def im_get_def)

lemma im_get_extend: "im_get (im_extend m kvs) j =
    (case map_of (rev kvs) j of Some v \<Rightarrow> Some v | None \<Rightarrow> im_get m j)"
  by (simp add: im_extend_def im.get_puts)

lemma im_extend_distinct: "distinct (im_keys m) \<Longrightarrow> distinct (im_keys (im_extend m kvs))"
  unfolding im_extend_def
  by (induction kvs arbitrary: m) (auto simp: im_insert_distinct)

lemma im_extend_new: "distinct (im_keys (m @ kvs)) \<Longrightarrow> im_extend m kvs = m @ kvs"
proof (induction kvs arbitrary: m)
  case Nil
  show ?case by (simp add: im_extend_def)
next
  case (Cons kv kvs)
  obtain k v where kv: "kv = (k, v)" by (cases kv)
  have "k \<notin> set (im_keys m)" using Cons.prems by (auto simp: kv im_keys_def)
  then have "im_insert k v m = m @ [(k, v)]"
    by (simp add: im_insert_def im_keys_def) (induction m; auto)
  with Cons.IH [of "m @ [(k, v)]"] Cons.prems kv show ?case by (simp add: im_extend_def)
qed

section \<open>Closed sets\<close>

text \<open>
  The graph passes compute the set reachable from some start points with a worklist.
  \<open>closure_eqI\<close> is how each of them is shown to be right: the result contains the start
  points, is closed under the edges and holds nothing but reachable points.
\<close>

lemma closure_eqI:
  assumes "I \<subseteq> S"
    and "\<And>x y. x \<in> S \<Longrightarrow> (x, y) \<in> R \<Longrightarrow> y \<in> S"
    and "\<And>x. x \<in> S \<Longrightarrow> \<exists>i \<in> I. (i, x) \<in> R\<^sup>*"
  shows "S = R\<^sup>* `` I"
proof -
  have "y \<in> S" if "(i, y) \<in> R\<^sup>*" "i \<in> I" for i y
    using that assms(1,2) by (induction rule: rtrancl_induct) auto
  then show ?thesis using assms(3) by blast
qed

lemma list_all_distinct_card: "distinct xs \<Longrightarrow> set xs \<subseteq> set ys \<Longrightarrow> length xs \<le> length ys"
  by (metis List.finite_set card_length card_mono distinct_card le_trans)

section \<open>Worklist walks\<close>

text \<open>
  Three passes walk a graph the same way: pop a node, skip it when it was seen, otherwise
  mark it and push its successors.  The locales state the loop's equations; a component
  interprets them on its own loop and gets the reachability result.
\<close>

definition succ_edges :: "('a \<Rightarrow> 'a list) \<Rightarrow> ('a \<times> 'a) set" where
  "succ_edges succ = {(x, y). y \<in> set (succ x)}"

lemma succ_edges_iff [simp]: "(x, y) \<in> succ_edges succ \<longleftrightarrow> y \<in> set (succ x)"
  by (simp add: succ_edges_def)

lemma reach_closed:
  assumes "\<And>x y. x \<in> S \<Longrightarrow> (x, y) \<in> R \<Longrightarrow> y \<in> S \<union> T" and "(x, y) \<in> R\<^sup>*" and "x \<in> S"
  shows "y \<in> S \<union> R\<^sup>* `` T"
  using assms(2,3,1)
proof (induction rule: rtrancl_induct)
  case base
  then show ?case by simp
next
  case (step y z)
  then show ?case by (auto intro: rtrancl_into_rtrancl)
qed

lemma reach_insert: "(succ_edges succ)\<^sup>* `` insert x S =
    insert x ((succ_edges succ)\<^sup>* `` (set (succ x) \<union> S))"
proof -
  have "(x, y) \<in> (succ_edges succ)\<^sup>* \<longleftrightarrow> y = x \<or> (\<exists>z \<in> set (succ x). (z, y) \<in> (succ_edges succ)\<^sup>*)" for y
    by (metis converse_rtrancl_into_rtrancl converse_rtranclE rtrancl.rtrancl_refl succ_edges_iff)
  then show ?thesis by auto
qed

locale successor_graph =
  fixes succ :: "'a \<Rightarrow> 'a list"
  assumes fin: "finite {x. succ x \<noteq> []}"
begin

lemma card_less: "x \<notin> seen \<Longrightarrow> succ x \<noteq> [] \<Longrightarrow>
    card ({x. succ x \<noteq> []} - insert x seen) < card ({x. succ x \<noteq> []} - seen)"
  using fin by (intro psubset_card_mono) auto

lemma walk_measure: "x \<notin> seen \<Longrightarrow>
    ((insert x seen, rev (succ x) @ st), (seen, x # st))
      \<in> measures [\<lambda>(seen, st). card ({x. succ x \<noteq> []} - seen), \<lambda>(seen, st). length st]"
  using card_less [of x seen] by (cases "succ x = []") auto

end

locale closure_walk = successor_graph succ for succ :: "'a \<Rightarrow> 'a list" +
  fixes walk :: "'a set \<Rightarrow> 'a list \<Rightarrow> 'a set"
  assumes walk_Nil: "walk seen [] = seen"
    and walk_seen: "x \<in> seen \<Longrightarrow> walk seen (x # st) = walk seen st"
    and walk_new: "x \<notin> seen \<Longrightarrow> walk seen (x # st) = walk (insert x seen) (rev (succ x) @ st)"
begin

lemma walk_invariant:
  "(\<And>x. x \<in> seen \<Longrightarrow> set (succ x) \<subseteq> seen \<union> set st) \<Longrightarrow>
   walk seen st = seen \<union> (succ_edges succ)\<^sup>* `` set st"
proof (induction "(seen, st)" arbitrary: seen st rule: wf_induct_rule [OF wf_measures
      [of "[\<lambda>(seen, st). card ({x. succ x \<noteq> []} - seen), \<lambda>(seen, st). length st]"]])
  case (1 seen st)
  show ?case
  proof (cases st)
    case Nil
    then show ?thesis by (simp add: walk_Nil)
  next
    case (Cons x ys)
    show ?thesis
    proof (cases "x \<in> seen")
      case True
      have closed: "set (succ z) \<subseteq> seen \<union> set ys" if "z \<in> seen" for z
        using 1(2) [OF that] Cons True by auto
      have "walk seen ys = seen \<union> (succ_edges succ)\<^sup>* `` set ys"
        by (rule 1(1)) (use closed Cons in auto)
      moreover have "(succ_edges succ)\<^sup>* `` {x} \<subseteq> seen \<union> (succ_edges succ)\<^sup>* `` set ys"
        using reach_closed [of seen "succ_edges succ" "set ys" x] closed True by auto
      ultimately show ?thesis using Cons True by (auto simp: walk_seen)
    next
      case False
      have "walk (insert x seen) (rev (succ x) @ ys) =
          insert x seen \<union> (succ_edges succ)\<^sup>* `` set (rev (succ x) @ ys)"
        by (rule 1(1)) (use walk_measure [OF False] 1(2) Cons in auto)
      then show ?thesis using Cons False by (simp add: walk_new reach_insert)
    qed
  qed
qed

lemma walk_reach: "walk {} st = (succ_edges succ)\<^sup>* `` set st"
  using walk_invariant [of "{}" st] by simp

end

locale goal_walk = successor_graph succ for succ :: "'a \<Rightarrow> 'a list" +
  fixes hit :: "'a \<Rightarrow> bool" and search :: "'a set \<Rightarrow> 'a list \<Rightarrow> bool"
  assumes search_Nil: "\<not> search seen []"
    and search_seen: "x \<in> seen \<Longrightarrow> search seen (x # st) = search seen st"
    and search_hit: "x \<notin> seen \<Longrightarrow> hit x \<Longrightarrow> search seen (x # st)"
    and search_new: "x \<notin> seen \<Longrightarrow> \<not> hit x \<Longrightarrow>
      search seen (x # st) = search (insert x seen) (rev (succ x) @ st)"
begin

lemma search_invariant:
  "(\<And>x. x \<in> seen \<Longrightarrow> \<not> hit x \<and> set (succ x) \<subseteq> seen \<union> set st) \<Longrightarrow>
   search seen st \<longleftrightarrow> (\<exists>x \<in> (succ_edges succ)\<^sup>* `` set st. hit x)"
proof (induction "(seen, st)" arbitrary: seen st rule: wf_induct_rule [OF wf_measures
      [of "[\<lambda>(seen, st). card ({x. succ x \<noteq> []} - seen), \<lambda>(seen, st). length st]"]])
  case (1 seen st)
  show ?case
  proof (cases st)
    case Nil
    then show ?thesis by (simp add: search_Nil)
  next
    case (Cons x ys)
    consider (seen) "x \<in> seen" | (hit) "x \<notin> seen" "hit x" | (new) "x \<notin> seen" "\<not> hit x" by blast
    then show ?thesis
    proof cases
      case seen
      have closed: "\<not> hit z \<and> set (succ z) \<subseteq> seen \<union> set ys" if "z \<in> seen" for z
        using 1(2) [OF that] Cons seen by auto
      have "search seen ys \<longleftrightarrow> (\<exists>x \<in> (succ_edges succ)\<^sup>* `` set ys. hit x)"
        by (rule 1(1)) (use closed Cons in auto)
      moreover have "(succ_edges succ)\<^sup>* `` {x} \<subseteq> seen \<union> (succ_edges succ)\<^sup>* `` set ys"
        using reach_closed [of seen "succ_edges succ" "set ys" x] closed seen by auto
      ultimately have "(\<exists>z \<in> (succ_edges succ)\<^sup>* `` set st. hit z) \<longleftrightarrow>
          (\<exists>z \<in> (succ_edges succ)\<^sup>* `` set ys. hit z)"
        using Cons closed by auto blast
      with \<open>search seen ys \<longleftrightarrow> _\<close> show ?thesis using Cons seen by (simp add: search_seen)
    next
      case hit
      then show ?thesis using Cons by (auto simp: search_hit)
    next
      case new
      have "search (insert x seen) (rev (succ x) @ ys) \<longleftrightarrow>
          (\<exists>z \<in> (succ_edges succ)\<^sup>* `` set (rev (succ x) @ ys). hit z)"
        by (rule 1(1)) (use walk_measure [OF new(1)] 1(2) Cons new in auto)
      then show ?thesis using Cons new by (simp add: search_new reach_insert)
    qed
  qed
qed

lemma search_reach: "search {} st \<longleftrightarrow> (\<exists>x \<in> (succ_edges succ)\<^sup>* `` set st. hit x)"
  by (rule search_invariant) simp

end

section \<open>Results\<close>

text \<open>\<^verbatim>\<open>Result<T, E>\<close> is \<open>'e + 'a\<close>: \<open>Inl\<close> an error, \<open>Inr\<close> a value.\<close>

fun try_map :: "('a \<Rightarrow> 'e + 'b) \<Rightarrow> 'a list \<Rightarrow> 'e + 'b list" where
  "try_map f [] = Inr []"
| "try_map f (x # xs) =
     (case f x of Inl e \<Rightarrow> Inl e
      | Inr y \<Rightarrow> (case try_map f xs of Inl e \<Rightarrow> Inl e | Inr ys \<Rightarrow> Inr (y # ys)))"

lemma try_map_Inr_length: "try_map f xs = Inr ys \<Longrightarrow> length ys = length xs"
  by (induction xs arbitrary: ys) (auto split: sum.splits)

text \<open>\<^verbatim>\<open>?\<close> on checks without a value, and a loop whose body may return early.\<close>

definition and_then :: "'e + unit \<Rightarrow> 'e + unit \<Rightarrow> 'e + unit" where
  "and_then a b = (case a of Inl e \<Rightarrow> Inl e | Inr u \<Rightarrow> b)"

fun try_each :: "('a \<Rightarrow> 'e + unit) \<Rightarrow> 'a list \<Rightarrow> 'e + unit" where
  "try_each f [] = Inr ()"
| "try_each f (x # xs) = and_then (f x) (try_each f xs)"

definition fail_if :: "bool \<Rightarrow> 'e \<Rightarrow> 'e + unit" where
  "fail_if c e = (if c then Inl e else Inr ())"

lemma and_then_ok [simp]: "and_then a b = Inr () \<longleftrightarrow> a = Inr () \<and> b = Inr ()"
  by (cases a) (auto simp: and_then_def)

lemma try_each_ok [simp]: "try_each f xs = Inr () \<longleftrightarrow> (\<forall>x \<in> set xs. f x = Inr ())"
  by (induction xs) auto

lemma fail_if_ok [simp]: "fail_if c e = Inr () \<longleftrightarrow> \<not> c"
  by (simp add: fail_if_def)

text \<open>\<^verbatim>\<open>?\<close>: go on with the value of a result.\<close>

definition try_bind :: "'e + 'a \<Rightarrow> ('a \<Rightarrow> 'e + 'b) \<Rightarrow> 'e + 'b" where
  "try_bind r k = (case r of Inl e \<Rightarrow> Inl e | Inr v \<Rightarrow> k v)"

definition ok_or :: "'e \<Rightarrow> 'a option \<Rightarrow> 'e + 'a" where
  "ok_or e o' = (case o' of None \<Rightarrow> Inl e | Some v \<Rightarrow> Inr v)"

lemma try_bind_Inr: "try_bind r k = Inr y \<longleftrightarrow> (\<exists>x. r = Inr x \<and> k x = Inr y)"
  by (cases r) (auto simp: try_bind_def)

lemma ok_or_Inr [simp]: "ok_or e o' = Inr v \<longleftrightarrow> o' = Some v"
  by (cases o') (auto simp: ok_or_def)

lemma try_bind_cong [fundef_cong]:
  "r = r' \<Longrightarrow> (\<And>x. r' = Inr x \<Longrightarrow> k x = k' x) \<Longrightarrow> try_bind r k = try_bind r' k'"
  by (cases r') (auto simp: try_bind_def)

lemma try_each_cong [fundef_cong]:
  "xs = ys \<Longrightarrow> (\<And>x. x \<in> set ys \<Longrightarrow> f x = g x) \<Longrightarrow> try_each f xs = try_each g ys"
  by (induction xs arbitrary: ys) auto

end
