(* ===== verification/Json.thy ===== *)
theory Json
  imports Prelude
begin

text \<open>
  The JSON values the plans, inputs and outputs are made of
  (\<^verbatim>\<open>serde_json::Value\<close> without its \<^verbatim>\<open>preserve_order\<close> feature: an object is
  a map sorted by key), the numeric test of \<^verbatim>\<open>support/json_numeric.rs\<close>, and the
  record of what the model takes from outside the repository.

  A number is an integer (\<^verbatim>\<open>i64\<close> or \<^verbatim>\<open>u64\<close>) or a finite \<^verbatim>\<open>f64\<close>,
  which is kept as the dyadic rational \<open>m * 2 ^ e\<close> it stands for (the two zeros of
  \<^verbatim>\<open>f64\<close>, which compare equal, are one value here).
\<close>

datatype number = NumInt int | NumFloat int int

datatype json =
    JNull
  | JBool bool
  | JNumber number
  | JString string
  | JArray "json list"
  | JObject "(string \<times> json) list"

section \<open>Well-formed values\<close>

definition wf_number :: "number \<Rightarrow> bool" where
  "wf_number n = (case n of NumInt i \<Rightarrow> - (2 ^ 63) \<le> i \<and> i < 2 ^ 64 | NumFloat m e \<Rightarrow> True)"

fun wf_json :: "json \<Rightarrow> bool" where
  "wf_json (JNumber n) = wf_number n"
| "wf_json (JArray vs) = list_all wf_json vs"
| "wf_json (JObject kvs) = (sorted_wrt (<) (map fst kvs) \<and> list_all (\<lambda>(k, v). wf_json v) kvs)"
| "wf_json _ = True"

section \<open>The accessors\<close>

fun is_null :: "json \<Rightarrow> bool" where
  "is_null JNull = True"
| "is_null _ = False"

fun is_string :: "json \<Rightarrow> bool" where
  "is_string (JString s) = True"
| "is_string _ = False"

fun is_number :: "json \<Rightarrow> bool" where
  "is_number (JNumber n) = True"
| "is_number _ = False"

fun is_boolean :: "json \<Rightarrow> bool" where
  "is_boolean (JBool b) = True"
| "is_boolean _ = False"

fun is_object :: "json \<Rightarrow> bool" where
  "is_object (JObject kvs) = True"
| "is_object _ = False"

fun is_array :: "json \<Rightarrow> bool" where
  "is_array (JArray vs) = True"
| "is_array _ = False"

fun as_str :: "json \<Rightarrow> string option" where
  "as_str (JString s) = Some s"
| "as_str _ = None"

fun as_bool :: "json \<Rightarrow> bool option" where
  "as_bool (JBool b) = Some b"
| "as_bool _ = None"

fun as_array :: "json \<Rightarrow> json list option" where
  "as_array (JArray vs) = Some vs"
| "as_array _ = None"

fun as_object :: "json \<Rightarrow> (string \<times> json) list option" where
  "as_object (JObject kvs) = Some kvs"
| "as_object _ = None"

text \<open>\<^verbatim>\<open>as_i64\<close> and \<^verbatim>\<open>as_u64\<close> refuse a number kept as a float.\<close>

fun as_i64 :: "json \<Rightarrow> int option" where
  "as_i64 (JNumber (NumInt i)) = (if - (2 ^ 63) \<le> i \<and> i < 2 ^ 63 then Some i else None)"
| "as_i64 _ = None"

fun as_u64 :: "json \<Rightarrow> int option" where
  "as_u64 (JNumber (NumInt i)) = (if 0 \<le> i \<and> i < 2 ^ 64 then Some i else None)"
| "as_u64 _ = None"

text \<open>\<^verbatim>\<open>Value::get(key)\<close> on an object; \<open>None\<close> on anything else.\<close>

fun json_get :: "json \<Rightarrow> string \<Rightarrow> json option" where
  "json_get (JObject kvs) k = map_of kvs k"
| "json_get _ _ = None"

text \<open>\<^verbatim>\<open>BTreeMap::insert\<close> on the sorted entries of an object.\<close>

fun obj_insert :: "string \<Rightarrow> 'v \<Rightarrow> (string \<times> 'v) list \<Rightarrow> (string \<times> 'v) list" where
  "obj_insert k v [] = [(k, v)]"
| "obj_insert k v ((j, w) # kvs) =
     (if k < j then (k, v) # (j, w) # kvs
      else if k = j then (k, v) # kvs
      else (j, w) # obj_insert k v kvs)"

text \<open>\<^verbatim>\<open>serde_json::Map\<close> collected from an iterator of entries.\<close>

definition obj_of :: "(string \<times> 'v) list \<Rightarrow> (string \<times> 'v) list" where
  "obj_of kvs = fold (\<lambda>(k, v). obj_insert k v) kvs []"

definition float_is_integral :: "int \<Rightarrow> int \<Rightarrow> bool" where
  "float_is_integral m e \<longleftrightarrow> 0 \<le> e \<or> 2 ^ nat (- e) dvd m"

fun is_json_integer :: "json \<Rightarrow> bool" where
  "is_json_integer (JNumber (NumInt i)) \<longleftrightarrow>
     as_i64 (JNumber (NumInt i)) \<noteq> None \<or> as_u64 (JNumber (NumInt i)) \<noteq> None"
| "is_json_integer (JNumber (NumFloat m e)) \<longleftrightarrow> float_is_integral m e"
| "is_json_integer _ \<longleftrightarrow> False"

section \<open>What comes from outside the repository\<close>

text \<open>
  The text form of JSON (\<^verbatim>\<open>serde_json\<close>'s \<^verbatim>\<open>to_string\<close> and
  \<^verbatim>\<open>from_str\<close>) and the process environment are parameters.
\<close>

record host =
  render :: "json \<Rightarrow> string"
  parse_json :: "string \<Rightarrow> json option"
  env_var :: "string \<Rightarrow> string option"

section \<open>Laws\<close>

lemma map_of_obj_insert: "sorted_wrt (<) (map fst kvs) \<Longrightarrow>
    map_of (obj_insert k v kvs) j = (if j = k then Some v else map_of kvs j)"
  by (induction kvs) (auto split: if_splits)

lemma fst_set_obj_insert: "fst ` set (obj_insert k v kvs) = insert k (fst ` set kvs)"
  by (induction k v kvs rule: obj_insert.induct) (simp, simp add: insert_commute)

lemma sorted_obj_insert:
  "sorted_wrt (<) (map fst kvs) \<Longrightarrow> sorted_wrt (<) (map fst (obj_insert k v kvs))"
proof (induction kvs)
  case Nil
  show ?case by simp
next
  case (Cons jw kvs)
  obtain j w where [simp]: "jw = (j, w)" by (cases jw)
  have "\<forall>x \<in> fst ` set (obj_insert k v kvs). j < x" if "j < k"
    using Cons.prems that by (auto simp: fst_set_obj_insert)
  with Cons show ?case by (auto simp: not_less_iff_gr_or_eq)
qed

lemma sorted_obj_of:
  fixes kvs :: "(string \<times> 'v) list"
  shows "sorted_wrt (<) (map fst (obj_of kvs))"
proof -
  have "sorted_wrt (<) (map fst (fold (\<lambda>(k, v). obj_insert k v) kvs acc))"
    if "sorted_wrt (<) (map fst acc)" for acc :: "(string \<times> 'v) list"
    using that by (induction kvs arbitrary: acc) (auto simp: sorted_obj_insert)
  then show ?thesis by (simp add: obj_of_def)
qed

lemma is_json_integer_wf: "wf_number (NumInt i) \<Longrightarrow> is_json_integer (JNumber (NumInt i))"
  by (auto simp: wf_number_def)

lemma float_is_integral_iff:
  "float_is_integral m e \<longleftrightarrow> (\<exists>k. (0 \<le> e \<and> k = m * 2 ^ nat e) \<or> (e < 0 \<and> m = k * 2 ^ nat (- e)))"
proof (cases "0 \<le> e")
  case True
  then show ?thesis by (auto simp: float_is_integral_def)
next
  case False
  then show ?thesis by (auto simp: float_is_integral_def dvd_def mult.commute)
qed

end
