(* ===== verification/Errors.thy ===== *)
theory Errors
  imports Prelude
begin

text \<open>
  The error values of \<^verbatim>\<open>src/error.rs\<close>: the validator's findings, and the error enums
  of plans, tools and the executor with their \<^verbatim>\<open>Display\<close> text.  A wrapped foreign
  error (I/O, JSON, YAML) is its text.
\<close>

section \<open>Validation errors\<close>

datatype validation_error_kind =
    MissingDependency | CyclicDependency | UnreachableStep | UnknownPlaceholder
  | MalformedPlaceholder | UnknownTool | MissingRequiredArgument | TypeMismatch
  | ForbiddenStepType | PromptCallConstraint | DuplicateStepId | EmptyPlan
  | InvalidStepConfig | MissingRootDirectoryInput | OtherKind

record validation_error =
  ve_step_id :: "string option"
  ve_field :: "string option"
  ve_kind :: validation_error_kind
  ve_message :: string

definition ve_plan_err :: "validation_error_kind \<Rightarrow> string \<Rightarrow> validation_error" where
  "ve_plan_err kind message =
     \<lparr>ve_step_id = None, ve_field = None, ve_kind = kind, ve_message = message\<rparr>"

definition ve_step_err :: "string \<Rightarrow> validation_error_kind \<Rightarrow> string \<Rightarrow> validation_error" where
  "ve_step_err sid kind message =
     \<lparr>ve_step_id = Some sid, ve_field = None, ve_kind = kind, ve_message = message\<rparr>"

definition ve_field_err ::
    "string \<Rightarrow> string \<Rightarrow> validation_error_kind \<Rightarrow> string \<Rightarrow> validation_error" where
  "ve_field_err sid field kind message =
     \<lparr>ve_step_id = Some sid, ve_field = Some field, ve_kind = kind, ve_message = message\<rparr>"

definition show_validation_error :: "validation_error \<Rightarrow> string" where
  "show_validation_error e =
     (case (ve_step_id e, ve_field e) of
        (Some s, Some fld) \<Rightarrow> fmt ''[step:{} field:{}] {}'' [s, fld, ve_message e]
      | (Some s, None) \<Rightarrow> fmt ''[step:{}] {}'' [s, ve_message e]
      | _ \<Rightarrow> ve_message e)"

section \<open>Plan errors\<close>

datatype plan_error =
    PE_NotFound string
  | PE_ValidationFailed nat string
  | PE_Json string
  | PE_Io string
  | PE_Invalid string
  | PE_UnknownInput string string string
  | PE_MissingRequiredInput string string
  | PE_InputTypeMismatch string string string

definition bullet :: string where
  "bullet = [CHR 0xE2, CHR 0x80, CHR 0xA2]"

definition newline :: string where
  "newline = [CHR 0x0A]"

definition bullet_list :: "string list \<Rightarrow> string" where
  "bullet_list errors = join newline (map (\<lambda>e. fmt ''{} {}'' [bullet, e]) errors)"

definition pe_validation :: "validation_error list \<Rightarrow> plan_error" where
  "pe_validation errors =
     PE_ValidationFailed (length errors)
       (join newline (map (\<lambda>e. fmt ''  {} {}'' [bullet, show_validation_error e]) errors))"

fun show_plan_error :: "plan_error \<Rightarrow> string" where
  "show_plan_error (PE_NotFound pid) = fmt ''plan not found: {}'' [pid]"
| "show_plan_error (PE_ValidationFailed n errors) =
     fmt ''validation failed with {} error(s):{}{}'' [nat_str n, newline, errors]"
| "show_plan_error (PE_Json e) = fmt ''serialisation error: {}'' [e]"
| "show_plan_error (PE_Io e) = fmt ''I/O error: {}'' [e]"
| "show_plan_error (PE_Invalid m) = fmt ''invalid plan structure: {}'' [m]"
| "show_plan_error (PE_UnknownInput name plan expected) =
     fmt ''unknown input '{}' for plan '{}'; expected: {}'' [name, plan, expected]"
| "show_plan_error (PE_MissingRequiredInput name plan) =
     fmt ''missing required input '{}' for plan '{}{}'' [name, plan, squote]"
| "show_plan_error (PE_InputTypeMismatch name expected actual) =
     fmt ''input '{}' must be {}, got {}'' [name, expected, actual]"

section \<open>Tool errors\<close>

datatype tool_error =
    TE_NotFound string
  | TE_Catalog string
  | TE_Execution string string
  | TE_Timeout string nat string
  | TE_Yaml string
  | TE_Io string

definition te_timeout :: "string \<Rightarrow> nat \<Rightarrow> tool_error" where
  "te_timeout tool secs = TE_Timeout tool secs []"

text \<open>Characters of a UTF-8 string are counted by their first bytes.\<close>

definition utf8_cont :: "char \<Rightarrow> bool" where
  "utf8_cont c \<longleftrightarrow> CHR 0x80 \<le> c \<and> c \<le> CHR 0xBF"

definition char_count :: "string \<Rightarrow> nat" where
  "char_count s = length (filter (\<lambda>c. \<not> utf8_cont c) s)"

fun take_chars :: "nat \<Rightarrow> string \<Rightarrow> string" where
  "take_chars n [] = []"
| "take_chars n (c # cs) =
     (if utf8_cont c then c # take_chars n cs
      else case n of 0 \<Rightarrow> [] | Suc m \<Rightarrow> c # take_chars m cs)"

definition MAX_TIMEOUT_OUTPUT_EXCERPT_CHARS :: nat where
  "MAX_TIMEOUT_OUTPUT_EXCERPT_CHARS = 4000"

definition truncate_excerpt :: "string \<Rightarrow> string" where
  "truncate_excerpt s =
     (if char_count s \<le> MAX_TIMEOUT_OUTPUT_EXCERPT_CHARS then s
      else take_chars MAX_TIMEOUT_OUTPUT_EXCERPT_CHARS s @ ''...(truncated)'')"

definition format_captured_output :: "string \<Rightarrow> string \<Rightarrow> string" where
  "format_captured_output out err =
     (let out = truncate_excerpt (trim out); err = truncate_excerpt (trim err) in
      if out = [] \<and> err = [] then []
      else
        let parts = (if out \<noteq> [] then [fmt ''stdout: {}'' [out]] else [])
                  @ (if err \<noteq> [] then [fmt ''stderr: {}'' [err]] else [])
        in fmt '' {} captured before the process was killed ({})'' [em_dash, join ''; '' parts])"

definition te_timeout_with_output :: "string \<Rightarrow> nat \<Rightarrow> string \<Rightarrow> string \<Rightarrow> tool_error" where
  "te_timeout_with_output tool secs out err =
     TE_Timeout tool secs (format_captured_output out err)"

fun show_tool_error :: "tool_error \<Rightarrow> string" where
  "show_tool_error (TE_NotFound name) = fmt ''tool not found: {}'' [name]"
| "show_tool_error (TE_Catalog m) = fmt ''tool catalog error: {}'' [m]"
| "show_tool_error (TE_Execution tool m) = fmt ''tool execution failed ({}): {}'' [tool, m]"
| "show_tool_error (TE_Timeout tool secs captured) =
     fmt ''tool timed out after {}s: {}{}'' [nat_str secs, tool, captured]"
| "show_tool_error (TE_Yaml e) = fmt ''YAML parse error: {}'' [e]"
| "show_tool_error (TE_Io e) = fmt ''I/O error: {}'' [e]"

section \<open>Executor errors\<close>

datatype executor_error =
    EE_RunNotFound string
  | EE_StepFailed string string
  | EE_RejectedByHuman string
  | EE_HumanResponsePending string
  | EE_InvalidResume string string
  | EE_Tool tool_error
  | EE_Plan plan_error
  | EE_Io string
  | EE_Storage string

fun show_executor_error :: "executor_error \<Rightarrow> string" where
  "show_executor_error (EE_RunNotFound rid) = fmt ''run not found: {}'' [rid]"
| "show_executor_error (EE_StepFailed sid m) =
     fmt ''step execution failed (step: {}): {}'' [sid, m]"
| "show_executor_error (EE_RejectedByHuman sid) =
     fmt ''run rejected by the operator at step {}'' [sid]"
| "show_executor_error (EE_HumanResponsePending sid) =
     fmt ''human response pending at step {}'' [sid]"
| "show_executor_error (EE_InvalidResume rid reason) =
     fmt ''cannot resume run '{}': {}'' [rid, reason]"
| "show_executor_error (EE_Tool e) = fmt ''tool error: {}'' [show_tool_error e]"
| "show_executor_error (EE_Plan e) = fmt ''plan error: {}'' [show_plan_error e]"
| "show_executor_error (EE_Io e) = fmt ''I/O error: {}'' [e]"
| "show_executor_error (EE_Storage m) = fmt ''storage error: {}'' [m]"

section \<open>Laws\<close>

lemma char_count_take_chars: "char_count (take_chars n s) \<le> n"
  by (induction n s rule: take_chars.induct) (auto simp: char_count_def split: nat.split)

lemma char_count_append: "char_count (x @ y) = char_count x + char_count y"
  by (simp add: char_count_def)

lemma char_count_le: "char_count s \<le> length s"
  by (simp add: char_count_def)

lemma truncate_excerpt_bound:
  "char_count (truncate_excerpt s) \<le> MAX_TIMEOUT_OUTPUT_EXCERPT_CHARS + 14"
proof -
  have "char_count ''...(truncated)'' \<le> 14"
    by (rule order_trans [OF char_count_le]) simp
  with char_count_take_chars [of MAX_TIMEOUT_OUTPUT_EXCERPT_CHARS s] show ?thesis
    by (simp add: truncate_excerpt_def char_count_append)
qed

end
