(* ===== verification/PlanTypes.thy ===== *)
theory PlanTypes
  imports Json Errors "HOL-Library.Word"
begin

text \<open>
  The plan IR of \<^verbatim>\<open>plan/types.rs\<close>: step configurations, steps, inputs, outputs,
  metadata and the plan, with the operations on them.  Field names carry a short prefix of
  their struct.  \<^verbatim>\<open>u32\<close> and \<^verbatim>\<open>u64\<close> fields are words; a
  \<^verbatim>\<open>DateTime<Utc>\<close> is an instant; an optional \<^verbatim>\<open>f32\<close> is the number
  it stands for.
\<close>

section \<open>Step types and configurations\<close>

datatype step_type =
    TToolCall | TCodeCall | THumanInteraction | TFanOut | TFanIn | TPromptCall | TCondition
  | TAgentCall

fun show_step_type :: "step_type \<Rightarrow> string" where
  "show_step_type TToolCall = ''TOOL_CALL''"
| "show_step_type TCodeCall = ''CODE_CALL''"
| "show_step_type THumanInteraction = ''HUMAN_INTERACTION''"
| "show_step_type TFanOut = ''FAN_OUT''"
| "show_step_type TFanIn = ''FAN_IN''"
| "show_step_type TPromptCall = ''PROMPT_CALL''"
| "show_step_type TCondition = ''CONDITION''"
| "show_step_type TAgentCall = ''AGENT_CALL''"

record tool_call_config =
  tc_tool :: string
  tc_arguments :: "json imap"

record code_call_config =
  cc_language :: string
  cc_inline :: "string option"
  cc_file :: "string option"
  cc_args :: "string list"
  cc_stdin :: "string option"
  cc_env :: "string imap"
  cc_working_dir :: "string option"
  cc_timeout_secs :: "64 word option"

record prompt_call_config =
  pc_model :: string
  pc_system_prompt :: "string option"
  pc_user_prompt :: string
  pc_output_field :: string
  pc_max_tokens :: "32 word option"
  pc_temperature :: "number option"

record agent_call_config =
  ac_objective :: string
  ac_working_dir :: string
  ac_timeout_secs :: "64 word option"

record human_config =
  hi_prompt :: string
  hi_response_field :: string
  hi_approval_required :: bool

record fan_out_config =
  fo_over :: string
  fo_item_var :: string
  fo_spawn_steps :: "string list"
  fo_until :: "string option"

record fan_in_config =
  fi_from_steps :: "string list"
  fi_collect_field :: string

record condition_config =
  cd_expression :: string
  cd_true_steps :: "string list"
  cd_false_steps :: "string list"

datatype step_config =
    ToolCall tool_call_config
  | CodeCall code_call_config
  | HumanInteraction human_config
  | FanOut fan_out_config
  | FanIn fan_in_config
  | PromptCall prompt_call_config
  | Condition condition_config
  | AgentCall agent_call_config

fun config_step_type :: "step_config \<Rightarrow> step_type" where
  "config_step_type (ToolCall _) = TToolCall"
| "config_step_type (CodeCall _) = TCodeCall"
| "config_step_type (HumanInteraction _) = THumanInteraction"
| "config_step_type (FanOut _) = TFanOut"
| "config_step_type (FanIn _) = TFanIn"
| "config_step_type (PromptCall _) = TPromptCall"
| "config_step_type (Condition _) = TCondition"
| "config_step_type (AgentCall _) = TAgentCall"

section \<open>Plans\<close>

record retry_policy =
  rp_max_attempts :: "32 word"
  rp_delay_secs :: "64 word"
  rp_backoff :: bool

datatype input_kind = KValue | KFilePath | KOutputFilePath | KDirectoryPath

definition requires_string :: "input_kind \<Rightarrow> bool" where
  "requires_string k \<longleftrightarrow> k \<noteq> KValue"

record plan_input =
  in_name :: string
  in_description :: "string option"
  in_value_type :: string
  in_required :: bool
  in_default :: "json option"
  in_kind :: input_kind

definition ROOT_DIRECTORY_INPUT :: string where
  "ROOT_DIRECTORY_INPUT = ''root_directory''"

definition effective_input_kind :: "plan_input \<Rightarrow> input_kind" where
  "effective_input_kind i =
     (if in_kind i = KValue \<and> in_name i = ROOT_DIRECTORY_INPUT then KDirectoryPath
      else in_kind i)"

record plan_output =
  po_name :: string
  po_description :: "string option"
  po_value_type :: string

record plan_output_ref =
  or_name :: string
  or_description :: "string option"
  or_source :: string

record plan_step =
  s_id :: string
  s_name :: string
  s_description :: "string option"
  s_config :: step_config
  s_depends_on :: "string list"
  s_outputs :: "plan_output list"
  s_timeout_secs :: "64 word option"
  s_retry :: "retry_policy option"

definition step_type_of :: "plan_step \<Rightarrow> step_type" where
  "step_type_of s = config_step_type (s_config s)"

datatype plan_status = Draft | Published

type_synonym instant = int

record plan_metadata =
  m_id :: string
  m_version :: "32 word"
  m_created_at :: instant
  m_updated_at :: instant
  m_compiled_by :: "string option"
  m_intent :: "string option"
  m_parent_plan_id :: "string option"
  m_parent_version :: "32 word option"
  m_status :: plan_status
  m_solution_design :: "string option"

text \<open>The fresh UUID and the clock are arguments.\<close>

definition metadata_new :: "string \<Rightarrow> instant \<Rightarrow> string option \<Rightarrow> plan_metadata" where
  "metadata_new uuid now intent =
     \<lparr>m_id = uuid, m_version = 1, m_created_at = now, m_updated_at = now,
      m_compiled_by = None, m_intent = intent, m_parent_plan_id = None,
      m_parent_version = None, m_status = Published, m_solution_design = None\<rparr>"

definition next_version :: "instant \<Rightarrow> plan_metadata \<Rightarrow> plan_metadata" where
  "next_version now m = m\<lparr>m_version := m_version m + 1, m_updated_at := now\<rparr>"

definition is_draft :: "plan_metadata \<Rightarrow> bool" where
  "is_draft m \<longleftrightarrow> m_status m = Draft"

record plan =
  p_metadata :: plan_metadata
  p_name :: string
  p_description :: "string option"
  p_inputs :: "plan_input list"
  p_config :: "json imap"
  p_steps :: "plan_step list"
  p_outputs :: "plan_output_ref list"

definition plan_find_step :: "plan \<Rightarrow> string \<Rightarrow> plan_step option" where
  "plan_find_step p i = find (\<lambda>s. s_id s = i) (p_steps p)"

definition requires_root_directory :: "plan \<Rightarrow> bool" where
  "requires_root_directory p \<longleftrightarrow>
     list_ex (\<lambda>s. case s_config s of CodeCall _ \<Rightarrow> True | AgentCall _ \<Rightarrow> True | _ \<Rightarrow> False)
       (p_steps p)"

definition root_directory_input :: "plan \<Rightarrow> plan_input option" where
  "root_directory_input p = find (\<lambda>i. in_name i = ROOT_DIRECTORY_INPUT) (p_inputs p)"

section \<open>Resolving the inputs of one invocation\<close>

definition value_defers_to_default :: "json \<Rightarrow> bool" where
  "value_defers_to_default v \<longleftrightarrow> is_null v \<or> as_str v = Some []"

definition input_value_matches_type :: "json \<Rightarrow> string \<Rightarrow> bool" where
  "input_value_matches_type v t \<longleftrightarrow>
     (if is_null v then True
      else if t = ''any'' then True
      else if t = ''string'' then is_string v
      else if t = ''number'' then is_number v
      else if t = ''integer'' then is_json_integer v
      else if t = ''boolean'' then is_boolean v
      else if t = ''object'' then is_object v
      else if t = ''array'' then is_array v
      else False)"

fun json_type_name :: "json \<Rightarrow> string" where
  "json_type_name JNull = ''null''"
| "json_type_name (JBool _) = ''boolean''"
| "json_type_name (JNumber (NumInt _)) = ''integer''"
| "json_type_name (JNumber (NumFloat _ _)) = ''number''"
| "json_type_name (JString _) = ''string''"
| "json_type_name (JArray _) = ''array''"
| "json_type_name (JObject _) = ''object''"

text \<open>The value one declared input takes: the body of the second loop.\<close>

definition resolve_input :: "plan \<Rightarrow> json imap \<Rightarrow> plan_input \<Rightarrow> plan_error + json" where
  "resolve_input p provided i =
     (let supplied = (case im_get provided (in_name i) of None \<Rightarrow> None
                      | Some v \<Rightarrow> if in_default i \<noteq> None \<and> value_defers_to_default v then None
                                   else Some v);
          chosen = (case supplied of Some v \<Rightarrow> Some v | None \<Rightarrow> in_default i)
      in case (case chosen of Some v \<Rightarrow> Inr v
               | None \<Rightarrow> if in_required i then Inl (PE_MissingRequiredInput (in_name i) (p_name p))
                         else Inr JNull)
         of Inl e \<Rightarrow> Inl e
          | Inr v \<Rightarrow>
              if in_required i \<and> in_value_type i \<noteq> ''any'' \<and> is_null v then
                Inl (PE_InputTypeMismatch (in_name i) (in_value_type i) (json_type_name v))
              else if \<not> input_value_matches_type v (in_value_type i) then
                Inl (PE_InputTypeMismatch (in_name i) (in_value_type i) (json_type_name v))
              else Inr v)"

fun resolve_inputs_loop ::
    "plan \<Rightarrow> json imap \<Rightarrow> plan_input list \<Rightarrow> json imap \<Rightarrow> plan_error + json imap" where
  "resolve_inputs_loop p provided [] resolved = Inr resolved"
| "resolve_inputs_loop p provided (i # is) resolved =
     (case resolve_input p provided i of Inl e \<Rightarrow> Inl e
      | Inr v \<Rightarrow> resolve_inputs_loop p provided is (im_insert (in_name i) v resolved))"

definition resolve_inputs :: "plan \<Rightarrow> json imap \<Rightarrow> plan_error + json imap" where
  "resolve_inputs p provided =
     (case find (\<lambda>name. \<not> list_ex (\<lambda>i. in_name i = name) (p_inputs p)) (im_keys provided) of
        Some name \<Rightarrow>
          Inl (PE_UnknownInput name (p_name p) (join '', '' (map in_name (p_inputs p))))
      | None \<Rightarrow> resolve_inputs_loop p provided (p_inputs p) [])"

section \<open>Looking a step up\<close>

lemma plan_find_step_Some: "plan_find_step p i = Some s \<Longrightarrow> s \<in> set (p_steps p) \<and> s_id s = i"
  unfolding plan_find_step_def find_Some_iff by auto

lemma plan_find_step_None: "plan_find_step p i = None \<longleftrightarrow> i \<notin> s_id ` set (p_steps p)"
  by (auto simp: plan_find_step_def find_None_iff)

lemma plan_find_step_distinct:
  "distinct (map s_id (p_steps p)) \<Longrightarrow> s \<in> set (p_steps p) \<Longrightarrow> plan_find_step p (s_id s) = Some s"
proof -
  have "distinct (map s_id xs) \<Longrightarrow> s \<in> set xs \<Longrightarrow> find (\<lambda>t. s_id t = s_id s) xs = Some s" for xs
    by (induction xs) (auto simp: image_iff)
  then show "distinct (map s_id (p_steps p)) \<Longrightarrow> s \<in> set (p_steps p) \<Longrightarrow> ?thesis"
    by (simp add: plan_find_step_def)
qed

section \<open>Laws of input resolution\<close>

text \<open>
  What one input's value promises: the declared type, no null for a required typed input,
  the supplied value unless it defers to a default, and the default otherwise.
\<close>

definition input_value_ok :: "json imap \<Rightarrow> plan_input \<Rightarrow> json \<Rightarrow> bool" where
  "input_value_ok provided i v \<longleftrightarrow>
     input_value_matches_type v (in_value_type i) \<and>
     (in_required i \<and> in_value_type i \<noteq> ''any'' \<longrightarrow> v \<noteq> JNull) \<and>
     (case im_get provided (in_name i) of
        Some w \<Rightarrow> (if value_defers_to_default w \<and> in_default i \<noteq> None then in_default i = Some v
                   else v = w)
      | None \<Rightarrow> (case in_default i of Some d \<Rightarrow> v = d | None \<Rightarrow> \<not> in_required i \<and> v = JNull))"

lemma is_null_iff [simp]: "is_null v \<longleftrightarrow> v = JNull"
  by (cases v) auto

lemma resolve_input_Inr: "resolve_input p provided i = Inr v \<longleftrightarrow> input_value_ok provided i v"
  unfolding resolve_input_def input_value_ok_def
  by (auto simp: Let_def split: option.splits if_splits)

lemma resolve_inputs_loop_Inr:
  "resolve_inputs_loop p provided is acc = Inr m \<Longrightarrow> distinct (map in_name is) \<Longrightarrow>
     set (im_keys acc) \<inter> in_name ` set is = {} \<Longrightarrow>
     im_keys m = im_keys acc @ map in_name is \<and>
     (\<forall>k \<in> set (im_keys acc). im_get m k = im_get acc k) \<and>
     (\<forall>i \<in> set is. \<exists>v. im_get m (in_name i) = Some v \<and> input_value_ok provided i v)"
proof (induction "is" arbitrary: acc)
  case Nil
  then show ?case by simp
next
  case (Cons i js)
  from Cons.prems(1) obtain v where v: "resolve_input p provided i = Inr v"
    and r: "resolve_inputs_loop p provided js (im_insert (in_name i) v acc) = Inr m"
    by (auto split: sum.splits)
  have "set (im_keys (im_insert (in_name i) v acc)) \<inter> in_name ` set js = {}"
    using Cons.prems by (auto simp: im_keys_insert split: if_splits)
  from Cons.IH [OF r _ this] Cons.prems v show ?case
    by (auto simp: im_keys_insert im.get_put resolve_input_Inr im_contains_iff [symmetric] image_iff
        split: if_splits)
qed

lemma resolve_inputs_loop_InrI:
  "\<forall>i \<in> set is. \<exists>v. im_get m (in_name i) = Some v \<and> resolve_input p provided i = Inr v \<Longrightarrow>
   distinct (map in_name is) \<Longrightarrow> set (im_keys acc) \<inter> in_name ` set is = {} \<Longrightarrow>
   resolve_inputs_loop p provided is acc =
     Inr (acc @ map (\<lambda>i. (in_name i, the (im_get m (in_name i)))) is)"
proof (induction "is" arbitrary: acc)
  case Nil
  then show ?case by simp
next
  case (Cons i js)
  obtain v where v: "im_get m (in_name i) = Some v" "resolve_input p provided i = Inr v"
    using Cons.prems(1) by auto
  have ins: "im_insert (in_name i) v acc = acc @ [(in_name i, v)]"
    using Cons.prems(3)
    by (simp add: im_insert_def im_keys_def update_nonempty) (induction acc; auto)
  have "set (im_keys (acc @ [(in_name i, v)])) \<inter> in_name ` set js = {}"
    using Cons.prems by (auto simp: im_keys_def)
  from Cons.IH [OF _ _ this] Cons.prems v ins show ?case by simp
qed

lemma resolve_inputs_Inr:
  assumes "distinct (map in_name (p_inputs p))"
  shows "resolve_inputs p provided = Inr m \<longleftrightarrow>
    set (im_keys provided) \<subseteq> in_name ` set (p_inputs p) \<and>
    im_keys m = map in_name (p_inputs p) \<and>
    (\<forall>i \<in> set (p_inputs p). \<exists>v. im_get m (in_name i) = Some v \<and> input_value_ok provided i v)"
    (is "?l \<longleftrightarrow> ?sub \<and> ?keys \<and> ?vals")
proof
  assume l: ?l
  then have "find (\<lambda>name. \<not> list_ex (\<lambda>i. in_name i = name) (p_inputs p)) (im_keys provided) = None"
    and loop: "resolve_inputs_loop p provided (p_inputs p) [] = Inr m"
    by (auto simp: resolve_inputs_def split: option.splits)
  then show "?sub \<and> ?keys \<and> ?vals"
    using resolve_inputs_loop_Inr [OF loop assms]
    by (fastforce simp: find_None_iff list_ex_iff im_keys_def)
next
  assume r: "?sub \<and> ?keys \<and> ?vals"
  then have none: "find (\<lambda>name. \<not> list_ex (\<lambda>i. in_name i = name) (p_inputs p)) (im_keys provided) = None"
    by (auto simp: find_None_iff list_ex_iff)
  have vals: "\<forall>i \<in> set (p_inputs p). \<exists>v. im_get m (in_name i) = Some v \<and> resolve_input p provided i = Inr v"
    using r by (simp add: resolve_input_Inr)
  have d: "distinct (map fst m)"
    using r assms by (simp add: im_keys_def)
  have "map (\<lambda>k. (k, the (im_get m k))) (map fst m) = m"
    using d by (auto simp: im_get_def intro!: map_idI)
  moreover have "map (\<lambda>i. (in_name i, the (im_get m (in_name i)))) (p_inputs p)
      = map (\<lambda>k. (k, the (im_get m k))) (map in_name (p_inputs p))"
    by simp
  ultimately have "map (\<lambda>i. (in_name i, the (im_get m (in_name i)))) (p_inputs p) = m"
    using r by (simp only: im_keys_def)
  with resolve_inputs_loop_InrI [OF vals assms, of "[]"] none show ?l
    by (simp add: resolve_inputs_def im_keys_def)
qed

section \<open>Properties\<close>

text \<open>
  C30: input resolution of a plan with distinct input names.  It succeeds with a map exactly
  when the caller supplies declared names only, the map lists every declared input in
  declaration order, and every value is the supplied one, or the default an absent, null or
  empty value defers to, has the declared type, and is not null where the input is required
  and typed.
\<close>

theorem resolve_inputs_iff:
  assumes "distinct (map in_name (p_inputs p))"
  shows "resolve_inputs p provided = Inr m \<longleftrightarrow>
    set (im_keys provided) \<subseteq> in_name ` set (p_inputs p) \<and>
    im_keys m = map in_name (p_inputs p) \<and>
    (\<forall>i \<in> set (p_inputs p). \<exists>v. im_get m (in_name i) = Some v \<and> input_value_ok provided i v)"
  using assms by (rule resolve_inputs_Inr)

definition demo_inputs :: "plan_input list" where
  "demo_inputs =
     [\<lparr>in_name = ''n'', in_description = None, in_value_type = ''integer'', in_required = True,
       in_default = Some (JNumber (NumInt 3)), in_kind = KValue\<rparr>,
      \<lparr>in_name = ''s'', in_description = None, in_value_type = ''string'', in_required = False,
       in_default = None, in_kind = KValue\<rparr>]"

definition demo_plan :: plan where
  "demo_plan =
     \<lparr>p_metadata = metadata_new ''p'' 0 None, p_name = ''demo'', p_description = None,
      p_inputs = demo_inputs, p_config = [], p_steps = [], p_outputs = []\<rparr>"

lemma demo_distinct: "distinct (map in_name (p_inputs demo_plan))"
  by (simp add: demo_plan_def demo_inputs_def)

lemma demo_resolve:
  "resolve_inputs demo_plan [(''n'', JNull)] = Inr [(''n'', JNumber (NumInt 3)), (''s'', JNull)]"
  by (simp add: demo_plan_def demo_inputs_def resolve_inputs_def resolve_input_def
      value_defers_to_default_def input_value_matches_type_def im_keys_def im_get_def
      im_insert_def)

lemma resolve_inputs_iff_witness:
  "set (im_keys [(''n'', JNull)]) \<subseteq> in_name ` set (p_inputs demo_plan)"
  using resolve_inputs_iff [OF demo_distinct, of "[(''n'', JNull)]"] demo_resolve by blast

text \<open>
  Resolving already resolved inputs changes nothing, so a run that is resumed with the
  inputs it recorded runs with exactly those inputs.
\<close>

theorem resolve_inputs_idempotent:
  assumes "distinct (map in_name (p_inputs p))"
    and "resolve_inputs p provided = Inr m"
  shows "resolve_inputs p m = Inr m"
proof -
  from assms(2) have sub: "im_keys m = map in_name (p_inputs p)"
    and vals: "\<forall>i \<in> set (p_inputs p). \<exists>v. im_get m (in_name i) = Some v \<and> input_value_ok provided i v"
    by (auto simp: resolve_inputs_Inr [OF assms(1)])
  have "\<forall>i \<in> set (p_inputs p). \<exists>v. im_get m (in_name i) = Some v \<and> input_value_ok m i v"
    using vals by (fastforce simp: input_value_ok_def split: option.splits if_splits)
  with sub show ?thesis
    by (auto simp: resolve_inputs_Inr [OF assms(1)])
qed

lemma resolve_inputs_idempotent_witness:
  "resolve_inputs demo_plan [(''n'', JNumber (NumInt 3)), (''s'', JNull)]
     = Inr [(''n'', JNumber (NumInt 3)), (''s'', JNull)]"
  by (rule resolve_inputs_idempotent [OF demo_distinct demo_resolve])

end
