(* ===== verification/Runs.thy ===== *)
theory Runs
  imports PlanTypes "HOL-Library.Multiset"
begin

text \<open>
  Run records, \<^verbatim>\<open>storage/runs.rs\<close>, with the Claude usage they carry
  (\<^verbatim>\<open>ClaudeUsage\<close> of \<^verbatim>\<open>llm.rs\<close>, the totals of
  \<^verbatim>\<open>storage/llm_usage.rs\<close>).  Counters are 64-bit words, so their
  sums wrap (as in a release build; a debug build panics).
\<close>

section \<open>Statuses\<close>

datatype run_status =
    Running
  | Succeeded
  | RunFailed string string
  | WaitingForHuman string
  | Cancelled

fun run_is_failed :: "run_status \<Rightarrow> bool" where
  "run_is_failed (RunFailed _ _) = True"
| "run_is_failed _ = False"

fun show_run_status :: "run_status \<Rightarrow> string" where
  "show_run_status Running = ''running''"
| "show_run_status Succeeded = ''succeeded''"
| "show_run_status (RunFailed failed_step_id message) = fmt ''failed (step: {})'' [failed_step_id]"
| "show_run_status (WaitingForHuman step_id) = fmt ''waiting for human (step: {})'' [step_id]"
| "show_run_status Cancelled = ''cancelled''"

datatype step_run_status =
    SPending | SRunning | SSucceeded | SFailed | SSkipped | SCancelled | SWaitingForHuman | SUnknown

fun show_step_run_status :: "step_run_status \<Rightarrow> string" where
  "show_step_run_status SPending = ''pending''"
| "show_step_run_status SRunning = ''running''"
| "show_step_run_status SSucceeded = ''succeeded''"
| "show_step_run_status SFailed = ''failed''"
| "show_step_run_status SSkipped = ''skipped''"
| "show_step_run_status SCancelled = ''cancelled''"
| "show_step_run_status SWaitingForHuman = ''waiting_for_human''"
| "show_step_run_status SUnknown = ''unknown''"

datatype run_source = Chat | McpSource | Schedule

section \<open>Token usage\<close>

record token_usage =
  tu_input_tokens :: "64 word"
  tu_output_tokens :: "64 word"

definition token_usage_total :: "token_usage \<Rightarrow> 64 word" where
  "token_usage_total u = tu_input_tokens u + tu_output_tokens u"

definition token_usage_add :: "token_usage \<Rightarrow> token_usage \<Rightarrow> token_usage" where
  "token_usage_add u other =
     \<lparr>tu_input_tokens = tu_input_tokens u + tu_input_tokens other,
      tu_output_tokens = tu_output_tokens u + tu_output_tokens other\<rparr>"

record claude_usage =
  cu_input_tokens :: "64 word option"
  cu_output_tokens :: "64 word option"
  cu_cache_creation_input_tokens :: "64 word option"
  cu_cache_read_input_tokens :: "64 word option"
  cu_cache_creation_5m_input_tokens :: "64 word option"
  cu_cache_creation_1h_input_tokens :: "64 word option"
  cu_thinking_tokens :: "64 word option"
  cu_web_search_requests :: "64 word option"
  cu_web_fetch_requests :: "64 word option"
  cu_service_tier :: "string option"
  cu_inference_geo :: "string option"
  cu_raw :: json

definition or_zero :: "64 word option \<Rightarrow> 64 word" where
  "or_zero w = (case w of Some n \<Rightarrow> n | None \<Rightarrow> 0)"

definition claude_total_input :: "claude_usage \<Rightarrow> 64 word option" where
  "claude_total_input u = map_option (\<lambda>input. input + or_zero (cu_cache_creation_input_tokens u)
     + or_zero (cu_cache_read_input_tokens u)) (cu_input_tokens u)"

definition claude_total :: "claude_usage \<Rightarrow> 64 word option" where
  "claude_total u = Option.bind (claude_total_input u)
     (\<lambda>i. map_option (\<lambda>out. i + out) (cu_output_tokens u))"

datatype claude_call_outcome = CallOk | NoTextBlock | HttpError "16 word" | TransportError | InvalidJson

record claude_call_summary =
  cs_call_id :: string
  cs_attempt :: "32 word"
  cs_iteration :: "nat option"
  cs_outcome :: claude_call_outcome
  cs_usage :: "claude_usage option"

record token_totals =
  tt_calls :: "64 word"
  tt_input :: "64 word"
  tt_cache_creation :: "64 word"
  tt_cache_read :: "64 word"
  tt_output :: "64 word"
  tt_total :: "64 word"
  tt_unknown_calls :: "64 word"

definition totals_default :: token_totals where
  "totals_default = \<lparr>tt_calls = 0, tt_input = 0, tt_cache_creation = 0, tt_cache_read = 0,
     tt_output = 0, tt_total = 0, tt_unknown_calls = 0\<rparr>"

definition totals_add :: "claude_call_outcome \<Rightarrow> claude_usage option \<Rightarrow> token_totals \<Rightarrow> token_totals" where
  "totals_add outcome usage t =
     (let t = t\<lparr>tt_calls := tt_calls t + 1\<rparr> in
      case outcome of HttpError status \<Rightarrow> t
      | _ \<Rightarrow>
        (case Option.bind usage (\<lambda>u. map_option (\<lambda>n. (u, n)) (claude_total u)) of
           None \<Rightarrow> t\<lparr>tt_unknown_calls := tt_unknown_calls t + 1\<rparr>
         | Some (u, n) \<Rightarrow>
             t\<lparr>tt_input := tt_input t + or_zero (cu_input_tokens u),
               tt_cache_creation := tt_cache_creation t + or_zero (cu_cache_creation_input_tokens u),
               tt_cache_read := tt_cache_read t + or_zero (cu_cache_read_input_tokens u),
               tt_output := tt_output t + or_zero (cu_output_tokens u),
               tt_total := tt_total t + n\<rparr>))"

definition totals_total_input :: "token_totals \<Rightarrow> 64 word" where
  "totals_total_input t = tt_input t + tt_cache_creation t + tt_cache_read t"

definition totals_from_summaries :: "claude_call_summary list \<Rightarrow> token_totals" where
  "totals_from_summaries cs = fold (\<lambda>c. totals_add (cs_outcome c) (cs_usage c)) cs totals_default"

section \<open>Run records\<close>

record step_run_iteration =
  it_iteration :: nat
  it_status :: step_run_status
  it_started_at :: instant
  it_finished_at :: instant
  it_duration_ms :: "64 word"
  it_outputs :: "json imap"
  it_stdout :: "string option"
  it_stderr :: "string option"
  it_error :: "string option"
  it_token_usage :: "token_usage option"

record step_run =
  sr_step_id :: string
  sr_status :: step_run_status
  sr_started_at :: "instant option"
  sr_finished_at :: "instant option"
  sr_attempt :: "32 word"
  sr_outputs :: "json imap"
  sr_stdout :: "string option"
  sr_stderr :: "string option"
  sr_error :: "string option"
  sr_duration_ms :: "64 word option"
  sr_token_usage :: "token_usage option"
  sr_iterations :: "step_run_iteration list"
  sr_claude_calls :: "claude_call_summary list"

definition step_run_new :: "string \<Rightarrow> step_run" where
  "step_run_new step_id =
     \<lparr>sr_step_id = step_id, sr_status = SPending, sr_started_at = None, sr_finished_at = None,
      sr_attempt = 0, sr_outputs = [], sr_stdout = None, sr_stderr = None, sr_error = None,
      sr_duration_ms = None, sr_token_usage = None, sr_iterations = [], sr_claude_calls = []\<rparr>"

definition step_run_totals :: "step_run \<Rightarrow> token_totals" where
  "step_run_totals sr = totals_from_summaries (sr_claude_calls sr)"

record run =
  r_id :: string
  r_plan_id :: string
  r_plan_version :: "32 word"
  r_status :: run_status
  r_started_at :: instant
  r_finished_at :: "instant option"
  r_source :: "run_source option"
  r_inputs :: "json imap"
  r_step_runs :: "step_run imap"
  r_archived_claude_calls :: "claude_call_summary list imap"
  r_outputs :: "json imap"

definition run_new :: "string \<Rightarrow> instant \<Rightarrow> string \<Rightarrow> 32 word \<Rightarrow> run" where
  "run_new uuid now plan_id plan_version =
     \<lparr>r_id = uuid, r_plan_id = plan_id, r_plan_version = plan_version, r_status = Running,
      r_started_at = now, r_finished_at = None, r_source = None, r_inputs = [], r_step_runs = [],
      r_archived_claude_calls = [], r_outputs = []\<rparr>"

definition failed_step :: "run \<Rightarrow> step_run option" where
  "failed_step r = find (\<lambda>sr. sr_status sr = SFailed) (map snd (r_step_runs r))"

definition run_calls :: "run \<Rightarrow> claude_call_summary list" where
  "run_calls r = concat (map (\<lambda>(k, sr). sr_claude_calls sr) (r_step_runs r)) @
     concat (map snd (r_archived_claude_calls r))"

definition claude_totals :: "run \<Rightarrow> token_totals" where
  "claude_totals r = totals_from_summaries (run_calls r)"

record token_usage_summary =
  ts_prompt_call_steps :: "32 word"
  ts_usage :: token_usage

definition summary_default :: token_usage_summary where
  "summary_default = \<lparr>ts_prompt_call_steps = 0,
     ts_usage = \<lparr>tu_input_tokens = 0, tu_output_tokens = 0\<rparr>\<rparr>"

definition add_usage :: "token_usage option \<Rightarrow> token_usage_summary \<Rightarrow> token_usage_summary" where
  "add_usage usage s = (case usage of None \<Rightarrow> s
     | Some u \<Rightarrow> s\<lparr>ts_prompt_call_steps := ts_prompt_call_steps s + 1,
         ts_usage := token_usage_add (ts_usage s) u\<rparr>)"

definition token_usage_summary_of :: "run \<Rightarrow> token_usage_summary" where
  "token_usage_summary_of r =
     fold (\<lambda>(k, sr) s.
         if sr_iterations sr = [] then add_usage (sr_token_usage sr) s
         else fold (\<lambda>it. add_usage (it_token_usage it)) (sr_iterations sr) s)
       (r_step_runs r) summary_default"

section \<open>Laws of the totals\<close>

text \<open>A call adds a fixed amount to every counter.\<close>

definition totals_plus :: "token_totals \<Rightarrow> token_totals \<Rightarrow> token_totals" where
  "totals_plus t d =
     \<lparr>tt_calls = tt_calls t + tt_calls d, tt_input = tt_input t + tt_input d,
      tt_cache_creation = tt_cache_creation t + tt_cache_creation d,
      tt_cache_read = tt_cache_read t + tt_cache_read d, tt_output = tt_output t + tt_output d,
      tt_total = tt_total t + tt_total d, tt_unknown_calls = tt_unknown_calls t + tt_unknown_calls d\<rparr>"

lemma totals_add_plus: "totals_add o' u t = totals_plus t (totals_add o' u totals_default)"
  by (cases o') (auto simp: totals_add_def totals_plus_def totals_default_def Let_def split: option.split)

lemma totals_plus_commute: "totals_plus (totals_plus t a) b = totals_plus (totals_plus t b) a"
  by (simp add: totals_plus_def ac_simps)

lemma totals_add_commute:
  "totals_add o1 u1 (totals_add o2 u2 t) = totals_add o2 u2 (totals_add o1 u1 t)"
  by (metis totals_add_plus totals_plus_commute)

lemma fold_totals_permute:
  "mset cs = mset ds \<Longrightarrow>
   fold (\<lambda>c. totals_add (cs_outcome c) (cs_usage c)) cs t = fold (\<lambda>c. totals_add (cs_outcome c) (cs_usage c)) ds t"
proof -
  have "fold (\<lambda>c. totals_add (cs_outcome c) (cs_usage c)) cs =
      fold (\<lambda>c. totals_add (cs_outcome c) (cs_usage c)) ds" if "mset cs = mset ds"
    using that by (intro fold_multiset_equiv) (auto simp: totals_add_commute)
  then show "mset cs = mset ds \<Longrightarrow> ?thesis" by simp
qed

text \<open>The parts of the totals add up to the total.\<close>

definition totals_balanced :: "token_totals \<Rightarrow> bool" where
  "totals_balanced t \<longleftrightarrow> tt_total t = totals_total_input t + tt_output t"

lemma billed_total:
  "Option.bind usage (\<lambda>u. map_option (\<lambda>n. (u, n)) (claude_total u)) = Some (u, n) \<Longrightarrow>
   n = or_zero (cu_input_tokens u) + or_zero (cu_cache_creation_input_tokens u) +
     or_zero (cu_cache_read_input_tokens u) + or_zero (cu_output_tokens u)"
  by (auto simp: claude_total_def claude_total_input_def or_zero_def bind_eq_Some_conv)

lemma totals_balanced_add: "totals_balanced t \<Longrightarrow> totals_balanced (totals_add o' u t)"
  by (cases o') (auto simp: totals_balanced_def totals_total_input_def totals_add_def Let_def
      ac_simps split: option.split dest: billed_total)

lemma calls_add: "tt_calls (totals_add o' u t) = tt_calls t + 1"
  by (cases o') (auto simp: totals_add_def Let_def split: option.splits)

section \<open>Properties\<close>

text \<open>
  The usage totals of any recorded calls are balanced, in 64-bit arithmetic: the total is
  the uncached input, the cache writes, the cache reads and the output together, every call is
  counted, and the order of the calls does not matter.
\<close>

theorem usage_totals_balanced:
  "totals_balanced (totals_from_summaries cs) \<and>
   tt_calls (totals_from_summaries cs) = of_nat (length cs) \<and>
   totals_from_summaries (rev cs) = totals_from_summaries cs"
proof -
  have b: "totals_balanced t \<Longrightarrow> totals_balanced (fold (\<lambda>c. totals_add (cs_outcome c) (cs_usage c)) cs t)" for t
    by (induction cs arbitrary: t) (simp_all add: totals_balanced_add)
  have c: "tt_calls (fold (\<lambda>c. totals_add (cs_outcome c) (cs_usage c)) cs t) = tt_calls t + of_nat (length cs)" for t
    by (induction cs arbitrary: t) (simp_all add: calls_add)
  have "totals_balanced totals_default" "tt_calls totals_default = 0"
    by (simp_all add: totals_balanced_def totals_total_input_def totals_default_def)
  with b c show ?thesis
    using fold_totals_permute [of "rev cs" cs totals_default]
    by (simp add: totals_from_summaries_def)
qed

end
