(* ===== verification/ToolSchema.thy ===== *)
theory ToolSchema
  imports Json
begin

text \<open>
  \<^verbatim>\<open>tools/schema.rs\<close>: the subset of JSON Schema that tool definitions may use
  (\<open>validate_definition\<close>) and the check of a value against a schema
  (\<open>validate_instance\<close>).
\<close>

definition INPUT_KIND_ANNOTATION :: string where
  "INPUT_KIND_ANNOTATION = ''x-inxm-input-kind''"

definition is_supported_input_kind :: "string \<Rightarrow> bool" where
  "is_supported_input_kind v \<longleftrightarrow>
     v \<in> {''value'', ''file_path'', ''output_file_path'', ''directory_path''}"

definition supported_type :: "string \<Rightarrow> bool" where
  "supported_type t \<longleftrightarrow>
     t \<in> {''object'', ''array'', ''string'', ''number'', ''integer'', ''boolean'', ''null''}"

text \<open>The loop over an array of types, with the names seen so far.\<close>

fun schema_type_list :: "string \<Rightarrow> nat \<Rightarrow> json list \<Rightarrow> string list \<Rightarrow> string + string list" where
  "schema_type_list path index [] seen = Inr seen"
| "schema_type_list path index (v # vs) seen =
     (let item_path = fmt ''{}[{}]'' [path, nat_str index] in
      case as_str v of
        None \<Rightarrow> Inl (fmt ''{} must be a string'' [item_path])
      | Some name \<Rightarrow>
          if \<not> supported_type name then Inl (fmt ''{} '{}' is unsupported'' [item_path, name])
          else if name \<in> set seen then Inl (fmt ''{} duplicates '{}{}'' [item_path, name, squote])
          else schema_type_list path (Suc index) vs (seen @ [name]))"

definition schema_types :: "json \<Rightarrow> string \<Rightarrow> string + string list" where
  "schema_types t path =
     (case as_str t of
        Some single \<Rightarrow>
          if supported_type single then Inr [single]
          else Inl (fmt ''{} '{}' is unsupported'' [path, single])
      | None \<Rightarrow>
          (case as_array t of
             Some types \<Rightarrow>
               if types = [] then Inl (fmt ''{} must not be empty'' [path])
               else schema_type_list path 0 types []
           | None \<Rightarrow> Inl (fmt ''{} must be a string or an array of strings'' [path])))"

definition validate_input_kind_annotation :: "(string \<times> json) list \<Rightarrow> string \<Rightarrow> string + unit" where
  "validate_input_kind_annotation schema path =
     (case map_of schema INPUT_KIND_ANNOTATION of
        None \<Rightarrow> Inr ()
      | Some annotation \<Rightarrow>
          (case as_str annotation of
             None \<Rightarrow> Inl (fmt ''{}.{} must be a string'' [path, INPUT_KIND_ANNOTATION])
           | Some kind \<Rightarrow>
               if \<not> is_supported_input_kind kind then
                 Inl (fmt ''{}.{} '{}' is unsupported'' [path, INPUT_KIND_ANNOTATION, kind])
               else if kind \<in> {''file_path'', ''output_file_path'', ''directory_path''} \<and>
                       Option.bind (map_of schema ''type'') as_str \<noteq> Some ''string'' then
                 Inl (fmt ''{}.{} '{}' requires schema type 'string{}''
                   [path, INPUT_KIND_ANNOTATION, kind, squote])
               else Inr ()))"

lemma map_of_size [termination_simp]: "map_of kvs k = Some v \<Longrightarrow> size v < size (JObject kvs)"
  by (induction kvs) (auto split: if_splits)

lemma entry_size: "(k, v) \<in> set kvs \<Longrightarrow> size v < size (JObject kvs)"
  by (induction kvs) auto

lemma element_size: "v \<in> set vs \<Longrightarrow> size v < size (JArray vs)"
  by (induction vs) auto

function validate_definition_at :: "json \<Rightarrow> string \<Rightarrow> string + unit" where
  "validate_definition_at schema path =
     (case schema of
        JObject object \<Rightarrow>
          and_then
            (case map_of object ''type'' of None \<Rightarrow> Inr ()
             | Some t \<Rightarrow> (case schema_types t (fmt ''{}.type'' [path]) of Inl e \<Rightarrow> Inl e | Inr _ \<Rightarrow> Inr ()))
          (and_then
            (case map_of object ''required'' of None \<Rightarrow> Inr ()
             | Some r \<Rightarrow>
                 (case as_array r of None \<Rightarrow> Inl (fmt ''{}.required must be an array'' [path])
                  | Some names \<Rightarrow> fail_if (list_ex (\<lambda>n. \<not> is_string n) names)
                      (fmt ''{}.required entries must be strings'' [path])))
          (and_then
            (case map_of object ''properties'' of None \<Rightarrow> Inr ()
             | Some (JObject properties) \<Rightarrow>
                 try_each (\<lambda>(name, property).
                   validate_definition_at property (fmt ''{}.properties.{}'' [path, name])) properties
             | Some _ \<Rightarrow> Inl (fmt ''{}.properties must be an object'' [path]))
          (and_then
            (case map_of object ''items'' of None \<Rightarrow> Inr ()
             | Some items \<Rightarrow> validate_definition_at items (fmt ''{}.items'' [path]))
          (and_then
            (case map_of object ''enum'' of None \<Rightarrow> Inr ()
             | Some e \<Rightarrow> fail_if (\<not> is_array e) (fmt ''{}.enum must be an array'' [path]))
          (and_then (validate_input_kind_annotation object path)
            (try_each (\<lambda>annotation.
               case map_of object annotation of None \<Rightarrow> Inr ()
               | Some v \<Rightarrow> fail_if (\<not> is_boolean v) (fmt ''{}.{} must be a boolean'' [path, annotation]))
               [''sensitive'', ''x-sensitive'', ''writeOnly'']))))))
      | _ \<Rightarrow> Inl (fmt ''{}: schema must be an object'' [path]))"
  by pat_completeness auto
termination
  by (relation "measure (\<lambda>(schema, path). size schema)") (fastforce dest: map_of_size entry_size)+

declare validate_definition_at.simps [simp del]

definition validate_definition :: "json \<Rightarrow> string + unit" where
  "validate_definition schema = validate_definition_at schema ''$''"

section \<open>Checking a value\<close>

fun value_kind :: "json \<Rightarrow> string" where
  "value_kind JNull = ''null''"
| "value_kind (JBool _) = ''boolean''"
| "value_kind (JNumber _) = ''number''"
| "value_kind (JString _) = ''string''"
| "value_kind (JArray _) = ''array''"
| "value_kind (JObject _) = ''object''"

definition matches_schema_type :: "json \<Rightarrow> string \<Rightarrow> bool" where
  "matches_schema_type v expected \<longleftrightarrow>
     (if expected = ''object'' then is_object v
      else if expected = ''array'' then is_array v
      else if expected = ''string'' then is_string v
      else if expected = ''number'' then is_number v
      else if expected = ''integer'' then is_json_integer v
      else if expected = ''boolean'' then is_boolean v
      else if expected = ''null'' then is_null v
      else False)"

definition string_entries :: "json \<Rightarrow> string list" where
  "string_entries v = (case as_array v of None \<Rightarrow> [] | Some vs \<Rightarrow> List.map_filter as_str vs)"

text \<open>The items of an array are checked with their index in the path.\<close>

function validate_at :: "json \<Rightarrow> json \<Rightarrow> string \<Rightarrow> string + unit" where
  "validate_at schema v path =
     (case schema of
        JObject schema \<Rightarrow>
          and_then
            (case map_of schema ''type'' of None \<Rightarrow> Inr ()
             | Some t \<Rightarrow>
                 (case schema_types t (fmt ''{}.type'' [path]) of
                    Inl e \<Rightarrow> Inl e
                  | Inr expected \<Rightarrow>
                      fail_if (\<not> list_ex (matches_schema_type v) expected)
                        (fmt ''{}: expected {}, got {}'' [path, join '' or '' expected, value_kind v])))
          (and_then
            (case Option.bind (map_of schema ''enum'') as_array of None \<Rightarrow> Inr ()
             | Some allowed \<Rightarrow>
                 fail_if (v \<notin> set allowed) (fmt ''{}: value is not in enum'' [path]))
          (and_then
            (case v of
               JObject object \<Rightarrow>
                 and_then
                   (case map_of schema ''required'' of None \<Rightarrow> Inr ()
                    | Some r \<Rightarrow>
                        try_each (\<lambda>name. fail_if (map_of object name = None)
                            (fmt ''{}: missing required property '{}{}'' [path, name, squote]))
                          (string_entries r))
                   (case map_of schema ''properties'' of
                      Some (JObject properties) \<Rightarrow>
                        try_each (\<lambda>(name, property_schema).
                            case map_of object name of None \<Rightarrow> Inr ()
                            | Some property \<Rightarrow>
                                validate_at property_schema property (fmt ''{}.{}'' [path, name]))
                          properties
                    | _ \<Rightarrow> Inr ())
             | _ \<Rightarrow> Inr ())
            (case map_of schema ''items'' of None \<Rightarrow> Inr ()
             | Some items_schema \<Rightarrow>
                 (case v of
                    JArray items \<Rightarrow>
                      try_each (\<lambda>(index, item).
                          validate_at items_schema item (fmt ''{}[{}]'' [path, nat_str index]))
                        (enumerate 0 items)
                  | _ \<Rightarrow> Inr ()))))
      | _ \<Rightarrow> Inl (fmt ''{}: schema is not an object'' [path]))"
  by pat_completeness auto
termination
  by (relation "measure (\<lambda>(schema, v, path). size schema)") (fastforce dest: map_of_size entry_size)+

declare validate_at.simps [simp del]

definition validate_instance :: "json \<Rightarrow> json \<Rightarrow> string + unit" where
  "validate_instance schema v = validate_at schema v ''$''"

section \<open>Properties\<close>

text \<open>
  What conforming to a schema means, without paths and messages: the declared types are well
  formed and one of them fits, the value is one of the enumerated ones, an object has the
  required properties and its declared ones conform, the items of an array conform.
\<close>

inductive conforms :: "json \<Rightarrow> json \<Rightarrow> bool" where
  conformsI: "conforms (JObject schema) v"
  if "\<And>t. map_of schema ''type'' = Some t \<Longrightarrow>
        \<exists>ts. schema_types t [] = Inr ts \<and> (\<exists>e \<in> set ts. matches_schema_type v e)"
    and "\<And>vs. map_of schema ''enum'' = Some (JArray vs) \<Longrightarrow> v \<in> set vs"
    and "\<And>object r n. v = JObject object \<Longrightarrow> map_of schema ''required'' = Some (JArray r) \<Longrightarrow>
        JString n \<in> set r \<Longrightarrow> map_of object n \<noteq> None"
    and "\<And>object ps n ps_n w. v = JObject object \<Longrightarrow> map_of schema ''properties'' = Some (JObject ps) \<Longrightarrow>
        (n, ps_n) \<in> set ps \<Longrightarrow> map_of object n = Some w \<Longrightarrow> conforms ps_n w"
    and "\<And>items i w. v = JArray items \<Longrightarrow> map_of schema ''items'' = Some i \<Longrightarrow> w \<in> set items \<Longrightarrow>
        conforms i w"

inductive_simps conforms_Object: "conforms (JObject schema) v"

lemma schema_type_list_path:
  "schema_type_list p i vs seen = Inr ts \<longleftrightarrow> schema_type_list q j vs seen = Inr ts"
  by (induction vs arbitrary: i j seen) (auto simp: Let_def split: option.split)

lemma schema_types_path: "schema_types t p = Inr ts \<longleftrightarrow> schema_types t q = Inr ts"
  using schema_type_list_path [of p 0] by (auto simp: schema_types_def split: option.splits)

lemma string_entries_iff: "n \<in> set (string_entries r) \<longleftrightarrow> (\<exists>vs. r = JArray vs \<and> JString n \<in> set vs)"
proof -
  have "as_str v = Some m \<longleftrightarrow> v = JString m" for v m by (cases v) auto
  then have "m \<in> set (List.map_filter as_str vs) \<longleftrightarrow> JString m \<in> set vs" for m vs
    by (force simp: List.map_filter_def image_iff)
  then show ?thesis by (cases r) (auto simp: string_entries_def)
qed

lemma ball_enumerate: "(\<forall>x \<in> set (enumerate 0 xs). P x) \<longleftrightarrow> (\<forall>k < length xs. P (k, xs ! k))"
  by (auto simp: in_set_enumerate_eq)

lemma validate_at_ok: "validate_at (JObject s) v path = Inr () \<longleftrightarrow>
      (\<forall>t. map_of s ''type'' = Some t \<longrightarrow>
        (\<exists>ts. schema_types t [] = Inr ts \<and> (\<exists>e \<in> set ts. matches_schema_type v e))) \<and>
      (\<forall>vs. map_of s ''enum'' = Some (JArray vs) \<longrightarrow> v \<in> set vs) \<and>
      (\<forall>object r n. v = JObject object \<and> map_of s ''required'' = Some (JArray r) \<and>
        JString n \<in> set r \<longrightarrow> map_of object n \<noteq> None) \<and>
      (\<forall>object ps n ps_n w. v = JObject object \<and> map_of s ''properties'' = Some (JObject ps) \<and>
        (n, ps_n) \<in> set ps \<and> map_of object n = Some w \<longrightarrow>
        validate_at ps_n w (fmt ''{}.{}'' [path, n]) = Inr ()) \<and>
      (\<forall>items i k. v = JArray items \<and> map_of s ''items'' = Some i \<and> k < length items \<longrightarrow>
        validate_at i (items ! k) (fmt ''{}[{}]'' [path, nat_str k]) = Inr ())"
proof -
  have 1: "(case map_of s ''type'' of None \<Rightarrow> Inr ()
      | Some t \<Rightarrow> (case schema_types t (fmt ''{}.type'' [path]) of Inl e \<Rightarrow> Inl e
          | Inr expected \<Rightarrow> fail_if (\<not> list_ex (matches_schema_type v) expected)
              (fmt ''{}: expected {}, got {}'' [path, join '' or '' expected, value_kind v]))) = Inr () \<longleftrightarrow>
      (\<forall>t. map_of s ''type'' = Some t \<longrightarrow>
        (\<exists>ts. schema_types t [] = Inr ts \<and> (\<exists>e \<in> set ts. matches_schema_type v e)))"
    using schema_types_path [of _ "[]" _ "fmt ''{}.type'' [path]"]
    by (auto simp: list_ex_iff split: option.split sum.split)
  have 2: "(case Option.bind (map_of s ''enum'') as_array of None \<Rightarrow> Inr ()
      | Some allowed \<Rightarrow> fail_if (v \<notin> set allowed) (fmt ''{}: value is not in enum'' [path])) = Inr () \<longleftrightarrow>
      (\<forall>vs. map_of s ''enum'' = Some (JArray vs) \<longrightarrow> v \<in> set vs)"
  proof (cases "map_of s ''enum''")
    case (Some e)
    then show ?thesis by (cases e) auto
  qed simp
  show ?thesis
    apply (subst validate_at.simps)
    unfolding json.case and_then_ok 1 2
    by (cases v)
      (auto simp: string_entries_iff ball_enumerate split: option.splits json.splits)
qed

lemma validate_at_conforms: "validate_at schema v path = Inr () \<longleftrightarrow> conforms schema v"
proof (induction "size schema" arbitrary: schema v path rule: less_induct)
  case less
  show ?case
  proof (cases schema)
    case (JObject s)
    have props: "validate_at ps_n w p = Inr () \<longleftrightarrow> conforms ps_n w"
      if "map_of s ''properties'' = Some (JObject ps)" "(n, ps_n) \<in> set ps" for ps n ps_n w p
      using less [of ps_n w p] map_of_size [OF that(1)] entry_size [OF that(2)] JObject by simp
    have items: "validate_at i w p = Inr () \<longleftrightarrow> conforms i w" if "map_of s ''items'' = Some i" for i w p
      using less [of i w p] map_of_size [OF that] JObject by simp
    show ?thesis
    proof
      assume "validate_at schema v path = Inr ()"
      then have ok: "validate_at (JObject s) v path = Inr ()" by (simp only: JObject)
      note ok = ok [THEN validate_at_ok [THEN iffD1]]
      show "conforms schema v"
        unfolding JObject
      proof (rule conformsI, goal_cases)
        case (1 t)
        with ok show ?case by (elim conjE) simp
      next
        case (2 vs)
        with ok show ?case by (elim conjE) simp
      next
        case (3 object r n)
        with ok show ?case by (elim conjE) (metis (no_types))
      next
        case (4 object ps n ps_n w)
        have "validate_at ps_n w (fmt ''{}.{}'' [path, n]) = Inr ()"
          using ok [THEN conjunct2, THEN conjunct2, THEN conjunct2, THEN conjunct1, rule_format,
              of object ps n ps_n w] 4 by simp
        with props [OF 4(2,3)] show ?case by simp
      next
        case (5 its i w)
        then obtain k where k: "k < length its" "its ! k = w" by (auto simp: in_set_conv_nth)
        have "validate_at i (its ! k) (fmt ''{}[{}]'' [path, nat_str k]) = Inr ()"
          using ok [THEN conjunct2, THEN conjunct2, THEN conjunct2, THEN conjunct2, rule_format,
              of its i k] 5 k by simp
        with k items [OF 5(2)] show ?case by simp
      qed
    next
      assume "conforms schema v"
      then have "conforms (JObject s) v" by (simp only: JObject)
      then have "validate_at (JObject s) v path = Inr ()"
      proof -
        assume "conforms (JObject s) v"
        note c = this [unfolded conforms_Object]
        show ?thesis
        proof (rule validate_at_ok [THEN iffD2], intro conjI allI impI, goal_cases)
          case (1 t)
          with c [THEN conjunct1] show ?case by simp
        next
          case (2 vs)
          with c [THEN conjunct2, THEN conjunct1] show ?case by simp
        next
          case (3 object r n)
          with c [THEN conjunct2, THEN conjunct2, THEN conjunct1] show ?case by simp
        next
          case (4 object ps n ps_n w)
          with c have "conforms ps_n w" by blast
          with 4 props [of ps n ps_n] show ?case by simp
        next
          case (5 its i k)
          with c have "conforms i (its ! k)" by (metis nth_mem)
          with 5 items [of i] show ?case by simp
        qed
      qed
      then show "validate_at schema v path = Inr ()" by (simp only: JObject)
    qed
  qed (auto simp: validate_at.simps elim: conforms.cases)
qed

text \<open>
  C33: the runtime check of tool arguments decides conformance.  For every schema and value,
  \<^verbatim>\<open>validate_instance\<close> succeeds exactly when the value conforms to the schema.
\<close>

theorem validate_instance_conforms: "validate_instance schema v = Inr () \<longleftrightarrow> conforms schema v"
  unfolding validate_instance_def by (rule validate_at_conforms)

end
