(* ===== verification/Catalog.thy ===== *)
theory Catalog
  imports ToolSchema Errors "HOL-Library.Word"
begin

text \<open>
  \<^verbatim>\<open>tools/catalog.rs\<close>: tool entries, the wire form of MCP configurations, entry
  validation, the catalog and the snapshot that keeps rejected entries beside the runnable
  ones.  YAML values (\<^verbatim>\<open>serde_yaml\<close>), URL parsing (\<^verbatim>\<open>reqwest::Url\<close>) and
  IP address parsing are parameters; reading and writing the file is not modelled.
\<close>

section \<open>Tool entries\<close>

datatype tool_kind = KSubprocess | KHttp | KMcp

record subprocess_config =
  sp_command :: string
  sp_args :: "string list"
  sp_env :: "string imap"
  sp_working_dir :: "string option"

record http_config =
  ht_base_url :: string
  ht_method :: string
  ht_path_template :: string
  ht_headers :: "string imap"
  ht_timeout_secs :: "64 word option"

datatype mcp_auth = NoAuth | OAuth "string option"

datatype mcp_transport =
    Stdio string "string list" "string imap"
  | StreamableHttp string mcp_auth

record mcp_config =
  mc_tool_name :: string
  mc_transport :: mcp_transport

datatype tool_config = Subprocess subprocess_config | Http http_config | Mcp mcp_config

fun tool_config_kind :: "tool_config \<Rightarrow> tool_kind" where
  "tool_config_kind (Subprocess _) = KSubprocess"
| "tool_config_kind (Http _) = KHttp"
| "tool_config_kind (Mcp _) = KMcp"

record tool_entry =
  te_name :: string
  te_description :: string
  te_config :: tool_config
  te_input_schema :: json
  te_output_schema :: json
  te_allowlisted :: bool
  te_timeout_secs :: "64 word option"

definition required_inputs :: "tool_entry \<Rightarrow> string list" where
  "required_inputs t =
     (case json_get (te_input_schema t) ''required'' of None \<Rightarrow> [] | Some r \<Rightarrow> string_entries r)"

section \<open>The wire form of an MCP configuration\<close>

record mcp_config_wire =
  w_tool_name :: string
  w_server_command :: "string option"
  w_server_args :: "string list"
  w_server_env :: "string imap"
  w_endpoint :: "string option"
  w_auth :: mcp_auth

text \<open>The fields a serialized configuration leaves out are read back as their defaults.\<close>

definition mcp_to_wire :: "mcp_config \<Rightarrow> mcp_config_wire" where
  "mcp_to_wire c =
     (case mc_transport c of
        Stdio cmd args env \<Rightarrow>
          \<lparr>w_tool_name = mc_tool_name c, w_server_command = Some cmd, w_server_args = args,
           w_server_env = env, w_endpoint = None, w_auth = NoAuth\<rparr>
      | StreamableHttp endpoint auth \<Rightarrow>
          \<lparr>w_tool_name = mc_tool_name c, w_server_command = None, w_server_args = [],
           w_server_env = [], w_endpoint = Some endpoint, w_auth = auth\<rparr>)"

definition mcp_of_wire :: "mcp_config_wire \<Rightarrow> string + mcp_config" where
  "mcp_of_wire w =
     (case
        (case (w_server_command w, w_endpoint w) of
           (Some cmd, None) \<Rightarrow>
             if w_auth w = NoAuth then Inr (Stdio cmd (w_server_args w) (w_server_env w))
             else Inl ''stdio MCP config cannot contain auth''
         | (None, Some endpoint) \<Rightarrow>
             if w_server_args w = [] \<and> w_server_env w = [] then Inr (StreamableHttp endpoint (w_auth w))
             else Inl ''remote MCP config cannot contain server_args or server_env''
         | _ \<Rightarrow> Inl ''MCP config must contain exactly one of server_command or endpoint'')
      of Inl e \<Rightarrow> Inl e
       | Inr t \<Rightarrow> Inr \<lparr>mc_tool_name = w_tool_name w, mc_transport = t\<rparr>)"

section \<open>Validating an entry\<close>

record url =
  u_scheme :: string
  u_host :: "string option"
  u_username :: string
  u_password :: "string option"
  u_fragment :: "string option"

record net_host =
  url_parse :: "string \<Rightarrow> string + url"
  ip_is_loopback :: "string \<Rightarrow> bool"

definition catalog_error :: "tool_entry \<Rightarrow> string \<Rightarrow> tool_error" where
  "catalog_error tool message = TE_Catalog (fmt ''tool '{}': {}'' [te_name tool, message])"

text \<open>The placeholders of an HTTP path template: \<^verbatim>\<open>{name}\<close>.\<close>

function extract_path_placeholders :: "string \<Rightarrow> string list \<Rightarrow> string + string list" where
  "extract_path_placeholders rest placeholders =
     (case split_once (CHR ''{'') rest of
        None \<Rightarrow>
          if CHR ''}'' \<in> set rest then Inl ''HTTP path_template has an unmatched closing brace''
          else Inr placeholders
      | Some (before, after_open) \<Rightarrow>
          if CHR ''}'' \<in> set before then Inl ''HTTP path_template has an unmatched closing brace''
          else (case split_once (CHR ''}'') after_open of
            None \<Rightarrow> Inl ''HTTP path_template has an unclosed placeholder''
          | Some (name, rest') \<Rightarrow>
              if name = [] \<or> CHR ''{'' \<in> set name then Inl ''HTTP path_template has a malformed placeholder''
              else extract_path_placeholders rest' (placeholders @ [name])))"
  by pat_completeness auto
termination
  by (relation "measure (\<lambda>(rest, ps). length rest)") (auto simp: split_once_Some)

declare extract_path_placeholders.simps [simp del]

definition to_ascii_upper :: "char \<Rightarrow> char" where
  "to_ascii_upper c =
     (if CHR ''a'' \<le> c \<and> c \<le> CHR ''z'' then char_of (of_char c - (32 :: nat)) else c)"

definition validate_schema :: "tool_entry \<Rightarrow> string \<Rightarrow> json \<Rightarrow> tool_error + unit" where
  "validate_schema tool field schema =
     (case validate_definition schema of
        Inl message \<Rightarrow> Inl (catalog_error tool (fmt ''{}: {}'' [field, message]))
      | Inr u \<Rightarrow> Inr ())"

definition check_path_placeholder :: "tool_entry \<Rightarrow> string \<Rightarrow> tool_error + unit" where
  "check_path_placeholder tool p =
     and_then
       (fail_if (case Option.bind (json_get (te_input_schema tool) ''properties'') as_object of
            None \<Rightarrow> True | Some items \<Rightarrow> map_of items p = None)
         (catalog_error tool (fmt ''HTTP placeholder '{{{}}}' is not declared in input_schema'' [p])))
       (fail_if (p \<notin> set (required_inputs tool))
         (catalog_error tool (fmt ''HTTP placeholder '{{{}}}' must be a required input'' [p])))"

definition validate_http_config :: "net_host \<Rightarrow> tool_entry \<Rightarrow> http_config \<Rightarrow> tool_error + unit" where
  "validate_http_config net tool config =
     and_then (fail_if (ht_timeout_secs config = Some 0)
       (catalog_error tool ''HTTP timeout_secs must be greater than zero''))
     (and_then (fail_if (map to_ascii_upper (ht_method config) \<notin>
         {''GET'', ''POST'', ''PUT'', ''DELETE'', ''PATCH'', ''HEAD'', ''OPTIONS''})
       (catalog_error tool (fmt ''unsupported HTTP method '{}{}'' [ht_method config, squote])))
     (and_then (fail_if (trim (ht_base_url config) = [] \<and> trim (ht_path_template config) = [])
       (catalog_error tool ''HTTP URL is empty''))
     (and_then
       (if trim (ht_base_url config) \<noteq> [] then
          (case url_parse net (ht_base_url config) of
             Inl e \<Rightarrow> Inl (catalog_error tool (fmt ''invalid HTTP base_url: {}'' [e]))
           | Inr url \<Rightarrow> fail_if (u_scheme url \<notin> {''http'', ''https''})
               (catalog_error tool ''HTTP base_url must use http or https''))
        else Inr ())
       (case extract_path_placeholders (ht_path_template config) [] of
          Inl message \<Rightarrow> Inl (catalog_error tool message)
        | Inr placeholders \<Rightarrow> try_each (check_path_placeholder tool) placeholders))))"

definition is_loopback_host :: "net_host \<Rightarrow> string \<Rightarrow> bool" where
  "is_loopback_host net host =
     (let host = dropWhile (\<lambda>c. c = CHR ''['') host;
          host = rev (dropWhile (\<lambda>c. c = CHR '']'') (rev host))
      in to_ascii_lowercase host = ''localhost'' \<or> ip_is_loopback net host)"

definition validate_mcp_config :: "net_host \<Rightarrow> tool_entry \<Rightarrow> mcp_config \<Rightarrow> tool_error + unit" where
  "validate_mcp_config net tool config =
     (case mc_transport config of
        Stdio cmd args env \<Rightarrow>
          fail_if (trim cmd = []) (catalog_error tool ''MCP server command is empty'')
      | StreamableHttp endpoint auth \<Rightarrow>
          (case url_parse net endpoint of
             Inl e \<Rightarrow> Inl (catalog_error tool (fmt ''invalid MCP endpoint: {}'' [e]))
           | Inr url \<Rightarrow>
               and_then (fail_if (u_scheme url \<notin> {''http'', ''https''})
                 (catalog_error tool ''MCP endpoint must use http or https''))
               (and_then (fail_if (u_host url = None)
                 (catalog_error tool ''MCP endpoint must have a host''))
               (and_then (fail_if (u_username url \<noteq> [] \<or> u_password url \<noteq> None)
                 (catalog_error tool ''MCP endpoint must not contain userinfo''))
               (and_then (fail_if (u_fragment url \<noteq> None)
                 (catalog_error tool ''MCP endpoint must not contain a fragment''))
               (fail_if (auth \<noteq> NoAuth \<and> u_scheme url \<noteq> ''https'' \<and>
                   \<not> is_loopback_host net (case u_host url of Some h \<Rightarrow> h | None \<Rightarrow> []))
                 (catalog_error tool ''OAuth MCP endpoint must use https unless its host is loopback'')))))))"

definition validate_tool_entry :: "net_host \<Rightarrow> tool_entry \<Rightarrow> tool_error + unit" where
  "validate_tool_entry net tool =
     and_then (fail_if (trim (te_name tool) = []) (TE_Catalog ''tool entry has empty name''))
     (and_then (fail_if (te_timeout_secs tool = Some 0)
       (catalog_error tool ''timeout_secs must be greater than zero''))
     (and_then (validate_schema tool ''input_schema'' (te_input_schema tool))
     (and_then (validate_schema tool ''output_schema'' (te_output_schema tool))
       (case te_config tool of
          Subprocess config \<Rightarrow>
            fail_if (trim (sp_command config) = []) (catalog_error tool ''subprocess command is empty'')
        | Http config \<Rightarrow> validate_http_config net tool config
        | Mcp config \<Rightarrow>
            if trim (mc_tool_name config) = [] then
              Inl (catalog_error tool ''MCP tool name is empty'')
            else validate_mcp_config net tool config))))"

section \<open>The catalog\<close>

type_synonym tool_catalog = "tool_entry imap"

definition catalog_new :: "tool_entry list \<Rightarrow> tool_catalog" where
  "catalog_new tools = im_extend [] (map (\<lambda>t. (te_name t, t)) tools)"

definition catalog_get :: "tool_catalog \<Rightarrow> string \<Rightarrow> tool_entry option" where
  "catalog_get c name = im_get c name"

text \<open>Strict loading: the parsed entries in file order, with the names seen so far.\<close>

fun check_entries :: "net_host \<Rightarrow> tool_entry list \<Rightarrow> string set \<Rightarrow> tool_error + unit" where
  "check_entries net [] names = Inr ()"
| "check_entries net (t # ts) names =
     and_then (validate_tool_entry net t)
     (and_then (fail_if (te_name t \<in> names)
       (TE_Catalog (fmt ''duplicate tool name '{}{}'' [te_name t, squote])))
       (check_entries net ts (insert (te_name t) names)))"

definition load_catalog :: "net_host \<Rightarrow> tool_entry list \<Rightarrow> tool_error + tool_catalog" where
  "load_catalog net tools =
     (case check_entries net tools {} of Inl e \<Rightarrow> Inl e | Inr u \<Rightarrow> Inr (catalog_new tools))"

section \<open>The snapshot\<close>

text \<open>
  YAML values are of a parameter type \<open>'y\<close>; \<open>yaml_host\<close> holds what the source uses of
  them: deserializing and serializing an entry, and the name a raw entry shows.
\<close>

record 'y yaml_host =
  y_from_value :: "'y \<Rightarrow> string + tool_entry"
  y_to_value :: "tool_entry \<Rightarrow> tool_error + 'y"
  y_name :: "'y \<Rightarrow> string option"

record 'y diagnostic =
  dg_position :: nat
  dg_name :: "string option"
  dg_error :: string
  dg_raw :: 'y

datatype 'y snapshot_entry = Valid tool_entry 'y | Quarantined "'y diagnostic"

fun into_raw :: "'y snapshot_entry \<Rightarrow> 'y" where
  "into_raw (Valid t raw) = raw"
| "into_raw (Quarantined d) = dg_raw d"

record 'y snapshot =
  sn_catalog :: tool_catalog
  sn_diagnostics :: "'y diagnostic list"
  sn_entries :: "'y snapshot_entry list"
  sn_source :: "string option"

definition classify ::
    "net_host \<Rightarrow> 'y yaml_host \<Rightarrow> tool_catalog \<Rightarrow> 'y \<Rightarrow> string + tool_entry" where
  "classify net y catalog raw =
     (case y_from_value y raw of Inl e \<Rightarrow> Inl e
      | Inr tool \<Rightarrow>
          (case validate_tool_entry net tool of Inl e \<Rightarrow> Inl (show_tool_error e)
           | Inr u \<Rightarrow>
               if im_contains catalog (te_name tool) then
                 Inl (fmt ''duplicate tool name '{}{}'' [te_name tool, squote])
               else Inr tool))"

text \<open>The second component is the diagnostic of a rejected entry.\<close>

definition push_raw ::
    "net_host \<Rightarrow> 'y yaml_host \<Rightarrow> 'y \<Rightarrow> 'y snapshot \<Rightarrow> 'y snapshot \<times> 'y diagnostic option" where
  "push_raw net y raw s =
     (case classify net y (sn_catalog s) raw of
        Inr tool \<Rightarrow>
          (s\<lparr>sn_catalog := im_insert (te_name tool) tool (sn_catalog s),
             sn_entries := sn_entries s @ [Valid tool raw]\<rparr>, None)
      | Inl e \<Rightarrow>
          (let d = \<lparr>dg_position = length (sn_entries s), dg_name = y_name y raw, dg_error = e, dg_raw = raw\<rparr>
           in (s\<lparr>sn_entries := sn_entries s @ [Quarantined d],
                 sn_diagnostics := sn_diagnostics s @ [d]\<rparr>, Some d)))"

definition from_raw_entries ::
    "net_host \<Rightarrow> 'y yaml_host \<Rightarrow> 'y list \<Rightarrow> string option \<Rightarrow> 'y snapshot" where
  "from_raw_entries net y raws source =
     fold (\<lambda>raw s. fst (push_raw net y raw s)) raws
       \<lparr>sn_catalog = [], sn_diagnostics = [], sn_entries = [], sn_source = source\<rparr>"

definition rebuild :: "net_host \<Rightarrow> 'y yaml_host \<Rightarrow> 'y snapshot \<Rightarrow> 'y snapshot" where
  "rebuild net y s = from_raw_entries net y (map into_raw (sn_entries s)) (sn_source s)"

definition is_valid_named :: "string \<Rightarrow> 'y snapshot_entry \<Rightarrow> bool" where
  "is_valid_named name e = (case e of Valid t raw \<Rightarrow> te_name t = name | Quarantined d \<Rightarrow> False)"

definition is_quarantined_at :: "'y snapshot \<Rightarrow> nat \<Rightarrow> bool" where
  "is_quarantined_at s position \<longleftrightarrow> position < length (sn_entries s) \<and>
     (case sn_entries s ! position of Quarantined d \<Rightarrow> True | Valid t raw \<Rightarrow> False)"

fun position_of :: "('a \<Rightarrow> bool) \<Rightarrow> 'a list \<Rightarrow> nat option" where
  "position_of P [] = None"
| "position_of P (x # xs) = (if P x then Some 0 else map_option Suc (position_of P xs))"

definition valid_position :: "'y snapshot \<Rightarrow> string \<Rightarrow> nat option" where
  "valid_position s name = position_of (is_valid_named name) (sn_entries s)"

definition remove_at :: "nat \<Rightarrow> 'a list \<Rightarrow> 'a list" where
  "remove_at i xs = take i xs @ drop (Suc i) xs"

definition upsert ::
    "net_host \<Rightarrow> 'y yaml_host \<Rightarrow> tool_entry \<Rightarrow> 'y snapshot \<Rightarrow> tool_error + 'y snapshot" where
  "upsert net y tool s =
     (case validate_tool_entry net tool of Inl e \<Rightarrow> Inl e
      | Inr u \<Rightarrow>
        (case y_to_value y tool of Inl e \<Rightarrow> Inl e
         | Inr raw \<Rightarrow>
           (case valid_position s (te_name tool) of
              Some position \<Rightarrow>
                Inr (rebuild net y (s\<lparr>sn_entries := (sn_entries s)[position := Valid tool raw]\<rparr>))
            | None \<Rightarrow>
                if list_ex (\<lambda>d. dg_name d = Some (te_name tool)) (sn_diagnostics s) then
                  Inl (TE_Catalog (fmt ''tool '{}' also names a quarantined entry; use its position to repair it''
                    [te_name tool]))
                else Inr (rebuild net y (s\<lparr>sn_entries := sn_entries s @ [Valid tool raw]\<rparr>)))))"

definition import_raw ::
    "net_host \<Rightarrow> 'y yaml_host \<Rightarrow> 'y \<Rightarrow> 'y snapshot \<Rightarrow> 'y snapshot \<times> 'y diagnostic option" where
  "import_raw net y raw s = push_raw net y raw s"

text \<open>The returned flag says whether an entry was removed.\<close>

definition remove_quarantined ::
    "net_host \<Rightarrow> 'y yaml_host \<Rightarrow> nat \<Rightarrow> 'y snapshot \<Rightarrow> 'y snapshot \<times> bool" where
  "remove_quarantined net y position s =
     (if \<not> is_quarantined_at s position then (s, False)
      else (rebuild net y (s\<lparr>sn_entries := remove_at position (sn_entries s)\<rparr>), True))"

definition replace_quarantined ::
    "net_host \<Rightarrow> 'y yaml_host \<Rightarrow> nat \<Rightarrow> tool_entry \<Rightarrow> 'y snapshot \<Rightarrow> tool_error + 'y snapshot" where
  "replace_quarantined net y position tool s =
     (case validate_tool_entry net tool of Inl e \<Rightarrow> Inl e
      | Inr u \<Rightarrow>
          if \<not> is_quarantined_at s position then
            Inl (TE_Catalog (fmt ''no quarantined entry at position {}'' [nat_str position]))
          else if im_contains (sn_catalog s) (te_name tool) then
            Inl (TE_Catalog (fmt ''duplicate tool name '{}{}'' [te_name tool, squote]))
          else (case y_to_value y tool of Inl e \<Rightarrow> Inl e
            | Inr raw \<Rightarrow>
                Inr (rebuild net y (s\<lparr>sn_entries := (sn_entries s)[position := Valid tool raw]\<rparr>))))"

definition remove_valid ::
    "net_host \<Rightarrow> 'y yaml_host \<Rightarrow> string \<Rightarrow> 'y snapshot \<Rightarrow> 'y snapshot \<times> bool" where
  "remove_valid net y name s =
     (case valid_position s name of None \<Rightarrow> (s, False)
      | Some position \<Rightarrow> (rebuild net y (s\<lparr>sn_entries := remove_at position (sn_entries s)\<rparr>), True))"

section \<open>The snapshot's invariant\<close>

definition valid_tools :: "'y snapshot_entry list \<Rightarrow> tool_entry list" where
  "valid_tools es = concat (map (\<lambda>e. case e of Valid t raw \<Rightarrow> [t] | Quarantined d \<Rightarrow> []) es)"

definition quarantined :: "'y snapshot_entry list \<Rightarrow> 'y diagnostic list" where
  "quarantined es = concat (map (\<lambda>e. case e of Valid t raw \<Rightarrow> [] | Quarantined d \<Rightarrow> [d]) es)"

definition snapshot_ok :: "net_host \<Rightarrow> 'y yaml_host \<Rightarrow> 'y snapshot \<Rightarrow> bool" where
  "snapshot_ok net y s \<longleftrightarrow>
     sn_catalog s = map (\<lambda>t. (te_name t, t)) (valid_tools (sn_entries s)) \<and>
     distinct (map te_name (valid_tools (sn_entries s))) \<and>
     (\<forall>t \<in> set (valid_tools (sn_entries s)). validate_tool_entry net t = Inr ()) \<and>
     sn_diagnostics s = quarantined (sn_entries s) \<and>
     (\<forall>i < length (sn_entries s). \<forall>d. sn_entries s ! i = Quarantined d \<longrightarrow> dg_position d = i)"

text \<open>The snapshots the operations can produce.\<close>

inductive reachable_snapshot :: "net_host \<Rightarrow> 'y yaml_host \<Rightarrow> 'y snapshot \<Rightarrow> bool" for net y where
  load: "reachable_snapshot net y (from_raw_entries net y raws source)"
| upsert: "reachable_snapshot net y s \<Longrightarrow> upsert net y tool s = Inr s' \<Longrightarrow> reachable_snapshot net y s'"
| import_entry: "reachable_snapshot net y s \<Longrightarrow> reachable_snapshot net y (fst (import_raw net y raw s))"
| remove_quarantined: "reachable_snapshot net y s \<Longrightarrow>
    reachable_snapshot net y (fst (remove_quarantined net y position s))"
| replace_quarantined: "reachable_snapshot net y s \<Longrightarrow>
    replace_quarantined net y position tool s = Inr s' \<Longrightarrow> reachable_snapshot net y s'"
| remove_valid: "reachable_snapshot net y s \<Longrightarrow>
    reachable_snapshot net y (fst (remove_valid net y name s))"

lemma valid_tools_snoc: "valid_tools (es @ [e]) = valid_tools es @ (case e of Valid t raw \<Rightarrow> [t] | Quarantined d \<Rightarrow> [])"
  by (simp add: valid_tools_def)

lemma quarantined_snoc: "quarantined (es @ [e]) = quarantined es @ (case e of Valid t raw \<Rightarrow> [] | Quarantined d \<Rightarrow> [d])"
  by (simp add: quarantined_def)

lemma im_insert_new: "k \<notin> set (im_keys m) \<Longrightarrow> im_insert k v m = m @ [(k, v)]"
  by (induction m) (auto simp: im_insert_def im_keys_def)

lemma push_raw_ok:
  assumes "snapshot_ok net y s"
  shows "snapshot_ok net y (fst (push_raw net y raw s))"
proof (cases "classify net y (sn_catalog s) raw")
  case (Inl e)
  with assms show ?thesis
    by (auto simp: push_raw_def snapshot_ok_def valid_tools_snoc quarantined_snoc Let_def nth_append
        less_Suc_eq)
next
  case (Inr tool)
  have keys: "im_keys (sn_catalog s) = map te_name (valid_tools (sn_entries s))"
    using assms by (simp add: snapshot_ok_def im_keys_def comp_def)
  from Inr have v: "validate_tool_entry net tool = Inr ()"
    and n: "te_name tool \<notin> set (im_keys (sn_catalog s))"
    by (auto simp: classify_def im_contains_iff split: sum.splits if_splits)
  show ?thesis
    using assms Inr v n keys
    by (auto simp: push_raw_def snapshot_ok_def valid_tools_snoc quarantined_snoc nth_append
        less_Suc_eq im_insert_new)
qed

lemma from_raw_ok: "snapshot_ok net y (from_raw_entries net y raws source)"
proof -
  have step: "snapshot_ok net y s \<Longrightarrow> snapshot_ok net y (fold (\<lambda>raw s. fst (push_raw net y raw s)) raws s)" for s
    by (induction raws arbitrary: s) (simp_all add: push_raw_ok)
  have "snapshot_ok net y \<lparr>sn_catalog = [], sn_diagnostics = [], sn_entries = [], sn_source = source\<rparr>"
    by (simp add: snapshot_ok_def valid_tools_def quarantined_def)
  from step [OF this] show ?thesis
    by (simp add: from_raw_entries_def)
qed

lemma push_raw_raws:
  "map into_raw (sn_entries (fst (push_raw net y raw s))) = map into_raw (sn_entries s) @ [raw]"
  "sn_source (fst (push_raw net y raw s)) = sn_source s"
  by (simp_all add: push_raw_def Let_def split: sum.split)

lemma from_raw_snoc:
  "from_raw_entries net y (raws @ [raw]) source = fst (push_raw net y raw (from_raw_entries net y raws source))"
  by (simp add: from_raw_entries_def)

lemma from_raw_raws:
  "map into_raw (sn_entries (from_raw_entries net y raws source)) = raws \<and>
   sn_source (from_raw_entries net y raws source) = source"
proof (induction raws rule: rev_induct)
  case Nil
  then show ?case by (simp add: from_raw_entries_def)
next
  case (snoc raw raws)
  then show ?case by (simp add: from_raw_snoc push_raw_raws)
qed

lemma rebuild_from_raw: "rebuild net y (from_raw_entries net y raws source) = from_raw_entries net y raws source"
  by (simp add: rebuild_def from_raw_raws)

lemma rebuild_rebuild: "rebuild net y (rebuild net y s) = rebuild net y s"
  by (simp add: rebuild_def [of net y s] rebuild_from_raw)

lemma rebuild_push_raw:
  assumes "rebuild net y s = s"
  shows "rebuild net y (fst (push_raw net y raw s)) = fst (push_raw net y raw s)"
proof -
  have "rebuild net y (fst (push_raw net y raw s)) = fst (push_raw net y raw (rebuild net y s))"
    by (simp add: rebuild_def push_raw_raws from_raw_snoc)
  with assms show ?thesis by simp
qed

lemma upsert_rebuilds: "upsert net y tool s = Inr s' \<Longrightarrow> \<exists>t. s' = rebuild net y t"
  by (auto simp: upsert_def split: sum.splits option.splits if_splits)

lemma replace_rebuilds: "replace_quarantined net y position tool s = Inr s' \<Longrightarrow> \<exists>t. s' = rebuild net y t"
  by (auto simp: replace_quarantined_def split: sum.splits if_splits)

lemma remove_quarantined_rebuilds:
  "fst (remove_quarantined net y position s) = s \<or>
   (\<exists>t. fst (remove_quarantined net y position s) = rebuild net y t)"
  by (auto simp: remove_quarantined_def)

lemma remove_valid_rebuilds:
  "fst (remove_valid net y name s) = s \<or> (\<exists>t. fst (remove_valid net y name s) = rebuild net y t)"
  by (auto simp: remove_valid_def split: option.splits)

lemma reachable_rebuild: "reachable_snapshot net y s \<Longrightarrow> rebuild net y s = s"
proof (induction rule: reachable_snapshot.induct)
  case (load raws source)
  show ?case by (rule rebuild_from_raw)
next
  case (upsert s tool s')
  then show ?case using upsert_rebuilds rebuild_rebuild by metis
next
  case (import_entry s raw)
  then show ?case by (simp add: import_raw_def rebuild_push_raw)
next
  case (remove_quarantined s position)
  then show ?case using remove_quarantined_rebuilds rebuild_rebuild by metis
next
  case (replace_quarantined s position tool s')
  then show ?case using replace_rebuilds rebuild_rebuild by metis
next
  case (remove_valid s name)
  then show ?case using remove_valid_rebuilds rebuild_rebuild by metis
qed

section \<open>Properties\<close>

text \<open>
  C27: the catalog snapshot after any sequence of loading, imports, edits, repairs and
  removals is what loading its raw entries afresh gives; hence the runnable catalog lists
  exactly the accepted entries in document order under distinct names, each of them passes
  validation, and the diagnostics are the rejected entries, each with its position in the
  document.
\<close>

theorem reachable_snapshot_ok:
  assumes "reachable_snapshot net y s"
  shows "from_raw_entries net y (map into_raw (sn_entries s)) (sn_source s) = s \<and> snapshot_ok net y s"
proof -
  have "rebuild net y s = s" by (rule reachable_rebuild [OF assms])
  then show ?thesis
    using from_raw_ok [of net y "map into_raw (sn_entries s)" "sn_source s"] by (simp add: rebuild_def)
qed

definition demo_net :: net_host where
  "demo_net = \<lparr>url_parse = \<lambda>u. Inl ''no url'', ip_is_loopback = \<lambda>h. False\<rparr>"

definition demo_tool :: "string \<Rightarrow> tool_entry" where
  "demo_tool name = \<lparr>te_name = name, te_description = [],
     te_config = Subprocess \<lparr>sp_command = ''ls'', sp_args = [], sp_env = [], sp_working_dir = None\<rparr>,
     te_input_schema = JObject [(''type'', JString ''object'')],
     te_output_schema = JObject [(''type'', JString ''object'')],
     te_allowlisted = True, te_timeout_secs = None\<rparr>"

definition demo_yaml :: "string yaml_host" where
  "demo_yaml = \<lparr>y_from_value = \<lambda>v. Inr (demo_tool v), y_to_value = \<lambda>t. Inr (te_name t), y_name = Some\<rparr>"

lemma reachable_snapshot_ok_witness:
  "snapshot_ok demo_net demo_yaml
     (fst (remove_valid demo_net demo_yaml ''a'' (from_raw_entries demo_net demo_yaml [''a'', ''b'', ''a''] None)))"
  by (intro reachable_snapshot_ok [THEN conjunct2] reachable_snapshot.remove_valid reachable_snapshot.load)

text \<open>
  MCP configurations survive their wire form: what is written with the fields of one
  transport is read back as the same configuration, and what is read has exactly one of a
  server command and an endpoint.
\<close>

theorem mcp_wire_roundtrip:
  "mcp_of_wire (mcp_to_wire c) = Inr c \<and>
   (mcp_of_wire w = Inr c \<longrightarrow> (w_server_command w = None) \<noteq> (w_endpoint w = None))"
  by (cases "mc_transport c")
    (auto simp: mcp_of_wire_def mcp_to_wire_def split: option.splits if_splits)

lemma mcp_wire_roundtrip_witness:
  "(Some ''srv'' = None) \<noteq> ((None :: string option) = None)"
  using mcp_wire_roundtrip [of "\<lparr>mc_tool_name = ''t'', mc_transport = Stdio ''srv'' [] []\<rparr>"
      "mcp_to_wire \<lparr>mc_tool_name = ''t'', mc_transport = Stdio ''srv'' [] []\<rparr>"]
  by (simp add: mcp_to_wire_def)

end
