(* ===== verification/ToolExecution.thy ===== *)
theory ToolExecution
  imports Catalog
begin

text \<open>
  \<^verbatim>\<open>tools/mod.rs\<close>: running a catalog tool through its adapter, with the checks of its
  input and output schemas around the call and the deadline the adapter gets.  The adapters
  are parameters over a world \<open>'w\<close>; tracing is not modelled.  Paths are Unix paths.
\<close>

record tool_output =
  to_stdout :: string
  to_stderr :: string
  to_exit_code :: "32 word"
  to_data :: json

type_synonym ('w, 'a) effect = "'w \<Rightarrow> 'w \<times> 'a"

record 'w adapters =
  ad_subprocess :: "subprocess_config \<Rightarrow> json imap \<Rightarrow> 64 word option \<Rightarrow> ('w, tool_error + tool_output) effect"
  ad_http :: "http_config \<Rightarrow> json imap \<Rightarrow> 64 word option \<Rightarrow> ('w, tool_error + tool_output) effect"
  ad_mcp :: "mcp_config \<Rightarrow> json imap \<Rightarrow> 64 word option \<Rightarrow> string option \<Rightarrow> ('w, tool_error + tool_output) effect"

text \<open>\<^verbatim>\<open>Path::join\<close>: an absolute path replaces the base.\<close>

definition path_join :: "string \<Rightarrow> string \<Rightarrow> string" where
  "path_join base p =
     (if starts_with p ''/'' then p
      else if base = [] \<or> ends_with base ''/'' then base @ p
      else base @ ''/'' @ p)"

section \<open>The output schema\<close>

definition process_output :: "tool_output \<Rightarrow> json" where
  "process_output out = JObject (obj_of
     [(''stdout'', JString (to_stdout out)), (''stderr'', JString (to_stderr out)),
      (''exit_code'', JNumber (NumInt (sint (to_exit_code out))))])"

definition fallback_output :: "host \<Rightarrow> tool_output \<Rightarrow> json" where
  "fallback_output h out =
     (if parse_json h (trim (to_stdout out)) = Some JNull then JNull
      else if is_null (to_data out) then JString (to_stdout out)
      else to_data out)"

definition output_candidates :: "json list \<Rightarrow> tool_output \<Rightarrow> json list" where
  "output_candidates types out =
     (if is_null (to_data out) then [] else [to_data out]) @
     (if list_ex (\<lambda>t. as_str t = Some ''object'') types then [process_output out] else []) @
     (if list_ex (\<lambda>t. as_str t = Some ''string'') types then [JString (to_stdout out)] else [])"

text \<open>The representation of the output that is held against the schema.\<close>

definition represented_output :: "host \<Rightarrow> tool_entry \<Rightarrow> tool_output \<Rightarrow> json" where
  "represented_output h entry out =
     (case json_get (te_output_schema entry) ''type'' of
        Some (JString single) \<Rightarrow>
          (if single = ''object'' then if is_object (to_data out) then to_data out else process_output out
           else if single = ''string'' then JString (to_stdout out)
           else fallback_output h out)
      | Some (JArray types) \<Rightarrow>
          (case find (\<lambda>c. validate_instance (te_output_schema entry) c = Inr ()) (output_candidates types out) of
             Some c \<Rightarrow> c | None \<Rightarrow> fallback_output h out)
      | _ \<Rightarrow> fallback_output h out)"

definition validate_tool_output :: "host \<Rightarrow> tool_entry \<Rightarrow> tool_output \<Rightarrow> tool_error + unit" where
  "validate_tool_output h entry out =
     (case validate_instance (te_output_schema entry) (represented_output h entry out) of
        Inl message \<Rightarrow> Inl (TE_Execution (te_name entry)
          (fmt ''tool output does not match output_schema: {}'' [message]))
      | Inr u \<Rightarrow> Inr ())"

section \<open>Execution\<close>

definition shorter_timeout :: "64 word option \<Rightarrow> 64 word option \<Rightarrow> 64 word option" where
  "shorter_timeout a b =
     (case (a, b) of
        (Some x, Some y) \<Rightarrow> Some (min x y)
      | (Some x, None) \<Rightarrow> Some x
      | (None, Some y) \<Rightarrow> Some y
      | (None, None) \<Rightarrow> None)"

definition in_workspace :: "string option \<Rightarrow> subprocess_config \<Rightarrow> subprocess_config" where
  "in_workspace workspace c =
     (case workspace of None \<Rightarrow> c
      | Some dir \<Rightarrow> c\<lparr>sp_working_dir := Some (case sp_working_dir c of None \<Rightarrow> dir
          | Some d \<Rightarrow> path_join dir d)\<rparr>)"

definition run_adapter ::
    "'w adapters \<Rightarrow> tool_entry \<Rightarrow> json imap \<Rightarrow> 64 word option \<Rightarrow> string option \<Rightarrow> ('w, tool_error + tool_output) effect" where
  "run_adapter ad entry arguments timeout workspace =
     (case te_config entry of
        Subprocess c \<Rightarrow> ad_subprocess ad (in_workspace workspace c) arguments timeout
      | Http c \<Rightarrow> ad_http ad c arguments timeout
      | Mcp c \<Rightarrow> ad_mcp ad c arguments timeout workspace)"

definition execute_tool_in_workspace ::
    "host \<Rightarrow> 'w adapters \<Rightarrow> tool_entry \<Rightarrow> json imap \<Rightarrow> 64 word option \<Rightarrow> string option \<Rightarrow>
     ('w, tool_error + tool_output) effect" where
  "execute_tool_in_workspace h ad entry arguments step_timeout workspace w =
     (case validate_instance (te_input_schema entry) (JObject (obj_of arguments)) of
        Inl message \<Rightarrow> (w, Inl (TE_Execution (te_name entry)
          (fmt ''tool input does not match input_schema: {}'' [message])))
      | Inr u \<Rightarrow>
          (case run_adapter ad entry arguments (shorter_timeout (te_timeout_secs entry) step_timeout) workspace w of
             (w', Inl e) \<Rightarrow> (w', Inl e)
           | (w', Inr out) \<Rightarrow>
               (case validate_tool_output h entry out of
                  Inl e \<Rightarrow> (w', Inl e) | Inr u \<Rightarrow> (w', Inr out))))"

definition execute_tool ::
    "host \<Rightarrow> 'w adapters \<Rightarrow> tool_entry \<Rightarrow> json imap \<Rightarrow> 64 word option \<Rightarrow> ('w, tool_error + tool_output) effect" where
  "execute_tool h ad entry arguments step_timeout =
     execute_tool_in_workspace h ad entry arguments step_timeout None"

section \<open>Laws\<close>

lemma shorter_timeout_le:
  "(t = shorter_timeout a b) \<Longrightarrow> (case t of None \<Rightarrow> a = None \<and> b = None
     | Some s \<Rightarrow> (\<forall>x. a = Some x \<longrightarrow> s \<le> x) \<and> (\<forall>y. b = Some y \<longrightarrow> s \<le> y) \<and> (a = Some s \<or> b = Some s))"
  by (auto simp: shorter_timeout_def min_def split: option.split)

lemma conforms_instance: "conforms schema v \<longleftrightarrow> validate_instance schema v = Inr ()"
  by (simp add: validate_instance_def validate_at_conforms)

section \<open>Properties\<close>


definition echo_adapters :: "nat adapters" where
  "echo_adapters = \<lparr>ad_subprocess = \<lambda>c a t w. (w + 1, Inr \<lparr>to_stdout = sp_command c, to_stderr = [], to_exit_code = 0, to_data = JNull\<rparr>),
     ad_http = \<lambda>c a t w. (w, Inl (TE_Io ''offline'')), ad_mcp = \<lambda>c a t d w. (w, Inl (TE_Io ''offline''))\<rparr>"

definition quiet_host :: host where
  "quiet_host = \<lparr>render = \<lambda>j. ''?'', parse_json = \<lambda>s. None, env_var = \<lambda>s. None\<rparr>"


end
