(* ===== verification/Scan.thy ===== *)
theory Scan
  imports Json
begin

text \<open>
  Placeholder scanning.  The executor and the validator look for \<^verbatim>\<open>${...}\<close> with
  two different regular expressions:
    the executor's \<^verbatim>\<open>\$\{([^}]+)\}\<close>, and
    the validator's \<^verbatim>\<open>\$\{([a-zA-Z_][a-zA-Z0-9_.\-]*)\}\<close>.
  A matcher says what a match at the start of a string captures and what follows it;
  \<open>segments\<close> is \<^verbatim>\<open>captures_iter\<close>, leftmost and not overlapping: each capture with
  the literal text before it, and the text after the last one.
\<close>

definition executor_match :: "string \<Rightarrow> (string \<times> string) option" where
  "executor_match s =
     (case strip_prefix s ''${'' of None \<Rightarrow> None
      | Some t \<Rightarrow>
          (case split_once (CHR ''}'') t of None \<Rightarrow> None
           | Some (k, r) \<Rightarrow> if k = [] then None else Some (k, r)))"

definition name_start :: "char \<Rightarrow> bool" where
  "name_start c \<longleftrightarrow> ascii_alpha c \<or> c = CHR ''_''"

definition path_char :: "char \<Rightarrow> bool" where
  "path_char c \<longleftrightarrow> ascii_alphanumeric c \<or> c = CHR ''_'' \<or> c = CHR ''.'' \<or> c = CHR ''-''"

definition validator_match :: "string \<Rightarrow> (string \<times> string) option" where
  "validator_match s =
     (case strip_prefix s ''${'' of None \<Rightarrow> None
      | Some t \<Rightarrow>
          (let k = takeWhile path_char t in
           case dropWhile path_char t of
             c # r \<Rightarrow> if c = CHR ''}'' \<and> k \<noteq> [] \<and> name_start (hd k) then Some (k, r) else None
           | [] \<Rightarrow> None))"

text \<open>The leftmost match: the text before it, its capture, the text after it.\<close>

fun find_match ::
    "(string \<Rightarrow> (string \<times> string) option) \<Rightarrow> string \<Rightarrow> (string \<times> string \<times> string) option" where
  "find_match m [] = None"
| "find_match m (c # cs) =
     (case m (c # cs) of
        Some (k, r) \<Rightarrow> Some ([], k, r)
      | None \<Rightarrow> map_option (\<lambda>(l, k, r). (c # l, k, r)) (find_match m cs))"

text \<open>
  The guard on the length makes the recursion total for any matcher; it holds for the
  matches of both matchers above, which consume the placeholder they match.
\<close>

function segments ::
    "(string \<Rightarrow> (string \<times> string) option) \<Rightarrow> string \<Rightarrow> (string \<times> string) list \<times> string" where
  "segments m s =
     (case find_match m s of
        None \<Rightarrow> ([], s)
      | Some (l, k, r) \<Rightarrow>
          if length r < length s then
            (case segments m r of (gs, t) \<Rightarrow> ((l, k) # gs, t))
          else ([], s))"
  by pat_completeness auto
termination
  by (relation "measure (\<lambda>(m, s). length s)") auto

declare segments.simps [simp del]

definition placeholder_keys :: "(string \<Rightarrow> (string \<times> string) option) \<Rightarrow> string \<Rightarrow> string list" where
  "placeholder_keys m s = map snd (fst (segments m s))"

text \<open>The text of a placeholder with its braces.\<close>

definition braced :: "string \<Rightarrow> string" where
  "braced k = ''${'' @ k @ ''}''"

text \<open>The namespaces of plan placeholders, as the executor tests them.\<close>

definition is_plan_placeholder_key :: "string \<Rightarrow> bool" where
  "is_plan_placeholder_key key \<longleftrightarrow>
     list_ex (starts_with key) [''input.'', ''conf.'', ''step.'', ''env.'', ''item.'']"

definition contains_plan_placeholder :: "string \<Rightarrow> bool" where
  "contains_plan_placeholder v \<longleftrightarrow>
     list_ex is_plan_placeholder_key (placeholder_keys executor_match v)"

text \<open>
  The strings of a JSON value, as the validator collects them, and the placeholder keys the
  executor finds in one.
\<close>

fun collect_from_value :: "json \<Rightarrow> string list" where
  "collect_from_value (JString s) = [s]"
| "collect_from_value (JArray vs) = concat (map collect_from_value vs)"
| "collect_from_value (JObject kvs) = concat (map (\<lambda>(k, v). collect_from_value v) kvs)"
| "collect_from_value _ = []"

fun collect_placeholder_keys :: "json \<Rightarrow> string list" where
  "collect_placeholder_keys (JString s) = placeholder_keys executor_match s"
| "collect_placeholder_keys (JObject kvs) =
     concat (map (\<lambda>(k, v). collect_placeholder_keys v) kvs)"
| "collect_placeholder_keys (JArray vs) = concat (map collect_placeholder_keys vs)"
| "collect_placeholder_keys _ = []"

lemma collect_placeholder_keys_strings: "collect_placeholder_keys v =
    concat (map (placeholder_keys executor_match) (collect_from_value v))"
proof (induction v rule: collect_from_value.induct)
  case (2 vs)
  then show ?case by (induction vs) auto
next
  case (3 kvs)
  then have "\<forall>kv \<in> set kvs. collect_placeholder_keys (snd kv) =
      concat (map (placeholder_keys executor_match) (collect_from_value (snd kv)))"
    by auto
  then show ?case by (induction kvs) (simp_all add: split_def)
qed simp_all

section \<open>The matchers' contract\<close>

locale placeholder_matcher =
  fixes m :: "string \<Rightarrow> (string \<times> string) option"
  assumes match: "m s = Some (k, r) \<Longrightarrow> s = braced k @ r"
begin

lemma find_match_Some: "find_match m s = Some (l, k, r) \<Longrightarrow> s = l @ braced k @ r"
proof (induction s arbitrary: l)
  case Nil
  then show ?case by simp
next
  case (Cons c cs)
  then show ?case by (auto split: option.splits dest: match)
qed

lemma segments_rec: "segments m s =
    (case find_match m s of
       None \<Rightarrow> ([], s)
     | Some (l, k, r) \<Rightarrow> (case segments m r of (gs, t) \<Rightarrow> ((l, k) # gs, t)))"
proof (cases "find_match m s")
  case None
  then show ?thesis by (subst segments.simps) simp
next
  case (Some x)
  then obtain l k r where x: "find_match m s = Some (l, k, r)" by (cases x) auto
  then have "length r < length s"
    by (auto dest!: find_match_Some simp: braced_def)
  with x show ?thesis by (subst segments.simps) simp
qed

lemma segments_induct [case_names no_match match]:
  assumes "\<And>s. find_match m s = None \<Longrightarrow> P s"
    and "\<And>s l k r. find_match m s = Some (l, k, r) \<Longrightarrow> s = l @ braced k @ r \<Longrightarrow> P r \<Longrightarrow> P s"
  shows "P s"
proof (induction s rule: length_induct)
  case (1 s)
  show ?case
  proof (cases "find_match m s")
    case None
    then show ?thesis by (rule assms(1))
  next
    case (Some x)
    then obtain l k r where x: "find_match m s = Some (l, k, r)" by (cases x) auto
    then have e: "s = l @ braced k @ r" by (rule find_match_Some)
    then have "P r" using 1 by (auto simp: braced_def)
    with x e show ?thesis by (rule assms(2))
  qed
qed

lemma segments_no_match: "find_match m s = None \<Longrightarrow> segments m s = ([], s)"
  by (simp add: segments_rec)

lemma segments_match: "find_match m s = Some (l, k, r) \<Longrightarrow>
    segments m s = ((l, k) # fst (segments m r), snd (segments m r))"
  by (subst segments_rec) (simp split: prod.split)

lemma keys_no_match: "find_match m s = None \<Longrightarrow> placeholder_keys m s = []"
  by (simp add: placeholder_keys_def segments_no_match)

lemma keys_match: "find_match m s = Some (l, k, r) \<Longrightarrow> placeholder_keys m s = k # placeholder_keys m r"
  by (simp add: placeholder_keys_def segments_match)

lemma segments_join: "segments m s = (gs, t) \<Longrightarrow> concat (map (\<lambda>(l, k). l @ braced k) gs) @ t = s"
proof (induction s arbitrary: gs t rule: segments_induct)
  case (no_match s)
  then show ?case by (simp add: segments_no_match)
next
  case (match s l k r)
  have "concat (map (\<lambda>(l, k). l @ braced k) (fst (segments m r))) @ snd (segments m r) = r"
    by (rule match.IH) simp
  with match.prems match.hyps(2) segments_match [OF match.hyps(1)] show ?case by auto
qed

lemma find_match_plain: "\<not> str_contains s ''${'' \<Longrightarrow> find_match m s = None"
proof (cases "find_match m s")
  case (Some x)
  then obtain l k r where "s = l @ braced k @ r" by (cases x) (auto dest: find_match_Some)
  then have "s = l @ ''${'' @ (k @ ''}'' @ r)" by (simp add: braced_def)
  moreover assume "\<not> str_contains s ''${''"
  ultimately show ?thesis by (meson str_contains_iff)
qed simp

lemma segments_plain: "\<not> str_contains s ''${'' \<Longrightarrow> segments m s = ([], s)"
  by (simp add: segments_no_match find_match_plain)

lemma keys_subtext: "k \<in> set (placeholder_keys m s) \<Longrightarrow> \<exists>a b. s = a @ braced k @ b"
proof (induction s rule: segments_induct)
  case (no_match s)
  then show ?case by (simp add: keys_no_match)
next
  case (match s l j r)
  from match.prems keys_match [OF match.hyps(1)] consider "k = j" | "k \<in> set (placeholder_keys m r)"
    by auto
  then show ?case
  proof cases
    case 1
    with match.hyps show ?thesis by blast
  next
    case 2
    with match.IH obtain a b where "r = a @ braced k @ b" by blast
    with match.hyps(2) have "s = (l @ braced j @ a) @ braced k @ b" by simp
    then show ?thesis by blast
  qed
qed

lemma keys_matched: "k \<in> set (placeholder_keys m s) \<Longrightarrow> \<exists>t r. m t = Some (k, r)"
proof (induction s rule: segments_induct)
  case (no_match s)
  then show ?case by (simp add: keys_no_match)
next
  case (match s l j r)
  have "find_match m t = Some (l', k', r') \<Longrightarrow> \<exists>t r. m t = Some (k', r)" for t l' k' r'
    by (induction t arbitrary: l') (auto split: option.splits)
  from this [OF match.hyps(1)] match.prems match.IH keys_match [OF match.hyps(1)] show ?case by auto
qed

end

section \<open>The two scanners\<close>

lemma executor_match_iff: "executor_match s = Some (k, r) \<longleftrightarrow>
    s = braced k @ r \<and> k \<noteq> [] \<and> CHR ''}'' \<notin> set k"
proof
  assume "executor_match s = Some (k, r)"
  then show "s = braced k @ r \<and> k \<noteq> [] \<and> CHR ''}'' \<notin> set k"
    by (auto simp: executor_match_def strip_prefix_Some split_once_Some braced_def
        split: option.splits if_splits)
next
  assume a: "s = braced k @ r \<and> k \<noteq> [] \<and> CHR ''}'' \<notin> set k"
  have "strip_prefix s ''${'' = Some (k @ CHR ''}'' # r)"
    unfolding strip_prefix_Some using a by (simp add: braced_def)
  moreover have "split_once (CHR ''}'') (k @ CHR ''}'' # r) = Some (k, r)"
    unfolding split_once_Some using a by simp
  ultimately show "executor_match s = Some (k, r)"
    using a by (simp add: executor_match_def)
qed

interpretation ex: placeholder_matcher executor_match
  by unfold_locales (simp add: executor_match_iff)

definition valid_path :: "string \<Rightarrow> bool" where
  "valid_path k \<longleftrightarrow> k \<noteq> [] \<and> name_start (hd k) \<and> list_all path_char k"

lemma not_path_char_brace [simp]: "\<not> path_char (CHR ''}'')"
  by (simp add: path_char_def ascii_alphanumeric_def ascii_alpha_def ascii_digit_def)

lemma validator_match_iff: "validator_match s = Some (k, r) \<longleftrightarrow> s = braced k @ r \<and> valid_path k"
proof
  assume "validator_match s = Some (k, r)"
  then obtain t c where t: "strip_prefix s ''${'' = Some t" "dropWhile path_char t = CHR ''}'' # r"
    and k: "k = takeWhile path_char t" "k \<noteq> []" "name_start (hd k)"
    by (auto simp: validator_match_def Let_def split: option.splits list.splits if_splits)
  have "t = k @ CHR ''}'' # r" using t(2) k(1) by (metis takeWhile_dropWhile_id)
  moreover have "s = ''${'' @ t" using t(1) by (simp only: strip_prefix_Some)
  ultimately have "s = braced k @ r" by (simp only: braced_def append.assoc append_Cons append_Nil)
  moreover have "list_all path_char k" unfolding k(1) by (auto simp: list_all_iff dest: set_takeWhileD)
  ultimately show "s = braced k @ r \<and> valid_path k" using k by (simp only: valid_path_def simp_thms)
next
  assume a: "s = braced k @ r \<and> valid_path k"
  have "strip_prefix s ''${'' = Some (k @ CHR ''}'' # r)"
    unfolding strip_prefix_Some using a by (simp add: braced_def)
  moreover have "takeWhile path_char (k @ CHR ''}'' # r) = k"
    "dropWhile path_char (k @ CHR ''}'' # r) = CHR ''}'' # r"
    using a by (simp_all add: valid_path_def list_all_iff takeWhile_append dropWhile_append)
  ultimately show "validator_match s = Some (k, r)"
    using a by (simp add: validator_match_def valid_path_def)
qed

interpretation va: placeholder_matcher validator_match
  by unfold_locales (simp add: validator_match_iff)

lemma validator_executor_match: "validator_match s = Some (k, r) \<Longrightarrow> executor_match s = Some (k, r)"
  by (auto simp: validator_match_iff executor_match_iff valid_path_def list_all_iff)

lemma executor_key: "k \<in> set (placeholder_keys executor_match s) \<Longrightarrow> k \<noteq> [] \<and> CHR ''}'' \<notin> set k"
  using ex.keys_matched by (auto simp: executor_match_iff)

lemma validator_key: "k \<in> set (placeholder_keys validator_match s) \<Longrightarrow> valid_path k"
  using va.keys_matched by (auto simp: validator_match_iff)

section \<open>Scanning by the first opening\<close>

text \<open>
  A scanner that looks for the first \<^verbatim>\<open>${\<close> and then for the next closing brace
  (\<^verbatim>\<open>collect_input_references_from_string\<close>) visits the executor's placeholders.
\<close>

lemma find_match_from_open: "find_str s ''${'' = Some i \<Longrightarrow> find_match executor_match s =
    map_option (\<lambda>(l, k, r). (take i s @ l, k, r)) (find_match executor_match (drop i s))"
proof (induction s arbitrary: i)
  case Nil
  then show ?case by simp
next
  case (Cons c cs)
  show ?case
  proof (cases "starts_with (c # cs) ''${''")
    case True
    with Cons.prems have "i = 0" by (simp del: starts_with_Cons)
    then show ?thesis by (simp del: find_match.simps add: option.map_ident_strong split_def)
  next
    case False
    with Cons.prems obtain j where j: "find_str cs ''${'' = Some j" "i = Suc j"
      by (auto simp del: starts_with_Cons)
    have "executor_match (c # cs) = None"
      using False by (simp add: executor_match_def strip_prefix_def del: starts_with_Cons)
    with Cons.IH [OF j(1)] j(2) show ?thesis
      by (simp add: option.map_comp comp_def split_def)
  qed
qed

lemma keys_from_open: "find_str s ''${'' = Some i \<Longrightarrow>
    placeholder_keys executor_match s = placeholder_keys executor_match (drop i s)"
  by (cases "find_match executor_match (drop i s)")
    (auto dest: find_match_from_open simp: ex.keys_no_match ex.keys_match)

lemma keys_no_close: "CHR ''}'' \<notin> set s \<Longrightarrow> placeholder_keys executor_match s = []"
proof (cases "find_match executor_match s")
  case None
  then show ?thesis by (rule ex.keys_no_match)
next
  case (Some x)
  then obtain l k r where "s = l @ braced k @ r" by (cases x) (auto dest: ex.find_match_Some)
  moreover assume "CHR ''}'' \<notin> set s"
  ultimately show ?thesis by (simp add: braced_def)
qed

lemma keys_no_open: "find_str s ''${'' = None \<Longrightarrow> placeholder_keys executor_match s = []"
  by (simp add: ex.keys_no_match ex.find_match_plain str_contains_def)

lemma keys_at_open:
  assumes "CHR ''}'' \<notin> set k"
  shows "placeholder_keys executor_match (braced k @ r) =
    (if k = [] then placeholder_keys executor_match r else k # placeholder_keys executor_match r)"
proof (cases "k = []")
  case True
  have skip: "executor_match (c # s) = None" if "c \<noteq> CHR ''$''" for c s
    using that by (simp add: executor_match_def strip_prefix_def)
  have "executor_match (''${}'' @ r) = None"
    by (simp add: executor_match_def strip_prefix_def)
  then have "find_match executor_match (''${}'' @ r) =
      map_option (\<lambda>(l, k, r). (''${}'' @ l, k, r)) (find_match executor_match r)"
    by (simp add: skip option.map_comp comp_def split_def)
  with True show ?thesis
    by (cases "find_match executor_match r")
      (auto simp: braced_def ex.keys_no_match ex.keys_match)
next
  case False
  with assms have "executor_match (braced k @ r) = Some (k, r)"
    by (simp add: executor_match_iff)
  moreover obtain c cs where "braced k @ r = c # cs" by (simp add: braced_def)
  ultimately have "find_match executor_match (braced k @ r) = Some ([], k, r)" by simp
  with False show ?thesis by (simp add: ex.keys_match)
qed

end
