(* ===== verification/PlanSteps.thy ===== *)
theory PlanSteps
  imports PlanTypes Scan
begin

text \<open>
  The step operations of \<^verbatim>\<open>plan/steps.rs\<close>: the bodies a FAN_OUT owns, the part of a
  configuration that is checked before a step starts, and the run inputs a step refers to.
  A \<^verbatim>\<open>BTreeSet\<close> whose order is not observed is a set.
\<close>

section \<open>The body of a FAN_OUT\<close>

text \<open>\<open>spawned p i\<close>: the spawn steps of step \<open>i\<close>, none when it is absent or no FAN_OUT.\<close>

definition spawned :: "plan \<Rightarrow> string \<Rightarrow> string list" where
  "spawned p i =
     (case plan_find_step p i of None \<Rightarrow> []
      | Some s \<Rightarrow> (case s_config s of FanOut c \<Rightarrow> fo_spawn_steps c | _ \<Rightarrow> []))"

text \<open>The inner loop: insert each spawn step, and push it when it is new.\<close>

fun own_new :: "string list \<Rightarrow> string set \<Rightarrow> string list \<Rightarrow> string set \<times> string list" where
  "own_new [] owned pending = (owned, pending)"
| "own_new (x # xs) owned pending =
     (if x \<in> owned then own_new xs owned pending
      else own_new xs (insert x owned) (x # pending))"

lemma own_new_owned: "own_new xs owned pending = (owned', pending') \<Longrightarrow> owned' = owned \<union> set xs"
  by (induction xs owned pending rule: own_new.induct) (auto split: if_splits)

lemma own_new_pending: "own_new xs owned pending = (owned', pending') \<Longrightarrow>
    set pending' = set pending \<union> (set xs - owned)"
  by (induction xs owned pending rule: own_new.induct) (auto split: if_splits)

lemma own_new_same: "set xs \<subseteq> owned \<Longrightarrow> own_new xs owned pending = (owned, pending)"
  by (induction xs) auto

lemma finite_spawned: "finite (\<Union>i. set (spawned p i))"
proof -
  have "spawned p i = []" if "i \<notin> s_id ` set (p_steps p)" for i
    using that by (simp add: spawned_def plan_find_step_None [symmetric])
  then have "(\<Union>i. set (spawned p i)) \<subseteq> (\<Union>i \<in> s_id ` set (p_steps p). set (spawned p i))"
    by (intro UN_least) (metis UN_upper empty_subsetI list.set(1))
  then show ?thesis
    by (rule finite_subset) simp
qed

function body_closure_loop :: "plan \<Rightarrow> string set \<Rightarrow> string list \<Rightarrow> string set" where
  "body_closure_loop p owned [] = owned"
| "body_closure_loop p owned (current # pending) =
     (case own_new (spawned p current) owned pending of
        (owned', pending') \<Rightarrow> body_closure_loop p owned' pending')"
  by pat_completeness auto
termination
proof (relation "measures [\<lambda>(p, owned, pending). card ((\<Union>i. set (spawned p i)) - owned),
    \<lambda>(p, owned, pending). length pending]", goal_cases)
  case 1
  show ?case by simp
next
  case (2 p owned current pending owned' pending')
  then have e: "own_new (spawned p current) owned pending = (owned', pending')" by simp
  show ?case
  proof (cases "set (spawned p current) \<subseteq> owned")
    case True
    with e show ?thesis by (simp add: own_new_same)
  next
    case False
    then have "(\<Union>i. set (spawned p i)) - owned' \<subset> (\<Union>i. set (spawned p i)) - owned"
      using own_new_owned [OF e] by blast
    then have "card ((\<Union>i. set (spawned p i)) - owned') < card ((\<Union>i. set (spawned p i)) - owned)"
      by (rule psubset_card_mono [OF finite_Diff [OF finite_spawned]])
    then show ?thesis by simp
  qed
qed

definition fan_out_body_closure :: "plan \<Rightarrow> string \<Rightarrow> string set" where
  "fan_out_body_closure p i = body_closure_loop p {} [i]"

section \<open>The configuration checked before a step starts\<close>

definition opt_json :: "('a \<Rightarrow> json) \<Rightarrow> 'a option \<Rightarrow> json" where
  "opt_json f o' = (case o' of None \<Rightarrow> JNull | Some x \<Rightarrow> f x)"

definition strs_json :: "string list \<Rightarrow> json" where
  "strs_json xs = JArray (map JString xs)"

definition u64_json :: "'a::len word \<Rightarrow> json" where
  "u64_json w = JNumber (NumInt (uint w))"

text \<open>
  \<^verbatim>\<open>serde_json::to_value\<close> of a step configuration, as its \<^verbatim>\<open>Serialize\<close>
  derivation says: the tag \<^verbatim>\<open>type\<close> beside the fields, \<^verbatim>\<open>until\<close> left out
  when absent.
\<close>

fun config_fields :: "step_config \<Rightarrow> (string \<times> json) list" where
  "config_fields (ToolCall c) =
     [(''tool'', JString (tc_tool c)), (''arguments'', JObject (obj_of (tc_arguments c)))]"
| "config_fields (CodeCall c) =
     [(''language'', JString (cc_language c)), (''inline'', opt_json JString (cc_inline c)),
      (''file'', opt_json JString (cc_file c)), (''args'', strs_json (cc_args c)),
      (''stdin'', opt_json JString (cc_stdin c)),
      (''env'', JObject (obj_of (map (\<lambda>(k, v). (k, JString v)) (cc_env c)))),
      (''working_dir'', opt_json JString (cc_working_dir c)),
      (''timeout_secs'', opt_json u64_json (cc_timeout_secs c))]"
| "config_fields (HumanInteraction c) =
     [(''prompt'', JString (hi_prompt c)), (''response_field'', JString (hi_response_field c)),
      (''approval_required'', JBool (hi_approval_required c))]"
| "config_fields (FanOut c) =
     [(''over'', JString (fo_over c)), (''item_var'', JString (fo_item_var c)),
      (''spawn_steps'', strs_json (fo_spawn_steps c))] @
     (case fo_until c of None \<Rightarrow> [] | Some u \<Rightarrow> [(''until'', JString u)])"
| "config_fields (FanIn c) =
     [(''from_steps'', strs_json (fi_from_steps c)), (''collect_field'', JString (fi_collect_field c))]"
| "config_fields (PromptCall c) =
     [(''model'', JString (pc_model c)), (''system_prompt'', opt_json JString (pc_system_prompt c)),
      (''user_prompt'', JString (pc_user_prompt c)), (''output_field'', JString (pc_output_field c)),
      (''max_tokens'', opt_json u64_json (pc_max_tokens c)),
      (''temperature'', opt_json JNumber (pc_temperature c))]"
| "config_fields (Condition c) =
     [(''expression'', JString (cd_expression c)), (''true_steps'', strs_json (cd_true_steps c)),
      (''false_steps'', strs_json (cd_false_steps c))]"
| "config_fields (AgentCall c) =
     [(''objective'', JString (ac_objective c)), (''working_dir'', JString (ac_working_dir c)),
      (''timeout_secs'', opt_json u64_json (ac_timeout_secs c))]"

definition config_to_json :: "step_config \<Rightarrow> json" where
  "config_to_json c =
     JObject (obj_of ((''type'', JString (show_step_type (config_step_type c))) # config_fields c))"

definition runtime_preflight_config :: "plan_step \<Rightarrow> json" where
  "runtime_preflight_config s =
     (case (s_config s, config_to_json (s_config s)) of
        (FanOut _, JObject kvs) \<Rightarrow> JObject (im_remove ''until'' kvs)
      | (_, j) \<Rightarrow> j)"

section \<open>The inputs a step refers to\<close>

fun is_input_name :: "string \<Rightarrow> bool" where
  "is_input_name [] = False"
| "is_input_name (c # cs) =
     ((ascii_alpha c \<or> c = CHR ''_'') \<and>
      list_all (\<lambda>d. ascii_alphanumeric d \<or> d = CHR ''_'' \<or> d = CHR ''-'') cs)"

function collect_input_refs_string :: "string \<Rightarrow> string set \<Rightarrow> string set" where
  "collect_input_refs_string remainder out =
     (case find_str remainder ''${'' of None \<Rightarrow> out
      | Some open_index \<Rightarrow>
          (case split_once (CHR ''}'') (drop (open_index + 2) remainder) of None \<Rightarrow> out
           | Some (placeholder, rest) \<Rightarrow>
               collect_input_refs_string rest
                 (case strip_prefix placeholder ''input.'' of None \<Rightarrow> out
                  | Some name \<Rightarrow> if is_input_name name then insert name out else out)))"
  by pat_completeness auto
termination
proof (relation "measure (\<lambda>(remainder, out). length remainder)", goal_cases)
  case 1
  show ?case by simp
next
  case (2 remainder out i y placeholder rest)
  then have "drop (i + 2) remainder = placeholder @ CHR ''}'' # rest"
    by (metis split_once_Some)
  then have "length (drop (i + 2) remainder) = length (placeholder @ CHR ''}'' # rest)"
    by (rule arg_cong)
  then show ?case by simp
qed

declare collect_input_refs_string.simps [simp del]

fun collect_input_refs_value :: "json \<Rightarrow> string set \<Rightarrow> string set" where
  "collect_input_refs_value (JString s) out = collect_input_refs_string s out"
| "collect_input_refs_value (JArray vs) out = fold collect_input_refs_value vs out"
| "collect_input_refs_value (JObject kvs) out =
     fold (\<lambda>(k, v). collect_input_refs_value v) kvs out"
| "collect_input_refs_value _ out = out"

definition opt_list :: "'a option \<Rightarrow> 'a list" where
  "opt_list o' = (case o' of None \<Rightarrow> [] | Some x \<Rightarrow> [x])"

fun input_references_config :: "step_config \<Rightarrow> string set" where
  "input_references_config (ToolCall c) =
     fold (\<lambda>(k, v). collect_input_refs_value v) (tc_arguments c) {}"
| "input_references_config (CodeCall c) =
     fold collect_input_refs_string
       (opt_list (cc_inline c) @ opt_list (cc_file c) @ cc_args c @ opt_list (cc_stdin c) @
        map snd (cc_env c) @ opt_list (cc_working_dir c)) {}"
| "input_references_config (HumanInteraction c) = collect_input_refs_string (hi_prompt c) {}"
| "input_references_config (FanOut c) =
     (let out = collect_input_refs_string (fo_over c) {} in
      case fo_until c of Some u \<Rightarrow> collect_input_refs_string u out | None \<Rightarrow> out)"
| "input_references_config (FanIn c) = {}"
| "input_references_config (PromptCall c) =
     (let out = collect_input_refs_string (pc_user_prompt c) {} in
      case pc_system_prompt c of Some u \<Rightarrow> collect_input_refs_string u out | None \<Rightarrow> out)"
| "input_references_config (Condition c) = collect_input_refs_string (cd_expression c) {}"
| "input_references_config (AgentCall c) =
     collect_input_refs_string (ac_working_dir c) (collect_input_refs_string (ac_objective c) {})"

definition input_references :: "plan_step \<Rightarrow> string set" where
  "input_references s = input_references_config (s_config s)"

section \<open>The body closure is reachability\<close>

lemma body_closure_invariant:
  "set pending \<subseteq> insert i owned \<Longrightarrow> owned \<subseteq> (succ_edges (spawned p))\<^sup>+ `` {i} \<Longrightarrow>
   (\<And>x. x \<in> insert i owned \<Longrightarrow> x \<notin> set pending \<Longrightarrow> set (spawned p x) \<subseteq> owned) \<Longrightarrow>
   body_closure_loop p owned pending = (succ_edges (spawned p))\<^sup>+ `` {i}"
proof (induction p owned pending rule: body_closure_loop.induct)
  case (1 p owned)
  have "y \<in> owned" if "(i, y) \<in> (succ_edges (spawned p))\<^sup>+" for y
    using that 1(3) by (induction rule: trancl_induct) auto
  with 1(2) show ?case by auto
next
  case (2 p owned current pending)
  obtain owned' pending' where e: "own_new (spawned p current) owned pending = (owned', pending')"
    by (cases "own_new (spawned p current) owned pending")
  note o = own_new_owned [OF e] and w = own_new_pending [OF e]
  have reach: "owned' \<subseteq> (succ_edges (spawned p))\<^sup>+ `` {i}"
  proof
    fix y assume "y \<in> owned'"
    then consider "y \<in> owned" | "y \<in> set (spawned p current)" using o by auto
    then show "y \<in> (succ_edges (spawned p))\<^sup>+ `` {i}"
    proof cases
      case 2
      then have "(current, y) \<in> succ_edges (spawned p)" by simp
      moreover have "current = i \<or> (i, current) \<in> (succ_edges (spawned p))\<^sup>+"
        using "2.prems"(1,2) by auto
      ultimately show ?thesis
        by (metis Image_singleton_iff r_into_trancl trancl.trancl_into_trancl)
    qed (use "2.prems" in auto)
  qed
  have "body_closure_loop p owned' pending' = (succ_edges (spawned p))\<^sup>+ `` {i}"
  proof (rule "2.IH" [OF e [symmetric]])
    show "set pending' \<subseteq> insert i owned'" using "2.prems"(1) o w by auto
    show "set (spawned p x) \<subseteq> owned'" if "x \<in> insert i owned'" "x \<notin> set pending'" for x
      using that "2.prems"(3) [of x] o w by auto
  qed (rule reach)
  with e show ?case by simp
qed

text \<open>
  The steps a FAN_OUT owns.  The worklist returns exactly the steps reachable from the
  given step over one or more spawn edges, nested bodies included, for every plan -- also
  when bodies overlap or refer back to their owner.
\<close>

theorem fan_out_body_closure_reach:
  "fan_out_body_closure p i = (succ_edges (spawned p))\<^sup>+ `` {i}"
  unfolding fan_out_body_closure_def by (rule body_closure_invariant) auto

section \<open>The input references are the executor's\<close>

definition input_names_in :: "string \<Rightarrow> string set" where
  "input_names_in s = {n. is_input_name n \<and> ''input.'' @ n \<in> set (placeholder_keys executor_match s)}"

lemma collect_input_refs_string: "collect_input_refs_string s out = out \<union> input_names_in s"
proof (induction s out rule: collect_input_refs_string.induct)
  case (1 s out)
  show ?case
  proof (cases "find_str s ''${''")
    case None
    then show ?thesis
      by (subst collect_input_refs_string.simps) (simp add: input_names_in_def keys_no_open)
  next
    case (Some i)
    then have d: "drop i s = ''${'' @ drop (i + 2) s"
    proof -
      obtain t where t: "drop i s = ''${'' @ t"
        using find_str_SomeD [OF Some] by (auto simp: starts_with_iff)
      have "drop (i + 2) s = drop 2 (drop i s)" by (simp only: drop_drop add.commute)
      also have "\<dots> = t" unfolding t by simp
      finally show ?thesis using t by simp
    qed
    show ?thesis
    proof (cases "split_once (CHR ''}'') (drop (i + 2) s)")
      case None
      then have "CHR ''}'' \<notin> set (drop i s)" unfolding d by (simp add: split_once_None)
      then have "placeholder_keys executor_match s = []"
        using keys_no_close keys_from_open [OF Some] by simp
      with Some None show ?thesis
        by (subst collect_input_refs_string.simps) (simp add: input_names_in_def)
    next
      case s: (Some y)
      obtain k r where y: "y = (k, r)" by (cases y)
      from s y have k: "drop (i + 2) s = k @ CHR ''}'' # r" "CHR ''}'' \<notin> set k"
        by (simp_all add: split_once_Some)
      then have "placeholder_keys executor_match s =
          (if k = [] then placeholder_keys executor_match r else k # placeholder_keys executor_match r)"
        using keys_from_open [OF Some] keys_at_open [OF k(2), of r] d by (simp add: braced_def)
      then have "input_names_in s = input_names_in r \<union>
          {n. is_input_name n \<and> strip_prefix k ''input.'' = Some n}"
        by (auto simp: input_names_in_def strip_prefix_Some split: if_splits)
      with Some s y show ?thesis
        by (subst collect_input_refs_string.simps)
          (auto simp: "1.IH" [OF Some s y [symmetric]] split: option.splits)
    qed
  qed
qed

end
