(* ===== verification/Llm.thy ===== *)
theory Llm
  imports Runs ToolExecution PlanSteps
begin

text \<open>
  \<^verbatim>\<open>llm.rs\<close>: the connections to language models shared by the compiler and the
  PROMPT_CALL and AGENT_CALL runners.  What a connection sends, how it reads what comes back,
  and which calls are recorded are definitions; sending an HTTP request and running a
  command-line client are effects on a world \<open>'w\<close>.  Live echoing of CLI output and tracing
  are not modelled, and output bytes are taken as already decoded.
\<close>

section \<open>Connections\<close>

datatype llm_protocol =
  OpenAiChat | AnthropicMessages | GoogleVertex | CodexCli | ClaudeCli | CustomCli

datatype codex_sandbox_mode = SandboxAuto | Strict | Unsandboxed

datatype llm_auth = AuthAuto | AuthNone | Bearer | AnthropicKey | GcloudIdentity

record llm_profile =
  lp_id :: string
  lp_name :: string
  lp_protocol :: llm_protocol
  lp_model :: string
  lp_base_url :: string
  lp_api_key :: string
  lp_auth :: llm_auth
  lp_headers :: "string imap"
  lp_executable :: string
  lp_command_template :: string
  lp_max_tokens :: "32 word option"
  lp_temperature :: "number option"
  lp_timeout_secs :: "64 word"
  lp_codex_sandbox_mode :: codex_sandbox_mode

definition profile_label :: "llm_profile \<Rightarrow> string" where
  "profile_label p = (case lp_protocol p of
     OpenAiChat \<Rightarrow> ''openai'' | AnthropicMessages \<Rightarrow> ''claude'' | GoogleVertex \<Rightarrow> ''vertex''
   | CodexCli \<Rightarrow> ''codex'' | ClaudeCli \<Rightarrow> ''claude-code'' | CustomCli \<Rightarrow> ''custom-cli'')"

datatype llm_error =
    LE_Config string
  | LE_Request string
  | LE_Http "16 word" string
  | LE_InvalidResponse string
  | LE_CliStart string string
  | LE_CliExit string string string
  | LE_Timeout string "64 word"

record completion_request =
  cq_system :: "string option"
  cq_user :: string
  cq_model :: "string option"
  cq_max_tokens :: "32 word option"
  cq_temperature :: "number option"

record completion_response =
  cr_text :: string
  cr_input_tokens :: "64 word option"
  cr_output_tokens :: "64 word option"
  cr_usage :: "claude_usage option"

record claude_call =
  cl_message_id :: "string option"
  cl_request_id :: "string option"
  cl_model_requested :: string
  cl_model_reported :: "string option"
  cl_http_status :: "16 word option"
  cl_stop_reason :: "string option"
  cl_response_headers :: "string imap"
  cl_response_body :: "json option"
  cl_request_body :: "json option"
  cl_outcome :: claude_call_outcome
  cl_usage :: "claude_usage option"
  cl_latency_ms :: "64 word"
  cl_started_at :: instant

text \<open>
  What the module takes from outside: JSON text with its error messages, URLs, the reason
  phrase of a status code, header syntax (\<open>None\<close> when accepted), shell word splitting
  (\<^verbatim>\<open>shlex\<close>) and the target system.
\<close>

datatype target_os = Linux | MacOs | Windows

record llm_host =
  lh_host :: host
  lh_net :: net_host
  lh_json_error :: "string \<Rightarrow> string"
  lh_status_text :: "16 word \<Rightarrow> string"
  lh_header_name_error :: "string \<Rightarrow> string option"
  lh_header_value_error :: "string \<Rightarrow> string option"
  lh_shlex :: "string \<Rightarrow> string list option"
  lh_os :: target_os

definition show_llm_error :: "llm_host \<Rightarrow> llm_error \<Rightarrow> string" where
  "show_llm_error h e = (case e of
     LE_Config m \<Rightarrow> fmt ''configuration error: {}'' [m]
   | LE_Request m \<Rightarrow> fmt ''request failed: {}'' [m]
   | LE_Http status m \<Rightarrow> fmt ''provider returned HTTP {}: {}'' [lh_status_text h status, m]
   | LE_InvalidResponse m \<Rightarrow> fmt ''invalid provider response: {}'' [m]
   | LE_CliStart provider m \<Rightarrow> fmt ''{} CLI is not installed or could not be started: {}'' [provider, m]
   | LE_CliExit provider status m \<Rightarrow> fmt ''{} CLI exited with status {}: {}'' [provider, status, m]
   | LE_Timeout provider secs \<Rightarrow> fmt ''{} request timed out after {}s'' [provider, nat_str (unat secs)])"

definition validate_profile :: "llm_host \<Rightarrow> llm_profile \<Rightarrow> llm_error + unit" where
  "validate_profile h p =
     (if lp_protocol p \<in> {OpenAiChat, AnthropicMessages, GoogleVertex} then
        if trim (lp_model p) = [] then Inl (LE_Config ''model must not be empty'')
        else (case url_parse (lh_net h) (trim (lp_base_url p)) of
            Inl e \<Rightarrow> Inl (LE_Config (fmt ''invalid base URL: {}'' [e]))
          | Inr u \<Rightarrow> fail_if (u_scheme u \<notin> {''http'', ''https''}) (LE_Config ''base URL must use http or https''))
      else Inr ())"

section \<open>Switches and keys\<close>

definition claude_usage_enabled_with_env :: "bool \<Rightarrow> string option \<Rightarrow> bool" where
  "claude_usage_enabled_with_env setting env_value \<longleftrightarrow>
     setting \<and> (case env_value of None \<Rightarrow> True
       | Some v \<Rightarrow> to_ascii_lowercase (trim v) \<notin> {''0'', ''off'', ''false'', ''no''})"

definition store_prompts_flag :: "string option \<Rightarrow> bool" where
  "store_prompts_flag v = (case v of None \<Rightarrow> False
     | Some v \<Rightarrow> to_ascii_lowercase (trim v) \<in> {''1'', ''true'', ''yes'', ''on''})"

definition is_anthropic_api :: "llm_host \<Rightarrow> string \<Rightarrow> bool" where
  "is_anthropic_api h base_url =
     (case url_parse (lh_net h) (trim base_url) of Inl e \<Rightarrow> False
      | Inr u \<Rightarrow> (case u_host u of None \<Rightarrow> False
          | Some name \<Rightarrow> to_ascii_lowercase name = ''api.anthropic.com''))"

definition resolved_key :: "llm_host \<Rightarrow> llm_profile \<Rightarrow> string option" where
  "resolved_key h p =
     (if trim (lp_api_key p) \<noteq> [] then Some (trim (lp_api_key p))
      else case (lp_auth p, lp_protocol p) of
        (AuthAuto, OpenAiChat) \<Rightarrow> env_var (lh_host h) ''OPENAI_API_KEY''
      | (AuthAuto, AnthropicMessages) \<Rightarrow> env_var (lh_host h) ''ANTHROPIC_API_KEY''
      | _ \<Rightarrow> None)"

definition trim_end_char :: "char \<Rightarrow> string \<Rightarrow> string" where
  "trim_end_char c s = rev (dropWhile (\<lambda>d. d = c) (rev s))"

definition endpoint :: "string \<Rightarrow> string \<Rightarrow> string" where
  "endpoint base suffix =
     (let base = trim_end_char (CHR ''/'') base
      in if ends_with base suffix then base else fmt ''{}/{}'' [base, suffix])"

definition effective_auth :: "llm_profile \<Rightarrow> llm_auth" where
  "effective_auth p = (case lp_auth p of
     AuthAuto \<Rightarrow> (case lp_protocol p of OpenAiChat \<Rightarrow> Bearer | AnthropicMessages \<Rightarrow> AnthropicKey | _ \<Rightarrow> AuthNone)
   | other \<Rightarrow> other)"

text \<open>The headers a request gets, in the order they are added.\<close>

fun profile_headers :: "llm_host \<Rightarrow> string imap \<Rightarrow> llm_error + (string \<times> string) list" where
  "profile_headers h [] = Inr []"
| "profile_headers h ((name, v) # rest) =
     (case lh_header_name_error h name of
        Some e \<Rightarrow> Inl (LE_Config (fmt ''invalid header name: {}'' [e]))
      | None \<Rightarrow>
     (case lh_header_value_error h v of
        Some e \<Rightarrow> Inl (LE_Config (fmt ''invalid header value: {}'' [e]))
      | None \<Rightarrow>
     (case profile_headers h rest of Inl e \<Rightarrow> Inl e | Inr hs \<Rightarrow> Inr ((name, v) # hs))))"

definition apply_headers :: "llm_host \<Rightarrow> llm_profile \<Rightarrow> llm_error + (string \<times> string) list" where
  "apply_headers h p =
     (let auth_header = (case (effective_auth p, resolved_key h p) of
          (Bearer, Some key) \<Rightarrow> Inr [(''authorization'', ''Bearer '' @ key)]
        | (AnthropicKey, Some key) \<Rightarrow> Inr [(''x-api-key'', key)]
        | (Bearer, None) \<Rightarrow> Inl (LE_Config ''this connection requires an API key'')
        | (AnthropicKey, None) \<Rightarrow> Inl (LE_Config ''this connection requires an API key'')
        | _ \<Rightarrow> Inr [])
      in case auth_header of Inl e \<Rightarrow> Inl e
       | Inr a \<Rightarrow> (case profile_headers h (lp_headers p) of Inl e \<Rightarrow> Inl e | Inr hs \<Rightarrow> Inr (a @ hs)))"


section \<open>Reading responses\<close>

text \<open>\<^verbatim>\<open>value[key]\<close> and \<^verbatim>\<open>value[i]\<close>: null where there is nothing.\<close>

definition idx :: "json \<Rightarrow> string \<Rightarrow> json" where
  "idx v k = (case json_get v k of Some w \<Rightarrow> w | None \<Rightarrow> JNull)"

definition idx_at :: "json \<Rightarrow> nat \<Rightarrow> json" where
  "idx_at v n = (case v of JArray vs \<Rightarrow> if n < length vs then vs ! n else JNull | _ \<Rightarrow> JNull)"

definition u64_of :: "json \<Rightarrow> 64 word option" where
  "u64_of v = map_option word_of_int (as_u64 v)"

definition is_str :: "json \<Rightarrow> string \<Rightarrow> bool" where
  "is_str v s \<longleftrightarrow> v = JString s"

definition bool_of :: "json \<Rightarrow> bool" where
  "bool_of v = (case as_bool v of Some b \<Rightarrow> b | None \<Rightarrow> False)"

definition str_or :: "json \<Rightarrow> string \<Rightarrow> string" where
  "str_or v s = (case as_str v of Some t \<Rightarrow> t | None \<Rightarrow> s)"

definition carriage_return :: char where
  "carriage_return = CHR 0x0D"

text \<open>\<^verbatim>\<open>str::lines\<close>: the accumulator holds the current line, reversed.\<close>

fun lines_from :: "string \<Rightarrow> string \<Rightarrow> string list" where
  "lines_from acc [] = (if acc = [] then [] else [rev acc])"
| "lines_from acc (c # cs) =
     (if [c] = newline then
        rev (case acc of [] \<Rightarrow> [] | a # as \<Rightarrow> if a = carriage_return then as else acc) # lines_from [] cs
      else lines_from (c # acc) cs)"

definition str_lines :: "string \<Rightarrow> string list" where
  "str_lines s = lines_from [] s"

definition text_lines :: "string \<Rightarrow> string list" where
  "text_lines s = filter (\<lambda>line. trim line \<noteq> []) (str_lines s)"

definition DEFAULT_MAX_TOKENS :: "32 word" where "DEFAULT_MAX_TOKENS = 1024"
definition ERROR_BODY_EXCERPT_CHARS :: nat where "ERROR_BODY_EXCERPT_CHARS = 4000"
definition RAW_SNIPPET_EXCERPT_CHARS :: nat where "RAW_SNIPPET_EXCERPT_CHARS = 1000"

definition truncate_text :: "string \<Rightarrow> nat \<Rightarrow> string" where
  "truncate_text s n = take_chars n s"

definition parse_claude_usage :: "json \<Rightarrow> claude_usage option" where
  "parse_claude_usage usage =
     (if \<not> is_object usage then None
      else Some \<lparr>
        cu_input_tokens = u64_of (idx usage ''input_tokens''),
        cu_output_tokens = u64_of (idx usage ''output_tokens''),
        cu_cache_creation_input_tokens = u64_of (idx usage ''cache_creation_input_tokens''),
        cu_cache_read_input_tokens = u64_of (idx usage ''cache_read_input_tokens''),
        cu_cache_creation_5m_input_tokens =
          u64_of (idx (idx usage ''cache_creation'') ''ephemeral_5m_input_tokens''),
        cu_cache_creation_1h_input_tokens =
          u64_of (idx (idx usage ''cache_creation'') ''ephemeral_1h_input_tokens''),
        cu_thinking_tokens = u64_of (idx (idx usage ''output_tokens_details'') ''thinking_tokens''),
        cu_web_search_requests = u64_of (idx (idx usage ''server_tool_use'') ''web_search_requests''),
        cu_web_fetch_requests = u64_of (idx (idx usage ''server_tool_use'') ''web_fetch_requests''),
        cu_service_tier = as_str (idx usage ''service_tier''),
        cu_inference_geo = as_str (idx usage ''inference_geo''),
        cu_raw = usage\<rparr>)"

definition is_success :: "16 word \<Rightarrow> bool" where
  "is_success status \<longleftrightarrow> 200 \<le> status \<and> status < 300"

definition json_body :: "llm_host \<Rightarrow> 16 word \<Rightarrow> string \<Rightarrow> llm_error + json" where
  "json_body h status body =
     (if \<not> is_success status then Inl (LE_Http status (truncate_text body ERROR_BODY_EXCERPT_CHARS))
      else case parse_json (lh_host h) body of
        Some v \<Rightarrow> Inr v
      | None \<Rightarrow> Inl (LE_InvalidResponse (fmt ''invalid JSON ({}): {}''
          [lh_json_error h body, truncate_text body RAW_SNIPPET_EXCERPT_CHARS])))"

text \<open>The recorded headers: \<^verbatim>\<open>set-cookie\<close> is dropped, repetitions are joined.\<close>

definition recorded_headers :: "(string \<times> string) list \<Rightarrow> string imap" where
  "recorded_headers hs = fold (\<lambda>(name, v) m.
     if name = ''set-cookie'' then m
     else case im_get m name of
         Some existing \<Rightarrow> im_insert name (existing @ '', '' @ v) m
       | None \<Rightarrow> im_insert name v m) hs []"

definition parse_openai_response :: "json \<Rightarrow> llm_error + completion_response" where
  "parse_openai_response v =
     (case as_str (idx (idx (idx_at (idx v ''choices'') 0) ''message'') ''content'') of
        None \<Rightarrow> Inl (LE_InvalidResponse ''missing choices[0].message.content'')
      | Some text \<Rightarrow> Inr \<lparr>cr_text = text,
          cr_input_tokens = u64_of (idx (idx v ''usage'') ''prompt_tokens''),
          cr_output_tokens = u64_of (idx (idx v ''usage'') ''completion_tokens''), cr_usage = None\<rparr>)"

definition find_block :: "json \<Rightarrow> string \<Rightarrow> json option" where
  "find_block v kind = Option.bind (as_array (idx v ''content''))
     (find (\<lambda>block. is_str (idx block ''type'') kind))"

definition anthropic_text :: "json \<Rightarrow> string option" where
  "anthropic_text v = Option.bind (find_block v ''text'') (\<lambda>block. as_str (idx block ''text''))"

definition parse_anthropic_response :: "json \<Rightarrow> 32 word \<Rightarrow> llm_error + completion_response" where
  "parse_anthropic_response v max_tokens =
     (case anthropic_text v of
        Some text \<Rightarrow> Inr \<lparr>cr_text = text,
          cr_input_tokens = u64_of (idx (idx v ''usage'') ''input_tokens''),
          cr_output_tokens = u64_of (idx (idx v ''usage'') ''output_tokens''),
          cr_usage = parse_claude_usage (idx v ''usage'')\<rparr>
      | None \<Rightarrow>
          (let stop_reason = str_or (idx v ''stop_reason'') ''unknown'';
               thinking = Option.bind (find_block v ''thinking'') (\<lambda>block. as_str (idx block ''thinking''));
               hint = (if stop_reason = ''max_tokens'' then
                   fmt '' {} the model exhausted max_tokens ({}) before producing output; try raising \"Max tokens\" in Settings''
                     [em_dash, nat_str (unat max_tokens)]
                 else [])
           in Inl (LE_InvalidResponse (case thinking of
                Some t \<Rightarrow> if trim t \<noteq> [] then
                    fmt ''no text block in response content (stop_reason: {}){}{}{}model's thinking so far:{}{}{}''
                      [stop_reason, hint, newline, newline, newline, newline, t]
                  else fmt ''no text block in response content (stop_reason: {}){}'' [stop_reason, hint]
              | None \<Rightarrow> fmt ''no text block in response content (stop_reason: {}){}'' [stop_reason, hint]))))"

definition parse_vertex_response :: "json \<Rightarrow> llm_error + completion_response" where
  "parse_vertex_response v =
     (let candidate = idx_at (idx v ''candidates'') 0;
          text = (case as_array (idx (idx candidate ''content'') ''parts'') of None \<Rightarrow> []
            | Some parts \<Rightarrow> concat (List.map_filter (\<lambda>part. as_str (idx part ''text'')) parts))
      in if text = [] then
           Inl (LE_InvalidResponse (fmt ''no text parts in candidate content (finishReason: {})''
             [str_or (idx candidate ''finishReason'') ''unknown'']))
         else Inr \<lparr>cr_text = text,
           cr_input_tokens = u64_of (idx (idx v ''usageMetadata'') ''promptTokenCount''),
           cr_output_tokens = u64_of (idx (idx v ''usageMetadata'') ''candidatesTokenCount''),
           cr_usage = None\<rparr>)"


section \<open>HTTP connections\<close>

datatype http_reply =
    NoResponse string
  | BodyFailed "16 word" "(string \<times> string) list" string
  | Response "16 word" "(string \<times> string) list" string

record cli_output =
  co_success :: bool
  co_status :: string
  co_stdout :: string
  co_stderr :: string

text \<open>
  The effects: a POST of a JSON body with its headers and timeout, the token request to the
  metadata server, a run of a command-line client (provider, executable, arguments, standard
  input, timeout), the clock, and the usage recorder in scope with its prompt switch.
\<close>

record 'w transport =
  tr_http :: "string \<Rightarrow> (string \<times> string) list \<Rightarrow> json \<Rightarrow> 64 word \<Rightarrow> ('w, http_reply) effect"
  tr_metadata :: "('w, http_reply) effect"
  tr_cli :: "string \<Rightarrow> string \<Rightarrow> string list \<Rightarrow> string \<Rightarrow> 64 word \<Rightarrow> ('w, llm_error + cli_output) effect"
  tr_now :: "'w \<Rightarrow> instant"
  tr_elapsed_ms :: "'w \<Rightarrow> 'w \<Rightarrow> 64 word"
  tr_recorder :: "(bool \<times> (claude_call \<Rightarrow> 'w \<Rightarrow> 'w)) option"

definition send_json ::
    "llm_host \<Rightarrow> 'w transport \<Rightarrow> llm_profile \<Rightarrow> string \<Rightarrow> (string \<times> string) list \<Rightarrow> json \<Rightarrow>
     ('w, llm_error + json) effect" where
  "send_json h tr p url extra_headers body w =
     (case apply_headers h p of Inl e \<Rightarrow> (w, Inl e)
      | Inr hs \<Rightarrow>
          (case tr_http tr url (extra_headers @ hs) body (lp_timeout_secs p) w of
             (w', NoResponse e) \<Rightarrow> (w', Inl (LE_Request e))
           | (w', BodyFailed status headers e) \<Rightarrow> (w', Inl (LE_Request e))
           | (w', Response status headers text) \<Rightarrow> (w', json_body h status text)))"

definition or_else :: "'a option \<Rightarrow> 'a option \<Rightarrow> 'a option" where
  "or_else a b = (case a of Some x \<Rightarrow> Some x | None \<Rightarrow> b)"

definition token_budget :: "llm_profile \<Rightarrow> completion_request \<Rightarrow> 32 word" where
  "token_budget p q = (case or_else (cq_max_tokens q) (lp_max_tokens p) of Some n \<Rightarrow> n | None \<Rightarrow> DEFAULT_MAX_TOKENS)"

definition requested_model :: "llm_profile \<Rightarrow> completion_request \<Rightarrow> string" where
  "requested_model p q = (case cq_model q of Some m \<Rightarrow> m | None \<Rightarrow> lp_model p)"

definition temperature_field :: "llm_profile \<Rightarrow> completion_request \<Rightarrow> (string \<times> json) list" where
  "temperature_field p q = (case or_else (cq_temperature q) (lp_temperature p) of
     Some t \<Rightarrow> [(''temperature'', JNumber t)] | None \<Rightarrow> [])"

definition chat_message :: "string \<Rightarrow> string \<Rightarrow> json" where
  "chat_message role content = JObject (obj_of [(''role'', JString role), (''content'', JString content)])"

definition openai_body :: "llm_profile \<Rightarrow> completion_request \<Rightarrow> json" where
  "openai_body p q = JObject (obj_of ([
     (''model'', JString (requested_model p q)),
     (''messages'', JArray ((case cq_system q of Some s \<Rightarrow> [chat_message ''system'' s] | None \<Rightarrow> []) @
        [chat_message ''user'' (cq_user q)])),
     (''max_tokens'', u64_json (token_budget p q))] @ temperature_field p q))"

definition complete_openai ::
    "llm_host \<Rightarrow> 'w transport \<Rightarrow> llm_profile \<Rightarrow> completion_request \<Rightarrow> ('w, llm_error + completion_response) effect" where
  "complete_openai h tr p q w =
     (case send_json h tr p (endpoint (lp_base_url p) ''chat/completions'') [] (openai_body p q) w of
        (w', Inl e) \<Rightarrow> (w', Inl e)
      | (w', Inr v) \<Rightarrow> (w', parse_openai_response v))"

definition ANTHROPIC_API_VERSION :: string where
  "ANTHROPIC_API_VERSION = ''2023-06-01''"

definition anthropic_body :: "llm_profile \<Rightarrow> completion_request \<Rightarrow> json" where
  "anthropic_body p q = JObject (obj_of ([
     (''model'', JString (requested_model p q)),
     (''messages'', JArray [chat_message ''user'' (cq_user q)]),
     (''max_tokens'', u64_json (token_budget p q))] @
     (case cq_system q of Some s \<Rightarrow> [(''system'', JString s)] | None \<Rightarrow> [])))"

text \<open>The record of a call before anything came back, and after the reply.\<close>

definition blank_call :: "json \<Rightarrow> bool \<Rightarrow> instant \<Rightarrow> claude_call" where
  "blank_call body store now = \<lparr>cl_message_id = None, cl_request_id = None,
     cl_model_requested = str_or (idx body ''model'') [], cl_model_reported = None, cl_http_status = None,
     cl_stop_reason = None, cl_response_headers = [], cl_response_body = None,
     cl_request_body = (if store then Some body else None), cl_outcome = TransportError, cl_usage = None,
     cl_latency_ms = 0, cl_started_at = now\<rparr>"

definition with_status :: "16 word \<Rightarrow> (string \<times> string) list \<Rightarrow> claude_call \<Rightarrow> claude_call" where
  "with_status status headers call =
     (let hs = recorded_headers headers in
      call\<lparr>cl_http_status := Some status, cl_response_headers := hs, cl_request_id := im_get hs ''request-id''\<rparr>)"

definition send_recorded ::
    "llm_host \<Rightarrow> claude_call \<Rightarrow> bool \<Rightarrow> http_reply \<Rightarrow> claude_call \<times> (llm_error + json)" where
  "send_recorded h call store reply =
     (case reply of
        NoResponse e \<Rightarrow> (call, Inl (LE_Request e))
      | BodyFailed status headers e \<Rightarrow> (with_status status headers call, Inl (LE_Request e))
      | Response status headers body \<Rightarrow>
          (let call = with_status status headers call;
               parsed = parse_json (lh_host h) body;
               call = (if store then call\<lparr>cl_response_body :=
                   Some (case parsed of Some v \<Rightarrow> v | None \<Rightarrow> JString body)\<rparr> else call)
           in case (is_success status, parsed) of
                (True, Some v) \<Rightarrow>
                  (call\<lparr>cl_message_id := as_str (idx v ''id''), cl_model_reported := as_str (idx v ''model''),
                     cl_stop_reason := as_str (idx v ''stop_reason''),
                     cl_usage := parse_claude_usage (idx v ''usage''),
                     cl_outcome := (if anthropic_text v \<noteq> None then CallOk else NoTextBlock)\<rparr>, Inr v)
              | (success, _) \<Rightarrow>
                  (call\<lparr>cl_outcome := (if success then InvalidJson else HttpError status)\<rparr>,
                   json_body h status body)))"

definition complete_anthropic ::
    "llm_host \<Rightarrow> 'w transport \<Rightarrow> llm_profile \<Rightarrow> completion_request \<Rightarrow> ('w, llm_error + completion_response) effect" where
  "complete_anthropic h tr p q w =
     (let max_tokens = token_budget p q;
          body = anthropic_body p q;
          url = endpoint (lp_base_url p) ''messages'';
          extra = [(''anthropic-version'', ANTHROPIC_API_VERSION)]
      in case (if is_anthropic_api h (lp_base_url p) then tr_recorder tr else None) of
        None \<Rightarrow>
          (case send_json h tr p url extra body w of
             (w', Inl e) \<Rightarrow> (w', Inl e)
           | (w', Inr v) \<Rightarrow> (w', parse_anthropic_response v max_tokens))
      | Some (store, record_call) \<Rightarrow>
          (case apply_headers h p of Inl e \<Rightarrow> (w, Inl e)
           | Inr hs \<Rightarrow>
               (case tr_http tr url (extra @ hs) body (lp_timeout_secs p) w of
                  (w', reply) \<Rightarrow>
                    (case send_recorded h (blank_call body store (tr_now tr w)) store reply of
                       (call, result) \<Rightarrow>
                         (record_call (call\<lparr>cl_latency_ms := tr_elapsed_ms tr w w'\<rparr>) w',
                          case result of Inl e \<Rightarrow> Inl e
                          | Inr v \<Rightarrow> parse_anthropic_response v max_tokens)))))"


section \<open>Command-line connections\<close>

text \<open>
  Lower-casing before a search for ASCII words.  Two characters outside ASCII have an ASCII
  letter in their lower case, the Kelvin sign and the dotted capital I; all others are left alone.
\<close>

fun lowercase_ascii_view :: "string \<Rightarrow> string" where
  "lowercase_ascii_view (a # b # c # cs) =
     (if a = CHR 0xE2 \<and> b = CHR 0x84 \<and> c = CHR 0xAA then CHR ''k'' # lowercase_ascii_view cs
      else if a = CHR 0xC4 \<and> b = CHR 0xB0 then CHR ''i'' # CHR 0xCC # CHR 0x87 # lowercase_ascii_view (c # cs)
      else to_ascii_lower a # lowercase_ascii_view (b # c # cs))"
| "lowercase_ascii_view [a, b] =
     (if a = CHR 0xC4 \<and> b = CHR 0xB0 then [CHR ''i'', CHR 0xCC, CHR 0x87] else [to_ascii_lower a, to_ascii_lower b])"
| "lowercase_ascii_view cs = map to_ascii_lower cs"

definition mentions_any :: "string list \<Rightarrow> string \<Rightarrow> bool" where
  "mentions_any needles s \<longleftrightarrow> (let haystack = lowercase_ascii_view s in list_ex (str_contains haystack) needles)"

definition initial_codex_sandbox_arg :: "codex_sandbox_mode \<Rightarrow> string \<Rightarrow> string" where
  "initial_codex_sandbox_arg mode default_mode =
     (case mode of Unsandboxed \<Rightarrow> ''danger-full-access'' | _ \<Rightarrow> default_mode)"

fun replace_sandbox_arg :: "string list \<Rightarrow> string \<Rightarrow> string list" where
  "replace_sandbox_arg [] v = []"
| "replace_sandbox_arg (a # as) v =
     (if a = ''--sandbox'' then a # (case as of [] \<Rightarrow> [] | b # bs \<Rightarrow> v # bs)
      else a # replace_sandbox_arg as v)"

definition SANDBOX_NEEDLES :: "string list" where
  "SANDBOX_NEEDLES = [''failed to create sandbox'', ''failed to initialize sandbox'', ''sandbox setup failed'',
     ''could not create sandbox'', ''user namespace'', ''unshare('', ''landlock'', ''bwrap'', ''seatbelt'',
     ''sandbox-exec'', ''apparmor'', ''restrict_unprivileged_userns'']"

definition sandbox_init_failed :: "string \<Rightarrow> string \<Rightarrow> bool" where
  "sandbox_init_failed out err \<longleftrightarrow> mentions_any SANDBOX_NEEDLES (out @ newline @ err)"

definition sandbox_remediation_hint :: "target_os \<Rightarrow> string" where
  "sandbox_remediation_hint os = newline @ newline @ (case os of
     MacOs \<Rightarrow> ''Codex's macOS Seatbelt sandbox couldn't start '' @ em_dash @ '' this is often an MDM/sandbox-exec restriction. Diagnose with `codex debug seatbelt -- echo ok` in a terminal. You can also switch this connection's sandbox mode to Unsandboxed in Settings.''
   | Windows \<Rightarrow> ''Codex's Windows sandbox couldn't start '' @ em_dash @ '' it needs rights to create a restricted sandbox user and firewall rules, which usually means running as Administrator or asking your IT team. You can also switch this connection's sandbox mode to Unsandboxed in Settings.''
   | Linux \<Rightarrow> ''Codex's Linux sandbox (Landlock/bwrap) couldn't start '' @ em_dash @ '' commonly because unprivileged user namespaces are blocked (the default on Ubuntu 24.04+). Try `sudo sysctl -w kernel.apparmor_restrict_unprivileged_userns=0`, or diagnose directly with `codex debug landlock -- echo ok`. You can also switch this connection's sandbox mode to Unsandboxed in Settings.'')"

definition rejects_flag :: "string \<Rightarrow> string \<Rightarrow> string \<Rightarrow> bool" where
  "rejects_flag out err flag \<longleftrightarrow>
     (str_contains out ''unknown option'' \<or> str_contains err ''unknown option'') \<and>
     (str_contains out flag \<or> str_contains err flag)"

definition AUTH_NEEDLES :: "string list" where
  "AUTH_NEEDLES = [''login'', ''log in'', ''logged in'', ''authenticat'', ''unauthor'', ''not authenticated'',
     ''invalid api key'', ''expired'', ''session has expired'', ''credential'', ''please run'', ''oauth'',
     ''token has expired'', ''re-authenticate'']"

definition auth_hint :: "string \<Rightarrow> string \<Rightarrow> string option" where
  "auth_hint provider combined =
     (if mentions_any AUTH_NEEDLES combined then
        Some (newline @ newline @
          (if provider = ''Claude Code'' then ''The Claude Code CLI session looks expired or logged out. Run `claude` in a terminal and complete /login, then try again.''
           else if provider = ''Codex'' then ''The Codex CLI session looks expired or logged out. Run `codex login` in a terminal, then try again.''
           else ''The CLI session looks expired or logged out. Re-authenticate in a terminal, then try again.''))
      else None)"

definition hint_text :: "string option \<Rightarrow> string" where
  "hint_text hint = (case hint of Some t \<Rightarrow> t | None \<Rightarrow> [])"

definition cli_exit :: "string \<Rightarrow> cli_output \<Rightarrow> llm_error" where
  "cli_exit provider out =
     (let err = co_stderr out; std = co_stdout out;
          detail = (if trim err \<noteq> [] then trim err else if trim std \<noteq> [] then trim std
            else ''(no output on stderr or stdout)'')
      in LE_CliExit provider (co_status out)
           (truncate_text detail ERROR_BODY_EXCERPT_CHARS @ hint_text (auth_hint provider (err @ newline @ std))))"

definition combined_prompt :: "completion_request \<Rightarrow> string" where
  "combined_prompt q = (case cq_system q of
     Some system \<Rightarrow> ''Follow the system instructions below and return only the requested answer.'' @ newline @ newline @
       ''<system>'' @ newline @ system @ newline @ ''</system>'' @ newline @ newline @
       ''<user>'' @ newline @ cq_user q @ newline @ ''</user>''
   | None \<Rightarrow> cq_user q)"

definition executable_or :: "llm_profile \<Rightarrow> string \<Rightarrow> string" where
  "executable_or p fallback = (if trim (lp_executable p) = [] then fallback else trim (lp_executable p))"

subsection \<open>Codex\<close>

definition codex_failure :: "string \<Rightarrow> json \<Rightarrow> llm_error option" where
  "codex_failure line v =
     (if is_str (idx v ''type'') ''turn.failed'' \<or> is_str (idx v ''type'') ''error'' then
        Some (LE_InvalidResponse (fmt ''Codex reported an error: {}'' [truncate_text line RAW_SNIPPET_EXCERPT_CHARS]))
      else None)"

fun first_codex_failure :: "llm_host \<Rightarrow> string list \<Rightarrow> llm_error option" where
  "first_codex_failure h [] = None"
| "first_codex_failure h (line # rest) =
     (case Option.bind (parse_json (lh_host h) line) (codex_failure line) of
        Some e \<Rightarrow> Some e | None \<Rightarrow> first_codex_failure h rest)"

definition codex_error :: "llm_host \<Rightarrow> string \<Rightarrow> llm_error option" where
  "codex_error h out = first_codex_failure h (text_lines out)"

text \<open>The loop over the lines, with the text and the two counts found so far.\<close>

fun parse_codex_lines ::
    "llm_host \<Rightarrow> string list \<Rightarrow> string option \<Rightarrow> 64 word option \<Rightarrow> 64 word option \<Rightarrow> llm_error + completion_response" where
  "parse_codex_lines h [] text input output =
     (case text of None \<Rightarrow> Inl (LE_InvalidResponse ''Codex returned no final agent message'')
      | Some t \<Rightarrow> Inr \<lparr>cr_text = t, cr_input_tokens = input, cr_output_tokens = output, cr_usage = None\<rparr>)"
| "parse_codex_lines h (line # rest) text input output =
     (case parse_json (lh_host h) line of
        None \<Rightarrow> Inl (LE_InvalidResponse (fmt ''invalid Codex JSONL: {}'' [lh_json_error h line]))
      | Some v \<Rightarrow>
          (let text = (if is_str (idx v ''type'') ''item.completed'' \<and> is_str (idx (idx v ''item'') ''type'') ''agent_message''
                       then as_str (idx (idx v ''item'') ''text'') else text);
               turn = is_str (idx v ''type'') ''turn.completed'';
               input = (if turn then u64_of (idx (idx v ''usage'') ''input_tokens'') else input);
               output = (if turn then u64_of (idx (idx v ''usage'') ''output_tokens'') else output)
           in case codex_failure line v of Some e \<Rightarrow> Inl e
            | None \<Rightarrow> parse_codex_lines h rest text input output))"

definition parse_codex_jsonl :: "llm_host \<Rightarrow> string \<Rightarrow> llm_error + completion_response" where
  "parse_codex_jsonl h raw = parse_codex_lines h (text_lines raw) None None None"

definition codex_args :: "string \<Rightarrow> string \<Rightarrow> string list" where
  "codex_args sandbox model =
     [''exec'', ''--ephemeral'', ''--sandbox'', sandbox, ''--skip-git-repo-check'', ''--json''] @
     (if model = [] then [] else [''--model'', model]) @ [''-'']"

text \<open>
  The retries: without \<^verbatim>\<open>--ephemeral\<close> when an old client rejects it, and, in automatic
  mode only, without its sandbox when that cannot start.
\<close>

definition codex_run ::
    "'w transport \<Rightarrow> llm_profile \<Rightarrow> string \<Rightarrow> string list \<Rightarrow> ('w, llm_error + cli_output) effect" where
  "codex_run tr p stdin args = tr_cli tr ''Codex'' (executable_or p ''codex'') args stdin (lp_timeout_secs p)"

definition codex_unsandboxed_retry ::
    "'w transport \<Rightarrow> llm_profile \<Rightarrow> string \<Rightarrow> string list \<Rightarrow> 'w \<times> (llm_error + cli_output) \<Rightarrow> 'w \<times> (llm_error + cli_output)" where
  "codex_unsandboxed_retry tr p stdin args r =
     (case r of
        (w, Inr out) \<Rightarrow>
          if \<not> co_success out \<and> lp_codex_sandbox_mode p = SandboxAuto \<and>
             sandbox_init_failed (co_stdout out) (co_stderr out)
          then codex_run tr p stdin (replace_sandbox_arg args ''danger-full-access'') w
          else r
      | _ \<Rightarrow> r)"

definition codex_ladder ::
    "'w transport \<Rightarrow> llm_profile \<Rightarrow> string \<Rightarrow> string list \<Rightarrow> ('w, llm_error + cli_output) effect" where
  "codex_ladder tr p stdin args w =
     (case codex_run tr p stdin args w of
        (w', Inl e) \<Rightarrow> (w', Inl e)
      | (w', Inr out) \<Rightarrow>
          if \<not> co_success out \<and> rejects_flag (co_stdout out) (co_stderr out) ''--ephemeral'' then
            (let args = filter (\<lambda>a. a \<noteq> ''--ephemeral'') args
             in codex_unsandboxed_retry tr p stdin args (codex_run tr p stdin args w'))
          else codex_unsandboxed_retry tr p stdin args (w', Inr out))"

definition complete_codex ::
    "llm_host \<Rightarrow> 'w transport \<Rightarrow> llm_profile \<Rightarrow> completion_request \<Rightarrow> ('w, llm_error + completion_response) effect" where
  "complete_codex h tr p q w =
     (let sandbox = initial_codex_sandbox_arg (lp_codex_sandbox_mode p) ''read-only''
      in case codex_ladder tr p (combined_prompt q) (codex_args sandbox (trim (requested_model p q))) w of
        (w', Inl e) \<Rightarrow> (w', Inl e)
      | (w', Inr out) \<Rightarrow>
          (w', if \<not> co_success out then
                 if lp_codex_sandbox_mode p = Strict \<and> sandbox_init_failed (co_stdout out) (co_stderr out) then
                   Inl (LE_CliExit ''Codex'' (co_status out)
                     (fmt ''Codex's sandbox failed to initialize.{}'' [sandbox_remediation_hint (lh_os h)]))
                 else Inl (case codex_error h (co_stdout out) of Some e \<Rightarrow> e | None \<Rightarrow> cli_exit ''Codex'' out)
               else parse_codex_jsonl h (co_stdout out)))"


subsection \<open>Claude Code and custom clients\<close>

definition claude_error :: "llm_host \<Rightarrow> string \<Rightarrow> llm_error option" where
  "claude_error h out =
     (case parse_json (lh_host h) (trim out) of None \<Rightarrow> None
      | Some v \<Rightarrow>
          if bool_of (idx v ''is_error'') then
            (let detail = str_or (idx v ''result'') ''(no detail)''
             in Some (LE_InvalidResponse (fmt ''Claude Code reported an error: {}'' [detail] @
                  hint_text (auth_hint ''Claude Code'' detail))))
          else None)"

definition parse_claude_json :: "llm_host \<Rightarrow> string \<Rightarrow> llm_error + completion_response" where
  "parse_claude_json h raw =
     (case parse_json (lh_host h) raw of
        None \<Rightarrow> Inl (LE_InvalidResponse (fmt ''invalid Claude Code JSON: {}'' [lh_json_error h raw]))
      | Some v \<Rightarrow>
          if bool_of (idx v ''is_error'') then
            Inl (LE_InvalidResponse (str_or (idx v ''result'') ''Claude Code reported an error''))
          else (case as_str (idx v ''result'') of
              None \<Rightarrow> Inl (LE_InvalidResponse ''missing Claude Code result'')
            | Some text \<Rightarrow> Inr \<lparr>cr_text = text,
                cr_input_tokens = u64_of (idx (idx v ''usage'') ''input_tokens''),
                cr_output_tokens = u64_of (idx (idx v ''usage'') ''output_tokens''), cr_usage = None\<rparr>))"

definition claude_args :: "string \<Rightarrow> string list" where
  "claude_args model =
     [''-p'', ''--output-format'', ''json'', ''--no-session-persistence'', ''--tools'', []] @
     (if model = [] then [] else [''--model'', model])"

definition complete_claude_cli ::
    "llm_host \<Rightarrow> 'w transport \<Rightarrow> llm_profile \<Rightarrow> completion_request \<Rightarrow> ('w, llm_error + completion_response) effect" where
  "complete_claude_cli h tr p q w =
     (case tr_cli tr ''Claude Code'' (executable_or p ''claude'') (claude_args (trim (requested_model p q)))
        (combined_prompt q) (lp_timeout_secs p) w of
        (w', Inl e) \<Rightarrow> (w', Inl e)
      | (w', Inr out) \<Rightarrow>
          (w', if \<not> co_success out then
                 Inl (case claude_error h (co_stdout out) of Some e \<Rightarrow> e | None \<Rightarrow> cli_exit ''Claude Code'' out)
               else parse_claude_json h (co_stdout out)))"

definition CUSTOM_CLI_PROMPT_PLACEHOLDER :: string where
  "CUSTOM_CLI_PROMPT_PLACEHOLDER = ''{{PROMPT}}''"

definition render_custom_cli_command ::
    "llm_host \<Rightarrow> string \<Rightarrow> string \<Rightarrow> llm_error + string \<times> string list \<times> string" where
  "render_custom_cli_command h tmpl prompt =
     (let tmpl = trim tmpl
      in if tmpl = [] then Inl (LE_Config ''custom CLI command must not be empty'')
         else
           (let has_placeholder = str_contains tmpl CUSTOM_CLI_PROMPT_PLACEHOLDER;
                rendered = (if has_placeholder then replace_all CUSTOM_CLI_PROMPT_PLACEHOLDER prompt tmpl else tmpl)
            in case lh_shlex h rendered of
              None \<Rightarrow> Inl (LE_Config ''could not parse custom CLI command (unmatched quotes?)'')
            | Some [] \<Rightarrow> Inl (LE_Config ''custom CLI command must not be empty'')
            | Some (executable # args) \<Rightarrow> Inr (executable, args, if has_placeholder then [] else prompt)))"

definition complete_custom_cli ::
    "llm_host \<Rightarrow> 'w transport \<Rightarrow> llm_profile \<Rightarrow> completion_request \<Rightarrow> ('w, llm_error + completion_response) effect" where
  "complete_custom_cli h tr p q w =
     (case render_custom_cli_command h (lp_command_template p) (combined_prompt q) of
        Inl e \<Rightarrow> (w, Inl e)
      | Inr (executable, args, stdin) \<Rightarrow>
          (case tr_cli tr ''Custom CLI'' executable args stdin (lp_timeout_secs p) w of
             (w', Inl e) \<Rightarrow> (w', Inl e)
           | (w', Inr out) \<Rightarrow>
               (w', if \<not> co_success out then Inl (cli_exit ''Custom CLI'' out)
                    else Inr \<lparr>cr_text = trim (co_stdout out), cr_input_tokens = None,
                      cr_output_tokens = None, cr_usage = None\<rparr>)))"

section \<open>Vertex\<close>

definition GCLOUD_TOKEN_TIMEOUT_SECS :: "64 word" where
  "GCLOUD_TOKEN_TIMEOUT_SECS = 30"

definition metadata_token :: "llm_host \<Rightarrow> http_reply \<Rightarrow> llm_error + string" where
  "metadata_token h reply =
     (case reply of
        NoResponse e \<Rightarrow> Inl (LE_Request e)
      | BodyFailed status headers e \<Rightarrow> Inl (LE_Request e)
      | Response status headers text \<Rightarrow>
          if \<not> is_success status then Inl (LE_Http status (truncate_text text ERROR_BODY_EXCERPT_CHARS))
          else (case parse_json (lh_host h) text of
              None \<Rightarrow> Inl (LE_InvalidResponse (fmt ''invalid metadata token JSON: {}'' [lh_json_error h text]))
            | Some v \<Rightarrow> (case as_str (idx v ''access_token'') of
                  Some (c # cs) \<Rightarrow> Inr (c # cs)
                | _ \<Rightarrow> Inl (LE_InvalidResponse ''metadata server returned no access_token''))))"

definition gcloud_access_token ::
    "llm_host \<Rightarrow> 'w transport \<Rightarrow> llm_profile \<Rightarrow> ('w, llm_error + string) effect" where
  "gcloud_access_token h tr p w =
     (case tr_cli tr ''gcloud'' (executable_or p ''gcloud'') [''auth'', ''print-access-token''] []
        GCLOUD_TOKEN_TIMEOUT_SECS w of
        (w', r) \<Rightarrow>
          (let fallback = (\<lambda>cli_error. case tr_metadata tr w' of
               (w'', reply) \<Rightarrow> (w'', case metadata_token h reply of
                   Inr token \<Rightarrow> Inr token
                 | Inl e \<Rightarrow> Inl (LE_Config (fmt ''could not obtain a Google Cloud access token {} gcloud CLI: {}; metadata server: {}''
                     [em_dash, cli_error, show_llm_error h e]))))
           in case r of
             Inl e \<Rightarrow> fallback (show_llm_error h e)
           | Inr out \<Rightarrow>
               if co_success out then
                 (if trim (co_stdout out) \<noteq> [] then (w', Inr (trim (co_stdout out)))
                  else fallback ''gcloud printed an empty access token'')
               else fallback (show_llm_error h (cli_exit ''gcloud'' out))))"

definition vertex_body :: "llm_profile \<Rightarrow> completion_request \<Rightarrow> json" where
  "vertex_body p q = JObject (obj_of ([
     (''contents'', JArray [JObject (obj_of [(''role'', JString ''user''),
        (''parts'', JArray [JObject [(''text'', JString (cq_user q))]])])]),
     (''generationConfig'', JObject (obj_of ((''maxOutputTokens'', u64_json (token_budget p q)) # temperature_field p q)))] @
     (case cq_system q of None \<Rightarrow> []
      | Some s \<Rightarrow> [(''systemInstruction'', JObject [(''parts'', JArray [JObject [(''text'', JString s)]])])])))"

definition complete_vertex ::
    "llm_host \<Rightarrow> 'w transport \<Rightarrow> llm_profile \<Rightarrow> completion_request \<Rightarrow> ('w, llm_error + completion_response) effect" where
  "complete_vertex h tr p q w =
     (let model = trim (requested_model p q);
          (w1, authed) =
            (if lp_auth p = AuthNone then (w, Inr p)
             else case resolved_key h p of
               Some token \<Rightarrow> (w, Inr (p\<lparr>lp_api_key := token, lp_auth := Bearer\<rparr>))
             | None \<Rightarrow> (case gcloud_access_token h tr p w of
                 (w', Inl e) \<Rightarrow> (w', Inl e)
               | (w', Inr token) \<Rightarrow> (w', Inr (p\<lparr>lp_api_key := token, lp_auth := Bearer\<rparr>))))
      in case authed of Inl e \<Rightarrow> (w1, Inl e)
       | Inr authed \<Rightarrow>
           (case send_json h tr authed (endpoint (lp_base_url p) (fmt ''{}:generateContent'' [model])) []
              (vertex_body p q) w1 of
              (w', Inl e) \<Rightarrow> (w', Inl e)
            | (w', Inr v) \<Rightarrow> (w', parse_vertex_response v)))"

section \<open>Completion\<close>

definition llm_complete ::
    "llm_host \<Rightarrow> 'w transport \<Rightarrow> llm_profile \<Rightarrow> completion_request \<Rightarrow> ('w, llm_error + completion_response) effect" where
  "llm_complete h tr p q w =
     (case validate_profile h p of Inl e \<Rightarrow> (w, Inl e)
      | Inr u \<Rightarrow> (case lp_protocol p of
          OpenAiChat \<Rightarrow> complete_openai h tr p q w
        | AnthropicMessages \<Rightarrow> complete_anthropic h tr p q w
        | GoogleVertex \<Rightarrow> complete_vertex h tr p q w
        | CodexCli \<Rightarrow> complete_codex h tr p q w
        | ClaudeCli \<Rightarrow> complete_claude_cli h tr p q w
        | CustomCli \<Rightarrow> complete_custom_cli h tr p q w))"


section \<open>Laws\<close>

text \<open>The value of the first \<^verbatim>\<open>--sandbox\<close> flag of an argument list.\<close>

fun sandbox_value :: "string list \<Rightarrow> string option" where
  "sandbox_value (a # b # as) = (if a = ''--sandbox'' then Some b else sandbox_value (b # as))"
| "sandbox_value _ = None"

lemma sandbox_value_codex_args: "sandbox_value (codex_args sandbox model) = Some sandbox"
  by (simp add: codex_args_def)

lemma sandbox_value_replace:
  "sandbox_value args = Some x \<Longrightarrow> sandbox_value (replace_sandbox_arg args v) = Some v"
proof (induction args rule: sandbox_value.induct)
  case (1 a b as)
  then show ?case by (cases "b = ''--sandbox''"; cases as) (auto split: if_splits)
qed auto

lemma sandbox_value_without_ephemeral:
  "sandbox \<noteq> ''--ephemeral'' \<Longrightarrow>
   sandbox_value (filter (\<lambda>a. a \<noteq> ''--ephemeral'') (codex_args sandbox model)) = Some sandbox"
  by (simp add: codex_args_def)

text \<open>A transport whose world also holds the argument lists of the client's runs.\<close>

definition logged :: "'w transport \<Rightarrow> ('w \<times> string list list) transport" where
  "logged tr = \<lparr>
     tr_http = \<lambda>u hs b t (w, log). case tr_http tr u hs b t w of (w', r) \<Rightarrow> ((w', log), r),
     tr_metadata = \<lambda>(w, log). case tr_metadata tr w of (w', r) \<Rightarrow> ((w', log), r),
     tr_cli = \<lambda>provider exe args stdin t (w, log).
       case tr_cli tr provider exe args stdin t w of (w', r) \<Rightarrow> ((w', log @ [args]), r),
     tr_now = \<lambda>(w, log). tr_now tr w,
     tr_elapsed_ms = \<lambda>(w, l) (w', l'). tr_elapsed_ms tr w w',
     tr_recorder = map_option (\<lambda>(store, record_call). (store, \<lambda>c (w, log). (record_call c w, log))) (tr_recorder tr)\<rparr>"

lemma codex_run_logged:
  "codex_run (logged tr) p stdin args (w, log) =
     (case codex_run tr p stdin args w of (w', r) \<Rightarrow> ((w', log @ [args]), r))"
  by (simp add: codex_run_def logged_def split: prod.split)

lemma unsandboxed_retry_logged:
  "codex_unsandboxed_retry (logged tr) p stdin args ((w, log), r) = ((w', log'), r') \<Longrightarrow>
   log' = log \<or>
   log' = log @ [replace_sandbox_arg args ''danger-full-access''] \<and> lp_codex_sandbox_mode p = SandboxAuto"
  by (auto simp: codex_unsandboxed_retry_def codex_run_logged split: sum.splits if_splits prod.splits)

lemma ladder_logged:
  assumes "codex_ladder (logged tr) p stdin args (w, []) = ((w', log), r)"
  shows "\<exists>started last. log = started @ last \<and> started \<noteq> [] \<and> length started \<le> 2 \<and>
    set started \<subseteq> {args, filter (\<lambda>a. a \<noteq> ''--ephemeral'') args} \<and>
    (last = [] \<or> length last = 1 \<and> lp_codex_sandbox_mode p = SandboxAuto)"
proof -
  obtain w1 r1 where run1: "codex_run tr p stdin args w = (w1, r1)" by (cases "codex_run tr p stdin args w")
  show ?thesis
  proof (cases r1)
    case (Inl e)
    with assms run1 have "log = [args]" by (auto simp: codex_ladder_def codex_run_logged)
    then show ?thesis by (intro exI [of _ "[args]"] exI [of _ "[]"]) simp
  next
    case (Inr out)
    define args' where "args' = filter (\<lambda>a. a \<noteq> ''--ephemeral'') args"
    obtain w2 r2 where run2: "codex_run tr p stdin args' w1 = (w2, r2)" by (cases "codex_run tr p stdin args' w1")
    consider "codex_unsandboxed_retry (logged tr) p stdin args' ((w2, [args, args']), r2) = ((w', log), r)"
      | "codex_unsandboxed_retry (logged tr) p stdin args ((w1, [args]), Inr out) = ((w', log), r)"
      using assms run1 run2 Inr by (auto simp: codex_ladder_def codex_run_logged Let_def args'_def split: if_splits)
    then show ?thesis
    proof cases
      case 1
      from unsandboxed_retry_logged [OF this] show ?thesis
        by (intro exI [of _ "[args, args']"] exI [of _ "drop 2 log"]) (auto simp: args'_def)
    next
      case 2
      from unsandboxed_retry_logged [OF this] show ?thesis
        by (intro exI [of _ "[args]"] exI [of _ "drop 1 log"]) auto
    qed
  qed
qed

lemma blank_call_outcome: "cl_outcome (blank_call body store now) = TransportError"
  by (simp add: blank_call_def)

lemma send_recorded_outcome:
  assumes "send_recorded h (blank_call body store now) store reply = (call, result)"
  shows "(case result of Inl e \<Rightarrow> cl_outcome call \<notin> {CallOk, NoTextBlock}
    | Inr v \<Rightarrow> cl_usage call = parse_claude_usage (idx v ''usage'') \<and>
        cl_outcome call = (if anthropic_text v \<noteq> None then CallOk else NoTextBlock))"
proof -
  have o: "cl_outcome (with_status s hs (blank_call body store now)) = TransportError" for s hs
    by (simp add: with_status_def Let_def blank_call_outcome)
  show ?thesis
    using assms
    by (cases reply) (auto simp: send_recorded_def Let_def json_body_def blank_call_outcome o
        split: if_splits option.splits bool.splits)
qed

section \<open>Properties\<close>

text \<open>
  A Codex client is started at most three times, and it loses its sandbox only when the
  connection says so or, in automatic mode, in a last run after the sandbox failed to start.
\<close>

theorem codex_sandbox_policy:
  assumes "codex_ladder (logged tr) p stdin
      (codex_args (initial_codex_sandbox_arg (lp_codex_sandbox_mode p) ''read-only'') model) (w, []) = ((w', log), r)"
  shows "length log \<le> 3 \<and>
    (\<forall>args \<in> set log. sandbox_value args = Some ''danger-full-access'' \<longrightarrow>
       lp_codex_sandbox_mode p = Unsandboxed \<or> lp_codex_sandbox_mode p = SandboxAuto \<and> 2 \<le> length log)"
proof -
  define sb where "sb = initial_codex_sandbox_arg (lp_codex_sandbox_mode p) ''read-only''"
  have sb: "sb \<noteq> ''--ephemeral''" "sb = ''danger-full-access'' \<longleftrightarrow> lp_codex_sandbox_mode p = Unsandboxed"
    by (auto simp: sb_def initial_codex_sandbox_arg_def split: codex_sandbox_mode.splits)
  obtain started last where log: "log = started @ last" "started \<noteq> []" "length started \<le> 2"
    and started: "set started \<subseteq> {codex_args sb model, filter (\<lambda>a. a \<noteq> ''--ephemeral'') (codex_args sb model)}"
    and last: "last = [] \<or> length last = 1 \<and> lp_codex_sandbox_mode p = SandboxAuto"
    using ladder_logged [OF assms] unfolding sb_def by blast
  have "sandbox_value args = Some sb" if "args \<in> set started" for args
    using started that sandbox_value_codex_args sandbox_value_without_ephemeral [OF sb(1)] by auto
  moreover have "length last \<le> 1" "last \<noteq> [] \<Longrightarrow> lp_codex_sandbox_mode p = SandboxAuto \<and> 2 \<le> length log"
    using last log by (auto simp: Suc_le_eq)
  ultimately show ?thesis
    using log sb(2) by (fastforce dest: length_pos_if_in_set)
qed

definition demo_profile :: "llm_protocol \<Rightarrow> string \<Rightarrow> llm_profile" where
  "demo_profile protocol base_url = \<lparr>lp_id = ''p'', lp_name = ''p'', lp_protocol = protocol, lp_model = ''m'',
     lp_base_url = base_url, lp_api_key = ''k'', lp_auth = AuthAuto, lp_headers = [], lp_executable = [],
     lp_command_template = [], lp_max_tokens = None, lp_temperature = None, lp_timeout_secs = 300,
     lp_codex_sandbox_mode = SandboxAuto\<rparr>"

definition failing_transport :: "unit transport" where
  "failing_transport = \<lparr>tr_http = \<lambda>u hs b t w. (w, Response 503 [] ''busy''),
     tr_metadata = \<lambda>w. (w, NoResponse ''none''),
     tr_cli = \<lambda>provider exe args stdin t w.
       (w, Inr \<lparr>co_success = False, co_status = ''exit status: 1'', co_stdout = [], co_stderr = ''bwrap: denied''\<rparr>),
     tr_now = \<lambda>w. 0, tr_elapsed_ms = \<lambda>w w'. 0, tr_recorder = Some (False, \<lambda>c w. w)\<rparr>"

lemma codex_sandbox_policy_witness:
  "case codex_ladder (logged failing_transport) (demo_profile CodexCli []) ''hi''
       (codex_args (initial_codex_sandbox_arg (lp_codex_sandbox_mode (demo_profile CodexCli [])) ''read-only'') ''m'') ((), []) of
     ((w', log), r) \<Rightarrow> length log \<le> 3 \<and>
       map sandbox_value log = [Some ''read-only'', Some ''danger-full-access'']"
proof -
  obtain w' log r where run: "codex_ladder (logged failing_transport) (demo_profile CodexCli []) ''hi''
      (codex_args (initial_codex_sandbox_arg (lp_codex_sandbox_mode (demo_profile CodexCli [])) ''read-only'') ''m'')
      ((), []) = ((w', log), r)"
    by (metis surj_pair)
  have "map sandbox_value (snd (fst (codex_ladder (logged failing_transport) (demo_profile CodexCli []) ''hi''
      (codex_args (initial_codex_sandbox_arg (lp_codex_sandbox_mode (demo_profile CodexCli [])) ''read-only'') ''m'')
      ((), [])))) = [Some ''read-only'', Some ''danger-full-access'']"
    by code_simp
  with codex_sandbox_policy [OF run, THEN conjunct1] run show ?thesis by simp
qed

text \<open>
  Inside a recording scope every request that is sent to the Anthropic API is recorded
  exactly once, after the reply, and the record says what the caller got: the outcome is
  \<^verbatim>\<open>Ok\<close> exactly when a text is returned, with the same usage.
\<close>

theorem anthropic_call_recorded:
  assumes "tr_recorder tr = Some (store, record_call)" and "is_anthropic_api h (lp_base_url p)"
    and "complete_anthropic h tr p q w = (w', r)"
  shows "(w' = w \<and> (\<exists>e. apply_headers h p = Inl e \<and> r = Inl e)) \<or>
    (\<exists>call w1 hs. apply_headers h p = Inr hs \<and> w' = record_call call w1 \<and>
       (case r of Inl e \<Rightarrow> cl_outcome call \<noteq> CallOk
        | Inr response \<Rightarrow> cl_outcome call = CallOk \<and> cl_usage call = cr_usage response))"
proof (cases "apply_headers h p")
  case (Inl e)
  with assms show ?thesis by (simp add: complete_anthropic_def Let_def)
next
  case (Inr hs)
  define url extra body where "url = endpoint (lp_base_url p) ''messages''"
    and "extra = [(''anthropic-version'', ANTHROPIC_API_VERSION)]" and "body = anthropic_body p q"
  obtain w1 reply where http: "tr_http tr url (extra @ hs) body (lp_timeout_secs p) w = (w1, reply)"
    by (cases "tr_http tr url (extra @ hs) body (lp_timeout_secs p) w")
  obtain call result where sent: "send_recorded h (blank_call body store (tr_now tr w)) store reply = (call, result)"
    by (cases "send_recorded h (blank_call body store (tr_now tr w)) store reply")
  define call' where "call' = call\<lparr>cl_latency_ms := tr_elapsed_ms tr w w1\<rparr>"
  have w': "w' = record_call call' w1"
    and r: "r = (case result of Inl e \<Rightarrow> Inl e | Inr v \<Rightarrow> parse_anthropic_response v (token_budget p q))"
    using assms Inr http sent
    by (simp_all add: complete_anthropic_def Let_def url_def extra_def body_def call'_def)
  have "case r of Inl e \<Rightarrow> cl_outcome call' \<noteq> CallOk
        | Inr response \<Rightarrow> cl_outcome call' = CallOk \<and> cl_usage call' = cr_usage response"
    using send_recorded_outcome [OF sent] unfolding r call'_def
    by (cases result) (auto simp: parse_anthropic_response_def Let_def split: option.splits if_splits)
  with Inr w' show ?thesis by blast
qed

definition anthropic_host :: llm_host where
  "anthropic_host = \<lparr>lh_host = quiet_host,
     lh_net = \<lparr>url_parse = \<lambda>u. Inr \<lparr>u_scheme = ''https'', u_host = Some ''api.anthropic.com'', u_username = [],
       u_password = None, u_fragment = None\<rparr>, ip_is_loopback = \<lambda>s. False\<rparr>,
     lh_json_error = \<lambda>s. ''bad'', lh_status_text = \<lambda>s. ''503'', lh_header_name_error = \<lambda>s. None,
     lh_header_value_error = \<lambda>s. None, lh_shlex = \<lambda>s. None, lh_os = Linux\<rparr>"

definition recording_transport :: "claude_call list transport" where
  "recording_transport = \<lparr>tr_http = \<lambda>u hs b t w. (w, Response 503 [] ''busy''),
     tr_metadata = \<lambda>w. (w, NoResponse ''none''), tr_cli = \<lambda>provider exe args stdin t w. (w, Inl (LE_Request [])),
     tr_now = \<lambda>w. 0, tr_elapsed_ms = \<lambda>w w'. 0, tr_recorder = Some (False, \<lambda>c w. w @ [c])\<rparr>"

lemma anthropic_call_recorded_witness:
  "\<exists>call w1. fst (complete_anthropic anthropic_host recording_transport
      (demo_profile AnthropicMessages ''https://api.anthropic.com/v1'')
      \<lparr>cq_system = None, cq_user = ''hi'', cq_model = None, cq_max_tokens = None, cq_temperature = None\<rparr> [])
    = w1 @ [call]"
proof -
  let ?p = "demo_profile AnthropicMessages ''https://api.anthropic.com/v1''"
  let ?q = "\<lparr>cq_system = None, cq_user = ''hi'', cq_model = None, cq_max_tokens = None, cq_temperature = None\<rparr>"
  obtain w' r where run: "complete_anthropic anthropic_host recording_transport ?p ?q [] = (w', r)"
    by (metis surj_pair)
  have rec: "tr_recorder recording_transport = Some (False, \<lambda>c w. w @ [c])"
    by (simp add: recording_transport_def)
  have api: "is_anthropic_api anthropic_host (lp_base_url ?p)" by code_simp
  have "apply_headers anthropic_host ?p = Inr [(''x-api-key'', ''k'')]" by code_simp
  with anthropic_call_recorded [OF rec api run] run show ?thesis by auto
qed

end
