(* ===== verification/Resolution.thy ===== *)
theory Resolution
  imports PlanSteps
begin

text \<open>
  \<^verbatim>\<open>executor/step_runners/mod.rs\<close>: the outputs a step can read, the placeholders a
  configuration cannot resolve, and their resolution.  Sharing of the base map
  (\<^verbatim>\<open>Arc\<close>) is not observable and not modelled; rendering of JSON and the process
  environment come from the \<open>host\<close>.
\<close>

section \<open>Step outputs\<close>

definition ITEM_SCOPE_KEY :: string where
  "ITEM_SCOPE_KEY = ''__item__''"

definition APPROVED_RESPONSE :: string where
  "APPROVED_RESPONSE = ''approved''"

type_synonym named_outputs = "json imap"
type_synonym output_map = "named_outputs imap"

record step_outputs =
  so_base :: output_map
  so_overlay :: output_map

definition outputs_from_map :: "output_map \<Rightarrow> step_outputs" where
  "outputs_from_map m = \<lparr>so_base = m, so_overlay = []\<rparr>"

definition get_step_outputs :: "step_outputs \<Rightarrow> string \<Rightarrow> named_outputs option" where
  "get_step_outputs s i =
     (case im_get (so_overlay s) i of Some outs \<Rightarrow> Some outs | None \<Rightarrow> im_get (so_base s) i)"

definition outputs_is_empty :: "step_outputs \<Rightarrow> bool" where
  "outputs_is_empty s \<longleftrightarrow> so_base s = [] \<and> so_overlay s = []"

definition with_output :: "string \<Rightarrow> named_outputs \<Rightarrow> step_outputs \<Rightarrow> step_outputs" where
  "with_output i outs s = s\<lparr>so_overlay := im_insert i outs (so_overlay s)\<rparr>"

definition with_outputs :: "output_map \<Rightarrow> step_outputs \<Rightarrow> step_outputs" where
  "with_outputs m s = s\<lparr>so_overlay := im_extend (so_overlay s) m\<rparr>"

definition insert_base :: "string \<Rightarrow> named_outputs \<Rightarrow> step_outputs \<Rightarrow> step_outputs" where
  "insert_base i outs s = s\<lparr>so_base := im_insert i outs (so_base s)\<rparr>"

definition output_entries :: "step_outputs \<Rightarrow> (string \<times> named_outputs) list" where
  "output_entries s =
     so_overlay s @ filter (\<lambda>(i, outs). \<not> im_contains (so_overlay s) i) (so_base s)"

interpretation so: keyed_store get_step_outputs with_output
  by unfold_locales (simp add: get_step_outputs_def with_output_def im.get_put split: option.split)

section \<open>Looking a placeholder up\<close>

definition opt_null :: "json option \<Rightarrow> json" where
  "opt_null v = (case v of Some j \<Rightarrow> j | None \<Rightarrow> JNull)"

definition lookup_key :: "host \<Rightarrow> json imap \<Rightarrow> step_outputs \<Rightarrow> string \<Rightarrow> json" where
  "lookup_key h config outs key =
     (if starts_with key ''input.'' then opt_null (im_get config key)
      else case strip_prefix key ''conf.'' of Some conf_key \<Rightarrow> opt_null (im_get config conf_key)
      | None \<Rightarrow>
     (case strip_prefix key ''step.'' of
        Some rest \<Rightarrow>
          (case split_once (CHR ''.'') rest of
             Some (step_id, output_name) \<Rightarrow>
               opt_null (Option.bind (get_step_outputs outs step_id) (\<lambda>o'. im_get o' output_name))
           | None \<Rightarrow> JNull)
      | None \<Rightarrow>
     (case strip_prefix key ''env.'' of
        Some var_name \<Rightarrow> JString (case env_var h var_name of Some v \<Rightarrow> v | None \<Rightarrow> [])
      | None \<Rightarrow>
     (case strip_prefix key ''item.'' of
        Some item_key \<Rightarrow>
          opt_null (Option.bind (get_step_outputs outs ITEM_SCOPE_KEY) (\<lambda>o'. im_get o' item_key))
      | None \<Rightarrow> JNull))))"

section \<open>Missing placeholders\<close>

definition unresolvable :: "json imap \<Rightarrow> step_outputs \<Rightarrow> string \<Rightarrow> bool" where
  "unresolvable config outs key \<longleftrightarrow>
     (if starts_with key ''input.'' then \<not> im_contains config key
      else case strip_prefix key ''conf.'' of Some conf_key \<Rightarrow> \<not> im_contains config conf_key
      | None \<Rightarrow>
     (case strip_prefix key ''step.'' of
        Some rest \<Rightarrow>
          (case split_once (CHR ''.'') rest of
             Some (step_id, output) \<Rightarrow>
               (case get_step_outputs outs step_id of None \<Rightarrow> True
                | Some o' \<Rightarrow> (case im_get o' output of None \<Rightarrow> True | Some v \<Rightarrow> is_null v))
           | None \<Rightarrow> True)
      | None \<Rightarrow> False))"

definition missing_placeholders :: "json \<Rightarrow> json imap \<Rightarrow> step_outputs \<Rightarrow> string list" where
  "missing_placeholders v config outs =
     remdups_adj (sort (map braced (filter (unresolvable config outs) (collect_placeholder_keys v))))"

definition output_hint :: "step_outputs \<Rightarrow> string \<Rightarrow> string" where
  "output_hint outs step_id =
     (case get_step_outputs outs step_id of
        Some (x # xs) \<Rightarrow> fmt ''Step '{}' actually produced: {}.''
          [step_id, join '', '' (map (\<lambda>(k, v). if is_null v then k @ ''=null'' else k) (x # xs))]
      | _ \<Rightarrow> fmt ''Step '{}' produced no named outputs.'' [step_id])"

definition available_outputs_hint :: "string list \<Rightarrow> step_outputs \<Rightarrow> string" where
  "available_outputs_hint missing outs =
     (let step_ids = remdups_adj (sort (List.map_filter (\<lambda>key.
        Option.bind (strip_prefix key ''${step.'')
          (\<lambda>rest. map_option fst (split_once (CHR ''.'') rest))) missing))
      in join '' '' (map (output_hint outs) step_ids))"

section \<open>URL templates\<close>

datatype url_component = Path | Query | Fragment

fun advance_url_component :: "url_component \<Rightarrow> string \<Rightarrow> url_component" where
  "advance_url_component component [] = component"
| "advance_url_component component (byte # segment) =
     (if byte = CHR ''#'' then Fragment
      else if byte = CHR ''?'' \<and> component = Path then advance_url_component Query segment
      else advance_url_component component segment)"

fun has_whitespace :: "string \<Rightarrow> bool" where
  "has_whitespace [] = False"
| "has_whitespace (c # cs) = (ws_len (c # cs) > 0 \<or> has_whitespace cs)"

text \<open>\<^verbatim>\<open>s.get(..8)\<close> is absent when the string is shorter or the cut splits a character.\<close>

definition is_url_template :: "string \<Rightarrow> bool" where
  "is_url_template s \<longleftrightarrow>
     (let lower = (if 8 \<le> length s \<and> (length s = 8 \<or> \<not> utf8_cont (s ! 8)) then to_ascii_lowercase (take 8 s)
                   else [])
      in (starts_with lower ''http://'' \<or> starts_with lower ''https://'') \<and> \<not> has_whitespace s)"

definition HEX_DIGITS :: string where
  "HEX_DIGITS = ''0123456789ABCDEF''"

definition unreserved :: "char \<Rightarrow> bool" where
  "unreserved c \<longleftrightarrow> ascii_alphanumeric c \<or> c \<in> {CHR ''-'', CHR ''.'', CHR ''_'', CHR ''~''}"

definition percent_encode_byte :: "char \<Rightarrow> string" where
  "percent_encode_byte c =
     (if unreserved c then [c]
      else [CHR ''%'', HEX_DIGITS ! (of_char c div 16), HEX_DIGITS ! (of_char c mod 16)])"

definition percent_encode_component :: "string \<Rightarrow> string" where
  "percent_encode_component v = concat (map percent_encode_byte v)"

section \<open>Resolution\<close>

fun value_to_string :: "host \<Rightarrow> json \<Rightarrow> string" where
  "value_to_string h (JString s) = s"
| "value_to_string h JNull = []"
| "value_to_string h other = render h other"

text \<open>The replacement loop, over the placeholders with the literal text before each.\<close>

fun replace_placeholders ::
    "host \<Rightarrow> json imap \<Rightarrow> step_outputs \<Rightarrow> bool \<Rightarrow> url_component \<Rightarrow> (string \<times> string) list \<Rightarrow> string \<Rightarrow> string" where
  "replace_placeholders h config outs url_template component [] replaced = replaced"
| "replace_placeholders h config outs url_template component ((literal, key) # caps) replaced =
     (let component = advance_url_component component literal;
          replaced = replaced @ literal
      in if is_plan_placeholder_key key then
           (let v = value_to_string h (lookup_key h config outs key) in
            if url_template \<and> component = Query then
              replace_placeholders h config outs url_template component caps
                (replaced @ percent_encode_component v)
            else
              replace_placeholders h config outs url_template (advance_url_component component v) caps
                (replaced @ v))
         else
           replace_placeholders h config outs url_template
             (advance_url_component component (braced key)) caps (replaced @ braced key))"

definition resolve_string :: "host \<Rightarrow> json imap \<Rightarrow> step_outputs \<Rightarrow> string \<Rightarrow> json" where
  "resolve_string h config outs s =
     (let partial =
        (case segments executor_match s of (caps, tail) \<Rightarrow>
           JString (replace_placeholders h config outs (is_url_template s) Path caps [] @ tail))
      in case find_match executor_match s of
        Some ([], key, []) \<Rightarrow>
          if is_plan_placeholder_key key then lookup_key h config outs key else partial
      | _ \<Rightarrow> partial)"

fun resolve_placeholders :: "host \<Rightarrow> json imap \<Rightarrow> step_outputs \<Rightarrow> json \<Rightarrow> json" where
  "resolve_placeholders h config outs (JString s) = resolve_string h config outs s"
| "resolve_placeholders h config outs (JObject kvs) =
     JObject (map (\<lambda>(k, v). (k, resolve_placeholders h config outs v)) kvs)"
| "resolve_placeholders h config outs (JArray vs) = JArray (map (resolve_placeholders h config outs) vs)"
| "resolve_placeholders h config outs other = other"

definition resolve_to_string :: "host \<Rightarrow> json imap \<Rightarrow> step_outputs \<Rightarrow> string \<Rightarrow> string" where
  "resolve_to_string h config outs v =
     (case resolve_placeholders h config outs (JString v) of
        JString resolved \<Rightarrow> resolved | other \<Rightarrow> render h other)"

definition non_empty :: "string \<Rightarrow> string option" where
  "non_empty s = (if s = [] then None else Some s)"

section \<open>Percent encoding\<close>

text \<open>Decoding, the specification of the encoder.\<close>

definition hex_value :: "char \<Rightarrow> nat" where
  "hex_value c = (if ascii_digit c then of_char c - 48 else of_char c - 55)"

fun percent_decode :: "string \<Rightarrow> string" where
  "percent_decode (c # a # b # cs) =
     (if c = CHR ''%'' then char_of (hex_value a * 16 + hex_value b) # percent_decode cs
      else c # percent_decode (a # b # cs))"
| "percent_decode cs = cs"

lemma not_unreserved [simp]: "\<not> unreserved (CHR ''%'')"
  by (simp add: unreserved_def ascii_alphanumeric_def ascii_alpha_def ascii_digit_def)

lemma of_char_high: "(of_char c :: nat) div 16 < 16"
  by (rule less_mult_imp_div_less) (simp add: of_char_def)

lemma hex_digit: "n < 16 \<Longrightarrow> hex_value (HEX_DIGITS ! n) = n \<and> ascii_alphanumeric (HEX_DIGITS ! n)"
proof -
  have "\<forall>n \<in> {0..<16}. hex_value (HEX_DIGITS ! n) = n \<and> ascii_alphanumeric (HEX_DIGITS ! n)"
    by code_simp
  then show "n < 16 \<Longrightarrow> ?thesis" by simp
qed

lemma percent_decode_literal: "c \<noteq> CHR ''%'' \<Longrightarrow> percent_decode (c # cs) = c # percent_decode cs"
  by (cases cs rule: percent_decode.cases) auto

lemma percent_decode_byte: "percent_decode (percent_encode_byte c @ cs) = c # percent_decode cs"
proof (cases "unreserved c")
  case True
  then have "c \<noteq> CHR ''%''" by auto
  with True show ?thesis by (simp add: percent_encode_byte_def percent_decode_literal)
next
  case False
  then show ?thesis
    using of_char_high [of c] by (simp add: percent_encode_byte_def hex_digit)
qed

lemma percent_decode_encode: "percent_decode (percent_encode_component v @ cs) = v @ percent_decode cs"
  by (induction v) (simp_all add: percent_encode_component_def percent_decode_byte)

lemma percent_encode_chars: "c \<in> set (percent_encode_component v) \<Longrightarrow> unreserved c \<or> c = CHR ''%''"
proof -
  have "c \<in> set (percent_encode_byte d) \<Longrightarrow> unreserved c \<or> c = CHR ''%''" for d
    using of_char_high [of d]
    by (auto simp: percent_encode_byte_def unreserved_def hex_digit split: if_splits)
  then show "c \<in> set (percent_encode_component v) \<Longrightarrow> ?thesis"
    by (auto simp: percent_encode_component_def)
qed

section \<open>Laws of resolution\<close>

lemma replace_verbatim:
  "\<forall>(l, k) \<in> set caps. \<not> is_plan_placeholder_key k \<Longrightarrow>
   replace_placeholders h config outs u cm caps replaced =
     replaced @ concat (map (\<lambda>(l, k). l @ braced k) caps)"
proof (induction caps arbitrary: cm replaced)
  case Nil
  show ?case by simp
next
  case (Cons cap caps)
  then show ?case by (cases cap) (simp add: Let_def)
qed

lemma resolve_string_verbatim:
  assumes "\<not> contains_plan_placeholder s"
  shows "resolve_string h config outs s = JString s"
proof -
  obtain caps tail where seg: "segments executor_match s = (caps, tail)" by (cases "segments executor_match s")
  have none: "\<forall>(l, k) \<in> set caps. \<not> is_plan_placeholder_key k"
    using assms seg by (auto simp: contains_plan_placeholder_def placeholder_keys_def list_ex_iff)
  have whole: "\<not> is_plan_placeholder_key key" if "find_match executor_match s = Some ([], key, [])" for key
    using ex.segments_match [OF that] none seg by auto
  show ?thesis
    using ex.segments_join [OF seg] replace_verbatim [OF none, of h config outs "is_url_template s" Path "[]"] whole
    by (auto simp: resolve_string_def Let_def seg split: option.split prod.split list.split)
qed

lemma resolve_placeholders_verbatim:
  "\<forall>s \<in> set (collect_from_value v). \<not> contains_plan_placeholder s \<Longrightarrow>
   resolve_placeholders h config outs v = v"
proof (induction v rule: collect_from_value.induct)
  case (2 vs)
  then show ?case by (auto intro!: map_idI)
next
  case (3 kvs)
  have "(k, resolve_placeholders h config outs v) = (k, v)" if "(k, v) \<in> set kvs" for k v
    using 3 that by fastforce
  then show ?case by (auto intro!: map_idI)
qed (simp_all add: resolve_string_verbatim)

lemma resolve_whole:
  assumes "CHR ''}'' \<notin> set key" and "is_plan_placeholder_key key"
  shows "resolve_placeholders h config outs (JString (braced key)) = lookup_key h config outs key"
proof -
  have "key \<noteq> []" using assms(2) by (auto simp: is_plan_placeholder_key_def)
  then have "executor_match (braced key) = Some (key, [])"
    using assms(1) by (simp add: executor_match_iff)
  then have "find_match executor_match (braced key) = Some ([], key, [])"
    by (simp add: braced_def)
  with assms(2) show ?thesis by (simp add: resolve_string_def Let_def)
qed

lemma resolvable_step:
  assumes "\<not> unresolvable config outs key" and "starts_with key ''step.''"
  shows "lookup_key h config outs key \<noteq> JNull"
proof -
  obtain rest where [simp]: "key = ''step.'' @ rest" using assms(2) by (auto simp: starts_with_iff)
  show ?thesis
    using assms(1)
    by (auto simp: unresolvable_def lookup_key_def opt_null_def strip_prefix_def starts_with_def
        split: option.splits if_splits)
qed

lemma advance_query: "CHR ''#'' \<notin> set l \<Longrightarrow> advance_url_component Query l = Query"
  by (induction l) auto

lemma advance_path: "CHR ''#'' \<notin> set l \<Longrightarrow> CHR ''?'' \<in> set l \<Longrightarrow> advance_url_component Path l = Query"
  by (induction l) (auto simp: advance_query)

text \<open>The characters that give a URL its structure.\<close>

definition structural :: "char \<Rightarrow> bool" where
  "structural c \<longleftrightarrow> \<not> unreserved c \<and> c \<noteq> CHR ''%''"

lemma filter_structural_encode: "filter structural (percent_encode_component v) = []"
  using percent_encode_chars [of _ v] by (auto simp: filter_empty_conv structural_def)

lemma replace_in_query:
  "\<forall>(l, k) \<in> set caps. CHR ''#'' \<notin> set l \<and> is_plan_placeholder_key k \<Longrightarrow>
   filter structural (replace_placeholders h config outs True Query caps replaced) =
     filter structural (replaced @ concat (map fst caps))"
proof (induction caps arbitrary: replaced)
  case Nil
  show ?case by simp
next
  case (Cons cap caps)
  obtain l k where [simp]: "cap = (l, k)" by (cases cap)
  from Cons.prems have l: "CHR ''#'' \<notin> set l" "is_plan_placeholder_key k"
    and r: "\<forall>(l, k) \<in> set caps. CHR ''#'' \<notin> set l \<and> is_plan_placeholder_key k"
    by auto
  show ?case
    using Cons.IH [OF r] l by (simp add: Let_def advance_query filter_structural_encode)
qed

section \<open>Properties\<close>

text \<open>
  Percent encoding loses nothing and leaves no delimiter: decoding gives the value back,
  and the encoded text consists of unreserved characters and percent signs.
\<close>

theorem percent_encoding:
  "percent_decode (percent_encode_component v) = v \<and>
   list_all (\<lambda>c. unreserved c \<or> c = CHR ''%'') (percent_encode_component v)"
  using percent_decode_encode [of v "[]"] percent_encode_chars [of _ v] by (auto simp: list_all_iff)

text \<open>
  Script syntax is passed through.  A value none of whose strings contains a plan
  placeholder is resolved to itself, whatever the configuration, the outputs and the
  environment.
\<close>

theorem resolve_verbatim:
  assumes "list_all (\<lambda>s. \<not> contains_plan_placeholder s) (collect_from_value v)"
  shows "resolve_placeholders h config outs v = v"
  using assms by (intro resolve_placeholders_verbatim) (simp add: list_all_iff)

definition silent_host :: host where
  "silent_host = \<lparr>render = \<lambda>j. ''?'', parse_json = \<lambda>s. None, env_var = \<lambda>s. None\<rparr>"

lemma resolve_verbatim_witness:
  "resolve_placeholders silent_host [] (outputs_from_map []) (JArray [JString ''${HOME} ${x%%y}'', JNull])
     = JArray [JString ''${HOME} ${x%%y}'', JNull]"
  by (rule resolve_verbatim) code_simp

text \<open>
  C29: the preflight check is sound.  When it finds nothing missing, every whole-value
  reference to a step output in the configuration resolves to a value that is not null, and
  every reference to an input names an input of the run.
\<close>

theorem preflight_sound:
  assumes "missing_placeholders v config outs = []" and "key \<in> set (collect_placeholder_keys v)"
  shows "(starts_with key ''step.'' \<longrightarrow>
      resolve_placeholders h config outs (JString (braced key)) \<noteq> JNull) \<and>
    (starts_with key ''input.'' \<longrightarrow> im_contains config key)"
proof
  have "set (map braced (filter (unresolvable config outs) (collect_placeholder_keys v))) = {}"
    using assms(1) by (metis missing_placeholders_def remdups_adj_set set_sort list.set(1))
  then have u: "\<not> unresolvable config outs key"
    using assms(2) by (auto simp: filter_empty_conv)
  have "CHR ''}'' \<notin> set key"
    using assms(2) executor_key by (auto simp: collect_placeholder_keys_strings)
  then show "starts_with key ''step.'' \<longrightarrow>
      resolve_placeholders h config outs (JString (braced key)) \<noteq> JNull"
    using resolve_whole [of key h config outs] resolvable_step [OF u, of h]
    by (auto simp: is_plan_placeholder_key_def)
  show "starts_with key ''input.'' \<longrightarrow> im_contains config key"
    using u by (auto simp: unresolvable_def split: if_splits)
qed

lemma preflight_sound_witness:
  "resolve_placeholders silent_host [] (outputs_from_map [(''a'', [(''out'', JBool True)])])
     (JString (braced ''step.a.out'')) \<noteq> JNull"
proof -
  have "missing_placeholders (JString ''x ${step.a.out}'') [] (outputs_from_map [(''a'', [(''out'', JBool True)])]) = []"
    "''step.a.out'' \<in> set (collect_placeholder_keys (JString ''x ${step.a.out}''))"
    "starts_with ''step.a.out'' ''step.''"
    by code_simp+
  then show ?thesis using preflight_sound by blast
qed

text \<open>
  Values cannot change the structure of a query.  In a URL template whose first
  placeholder comes after the question mark, and which has no fragment before a placeholder,
  the delimiters of the resolved URL are those of the template, in the same order.
\<close>

theorem query_values_are_inert:
  assumes "is_url_template s" and "segments executor_match s = ((l, k) # caps, tail)"
    and "CHR ''?'' \<in> set l"
    and "list_all (\<lambda>(l, k). CHR ''#'' \<notin> set l \<and> is_plan_placeholder_key k) ((l, k) # caps)"
  shows "\<exists>r. resolve_string h config outs s = JString r \<and>
    filter structural r = filter structural (l @ concat (map fst caps) @ tail)"
proof -
  have l: "CHR ''#'' \<notin> set l" "is_plan_placeholder_key k"
    and r: "\<forall>(l, k) \<in> set caps. CHR ''#'' \<notin> set l \<and> is_plan_placeholder_key k"
    using assms(4) by (auto simp: list_all_iff)
  have "find_match executor_match s \<noteq> Some ([], key, [])" for key
    using ex.segments_match [of s "[]" key "[]"] assms(2,3) by auto
  then have "resolve_string h config outs s =
      JString (replace_placeholders h config outs True Path ((l, k) # caps) [] @ tail)"
    using assms(1,2) by (auto simp: resolve_string_def Let_def split: option.split prod.split list.split)
  then show ?thesis
    using replace_in_query [OF r, of h config outs] l assms(3)
    by (simp add: Let_def advance_path filter_structural_encode)
qed

lemma query_values_are_inert_witness:
  "\<exists>r. resolve_string silent_host [(''q'', JString ''a&b#c'')] (outputs_from_map [])
       ''https://x.org/s?q=${conf.q}&n=1'' = JString r \<and>
     filter structural r = '':///?=&=''"
proof -
  have a: "is_url_template ''https://x.org/s?q=${conf.q}&n=1''"
    and b: "segments executor_match ''https://x.org/s?q=${conf.q}&n=1'' = ([(''https://x.org/s?q='', ''conf.q'')], ''&n=1'')"
    and q: "CHR ''?'' \<in> set ''https://x.org/s?q=''"
    and c: "list_all (\<lambda>(l, k). CHR ''#'' \<notin> set l \<and> is_plan_placeholder_key k) [(''https://x.org/s?q='', ''conf.q'')]"
    and f: "filter structural (''https://x.org/s?q='' @ concat (map fst []) @ ''&n=1'') = '':///?=&=''"
    by code_simp+
  show ?thesis
    using query_values_are_inert [OF a b q c, of silent_host "[(''q'', JString ''a&b#c'')]" "outputs_from_map []"]
    unfolding f .
qed

end
