(* ===== verification/Expression.thy ===== *)
theory Expression
  imports Prelude
begin

text \<open>
  The grammar of CONDITION and FAN_OUT \<^verbatim>\<open>until\<close> expressions: the first half of
  \<^verbatim>\<open>plan/steps.rs\<close>.  The scanner walks the bytes of the expression; every delimiter
  it looks for is ASCII, so this visits the same offsets as \<^verbatim>\<open>char_indices\<close> where it
  matters.
\<close>

datatype comparison = Eq | Ne

fun show_comparison :: "comparison \<Rightarrow> string" where
  "show_comparison Eq = ''==''"
| "show_comparison Ne = ''!=''"

datatype expression =
    Compare string comparison string
  | Truthy string

definition UNSUPPORTED_LOGICAL_OPERATORS :: "string list" where
  "UNSUPPORTED_LOGICAL_OPERATORS = [''&&'', ''||'']"

definition UNSUPPORTED_COMPARISON_OPERATORS :: "string list" where
  "UNSUPPORTED_COMPARISON_OPERATORS = [''>='', ''<='', ''<>'', ''>'', ''<'']"

definition unsupported_operator_error :: "string \<Rightarrow> string \<Rightarrow> string" where
  "unsupported_operator_error expression token =
     fmt ''CONDITION expression '{}' uses the unsupported operator '{}' {} this grammar has only '==', '!=' and a bare truthiness check. Compute the comparison in a preceding CODE_CALL step and compare its output for equality.''
       [expression, token, em_dash]"

definition is_negation_operator :: "string \<Rightarrow> nat \<Rightarrow> bool" where
  "is_negation_operator expression index =
     (let before = trim_end (take index expression);
          after = trim_start (drop (index + 1) expression);
          starts_operand = (before = [] \<or> ends_with before ''=='' \<or> ends_with before ''!='' \<or>
            ends_with before ''&&'' \<or> ends_with before ''||'')
      in starts_operand \<and> after \<noteq> [])"

text \<open>
  The state of the scan: the two flags of the quoting automaton and what was found outside
  quoted literals.
\<close>

record operator_scan =
  os_quoted :: bool
  os_escaped :: bool
  os_supported :: "(nat \<times> comparison) option"
  os_logical :: "string option"
  os_comparison :: "string option"

definition scan_start :: operator_scan where
  "scan_start = \<lparr>os_quoted = False, os_escaped = False, os_supported = None,
     os_logical = None, os_comparison = None\<rparr>"

definition or_insert :: "'a \<Rightarrow> 'a option \<Rightarrow> 'a option" where
  "or_insert x o' = (case o' of None \<Rightarrow> Some x | Some y \<Rightarrow> Some y)"

text \<open>One round of the loop, at byte \<open>index\<close>; \<open>rest\<close> starts with \<open>character\<close>.\<close>

definition scan_char ::
    "string \<Rightarrow> nat \<Rightarrow> char \<Rightarrow> string \<Rightarrow> operator_scan \<Rightarrow> operator_scan" where
  "scan_char expression index character rest st =
     (if os_quoted st then
        (if os_escaped st then st\<lparr>os_escaped := False\<rparr>
         else if character = CHR 0x5C then st\<lparr>os_escaped := True\<rparr>
         else if character = CHR 0x22 then st\<lparr>os_quoted := False\<rparr>
         else st)
      else if character = CHR 0x22 then st\<lparr>os_quoted := True\<rparr>
      else if starts_with rest ''=='' then
        st\<lparr>os_supported := or_insert (index, Eq) (os_supported st)\<rparr>
      else if starts_with rest ''!='' then
        st\<lparr>os_supported := or_insert (index, Ne) (os_supported st)\<rparr>
      else
        (let logical = (case os_logical st of Some t \<Rightarrow> Some t
               | None \<Rightarrow>
                   (case find (starts_with rest) UNSUPPORTED_LOGICAL_OPERATORS of
                      Some t \<Rightarrow> Some t
                    | None \<Rightarrow> if character = CHR ''!'' \<and> is_negation_operator expression index
                              then Some ''!'' else None));
             comparison = (case os_comparison st of Some t \<Rightarrow> Some t
               | None \<Rightarrow>
                   (case find (starts_with rest) UNSUPPORTED_COMPARISON_OPERATORS of
                      Some t \<Rightarrow> Some t
                    | None \<Rightarrow> if character = CHR ''='' then Some ''='' else None))
         in st\<lparr>os_logical := logical, os_comparison := comparison\<rparr>))"

fun scan_from :: "string \<Rightarrow> nat \<Rightarrow> string \<Rightarrow> operator_scan \<Rightarrow> operator_scan" where
  "scan_from expression index [] st = st"
| "scan_from expression index (c # cs) st =
     scan_from expression (Suc index) cs (scan_char expression index c (c # cs) st)"

definition scan_operators :: "string \<Rightarrow> string + operator_scan" where
  "scan_operators expression =
     (let st = scan_from expression 0 expression scan_start in
      if os_quoted st then
        Inl (fmt ''CONDITION expression '{}' contains an unterminated quoted literal'' [expression])
      else Inr st)"

definition parse_expression :: "string \<Rightarrow> string + expression" where
  "parse_expression expr =
     (let expression = trim expr in
      if expression = [] then Inl ''CONDITION expression is empty''
      else case scan_operators expression of Inl e \<Rightarrow> Inl e
      | Inr scan \<Rightarrow>
        (case os_logical scan of
           Some token \<Rightarrow> Inl (unsupported_operator_error expression token)
         | None \<Rightarrow>
           (case os_supported scan of
              Some (index, comparison) \<Rightarrow>
                (let lhs = trim (take index expression); rhs = trim (drop (index + 2) expression) in
                 if lhs = [] \<or> rhs = [] then
                   Inl (fmt ''CONDITION expression '{}' must have a value on both sides of '{}{}''
                     [expression, show_comparison comparison, squote])
                 else Inr (Compare lhs comparison rhs))
            | None \<Rightarrow>
                (case os_comparison scan of
                   Some token \<Rightarrow> Inl (unsupported_operator_error expression token)
                 | None \<Rightarrow> Inr (Truthy expression)))))"

section \<open>The scan against its specification\<close>

text \<open>
  The quoting state before byte \<open>i\<close>, and the tokens that start at byte \<open>i\<close> outside quotes.
\<close>

fun quote_step :: "bool \<times> bool \<Rightarrow> char \<Rightarrow> bool \<times> bool" where
  "quote_step (quoted, escaped) c =
     (if quoted then
        (if escaped then (True, False)
         else if c = CHR 0x5C then (True, True)
         else (c \<noteq> CHR 0x22, False))
      else (c = CHR 0x22, False))"

definition quote_state :: "string \<Rightarrow> nat \<Rightarrow> bool \<times> bool" where
  "quote_state e i = foldl quote_step (False, False) (take i e)"

definition unquoted :: "string \<Rightarrow> nat \<Rightarrow> bool" where
  "unquoted e i \<longleftrightarrow> \<not> fst (quote_state e i)"

definition equality_at :: "string \<Rightarrow> nat \<Rightarrow> comparison option" where
  "equality_at e i =
     (if \<not> unquoted e i then None
      else if starts_with (drop i e) ''=='' then Some Eq
      else if starts_with (drop i e) ''!='' then Some Ne
      else None)"

definition plain_at :: "string \<Rightarrow> nat \<Rightarrow> bool" where
  "plain_at e i \<longleftrightarrow> unquoted e i \<and> e ! i \<noteq> CHR 0x22 \<and> equality_at e i = None"

definition logical_at :: "string \<Rightarrow> nat \<Rightarrow> string option" where
  "logical_at e i =
     (if \<not> plain_at e i then None
      else case find (starts_with (drop i e)) UNSUPPORTED_LOGICAL_OPERATORS of
        Some t \<Rightarrow> Some t
      | None \<Rightarrow> if e ! i = CHR ''!'' \<and> is_negation_operator e i then Some ''!'' else None)"

definition comparison_at :: "string \<Rightarrow> nat \<Rightarrow> string option" where
  "comparison_at e i =
     (if \<not> plain_at e i then None
      else case find (starts_with (drop i e)) UNSUPPORTED_COMPARISON_OPERATORS of
        Some t \<Rightarrow> Some t
      | None \<Rightarrow> if e ! i = CHR ''='' then Some ''='' else None)"

text \<open>The first position below \<open>n\<close> where a token starts, with the token.\<close>

fun first_at :: "(nat \<Rightarrow> 'a option) \<Rightarrow> nat \<Rightarrow> (nat \<times> 'a) option" where
  "first_at f 0 = None"
| "first_at f (Suc n) =
     (case first_at f n of Some x \<Rightarrow> Some x | None \<Rightarrow> map_option (Pair n) (f n))"

lemma first_at_None: "first_at f n = None \<longleftrightarrow> (\<forall>i < n. f i = None)"
  by (induction n) (auto simp: less_Suc_eq split: option.splits)

lemma first_at_Some:
  "first_at f n = Some (i, x) \<longleftrightarrow> i < n \<and> f i = Some x \<and> (\<forall>j < i. f j = None)"
proof (induction n arbitrary: i x)
  case 0
  show ?case by simp
next
  case (Suc n)
  show ?case
  proof (cases "first_at f n")
    case None
    then have "\<forall>j < n. f j = None" by (simp add: first_at_None)
    with None show ?thesis by (auto simp: less_Suc_eq)
  next
    case (Some y)
    then obtain k z where y: "first_at f n = Some (k, z)" by (cases y) auto
    with Suc have k: "k < n" "f k = Some z" "\<forall>j < k. f j = None" by auto
    then have "i = k" if "i \<le> n" "f i = Some x" "\<forall>j < i. f j = None"
      using that by (metis linorder_neqE_nat option.distinct(1))
    with k y show ?thesis by (auto simp: less_Suc_eq)
  qed
qed

definition scan_spec :: "string \<Rightarrow> nat \<Rightarrow> operator_scan" where
  "scan_spec e n =
     \<lparr>os_quoted = fst (quote_state e n), os_escaped = snd (quote_state e n),
      os_supported = first_at (equality_at e) n,
      os_logical = map_option snd (first_at (logical_at e) n),
      os_comparison = map_option snd (first_at (comparison_at e) n)\<rparr>"

lemma quote_state_Suc: "i < length e \<Longrightarrow> quote_state e (Suc i) = quote_step (quote_state e i) (e ! i)"
  by (simp add: quote_state_def take_Suc_conv_app_nth)

lemma unquoted_not_escaped: "i \<le> length e \<Longrightarrow> unquoted e i \<Longrightarrow> \<not> snd (quote_state e i)"
proof (induction i)
  case 0
  show ?case by (simp add: quote_state_def)
next
  case (Suc i)
  then show ?case
    by (cases "quote_state e i") (auto simp: unquoted_def quote_state_Suc split: if_splits)
qed

lemma scan_char_spec:
  assumes "i < length e"
  shows "scan_char e i (e ! i) (drop i e) (scan_spec e i) = scan_spec e (Suc i)"
proof -
  have esc: "\<not> fst (quote_state e i) \<Longrightarrow> \<not> snd (quote_state e i)"
    using unquoted_not_escaped [of i e] assms by (simp add: unquoted_def)
  have q: "e ! i = CHR 0x22 \<Longrightarrow> equality_at e i = None"
    using assms by (auto simp: equality_at_def Cons_nth_drop_Suc [symmetric])
  obtain qd ed where qs: "quote_state e i = (qd, ed)" by (cases "quote_state e i")
  show ?thesis
  proof (cases "qd \<or> e ! i = CHR 0x22")
    case True
    have "equality_at e i = None"
      using True
    proof
      assume qd
      with qs show ?thesis by (simp add: equality_at_def unquoted_def)
    qed (rule q)
    moreover have "logical_at e i = None" "comparison_at e i = None"
      using True qs by (auto simp: logical_at_def comparison_at_def plain_at_def unquoted_def)
    ultimately have "equality_at e i = None" "logical_at e i = None" "comparison_at e i = None"
      by simp_all
    with True assms esc qs show ?thesis
      by (auto simp: scan_char_def scan_spec_def quote_state_Suc split: option.split)
  next
    case False
    with qs have u: "unquoted e i" by (simp add: unquoted_def)
    show ?thesis
    proof (cases "equality_at e i")
      case None
      with False u have p: "plain_at e i" by (simp add: plain_at_def)
      have ne: "\<not> starts_with (drop i e) ''==''" "\<not> starts_with (drop i e) ''!=''"
        using None u by (auto simp: equality_at_def split: if_splits)
      show ?thesis
        unfolding scan_char_def Let_def using False assms esc qs None ne
        by (cases "first_at (logical_at e) i"; cases "first_at (comparison_at e) i";
            simp add: scan_spec_def quote_state_Suc logical_at_def comparison_at_def p
              del: starts_with_Cons split: option.split)
    next
      case (Some op)
      then have "\<not> plain_at e i" by (simp add: plain_at_def)
      then have n: "logical_at e i = None" "comparison_at e i = None"
        by (simp_all add: logical_at_def comparison_at_def)
      have "scan_char e i (e ! i) (drop i e) (scan_spec e i) =
          (scan_spec e i)\<lparr>os_supported := or_insert (i, op) (os_supported (scan_spec e i))\<rparr>"
        using False u Some qs
        by (auto simp: scan_char_def scan_spec_def equality_at_def split: if_splits)
      with False assms esc qs Some n show ?thesis
        by (simp add: scan_spec_def quote_state_Suc or_insert_def split: option.split)
    qed
  qed
qed

lemma scan_from_spec: "i \<le> length e \<Longrightarrow> scan_from e i (drop i e) (scan_spec e i) = scan_spec e (length e)"
proof (induction i rule: inc_induct)
  case base
  show ?case by simp
next
  case (step i)
  then have d: "drop i e = e ! i # drop (Suc i) e" by (simp add: Cons_nth_drop_Suc)
  have "scan_from e i (drop i e) st =
      scan_from e (Suc i) (drop (Suc i) e) (scan_char e i (e ! i) (drop i e) st)" for st
    by (simp add: d)
  with step show ?case by (simp add: scan_char_spec)
qed

lemma scan_operators_spec: "scan_operators e =
    (if unquoted e (length e) then Inr (scan_spec e (length e))
     else Inl (fmt ''CONDITION expression '{}' contains an unterminated quoted literal'' [e]))"
proof -
  have "scan_start = scan_spec e 0"
    by (simp add: scan_start_def scan_spec_def quote_state_def)
  then have "scan_from e 0 e scan_start = scan_spec e (length e)"
    using scan_from_spec [of 0 e] by simp
  then show ?thesis
    by (simp add: scan_operators_def unquoted_def Let_def) (simp add: scan_spec_def)
qed

lemma parse_expression_first:
  "parse_expression s = Inr (Compare l op r) \<longleftrightarrow>
     trim s \<noteq> [] \<and> unquoted (trim s) (length (trim s)) \<and>
     first_at (logical_at (trim s)) (length (trim s)) = None \<and>
     (\<exists>i. first_at (equality_at (trim s)) (length (trim s)) = Some (i, op) \<and>
       l = trim (take i (trim s)) \<and> r = trim (drop (i + 2) (trim s)) \<and> l \<noteq> [] \<and> r \<noteq> [])"
  by (auto simp: parse_expression_def scan_operators_spec scan_spec_def Let_def
      split: option.splits if_splits)

lemma parse_expression_Compare:
  "parse_expression s = Inr (Compare l op r) \<longleftrightarrow>
     (let e = trim s in unquoted e (length e) \<and> (\<forall>i < length e. logical_at e i = None) \<and>
       (\<exists>i < length e. equality_at e i = Some op \<and> (\<forall>j < i. equality_at e j = None) \<and>
          l = trim (take i e) \<and> r = trim (drop (i + 2) e) \<and> l \<noteq> [] \<and> r \<noteq> []))"
  unfolding parse_expression_first first_at_None first_at_Some Let_def by auto

lemma parse_expression_Truthy:
  "parse_expression s = Inr (Truthy v) \<longleftrightarrow>
     v = trim s \<and> v \<noteq> [] \<and> unquoted v (length v) \<and>
     (\<forall>i < length v. logical_at v i = None \<and> equality_at v i = None \<and> comparison_at v i = None)"
proof -
  have "(\<forall>i < length v. logical_at v i = None \<and> equality_at v i = None \<and> comparison_at v i = None)
      \<longleftrightarrow> first_at (logical_at v) (length v) = None \<and> first_at (equality_at v) (length v) = None \<and>
        first_at (comparison_at v) (length v) = None"
    by (auto simp: first_at_None)
  then show ?thesis
    by (auto simp: parse_expression_def scan_operators_spec scan_spec_def Let_def
        split: option.splits if_splits)
qed

section \<open>Properties\<close>

text \<open>
  What a comparison parses to.  The parser accepts \<open>l op r\<close> exactly when the trimmed
  text has balanced double quotes, no logical operator starts outside quotes anywhere in it,
  and the first unquoted \<^verbatim>\<open>==\<close> or \<^verbatim>\<open>!=\<close> splits it into two non-empty
  trimmed operands.
\<close>

theorem parse_expression_comparison:
  "parse_expression s = Inr (Compare l op r) \<longleftrightarrow>
     (let e = trim s in unquoted e (length e) \<and> (\<forall>i < length e. logical_at e i = None) \<and>
       (\<exists>i < length e. equality_at e i = Some op \<and> (\<forall>j < i. equality_at e j = None) \<and>
          l = trim (take i e) \<and> r = trim (drop (i + 2) e) \<and> l \<noteq> [] \<and> r \<noteq> []))"
  by (rule parse_expression_Compare)

lemma parse_expression_comparison_witness:
  "\<exists>i < length ''a == b''. equality_at ''a == b'' i = Some Eq \<and>
     ''a'' = trim (take i ''a == b'')"
proof -
  have t: "trim ''a == b'' = ''a == b''" by code_simp
  have "parse_expression ''a == b'' = Inr (Compare ''a'' Eq ''b'')" by code_simp
  with parse_expression_comparison [of "''a == b''" "''a''" Eq "''b''"] show ?thesis
    unfolding t Let_def by blast
qed

text \<open>
  The printed form of an expression, and the operands it can be read back from: trimmed,
  not empty, and free of quotes and operator characters.
\<close>

fun show_expression :: "expression \<Rightarrow> string" where
  "show_expression (Compare l op r) = l @ '' '' @ show_comparison op @ '' '' @ r"
| "show_expression (Truthy v) = v"

definition operator_chars :: "char set" where
  "operator_chars = {CHR 0x22, CHR ''='', CHR ''!'', CHR ''&'', CHR ''|'', CHR ''<'', CHR ''>''}"

definition plain_operand :: "string \<Rightarrow> bool" where
  "plain_operand s \<longleftrightarrow> s \<noteq> [] \<and> trimmed s \<and> set s \<inter> operator_chars = {}"

fun plain_expression :: "expression \<Rightarrow> bool" where
  "plain_expression (Compare l op r) \<longleftrightarrow> plain_operand l \<and> plain_operand r"
| "plain_expression (Truthy v) \<longleftrightarrow> plain_operand v"

lemma quote_state_noquote: "CHR 0x22 \<notin> set e \<Longrightarrow> quote_state e i = (False, False)"
proof -
  have "foldl quote_step (False, False) xs = (False, False)" if "CHR 0x22 \<notin> set xs" for xs
    using that by (induction xs) auto
  moreover assume "CHR 0x22 \<notin> set e"
  ultimately show ?thesis
    by (metis in_set_takeD quote_state_def)
qed

lemma drop_starts_no_operator:
  assumes "i < length e" "e ! i \<notin> operator_chars"
  shows "equality_at e i = None" "logical_at e i = None" "comparison_at e i = None"
  using assms
  by (auto simp: equality_at_def logical_at_def comparison_at_def operator_chars_def
      UNSUPPORTED_LOGICAL_OPERATORS_def UNSUPPORTED_COMPARISON_OPERATORS_def
      Cons_nth_drop_Suc [symmetric])

lemma parse_plain_Truthy:
  assumes "plain_operand v"
  shows "parse_expression v = Inr (Truthy v)"
proof -
  have "e \<in> set v \<Longrightarrow> e \<notin> operator_chars" for e
    using assms by (auto simp: plain_operand_def)
  then have "\<forall>i < length v. v ! i \<notin> operator_chars" by simp
  moreover have "CHR 0x22 \<notin> set v"
    using assms by (auto simp: plain_operand_def operator_chars_def)
  ultimately show ?thesis
    using assms
    by (simp add: parse_expression_Truthy plain_operand_def trim_trimmed unquoted_def
        quote_state_noquote drop_starts_no_operator)
qed

lemma parse_plain_Compare:
  assumes l: "plain_operand l" and r: "plain_operand r"
  shows "parse_expression (show_expression (Compare l op r)) = Inr (Compare l op r)"
proof -
  define e where "e = l @ '' '' @ show_comparison op @ '' '' @ r"
  have t: "trim e = e"
    using l r unfolding e_def plain_operand_def by (intro trim_trimmed trimmed_spaced) auto
  have op2: "length (show_comparison op) = 2" by (cases op) auto
  have noq: "CHR 0x22 \<notin> set e"
    using l r by (cases op) (auto simp: e_def plain_operand_def operator_chars_def)
  then have u: "unquoted e i" for i by (simp add: unquoted_def quote_state_noquote)
  let ?n = "Suc (length l)"
  have at_n: "drop ?n e = show_comparison op @ '' '' @ r" by (simp add: e_def)
  have eq_n: "equality_at e ?n = Some op"
    using u by (cases op) (simp_all add: equality_at_def at_n)
  have before: "equality_at e i = None" "logical_at e i = None" if "i < ?n" for i
  proof -
    have "i < length e" using that by (simp add: e_def)
    moreover have "e ! i = (l @ '' '') ! i"
      using that by (simp add: e_def nth_append)
    then have "e ! i \<in> set (l @ '' '')"
      using that by (metis length_append_singleton Suc_eq_plus1 nth_mem)
    then have "e ! i \<notin> operator_chars"
      using l by (auto simp: plain_operand_def) (simp add: operator_chars_def)
    ultimately show "equality_at e i = None" "logical_at e i = None"
      by (rule drop_starts_no_operator)+
  qed
  have logic: "logical_at e i = None" if i: "i < length e" for i
  proof (cases "i < ?n \<or> i = ?n")
    case True
    moreover have "logical_at e ?n = None" using eq_n by (simp add: logical_at_def plain_at_def)
    ultimately show ?thesis using before(2) by blast
  next
    case False
    define k where "k = i - (?n + 1)"
    from False have "?n + 1 \<le> i" by linarith
    then have k: "i = ?n + 1 + k" by (simp only: k_def le_add_diff_inverse)
    have "drop (?n + 1) e = ''='' @ '' '' @ r"
      by (cases op) (simp_all add: e_def)
    then have d: "drop i e = drop k (''='' @ '' '' @ r)"
      by (metis add.commute drop_drop k)
    show ?thesis
    proof (cases "k = 0")
      case True
      have "e ! i = CHR ''=''" using d i True by (simp add: Cons_nth_drop_Suc [symmetric])
      with d True show ?thesis
        by (simp add: logical_at_def UNSUPPORTED_LOGICAL_OPERATORS_def)
    next
      case False
      then obtain j where "k = Suc j" by (cases k) auto
      with d have dj: "drop i e = drop j ('' '' @ r)" by simp
      have "drop i e \<noteq> []" "hd (drop i e) = e ! i"
        using i by (simp_all add: hd_drop_conv_nth)
      then have "e ! i \<in> set (drop j ('' '' @ r))" by (metis dj hd_in_set)
      then have "e ! i \<in> set ('' '' @ r)" by (rule in_set_dropD)
      then have "e ! i \<notin> operator_chars"
        using r by (auto simp: plain_operand_def) (simp add: operator_chars_def)
      with i show ?thesis by (rule drop_starts_no_operator)
    qed
  qed
  have "?n < length e" by (simp add: e_def op2)
  moreover have "trim (take ?n e) = l"
    using l by (simp add: e_def plain_operand_def trim_space_end)
  moreover have "trim (drop (?n + 2) e) = r"
    using r op2 by (simp add: e_def plain_operand_def trim_space_start)
  ultimately have "parse_expression e = Inr (Compare l op r)"
    unfolding parse_expression_Compare Let_def t using u logic eq_n before l r
    by (auto simp: plain_operand_def intro!: exI [of _ ?n])
  then show ?thesis by (simp add: e_def)
qed



end
