(* ===== verification/ConditionEval.thy ===== *)
theory ConditionEval
  imports Resolution Expression
begin

text \<open>
  \<^verbatim>\<open>executor/step_runners/condition.rs\<close>: evaluation of the expression grammar shared by
  CONDITION steps and FAN_OUT's \<^verbatim>\<open>until\<close>.  Lower-casing before the comparison with
  fixed ASCII words is ASCII lower-casing: no other character becomes one of their letters.
\<close>

definition RESULT_OUTPUT :: string where
  "RESULT_OUTPUT = ''result''"

definition single_quoted_inner :: "string \<Rightarrow> string option" where
  "single_quoted_inner s =
     Option.bind (strip_prefix s squote) (\<lambda>t. Option.bind (strip_suffix t squote)
       (\<lambda>inner. if CHR 0x27 \<in> set inner then None else Some inner))"

definition parse_condition_literal :: "host \<Rightarrow> string \<Rightarrow> json" where
  "parse_condition_literal h raw =
     (let trimmed = trim raw in
      case parse_json h trimmed of Some v \<Rightarrow> v
      | None \<Rightarrow> (case single_quoted_inner trimmed of Some inner \<Rightarrow> JString inner | None \<Rightarrow> JString raw))"

definition resolve_side :: "host \<Rightarrow> json imap \<Rightarrow> step_outputs \<Rightarrow> string \<Rightarrow> json" where
  "resolve_side h config outs side =
     (case resolve_placeholders h config outs (JString side) of
        JString s \<Rightarrow> parse_condition_literal h s | other \<Rightarrow> other)"

fun canonical :: "host \<Rightarrow> json \<Rightarrow> string" where
  "canonical h (JString s) = trim s"
| "canonical h JNull = []"
| "canonical h other = render h other"

definition loosely_equal :: "host \<Rightarrow> json \<Rightarrow> json \<Rightarrow> bool" where
  "loosely_equal h lhs rhs \<longleftrightarrow>
     (let l = canonical h lhs; r = canonical h rhs in
      l = r \<or>
      (to_ascii_lowercase l = APPROVED_RESPONSE \<and> to_ascii_lowercase r = ''true'') \<or>
      (to_ascii_lowercase l = ''true'' \<and> to_ascii_lowercase r = APPROVED_RESPONSE))"

fun is_truthy :: "json \<Rightarrow> bool" where
  "is_truthy JNull = False"
| "is_truthy (JBool b) = b"
| "is_truthy (JNumber (NumInt i)) = (i \<noteq> 0)"
| "is_truthy (JNumber (NumFloat m e)) = (m \<noteq> 0)"
| "is_truthy (JString s) =
     (to_ascii_lowercase (trim s) \<in> {''true'', ''yes'', ''y'', APPROVED_RESPONSE, ''1''})"
| "is_truthy (JArray a) = (a \<noteq> [])"
| "is_truthy (JObject kvs) = (kvs \<noteq> [])"

definition show_bool :: "bool \<Rightarrow> string" where
  "show_bool b = (if b then ''true'' else ''false'')"

definition evaluate_expression ::
    "host \<Rightarrow> json imap \<Rightarrow> step_outputs \<Rightarrow> string \<Rightarrow> string + (bool \<times> string)" where
  "evaluate_expression h config outs expression =
     (case parse_expression expression of
        Inl e \<Rightarrow> Inl e
      | Inr (Compare lhs op rhs) \<Rightarrow>
          (let lhs_val = resolve_side h config outs lhs;
               rhs_val = resolve_side h config outs rhs;
               equal = loosely_equal h lhs_val rhs_val;
               result = (case op of Eq \<Rightarrow> equal | Ne \<Rightarrow> \<not> equal)
           in Inr (result, fmt ''{} {} {} {} {}'' [canonical h lhs_val, show_comparison op,
                canonical h rhs_val, right_arrow, show_bool result]))
      | Inr (Truthy v) \<Rightarrow>
          (let resolved = resolve_side h config outs v; result = is_truthy resolved
           in Inr (result, fmt ''{} {} {}'' [canonical h resolved, right_arrow, show_bool result])))"

section \<open>Laws\<close>

lemma loosely_equal_sym: "loosely_equal h a b \<longleftrightarrow> loosely_equal h b a"
  by (auto simp: loosely_equal_def Let_def)

lemma evaluate_comparison:
  assumes "parse_expression s = Inr (Compare l op r)"
  shows "\<exists>trace. evaluate_expression h config outs s =
    Inr ((op = Eq) = loosely_equal h (resolve_side h config outs l) (resolve_side h config outs r), trace)"
  using assms by (cases op) (simp_all add: evaluate_expression_def Let_def)

lemma evaluate_truthy:
  assumes "parse_expression s = Inr (Truthy v)"
  shows "\<exists>trace. evaluate_expression h config outs s = Inr (is_truthy (resolve_side h config outs v), trace)"
  using assms by (simp add: evaluate_expression_def Let_def)

lemma resolve_side_whole:
  assumes "CHR ''}'' \<notin> set key" and "is_plan_placeholder_key key"
  shows "resolve_side h config outs (braced key) =
    (case lookup_key h config outs key of JString s \<Rightarrow> parse_condition_literal h s | other \<Rightarrow> other)"
  using resolve_whole [OF assms, of h config outs] by (simp add: resolve_side_def)

lemma ws_len_dollar: "ws_len (CHR ''$'' # cs) = 0"
  by (cases "CHR ''$'' # cs" rule: ws_len.cases) (auto simp: ascii_ws_def ws2_def ws3_def)

lemma ws_len_rev_brace: "ws_len_rev (CHR ''}'' # cs) = 0"
  by (cases "CHR ''}'' # cs" rule: ws_len_rev.cases) (auto simp: ascii_ws_def ws2_def ws3_def)

lemma valid_path_plain_operand: "valid_path key \<Longrightarrow> plain_operand (braced key)"
proof -
  assume "valid_path key"
  then have "\<forall>c \<in> set key. path_char c" by (simp add: valid_path_def list_all_iff)
  then have "set (braced key) \<inter> operator_chars = {}"
    by (auto simp: braced_def operator_chars_def path_char_def ascii_alphanumeric_def ascii_alpha_def
        ascii_digit_def)
  moreover have "trimmed (braced key)"
    by (simp add: trimmed_def braced_def ws_len_dollar ws_len_rev_brace)
  ultimately show ?thesis by (simp add: plain_operand_def braced_def)
qed

section \<open>Properties\<close>

text \<open>
  An approval reads as true, however the condition is written.  When a placeholder
  resolves to the recorded approval, the bare placeholder and its comparison with
  \<^verbatim>\<open>true\<close> are both true and its inequality with \<^verbatim>\<open>true\<close> is false, on every host
  whose JSON reader knows the literal \<^verbatim>\<open>true\<close> and rejects the bare word.
\<close>

theorem approval_reads_as_true:
  assumes "valid_path key" and "is_plan_placeholder_key key"
    and "lookup_key h config outs key = JString APPROVED_RESPONSE"
    and "parse_json h APPROVED_RESPONSE = None" and "parse_json h ''true'' = Some (JBool True)"
    and "render h (JBool True) = ''true''"
  shows "(\<exists>t. evaluate_expression h config outs (braced key) = Inr (True, t)) \<and>
    (\<exists>t. evaluate_expression h config outs (braced key @ '' == true'') = Inr (True, t)) \<and>
    (\<exists>t. evaluate_expression h config outs (braced key @ '' != true'') = Inr (False, t))"
proof -
  have k: "CHR ''}'' \<notin> set key"
    using assms(1) by (auto simp: valid_path_def list_all_iff)
  have tr: "trim APPROVED_RESPONSE = APPROVED_RESPONSE" "trim ''true'' = ''true''"
    "single_quoted_inner APPROVED_RESPONSE = None" "to_ascii_lowercase APPROVED_RESPONSE = APPROVED_RESPONSE"
    "to_ascii_lowercase ''true'' = ''true''"
    by code_simp+
  have side: "resolve_side h config outs (braced key) = JString APPROVED_RESPONSE"
    using resolve_side_whole [OF k assms(2), of h config outs] assms(3,4) tr
    by (simp add: parse_condition_literal_def)
  have lit: "resolve_side h config outs ''true'' = JBool True"
  proof -
    have "\<not> contains_plan_placeholder ''true''" by code_simp
    then have "resolve_placeholders h config outs (JString ''true'') = JString ''true''"
      by (simp add: resolve_string_verbatim)
    with assms(5) tr show ?thesis by (simp add: resolve_side_def parse_condition_literal_def)
  qed
  have eq: "loosely_equal h (JString APPROVED_RESPONSE) (JBool True)"
    using assms(6) tr by (simp add: loosely_equal_def Let_def)
  note po = valid_path_plain_operand [OF assms(1)]
  have pt: "plain_operand ''true''" by code_simp
  have p: "parse_expression (braced key @ '' == true'') = Inr (Compare (braced key) Eq ''true'')"
    "parse_expression (braced key @ '' != true'') = Inr (Compare (braced key) Ne ''true'')"
    using parse_plain_Compare [OF po pt, of Eq] parse_plain_Compare [OF po pt, of Ne] by simp_all
  have "is_truthy (JString APPROVED_RESPONSE)" by code_simp
  then show ?thesis
    using evaluate_truthy [OF parse_plain_Truthy [OF po], of h config outs]
      evaluate_comparison [OF p(1), of h config outs] evaluate_comparison [OF p(2), of h config outs]
    by (simp add: side lit eq)
qed

definition word_host :: host where
  "word_host = \<lparr>render = \<lambda>j. if j = JBool True then ''true'' else ''?'',
     parse_json = \<lambda>s. if s = ''true'' then Some (JBool True) else None, env_var = \<lambda>s. None\<rparr>"

lemma approval_reads_as_true_witness:
  "\<exists>t. evaluate_expression word_host [] (outputs_from_map [(''ok'', [(''r'', JString ''approved'')])])
     (braced ''step.ok.r'' @ '' == true'') = Inr (True, t)"
proof -
  have "valid_path ''step.ok.r''" "is_plan_placeholder_key ''step.ok.r''"
    "lookup_key word_host [] (outputs_from_map [(''ok'', [(''r'', JString ''approved'')])]) ''step.ok.r'' =
       JString APPROVED_RESPONSE"
    "parse_json word_host APPROVED_RESPONSE = None" "parse_json word_host ''true'' = Some (JBool True)"
    "render word_host (JBool True) = ''true''"
    by code_simp+
  then show ?thesis using approval_reads_as_true by blast
qed

end
