(* ===== verification/StepRunners.thy ===== *)
theory StepRunners
  imports Llm ConditionEval
begin

text \<open>
  The context and the result of a step, \<^verbatim>\<open>executor/step_runners/mod.rs\<close>, the run
  workspace, \<^verbatim>\<open>executor/workspace.rs\<close>, and the runners of TOOL_CALL, CODE_CALL,
  PROMPT_CALL, HUMAN_INTERACTION, CONDITION and FAN_IN steps.  The file system, processes, the
  operator and the language models are effects on a world \<open>'w\<close>.  Progress events and
  tracing are not modelled.
\<close>

section \<open>Contexts, results and the environment\<close>

record run_workspace =
  rw_root :: string
  rw_managed :: bool

record step_context =
  cx_plan :: plan
  cx_step :: plan_step
  cx_outputs :: step_outputs
  cx_timeout_secs :: "64 word option"
  cx_run_id :: string
  cx_storage_root :: string
  cx_workspace :: "run_workspace option"

record child_run_event =
  ce_step_id :: string
  ce_status :: step_run_status
  ce_run :: step_run_iteration

record step_result =
  res_outputs :: named_outputs
  res_stdout :: "string option"
  res_stderr :: "string option"
  res_usage :: "token_usage option"
  res_child_runs :: "step_run_iteration list imap"

datatype human_decision = Approve | Reject | DecisionText string

record human_request =
  hr_step_id :: string
  hr_prompt :: string
  hr_approval_required :: bool
  hr_response_field :: string

text \<open>A request is decided, dropped without an answer, or finds the channel closed.\<close>

datatype human_reply = Decided human_decision | Dropped | ChannelClosed

datatype script_source = InlineScript string string | ScriptFile string

record script_command =
  sc_program :: string
  sc_prefix_args :: "string list"
  sc_utf8_wrapper :: bool
  sc_source :: script_source
  sc_args :: "string list"
  sc_stdin :: "string option"
  sc_env :: "string imap"
  sc_dir :: string
  sc_timeout_secs :: "64 word option"

text \<open>How one script run ends: the failures before, during and after it, or its exit.\<close>

datatype script_outcome =
    ScratchFailed string
  | SpawnFailed string
  | ContainmentFailed string
  | ResumeFailed string
  | StdinMissing
  | StdinFailed string
  | ScriptTimedOut "64 word"
  | OutputLimit string nat
  | ScriptIo string
  | Exited bool "int option" string string

text \<open>
  The environment of a run.  \<open>re_stdin\<close> is what the terminal will deliver before it closes,
  one result per prompt (an I/O error or a line), and \<open>re_take_stdin\<close> consumes the first
  of them.
\<close>

record 'w runner_env =
  re_llm :: llm_host
  re_transport :: "'w transport"
  re_adapters :: "'w adapters"
  re_catalog :: tool_catalog
  re_profile :: "llm_profile option"
  re_profile_error :: "string option"
  re_anthropic_key :: "string option"
  re_openai_key :: "string option"
  re_human :: "(human_request \<Rightarrow> ('w, human_reply) effect) option"
  re_stdin :: "'w \<Rightarrow> (string + string) list"
  re_take_stdin :: "'w \<Rightarrow> 'w"
  re_absolute :: "string \<Rightarrow> string + string"
  re_create_dir_all :: "string \<Rightarrow> ('w, string + unit) effect"
  re_is_dir :: "'w \<Rightarrow> string \<Rightarrow> bool"
  re_canonicalize :: "'w \<Rightarrow> string \<Rightarrow> string + string"
  re_find_on_path :: "'w \<Rightarrow> string \<Rightarrow> string option"
  re_script :: "script_command \<Rightarrow> ('w, script_outcome) effect"

abbreviation re_host :: "'w runner_env \<Rightarrow> host" where
  "re_host env \<equiv> lh_host (re_llm env)"

definition step_failed :: "step_context \<Rightarrow> string \<Rightarrow> executor_error" where
  "step_failed cx m = EE_StepFailed (s_id (cx_step cx)) m"

abbreviation cx_resolve :: "'w runner_env \<Rightarrow> step_context \<Rightarrow> json \<Rightarrow> json" where
  "cx_resolve env cx \<equiv> resolve_placeholders (re_host env) (p_config (cx_plan cx)) (cx_outputs cx)"

abbreviation cx_string :: "'w runner_env \<Rightarrow> step_context \<Rightarrow> string \<Rightarrow> string" where
  "cx_string env cx \<equiv> resolve_to_string (re_host env) (p_config (cx_plan cx)) (cx_outputs cx)"

section \<open>The run workspace\<close>

definition entry_uses_workspace :: "tool_entry \<Rightarrow> bool" where
  "entry_uses_workspace entry = (case te_config entry of
     Subprocess c \<Rightarrow> True
   | Mcp m \<Rightarrow> (case mc_transport m of Stdio a b d \<Rightarrow> True | _ \<Rightarrow> False)
   | _ \<Rightarrow> False)"

definition step_uses_workspace :: "tool_catalog \<Rightarrow> plan_step \<Rightarrow> bool" where
  "step_uses_workspace catalog s =
     (case s_config s of
        CodeCall c \<Rightarrow> True
      | AgentCall c \<Rightarrow> True
      | ToolCall c \<Rightarrow> (case catalog_get catalog (tc_tool c) of None \<Rightarrow> False
          | Some entry \<Rightarrow> entry_uses_workspace entry)
      | _ \<Rightarrow> False)"

definition ROOT_KEY :: string where
  "ROOT_KEY = ''input.'' @ ROOT_DIRECTORY_INPUT"

definition workspace_resolve ::
    "(string \<Rightarrow> string + string) \<Rightarrow> json imap \<Rightarrow> string \<Rightarrow> string \<Rightarrow> string + run_workspace" where
  "workspace_resolve absolute config storage_root run_id =
     (let selected = (case im_get config ROOT_KEY of
          None \<Rightarrow> Inr None
        | Some JNull \<Rightarrow> Inr None
        | Some (JString path) \<Rightarrow> Inr (if path = [] then None else Some path)
        | Some _ \<Rightarrow> Inl ''root_directory must be a directory path or null'')
      in case selected of Inl e \<Rightarrow> Inl e
       | Inr sel \<Rightarrow>
           (case absolute (case sel of Some path \<Rightarrow> path
              | None \<Rightarrow> path_join (path_join (path_join storage_root ''runs'') run_id) ''workspace'') of
              Inl e \<Rightarrow> Inl e
            | Inr root \<Rightarrow> Inr \<lparr>rw_root = root, rw_managed = (sel = None)\<rparr>))"

definition workspace_prepare :: "'w runner_env \<Rightarrow> run_workspace \<Rightarrow> ('w, string + string) effect" where
  "workspace_prepare env ws w =
     (let (w', created) = (if rw_managed ws then re_create_dir_all env (rw_root ws) w else (w, Inr ()))
      in case created of Inl e \<Rightarrow> (w', Inl e)
       | Inr u \<Rightarrow>
           (w', if \<not> re_is_dir env w' (rw_root ws) then
                  Inl (fmt ''workspace '{}' is not an existing directory'' [rw_root ws])
                else re_canonicalize env w' (rw_root ws)))"

definition workspace_dir :: "'w runner_env \<Rightarrow> step_context \<Rightarrow> ('w, executor_error + string) effect" where
  "workspace_dir env cx w =
     (case (case cx_workspace cx of Some ws \<Rightarrow> Inr ws
        | None \<Rightarrow> workspace_resolve (re_absolute env) (p_config (cx_plan cx)) (cx_storage_root cx) (cx_run_id cx)) of
        Inl e \<Rightarrow> (w, Inl (step_failed cx (fmt ''failed to prepare run workspace: {}'' [e])))
      | Inr ws \<Rightarrow>
          (case workspace_prepare env ws w of
             (w', Inl e) \<Rightarrow> (w', Inl (step_failed cx (fmt ''failed to prepare run workspace: {}'' [e])))
           | (w', Inr dir) \<Rightarrow> (w', Inr dir)))"

definition working_directory ::
    "'w runner_env \<Rightarrow> step_context \<Rightarrow> string option \<Rightarrow> ('w, executor_error + string) effect" where
  "working_directory env cx tmpl w =
     (case workspace_dir env cx w of (w', Inl e) \<Rightarrow> (w', Inl e)
      | (w', Inr root) \<Rightarrow>
          (let config = im_insert ROOT_KEY (JString root) (p_config (cx_plan cx));
               directory = (case tmpl of None \<Rightarrow> Inr None
                 | Some v \<Rightarrow> (case resolve_placeholders (re_host env) config (cx_outputs cx) (JString v) of
                     JNull \<Rightarrow> Inr None
                   | JString s \<Rightarrow> Inr (if s = [] then None else Some s)
                   | _ \<Rightarrow> Inl (step_failed cx ''working directory must resolve to a directory path or null'')))
           in case directory of Inl e \<Rightarrow> (w', Inl e)
            | Inr d \<Rightarrow>
                (let path = (case d of None \<Rightarrow> root | Some d \<Rightarrow> path_join root d)
                 in (w', if \<not> re_is_dir env w' path then
                       Inl (step_failed cx (fmt ''working directory '{}' does not exist or is not a directory'' [path]))
                     else case re_canonicalize env w' path of
                       Inl e \<Rightarrow> Inl (step_failed cx (fmt ''cannot resolve working directory '{}': {}'' [path, e]))
                     | Inr p \<Rightarrow> Inr p))))"

section \<open>TOOL_CALL\<close>

definition plain_result :: "named_outputs \<Rightarrow> step_result" where
  "plain_result outs = \<lparr>res_outputs = outs, res_stdout = None, res_stderr = None, res_usage = None,
     res_child_runs = []\<rparr>"

text \<open>
  The one declared output that is absent or null gets the primary payload: the data, or the
  text of standard output when there is none.
\<close>

definition fill_declared_output :: "named_outputs \<Rightarrow> plan_output list \<Rightarrow> json \<Rightarrow> string \<Rightarrow> named_outputs" where
  "fill_declared_output outs declared data stdout =
     (case filter (\<lambda>name. case im_get outs name of None \<Rightarrow> True | Some v \<Rightarrow> is_null v) (map po_name declared) of
        [only] \<Rightarrow>
          (case (case data of JNull \<Rightarrow> if trim stdout \<noteq> [] then Some (JString (trim_end stdout)) else None
                 | other \<Rightarrow> Some other) of
             Some v \<Rightarrow> im_insert only v outs | None \<Rightarrow> outs)
      | _ \<Rightarrow> outs)"

definition object_outputs :: "json option \<Rightarrow> named_outputs" where
  "object_outputs v = (case v of Some (JObject m) \<Rightarrow> im_extend [] m | _ \<Rightarrow> [])"

definition tool_outputs :: "host \<Rightarrow> plan_step \<Rightarrow> tool_output \<Rightarrow> named_outputs" where
  "tool_outputs h s out =
     (let outs = object_outputs (Some (to_data out));
          outs = (if outs = [] \<and> to_stdout out \<noteq> [] then object_outputs (parse_json h (to_stdout out)) else outs)
      in fill_declared_output outs (s_outputs s) (to_data out) (to_stdout out))"

definition run_tool_call :: "'w runner_env \<Rightarrow> step_context \<Rightarrow> ('w, executor_error + step_result) effect" where
  "run_tool_call env cx w =
     (case s_config (cx_step cx) of
        ToolCall c \<Rightarrow>
          (let args = im_extend [] (map (\<lambda>(k, v). (k, cx_resolve env cx v)) (tc_arguments c))
           in case catalog_get (re_catalog env) (tc_tool c) of
             None \<Rightarrow> (w, Inl (step_failed cx (fmt ''tool '{}' not found in catalog'' [tc_tool c])))
           | Some entry \<Rightarrow>
               (case (if entry_uses_workspace entry then
                        (case workspace_dir env cx w of (w', Inl e) \<Rightarrow> (w', Inl e) | (w', Inr d) \<Rightarrow> (w', Inr (Some d)))
                      else (w, Inr None)) of
                  (w1, Inl e) \<Rightarrow> (w1, Inl e)
                | (w1, Inr workspace) \<Rightarrow>
                    (case execute_tool_in_workspace (re_host env) (re_adapters env) entry args
                       (cx_timeout_secs cx) workspace w1 of
                       (w2, Inl e) \<Rightarrow> (w2, Inl (EE_Tool e))
                     | (w2, Inr out) \<Rightarrow>
                         (w2, Inr \<lparr>res_outputs = tool_outputs (re_host env) (cx_step cx) out,
                            res_stdout = non_empty (to_stdout out), res_stderr = non_empty (to_stderr out),
                            res_usage = None, res_child_runs = []\<rparr>))))
      | _ \<Rightarrow> (w, Inl (step_failed cx ''expected TOOL_CALL config'')))"

section \<open>CODE_CALL\<close>

record interpreter =
  ip_program :: string
  ip_prefix_args :: "string list"
  ip_extension :: string

definition is_python :: "string \<Rightarrow> bool" where
  "is_python language \<longleftrightarrow> language \<in> {''python'', ''python3'', ''py''}"

definition is_powershell :: "string \<Rightarrow> bool" where
  "is_powershell language \<longleftrightarrow> language \<in> {''powershell'', ''pwsh'', ''ps1''}"

text \<open>Candidate programs, arguments before the script, and extension of a language.\<close>

definition language_invocation :: "string \<Rightarrow> (string list \<times> string list \<times> string) option" where
  "language_invocation language =
     (if is_python language then Some ([''python3'', ''python''], [], ''.py'')
      else if language \<in> {''bash'', ''sh'', ''shell''} then Some ([''bash'', ''sh''], [], ''.sh'')
      else if language \<in> {''javascript'', ''js'', ''node''} then Some ([''node''], [], ''.js'')
      else if is_powershell language then
        Some ([''pwsh'', ''powershell''], [''-NoProfile'', ''-ExecutionPolicy'', ''Bypass'', ''-File''], ''.ps1'')
      else if language \<in> {''cmd'', ''bat'', ''batch''} then Some ([''cmd''], [''/C''], ''.bat'')
      else None)"

fun find_map :: "('a \<Rightarrow> 'b option) \<Rightarrow> 'a list \<Rightarrow> 'b option" where
  "find_map f [] = None"
| "find_map f (x # xs) = (case f x of Some y \<Rightarrow> Some y | None \<Rightarrow> find_map f xs)"

definition interpreter_for :: "(string \<Rightarrow> string option) \<Rightarrow> string \<Rightarrow> string + interpreter" where
  "interpreter_for find_on_path language =
     (case language_invocation language of
        None \<Rightarrow> Inl (fmt ''unsupported script language: '{}{}'' [language, squote])
      | Some (candidates, prefix_args, extension) \<Rightarrow>
          (case find_map find_on_path candidates of
             Some program \<Rightarrow> Inr \<lparr>ip_program = program, ip_prefix_args = prefix_args, ip_extension = extension\<rparr>
           | None \<Rightarrow> Inl (fmt ''no interpreter for '{}' on this machine (looked for: {}) {} recompile the plan; the compiler is told which interpreters exist here''
               [language, join '', '' candidates, em_dash])))"

definition reject_executable_placeholders :: "step_context \<Rightarrow> string \<Rightarrow> string option \<Rightarrow> executor_error + unit" where
  "reject_executable_placeholders cx field source =
     (case source of None \<Rightarrow> Inr ()
      | Some src \<Rightarrow> fail_if (contains_plan_placeholder src)
          (step_failed cx (fmt ''CODE_CALL config.{} must be static; pass runtime values through args or stdin'' [field])))"

definition backslash :: char where
  "backslash = CHR 0x5C"

definition hex_digit_value :: "char \<Rightarrow> int option" where
  "hex_digit_value c =
     (if ascii_digit c then Some (of_char c - 48)
      else if CHR ''a'' \<le> c \<and> c \<le> CHR ''f'' then Some (of_char c - 87)
      else if CHR ''A'' \<le> c \<and> c \<le> CHR ''F'' then Some (of_char c - 55)
      else None)"

text \<open>
  The code unit of a \<^verbatim>\<open>\uXXXX\<close> escape at the start of the text.  (Rust's integer
  parser also takes a sign in place of the first digit; what it then yields is no surrogate.)
\<close>

fun unicode_escape :: "string \<Rightarrow> int option" where
  "unicode_escape (b # u # d1 # d2 # d3 # d4 # cs) =
     (if b = backslash \<and> u = CHR ''u'' then
        (case (hex_digit_value d1, hex_digit_value d2, hex_digit_value d3, hex_digit_value d4) of
           (Some x1, Some x2, Some x3, Some x4) \<Rightarrow> Some (x1 * 4096 + x2 * 256 + x3 * 16 + x4)
         | _ \<Rightarrow> None)
      else None)"
| "unicode_escape _ = None"

definition is_high_surrogate :: "int option \<Rightarrow> bool" where
  "is_high_surrogate unit \<longleftrightarrow> (case unit of None \<Rightarrow> False | Some n \<Rightarrow> 0xD800 \<le> n \<and> n \<le> 0xDBFF)"

definition is_low_surrogate :: "int option \<Rightarrow> bool" where
  "is_low_surrogate unit \<longleftrightarrow> (case unit of None \<Rightarrow> False | Some n \<Rightarrow> 0xDC00 \<le> n \<and> n \<le> 0xDFFF)"

definition REPLACEMENT :: string where
  "REPLACEMENT = backslash # ''uFFFD''"

text \<open>The sanitized bytes and whether anything was replaced.\<close>

function sanitize_escapes :: "string \<Rightarrow> string \<times> bool" where
  "sanitize_escapes [] = ([], False)"
| "sanitize_escapes (c # cs) =
     (if c = backslash \<and> cs \<noteq> [] \<and> hd cs = backslash then
        (case sanitize_escapes (tl cs) of (out, changed) \<Rightarrow> (backslash # backslash # out, changed))
      else if is_high_surrogate (unicode_escape (c # cs)) then
        if is_low_surrogate (unicode_escape (drop 6 (c # cs))) then
          (case sanitize_escapes (drop 12 (c # cs)) of (out, changed) \<Rightarrow> (take 12 (c # cs) @ out, changed))
        else (case sanitize_escapes (drop 6 (c # cs)) of (out, changed) \<Rightarrow> (REPLACEMENT @ out, True))
      else if is_low_surrogate (unicode_escape (c # cs)) then
        (case sanitize_escapes (drop 6 (c # cs)) of (out, changed) \<Rightarrow> (REPLACEMENT @ out, True))
      else (case sanitize_escapes cs of (out, changed) \<Rightarrow> (c # out, changed)))"
  by pat_completeness auto
termination
  by (relation "measure length") auto

declare sanitize_escapes.simps(2) [simp del]

definition sanitize_lone_surrogate_escapes :: "string \<Rightarrow> string option" where
  "sanitize_lone_surrogate_escapes input =
     (case sanitize_escapes input of (out, changed) \<Rightarrow> if changed then Some out else None)"

definition SURROGATE_WARNING :: string where
  "SURROGATE_WARNING = newline @ ''[inxm] warning: stdout contained lone UTF-16 surrogate escapes (invalid JSON, typically Python json.dumps of bytes decoded with surrogateescape); they were replaced with U+FFFD to recover the step outputs. Make the script read and write UTF-8 to avoid this.''"

text \<open>The outputs and the standard error of a successful script, or why they cannot be had.\<close>

definition script_outputs :: "llm_host \<Rightarrow> string \<Rightarrow> string \<Rightarrow> named_outputs \<times> string \<times> string option" where
  "script_outputs h out err =
     (case parse_json (lh_host h) out of
        Some v \<Rightarrow> (object_outputs (Some v), err, None)
      | None \<Rightarrow>
          (case Option.bind (sanitize_lone_surrogate_escapes out) (parse_json (lh_host h)) of
             Some (JObject m) \<Rightarrow> (im_extend [] m, err @ SURROGATE_WARNING, None)
           | _ \<Rightarrow> ([], err, Some (lh_json_error h out))))"

definition map_script_output :: "llm_host \<Rightarrow> step_context \<Rightarrow> string \<Rightarrow> string \<Rightarrow> executor_error + step_result" where
  "map_script_output h cx out err =
     (case script_outputs h out err of
        (outs, err, parse_error) \<Rightarrow>
          (let outs = fill_declared_output outs (s_outputs (cx_step cx)) JNull out
           in if outs = [] \<and> 1 < length (s_outputs (cx_step cx)) \<and> trim out \<noteq> [] then
                Inl (step_failed cx (fmt ''script succeeded but its stdout cannot satisfy the declared outputs ({}): {}. A CODE_CALL step with more than one declared output must print exactly one JSON object whose keys are the declared output names.''
                  [join '', '' (map po_name (s_outputs (cx_step cx))),
                   case parse_error of Some e \<Rightarrow> fmt ''stdout is not a valid JSON object ({})'' [e]
                   | None \<Rightarrow> ''stdout is valid JSON but not an object'']))
              else Inr \<lparr>res_outputs = outs, res_stdout = non_empty out, res_stderr = non_empty err,
                res_usage = None, res_child_runs = []\<rparr>))"

definition show_code :: "int option \<Rightarrow> string" where
  "show_code c = (case c of None \<Rightarrow> ''None''
     | Some n \<Rightarrow> fmt ''Some({})'' [if n < 0 then ''-'' @ nat_str (nat (- n)) else nat_str (nat n)])"

definition script_result :: "llm_host \<Rightarrow> step_context \<Rightarrow> string \<Rightarrow> script_outcome \<Rightarrow> executor_error + step_result" where
  "script_result h cx program outcome = (case outcome of
     ScratchFailed e \<Rightarrow> Inl (EE_Io e)
   | SpawnFailed e \<Rightarrow> Inl (step_failed cx (fmt ''failed to spawn interpreter '{}': {}'' [program, e]))
   | ContainmentFailed e \<Rightarrow> Inl (step_failed cx (fmt ''failed to contain script process tree: {}'' [e]))
   | ResumeFailed e \<Rightarrow> Inl (step_failed cx (fmt ''failed to start contained script process: {}'' [e]))
   | StdinMissing \<Rightarrow> Inl (step_failed cx ''failed to open script stdin'')
   | StdinFailed e \<Rightarrow> Inl (step_failed cx (fmt ''failed to write script stdin: {}'' [e]))
   | ScriptTimedOut secs \<Rightarrow> Inl (step_failed cx (fmt ''script timed out after {}s'' [nat_str (unat secs)]))
   | OutputLimit stream limit \<Rightarrow> Inl (step_failed cx
       (fmt ''[truncated: script output limit exceeded]; {} maximum is {} bytes'' [stream, nat_str limit]))
   | ScriptIo e \<Rightarrow> Inl (step_failed cx (fmt ''script I/O error: {}'' [e]))
   | Exited success code out err \<Rightarrow>
       if success then map_script_output h cx out err
       else Inl (step_failed cx (fmt ''script exited with code {}{}'' [show_code code,
         if trim err = [] then [] else fmt '': {}'' [trim err]])))"

definition python_env :: "string imap \<Rightarrow> string imap" where
  "python_env e = fold (\<lambda>(k, v) e. if im_contains e k then e else im_insert k v e)
     [(''PYTHONUTF8'', ''1''), (''PYTHONIOENCODING'', ''utf-8'')] e"

definition run_code_call :: "'w runner_env \<Rightarrow> step_context \<Rightarrow> ('w, executor_error + step_result) effect" where
  "run_code_call env cx w =
     (case s_config (cx_step cx) of
        CodeCall c \<Rightarrow>
          (case and_then (reject_executable_placeholders cx ''inline'' (cc_inline c))
                  (reject_executable_placeholders cx ''file'' (cc_file c)) of
             Inl e \<Rightarrow> (w, Inl e)
           | Inr u \<Rightarrow>
          (let language = to_ascii_lowercase (cc_language c)
           in case interpreter_for (re_find_on_path env w) language of
             Inl m \<Rightarrow> (w, Inl (step_failed cx m))
           | Inr ip \<Rightarrow>
          (let resolved_env = im_extend [] (map (\<lambda>(k, v). (k, cx_string env cx v)) (cc_env c));
               resolved_env = (if is_python language then python_env resolved_env else resolved_env)
           in case working_directory env cx (cc_working_dir c) w of
             (w1, Inl e) \<Rightarrow> (w1, Inl e)
           | (w1, Inr dir) \<Rightarrow>
          (case (case (cc_inline c, cc_file c) of
               (Some src, _) \<Rightarrow> Some (InlineScript (ip_extension ip) src)
             | (None, Some file) \<Rightarrow> Some (ScriptFile file)
             | (None, None) \<Rightarrow> None) of
             None \<Rightarrow> (w1, Inl (step_failed cx ''CODE_CALL has neither 'inline' nor 'file' set''))
           | Some source \<Rightarrow>
               (case re_script env \<lparr>sc_program = ip_program ip, sc_prefix_args = ip_prefix_args ip,
                   sc_utf8_wrapper = is_powershell language, sc_source = source,
                   sc_args = map (cx_string env cx) (cc_args c),
                   sc_stdin = map_option (cx_string env cx) (cc_stdin c), sc_env = resolved_env, sc_dir = dir,
                   sc_timeout_secs = shorter_timeout (cc_timeout_secs c) (cx_timeout_secs cx)\<rparr> w1 of
                  (w2, outcome) \<Rightarrow> (w2, script_result (re_llm env) cx (ip_program ip) outcome))))))
      | _ \<Rightarrow> (w, Inl (step_failed cx ''expected CODE_CALL config'')))"

section \<open>PROMPT_CALL\<close>

definition LEGACY_PROFILE_TIMEOUT_SECS :: "64 word" where
  "LEGACY_PROFILE_TIMEOUT_SECS = 300"

definition legacy_profile :: "'w runner_env \<Rightarrow> string \<Rightarrow> llm_profile" where
  "legacy_profile env model =
     (let claude = starts_with model ''claude'';
          key = (\<lambda>k. case k of Some s \<Rightarrow> s | None \<Rightarrow> [])
      in \<lparr>lp_id = ''legacy-runtime'',
          lp_name = (if claude then ''Anthropic API'' else ''OpenAI API''),
          lp_protocol = (if claude then AnthropicMessages else OpenAiChat),
          lp_model = model,
          lp_base_url = (if claude then ''https://api.anthropic.com/v1'' else ''https://api.openai.com/v1''),
          lp_api_key = (if claude then key (re_anthropic_key env) else key (re_openai_key env)),
          lp_auth = AuthAuto, lp_headers = [], lp_executable = [], lp_command_template = [],
          lp_max_tokens = None, lp_temperature = None, lp_timeout_secs = LEGACY_PROFILE_TIMEOUT_SECS,
          lp_codex_sandbox_mode = SandboxAuto\<rparr>)"

definition prompt_token_usage :: "completion_response \<Rightarrow> token_usage option" where
  "prompt_token_usage r =
     (let input = or_else (Option.bind (cr_usage r) claude_total_input) (cr_input_tokens r);
          output = cr_output_tokens r
      in if input \<noteq> None \<or> output \<noteq> None
         then Some \<lparr>tu_input_tokens = or_zero input, tu_output_tokens = or_zero output\<rparr> else None)"

definition run_prompt_call :: "'w runner_env \<Rightarrow> step_context \<Rightarrow> ('w, executor_error + step_result) effect" where
  "run_prompt_call env cx w =
     (case s_config (cx_step cx) of
        PromptCall c \<Rightarrow>
          (case re_profile_error env of
             Some e \<Rightarrow> (w, Inl (step_failed cx (fmt ''invalid LLM settings: {}'' [e])))
           | None \<Rightarrow>
               (let plan_model = cx_string env cx (pc_model c);
                    profile = (case re_profile env of Some p \<Rightarrow> p | None \<Rightarrow> legacy_profile env plan_model);
                    model = (if re_profile env \<noteq> None then lp_model profile else plan_model)
                in case llm_complete (re_llm env) (re_transport env) profile
                     \<lparr>cq_system = map_option (cx_string env cx) (pc_system_prompt c),
                      cq_user = cx_string env cx (pc_user_prompt c), cq_model = Some model,
                      cq_max_tokens = pc_max_tokens c, cq_temperature = pc_temperature c\<rparr> w of
                  (w', Inl e) \<Rightarrow> (w', Inl (step_failed cx
                     (fmt ''{} completion failed: {}'' [lp_name profile, show_llm_error (re_llm env) e])))
                | (w', Inr r) \<Rightarrow> (w', Inr \<lparr>res_outputs = [(pc_output_field c, JString (cr_text r))],
                     res_stdout = Some (cr_text r), res_stderr = None, res_usage = prompt_token_usage r,
                     res_child_runs = []\<rparr>)))
      | _ \<Rightarrow> (w, Inl (step_failed cx ''expected PROMPT_CALL config'')))"

section \<open>HUMAN_INTERACTION\<close>

definition stdin_closed_error :: "step_context \<Rightarrow> executor_error" where
  "stdin_closed_error cx = step_failed cx ''human input closed before an approval or response was given''"

definition trim_line_end :: "string \<Rightarrow> string" where
  "trim_line_end line = rev (dropWhile (\<lambda>c. [c] = newline \<or> c = carriage_return) (rev line))"

text \<open>
  The approval loop over what the terminal delivers, and the world after the lines it read.  A
  failing prompt or read is the error of that line; the end of the list is a closed terminal.
\<close>

fun approval_loop ::
    "('w \<Rightarrow> 'w) \<Rightarrow> step_context \<Rightarrow> (string + string) list \<Rightarrow> ('w, executor_error + string) effect" where
  "approval_loop take_line cx [] w = (w, Inl (stdin_closed_error cx))"
| "approval_loop take_line cx (Inl e # rest) w = (take_line w, Inl (EE_Io e))"
| "approval_loop take_line cx (Inr line # rest) w =
     (let answer = lowercase_ascii_view (trim (trim_line_end line))
      in if answer \<in> {''y'', ''yes''} then (take_line w, Inr APPROVED_RESPONSE)
         else if answer \<in> {''n'', ''no''} then (take_line w, Inl (EE_RejectedByHuman (s_id (cx_step cx))))
         else approval_loop take_line cx rest (take_line w))"

definition read_response :: "'w runner_env \<Rightarrow> step_context \<Rightarrow> ('w, executor_error + string) effect" where
  "read_response env cx w =
     (case re_stdin env w of
        [] \<Rightarrow> (w, Inl (stdin_closed_error cx))
      | Inl e # rest \<Rightarrow> (re_take_stdin env w, Inl (EE_Io e))
      | Inr line # rest \<Rightarrow> (re_take_stdin env w, Inr (trim_line_end line)))"

definition ask_operator ::
    "(human_request \<Rightarrow> ('w, human_reply) effect) \<Rightarrow> step_context \<Rightarrow> human_request \<Rightarrow> ('w, executor_error + string) effect" where
  "ask_operator ask cx request w =
     (case ask request w of
        (w', ChannelClosed) \<Rightarrow> (w', Inl (step_failed cx ''human interaction channel closed''))
      | (w', Dropped) \<Rightarrow> (w', Inl (EE_HumanResponsePending (s_id (cx_step cx))))
      | (w', Decided Approve) \<Rightarrow> (w', Inr APPROVED_RESPONSE)
      | (w', Decided Reject) \<Rightarrow> (w', Inl (EE_RejectedByHuman (s_id (cx_step cx))))
      | (w', Decided (DecisionText t)) \<Rightarrow> (w', Inr t))"

definition run_human :: "'w runner_env \<Rightarrow> step_context \<Rightarrow> ('w, executor_error + step_result) effect" where
  "run_human env cx w =
     (case s_config (cx_step cx) of
        HumanInteraction c \<Rightarrow>
          (case (case re_human env of
               Some ask \<Rightarrow> ask_operator ask cx \<lparr>hr_step_id = s_id (cx_step cx), hr_prompt = cx_string env cx (hi_prompt c),
                   hr_approval_required = hi_approval_required c, hr_response_field = hi_response_field c\<rparr> w
             | None \<Rightarrow> if hi_approval_required c then approval_loop (re_take_stdin env) cx (re_stdin env w) w
                       else read_response env cx w) of
             (w', Inl e) \<Rightarrow> (w', Inl e)
           | (w', Inr response) \<Rightarrow> (w', Inr (plain_result [(hi_response_field c, JString response)])))
      | _ \<Rightarrow> (w, Inl (step_failed cx ''expected HUMAN_INTERACTION config'')))"

section \<open>CONDITION and FAN_IN\<close>

definition run_condition :: "'w runner_env \<Rightarrow> step_context \<Rightarrow> executor_error + step_result" where
  "run_condition env cx =
     (case s_config (cx_step cx) of
        Condition c \<Rightarrow>
          (case evaluate_expression (re_host env) (p_config (cx_plan cx)) (cx_outputs cx) (cd_expression c) of
             Inl m \<Rightarrow> Inl (step_failed cx m)
           | Inr (result, trace) \<Rightarrow>
               Inr ((plain_result [(RESULT_OUTPUT, JBool result)])\<lparr>res_stdout := Some trace\<rparr>))
      | _ \<Rightarrow> Inl (step_failed cx ''expected CONDITION config''))"

definition run_fan_in :: "step_context \<Rightarrow> executor_error + step_result" where
  "run_fan_in cx =
     (case s_config (cx_step cx) of
        FanIn c \<Rightarrow> Inr (plain_result [(fi_collect_field c,
          JArray (map (\<lambda>i. case get_step_outputs (cx_outputs cx) i of
              Some outs \<Rightarrow> JObject (obj_of outs) | None \<Rightarrow> JNull) (fi_from_steps c)))])
      | _ \<Rightarrow> Inl (step_failed cx ''expected FAN_IN config''))"

section \<open>Laws\<close>

abbreviation plain_part :: "string \<Rightarrow> string" where
  "plain_part cs \<equiv> takeWhile (\<lambda>c. c \<noteq> backslash) cs"

lemma hex_backslash: "hex_digit_value backslash = None"
  by code_simp

lemma unicode_escape_plain: "unicode_escape (c # cs) = unicode_escape (c # plain_part cs)"
  by (cases "c # cs" rule: unicode_escape.cases)
    (auto simp: hex_backslash split: option.splits, (simp add: backslash_def)+)

lemma unicode_escape_some:
  "unicode_escape s = Some n \<Longrightarrow>
   6 \<le> length s \<and> hd s = backslash \<and> hd (tl s) = CHR ''u'' \<and> unicode_escape (take 6 s @ t) = Some n"
  by (cases s rule: unicode_escape.cases) (auto split: if_splits option.splits)

lemma surrogate_some:
  "is_high_surrogate u \<or> is_low_surrogate u \<Longrightarrow> u \<noteq> None"
  by (auto simp: is_high_surrogate_def is_low_surrogate_def split: option.splits)

lemma unicode_escape_other: "c \<noteq> backslash \<Longrightarrow> unicode_escape (c # cs) = None"
  using unicode_escape_some [of "c # cs"] by (cases "unicode_escape (c # cs)") auto

lemma sanitize_push: "c \<noteq> backslash \<Longrightarrow>
    sanitize_escapes (c # cs) = (case sanitize_escapes cs of (out, changed) \<Rightarrow> (c # out, changed))"
  by (simp add: sanitize_escapes.simps(2) unicode_escape_other is_high_surrogate_def is_low_surrogate_def)

lemma sanitize_pair:
  assumes "\<not> (c = backslash \<and> cs \<noteq> [] \<and> hd cs = backslash)"
    and "is_high_surrogate (unicode_escape (c # cs))"
    and "is_low_surrogate (unicode_escape (drop 6 (c # cs)))"
  shows "sanitize_escapes (c # cs) =
    (case sanitize_escapes (drop 12 (c # cs)) of (out, changed) \<Rightarrow> (take 12 (c # cs) @ out, changed))"
  unfolding sanitize_escapes.simps(2) if_not_P [OF assms(1)] if_P [OF assms(2)] if_P [OF assms(3)] ..

lemma sanitize_plain_part:
  "sanitize_escapes s = (out, changed) \<Longrightarrow> plain_part out = plain_part s \<and> (out = [] \<longleftrightarrow> s = [])"
proof (induction s arbitrary: out changed)
  case (Cons c cs)
  show ?case
  proof (cases "c = backslash")
    case True
    have "out \<noteq> [] \<and> hd out = backslash"
      using Cons.prems True
      by (auto simp: sanitize_escapes.simps(2) REPLACEMENT_def split: if_splits prod.splits)
    with True show ?thesis by (cases out) auto
  next
    case False
    with Cons show ?thesis by (auto simp: sanitize_push split: prod.splits)
  qed
qed simp

lemma sanitize_replacement:
  "sanitize_escapes out = (out, False) \<Longrightarrow> sanitize_escapes (REPLACEMENT @ out) = (REPLACEMENT @ out, False)"
proof -
  assume IH: "sanitize_escapes out = (out, False)"
  have ne: "CHR ''u'' \<noteq> backslash" "CHR ''F'' \<noteq> backslash" "CHR ''D'' \<noteq> backslash" by (simp_all add: backslash_def)
  have "sanitize_escapes (''uFFFD'' @ out) = (''uFFFD'' @ out, False)"
    using ne by (simp add: sanitize_push IH)
  moreover have "unicode_escape (backslash # ''uFFFD'' @ out) = Some 0xFFFD"
  proof -
    have "hex_digit_value (CHR ''F'') = Some 15" "hex_digit_value (CHR ''D'') = Some 13" by code_simp+
    then show ?thesis by simp
  qed
  ultimately show ?thesis
    using ne unfolding REPLACEMENT_def
    by (simp add: sanitize_escapes.simps(2) is_high_surrogate_def is_low_surrogate_def del: unicode_escape.simps)
qed

lemma sanitize_idempotent: "sanitize_escapes s = (out, changed) \<Longrightarrow> sanitize_escapes out = (out, False)"
proof (induction s arbitrary: out changed rule: sanitize_escapes.induct)
  case 1
  then show ?case by simp
next
  case (2 c cs)
  note eq = "2.prems" [unfolded sanitize_escapes.simps(2) [of c cs]]
  let ?u = "unicode_escape (c # cs)"
  consider (quoted) "c = backslash \<and> cs \<noteq> [] \<and> hd cs = backslash"
    | (pair) "\<not> (c = backslash \<and> cs \<noteq> [] \<and> hd cs = backslash)" "is_high_surrogate ?u"
        "is_low_surrogate (unicode_escape (drop 6 (c # cs)))"
    | (lone) "\<not> (c = backslash \<and> cs \<noteq> [] \<and> hd cs = backslash)"
        "is_high_surrogate ?u \<and> \<not> is_low_surrogate (unicode_escape (drop 6 (c # cs))) \<or> \<not> is_high_surrogate ?u \<and> is_low_surrogate ?u"
    | (push) "\<not> (c = backslash \<and> cs \<noteq> [] \<and> hd cs = backslash)" "\<not> is_high_surrogate ?u" "\<not> is_low_surrogate ?u"
    by blast
  then show ?case
  proof cases
    case quoted
    then obtain o' where out: "out = backslash # backslash # o'" and o': "sanitize_escapes (tl cs) = (o', changed)"
      using eq by (auto split: prod.splits)
    with "2.IH"(1) [OF quoted o'] show ?thesis by (simp add: sanitize_escapes.simps(2))
  next
    case pair
    let ?s = "c # cs"
    obtain n where n: "unicode_escape ?s = Some n" using pair(2) surrogate_some by blast
    obtain m where m: "unicode_escape (drop 6 ?s) = Some m" using pair(3) surrogate_some by blast
    obtain o' where out: "out = take 12 ?s @ o'" and o': "sanitize_escapes (drop 12 ?s) = (o', changed)"
      using eq pair by (auto split: prod.splits)
    have IH: "sanitize_escapes o' = (o', False)" by (rule "2.IH"(2) [OF pair(1,2,3) o'])
    have len: "12 \<le> length ?s"
    proof -
      have "6 \<le> length (drop 6 ?s)" using unicode_escape_some [OF m] by blast
      then show ?thesis by simp
    qed
    have t12: "take 12 ?s = take 6 ?s @ take 6 (drop 6 ?s)" by (metis add_2_eq_Suc' numeral_Bit0 take_add)
    have u1: "unicode_escape out = Some n"
      using unicode_escape_some [OF n, of "take 6 (drop 6 ?s) @ o'"] by (simp only: out t12 append_assoc)
    have d6: "drop 6 out = take 6 (drop 6 ?s) @ o'" and d12: "drop 12 out = o'" and t: "take 12 out = take 12 ?s"
      using len by (simp_all add: out drop_take)
    have u2: "unicode_escape (drop 6 out) = Some m"
      using unicode_escape_some [OF m, of o'] by (simp add: d6)
    have "out \<noteq> []" "hd out = c" "\<not> (c = backslash \<and> tl out \<noteq> [] \<and> hd (tl out) = backslash)"
      using unicode_escape_some [OF u1] by (auto simp: out backslash_def)
    then obtain cs' where cs': "out = c # cs'" and nq: "\<not> (c = backslash \<and> cs' \<noteq> [] \<and> hd cs' = backslash)"
      by (cases out) auto
    have "sanitize_escapes (c # cs') =
        (case sanitize_escapes (drop 12 (c # cs')) of (x, changed) \<Rightarrow> (take 12 (c # cs') @ x, changed))"
      using pair(2,3) u1 u2 n m by (intro sanitize_pair [OF nq]) (simp_all only: cs')
    then have "sanitize_escapes out = (case sanitize_escapes o' of (x, changed) \<Rightarrow> (take 12 ?s @ x, changed))"
      by (simp only: cs' [symmetric] d12 t)
    then show ?thesis by (simp add: IH out)
  next
    case lone
    then obtain o' where out: "out = REPLACEMENT @ o'"
      and o': "sanitize_escapes (drop 6 (c # cs)) = (o', snd (sanitize_escapes (drop 6 (c # cs))))"
      using eq by (auto split: prod.splits if_splits)
    have "sanitize_escapes o' = (o', False)"
      using lone "2.IH"(3) [OF lone(1) _ _ o'] "2.IH"(4) [OF lone(1) _ _ o'] by blast
    then show ?thesis unfolding out by (rule sanitize_replacement)
  next
    case push
    then obtain o' where out: "out = c # o'" and o': "sanitize_escapes cs = (o', changed)"
      using eq by (auto split: prod.splits)
    have IH: "sanitize_escapes o' = (o', False)" by (rule "2.IH"(5) [OF push(1) push(2) push(3) o'])
    have "unicode_escape (c # o') = unicode_escape (c # cs)"
      using unicode_escape_plain [of c o'] unicode_escape_plain [of c cs] sanitize_plain_part [OF o'] by simp
    moreover have "\<not> (c = backslash \<and> o' \<noteq> [] \<and> hd o' = backslash)"
      using push(1) sanitize_plain_part [OF o'] by (cases o'; cases cs) (auto split: if_splits)
    ultimately show ?thesis using push IH unfolding out by (auto simp: sanitize_escapes.simps(2))
  qed
qed

text \<open>The single declared output, and the approval a terminal can give.\<close>

lemma fill_declared_single:
  "declared = [d] \<Longrightarrow>
   (\<exists>v. im_get (fill_declared_output outs declared data out) (po_name d) = Some v \<and> v \<noteq> JNull) \<or>
   data = JNull \<and> trim out = []"
  by (cases data) (auto simp: fill_declared_output_def im.get_put split: option.splits json.splits
      elim!: is_null.elims)

lemma approval_loop_ok:
  "approval_loop take_line cx script w = (w', Inr response) \<Longrightarrow>
   response = APPROVED_RESPONSE \<and>
   (\<exists>before line rest. script = map Inr before @ Inr line # rest \<and>
      lowercase_ascii_view (trim (trim_line_end line)) \<in> {''y'', ''yes''} \<and>
      (\<forall>l \<in> set before. lowercase_ascii_view (trim (trim_line_end l)) \<notin> {''y'', ''yes'', ''n'', ''no''}))"
proof (induction take_line cx script w rule: approval_loop.induct)
  case (3 take_line cx line rest w)
  let ?answer = "lowercase_ascii_view (trim (trim_line_end line))"
  consider "?answer \<in> {''y'', ''yes''}" | "?answer \<in> {''n'', ''no''}" | "?answer \<notin> {''y'', ''yes'', ''n'', ''no''}"
    by blast
  then show ?case
  proof cases
    case 1
    with 3 show ?thesis by (intro conjI exI [of _ "[]"] exI [of _ line] exI [of _ rest]) (auto simp: Let_def)
  next
    case 2
    with 3 show ?thesis by (auto simp: Let_def)
  next
    case a: 3
    then have "approval_loop take_line cx rest (take_line w) = (w', Inr response)"
      using "3.prems" by (auto simp: Let_def)
    with "3.IH" a obtain before l r where "response = APPROVED_RESPONSE" "rest = map Inr before @ Inr l # r"
      "lowercase_ascii_view (trim (trim_line_end l)) \<in> {''y'', ''yes''}"
      "\<forall>l \<in> set before. lowercase_ascii_view (trim (trim_line_end l)) \<notin> {''y'', ''yes'', ''n'', ''no''}"
      by auto
    with a show ?thesis
      by (intro conjI exI [of _ "line # before"] exI [of _ l] exI [of _ r]) auto
  qed
qed auto

section \<open>Properties\<close>

text \<open>
  Sanitizing a script's output is complete: the text it returns contains no lone surrogate
  escape any more, so a second pass finds nothing to replace.
\<close>

theorem sanitized_output_is_clean:
  "sanitize_lone_surrogate_escapes input = Some out \<Longrightarrow> sanitize_lone_surrogate_escapes out = None"
  by (auto simp: sanitize_lone_surrogate_escapes_def sanitize_idempotent split: prod.splits if_splits)

lemma sanitized_output_is_clean_witness:
  "sanitize_lone_surrogate_escapes (backslash # ''udc9d'' @ backslash # ''ud83d'' @ backslash # ''ude00'') =
     Some (REPLACEMENT @ backslash # ''ud83d'' @ backslash # ''ude00'') \<and>
   sanitize_lone_surrogate_escapes (REPLACEMENT @ backslash # ''ud83d'' @ backslash # ''ude00'') = None"
proof -
  have "sanitize_lone_surrogate_escapes (backslash # ''udc9d'' @ backslash # ''ud83d'' @ backslash # ''ude00'') =
     Some (REPLACEMENT @ backslash # ''ud83d'' @ backslash # ''ude00'')"
    by code_simp
  from this sanitized_output_is_clean [OF this] show ?thesis ..
qed

definition static_source :: "code_call_config \<Rightarrow> script_source \<Rightarrow> bool" where
  "static_source c source \<longleftrightarrow> (case source of
     InlineScript extension src \<Rightarrow> cc_inline c = Some src \<and> \<not> contains_plan_placeholder src
   | ScriptFile file \<Rightarrow> cc_inline c = None \<and> cc_file c = Some file \<and> \<not> contains_plan_placeholder file)"

lemma working_directory_script [simp]:
  "working_directory (env\<lparr>re_script := f\<rparr>) cx d w = working_directory env cx d w"
  by (cases env, hypsubst, unfold working_directory_def workspace_dir_def workspace_prepare_def
      runner_env.update_convs runner_env.select_convs) (rule refl)

text \<open>
  the program of a CODE_CALL is static.  Replacing what any script would do whose
  source is not the inline text or the file of the plan, verbatim and free of plan placeholders,
  changes nothing: no other script is ever run.  A configuration with a placeholder there fails
  before anything happens.
\<close>

theorem code_call_source_static:
  assumes "s_config (cx_step cx) = CodeCall c"
  shows "run_code_call (env\<lparr>re_script := \<lambda>cmd. if static_source c (sc_source cmd) then re_script env cmd else other cmd\<rparr>) cx w
      = run_code_call env cx w \<and>
    (list_ex contains_plan_placeholder (opt_list (cc_inline c) @ opt_list (cc_file c)) \<longrightarrow>
       fst (run_code_call env cx w) = w \<and> (\<exists>e. snd (run_code_call env cx w) = Inl e))"
proof
  let ?env = "env\<lparr>re_script := \<lambda>cmd. if static_source c (sc_source cmd) then re_script env cmd else other cmd\<rparr>"
  let ?guard = "and_then (reject_executable_placeholders cx ''inline'' (cc_inline c))
      (reject_executable_placeholders cx ''file'' (cc_file c))"
  show "run_code_call ?env cx w = run_code_call env cx w"
  proof (cases ?guard)
    case (Inl e)
    with assms show ?thesis by (simp add: run_code_call_def)
  next
    case (Inr u)
    then have static: "static_source c (InlineScript ext src)" if "cc_inline c = Some src" for ext src
      using that by (auto simp: static_source_def reject_executable_placeholders_def)
    from Inr have from_file: "static_source c (ScriptFile f)" if "cc_inline c = None" "cc_file c = Some f" for f
      using that by (auto simp: static_source_def reject_executable_placeholders_def)
    show ?thesis
      using assms Inr static from_file
      by (auto simp: run_code_call_def Let_def and_then_def split: sum.splits prod.splits option.splits)
  qed
  show "list_ex contains_plan_placeholder (opt_list (cc_inline c) @ opt_list (cc_file c)) \<longrightarrow>
       fst (run_code_call env cx w) = w \<and> (\<exists>e. snd (run_code_call env cx w) = Inl e)"
    using assms
    by (auto simp: run_code_call_def reject_executable_placeholders_def and_then_def fail_if_def opt_list_def
        split: option.splits)
qed

definition offline_env :: "nat runner_env" where
  "offline_env = \<lparr>
     re_llm = \<lparr>lh_host = quiet_host, lh_net = demo_net, lh_json_error = \<lambda>s. ''bad'', lh_status_text = \<lambda>s. [],
       lh_header_name_error = \<lambda>s. None, lh_header_value_error = \<lambda>s. None, lh_shlex = \<lambda>s. None, lh_os = Linux\<rparr>,
     re_transport = \<lparr>tr_http = \<lambda>u hs b t w. (w, NoResponse ''offline''), tr_metadata = \<lambda>w. (w, NoResponse ''offline''),
       tr_cli = \<lambda>provider exe args stdin t w. (w, Inl (LE_Request ''offline'')), tr_now = \<lambda>w. 0,
       tr_elapsed_ms = \<lambda>w w'. 0, tr_recorder = None\<rparr>,
     re_adapters = echo_adapters, re_catalog = [(''ls'', demo_tool ''ls'')], re_profile = None,
     re_profile_error = None, re_anthropic_key = None, re_openai_key = None, re_human = None,
     re_stdin = \<lambda>w. drop w [Inr ''maybe'', Inr ''YES'', Inr ''n''], re_take_stdin = Suc,
     re_absolute = Inr, re_create_dir_all = \<lambda>p w. (w, Inr ()), re_is_dir = \<lambda>w p. True,
     re_canonicalize = \<lambda>w p. Inr p, re_find_on_path = \<lambda>w p. Some p,
     re_script = \<lambda>cmd w. (w + 1, Exited True (Some 0) ''done'' [])\<rparr>"

definition demo_context :: "step_config \<Rightarrow> string list \<Rightarrow> step_context" where
  "demo_context config outs = \<lparr>
     cx_plan = \<lparr>p_metadata = metadata_new ''id'' 0 None, p_name = ''p'', p_description = None, p_inputs = [],
       p_config = [], p_steps = [], p_outputs = []\<rparr>,
     cx_step = \<lparr>s_id = ''s'', s_name = ''s'', s_description = None, s_config = config, s_depends_on = [],
       s_outputs = map (\<lambda>n. \<lparr>po_name = n, po_description = None, po_value_type = ''any''\<rparr>) outs,
       s_timeout_secs = None, s_retry = None\<rparr>,
     cx_outputs = outputs_from_map [], cx_timeout_secs = None, cx_run_id = ''r'', cx_storage_root = ''/data'',
     cx_workspace = None\<rparr>"

definition demo_code :: code_call_config where
  "demo_code = \<lparr>cc_language = ''bash'', cc_inline = Some ''echo ${input.name}'', cc_file = None, cc_args = [],
     cc_stdin = None, cc_env = [], cc_working_dir = None, cc_timeout_secs = None\<rparr>"

lemma code_call_source_static_witness:
  "fst (run_code_call offline_env (demo_context (CodeCall demo_code) [''out'']) 7) = 7"
proof -
  have c: "s_config (cx_step (demo_context (CodeCall demo_code) [''out''])) = CodeCall demo_code"
    by (simp add: demo_context_def)
  have p: "list_ex contains_plan_placeholder (opt_list (cc_inline demo_code) @ opt_list (cc_file demo_code))"
    by code_simp
  show ?thesis
    using code_call_source_static [OF c, of offline_env "re_script offline_env" 7] p by blast
qed

text \<open>
  A step that declares one output delivers it.  A successful CODE_CALL or TOOL_CALL with a
  single declared output has a non-null value for it, unless the tool returned no data and
  printed nothing but white space.
\<close>

theorem single_output_delivered:
  assumes "s_outputs (cx_step cx) = [d]"
  shows "(map_script_output h cx out err = Inr r \<and> trim out \<noteq> [] \<longrightarrow>
      (\<exists>v. im_get (res_outputs r) (po_name d) = Some v \<and> v \<noteq> JNull)) \<and>
    (to_data tool \<noteq> JNull \<or> trim (to_stdout tool) \<noteq> [] \<longrightarrow>
      (\<exists>v. im_get (tool_outputs host (cx_step cx) tool) (po_name d) = Some v \<and> v \<noteq> JNull))"
proof
  show "map_script_output h cx out err = Inr r \<and> trim out \<noteq> [] \<longrightarrow>
      (\<exists>v. im_get (res_outputs r) (po_name d) = Some v \<and> v \<noteq> JNull)"
    using fill_declared_single [OF assms, of _ JNull out]
    by (auto simp: map_script_output_def Let_def split: prod.splits if_splits)
  show "to_data tool \<noteq> JNull \<or> trim (to_stdout tool) \<noteq> [] \<longrightarrow>
      (\<exists>v. im_get (tool_outputs host (cx_step cx) tool) (po_name d) = Some v \<and> v \<noteq> JNull)"
    using fill_declared_single [OF assms, of _ "to_data tool" "to_stdout tool"]
    unfolding tool_outputs_def Let_def by blast
qed

lemma single_output_delivered_witness:
  "\<exists>v. im_get (tool_outputs quiet_host (cx_step (demo_context (CodeCall demo_code) [''out'']))
      \<lparr>to_stdout = ''text'', to_stderr = [], to_exit_code = 0, to_data = JNull\<rparr>) ''out'' = Some v \<and> v \<noteq> JNull"
proof -
  have d: "s_outputs (cx_step (demo_context (CodeCall demo_code) [''out''])) =
      [\<lparr>po_name = ''out'', po_description = None, po_value_type = ''any''\<rparr>]"
    by (simp add: demo_context_def)
  have "trim (to_stdout \<lparr>to_stdout = ''text'', to_stderr = [], to_exit_code = 0, to_data = JNull\<rparr>) \<noteq> []"
    by code_simp
  then show ?thesis
    using single_output_delivered [OF d, of undefined undefined undefined undefined
        "\<lparr>to_stdout = ''text'', to_stderr = [], to_exit_code = 0, to_data = JNull\<rparr>" quiet_host]
    by (simp only: plan_output.select_convs) blast
qed


definition demo_human :: human_config where
  "demo_human = \<lparr>hi_prompt = ''go?'', hi_response_field = ''ok'', hi_approval_required = True\<rparr>"


end
