(* ===== verification/Schedule.thy ===== *)
theory Schedule
  imports PlanTypes
begin

text \<open>
  What an order of a plan's steps promises.  Two functions order steps: the executor's
  \<^verbatim>\<open>topological_order\<close> and the compiler's \<^verbatim>\<open>normalize_step_order\<close>.  The
  locale states their common contract: nothing is lost or repeated, and a schedulable list
  comes out with dependencies first.
\<close>

text \<open>The dependency edges between step IDs: from a dependency to its dependent.\<close>

definition dep_edges :: "plan_step list \<Rightarrow> (string \<times> string) set" where
  "dep_edges ss = {(d, s_id s) | d s. s \<in> set ss \<and> d \<in> set (s_depends_on s)}"

definition schedulable :: "plan_step list \<Rightarrow> bool" where
  "schedulable ss \<longleftrightarrow> distinct (map s_id ss) \<and> (\<forall>s \<in> set ss. distinct (s_depends_on s)) \<and>
     acyclic (dep_edges ss)"

text \<open>Every dependency that is in the list stands before the step that lists it.\<close>

definition deps_first :: "plan_step list \<Rightarrow> bool" where
  "deps_first os \<longleftrightarrow> (\<forall>i < length os. \<forall>j < length os.
     s_id (os ! j) \<in> set (s_depends_on (os ! i)) \<longrightarrow> j < i)"

text \<open>Position \<open>i\<close> depends on position \<open>k\<close>.\<close>

definition dep_at :: "plan_step list \<Rightarrow> nat \<Rightarrow> nat \<Rightarrow> bool" where
  "dep_at ss i k \<longleftrightarrow> s_id (ss ! k) \<in> set (s_depends_on (ss ! i))"

lemma dep_edges_Union: "dep_edges ss = (\<Union>s \<in> set ss. (\<lambda>d. (d, s_id s)) ` set (s_depends_on s))"
  by (auto simp: dep_edges_def)

lemma finite_dep_edges: "finite (dep_edges ss)"
  by (simp add: dep_edges_Union)

lemma dep_edges_mset: "mset xs = mset ys \<Longrightarrow> dep_edges xs = dep_edges ys"
  by (auto simp: dep_edges_def dest: mset_eq_setD)

lemma acyclic_rank: "(\<And>x y. (x, y) \<in> R \<Longrightarrow> f x < (f y :: nat)) \<Longrightarrow> acyclic R"
  by (metis acyclic_subset mem_Collect_eq case_prodI subrelI wf_acyclic wf_measure in_measure)

text \<open>In a schedulable list some step of any non-empty rest waits for no other of the rest.\<close>

lemma schedulable_minimal:
  assumes "acyclic (dep_edges ss)" and "X \<subseteq> set ss" and "X \<noteq> {}"
  shows "\<exists>s \<in> X. \<forall>t \<in> X. s_id t \<notin> set (s_depends_on s)"
proof -
  have "wf (dep_edges ss)"
    using assms(1) by (rule finite_acyclic_wf [OF finite_dep_edges])
  moreover have "s_id ` X \<noteq> {}" using assms(3) by simp
  ultimately obtain z where z: "z \<in> s_id ` X" "\<And>y. (y, z) \<in> dep_edges ss \<Longrightarrow> y \<notin> s_id ` X"
    by (metis wf_eq_minimal equals0I)
  then obtain s where "s \<in> X" "z = s_id s" by auto
  with z(2) assms(2) have "\<forall>t \<in> X. s_id t \<notin> set (s_depends_on s)"
    by (auto simp: dep_edges_def)
  with \<open>s \<in> X\<close> show ?thesis by blast
qed

locale step_schedule =
  fixes order :: "plan_step list \<Rightarrow> plan_step list"
  assumes permutes: "mset (order ss) = mset ss"
    and respects: "schedulable ss \<Longrightarrow> deps_first (order ss)"
begin

lemma set_order: "set (order ss) = set ss"
  using permutes by (rule mset_eq_setD)

lemma length_order: "length (order ss) = length ss"
  using permutes by (rule mset_eq_length)

lemma ids_distinct: "distinct (map s_id (order ss)) \<longleftrightarrow> distinct (map s_id ss)"
  by (metis mset_map permutes mset_eq_imp_distinct_iff)

lemma order_split:
  assumes "schedulable ss" and "order ss = xs @ s # ys" and "t \<in> set ss"
    and "s_id t \<in> set (s_depends_on s)"
  shows "t \<in> set xs"
proof -
  from assms(3) obtain j where j: "j < length (order ss)" "order ss ! j = t"
    by (metis in_set_conv_nth set_order)
  have "order ss ! length xs = s" "length xs < length (order ss)" using assms(2) by simp_all
  with respects [OF assms(1)] j assms(4) have "j < length xs"
    unfolding deps_first_def by blast
  with j assms(2) show ?thesis by (metis nth_append nth_mem)
qed

text \<open>Ordering twice cannot break what ordering once established.\<close>

lemma order_again: "schedulable ss \<Longrightarrow> schedulable (order ss)"
  using dep_edges_mset [OF permutes [of ss]]
  by (simp add: schedulable_def ids_distinct set_order)

end

end
