(* ===== verification/Dag.thy ===== *)
theory Dag
  imports Schedule
begin

text \<open>
  \<^verbatim>\<open>executor/dag.rs\<close>: the execution order and the downstream closure of a step.  A
  reference to a step of the plan is its position in \<^verbatim>\<open>plan.steps\<close>; the loop's state
  is the four vectors of the source.
\<close>

section \<open>The execution order\<close>

definition internal_degree :: "plan_step list \<Rightarrow> plan_step \<Rightarrow> nat" where
  "internal_degree ss s = length (filter (\<lambda>dep. dep \<in> s_id ` set ss) (s_depends_on s))"

definition sort_by_id :: "plan_step list \<Rightarrow> nat list \<Rightarrow> nat list" where
  "sort_by_id ss q = sort_key (\<lambda>i. s_id (ss ! i)) q"

text \<open>The inner loop: one dependent after another, with the saturating decrement.\<close>

definition release_one ::
    "plan_step list \<Rightarrow> bool list \<Rightarrow> string \<Rightarrow> nat \<Rightarrow> nat list \<times> nat list \<Rightarrow> nat list \<times> nat list" where
  "release_one ss emitted sid i = (\<lambda>(in_degree, queue).
     if \<not> emitted ! i \<and> sid \<in> set (s_depends_on (ss ! i)) then
       (let d = in_degree ! i - 1 in
        (in_degree[i := d], if d = 0 then queue @ [i] else queue))
     else (in_degree, queue))"

definition release ::
    "plan_step list \<Rightarrow> bool list \<Rightarrow> string \<Rightarrow> nat list \<times> nat list \<Rightarrow> nat list \<times> nat list" where
  "release ss emitted sid st = fold (release_one ss emitted sid) [0..<length ss] st"

lemma count_emit: "idx < length e \<Longrightarrow> \<not> e ! idx \<Longrightarrow>
    length (filter Not (e[idx := True])) < length (filter Not e)"
proof (induction e arbitrary: idx)
  case Nil
  then show ?case by simp
next
  case (Cons b e)
  then show ?case by (cases idx) auto
qed

text \<open>
  The outer loop.  A position in the queue is always below the number of steps; the test for
  it stands in for the source's indexing.
\<close>

function topo_loop ::
    "plan_step list \<Rightarrow> nat list \<Rightarrow> nat list \<Rightarrow> nat list \<Rightarrow> bool list \<Rightarrow> nat list \<times> bool list" where
  "topo_loop ss in_degree [] result emitted = (result, emitted)"
| "topo_loop ss in_degree (idx # queue) result emitted =
     (if idx < length emitted \<and> \<not> emitted ! idx then
        (case release ss (emitted[idx := True]) (s_id (ss ! idx)) (in_degree, queue) of
           (in_degree', queue') \<Rightarrow>
             topo_loop ss in_degree' (sort_by_id ss queue') (result @ [idx]) (emitted[idx := True]))
      else topo_loop ss in_degree queue result emitted)"
  by pat_completeness auto

termination
  by (relation "measures [\<lambda>(ss, deg, q, r, e). length (filter Not e), \<lambda>(ss, deg, q, r, e). length q]")
    (auto simp: count_emit)

definition topological_order :: "plan_step list \<Rightarrow> plan_step list" where
  "topological_order ss =
     (let in_degree = map (internal_degree ss) ss;
          queue = sort_by_id ss (filter (\<lambda>i. in_degree ! i = 0) [0..<length ss]);
          (result, emitted) = topo_loop ss in_degree queue [] (replicate (length ss) False);
          remaining = sort_by_id ss (filter (\<lambda>i. \<not> emitted ! i) [0..<length ss])
      in map ((!) ss) (result @ remaining))"

section \<open>The downstream closure\<close>

definition downstream_one ::
    "plan_step \<Rightarrow> string set \<times> bool \<Rightarrow> string set \<times> bool" where
  "downstream_one s = (\<lambda>(reachable, changed).
     if s_id s \<in> reachable then (reachable, changed)
     else if list_ex (\<lambda>dep. dep \<in> reachable) (s_depends_on s) then
       (insert (s_id s) reachable, True)
     else (reachable, changed))"

definition downstream_pass :: "plan_step list \<Rightarrow> string set \<Rightarrow> string set \<times> bool" where
  "downstream_pass ss reachable = fold downstream_one ss (reachable, False)"

lemma downstream_fold:
  "fold downstream_one xs (r, c) = (r', c') \<Longrightarrow>
     r \<subseteq> r' \<and> r' - r \<subseteq> s_id ` set xs \<and> (c' \<longleftrightarrow> c \<or> r' \<noteq> r)"
proof (induction xs arbitrary: r c)
  case Nil
  then show ?case by simp
next
  case (Cons s xs)
  obtain r1 c1 where one: "downstream_one s (r, c) = (r1, c1)" by (cases "downstream_one s (r, c)")
  with Cons.prems have "fold downstream_one xs (r1, c1) = (r', c')" by simp
  from Cons.IH [OF this] one show ?case
    by (auto simp: downstream_one_def split: if_splits)
qed

function downstream_loop :: "plan_step list \<Rightarrow> string set \<Rightarrow> string set" where
  "downstream_loop ss reachable =
     (case downstream_pass ss reachable of
        (reachable', changed) \<Rightarrow>
          if changed then downstream_loop ss reachable' else reachable')"
  by pat_completeness auto
termination
proof (relation "measure (\<lambda>(ss, r). card (s_id ` set ss - r))", goal_cases)
  case 1
  show ?case by simp
next
  case (2 ss r r' c)
  then have "fold downstream_one ss (r, False) = (r', True)"
    by (simp add: downstream_pass_def)
  from downstream_fold [OF this] have "s_id ` set ss - r' \<subset> s_id ` set ss - r" by auto
  then show ?case by (simp add: psubset_card_mono)
qed

declare downstream_loop.simps [simp del]

definition downstream_closure :: "plan \<Rightarrow> string \<Rightarrow> string set" where
  "downstream_closure p i =
     (if plan_find_step p i = None then {} else downstream_loop (p_steps p) {i})"

section \<open>Nothing is lost or repeated\<close>

lemma set_sort_by_id [simp]: "set (sort_by_id ss q) = set q"
  by (simp add: sort_by_id_def)

lemma topo_loop_emits:
  "length emitted = length ss \<Longrightarrow> distinct result \<Longrightarrow>
   set result = {i. i < length ss \<and> emitted ! i} \<Longrightarrow>
   topo_loop ss deg queue result emitted = (result', emitted') \<Longrightarrow>
   length emitted' = length ss \<and> distinct result' \<and>
   set result' = {i. i < length ss \<and> emitted' ! i}"
proof (induction ss deg queue result emitted rule: topo_loop.induct)
  case (1 ss deg result emitted)
  then show ?case by simp
next
  case (2 ss deg idx queue result emitted)
  show ?case
  proof (cases "idx < length emitted \<and> \<not> emitted ! idx")
    case True
    obtain deg' queue' where r:
      "release ss (emitted[idx := True]) (s_id (ss ! idx)) (deg, queue) = (deg', queue')"
      by (cases "release ss (emitted[idx := True]) (s_id (ss ! idx)) (deg, queue)")
    have "set (result @ [idx]) = {i. i < length ss \<and> emitted[idx := True] ! i}"
      using 2(3,5) True by (auto simp: nth_list_update)
    moreover have "distinct (result @ [idx])" using 2(4,5) True by auto
    ultimately show ?thesis
      using 2(1) [OF True r [symmetric]] 2(3,6) True r by simp
  next
    case False
    have "topo_loop ss deg queue result emitted = (result', emitted')"
      using 2(6) unfolding topo_loop.simps if_not_P [OF False] .
    with 2(2) [OF False] 2(3-5) show ?thesis by simp
  qed
qed

lemma sorted_positions:
  assumes "distinct result" "set result = {i. i < n \<and> emitted ! i}"
  shows "mset (result @ sort_by_id ss (filter (\<lambda>i. \<not> emitted ! i) [0..<n])) = mset [0..<n]"
proof -
  let ?rest = "filter (\<lambda>i. \<not> emitted ! i) [0..<n]"
  have "set result \<inter> set ?rest = {}" unfolding assms(2) by simp blast
  then have "distinct (result @ ?rest)" using assms(1) by simp
  moreover have "set (result @ ?rest) = set [0..<n]"
    unfolding set_append assms(2) by auto
  ultimately have "mset (result @ filter (\<lambda>i. \<not> emitted ! i) [0..<n]) = mset [0..<n]"
    by (simp only: set_eq_iff_mset_eq_distinct distinct_upt)
  then show ?thesis by (simp add: sort_by_id_def)
qed

lemma topological_order_mset: "mset (topological_order ss) = mset ss"
proof -
  let ?deg = "map (internal_degree ss) ss"
  let ?queue = "sort_by_id ss (filter (\<lambda>i. ?deg ! i = 0) [0..<length ss])"
  obtain result emitted where l:
    "topo_loop ss ?deg ?queue [] (replicate (length ss) False) = (result, emitted)"
    by (cases "topo_loop ss ?deg ?queue [] (replicate (length ss) False)")
  from topo_loop_emits [OF _ _ _ l]
  have "distinct result" "set result = {i. i < length ss \<and> emitted ! i}" by auto
  then have "mset (result @ sort_by_id ss (filter (\<lambda>i. \<not> emitted ! i) [0..<length ss]))
      = mset [0..<length ss]"
    by (rule sorted_positions)
  then have "mset (topological_order ss) = image_mset ((!) ss) (mset [0..<length ss])"
    unfolding topological_order_def Let_def l prod.case mset_map by (rule arg_cong)
  also have "\<dots> = mset ss"
    by (metis map_nth mset_map)
  finally show ?thesis .
qed

section \<open>Dependencies first\<close>

text \<open>The inner loop in closed form.\<close>

definition released :: "plan_step list \<Rightarrow> bool list \<Rightarrow> string \<Rightarrow> nat \<Rightarrow> bool" where
  "released ss emitted sid i \<longleftrightarrow> \<not> emitted ! i \<and> sid \<in> set (s_depends_on (ss ! i))"

lemma release_upto:
  assumes "length deg = length ss" and "m \<le> length ss"
  shows "fold (release_one ss emitted sid) [0..<m] (deg, queue) =
    (map (\<lambda>i. if i < m \<and> released ss emitted sid i then deg ! i - 1 else deg ! i) [0..<length ss],
     queue @ filter (\<lambda>i. released ss emitted sid i \<and> deg ! i - 1 = 0) [0..<m])"
  using assms(2)
proof (induction m)
  case 0
  show ?case using assms(1) map_nth [of deg] by simp
next
  case (Suc m)
  then have m: "m < length ss" by simp
  have upd: "(map (\<lambda>i. if i < m \<and> P i then f i else g i) [0..<length ss])[m := f m] =
      map (\<lambda>i. if i < Suc m \<and> P i then f i else g i) [0..<length ss]" if "P m" for P and f g :: "nat \<Rightarrow> nat"
    using m that by (intro nth_equalityI) (auto simp: nth_list_update less_Suc_eq)
  show ?case
  proof (cases "released ss emitted sid m")
    case True
    then have r: "\<not> emitted ! m \<and> sid \<in> set (s_depends_on (ss ! m))" by (simp add: released_def)
    show ?thesis
      using Suc m True r upd [of "released ss emitted sid" "\<lambda>i. deg ! i - 1" "(!) deg"]
      by (simp add: release_one_def Let_def)
  next
    case False
    have "(if i < m \<and> released ss emitted sid i then deg ! i - 1 else deg ! i) =
        (if i < Suc m \<and> released ss emitted sid i then deg ! i - 1 else deg ! i)" for i
      using False by (cases "i = m") (auto simp: less_Suc_eq)
    moreover have "release_one ss emitted sid m st = st" for st
      using False by (cases st) (auto simp: release_one_def released_def)
    ultimately show ?thesis using Suc.IH m False by simp
  qed
qed

lemma release_eq: "length deg = length ss \<Longrightarrow> release ss emitted sid (deg, queue) =
    (map (\<lambda>i. if released ss emitted sid i then deg ! i - 1 else deg ! i) [0..<length ss],
     queue @ filter (\<lambda>i. released ss emitted sid i \<and> deg ! i - 1 = 0) [0..<length ss])"
  by (simp add: release_def release_upto)
text \<open>What position \<open>i\<close> still waits for.\<close>

definition waits_for :: "plan_step list \<Rightarrow> bool list \<Rightarrow> nat \<Rightarrow> nat set" where
  "waits_for ss emitted i = {k. k < length ss \<and> \<not> emitted ! k \<and> dep_at ss i k}"

text \<open>
  The loop's invariant: degrees count what is waited for, the queue holds exactly the
  positions that wait for nothing, and what was emitted came after its dependencies.
\<close>

definition topo_inv ::
    "plan_step list \<Rightarrow> nat list \<Rightarrow> nat list \<Rightarrow> nat list \<Rightarrow> bool list \<Rightarrow> bool" where
  "topo_inv ss deg queue result emitted \<longleftrightarrow>
     length deg = length ss \<and> length emitted = length ss \<and>
     set result = {i. i < length ss \<and> emitted ! i} \<and>
     (\<forall>i < length ss. \<not> emitted ! i \<longrightarrow> deg ! i = card (waits_for ss emitted i)) \<and>
     (\<forall>i \<in> set queue. i < length ss \<and> (emitted ! i \<or> deg ! i = 0)) \<and>
     (\<forall>i < length ss. \<not> emitted ! i \<and> deg ! i = 0 \<longrightarrow> i \<in> set queue) \<and>
     (\<forall>a < length result. \<forall>k < length ss. dep_at ss (result ! a) k \<longrightarrow> (\<exists>b < a. result ! b = k))"

lemma finite_waits_for [simp]: "finite (waits_for ss emitted i)"
  by (simp add: waits_for_def)

lemma waits_for_emit: "idx < length emitted \<Longrightarrow>
    waits_for ss (emitted[idx := True]) i = waits_for ss emitted i - {idx}"
  by (auto simp: waits_for_def nth_list_update)

lemma internal_degree_card:
  assumes "distinct (map s_id ss)" and "distinct (s_depends_on (ss ! i))"
  shows "internal_degree ss (ss ! i) = card {k. k < length ss \<and> dep_at ss i k}"
proof -
  let ?K = "{k. k < length ss \<and> dep_at ss i k}"
  have "inj_on (\<lambda>k. s_id (ss ! k)) ?K"
    by (auto simp: inj_on_def) (metis assms(1) length_map nth_eq_iff_index_eq nth_map)
  then have "card ?K = card ((\<lambda>k. s_id (ss ! k)) ` ?K)" by (simp add: card_image)
  also have "(\<lambda>k. s_id (ss ! k)) ` ?K = set (filter (\<lambda>dep. dep \<in> s_id ` set ss) (s_depends_on (ss ! i)))"
    by (auto simp: dep_at_def set_conv_nth [of ss])
  also have "card \<dots> = internal_degree ss (ss ! i)"
    unfolding internal_degree_def using assms(2) by (intro distinct_card distinct_filter)
  finally show ?thesis by simp
qed

lemma topo_inv_start:
  assumes "schedulable ss"
  shows "topo_inv ss (map (internal_degree ss) ss)
    (sort_by_id ss (filter (\<lambda>i. map (internal_degree ss) ss ! i = 0) [0..<length ss])) []
    (replicate (length ss) False)"
proof -
  have "internal_degree ss (ss ! i) = card (waits_for ss (replicate (length ss) False) i)"
    if "i < length ss" for i
  proof -
    have "{k. k < length ss \<and> dep_at ss i k} = waits_for ss (replicate (length ss) False) i"
      by (auto simp: waits_for_def)
    moreover have "distinct (s_depends_on (ss ! i))" using assms that by (simp add: schedulable_def)
    ultimately show ?thesis
      using internal_degree_card [of ss i] assms by (simp add: schedulable_def)
  qed
  then show ?thesis by (auto simp: topo_inv_def)
qed

lemma topo_inv_emit:
  assumes inv: "topo_inv ss deg (idx # queue) result emitted" and new: "\<not> emitted ! idx"
    and rel: "release ss (emitted[idx := True]) (s_id (ss ! idx)) (deg, queue) = (deg', queue')"
  shows "topo_inv ss deg' (sort_by_id ss queue') (result @ [idx]) (emitted[idx := True])"
proof -
  let ?e = "emitted[idx := True]"
  have idx: "idx < length ss" "deg ! idx = 0" and len: "length deg = length ss" "length emitted = length ss"
    and count: "\<And>i. i < length ss \<Longrightarrow> \<not> emitted ! i \<Longrightarrow> deg ! i = card (waits_for ss emitted i)"
    using inv new by (auto simp: topo_inv_def)
  have deg': "deg' ! i = (if \<not> ?e ! i \<and> dep_at ss i idx then deg ! i - 1 else deg ! i)"
    and len': "length deg' = length ss" if "i < length ss" for i
    using rel that len by (auto simp: release_eq released_def dep_at_def)
  have queue': "set queue' = set queue \<union> {i. i < length ss \<and> \<not> ?e ! i \<and> dep_at ss i idx \<and> deg ! i - 1 = 0}"
    using rel len by (auto simp: release_eq released_def dep_at_def)
  have "waits_for ss emitted idx = {}"
    using count [OF idx(1) new] idx(2) by simp
  then have done_deps: "\<And>k. k < length ss \<Longrightarrow> dep_at ss idx k \<Longrightarrow> k \<in> set result"
    using inv by (auto simp: waits_for_def topo_inv_def)
  have count': "deg' ! i = card (waits_for ss ?e i)" if i: "i < length ss" "\<not> ?e ! i" for i
  proof -
    have ne: "\<not> emitted ! i" "i \<noteq> idx"
      using i len idx(1) by (auto simp: nth_list_update split: if_splits)
    have "idx \<in> waits_for ss emitted i \<longleftrightarrow> dep_at ss i idx"
      using idx(1) new by (simp add: waits_for_def)
    then show ?thesis
      using i ne count [OF i(1) ne(1)] deg' len idx(1)
      by (auto simp: waits_for_emit card_Diff_singleton_if)
  qed
  have q1: "i < length ss \<and> (?e ! i \<or> deg' ! i = 0)" if "i \<in> set queue'" for i
  proof -
    have i: "i < length ss" using that inv unfolding queue' topo_inv_def by auto
    have "?e ! i \<or> deg' ! i = 0"
    proof (cases "i \<in> set queue")
      case True
      then have "emitted ! i \<or> deg ! i = 0" using inv by (auto simp: topo_inv_def)
      then show ?thesis using deg' [OF i] i len idx(1) by (auto simp: nth_list_update)
    next
      case False
      then show ?thesis using that deg' [OF i] unfolding queue' by auto
    qed
    with i show ?thesis by simp
  qed
  have q2: "i \<in> set queue'" if i: "i < length ss" "\<not> ?e ! i" "deg' ! i = 0" for i
  proof (cases "dep_at ss i idx")
    case True
    with i deg' show ?thesis unfolding queue' by simp
  next
    case False
    then have "deg ! i = 0" using i deg' by simp
    moreover have "\<not> emitted ! i" "i \<noteq> idx"
      using i len idx(1) by (auto simp: nth_list_update split: if_splits)
    ultimately show ?thesis
      using inv i(1) unfolding queue' topo_inv_def by auto
  qed
  have order: "\<exists>b < a. (result @ [idx]) ! b = k"
    if a: "a < length (result @ [idx])" "k < length ss" "dep_at ss ((result @ [idx]) ! a) k" for a k
  proof (cases "a = length result")
    case True
    then have "k \<in> set result" using a done_deps by simp
    then show ?thesis using True by (auto simp: in_set_conv_nth nth_append)
  next
    case False
    with a have "a < length result" "dep_at ss (result ! a) k" by (auto simp: nth_append)
    with inv a(2) obtain b where "b < a" "result ! b = k" unfolding topo_inv_def by blast
    with \<open>a < length result\<close> show ?thesis by (intro exI [of _ b]) (simp add: nth_append)
  qed
  have "set (result @ [idx]) = {i. i < length ss \<and> ?e ! i}"
  proof -
    have "set result = {i. i < length ss \<and> emitted ! i}" using inv by (simp add: topo_inv_def)
    then show ?thesis using idx(1) len by (auto simp: nth_list_update)
  qed
  moreover have "\<forall>i < length ss. \<not> ?e ! i \<longrightarrow> deg' ! i = card (waits_for ss ?e i)"
    by (intro allI impI count')
  moreover have "\<forall>i \<in> set queue'. i < length ss \<and> (?e ! i \<or> deg' ! i = 0)"
    by (intro ballI q1)
  moreover have "\<forall>i < length ss. \<not> ?e ! i \<and> deg' ! i = 0 \<longrightarrow> i \<in> set queue'"
    by (intro allI impI, elim conjE, rule q2)
  moreover have "\<forall>a < length (result @ [idx]). \<forall>k < length ss.
      dep_at ss ((result @ [idx]) ! a) k \<longrightarrow> (\<exists>b < a. (result @ [idx]) ! b = k)"
    by (intro allI impI, rule order)
  ultimately show ?thesis
    unfolding topo_inv_def set_sort_by_id length_list_update using len' [OF idx(1)] len(2)
    by (intro conjI)
qed

lemma topo_inv_skip: "topo_inv ss deg (idx # queue) result emitted \<Longrightarrow> emitted ! idx \<Longrightarrow>
    topo_inv ss deg queue result emitted"
  by (auto simp: topo_inv_def)

lemma topo_inv_loop:
  "topo_inv ss deg queue result emitted \<Longrightarrow>
   topo_loop ss deg queue result emitted = (result', emitted') \<Longrightarrow>
   \<exists>deg'. topo_inv ss deg' [] result' emitted'"
proof (induction ss deg queue result emitted rule: topo_loop.induct)
  case (1 ss deg result emitted)
  then show ?case by auto
next
  case (2 ss deg idx queue result emitted)
  show ?case
  proof (cases "idx < length emitted \<and> \<not> emitted ! idx")
    case True
    obtain deg' queue' where r:
      "release ss (emitted[idx := True]) (s_id (ss ! idx)) (deg, queue) = (deg', queue')"
      by (cases "release ss (emitted[idx := True]) (s_id (ss ! idx)) (deg, queue)")
    have "topo_inv ss deg' (sort_by_id ss queue') (result @ [idx]) (emitted[idx := True])"
      using topo_inv_emit [OF 2(3) _ r] True by simp
    with 2(1) [OF True r [symmetric]] 2(4) True r show ?thesis by simp
  next
    case False
    have "topo_loop ss deg queue result emitted = (result', emitted')"
      using 2(4) unfolding topo_loop.simps if_not_P [OF False] .
    moreover have "emitted ! idx" using False 2(3) by (auto simp: topo_inv_def)
    ultimately show ?thesis using 2(2) [OF False topo_inv_skip [OF 2(3)]] by simp
  qed
qed

lemma topo_inv_final:
  assumes "schedulable ss" and "topo_inv ss deg [] result emitted"
  shows "\<forall>i < length ss. emitted ! i"
proof (rule ccontr)
  let ?X = "{ss ! i | i. i < length ss \<and> \<not> emitted ! i}"
  assume "\<not> (\<forall>i < length ss. emitted ! i)"
  then have "?X \<noteq> {}" by auto
  moreover have "?X \<subseteq> set ss" by auto
  ultimately obtain s where "s \<in> ?X" and free: "\<forall>t \<in> ?X. s_id t \<notin> set (s_depends_on s)"
    using schedulable_minimal assms(1) unfolding schedulable_def by meson
  then obtain i where i: "i < length ss" "\<not> emitted ! i" "s = ss ! i" by auto
  with free have "waits_for ss emitted i = {}"
    by (auto simp: waits_for_def dep_at_def)
  then have "deg ! i = 0" using assms(2) i by (simp add: topo_inv_def)
  with assms(2) i show False by (auto simp: topo_inv_def)
qed

lemma topological_order_deps_first:
  assumes "schedulable ss"
  shows "deps_first (topological_order ss)"
proof -
  let ?deg = "map (internal_degree ss) ss"
  let ?queue = "sort_by_id ss (filter (\<lambda>i. ?deg ! i = 0) [0..<length ss])"
  obtain result emitted where l:
    "topo_loop ss ?deg ?queue [] (replicate (length ss) False) = (result, emitted)"
    by (cases "topo_loop ss ?deg ?queue [] (replicate (length ss) False)")
  from topo_inv_loop [OF topo_inv_start [OF assms] l]
  obtain deg where inv: "topo_inv ss deg [] result emitted" by blast
  have all: "\<forall>i < length ss. emitted ! i" by (rule topo_inv_final [OF assms inv])
  then have "filter (\<lambda>i. \<not> emitted ! i) [0..<length ss] = []" by simp
  then have o: "topological_order ss = map ((!) ss) result"
    unfolding topological_order_def Let_def l prod.case by (simp add: sort_by_id_def)
  have "distinct result"
    using topo_loop_emits [OF _ _ _ l] by auto
  have "j < i" if ij: "i < length result" "j < length result"
      "s_id (ss ! (result ! j)) \<in> set (s_depends_on (ss ! (result ! i)))" for i j
  proof -
    have "result ! j < length ss"
      using inv ij(2) nth_mem [OF ij(2)] by (simp add: topo_inv_def)
    moreover have "dep_at ss (result ! i) (result ! j)" using ij(3) by (simp add: dep_at_def)
    moreover have "\<forall>k < length ss. dep_at ss (result ! i) k \<longrightarrow> (\<exists>b < i. result ! b = k)"
      using inv ij(1) by (simp add: topo_inv_def)
    ultimately obtain b where b: "b < i" "result ! b = result ! j" by blast
    then have "b = j"
      using \<open>distinct result\<close> ij(1,2) by (simp add: nth_eq_iff_index_eq)
    with b show ?thesis by simp
  qed
  then show ?thesis by (simp add: deps_first_def o)
qed
interpretation topo: step_schedule topological_order
  by unfold_locales (rule topological_order_mset, rule topological_order_deps_first)

section \<open>The downstream closure is reachability\<close>

lemma downstream_fold_inv:
  assumes "fold downstream_one xs (r, c) = (r', c')" and "set xs \<subseteq> set ss"
    and "r \<subseteq> (dep_edges ss)\<^sup>* `` {i}"
  shows "r' \<subseteq> (dep_edges ss)\<^sup>* `` {i}"
  using assms
proof (induction xs arbitrary: r c)
  case Nil
  then show ?case by simp
next
  case (Cons s xs)
  obtain r1 c1 where one: "downstream_one s (r, c) = (r1, c1)" by (cases "downstream_one s (r, c)")
  have "s_id s \<in> (dep_edges ss)\<^sup>* `` {i}" if "d \<in> set (s_depends_on s)" "d \<in> r" for d
  proof -
    have "(d, s_id s) \<in> dep_edges ss" using that(1) Cons.prems(2) by (auto simp: dep_edges_def)
    moreover have "(i, d) \<in> (dep_edges ss)\<^sup>*" using that(2) Cons.prems(3) by auto
    ultimately show ?thesis by (auto intro: rtrancl_into_rtrancl)
  qed
  then have "r1 \<subseteq> (dep_edges ss)\<^sup>* `` {i}"
    using one Cons.prems(3) by (auto simp: downstream_one_def list_ex_iff split: if_splits)
  with Cons one show ?case by simp
qed

lemma downstream_stable:
  assumes "fold downstream_one xs (r, c) = (r, c)" and "s \<in> set xs" and "d \<in> set (s_depends_on s)"
    and "d \<in> r"
  shows "s_id s \<in> r"
  using assms
proof (induction xs arbitrary: c)
  case Nil
  then show ?case by simp
next
  case (Cons t xs)
  obtain r1 c1 where one: "downstream_one t (r, c) = (r1, c1)" by (cases "downstream_one t (r, c)")
  with Cons.prems(1) have f: "fold downstream_one xs (r1, c1) = (r, c)" by simp
  from downstream_fold [OF f] one have "r1 = r" "c1 = c"
    by (auto simp: downstream_one_def split: if_splits)
  with f one Cons show ?case by (auto simp: downstream_one_def list_ex_iff split: if_splits)
qed

lemma downstream_loop_reach:
  "r \<subseteq> (dep_edges ss)\<^sup>* `` {i} \<Longrightarrow> i \<in> r \<Longrightarrow> downstream_loop ss r = (dep_edges ss)\<^sup>* `` {i}"
proof (induction ss r rule: downstream_loop.induct)
  case (1 ss r)
  obtain r' c where p: "downstream_pass ss r = (r', c)" by (cases "downstream_pass ss r")
  then have f: "fold downstream_one ss (r, False) = (r', c)" by (simp add: downstream_pass_def)
  note facts = downstream_fold [OF f]
  have sub: "r' \<subseteq> (dep_edges ss)\<^sup>* `` {i}"
    using downstream_fold_inv [OF f order_refl 1(2)] .
  show ?case
  proof (cases c)
    case True
    have "downstream_loop ss r' = (dep_edges ss)\<^sup>* `` {i}"
      using 1(1) [OF p [symmetric] True sub] 1(3) facts by blast
    with p True show ?thesis by (subst downstream_loop.simps) simp
  next
    case False
    with facts have "r' = r" by simp
    with f False have stable: "fold downstream_one ss (r, False) = (r, False)" by simp
    have "y \<in> r" if "(i, y) \<in> (dep_edges ss)\<^sup>*" for y
      using that
    proof (induction rule: rtrancl_induct)
      case base
      show ?case by (rule 1(3))
    next
      case (step y z)
      then show ?case using downstream_stable [OF stable] by (auto simp: dep_edges_def)
    qed
    with sub \<open>r' = r\<close> p False show ?thesis
      by (subst downstream_loop.simps) auto
  qed
qed

section \<open>Properties\<close>

text \<open>
  The execution order of any plan -- cyclic, with duplicate step IDs or dangling
  dependencies -- holds each of its steps exactly as often as the plan does.
\<close>

theorem topological_order_complete: "mset (topological_order ss) = mset ss"
  by (rule topo.permutes)

text \<open>
  C28: when step IDs are distinct, no step lists a dependency twice and the dependencies have
  no cycle, every dependency that is a step of the plan is executed before the step that
  lists it.
\<close>

theorem topological_order_dependencies_first:
  assumes "schedulable ss" and "topological_order ss = xs @ s # ys" and "t \<in> set ss"
    and "s_id t \<in> set (s_depends_on s)"
  shows "t \<in> set xs"
  using assms by (rule topo.order_split)

definition demo_step :: "string \<Rightarrow> string list \<Rightarrow> plan_step" where
  "demo_step i deps =
     \<lparr>s_id = i, s_name = i, s_description = None,
      s_config = ToolCall \<lparr>tc_tool = ''t'', tc_arguments = []\<rparr>, s_depends_on = deps,
      s_outputs = [], s_timeout_secs = None, s_retry = None\<rparr>"

lemma demo_step_sel [simp]: "s_id (demo_step i deps) = i" "s_depends_on (demo_step i deps) = deps"
  by (simp_all add: demo_step_def)

definition diamond :: "plan_step list" where
  "diamond = [demo_step ''d'' [''b'', ''c''], demo_step ''c'' [''a''], demo_step ''b'' [''a''],
     demo_step ''a'' []]"

lemma diamond_schedulable: "schedulable diamond"
proof -
  have "acyclic (dep_edges diamond)"
    by (rule acyclic_rank [of _ "\<lambda>i. if i = ''a'' then 0 else if i = ''d'' then 2 else 1"])
      (auto simp: dep_edges_def diamond_def)
  then show ?thesis by (simp add: schedulable_def) (simp add: diamond_def)
qed

lemma diamond_order: "topological_order diamond =
    [demo_step ''a'' []] @ demo_step ''b'' [''a''] # [demo_step ''c'' [''a''], demo_step ''d'' [''b'', ''c'']]"
  by code_simp

lemma topological_order_dependencies_first_witness:
  "demo_step ''a'' [] \<in> set [demo_step ''a'' []]"
  by (rule topological_order_dependencies_first [OF diamond_schedulable diamond_order])
    (simp_all add: diamond_def)

text \<open>
  A dependency that is listed twice defeats the order.  The step that lists it is counted
  as waiting for two steps and released by one, so it is taken for part of a cycle and the
  rest is appended alphabetically: \<^verbatim>\<open>a\<close> is scheduled before the
  \<^verbatim>\<open>b\<close> it depends on, although the plan has no cycle.
\<close>

definition repeated_dependency :: "plan_step list" where
  "repeated_dependency = [demo_step ''z'' [], demo_step ''b'' [''z'', ''z''], demo_step ''a'' [''b'']]"

lemma repeated_dependency_misordered:
  "acyclic (dep_edges repeated_dependency) \<and> distinct (map s_id repeated_dependency) \<and>
   map s_id (topological_order repeated_dependency) = [''z'', ''a'', ''b''] \<and>
   \<not> deps_first (topological_order repeated_dependency)"
proof -
  have o: "topological_order repeated_dependency =
      [demo_step ''z'' [], demo_step ''a'' [''b''], demo_step ''b'' [''z'', ''z'']]"
    by code_simp
  have "acyclic (dep_edges repeated_dependency)"
    by (rule acyclic_rank [of _ "\<lambda>i. if i = ''z'' then 0 else if i = ''b'' then 1 else 2"])
      (auto simp: dep_edges_def repeated_dependency_def)
  moreover have "\<not> deps_first (topological_order repeated_dependency)"
  proof
    assume "deps_first (topological_order repeated_dependency)"
    then have "(2 :: nat) < 1"
      unfolding o deps_first_def by (elim allE [of _ 1] impE allE [of _ 2]) simp_all
    then show False by simp
  qed
  ultimately show ?thesis by (simp add: o) (simp add: repeated_dependency_def)
qed

text \<open>
  Ties are not broken level by level.  The queue is sorted again after every step that is
  emitted, so a step that has just become ready overtakes a waiting step of an earlier level.
\<close>

theorem topological_order_mixes_levels:
  "map s_id (topological_order
     [demo_step ''z'' [], demo_step ''a'' [], demo_step ''b'' [''z''], demo_step ''c'' [''a'']])
   = [''a'', ''c'', ''z'', ''b'']"
  by code_simp

text \<open>
  the downstream closure that repair-resume resets is the reflexive transitive closure of
  the dependency edges from the step, and empty for a step the plan does not have.
\<close>

theorem downstream_closure_reach:
  "downstream_closure p i =
     (if i \<in> s_id ` set (p_steps p) then (dep_edges (p_steps p))\<^sup>* `` {i} else {})"
  using plan_find_step_None [of p i]
  by (auto simp: downstream_closure_def downstream_loop_reach)

end
