(* ===== verification/AgentCall.thy ===== *)
theory AgentCall
  imports StepRunners Dag
begin

text \<open>
  \<^verbatim>\<open>executor/step_runners/agent_call.rs\<close>: the command line and the environment an
  agent is started with, the objective it gets, the exchange of lines with it (with questions
  it asks the operator), the retries of a Codex agent, and what is read from its output.

  A running agent is a tree of the lines it prints: after each line the tree goes on with what
  was written to the agent's standard input, if anything.  The compact display of the lines in
  the interface is not modelled.
\<close>

section \<open>Agents\<close>

datatype agent_stream =
    AgentEof
  | AgentReadError string
  | AgentWriteError string
  | AgentFlushError string
  | AgentLine string "string option \<Rightarrow> agent_stream"

datatype agent_exit = AgentExited bool | AgentWaitError string | AgentTimedOut

record agent_process =
  ap_stdout :: agent_stream
  ap_stderr :: "(string + string) list"
  ap_exit :: agent_exit

datatype agent_start = AgentSpawnFailed string string | ObjectiveFailed string | AgentStarted agent_process

record agent_command =
  ag_program :: string
  ag_args :: "string list"
  ag_stdin :: string
  ag_interactive :: bool

text \<open>A change of an environment variable of the child: set, or removed.\<close>

type_synonym env_change = "string \<times> string option"

record 'w agent_env =
  ae_start :: "agent_command \<Rightarrow> env_change list \<Rightarrow> string \<Rightarrow> 64 word \<Rightarrow> ('w, agent_start) effect"
  ae_pretty :: "json \<Rightarrow> string"

text \<open>The transcript kept for audit: what came from and went to the agent, and its errors.\<close>

type_synonym audit = "string \<times> string"

datatype transcript_stream = TStdin | TStdout | TStderr

definition append_audit :: "transcript_stream \<Rightarrow> string \<Rightarrow> audit \<Rightarrow> audit" where
  "append_audit stream content a =
     (case a of (out, err) \<Rightarrow>
       (case stream of
          TStderr \<Rightarrow> (out, err @ content @ newline)
        | TStdin \<Rightarrow> (out @ ''[user] '' @ content @ newline, err)
        | TStdout \<Rightarrow> (out @ content @ newline, err)))"

section \<open>The connection of an agent\<close>

definition agent_profile :: "llm_host \<Rightarrow> llm_profile \<Rightarrow> string + llm_profile" where
  "agent_profile h source =
     (case validate_profile h source of Inl e \<Rightarrow> Inl (show_llm_error h e)
      | Inr u \<Rightarrow>
          (let with_key = (\<lambda>protocol.
             case resolved_key h source of
               Some key \<Rightarrow> if trim key \<noteq> [] then Inr (source\<lparr>lp_protocol := protocol, lp_api_key := key\<rparr>)
                 else Inl ''AGENT_CALL requires the selected API connection's key; configure it in Settings or its API-key environment variable''
             | None \<Rightarrow> Inl ''AGENT_CALL requires the selected API connection's key; configure it in Settings or its API-key environment variable'')
           in case lp_protocol source of
             AnthropicMessages \<Rightarrow> with_key ClaudeCli
           | OpenAiChat \<Rightarrow> with_key CodexCli
           | GoogleVertex \<Rightarrow> Inl ''AGENT_CALL requires Claude, OpenAI, or an agent CLI connection''
           | _ \<Rightarrow> Inr source))"

definition strip_suffix_or :: "string \<Rightarrow> string \<Rightarrow> string" where
  "strip_suffix_or s suffix = (case strip_suffix s suffix of Some t \<Rightarrow> t | None \<Rightarrow> s)"

definition configure_api_auth :: "llm_host \<Rightarrow> llm_profile \<Rightarrow> string + env_change list" where
  "configure_api_auth h source =
     (case agent_profile h source of Inl e \<Rightarrow> Inl e
      | Inr profile \<Rightarrow> Inr (case lp_protocol source of
          AnthropicMessages \<Rightarrow>
            [(''ANTHROPIC_API_KEY'', Some (lp_api_key profile)),
             (''ANTHROPIC_BASE_URL'', Some (strip_suffix_or (trim_end_char (CHR ''/'') (lp_base_url source)) ''/v1'')),
             (''ANTHROPIC_AUTH_TOKEN'', None), (''CLAUDE_CODE_OAUTH_TOKEN'', None),
             (''CLAUDE_CODE_USE_BEDROCK'', None), (''CLAUDE_CODE_USE_VERTEX'', None),
             (''CLAUDE_CODE_USE_FOUNDRY'', None)]
        | OpenAiChat \<Rightarrow> [(''INXM_AGENT_API_KEY'', Some (lp_api_key profile))]
        | _ \<Rightarrow> []))"

section \<open>The objective\<close>

definition follow_one :: "plan_step \<Rightarrow> string set \<times> plan_step list \<Rightarrow> string set \<times> plan_step list" where
  "follow_one s = (\<lambda>(reachable, downstream).
     if s_id s \<in> reachable \<or> \<not> list_ex (\<lambda>dep. dep \<in> reachable) (s_depends_on s) then (reachable, downstream)
     else (insert (s_id s) reachable, downstream @ [s]))"

lemma follow_fold:
  "fold follow_one xs (r, ds) = (r', ds') \<Longrightarrow>
   \<exists>new. ds' = ds @ new \<and> r' = r \<union> s_id ` set new \<and> (\<forall>s \<in> set new. s_id s \<notin> r \<and> s \<in> set xs) \<and>
     fold downstream_one xs (r, c) = (r', c \<or> new \<noteq> [])"
proof (induction xs arbitrary: r ds c)
  case Nil
  then show ?case by simp
next
  case (Cons s xs)
  show ?case
  proof (cases "s_id s \<in> r \<or> \<not> list_ex (\<lambda>dep. dep \<in> r) (s_depends_on s)")
    case True
    then have "follow_one s (r, ds) = (r, ds)" by (simp add: follow_one_def)
    with Cons.prems have "fold follow_one xs (r, ds) = (r', ds')" by simp
    from Cons.IH [OF this, of c] True show ?thesis by (auto simp: downstream_one_def)
  next
    case False
    then have "follow_one s (r, ds) = (insert (s_id s) r, ds @ [s])" by (simp add: follow_one_def)
    with Cons.prems have "fold follow_one xs (insert (s_id s) r, ds @ [s]) = (r', ds')" by simp
    from Cons.IH [OF this, of True] obtain new where
      "ds' = ds @ s # new" "r' = insert (s_id s) r \<union> s_id ` set new"
      "\<forall>t \<in> set new. s_id t \<notin> insert (s_id s) r \<and> t \<in> set xs"
      "fold downstream_one xs (insert (s_id s) r, True) = (r', True)"
      by auto
    moreover have "downstream_one s (r, c) = (insert (s_id s) r, True)"
      using False by (simp add: downstream_one_def)
    ultimately show ?thesis
      using False by (intro exI [of _ "s # new"]) auto
  qed
qed

function follow_loop :: "plan_step list \<Rightarrow> string set \<Rightarrow> plan_step list \<Rightarrow> plan_step list" where
  "follow_loop ss reachable downstream =
     (case fold follow_one ss (reachable, downstream) of
        (reachable', downstream') \<Rightarrow>
          if length downstream' = length downstream then downstream'
          else follow_loop ss reachable' downstream')"
  by pat_completeness auto
termination
proof (relation "measure (\<lambda>(ss, r, ds). card (s_id ` set ss - r))", goal_cases)
  case 1
  show ?case by simp
next
  case (2 ss r ds r' ds')
  then have "fold follow_one ss (r, ds) = (r', ds')" by simp
  from follow_fold [OF this] obtain new where new: "ds' = ds @ new" "r' = r \<union> s_id ` set new"
    "\<forall>s \<in> set new. s_id s \<notin> r \<and> s \<in> set ss"
    by blast
  with 2 obtain s where "s \<in> set new" by (cases new) auto
  with new have "s_id ` set ss - r' \<subset> s_id ` set ss - r" by blast
  then show ?case by (simp add: psubset_card_mono)
qed

declare follow_loop.simps [simp del]

definition workflow_follow_up :: "plan \<Rightarrow> string \<Rightarrow> plan_step list" where
  "workflow_follow_up p step_id = follow_loop (p_steps p) {step_id} []"

definition ellipsis :: string where
  "ellipsis = [CHR 0xE2, CHR 0x80, CHR 0xA6]"

definition objective_with_workflow_context :: "plan \<Rightarrow> string \<Rightarrow> string \<Rightarrow> string" where
  "objective_with_workflow_context p step_id objective =
     (let downstream = workflow_follow_up p step_id
      in if downstream = [] then objective
         else
           (let follow_up = join newline (map (\<lambda>s. fmt ''- {} ({})'' [s_name s, show_step_type (step_type_of s)]) (take 8 downstream));
                remaining = length downstream - 8;
                more = (if remaining > 0 then fmt ''{}- {}and {} more workflow step(s)'' [newline, ellipsis, nat_str remaining] else [])
            in objective @ newline @ newline @
              ''Workflow context: after you return, the plan owns these possible follow-up steps (branching may skip some):'' @ newline @
              follow_up @ more @ newline @
              ''Do not run or retry commands owned by those follow-up steps, and do not ask the operator to run them. Complete only your editing task, then return a concise summary; the downstream steps determine verification success.''))"

section \<open>The command line\<close>

definition custom_command :: "llm_host \<Rightarrow> string \<Rightarrow> string \<Rightarrow> string + agent_command" where
  "custom_command h tmpl objective =
     (let tmpl = trim tmpl
      in if tmpl = [] then Inl ''custom agent CLI command must not be empty''
         else
           (let has_placeholder = str_contains tmpl CUSTOM_CLI_PROMPT_PLACEHOLDER;
                rendered = replace_all CUSTOM_CLI_PROMPT_PLACEHOLDER objective tmpl
            in case lh_shlex h rendered of
              None \<Rightarrow> Inl ''could not parse custom agent CLI command''
            | Some [] \<Rightarrow> Inl ''custom agent CLI command must not be empty''
            | Some (program # parts) \<Rightarrow> Inr \<lparr>ag_program = program, ag_args = parts,
                ag_stdin = (if has_placeholder then [] else objective), ag_interactive = False\<rparr>))"

definition model_args :: "llm_profile \<Rightarrow> string list" where
  "model_args p = (if trim (lp_model p) = [] then [] else [''--model'', trim (lp_model p)])"

definition codex_provider_args :: "host \<Rightarrow> llm_profile \<Rightarrow> string list" where
  "codex_provider_args h p =
     (if lp_base_url p = [] then []
      else concat (map (\<lambda>v. [''-c'', v])
        [''model_provider=\"inxm_api\"'',
         ''model_providers.inxm_api.name=\"INXM OpenAI API\"'',
         ''model_providers.inxm_api.base_url='' @ render h (JString (lp_base_url p)),
         ''model_providers.inxm_api.env_key=\"INXM_AGENT_API_KEY\"'',
         ''model_providers.inxm_api.requires_openai_auth=false'',
         ''model_providers.inxm_api.wire_api=\"responses\"'']))"

definition agent_command_for :: "llm_host \<Rightarrow> llm_profile \<Rightarrow> string \<Rightarrow> string + agent_command" where
  "agent_command_for h p objective =
     (case lp_protocol p of
        CodexCli \<Rightarrow> Inr \<lparr>ag_program = executable_or p ''codex'',
          ag_args = [''exec'', ''--ephemeral'', ''--sandbox'',
              initial_codex_sandbox_arg (lp_codex_sandbox_mode p) ''workspace-write'',
              ''--skip-git-repo-check'', ''--json''] @ model_args p @ codex_provider_args (lh_host h) p @ [''-''],
          ag_stdin = objective, ag_interactive = False\<rparr>
      | ClaudeCli \<Rightarrow> Inr \<lparr>ag_program = executable_or p ''claude'',
          ag_args = [''-p'', ''--verbose'', ''--input-format'', ''stream-json'', ''--output-format'', ''stream-json'',
              ''--brief'', ''--dangerously-skip-permissions''] @ model_args p,
          ag_stdin = render (lh_host h) (JObject (obj_of [(''type'', JString ''user''),
              (''message'', chat_message ''user'' objective)])) @ newline,
          ag_interactive = True\<rparr>
      | CustomCli \<Rightarrow> custom_command h (lp_command_template p) objective
      | _ \<Rightarrow> Inl ''AGENT_CALL is unavailable for completion-only API connections'')"

section \<open>Talking to the agent\<close>

definition is_terminal_result :: "llm_host \<Rightarrow> llm_protocol \<Rightarrow> string \<Rightarrow> bool" where
  "is_terminal_result h protocol line \<longleftrightarrow> protocol = ClaudeCli \<and>
     (case parse_json (lh_host h) line of None \<Rightarrow> False | Some v \<Rightarrow> is_str (idx v ''type'') ''result'')"

lemma find_map_cong [fundef_cong]:
  "xs = ys \<Longrightarrow> (\<And>x. x \<in> set ys \<Longrightarrow> f x = g x) \<Longrightarrow> find_map f xs = find_map g ys"
  by (induction xs arbitrary: ys) (auto split: option.split)

text \<open>A question to the operator somewhere in a line: its identifier, if any, and the prompt.\<close>

fun visit_elicitation :: "json \<Rightarrow> (string option \<times> string) option" where
  "visit_elicitation (JArray vs) = find_map visit_elicitation vs"
| "visit_elicitation (JObject kvs) =
     (let object = JObject kvs;
          kind = str_or (idx object ''type'') [];
          name = str_or (idx object ''name'') []
      in if kind \<in> {''elicitation'', ''input_required''} \<or> name = ''SendUserMessage'' then
           (let input = (case json_get object ''input'' of Some i \<Rightarrow> i | None \<Rightarrow> object);
                ident = (case json_get object ''id'' of Some i \<Rightarrow> Some i | None \<Rightarrow> json_get object ''request_id'')
            in map_option (\<lambda>prompt. (Option.bind ident as_str, prompt))
                 (find_map (\<lambda>k. Option.bind (json_get input k) as_str) [''prompt'', ''question'', ''message'']))
         else find_map (\<lambda>(k, v). visit_elicitation v) kvs)"
| "visit_elicitation _ = None"

definition elicitation :: "llm_host \<Rightarrow> string \<Rightarrow> (string option \<times> string) option" where
  "elicitation h line = Option.bind (parse_json (lh_host h) line) visit_elicitation"

definition agent_reply_message :: "host \<Rightarrow> string option \<Rightarrow> string \<Rightarrow> string" where
  "agent_reply_message h request_id reply =
     render h (JObject (obj_of [(''type'', JString ''user''),
       (''request_id'', case request_id of Some i \<Rightarrow> JString i | None \<Rightarrow> JNull),
       (''message'', chat_message ''user'' reply)])) @ newline"

text \<open>The operator's answer to a question of the agent.\<close>

definition ask_for_agent :: "'w runner_env \<Rightarrow> step_context \<Rightarrow> string \<Rightarrow> ('w, executor_error + string) effect" where
  "ask_for_agent env cx prompt w =
     (case re_human env of
        None \<Rightarrow> (w, Inl (step_failed cx ''agent requested input but no interactive UI is connected''))
      | Some ask \<Rightarrow>
          (case ask \<lparr>hr_step_id = s_id (cx_step cx), hr_prompt = prompt, hr_approval_required = False,
              hr_response_field = ''agent_reply''\<rparr> w of
             (w', ChannelClosed) \<Rightarrow> (w', Inl (step_failed cx ''interactive UI disconnected''))
           | (w', Dropped) \<Rightarrow> (w', Inl (step_failed cx ''agent elicitation was dismissed''))
           | (w', Decided (DecisionText v)) \<Rightarrow> (w', Inr v)
           | (w', Decided Approve) \<Rightarrow> (w', Inr ''approved'')
           | (w', Decided Reject) \<Rightarrow> (w', Inr ''rejected'')))"

text \<open>
  The reader of the agent's output.  Its state is the text read so far, the audit and whether
  the agent's input is still open; it returns the text, or the failure that ended it.
\<close>

primrec capture_stdout ::
    "agent_stream \<Rightarrow> 'w runner_env \<Rightarrow> step_context \<Rightarrow> llm_protocol \<Rightarrow> bool \<Rightarrow> string \<Rightarrow> audit \<Rightarrow> 'w \<Rightarrow>
     'w \<times> audit \<times> (executor_error + string)" where
  "capture_stdout AgentEof env cx protocol open raw a w = (w, a, Inr raw)"
| "capture_stdout (AgentReadError e) env cx protocol open raw a w =
     (w, a, Inl (step_failed cx (fmt ''agent transcript read failed: {}'' [e])))"
| "capture_stdout (AgentWriteError e) env cx protocol open raw a w =
     (w, a, Inl (step_failed cx (fmt ''failed to reply to agent: {}'' [e])))"
| "capture_stdout (AgentFlushError e) env cx protocol open raw a w =
     (w, a, Inl (step_failed cx (fmt ''failed to flush agent reply: {}'' [e])))"
| "capture_stdout (AgentLine line continue) env cx protocol open raw a w =
     (let raw = raw @ line @ newline;
          a = append_audit TStdout line a;
          open = (open \<and> \<not> is_terminal_result (re_llm env) protocol line)
      in case elicitation (re_llm env) line of
        None \<Rightarrow> capture_stdout (continue None) env cx protocol open raw a w
      | Some (request_id, prompt) \<Rightarrow>
          (case ask_for_agent env cx prompt w of
             (w', Inl e) \<Rightarrow> (w', a, Inl e)
           | (w', Inr reply) \<Rightarrow>
               (let a = append_audit TStdin reply a
                in if open then
                     capture_stdout (continue (Some (agent_reply_message (re_host env) request_id reply)))
                       env cx protocol open raw a w'
                   else (w', a, Inl (step_failed cx ''agent CLI does not support mid-turn input'')))))"

fun capture_stderr ::
    "step_context \<Rightarrow> (string + string) list \<Rightarrow> string \<Rightarrow> audit \<Rightarrow> audit \<times> (executor_error + string)" where
  "capture_stderr cx [] raw a = (a, Inr raw)"
| "capture_stderr cx (Inl e # rest) raw a =
     (a, Inl (step_failed cx (fmt ''agent transcript read failed: {}'' [e])))"
| "capture_stderr cx (Inr line # rest) raw a =
     capture_stderr cx rest (raw @ line @ newline) (append_audit TStderr line a)"

record process_output =
  pr_success :: bool
  pr_stdout :: string
  pr_stderr :: string

definition run_process ::
    "'w runner_env \<Rightarrow> 'w agent_env \<Rightarrow> step_context \<Rightarrow> llm_protocol \<Rightarrow> agent_command \<Rightarrow> string \<Rightarrow> 64 word \<Rightarrow>
     audit \<Rightarrow> 'w \<Rightarrow> 'w \<times> audit \<times> (executor_error + process_output)" where
  "run_process env ae cx protocol cmd workspace timeout a w =
     (case (case re_profile env of None \<Rightarrow> Inr [] | Some p \<Rightarrow> configure_api_auth (re_llm env) p) of
        Inl m \<Rightarrow> (w, a, Inl (step_failed cx m))
      | Inr changes \<Rightarrow>
     (case ae_start ae cmd changes workspace timeout w of
        (w1, AgentSpawnFailed program e) \<Rightarrow> (w1, a, Inl (step_failed cx
          (fmt ''failed to start agent CLI '{}': {}. Install the required CLI under Settings > Compiler > Experimental execution, or configure its executable path''
            [program, e])))
      | (w1, ObjectiveFailed e) \<Rightarrow> (w1, a, Inl (step_failed cx (fmt ''failed to send agent objective: {}'' [e])))
      | (w1, AgentStarted pr) \<Rightarrow>
     (case capture_stdout (ap_stdout pr) env cx protocol (ag_interactive cmd) [] a w1 of
        (w2, a1, out) \<Rightarrow>
     (case capture_stderr cx (ap_stderr pr) [] a1 of
        (a2, err) \<Rightarrow>
          (w2, a2, case ap_exit pr of
             AgentWaitError e \<Rightarrow> Inl (step_failed cx (fmt ''agent process error: {}'' [e]))
           | AgentTimedOut \<Rightarrow> Inl (step_failed cx (fmt ''agent timed out after {}s'' [nat_str (unat timeout)]))
           | AgentExited success \<Rightarrow>
               (case out of Inl e \<Rightarrow> Inl e
                | Inr out \<Rightarrow> (case err of Inl e \<Rightarrow> Inl e
                    | Inr err \<Rightarrow> Inr \<lparr>pr_success = success, pr_stdout = out, pr_stderr = err\<rparr>)))))))"

section \<open>Reading the agent's output\<close>

text \<open>\<^verbatim>\<open>Value::pointer\<close> with its tokens; the only array index used is 0.\<close>

fun pointer :: "json \<Rightarrow> string list \<Rightarrow> json option" where
  "pointer v [] = Some v"
| "pointer v (t # ts) =
     (case v of
        JObject kvs \<Rightarrow> (case map_of kvs t of Some x \<Rightarrow> pointer x ts | None \<Rightarrow> None)
      | JArray (x # xs) \<Rightarrow> if t = ''0'' then pointer x ts else None
      | _ \<Rightarrow> None)"

definition json_text :: "json \<Rightarrow> string option" where
  "json_text v = (case v of
     JString text \<Rightarrow> Some text
   | JArray items \<Rightarrow>
       (let parts = List.map_filter (\<lambda>item. or_else (as_str item) (as_str (idx item ''text''))) items
        in if parts = [] then None else Some (join newline parts))
   | _ \<Rightarrow> None)"

definition RESULT_POINTERS :: "string list list" where
  "RESULT_POINTERS = [[''result''], [''final''], [''output''], [''text''], [''message'', ''content''], [''message''],
     [''choices'', ''0'', ''message'', ''content''], [''choices'', ''0'', ''text''], [''data'', ''result'']]"

definition generic_result :: "json \<Rightarrow> string option" where
  "generic_result v = find_map (\<lambda>ptr. Option.bind (pointer v ptr) json_text) RESULT_POINTERS"

definition answer_of_event :: "llm_protocol \<Rightarrow> json \<Rightarrow> string option \<Rightarrow> string option" where
  "answer_of_event protocol v answer =
     (case protocol of
        CodexCli \<Rightarrow> if is_str (idx v ''type'') ''item.completed'' \<and> is_str (idx (idx v ''item'') ''type'') ''agent_message''
          then as_str (idx (idx v ''item'') ''text'') else answer
      | ClaudeCli \<Rightarrow> if is_str (idx v ''type'') ''result'' then as_str (idx v ''result'') else answer
      | CustomCli \<Rightarrow> or_else (generic_result v) answer
      | _ \<Rightarrow> answer)"

definition final_answer :: "llm_host \<Rightarrow> (json \<Rightarrow> string) \<Rightarrow> llm_protocol \<Rightarrow> string \<Rightarrow> string option" where
  "final_answer h pretty protocol raw =
     (case (if protocol = CustomCli then parse_json (lh_host h) (trim raw) else None) of
        Some v \<Rightarrow> or_else (generic_result v) (Some (pretty v))
      | None \<Rightarrow> fold (\<lambda>line answer. case parse_json (lh_host h) line of
            None \<Rightarrow> answer | Some v \<Rightarrow> answer_of_event protocol v answer) (text_lines raw) None)"

definition sat_add :: "64 word \<Rightarrow> 64 word \<Rightarrow> 64 word" where
  "sat_add a b = (if unat a + unat b < 2 ^ 64 then a + b else - 1)"

definition number_field :: "json \<Rightarrow> string list \<Rightarrow> 64 word option" where
  "number_field v names = find_map (\<lambda>name. Option.bind (json_get v name) u64_of) names"

definition parse_usage_object :: "llm_protocol \<Rightarrow> json \<Rightarrow> token_usage option" where
  "parse_usage_object protocol usage =
     (let direct = number_field usage [''input_tokens'', ''prompt_tokens'', ''inputTokens'', ''promptTokenCount''];
          output = number_field usage [''output_tokens'', ''completion_tokens'', ''outputTokens'', ''candidatesTokenCount'']
      in if direct = None \<and> output = None then None
         else
           (let input = or_zero direct;
                input = (if protocol = ClaudeCli then
                    sat_add (sat_add input
                      (or_zero (number_field usage [''cache_creation_input_tokens'', ''cacheCreationInputTokens''])))
                      (or_zero (number_field usage [''cache_read_input_tokens'', ''cacheReadInputTokens'']))
                  else input)
            in Some \<lparr>tu_input_tokens = input, tu_output_tokens = or_zero output\<rparr>))"

definition model_usage_total :: "llm_protocol \<Rightarrow> (string \<times> json) list \<Rightarrow> token_usage option" where
  "model_usage_total protocol models =
     (case List.map_filter (\<lambda>(k, m). parse_usage_object protocol m) models of
        [] \<Rightarrow> None
      | us \<Rightarrow> Some (fold (\<lambda>u t. token_usage_add t u) us \<lparr>tu_input_tokens = 0, tu_output_tokens = 0\<rparr>))"

definition token_usage_from_value :: "llm_protocol \<Rightarrow> json \<Rightarrow> token_usage option" where
  "token_usage_from_value protocol v =
     (case Option.bind
         (or_else (json_get v ''usage'') (or_else (pointer v [''response'', ''usage'']) (pointer v [''data'', ''usage''])))
         (parse_usage_object protocol) of
        Some parsed \<Rightarrow> Some parsed
      | None \<Rightarrow>
          if protocol = ClaudeCli then
            Option.bind (Option.bind (or_else (json_get v ''modelUsage'') (json_get v ''model_usage'')) as_object)
              (model_usage_total protocol)
          else None)"

definition agent_token_usage :: "host \<Rightarrow> llm_protocol \<Rightarrow> string \<Rightarrow> token_usage option" where
  "agent_token_usage h protocol raw =
     fold (\<lambda>line usage. case Option.bind (parse_json h line) (token_usage_from_value protocol) of
         Some u \<Rightarrow> Some u | None \<Rightarrow> usage) (text_lines raw)
       (Option.bind (parse_json h (trim raw)) (token_usage_from_value protocol))"

definition declared_outputs :: "step_context \<Rightarrow> string \<Rightarrow> named_outputs" where
  "declared_outputs cx answer = im_extend [] (map (\<lambda>o'. (po_name o', JString answer)) (s_outputs (cx_step cx)))"

section \<open>The runner\<close>

definition DEFAULT_AGENT_TIMEOUT_SECS :: "64 word" where
  "DEFAULT_AGENT_TIMEOUT_SECS = 900"

definition SANDBOX_RETRY_NOTE :: string where
  "SANDBOX_RETRY_NOTE = ''Codex's own sandbox failed to initialize on this host; retrying with --sandbox danger-full-access (this app's workspace and process containment still apply).''"

text \<open>The three possible runs of an agent, as in \<open>codex_ladder\<close>.\<close>

type_synonym ('w, 'a) audited = "audit \<Rightarrow> 'w \<Rightarrow> 'w \<times> audit \<times> (executor_error + 'a)"

definition then_run :: "('w, 'a) audited \<Rightarrow> ('a \<Rightarrow> ('w, 'b) audited) \<Rightarrow> ('w, 'b) audited" where
  "then_run m f a w = (case m a w of (w', a', Inl e) \<Rightarrow> (w', a', Inl e) | (w', a', Inr x) \<Rightarrow> f x a' w')"

definition return_run :: "executor_error + 'a \<Rightarrow> ('w, 'a) audited" where
  "return_run x a w = (w, a, x)"

definition agent_runs ::
    "(agent_command \<Rightarrow> ('w, process_output) audited) \<Rightarrow> step_context \<Rightarrow> target_os \<Rightarrow> llm_profile \<Rightarrow> agent_command \<Rightarrow>
     ('w, process_output) audited" where
  "agent_runs start cx os p cmd =
     (let codex = (lp_protocol p = CodexCli);
          without_ephemeral = cmd\<lparr>ag_args := filter (\<lambda>x. x \<noteq> ''--ephemeral'') (ag_args cmd)\<rparr>;
          unsandboxed = (\<lambda>cmd out.
            if \<not> pr_success out \<and> codex \<and> sandbox_init_failed (pr_stdout out) (pr_stderr out) then
              (case lp_codex_sandbox_mode p of
                 SandboxAuto \<Rightarrow> (\<lambda>a. start (cmd\<lparr>ag_args := replace_sandbox_arg (ag_args cmd) ''danger-full-access''\<rparr>)
                     (append_audit TStderr SANDBOX_RETRY_NOTE a))
               | Strict \<Rightarrow> return_run (Inl (step_failed cx
                   (fmt ''Codex's sandbox failed to initialize.{}'' [sandbox_remediation_hint os])))
               | Unsandboxed \<Rightarrow> return_run (Inr out))
            else return_run (Inr out))
      in then_run (start cmd) (\<lambda>out.
           if \<not> pr_success out \<and> codex \<and> rejects_flag (pr_stdout out) (pr_stderr out) ''--ephemeral'' then
             then_run (start without_ephemeral) (unsandboxed without_ephemeral)
           else unsandboxed cmd out))"

definition agent_result :: "'w runner_env \<Rightarrow> 'w agent_env \<Rightarrow> step_context \<Rightarrow> llm_profile \<Rightarrow> process_output \<Rightarrow> audit \<Rightarrow>
    executor_error + step_result" where
  "agent_result env ae cx p out a =
     (if \<not> pr_success out then
        Inl (step_failed cx (fmt ''agent CLI exited unsuccessfully: {}''
          [if trim (pr_stderr out) = [] then trim (pr_stdout out) else trim (pr_stderr out)]))
      else
        (let answer = (case final_answer (re_llm env) (ae_pretty ae) (lp_protocol p) (pr_stdout out) of
             Some t \<Rightarrow> t | None \<Rightarrow> trim (pr_stdout out))
         in Inr \<lparr>res_outputs = declared_outputs cx answer, res_stdout = Some (fst a),
              res_stderr = non_empty (snd a),
              res_usage = agent_token_usage (re_host env) (lp_protocol p) (pr_stdout out), res_child_runs = []\<rparr>))"

definition run_agent_call :: "'w runner_env \<Rightarrow> 'w agent_env \<Rightarrow> step_context \<Rightarrow> ('w, step_result) audited" where
  "run_agent_call env ae cx a w =
     (case s_config (cx_step cx) of
        AgentCall c \<Rightarrow>
          if trim (ac_working_dir c) = [] then
            (w, a, Inl (step_failed cx ''agent working directory must reference the run workspace''))
          else
            (let objective = str_or (cx_resolve env cx (JString (ac_objective c))) []
             in case working_directory env cx (Some (ac_working_dir c)) w of
               (w1, Inl e) \<Rightarrow> (w1, a, Inl e)
             | (w1, Inr workspace) \<Rightarrow>
            (case re_profile_error env of
               Some e \<Rightarrow> (w1, a, Inl (step_failed cx (fmt ''invalid LLM settings: {}'' [e])))
             | None \<Rightarrow>
            (case re_profile env of
               None \<Rightarrow> (w1, a, Inl (step_failed cx ''AGENT_CALL requires an active Claude/OpenAI API, Codex, Claude Code, or agent-shaped custom CLI connection''))
             | Some source \<Rightarrow>
            (case (case agent_profile (re_llm env) source of Inl m \<Rightarrow> Inl m
                 | Inr profile \<Rightarrow> (case agent_command_for (re_llm env) profile
                     (objective_with_workflow_context (cx_plan cx) (s_id (cx_step cx)) objective) of
                       Inl m \<Rightarrow> Inl m | Inr cmd \<Rightarrow> Inr (profile, cmd))) of
               Inl m \<Rightarrow> (w1, a, Inl (step_failed cx m))
             | Inr (profile, cmd) \<Rightarrow>
                 (let timeout = (case or_else (ac_timeout_secs c) (cx_timeout_secs cx) of
                        Some t \<Rightarrow> t | None \<Rightarrow> DEFAULT_AGENT_TIMEOUT_SECS);
                      start = (\<lambda>cmd. run_process env ae cx (lp_protocol profile) cmd workspace timeout)
                  in case agent_runs start cx (lh_os (re_llm env)) profile cmd a w1 of
                    (w2, a2, Inl e) \<Rightarrow> (w2, a2, Inl e)
                  | (w2, a2, Inr out) \<Rightarrow> (w2, a2, agent_result env ae cx profile out a2))))))
      | _ \<Rightarrow> (w, a, Inl (step_failed cx ''agent_call runner called for non-AGENT_CALL step'')))"

section \<open>Laws\<close>

lemma follow_loop_ids:
  "r = insert i (s_id ` set ds) \<Longrightarrow> i \<notin> s_id ` set ds \<Longrightarrow>
   insert i (s_id ` set (follow_loop ss r ds)) = downstream_loop ss r \<and> i \<notin> s_id ` set (follow_loop ss r ds)"
proof (induction ss r ds rule: follow_loop.induct)
  case (1 ss r ds)
  obtain r' ds' where f: "fold follow_one ss (r, ds) = (r', ds')" by (cases "fold follow_one ss (r, ds)")
  from follow_fold [OF f, of False] obtain new where new: "ds' = ds @ new" "r' = r \<union> s_id ` set new"
    "\<forall>s \<in> set new. s_id s \<notin> r \<and> s \<in> set ss" "downstream_pass ss r = (r', new \<noteq> [])"
    by (auto simp: downstream_pass_def)
  have inv: "r' = insert i (s_id ` set ds')" "i \<notin> s_id ` set ds'" using "1.prems" new by auto
  have unfold_once: "follow_loop ss r ds = (if length ds' = length ds then ds' else follow_loop ss r' ds')"
    "downstream_loop ss r = (if new \<noteq> [] then downstream_loop ss r' else r')"
    by (subst follow_loop.simps, simp only: f prod.case) (subst downstream_loop.simps, simp only: new prod.case)
  show ?case
  proof (cases "new = []")
    case True
    then show ?thesis using inv new(1) unfolding unfold_once by simp
  next
    case False
    then have "length ds' \<noteq> length ds" using new by simp
    from "1.IH" [OF f [symmetric] this inv] False this show ?thesis unfolding unfold_once by simp
  qed
qed

text \<open>One line of the standard output transcript.\<close>

definition transcript_line :: "transcript_stream \<times> string \<Rightarrow> string" where
  "transcript_line e = (case e of (stream, line) \<Rightarrow>
     (if stream = TStdin then ''[user] '' else []) @ line @ newline)"

definition printed :: "(transcript_stream \<times> string) list \<Rightarrow> string" where
  "printed ts = concat (map (\<lambda>(stream, line). if stream = TStdin then [] else line @ newline) ts)"

lemma append_audit_transcript:
  "stream \<noteq> TStderr \<Longrightarrow> append_audit stream line a = (fst a @ transcript_line (stream, line), snd a)"
  by (cases a; cases stream) (auto simp: append_audit_def transcript_line_def)

lemma capture_stdout_transcript:
  "capture_stdout s env cx protocol open raw a w = (w', a', r) \<Longrightarrow>
   \<exists>ts. TStderr \<notin> fst ` set ts \<and> a' = (fst a @ concat (map transcript_line ts), snd a) \<and>
     (\<forall>out. r = Inr out \<longrightarrow> out = raw @ printed ts)"
proof (induction s arbitrary: "open" raw a w)
  case (AgentLine line continue)
  define raw1 a1 open1 where "raw1 = raw @ line @ newline" and "a1 = append_audit TStdout line a"
    and "open1 = (open \<and> \<not> is_terminal_result (re_llm env) protocol line)"
  have a1: "a1 = (fst a @ transcript_line (TStdout, line), snd a)"
    by (simp add: a1_def append_audit_transcript)
  show ?case
  proof (cases "elicitation (re_llm env) line")
    case None
    with AgentLine.prems have "capture_stdout (continue None) env cx protocol open1 raw1 a1 w = (w', a', r)"
      by (simp add: Let_def raw1_def a1_def open1_def)
    from AgentLine.IH [OF _ this] obtain ts where "TStderr \<notin> fst ` set ts"
      "a' = (fst a1 @ concat (map transcript_line ts), snd a1)" "\<forall>out. r = Inr out \<longrightarrow> out = raw1 @ printed ts"
      by blast
    then show ?thesis
      by (intro exI [of _ "(TStdout, line) # ts"]) (auto simp: a1 raw1_def printed_def)
  next
    case (Some q)
    obtain request_id prompt where q: "q = (request_id, prompt)" by (cases q)
    obtain w1 reply where ask: "ask_for_agent env cx prompt w = (w1, reply)" by (cases "ask_for_agent env cx prompt w")
    show ?thesis
    proof (cases reply)
      case (Inl e)
      with AgentLine.prems Some q ask have "a' = a1" "r = Inl e"
        by (auto simp: Let_def a1_def)
      then show ?thesis by (intro exI [of _ "[(TStdout, line)]"]) (auto simp: a1)
    next
      case (Inr answer)
      define a2 where "a2 = append_audit TStdin answer a1"
      have a2: "a2 = (fst a @ transcript_line (TStdout, line) @ transcript_line (TStdin, answer), snd a)"
        by (simp add: a2_def append_audit_transcript a1)
      show ?thesis
      proof (cases open1)
        case True
        let ?m = "agent_reply_message (re_host env) request_id answer"
        have "capture_stdout (continue (Some ?m)) env cx protocol open1 raw1 a2 w1 = (w', a', r)"
          using AgentLine.prems Some q ask Inr True by (simp add: Let_def raw1_def a1_def a2_def open1_def)
        from AgentLine.IH [OF _ this] obtain ts where "TStderr \<notin> fst ` set ts"
          "a' = (fst a2 @ concat (map transcript_line ts), snd a2)" "\<forall>out. r = Inr out \<longrightarrow> out = raw1 @ printed ts"
          by blast
        then show ?thesis
          by (intro exI [of _ "(TStdout, line) # (TStdin, answer) # ts"]) (auto simp: a2 raw1_def printed_def)
      next
        case False
        with AgentLine.prems Some q ask Inr have "a' = a2" "\<exists>e. r = Inl e"
          by (auto simp: Let_def raw1_def a1_def a2_def open1_def)
        then show ?thesis by (intro exI [of _ "[(TStdout, line), (TStdin, answer)]"]) (auto simp: a2)
      qed
    qed
  qed
qed (auto intro: exI [of _ "[]"] simp: printed_def)

section \<open>Properties\<close>

text \<open>
  The follow-up steps an agent is told about are exactly the steps downstream of its own,
  the ones a repair of it would reset.
\<close>

theorem workflow_context_is_downstream:
  assumes "plan_find_step p i \<noteq> None"
  shows "s_id ` set (workflow_follow_up p i) = downstream_closure p i - {i}"
  using follow_loop_ids [of "{i}" i "[]" "p_steps p"] assms
  by (auto simp: workflow_follow_up_def downstream_closure_def)

lemma workflow_context_is_downstream_witness:
  "s_id ` set (workflow_follow_up \<lparr>p_metadata = metadata_new ''id'' 0 None, p_name = ''p'', p_description = None,
     p_inputs = [], p_config = [], p_steps = diamond, p_outputs = []\<rparr> ''a'') =
   downstream_closure \<lparr>p_metadata = metadata_new ''id'' 0 None, p_name = ''p'', p_description = None,
     p_inputs = [], p_config = [], p_steps = diamond, p_outputs = []\<rparr> ''a'' - {''a''}"
  by (rule workflow_context_is_downstream) code_simp

text \<open>
  The transcript of an agent is complete.  Whatever ends the exchange, the audit has grown
  by the lines read and the replies written, in order, and nothing else; when the exchange ends
  normally the agent's output is exactly the lines among them that are not replies.
\<close>

theorem agent_transcript_complete:
  "\<exists>ts. TStderr \<notin> fst ` set ts \<and>
     fst (snd (capture_stdout s env cx protocol open [] a w)) = (fst a @ concat (map transcript_line ts), snd a) \<and>
     snd (snd (capture_stdout s env cx protocol open [] a w)) \<in> {Inr (printed ts)} \<union> range Inl"
proof -
  obtain w' a' r where c: "capture_stdout s env cx protocol open [] a w = (w', a', r)"
    by (metis surj_pair)
  from capture_stdout_transcript [OF c] show ?thesis
    by (cases r) (auto simp: c)
qed

end
