(* ===== verification/DependsOn.thy ===== *)
theory DependsOn
  imports PlanSteps
begin

text \<open>
  The two graph walks the validator shares between its passes: whether a step depends on
  another (\<^verbatim>\<open>depends_transitively\<close> of \<^verbatim>\<open>validator/mod.rs\<close>) and which steps
  a CONDITION can skip (\<^verbatim>\<open>condition_routed_step_ids\<close> of
  \<^verbatim>\<open>validator/tool_binding.rs\<close>).  Both pop from the end of a vector; here the head of
  the list is the top of the stack.
\<close>

section \<open>Transitive dependencies\<close>

definition deps_of :: "plan \<Rightarrow> string \<Rightarrow> string list" where
  "deps_of p i = (case plan_find_step p i of None \<Rightarrow> [] | Some s \<Rightarrow> s_depends_on s)"

lemma finite_step_keyed:
  assumes "\<And>i. plan_find_step p i = None \<Longrightarrow> f i = []"
  shows "finite {i. f i \<noteq> []}"
proof (rule finite_subset)
  show "{i. f i \<noteq> []} \<subseteq> s_id ` set (p_steps p)"
    using assms plan_find_step_None [of p] by blast
qed simp

interpretation dep_graph: successor_graph "deps_of p" for p
  by unfold_locales (rule finite_step_keyed [of p], simp add: deps_of_def)

text \<open>The inner loop: stop at the target, push every other dependency.\<close>

fun push_deps :: "string \<Rightarrow> string list \<Rightarrow> string list \<Rightarrow> string list option" where
  "push_deps target [] queue = Some queue"
| "push_deps target (dep # deps) queue =
     (if dep = target then None else push_deps target deps (dep # queue))"

lemma push_deps_eq: "push_deps target deps queue =
    (if target \<in> set deps then None else Some (rev deps @ queue))"
  by (induction deps arbitrary: queue) auto

function depends_loop :: "plan \<Rightarrow> string \<Rightarrow> string set \<Rightarrow> string list \<Rightarrow> bool" where
  "depends_loop p target seen [] = False"
| "depends_loop p target seen (i # queue) =
     (if i \<in> seen then depends_loop p target seen queue
      else (case push_deps target (deps_of p i) queue of
              None \<Rightarrow> True
            | Some queue' \<Rightarrow> depends_loop p target (insert i seen) queue'))"
  by pat_completeness auto
termination
proof (relation "measures [\<lambda>(p, t, seen, q). card ({x. deps_of p x \<noteq> []} - seen), \<lambda>(p, t, seen, q). length q]",
    goal_cases)
  case (3 p target seen i queue queue')
  then show ?case
    using dep_graph.walk_measure [of i seen p queue] by (auto simp: push_deps_eq split: if_splits)
qed simp_all

definition depends_transitively :: "plan \<Rightarrow> string \<Rightarrow> string \<Rightarrow> bool" where
  "depends_transitively p frm target = depends_loop p target {} [frm]"

interpretation dep: goal_walk "deps_of p" "\<lambda>i. target \<in> set (deps_of p i)" "depends_loop p target"
  for p target
  by unfold_locales (auto simp: push_deps_eq)

lemma depends_transitively_iff:
  "depends_transitively p i target \<longleftrightarrow> (i, target) \<in> (succ_edges (deps_of p))\<^sup>+"
proof -
  have "depends_transitively p i target \<longleftrightarrow>
      (\<exists>x. (i, x) \<in> (succ_edges (deps_of p))\<^sup>* \<and> (x, target) \<in> succ_edges (deps_of p))"
    by (auto simp: depends_transitively_def dep.search_reach simp del: depends_loop.simps)
  also have "\<dots> \<longleftrightarrow> (i, target) \<in> (succ_edges (deps_of p))\<^sup>+"
    by (meson r_into_trancl rtrancl_into_trancl1 tranclD2)
  finally show ?thesis .
qed

section \<open>Steps a condition can skip\<close>

definition branch_targets :: "plan \<Rightarrow> string list" where
  "branch_targets p = concat (map (\<lambda>s. case s_config s of
       Condition c \<Rightarrow> cd_true_steps c @ cd_false_steps c | _ \<Rightarrow> []) (p_steps p))"

definition routed_next :: "plan \<Rightarrow> string \<Rightarrow> string list" where
  "routed_next p i = spawned p i @ map s_id (filter (\<lambda>s. i \<in> set (s_depends_on s)) (p_steps p))"

lemma finite_routed_next: "finite {i. routed_next p i \<noteq> []}"
proof (rule finite_subset)
  show "{i. routed_next p i \<noteq> []} \<subseteq>
      s_id ` set (p_steps p) \<union> (\<Union>s \<in> set (p_steps p). set (s_depends_on s))"
  proof
    fix i assume "i \<in> {i. routed_next p i \<noteq> []}"
    then have "spawned p i \<noteq> [] \<or> (\<exists>s \<in> set (p_steps p). i \<in> set (s_depends_on s))"
      by (auto simp: routed_next_def filter_empty_conv)
    moreover have "i \<in> s_id ` set (p_steps p)" if "spawned p i \<noteq> []"
      using that plan_find_step_None [of p i] by (cases "plan_find_step p i") (auto simp: spawned_def)
    ultimately show "i \<in> s_id ` set (p_steps p) \<union> (\<Union>s \<in> set (p_steps p). set (s_depends_on s))"
      by blast
  qed
qed simp

interpretation routed_graph: successor_graph "routed_next p" for p
  by unfold_locales (rule finite_routed_next)

function routed_loop :: "plan \<Rightarrow> string set \<Rightarrow> string list \<Rightarrow> string set" where
  "routed_loop p routed [] = routed"
| "routed_loop p routed (i # pending) =
     (if i \<in> routed then routed_loop p routed pending
      else routed_loop p (insert i routed) (rev (routed_next p i) @ pending))"
  by pat_completeness auto
termination
proof (relation "measures [\<lambda>(p, seen, q). card ({x. routed_next p x \<noteq> []} - seen), \<lambda>(p, seen, q). length q]",
    goal_cases)
  case (3 p routed i pending)
  then show ?case
    using routed_graph.walk_measure [of i routed p pending] by simp
qed simp_all

definition condition_routed_step_ids :: "plan \<Rightarrow> string set" where
  "condition_routed_step_ids p = routed_loop p {} (rev (branch_targets p))"

interpretation routed: closure_walk "routed_next p" "routed_loop p" for p
  by unfold_locales simp_all

lemma condition_routed_reach:
  "condition_routed_step_ids p = (succ_edges (routed_next p))\<^sup>* `` set (branch_targets p)"
  by (simp add: condition_routed_step_ids_def routed.walk_reach)

section \<open>Properties\<close>

text \<open>
  The validator's dependency test decides the transitive closure of \<^verbatim>\<open>depends_on\<close>
  for every plan, cyclic ones included, where a name that is no step has no dependencies.
\<close>

theorem depends_transitively_trancl:
  "depends_transitively p i target \<longleftrightarrow> (i, target) \<in> (succ_edges (deps_of p))\<^sup>+"
  by (rule depends_transitively_iff)

text \<open>
  the steps whose execution is conditional are those reachable from a CONDITION's branch
  targets by going from a step to its dependents and from a FAN_OUT to its body.
\<close>

theorem condition_routed_step_ids_reach:
  "condition_routed_step_ids p =
     {i. \<exists>b \<in> set (branch_targets p). (b, i) \<in> (succ_edges (routed_next p))\<^sup>*}"
  by (auto simp: condition_routed_reach)

end
