(* ===== verification/Placeholders.thy ===== *)
theory Placeholders
  imports DependsOn
begin

text \<open>
  The placeholder pass, \<^verbatim>\<open>validator/placeholders.rs\<close>: what a step can produce, the
  references in every string of a step configuration, the order of step references, and the
  sources of the plan's outputs.  A \<^verbatim>\<open>HashMap\<close> that collects pushes per key is the
  list of its pushes, read by key.
\<close>

section \<open>Outputs of a step\<close>

definition FAN_OUT_RESULTS_OUTPUT :: string where
  "FAN_OUT_RESULTS_OUTPUT = ''results''"

fun implicit_outputs :: "step_config \<Rightarrow> string list" where
  "implicit_outputs (HumanInteraction c) = [hi_response_field c]"
| "implicit_outputs (PromptCall c) = [pc_output_field c]"
| "implicit_outputs (FanIn c) = [fi_collect_field c]"
| "implicit_outputs (FanOut _) = [FAN_OUT_RESULTS_OUTPUT]"
| "implicit_outputs (Condition _) = [''result'']"
| "implicit_outputs _ = []"

definition producible_outputs :: "plan_step \<Rightarrow> string list" where
  "producible_outputs s = remdups_adj (sort (map po_name (s_outputs s) @ implicit_outputs (s_config s)))"

lemma set_producible_outputs: "set (producible_outputs s) =
    po_name ` set (s_outputs s) \<union> set (implicit_outputs (s_config s))"
  by (simp add: producible_outputs_def)

definition describe_available_outputs :: "string list \<Rightarrow> string" where
  "describe_available_outputs known =
     (if known = [] then fmt ''it declares no outputs {} add one to its `outputs` list'' [em_dash]
      else fmt ''it produces: {}'' [join '', '' known])"

text \<open>The last step of an ID wins when the map is collected.\<close>

definition outputs_by_step :: "plan \<Rightarrow> string list imap" where
  "outputs_by_step p = im_extend [] (map (\<lambda>s. (s_id s, producible_outputs s)) (p_steps p))"

definition pushes_at :: "string \<Rightarrow> (string \<times> 'b) list \<Rightarrow> 'b list" where
  "pushes_at k ps = map snd (filter (\<lambda>x. fst x = k) ps)"

lemma set_pushes_at: "set (pushes_at k ps) = {v. (k, v) \<in> set ps}"
  by (auto simp: pushes_at_def image_iff)

section \<open>Strings of a configuration\<close>

text \<open>The flag marks code-bearing strings.\<close>

fun collect_strings_from_config :: "step_config \<Rightarrow> (string \<times> bool) list" where
  "collect_strings_from_config (ToolCall c) =
     map (\<lambda>s. (s, False)) (concat (map (\<lambda>(k, v). collect_from_value v) (tc_arguments c)))"
| "collect_strings_from_config (CodeCall c) =
     map (\<lambda>s. (s, True)) (opt_list (cc_inline c)) @
     map (\<lambda>s. (s, False)) (opt_list (cc_file c)) @
     map (\<lambda>s. (s, False)) (opt_list (cc_working_dir c)) @
     map (\<lambda>s. (s, True)) (opt_list (cc_stdin c)) @
     map (\<lambda>(k, v). (v, True)) (cc_env c) @
     map (\<lambda>s. (s, True)) (cc_args c)"
| "collect_strings_from_config (PromptCall c) =
     (pc_user_prompt c, False) # map (\<lambda>s. (s, False)) (opt_list (pc_system_prompt c))"
| "collect_strings_from_config (HumanInteraction c) = [(hi_prompt c, False)]"
| "collect_strings_from_config (AgentCall c) = [(ac_objective c, False), (ac_working_dir c, False)]"
| "collect_strings_from_config (FanOut c) =
     (fo_over c, False) # map (\<lambda>s. (s, False)) (opt_list (fo_until c))"
| "collect_strings_from_config (FanIn c) = []"
| "collect_strings_from_config (Condition c) = [(cd_expression c, False)]"

section \<open>Placeholders of a string\<close>

abbreviation extract_placeholders :: "string \<Rightarrow> string list" where
  "extract_placeholders \<equiv> placeholder_keys validator_match"

text \<open>The first match of the pattern, when it is the whole value.\<close>

definition whole_placeholder :: "string \<Rightarrow> string option" where
  "whole_placeholder s =
     (case find_match validator_match s of
        Some ([], k, []) \<Rightarrow> Some k
      | _ \<Rightarrow> None)"

definition exact_placeholder_name :: "json \<Rightarrow> string option" where
  "exact_placeholder_name v = Option.bind (as_str v) whole_placeholder"

fun open_count :: "string \<Rightarrow> nat" where
  "open_count [] = 0"
| "open_count (c # cs) = (if starts_with (c # cs) ''${'' then 1 else 0) + open_count cs"

definition has_malformed_placeholder :: "string \<Rightarrow> bool" where
  "has_malformed_placeholder s \<longleftrightarrow> open_count s > length (extract_placeholders s)"

definition is_reserved_namespace :: "string \<Rightarrow> bool" where
  "is_reserved_namespace ph \<longleftrightarrow>
     takeWhile (\<lambda>c. c \<noteq> CHR ''.'') ph \<in> {''input'', ''conf'', ''step'', ''env'', ''item''}"

definition plan_placeholders_in_source :: "string \<Rightarrow> string list" where
  "plan_placeholders_in_source source =
     map braced (filter is_plan_placeholder_key (placeholder_keys executor_match source))"

section \<open>References of a step\<close>

text \<open>The pushes of the map from a spawn step to its owners and their item variables.\<close>

definition item_owners :: "plan \<Rightarrow> (string \<times> string \<times> string) list" where
  "item_owners p = concat (map (\<lambda>owner. case s_config owner of
       FanOut c \<Rightarrow> map (\<lambda>spawn_id. (spawn_id, s_id owner, fo_item_var c)) (fo_spawn_steps c)
     | _ \<Rightarrow> []) (p_steps p))"

definition check_item_var ::
    "plan_step \<Rightarrow> (string \<times> string) list \<Rightarrow> string \<Rightarrow> string \<Rightarrow> validation_error list" where
  "check_item_var s owners ph var =
     (case owners of
        [] \<Rightarrow> [ve_step_err (s_id s) UnknownPlaceholder
          (fmt ''step '{}' references '${{{}}}', but item placeholders are only available in FAN_OUT-owned spawn steps''
             [s_id s, ph])]
      | (owner_id, expected_var) # rest \<Rightarrow>
          (case find (\<lambda>(other, item_var). item_var \<noteq> expected_var) rest of
             Some (other_owner_id, other_var) \<Rightarrow> [ve_step_err (s_id s) InvalidStepConfig
               (fmt ''step '{}' references '${{{}}}', but it is owned by FAN_OUT '{}' injecting '${{item.{}}}' and FAN_OUT '{}' injecting '${{item.{}}}{}''
                  [s_id s, ph, owner_id, expected_var, other_owner_id, other_var, squote])]
           | None \<Rightarrow>
               if var \<noteq> expected_var then [ve_step_err (s_id s) UnknownPlaceholder
                 (fmt ''step '{}' references '${{{}}}', but FAN_OUT '{}' injects '${{item.{}}}{}''
                    [s_id s, ph, owner_id, expected_var, squote])]
               else []))"

definition check_step_output ::
    "plan \<Rightarrow> string \<Rightarrow> string \<Rightarrow> (string \<Rightarrow> validation_error) \<Rightarrow> validation_error list" where
  "check_step_output p step_ref output err =
     (if step_ref \<notin> s_id ` set (p_steps p) then
        [err (fmt ''step '{}' does not exist'' [step_ref])]
      else (case im_get (outputs_by_step p) step_ref of
              Some known \<Rightarrow>
                if output \<notin> set known then [err (describe_available_outputs known)] else []
            | None \<Rightarrow> []))"

definition check_placeholder :: "plan \<Rightarrow> plan_step \<Rightarrow> bool \<Rightarrow> string \<Rightarrow> validation_error list" where
  "check_placeholder p s is_code ph =
     (let unrecognised =
        (if \<not> is_code \<or> is_reserved_namespace ph then [ve_step_err (s_id s) MalformedPlaceholder
           (fmt ''step '{}' contains unrecognised placeholder namespace in '${{{}}}' {} expected input, conf, step, item, or env''
              [s_id s, ph, em_dash])]
         else [])
      in case splitn 3 (CHR ''.'') ph of
        [ns, name] \<Rightarrow>
          if ns = ''input'' then
            (if name \<notin> in_name ` set (p_inputs p) then [ve_step_err (s_id s) UnknownPlaceholder
               (fmt ''step '{}' references '${{{}}}' but '{}' is not declared in plan.inputs'' [s_id s, ph, name])]
             else [])
          else if ns = ''conf'' then
            (if name \<notin> set (im_keys (p_config p)) then [ve_step_err (s_id s) UnknownPlaceholder
               (fmt ''step '{}' references '${{{}}}' but '{}' is not defined in plan.config'' [s_id s, ph, name])]
             else [])
          else if ns = ''env'' then []
          else if ns = ''item'' then check_item_var s (pushes_at (s_id s) (item_owners p)) ph name
          else unrecognised
      | [ns, step_ref, output] \<Rightarrow>
          if ns = ''step'' then
            check_step_output p step_ref output
              (\<lambda>m. ve_step_err (s_id s) UnknownPlaceholder
                 (fmt ''step '{}' references '${{{}}}' but {}'' [s_id s, ph, m]))
          else unrecognised
      | _ \<Rightarrow> unrecognised)"

definition check_string :: "plan \<Rightarrow> plan_step \<Rightarrow> string \<times> bool \<Rightarrow> validation_error list" where
  "check_string p s = (\<lambda>(str, is_code).
     (if \<not> is_code \<and> has_malformed_placeholder str then [ve_step_err (s_id s) MalformedPlaceholder
        (fmt ''malformed placeholder (missing '}}') in step '{}{}'' [s_id s, squote])]
      else []) @
     concat (map (check_placeholder p s is_code) (extract_placeholders str)))"

section \<open>The order of step references\<close>

definition parse_step_reference :: "string \<Rightarrow> (string \<times> string) option" where
  "parse_step_reference ph =
     (case strip_prefix ph ''step.'' of None \<Rightarrow> None | Some rest \<Rightarrow> split_once (CHR ''.'') rest)"

definition step_references :: "string \<Rightarrow> (string \<times> string) list" where
  "step_references s = List.map_filter parse_step_reference (extract_placeholders s)"

text \<open>The pushes of the map from a spawn step to its owners and its position in each.\<close>

definition fan_out_owners :: "plan \<Rightarrow> (string \<times> plan_step \<times> nat) list" where
  "fan_out_owners p = concat (map (\<lambda>owner. case s_config owner of
       FanOut c \<Rightarrow> map (\<lambda>(position, spawn_id). (spawn_id, owner, position)) (enumerate 0 (fo_spawn_steps c))
     | _ \<Rightarrow> []) (p_steps p))"

definition reference_is_available :: "plan \<Rightarrow> plan_step \<Rightarrow> string \<Rightarrow> bool" where
  "reference_is_available p consumer source_id =
     (if source_id = s_id consumer then False
      else (case pushes_at (s_id consumer) (fan_out_owners p) of
        [(owner, consumer_position)] \<Rightarrow>
          (list_ex (\<lambda>(source_owner, source_position).
               s_id source_owner = s_id owner \<and> source_position < consumer_position)
             (pushes_at source_id (fan_out_owners p)) \<and>
           depends_transitively p (s_id consumer) source_id) \<or>
          depends_transitively p (s_id owner) source_id
      | [] \<Rightarrow>
          pushes_at source_id (fan_out_owners p) = [] \<and>
          depends_transitively p (s_id consumer) source_id
      | _ \<Rightarrow> True))"

definition preflight_references :: "plan_step \<Rightarrow> (string \<times> string) list" where
  "preflight_references s =
     concat (map step_references (collect_from_value (runtime_preflight_config s)))"

definition check_preflight_reference :: "plan \<Rightarrow> plan_step \<Rightarrow> string \<times> string \<Rightarrow> validation_error list" where
  "check_preflight_reference p s = (\<lambda>(source_id, output).
     if \<not> reference_is_available p s source_id then
       [ve_field_err (s_id s) ''config'' MissingDependency
          (fmt ''step '{}' references '${{step.{}.{}}}' before step '{}' is available {} add an execution-order dependency''
             [s_id s, source_id, output, source_id, em_dash])]
     else [])"

definition check_until_reference ::
    "plan \<Rightarrow> plan_step \<Rightarrow> fan_out_config \<Rightarrow> string \<times> string \<Rightarrow> validation_error list" where
  "check_until_reference p s c = (\<lambda>(source_id, output_name).
     if source_id \<notin> set (fo_spawn_steps c) \<and> \<not> depends_transitively p (s_id s) source_id then
       [ve_field_err (s_id s) ''config.until'' MissingDependency
          (fmt ''FAN_OUT step '{}' until expression references '${{step.{}.{}}}', but '{}' is neither an owned body step nor an owner dependency''
             [s_id s, source_id, output_name, source_id])]
     else [])"

definition validate_step_reference_order :: "plan \<Rightarrow> validation_error list" where
  "validate_step_reference_order p = concat (map (\<lambda>s.
     concat (map (check_preflight_reference p s) (preflight_references s)) @
     (case s_config s of
        FanOut c \<Rightarrow> (case fo_until c of
            Some until \<Rightarrow> concat (map (check_until_reference p s c) (step_references until))
          | None \<Rightarrow> [])
      | _ \<Rightarrow> [])) (p_steps p))"

definition validate_placeholders :: "plan \<Rightarrow> validation_error list" where
  "validate_placeholders p =
     concat (map (\<lambda>s. concat (map (check_string p s) (collect_strings_from_config (s_config s))))
       (p_steps p)) @
     validate_step_reference_order p"

section \<open>Sources of the plan's outputs\<close>

definition check_plan_output :: "plan \<Rightarrow> plan_output_ref \<Rightarrow> validation_error list" where
  "check_plan_output p out =
     (case whole_placeholder (or_source out) of
        None \<Rightarrow> [ve_plan_err MalformedPlaceholder
          (fmt ''plan output '{}' has source '{}' {} expected a single '${{step.<step_id>.<output_name>}}' reference''
             [or_name out, or_source out, em_dash])]
      | Some ph \<Rightarrow>
          (let wrong = [ve_plan_err UnknownPlaceholder
             (fmt ''plan output '{}' has source '${{{}}}' {} plan outputs must reference a step result, e.g. '${{step.<step_id>.<output_name>}}{}''
                [or_name out, ph, em_dash, squote])]
           in case splitn 3 (CHR ''.'') ph of
             [ns, step_ref, out_name] \<Rightarrow>
               if ns = ''step'' then
                 check_step_output p step_ref out_name
                   (\<lambda>m. ve_plan_err UnknownPlaceholder
                      (fmt ''plan output '{}' references '${{{}}}' but {}'' [or_name out, ph, m]))
               else wrong
           | _ \<Rightarrow> wrong))"

definition validate_plan_output_sources :: "plan \<Rightarrow> validation_error list" where
  "validate_plan_output_sources p = concat (map (check_plan_output p) (p_outputs p))"

section \<open>The validator's and the executor's placeholders\<close>

lemma open_count_append: "open_count a + open_count b \<le> open_count (a @ b)"
proof (induction a)
  case Nil
  then show ?case by simp
next
  case (Cons c a)
  have "starts_with (c # a) ''${'' \<Longrightarrow> starts_with (c # a @ b) ''${''"
    by (auto simp: starts_with_iff)
  with Cons show ?case by (auto simp del: starts_with_Cons)
qed

lemma open_count_braced: "Suc (open_count r) \<le> open_count (braced k @ r)"
proof -
  have "open_count k + open_count (''}'' @ r) \<le> open_count (k @ ''}'' @ r)"
    by (rule open_count_append)
  moreover have "open_count r \<le> open_count (''}'' @ r)" by simp
  moreover have "Suc (open_count (k @ ''}'' @ r)) \<le> open_count (braced k @ r)"
    by (simp add: braced_def)
  ultimately show ?thesis by linarith
qed

lemma keys_le_open_count: "length (extract_placeholders s) \<le> open_count s"
proof (induction s rule: va.segments_induct)
  case (no_match s)
  then show ?case by (simp add: va.keys_no_match)
next
  case (match s l k r)
  then have "open_count l + open_count (braced k @ r) \<le> open_count s"
    using open_count_append by metis
  with match open_count_braced [of r k] show ?case
    by (simp add: va.keys_match)
qed

lemma find_str_open_count: "open_count s = 0 \<Longrightarrow> find_str s ''${'' = None"
  by (induction s) (auto simp del: starts_with_Cons split: if_splits)

lemma find_str_first_open: "open_count l = 0 \<Longrightarrow> find_str (l @ ''${'' @ t) ''${'' = Some (length l)"
proof (induction l)
  case Nil
  then show ?case by (simp add: starts_with_def)
next
  case (Cons c cs)
  then have n: "\<not> starts_with (c # cs) ''${''" and z: "open_count cs = 0"
    by (simp_all del: starts_with_Cons split: if_splits)
  have "\<not> starts_with ((c # cs) @ ''${'' @ t) ''${''"
    using n by (cases cs) (auto simp: starts_with_def)
  with Cons.IH [OF z] show ?case by (simp del: starts_with_Cons)
qed

lemma valid_path_plain: "valid_path k \<Longrightarrow> k \<noteq> [] \<and> CHR ''}'' \<notin> set k"
  by (auto simp: valid_path_def list_all_iff)

lemma executor_validator_agree:
  "\<not> has_malformed_placeholder s \<Longrightarrow> placeholder_keys executor_match s = extract_placeholders s"
proof (induction s rule: va.segments_induct)
  case (no_match s)
  then have "open_count s = 0" by (simp add: has_malformed_placeholder_def va.keys_no_match)
  with no_match show ?case
    by (simp add: va.keys_no_match keys_no_open find_str_open_count)
next
  case (match s l k r)
  have "open_count s \<le> Suc (length (extract_placeholders r))"
    using match.prems match.hyps(1) by (simp add: has_malformed_placeholder_def va.keys_match)
  moreover have "open_count l + open_count (braced k @ r) \<le> open_count s"
    using match.hyps(2) open_count_append by metis
  ultimately have z: "open_count l = 0" and r: "\<not> has_malformed_placeholder r"
    using open_count_braced [of r k] keys_le_open_count [of r]
    by (simp_all add: has_malformed_placeholder_def)
  have "k \<in> set (extract_placeholders s)" using match.hyps(1) by (simp add: va.keys_match)
  then have "valid_path k" by (rule validator_key)
  then have k: "k \<noteq> []" "CHR ''}'' \<notin> set k" by (simp_all add: valid_path_plain)
  have "find_str s ''${'' = Some (length l)"
    using find_str_first_open [OF z, of "k @ ''}'' @ r"] match.hyps(2) by (simp add: braced_def)
  then have "placeholder_keys executor_match s = placeholder_keys executor_match (braced k @ r)"
    using keys_from_open [of s "length l"] match.hyps(2) by simp
  with k match.IH [OF r] match.hyps(1) show ?case
    by (simp add: keys_at_open va.keys_match)
qed

text \<open>The validator finds every occurrence of a well-formed placeholder.\<close>

lemma find_match_before:
  "find_match m s = Some (l, k, r) \<Longrightarrow> i < length l \<Longrightarrow> m (drop i s) = None"
proof (induction s arbitrary: l i)
  case Nil
  then show ?case by simp
next
  case (Cons c cs)
  show ?case
  proof (cases "m (c # cs)")
    case None
    with Cons.prems obtain l' where l': "l = c # l'" "find_match m cs = Some (l', k, r)"
      by auto
    with Cons.IH [of l'] Cons.prems(2) None show ?thesis by (cases i) auto
  next
    case (Some x)
    with Cons.prems show ?thesis by auto
  qed
qed

lemma find_match_None: "find_match m s = None \<Longrightarrow> i < length s \<Longrightarrow> m (drop i s) = None"
proof (induction s arbitrary: i)
  case Nil
  then show ?case by simp
next
  case (Cons c cs)
  then show ?case by (cases i) (auto split: option.splits)
qed

lemma validator_finds_all:
  assumes "valid_path k"
  shows "s = a @ braced k @ b \<Longrightarrow> k \<in> set (extract_placeholders s)"
proof (induction s arbitrary: a rule: va.segments_induct)
  case (no_match s)
  have "validator_match (drop (length a) s) = Some (k, b)"
    using no_match.prems assms by (simp add: validator_match_iff)
  moreover have "length a < length s" using no_match.prems by (simp add: braced_def)
  ultimately show ?case using find_match_None [OF no_match.hyps] by fastforce
next
  case (match s l k' r)
  have m: "validator_match (drop (length a) s) = Some (k, b)"
    using match.prems assms by (simp add: validator_match_iff)
  then have la: "length l \<le> length a"
    using find_match_before [OF match.hyps(1), of "length a"] by force
  define d where "d = drop (length l) a"
  have a: "a = l @ d"
  proof -
    have "take (length l) a = l"
      using match.prems match.hyps(2) la by (metis append_eq_append_conv_if)
    then show ?thesis unfolding d_def by (metis append_take_drop_id)
  qed
  have e: "d @ braced k @ b = braced k' @ r"
    using match.prems match.hyps(2) a by simp
  show ?case
  proof (cases "d = []")
    case True
    with m a match.hyps(2) have "validator_match (braced k' @ r) = Some (k, b)" by simp
    then have "executor_match (braced k' @ r) = Some (k, b)" by (rule validator_executor_match)
    moreover have "k' \<in> set (extract_placeholders s)" using match.hyps(1) by (simp add: va.keys_match)
    then have "valid_path k'" by (rule validator_key)
    then have "CHR ''}'' \<notin> set k'" "k' \<noteq> []" by (simp_all add: valid_path_plain)
    then have "executor_match (braced k' @ r) = Some (k', r)" by (simp add: executor_match_iff)
    ultimately show ?thesis using match.hyps(1) by (simp add: va.keys_match)
  next
    case False
    have "length (braced k') \<le> length d"
    proof (rule ccontr)
      assume "\<not> ?thesis"
      then have lt: "length d < length (braced k')" by simp
      have "(braced k' @ r) ! length d = CHR ''$''"
        using arg_cong [OF e [symmetric], of "\<lambda>s. s ! length d"] by (simp add: nth_append braced_def)
      with lt have "braced k' ! length d = CHR ''$''" by (simp add: nth_append)
      moreover obtain n where "length d = Suc n" using False by (cases d) auto
      ultimately have "(''{'' @ k' @ ''}'') ! n = CHR ''$''" "n < length (''{'' @ k' @ ''}'')"
        using lt by (simp_all add: braced_def)
      then have "CHR ''$'' \<in> set (''{'' @ k' @ ''}'')" by (metis nth_mem)
      moreover have "k' \<in> set (extract_placeholders s)" using match.hyps(1) by (simp add: va.keys_match)
      then have "list_all path_char k'" using validator_key by (auto simp: valid_path_def)
      ultimately show False
        by (auto simp: list_all_iff path_char_def ascii_alphanumeric_def ascii_alpha_def ascii_digit_def)
    qed
    then have "r = drop (length (braced k')) d @ braced k @ b"
      using e by (metis append_eq_conv_conj drop_append diff_is_0_eq drop0)
    from match.IH [OF this] match.hyps(1) show ?thesis by (simp add: va.keys_match)
  qed
qed

section \<open>The inputs a step refers to, by either traversal\<close>

lemma collect_input_refs_strings:
  "fold collect_input_refs_string ss out = out \<union> (\<Union>s \<in> set ss. input_names_in s)"
  by (induction ss arbitrary: out) (auto simp: collect_input_refs_string)

lemma collect_input_refs_value: "collect_input_refs_value v out =
    out \<union> (\<Union>s \<in> set (collect_from_value v). input_names_in s)"
proof (induction v arbitrary: out rule: collect_from_value.induct)
  case (2 vs)
  then show ?case by (induction vs arbitrary: out) (auto simp: Un_assoc)
next
  case (3 kvs)
  then have ih: "\<forall>kv \<in> set kvs. \<forall>out. collect_input_refs_value (snd kv) out =
      out \<union> (\<Union>s \<in> set (collect_from_value (snd kv)). input_names_in s)"
    by auto
  then show ?case by (induction kvs arbitrary: out) (auto simp: split_def Un_assoc)
qed (simp_all add: collect_input_refs_string)

lemma fold_collect_values: "fold (\<lambda>kv. collect_input_refs_value (snd kv)) kvs out =
    out \<union> (\<Union>kv \<in> set kvs. \<Union>s \<in> set (collect_from_value (snd kv)). input_names_in s)"
  by (induction kvs arbitrary: out) (auto simp: collect_input_refs_value)

lemma input_references_strings:
  "input_references s =
     (\<Union>x \<in> set (collect_strings_from_config (s_config s)). input_names_in (fst x))"
proof (cases "s_config s")
  case (ToolCall c)
  then show ?thesis
    by (simp add: input_references_def fold_collect_values split_def)
next
  case (CodeCall c)
  then show ?thesis
    by (auto simp: input_references_def collect_input_refs_strings opt_list_def split: option.splits)
qed (auto simp: input_references_def collect_input_refs_string opt_list_def Let_def split: option.splits)

lemma is_input_name_path: "is_input_name n \<Longrightarrow> valid_path (''input.'' @ n)"
  by (cases n) (auto simp: valid_path_def name_start_def path_char_def ascii_alphanumeric_def
      ascii_alpha_def list_all_iff)

lemma splitn_input: "is_input_name n \<Longrightarrow> splitn 3 (CHR ''.'') (''input.'' @ n) = [''input'', n]"
proof -
  assume "is_input_name n"
  then have "CHR ''.'' \<notin> set n"
    by (cases n) (auto simp: list_all_iff ascii_alphanumeric_def ascii_alpha_def ascii_digit_def)
  then have "split_once (CHR ''.'') n = None" by (simp add: split_once_None)
  then show ?thesis by (simp add: numeral_3_eq_3)
qed

lemma validate_placeholders_string:
  assumes "validate_placeholders p = []" and "s \<in> set (p_steps p)"
    and "(str, is_code) \<in> set (collect_strings_from_config (s_config s))"
  shows "check_string p s (str, is_code) = []"
  using assms by (auto simp: validate_placeholders_def)

lemma input_names_declared:
  assumes "check_string p s (str, is_code) = []"
  shows "input_names_in str \<subseteq> in_name ` set (p_inputs p)"
proof
  fix n assume "n \<in> input_names_in str"
  then have n: "is_input_name n" and "''input.'' @ n \<in> set (placeholder_keys executor_match str)"
    by (auto simp: input_names_in_def)
  then obtain a b where "str = a @ braced (''input.'' @ n) @ b"
    using ex.keys_subtext by blast
  then have "''input.'' @ n \<in> set (extract_placeholders str)"
    by (rule validator_finds_all [OF is_input_name_path [OF n]])
  then have "check_placeholder p s is_code (''input.'' @ n) = []"
    using assms by (auto simp: check_string_def)
  then show "n \<in> in_name ` set (p_inputs p)"
    unfolding check_placeholder_def splitn_input [OF n] by (simp add: Let_def split: if_splits)
qed

section \<open>Properties\<close>

text \<open>
  C35: a string without malformed placeholders reads the same to the validator and to the
  executor: the permissive pattern the executor resolves with captures, in order, exactly the
  names the validator checked.
\<close>

theorem placeholder_grammars_agree:
  assumes "\<not> has_malformed_placeholder s"
  shows "placeholder_keys executor_match s = placeholder_keys validator_match s"
  using assms by (rule executor_validator_agree)

lemma placeholder_grammars_agree_witness:
  "placeholder_keys executor_match ''$${step.a.b} and ${input.x}'' = [''step.a.b'', ''input.x'']"
proof -
  have "\<not> has_malformed_placeholder ''$${step.a.b} and ${input.x}''" by code_simp
  moreover have "placeholder_keys validator_match ''$${step.a.b} and ${input.x}'' = [''step.a.b'', ''input.x'']"
    by code_simp
  ultimately show ?thesis using placeholder_grammars_agree by simp
qed

text \<open>
  In a plan that passes the placeholder pass, every run input that repair-resume protects
  for a step (\<^verbatim>\<open>input_references\<close>) is declared by the plan; the two traversals of a
  configuration, the validator's and the one in \<^verbatim>\<open>plan/steps.rs\<close>, see the same strings.
\<close>

theorem validated_input_references:
  assumes "validate_placeholders p = []" and "s \<in> set (p_steps p)"
  shows "input_references s \<subseteq> in_name ` set (p_inputs p) \<and>
    input_references s =
      (\<Union>x \<in> set (collect_strings_from_config (s_config s)). input_names_in (fst x))"
proof
  have "input_names_in (fst x) \<subseteq> in_name ` set (p_inputs p)"
    if "x \<in> set (collect_strings_from_config (s_config s))" for x
    using that input_names_declared [OF validate_placeholders_string [OF assms, of "fst x" "snd x"]] by simp
  then show "input_references s \<subseteq> in_name ` set (p_inputs p)"
    by (auto simp: input_references_strings)
qed (rule input_references_strings)

definition prompt_step :: "string \<Rightarrow> string \<Rightarrow> string list \<Rightarrow> plan_step" where
  "prompt_step i text deps =
     \<lparr>s_id = i, s_name = i, s_description = None,
      s_config = PromptCall \<lparr>pc_model = ''m'', pc_system_prompt = None, pc_user_prompt = text,
        pc_output_field = ''out'', pc_max_tokens = None, pc_temperature = None\<rparr>,
      s_depends_on = deps, s_outputs = [], s_timeout_secs = None, s_retry = None\<rparr>"

definition prompt_plan :: plan where
  "prompt_plan = demo_plan\<lparr>p_steps :=
     [prompt_step ''ask'' ''about ${input.n}'' [], prompt_step ''tell'' ''on ${step.ask.out}'' [''ask'']]\<rparr>"

lemma prompt_plan_placeholders: "validate_placeholders prompt_plan = []"
  by code_simp

lemma validated_input_references_witness:
  "input_references (prompt_step ''ask'' ''about ${input.n}'' []) \<subseteq> {''n'', ''s''}"
proof -
  have "prompt_step ''ask'' ''about ${input.n}'' [] \<in> set (p_steps prompt_plan)"
    by (simp add: prompt_plan_def)
  from validated_input_references [OF prompt_plan_placeholders this, THEN conjunct1]
  show ?thesis by (simp add: prompt_plan_def demo_plan_def demo_inputs_def)
qed

end
