(* ===== verification/ToolBinding.thy ===== *)
theory ToolBinding
  imports Placeholders Catalog
begin

text \<open>
  The tool-binding pass, \<^verbatim>\<open>validator/tool_binding.rs\<close>: TOOL_CALL steps against the
  catalog.  Required arguments, literal arguments against the property types, and arguments
  that are exactly one plan input against the input's declaration.
\<close>

section \<open>Types of a property schema\<close>

definition binding_schema_types :: "json \<Rightarrow> string list option" where
  "binding_schema_types property_schema =
     (case json_get property_schema ''type'' of
        Some (JString v) \<Rightarrow> Some [v]
      | Some (JArray vs) \<Rightarrow> Some (List.map_filter as_str vs)
      | _ \<Rightarrow> None)"

definition schema_accepts_null :: "json \<Rightarrow> bool" where
  "schema_accepts_null property_schema \<longleftrightarrow>
     Option.bind (json_get property_schema ''nullable'') as_bool = Some True \<or>
     (case binding_schema_types property_schema of None \<Rightarrow> True | Some types \<Rightarrow> ''null'' \<in> set types)"

definition schema_type_description :: "json \<Rightarrow> string" where
  "schema_type_description property_schema =
     (case binding_schema_types property_schema of
        Some types \<Rightarrow> join '' or '' types | None \<Rightarrow> ''any type'')"

definition json_value_matches_type :: "json \<Rightarrow> string \<Rightarrow> bool" where
  "json_value_matches_type v expected \<longleftrightarrow>
     (if expected = ''string'' then is_string v
      else if expected = ''number'' then is_number v
      else if expected = ''integer'' then is_json_integer v
      else if expected = ''boolean'' then is_boolean v
      else if expected = ''array'' then is_array v
      else if expected = ''object'' then is_object v
      else if expected = ''null'' then is_null v
      else True)"

definition json_value_matches_schema :: "json \<Rightarrow> json \<Rightarrow> bool" where
  "json_value_matches_schema v property_schema \<longleftrightarrow>
     is_null v \<and> schema_accepts_null property_schema \<or>
     (case binding_schema_types property_schema of
        None \<Rightarrow> True | Some types \<Rightarrow> list_ex (json_value_matches_type v) types)"

definition declared_type_matches_schema :: "string \<Rightarrow> json \<Rightarrow> bool" where
  "declared_type_matches_schema declared property_schema \<longleftrightarrow>
     declared = ''any'' \<or>
     (case binding_schema_types property_schema of
        None \<Rightarrow> True
      | Some types \<Rightarrow>
          list_ex (\<lambda>expected. declared = expected \<or> declared = ''integer'' \<and> expected = ''number'') types)"

section \<open>Arguments bound to an input\<close>

fun input_kind_name :: "input_kind \<Rightarrow> string" where
  "input_kind_name KValue = ''value''"
| "input_kind_name KFilePath = ''file_path''"
| "input_kind_name KOutputFilePath = ''output_file_path''"
| "input_kind_name KDirectoryPath = ''directory_path''"

definition input_kind_matches_annotation :: "input_kind \<Rightarrow> string \<Rightarrow> bool" where
  "input_kind_matches_annotation k annotation \<longleftrightarrow>
     (case k of
        KValue \<Rightarrow> annotation = ''value''
      | KFilePath \<Rightarrow> annotation = ''file_path''
      | KOutputFilePath \<Rightarrow> annotation = ''output_file_path''
      | KDirectoryPath \<Rightarrow> annotation = ''directory_path'')"

definition required_non_nullable_property :: "tool_entry \<Rightarrow> string \<Rightarrow> json \<Rightarrow> bool" where
  "required_non_nullable_property tool argument_name property_schema \<longleftrightarrow>
     argument_name \<in> set (required_inputs tool) \<and> \<not> schema_accepts_null property_schema"

definition has_concrete_compatible_default :: "plan_input \<Rightarrow> json \<Rightarrow> bool" where
  "has_concrete_compatible_default i property_schema \<longleftrightarrow>
     (case in_default i of None \<Rightarrow> False
      | Some d \<Rightarrow>
          \<not> is_null d \<and> input_value_matches_type d (in_value_type i) \<and>
          json_value_matches_schema d property_schema)"

definition check_input_binding ::
    "plan_step \<Rightarrow> tool_entry \<Rightarrow> string \<Rightarrow> plan_input \<Rightarrow> json \<Rightarrow> bool \<Rightarrow> validation_error list" where
  "check_input_binding s tool argument_name i property_schema is_condition_routed =
     (let field = ''config.arguments.'' @ argument_name in
      (if \<not> declared_type_matches_schema (in_value_type i) property_schema then
         [ve_field_err (s_id s) field TypeMismatch
            (fmt ''step '{}' argument '{}' expects {}, but input '{}' is declared as {}''
               [s_id s, argument_name, schema_type_description property_schema, in_name i, in_value_type i])]
       else []) @
      (case Option.bind (json_get property_schema INPUT_KIND_ANNOTATION) as_str of
         Some expected_kind \<Rightarrow>
           if \<not> input_kind_matches_annotation (effective_input_kind i) expected_kind then
             [ve_field_err (s_id s) field TypeMismatch
                (fmt ''step '{}' argument '{}' requires input kind '{}', but input '{}' has kind '{}{}''
                   [s_id s, argument_name, expected_kind, in_name i,
                    input_kind_name (effective_input_kind i), squote])]
           else []
       | None \<Rightarrow> []) @
      (if \<not> is_condition_routed \<and> required_non_nullable_property tool argument_name property_schema \<and>
          \<not> in_required i \<and> \<not> has_concrete_compatible_default i property_schema then
         [ve_field_err (s_id s) field MissingRequiredArgument
            (fmt ''step '{}' argument '{}' is required by tool '{}', but input '{}' is optional without a concrete compatible default''
               [s_id s, argument_name, te_name tool, in_name i])]
       else []))"

section \<open>The pass\<close>

definition check_allowlisted :: "plan_step \<Rightarrow> tool_call_config \<Rightarrow> tool_entry \<Rightarrow> validation_error list" where
  "check_allowlisted s cfg tool =
     (if \<not> te_allowlisted tool then
        [ve_field_err (s_id s) ''config.tool'' UnknownTool
           (fmt ''step '{}' uses tool '{}' which is not on the allowlist'' [s_id s, tc_tool cfg])]
      else [])"

definition check_required_arguments ::
    "plan_step \<Rightarrow> tool_call_config \<Rightarrow> tool_entry \<Rightarrow> validation_error list" where
  "check_required_arguments s cfg tool =
     concat (map (\<lambda>req.
       if \<not> im_contains (tc_arguments cfg) req then
         [ve_field_err (s_id s) (''config.arguments.'' @ req) MissingRequiredArgument
            (fmt ''step '{}' calls tool '{}' but is missing required argument '{}{}''
               [s_id s, tc_tool cfg, req, squote])]
       else []) (required_inputs tool))"

definition check_argument ::
    "plan \<Rightarrow> plan_step \<Rightarrow> tool_entry \<Rightarrow> (string \<times> json) list \<Rightarrow> bool \<Rightarrow> string \<times> json \<Rightarrow> validation_error list" where
  "check_argument p s tool props is_condition_routed = (\<lambda>(arg_name, arg_value).
     (case map_of props arg_name of None \<Rightarrow> []
      | Some property_schema \<Rightarrow>
          (case exact_placeholder_name arg_value of
             Some placeholder \<Rightarrow>
               (case strip_prefix placeholder ''input.'' of None \<Rightarrow> []
                | Some input_name \<Rightarrow>
                    (case find (\<lambda>i. in_name i = input_name) (p_inputs p) of None \<Rightarrow> []
                     | Some i \<Rightarrow>
                         check_input_binding s tool arg_name i property_schema is_condition_routed))
           | None \<Rightarrow>
               if \<not> json_value_matches_schema arg_value property_schema then
                 [ve_field_err (s_id s) (''config.arguments.'' @ arg_name) TypeMismatch
                    (fmt ''step '{}' argument '{}' is wrong type: expected {}''
                       [s_id s, arg_name, schema_type_description property_schema])]
               else [])))"

definition check_argument_types ::
    "plan \<Rightarrow> plan_step \<Rightarrow> tool_call_config \<Rightarrow> tool_entry \<Rightarrow> bool \<Rightarrow> validation_error list" where
  "check_argument_types p s cfg tool is_condition_routed =
     (case Option.bind (json_get (te_input_schema tool) ''properties'') as_object of
        None \<Rightarrow> []
      | Some props \<Rightarrow> concat (map (check_argument p s tool props is_condition_routed) (tc_arguments cfg)))"

definition check_tool_step :: "plan \<Rightarrow> tool_catalog \<Rightarrow> plan_step \<Rightarrow> validation_error list" where
  "check_tool_step p catalog s =
     (case s_config s of
        ToolCall cfg \<Rightarrow>
          (case catalog_get catalog (tc_tool cfg) of
             None \<Rightarrow> [ve_field_err (s_id s) ''config.tool'' UnknownTool
               (fmt ''step '{}' references tool '{}' which is not in the catalog'' [s_id s, tc_tool cfg])]
           | Some tool \<Rightarrow>
               check_allowlisted s cfg tool @
               check_required_arguments s cfg tool @
               check_argument_types p s cfg tool (s_id s \<in> condition_routed_step_ids p))
      | _ \<Rightarrow> [])"

definition validate_tool_bindings :: "plan \<Rightarrow> tool_catalog \<Rightarrow> validation_error list" where
  "validate_tool_bindings p catalog = concat (map (check_tool_step p catalog) (p_steps p))"

section \<open>What an accepted binding promises\<close>

lemma declared_type_sound:
  assumes "declared_type_matches_schema t sch" and "t \<noteq> ''any''"
    and "input_value_matches_type v t" and "v \<noteq> JNull"
  shows "json_value_matches_schema v sch"
proof (cases "binding_schema_types sch")
  case None
  then show ?thesis by (simp add: json_value_matches_schema_def)
next
  case (Some types)
  with assms(1,2) obtain e where e: "e \<in> set types" "t = e \<or> t = ''integer'' \<and> e = ''number''"
    by (auto simp: declared_type_matches_schema_def list_ex_iff)
  have "is_json_integer v \<Longrightarrow> is_number v" by (cases v) auto
  with e(2) assms(2-4) have "json_value_matches_type v e"
    by (auto simp: input_value_matches_type_def json_value_matches_type_def split: if_splits)
  with e(1) Some show ?thesis
    by (auto simp: json_value_matches_schema_def list_ex_iff)
qed

lemma tool_step_accepted:
  assumes "validate_tool_bindings p catalog = []" and "s \<in> set (p_steps p)"
    and "s_config s = ToolCall cfg"
  obtains tool where "catalog_get catalog (tc_tool cfg) = Some tool" "te_allowlisted tool"
    "set (required_inputs tool) \<subseteq> set (im_keys (tc_arguments cfg))"
    "check_argument_types p s cfg tool (s_id s \<in> condition_routed_step_ids p) = []"
proof -
  have c: "check_tool_step p catalog s = []"
    using assms(1,2) by (auto simp: validate_tool_bindings_def)
  then obtain tool where t: "catalog_get catalog (tc_tool cfg) = Some tool"
    using assms(3) by (auto simp: check_tool_step_def split: option.splits)
  with c assms(3) have parts: "check_allowlisted s cfg tool = []" "check_required_arguments s cfg tool = []"
    "check_argument_types p s cfg tool (s_id s \<in> condition_routed_step_ids p) = []"
    by (simp_all add: check_tool_step_def)
  show thesis
  proof (rule that [OF t _ _ parts(3)])
    show "te_allowlisted tool"
      using parts(1) by (simp add: check_allowlisted_def split: if_splits)
    show "set (required_inputs tool) \<subseteq> set (im_keys (tc_arguments cfg))"
      using parts(2) by (auto simp: check_required_arguments_def im_contains_iff split: if_splits)
  qed
qed

lemma bound_argument_checked:
  assumes "check_argument_types p s cfg tool routed = []" and "(arg, v) \<in> set (tc_arguments cfg)"
    and "Option.bind (json_get (te_input_schema tool) ''properties'') as_object = Some props"
    and "map_of props arg = Some sch"
    and "exact_placeholder_name v = Some (''input.'' @ in_name i)"
    and "i \<in> set (p_inputs p)" and "distinct (map in_name (p_inputs p))"
  shows "check_input_binding s tool arg i sch routed = []"
proof -
  have "distinct (map in_name xs) \<Longrightarrow> i \<in> set xs \<Longrightarrow> find (\<lambda>j. in_name j = in_name i) xs = Some i" for xs
    by (induction xs) (auto simp: image_iff)
  then have "find (\<lambda>j. in_name j = in_name i) (p_inputs p) = Some i" using assms(6,7) by blast
  moreover have "check_argument p s tool props routed (arg, v) = []"
    using assms(1-3) by (auto simp: check_argument_types_def)
  ultimately show ?thesis
    using assms(4,5) by (simp add: check_argument_def strip_prefix_def starts_with_def)
qed

section \<open>Properties\<close>

text \<open>
  C26: an argument that is exactly one plan input is given a value of the tool's type.  In a plan that
  passes the binding pass, for a step no condition routes, a typed input whose argument the
  tool requires and does not let be null resolves, for every caller whose inputs resolve, to a
  value that is not null and has a type the property schema permits.
\<close>

theorem bound_input_conforms:
  assumes "validate_tool_bindings p catalog = []" and "distinct (map in_name (p_inputs p))"
    and "s \<in> set (p_steps p)" and "s_config s = ToolCall cfg"
    and "s_id s \<notin> condition_routed_step_ids p"
    and "catalog_get catalog (tc_tool cfg) = Some tool"
    and "Option.bind (json_get (te_input_schema tool) ''properties'') as_object = Some props"
    and "map_of props arg = Some sch" and "required_non_nullable_property tool arg sch"
    and "(arg, v) \<in> set (tc_arguments cfg)"
    and "exact_placeholder_name v = Some (''input.'' @ in_name i)"
    and "i \<in> set (p_inputs p)" and "in_value_type i \<noteq> ''any''"
    and "resolve_inputs p provided = Inr m"
  shows "\<exists>w. im_get m (in_name i) = Some w \<and> w \<noteq> JNull \<and> json_value_matches_schema w sch"
proof -
  obtain tool' where "catalog_get catalog (tc_tool cfg) = Some tool'"
    and ct: "check_argument_types p s cfg tool' False = []"
    using tool_step_accepted [OF assms(1,3,4)] assms(5) by metis
  with assms(6) have "check_argument_types p s cfg tool False = []" by simp
  then have b: "check_input_binding s tool arg i sch False = []"
    using bound_argument_checked assms(10,7,8,11,12,2) by blast
  then have dt: "declared_type_matches_schema (in_value_type i) sch"
    and nn: "in_required i \<or> has_concrete_compatible_default i sch"
    using assms(9) by (auto simp: check_input_binding_def Let_def split: if_splits)
  obtain w where w: "im_get m (in_name i) = Some w" "input_value_ok provided i w"
    using assms(14,12) by (auto simp: resolve_inputs_Inr [OF assms(2)])
  then have t: "input_value_matches_type w (in_value_type i)" by (simp add: input_value_ok_def)
  have "w \<noteq> JNull"
    using nn w(2) assms(13)
    by (auto simp: input_value_ok_def has_concrete_compatible_default_def value_defers_to_default_def
        split: option.splits if_splits)
  then show ?thesis using w(1) declared_type_sound [OF dt assms(13) t] by blast
qed

definition count_tool :: tool_entry where
  "count_tool = (demo_tool ''count'')\<lparr>te_input_schema := JObject
     [(''properties'', JObject [(''n'', JObject [(''type'', JString ''integer'')])]),
      (''required'', JArray [JString ''n'']), (''type'', JString ''object'')]\<rparr>"

definition count_step :: plan_step where
  "count_step = (prompt_step ''c'' [] [])\<lparr>s_config :=
     ToolCall \<lparr>tc_tool = ''count'', tc_arguments = [(''n'', JString ''${input.n}'')]\<rparr>\<rparr>"

definition count_plan :: plan where
  "count_plan = demo_plan\<lparr>p_steps := [count_step]\<rparr>"

lemma count_plan_resolve:
  "resolve_inputs count_plan [(''n'', JNull)] = Inr [(''n'', JNumber (NumInt 3)), (''s'', JNull)]"
  by code_simp

lemma bound_input_conforms_witness:
  "\<exists>w. im_get [(''n'', JNumber (NumInt 3)), (''s'', JNull)] ''n'' = Some w \<and> w \<noteq> JNull \<and>
     json_value_matches_schema w (JObject [(''type'', JString ''integer'')])"
proof -
  have i: "in_name (hd demo_inputs) = ''n''" by (simp add: demo_inputs_def)
  have bindings: "validate_tool_bindings count_plan (catalog_new [count_tool]) = []" by code_simp
  have fresh: "s_id count_step \<notin> condition_routed_step_ids count_plan" by code_simp
  have tool: "catalog_get (catalog_new [count_tool]) ''count'' = Some count_tool" by code_simp
  have props: "Option.bind (json_get (te_input_schema count_tool) ''properties'') as_object =
      Some [(''n'', JObject [(''type'', JString ''integer'')])]" by code_simp
  have req: "required_non_nullable_property count_tool ''n'' (JObject [(''type'', JString ''integer'')])"
    by code_simp
  have ph: "exact_placeholder_name (JString ''${input.n}'') = Some (''input.'' @ in_name (hd demo_inputs))"
    by code_simp
  have "distinct (map in_name (p_inputs count_plan))" "hd demo_inputs \<in> set (p_inputs count_plan)"
    "in_value_type (hd demo_inputs) \<noteq> ''any''" "count_step \<in> set (p_steps count_plan)"
    by (simp_all add: count_plan_def demo_plan_def demo_inputs_def)
  then show ?thesis
    using bound_input_conforms [OF bindings _ _ _ fresh _ props _ req _ ph _ _ count_plan_resolve] tool
    unfolding i by (simp add: count_step_def)
qed

end
