(* ===== verification/ValidatorGraph.thy ===== *)
theory ValidatorGraph
  imports Dag
begin

text \<open>
  \<^verbatim>\<open>validator/graph.rs\<close>: missing dependencies and the cycle check.  The in-degree map
  is an association list; the iteration order of the source's \<^verbatim>\<open>HashMap\<close> is not
  specified, here it is the insertion order, which only shows in the order of the names in
  the message.  A degree is an integer: the source's \<^verbatim>\<open>usize\<close> can only fall below 0
  with duplicate step IDs, where it wraps; a negative value stands for the wrapped one, which
  is not 0 and does not come back to 0 within the steps the loop makes.
\<close>

definition missing_dependency_errors :: "plan_step list \<Rightarrow> validation_error list" where
  "missing_dependency_errors ss =
     concat (map (\<lambda>s. map (\<lambda>dep. ve_field_err (s_id s) ''depends_on'' MissingDependency
         (fmt ''step '{}' depends on '{}' which does not exist'' [s_id s, dep]))
       (filter (\<lambda>dep. dep \<notin> s_id ` set ss) (s_depends_on s))) ss)"

definition initial_in_degree :: "plan_step list \<Rightarrow> int imap" where
  "initial_in_degree ss = im_extend [] (map (\<lambda>s. (s_id s, int (length (s_depends_on s)))) ss)"

text \<open>The dependents of a step, once for every time they list it.\<close>

definition dependents :: "plan_step list \<Rightarrow> string \<Rightarrow> string list" where
  "dependents ss d = concat (map (\<lambda>s. map (\<lambda>_. s_id s) (filter ((=) d) (s_depends_on s))) ss)"

text \<open>
  One dependent.  The lookup cannot fail (\<^verbatim>\<open>expect\<close>): a dependent is a step of the
  plan, and every step has an entry.
\<close>

definition decrement :: "string \<Rightarrow> int imap \<times> string list \<Rightarrow> int imap \<times> string list" where
  "decrement dependent = (\<lambda>(in_degree, queue).
     case im_get in_degree dependent of
       None \<Rightarrow> (in_degree, queue)
     | Some d \<Rightarrow> (im_insert dependent (d - 1) in_degree,
                  if d - 1 = 0 then queue @ [dependent] else queue))"

definition degree_sum :: "int imap \<Rightarrow> nat" where
  "degree_sum m = sum_list (map (\<lambda>(k, d). nat d) m)"

lemma degree_sum_update: "im_get m k = Some d \<Longrightarrow>
    degree_sum (im_insert k e m) + nat d = degree_sum m + nat e"
  by (induction m) (auto simp: degree_sum_def im_get_def im_insert_def split: if_splits)

lemma decrement_fold: "fold decrement ds (m, q) = (m', q') \<Longrightarrow>
    degree_sum m' < degree_sum m \<or> degree_sum m' = degree_sum m \<and> q' = q"
proof (induction ds arbitrary: m q)
  case Nil
  then show ?case by simp
next
  case (Cons x ds)
  obtain m1 q1 where one: "decrement x (m, q) = (m1, q1)" by (cases "decrement x (m, q)")
  have "degree_sum m1 < degree_sum m \<or> degree_sum m1 = degree_sum m \<and> q1 = q"
  proof (cases "im_get m x")
    case None
    with one show ?thesis by (simp add: decrement_def)
  next
    case (Some d)
    with one degree_sum_update [OF Some, of "d - 1"] show ?thesis
      by (auto simp: decrement_def split: if_splits)
  qed
  moreover have "fold decrement ds (m1, q1) = (m', q')" using Cons.prems one by simp
  ultimately show ?case using Cons.IH [of m1 q1] by auto
qed

function cycle_loop ::
    "plan_step list \<Rightarrow> int imap \<Rightarrow> string list \<Rightarrow> nat \<Rightarrow> int imap \<times> nat" where
  "cycle_loop ss in_degree [] visited = (in_degree, visited)"
| "cycle_loop ss in_degree (i # queue) visited =
     (case fold decrement (dependents ss i) (in_degree, queue) of
        (in_degree', queue') \<Rightarrow> cycle_loop ss in_degree' queue' (visited + 1))"
  by pat_completeness auto
termination
proof (relation "measures [\<lambda>(ss, m, q, v). degree_sum m, \<lambda>(ss, m, q, v). length q]", goal_cases)
  case 1
  show ?case by simp
next
  case (2 ss m i q v m' q')
  then have "fold decrement (dependents ss i) (m, q) = (m', q')" by simp
  from decrement_fold [OF this] show ?case by auto
qed

definition detect_cycle :: "plan_step list \<Rightarrow> validation_error option" where
  "detect_cycle ss =
     (let in_degree = initial_in_degree ss;
          queue = map fst (filter (\<lambda>(k, deg). deg = 0) in_degree);
          (in_degree', visited) = cycle_loop ss in_degree queue 0 in
      if length ss \<le> visited then None
      else
        let participants = map fst (filter (\<lambda>(k, deg). deg \<noteq> 0) in_degree') in
        Some (ve_plan_err CyclicDependency
          (fmt ''plan contains a dependency cycle involving steps: {}'' [join '', '' participants])))"

definition validate_graph :: "plan_step list \<Rightarrow> validation_error list" where
  "validate_graph ss =
     (let errors = missing_dependency_errors ss in
      if list_ex (\<lambda>e. ve_kind e = MissingDependency) errors then errors
      else case detect_cycle ss of Some e \<Rightarrow> errors @ [e] | None \<Rightarrow> errors)"

section \<open>The loop's invariant\<close>

lemma count_list_pos: "0 < k \<Longrightarrow> k \<le> int (count_list xs x) \<Longrightarrow> x \<in> set xs"
  by (cases "x \<in> set xs") (simp_all add: count_notin)

lemma fold_decrement:
  assumes "\<forall>x \<in> set ds. im_get m x \<noteq> None" and "fold decrement ds (m, q) = (m', q')"
  shows "(\<forall>x. im_get m' x = map_option (\<lambda>d. d - int (count_list ds x)) (im_get m x)) \<and>
    (\<exists>new. q' = q @ new \<and> distinct new \<and>
      set new = {x \<in> set ds. 0 < the (im_get m x) \<and> the (im_get m x) \<le> int (count_list ds x)})"
  using assms
proof (induction ds arbitrary: m q)
  case Nil
  then show ?case by (auto simp: option.map_ident)
next
  case (Cons y ds)
  then obtain d where d: "im_get m y = Some d" by auto
  let ?m1 = "im_insert y (d - 1) m" and ?q1 = "if d - 1 = 0 then q @ [y] else q"
  have f: "fold decrement ds (?m1, ?q1) = (m', q')"
  proof -
    have "decrement y (m, q) = (?m1, ?q1)" using d by (simp add: decrement_def)
    with Cons.prems(2) show ?thesis by simp
  qed
  have "\<forall>x \<in> set ds. im_get ?m1 x \<noteq> None" using Cons.prems(1) by (auto simp: im.get_put)
  from Cons.IH [OF this f] obtain new where
    g: "\<And>x. im_get m' x = map_option (\<lambda>d. d - int (count_list ds x)) (im_get ?m1 x)" and
    n: "q' = ?q1 @ new" "distinct new"
      "set new = {x \<in> set ds. 0 < the (im_get ?m1 x) \<and> the (im_get ?m1 x) \<le> int (count_list ds x)}"
    by blast
  have "\<forall>x. im_get m' x = map_option (\<lambda>d. d - int (count_list (y # ds) x)) (im_get m x)"
    using g d by (auto simp: im.get_put option.map_comp comp_def)
  moreover have "\<exists>new'. q' = q @ new' \<and> distinct new' \<and> set new' =
      {x \<in> set (y # ds). 0 < the (im_get m x) \<and> the (im_get m x) \<le> int (count_list (y # ds) x)}"
  proof -
    let ?c = "\<lambda>x. 0 < the (im_get m x) \<and> the (im_get m x) \<le> int (count_list (y # ds) x)"
    have other: "x \<in> set new \<longleftrightarrow> x \<in> set ds \<and> ?c x" if "x \<noteq> y" for x
      unfolding n(3) using that by (simp add: im.get_put)
    have self: "y \<in> set new \<longleftrightarrow> 0 < d - 1 \<and> d - 1 \<le> int (count_list ds y)"
      unfolding n(3) using count_list_pos [of "d - 1" ds y] by (auto simp: im.get_put)
    show ?thesis
    proof (cases "d = 1")
      case True
      have "set (y # new) = {x \<in> set (y # ds). ?c x}"
      proof (rule set_eqI)
        show "x \<in> set (y # new) \<longleftrightarrow> x \<in> {x \<in> set (y # ds). ?c x}" for x
          using other [of x] d True by (cases "x = y") simp_all
      qed
      with n True self show ?thesis by (intro exI [of _ "y # new"]) simp
    next
      case False
      have "set new = {x \<in> set (y # ds). ?c x}"
      proof (rule set_eqI)
        show "x \<in> set new \<longleftrightarrow> x \<in> {x \<in> set (y # ds). ?c x}" for x
          using other [of x] self d False by (cases "x = y") auto
      qed
      with n False show ?thesis by (intro exI [of _ new]) simp
    qed
  qed
  ultimately show ?case by blast
qed

definition open_deps :: "string list \<Rightarrow> plan_step \<Rightarrow> string list" where
  "open_deps popped s = filter (\<lambda>d. d \<notin> set popped) (s_depends_on s)"

definition cycle_inv :: "plan_step list \<Rightarrow> int imap \<Rightarrow> string list \<Rightarrow> string list \<Rightarrow> bool" where
  "cycle_inv ss deg queue popped \<longleftrightarrow>
     (\<forall>s \<in> set ss. im_get deg (s_id s) = Some (int (length (open_deps popped s)))) \<and>
     distinct (popped @ queue) \<and>
     set (popped @ queue) = {s_id s | s. s \<in> set ss \<and> open_deps popped s = []} \<and>
     (\<forall>a < length popped. \<forall>s \<in> set ss. s_id s = popped ! a \<longrightarrow>
        set (s_depends_on s) \<subseteq> set (take a popped))"

lemma initial_in_degree_distinct: "distinct (map s_id ss) \<Longrightarrow>
    initial_in_degree ss = map (\<lambda>s. (s_id s, int (length (s_depends_on s)))) ss"
  unfolding initial_in_degree_def
  by (subst im_extend_new) (simp_all add: im_keys_def comp_def)

lemma im_get_map: "distinct (map f xs) \<Longrightarrow> x \<in> set xs \<Longrightarrow> im_get (map (\<lambda>x. (f x, g x)) xs) (f x) = Some (g x)"
  unfolding im_get_def by (rule map_of_is_SomeI) (auto simp: comp_def)

lemma cycle_inv_start:
  assumes "distinct (map s_id ss)"
  shows "cycle_inv ss (initial_in_degree ss)
    (map fst (filter (\<lambda>(k, deg). deg = 0) (initial_in_degree ss))) []"
proof -
  let ?m = "map (\<lambda>s. (s_id s, int (length (s_depends_on s)))) ss"
  have f: "map fst (filter (\<lambda>(k, deg). deg = 0) ?m) = map s_id (filter (\<lambda>s. s_depends_on s = []) ss)"
    by (induction ss) auto
  have "distinct (map s_id (filter (\<lambda>s. s_depends_on s = []) ss))"
    using assms by (rule distinct_map_filter)
  then show ?thesis
    unfolding cycle_inv_def initial_in_degree_distinct [OF assms] f open_deps_def
    using im_get_map [OF assms, of _ "\<lambda>s. int (length (s_depends_on s))"] by auto
qed

lemma count_const: "count_list (map (\<lambda>_. j) xs) i = (if i = j then length xs else 0)"
  by (induction xs) auto

lemma length_filter_eq: "length (filter ((=) d) xs) = count_list xs d"
  by (induction xs) auto

lemma count_dependents: "distinct (map s_id ss) \<Longrightarrow> s \<in> set ss \<Longrightarrow>
    count_list (dependents ss d) (s_id s) = count_list (s_depends_on s) d"
proof (induction ss)
  case Nil
  then show ?case by simp
next
  case (Cons t ss)
  have none: "count_list (dependents ss d) (s_id t) = 0"
    using Cons.prems(1) by (auto simp: dependents_def count_list_0_iff)
  have "dependents (t # ss) d = map (\<lambda>_. s_id t) (filter ((=) d) (s_depends_on t)) @ dependents ss d"
    by (simp add: dependents_def)
  with Cons none show ?case
    by (cases "s = t") (auto simp: count_const length_filter_eq image_iff)
qed

lemma count_filter_popped: "i \<notin> set popped \<Longrightarrow>
    count_list (filter (\<lambda>d. d \<notin> set popped) xs) i = count_list xs i"
  by (induction xs) auto

lemma dependents_steps: "set (dependents ss d) = {s_id s | s. s \<in> set ss \<and> d \<in> set (s_depends_on s)}"
  by (auto simp: dependents_def)

lemma open_deps_snoc: "open_deps (popped @ [i]) s = filter (\<lambda>d. d \<noteq> i) (open_deps popped s)"
  by (simp add: open_deps_def) (rule filter_cong; auto)

lemma length_filter_neq: "length (filter (\<lambda>d. d \<noteq> i) xs) + count_list xs i = length xs"
  by (induction xs) auto

lemma cycle_inv_step:
  assumes inv: "cycle_inv ss deg (i # queue) popped" and d: "distinct (map s_id ss)"
    and f: "fold decrement (dependents ss i) (deg, queue) = (deg', queue')"
  shows "cycle_inv ss deg' queue' (popped @ [i])"
proof -
  have get: "\<And>s. s \<in> set ss \<Longrightarrow> im_get deg (s_id s) = Some (int (length (open_deps popped s)))"
    and dist: "distinct (popped @ i # queue)"
    and sets: "\<And>x. x \<in> set (popped @ i # queue) \<longleftrightarrow> (\<exists>s \<in> set ss. x = s_id s \<and> open_deps popped s = [])"
    and before: "\<And>a s. a < length popped \<Longrightarrow> s \<in> set ss \<Longrightarrow> s_id s = popped ! a \<Longrightarrow>
      set (s_depends_on s) \<subseteq> set (take a popped)"
    using inv by (auto simp: cycle_inv_def)
  have same: "s = t" if "s \<in> set ss" "t \<in> set ss" "s_id s = s_id t" for s t
    using d that by (auto simp: distinct_map dest: inj_onD)
  have cnt: "int (count_list (dependents ss i) (s_id s)) =
      int (length (open_deps popped s)) - int (length (open_deps (popped @ [i]) s))" if "s \<in> set ss" for s
  proof -
    have "count_list (open_deps popped s) i = count_list (s_depends_on s) i"
      using dist by (simp add: open_deps_def count_filter_popped)
    with length_filter_neq [of i "open_deps popped s"] count_dependents [OF d that, of i] show ?thesis
      by (simp add: open_deps_snoc)
  qed
  have "\<forall>x \<in> set (dependents ss i). im_get deg x \<noteq> None"
    using get by (auto simp: dependents_steps)
  from fold_decrement [OF this f] obtain new where
    g: "\<And>x. im_get deg' x = map_option (\<lambda>d. d - int (count_list (dependents ss i) x)) (im_get deg x)"
    and n: "queue' = queue @ new" "distinct new"
      "set new = {x \<in> set (dependents ss i). 0 < the (im_get deg x) \<and>
         the (im_get deg x) \<le> int (count_list (dependents ss i) x)}" by blast
  have get': "\<forall>s \<in> set ss. im_get deg' (s_id s) = Some (int (length (open_deps (popped @ [i]) s)))"
    using g get cnt by simp
  have new: "x \<in> set new \<longleftrightarrow> (\<exists>s \<in> set ss. x = s_id s \<and> open_deps popped s \<noteq> [] \<and>
      open_deps (popped @ [i]) s = [])" for x
  proof
    assume "x \<in> set new"
    then obtain s where s: "s \<in> set ss" "x = s_id s" and
      le: "0 < the (im_get deg x)" "the (im_get deg x) \<le> int (count_list (dependents ss i) x)"
      unfolding n(3) dependents_steps by blast
    with get [OF s(1)] cnt [OF s(1)] show "\<exists>s \<in> set ss. x = s_id s \<and> open_deps popped s \<noteq> [] \<and>
        open_deps (popped @ [i]) s = []" by auto
  next
    assume "\<exists>s \<in> set ss. x = s_id s \<and> open_deps popped s \<noteq> [] \<and> open_deps (popped @ [i]) s = []"
    then obtain s where s: "s \<in> set ss" "x = s_id s" "open_deps popped s \<noteq> []"
      "open_deps (popped @ [i]) s = []" by blast
    with get [OF s(1)] cnt [OF s(1)] have
      "0 < the (im_get deg x)" "the (im_get deg x) \<le> int (count_list (dependents ss i) x)" by auto
    then show "x \<in> set new" unfolding n(3) by (simp add: count_list_pos)
  qed
  have dist': "distinct ((popped @ [i]) @ queue')"
  proof -
    have "x \<notin> set (popped @ i # queue)" if "x \<in> set new" for x
      using that same unfolding new sets by blast
    with dist n(1,2) show ?thesis by auto
  qed
  have snoc: "open_deps popped s = [] \<Longrightarrow> open_deps (popped @ [i]) s = []" for s
    by (simp add: open_deps_snoc)
  have "x \<in> set ((popped @ [i]) @ queue') \<longleftrightarrow>
      x \<in> {s_id s | s. s \<in> set ss \<and> open_deps (popped @ [i]) s = []}" for x
  proof -
    have "x \<in> set ((popped @ [i]) @ queue') \<longleftrightarrow> x \<in> set (popped @ i # queue) \<or> x \<in> set new"
      using n(1) by auto
    then show ?thesis unfolding sets new using snoc by blast
  qed
  then have sets': "set ((popped @ [i]) @ queue') =
      {s_id s | s. s \<in> set ss \<and> open_deps (popped @ [i]) s = []}" by blast
  have before': "set (s_depends_on s) \<subseteq> set (take a (popped @ [i]))"
    if "a < length (popped @ [i])" "s \<in> set ss" "s_id s = (popped @ [i]) ! a" for a s
  proof (cases "a < length popped")
    case True
    with that before [of a s] show ?thesis by (simp add: nth_append)
  next
    case False
    then have "a = length popped" using that(1) by simp
    then have a: "a = length popped" "s_id s = i" using that(3) by simp_all
    from sets [of i] obtain t where "t \<in> set ss" "i = s_id t" "open_deps popped t = []" by auto
    with same [of s t] that(2) a(2) have "open_deps popped s = []" by simp
    then show ?thesis using a(1) by (auto simp: open_deps_def filter_empty_conv)
  qed
  show ?thesis
    unfolding cycle_inv_def using get' dist' sets' before' by blast
qed
lemma cycle_loop_inv:
  "cycle_inv ss deg queue popped \<Longrightarrow> distinct (map s_id ss) \<Longrightarrow>
   \<exists>deg' popped'. cycle_loop ss deg queue (length popped) = (deg', length popped') \<and>
     cycle_inv ss deg' [] popped'"
proof (induction ss deg queue "length popped" arbitrary: popped rule: cycle_loop.induct)
  case (1 ss deg)
  then show ?case by auto
next
  case (2 ss deg i queue)
  obtain deg' queue' where f: "fold decrement (dependents ss i) (deg, queue) = (deg', queue')"
    by (cases "fold decrement (dependents ss i) (deg, queue)")
  from "2.hyps" [OF f [symmetric], of "popped @ [i]"] "2.prems"(2)
    cycle_inv_step [OF "2.prems" f] f
  show ?case by simp
qed

lemma position_before: "x \<in> set (take a xs) \<Longrightarrow> length (takeWhile (\<lambda>y. y \<noteq> x) xs) < a"
proof (induction xs arbitrary: a)
  case Nil
  then show ?case by simp
next
  case (Cons y xs)
  then show ?case by (cases a) auto
qed

lemma cycle_inv_acyclic:
  assumes inv: "cycle_inv ss deg [] popped" and all: "set popped = s_id ` set ss"
  shows "acyclic (dep_edges ss)"
proof (rule acyclic_rank)
  let ?f = "\<lambda>x. length (takeWhile (\<lambda>y. y \<noteq> x) popped)"
  have at: "?f x < length popped \<and> popped ! ?f x = x" if "x \<in> set popped" for x
    using that by (induction popped) auto
  fix x y assume "(x, y) \<in> dep_edges ss"
  then obtain s where s: "s \<in> set ss" "y = s_id s" "x \<in> set (s_depends_on s)"
    by (auto simp: dep_edges_def)
  with all have fy: "?f y < length popped" "s_id s = popped ! ?f y" using at [of y] by auto
  have "\<forall>a < length popped. \<forall>s \<in> set ss. s_id s = popped ! a \<longrightarrow>
      set (s_depends_on s) \<subseteq> set (take a popped)"
    using inv by (simp add: cycle_inv_def)
  from this [rule_format, OF fy(1) s(1) fy(2)] s(3) have "x \<in> set (take (?f y) popped)" by blast
  then show "?f x < ?f y" by (rule position_before)
qed

lemma cycle_inv_complete:
  assumes inv: "cycle_inv ss deg [] popped" and ac: "acyclic (dep_edges ss)"
    and deps: "\<forall>s \<in> set ss. set (s_depends_on s) \<subseteq> s_id ` set ss"
  shows "set popped = s_id ` set ss"
proof (rule ccontr)
  let ?X = "{s \<in> set ss. s_id s \<notin> set popped}"
  assume "set popped \<noteq> s_id ` set ss"
  moreover have sub: "set popped = {s_id s | s. s \<in> set ss \<and> open_deps popped s = []}"
    using inv by (simp add: cycle_inv_def)
  ultimately have "?X \<noteq> {}" by blast
  then obtain s where s: "s \<in> ?X" and free: "\<forall>t \<in> ?X. s_id t \<notin> set (s_depends_on s)"
    using schedulable_minimal [OF ac, of ?X] by blast
  have "open_deps popped s = []"
    using s free deps unfolding open_deps_def filter_empty_conv by fastforce
  with s sub show False by blast
qed

lemma detect_cycle_None:
  assumes "distinct (map s_id ss)" and "\<forall>s \<in> set ss. set (s_depends_on s) \<subseteq> s_id ` set ss"
  shows "detect_cycle ss = None \<longleftrightarrow> acyclic (dep_edges ss)"
proof -
  let ?q = "map fst (filter (\<lambda>(k, deg). deg = 0) (initial_in_degree ss))"
  obtain deg popped where l: "cycle_loop ss (initial_in_degree ss) ?q 0 = (deg, length popped)"
    and inv: "cycle_inv ss deg [] popped"
    using cycle_loop_inv [OF cycle_inv_start [OF assms(1)] assms(1)] by auto
  have sub: "set popped \<subseteq> s_id ` set ss" and "distinct popped"
    using inv by (auto simp: cycle_inv_def)
  moreover have "card (s_id ` set ss) = length ss"
    using distinct_card [OF assms(1)] by simp
  ultimately have "length ss \<le> length popped \<longleftrightarrow> set popped = s_id ` set ss"
    using card_seteq [OF _ sub] distinct_card [of popped] by fastforce
  also have "\<dots> \<longleftrightarrow> acyclic (dep_edges ss)"
    using cycle_inv_acyclic [OF inv] cycle_inv_complete [OF inv _ assms(2)] by blast
  finally show ?thesis
    by (simp add: detect_cycle_def l)
qed

lemma missing_dependency_errors_Nil:
  "missing_dependency_errors ss = [] \<longleftrightarrow> (\<forall>s \<in> set ss. set (s_depends_on s) \<subseteq> s_id ` set ss)"
  by (auto simp: missing_dependency_errors_def filter_empty_conv)

lemma missing_dependency_kind: "e \<in> set (missing_dependency_errors ss) \<Longrightarrow> ve_kind e = MissingDependency"
  by (auto simp: missing_dependency_errors_def ve_field_err_def)

lemma validate_graph_Nil:
  assumes "distinct (map s_id ss)"
  shows "validate_graph ss = [] \<longleftrightarrow>
    (\<forall>s \<in> set ss. set (s_depends_on s) \<subseteq> s_id ` set ss) \<and> acyclic (dep_edges ss)"
proof (cases "missing_dependency_errors ss = []")
  case True
  then have "validate_graph ss = [] \<longleftrightarrow> detect_cycle ss = None"
    by (simp add: validate_graph_def split: option.split)
  with True detect_cycle_None [OF assms] show ?thesis
    by (auto simp: missing_dependency_errors_Nil)
next
  case False
  then have "list_ex (\<lambda>e. ve_kind e = MissingDependency) (missing_dependency_errors ss)"
    using missing_dependency_kind by (auto simp: list_ex_iff neq_Nil_conv)
  with False have "validate_graph ss \<noteq> []" by (simp add: validate_graph_def)
  moreover have "\<not> (\<forall>s \<in> set ss. set (s_depends_on s) \<subseteq> s_id ` set ss)"
    using False unfolding missing_dependency_errors_Nil .
  ultimately show ?thesis by blast
qed

section \<open>Properties\<close>

text \<open>
  C7: the graph pass is exact.  For distinct step IDs it reports nothing if and only if every
  listed dependency is a step of the plan and the dependencies have no cycle.
\<close>

theorem validate_graph_iff:
  assumes "distinct (map s_id ss)"
  shows "validate_graph ss = [] \<longleftrightarrow>
    (\<forall>s \<in> set ss. set (s_depends_on s) \<subseteq> s_id ` set ss) \<and> acyclic (dep_edges ss)"
  using assms by (rule validate_graph_Nil)

lemma diamond_distinct: "distinct (map s_id diamond)"
  by (simp add: diamond_def)

lemma diamond_accepted: "validate_graph diamond = []"
  by code_simp

lemma validate_graph_iff_witness: "acyclic (dep_edges diamond)"
  using validate_graph_iff [OF diamond_distinct] diamond_accepted by simp

text \<open>
  What the graph pass accepts is executed in dependency order, provided no step lists a
  dependency twice.
\<close>

theorem accepted_order:
  assumes "validate_graph ss = []" and "distinct (map s_id ss)"
    and "\<forall>s \<in> set ss. distinct (s_depends_on s)"
  shows "deps_first (topological_order ss)"
  using assms by (intro topo.respects) (simp add: schedulable_def validate_graph_Nil)

lemma accepted_order_witness: "deps_first (topological_order diamond)"
  by (rule accepted_order [OF diamond_accepted diamond_distinct]) (simp add: diamond_def)


end
