(* ===== verification/Validator.thy ===== *)
theory Validator
  imports ToolBinding ValidatorGraph Expression
begin

text \<open>
  \<^verbatim>\<open>validator/mod.rs\<close>: the structural pass, the contract of each step kind, the FAN_OUT
  and CONDITION constraints, and \<^verbatim>\<open>validate\<close>, which runs every pass.  A message that
  lists the members of a hash set lists them in the order they were inserted.
\<close>

section \<open>Structure\<close>

definition ALLOWED_INPUT_TYPES :: "string list" where
  "ALLOWED_INPUT_TYPES =
     [''string'', ''number'', ''integer'', ''boolean'', ''object'', ''array'', ''any'']"

definition is_addressable_identifier :: "string \<Rightarrow> bool" where
  "is_addressable_identifier name \<longleftrightarrow>
     (case name of [] \<Rightarrow> False | first # rest \<Rightarrow> ascii_alpha first \<or> first = CHR ''_'') \<and>
     list_all (\<lambda>ch. ascii_alphanumeric ch \<or> ch = CHR ''_'' \<or> ch = CHR ''-'') name"

definition check_plan_input_shape :: "plan_input \<Rightarrow> validation_error list" where
  "check_plan_input_shape i =
     (if in_value_type i \<notin> set ALLOWED_INPUT_TYPES then
        [ve_plan_err TypeMismatch (fmt ''plan input '{}' has unsupported type '{}{}''
           [in_name i, in_value_type i, squote])]
      else []) @
     (if requires_string (in_kind i) \<and> in_value_type i \<noteq> ''string'' then
        [ve_plan_err TypeMismatch
           (fmt ''plan input '{}' has path input kind '{}' but value_type is '{}'; path inputs must use value_type 'string{}''
              [in_name i, input_kind_name (in_kind i), in_value_type i, squote])]
      else []) @
     (case in_default i of
        Some d \<Rightarrow>
          if \<not> input_value_matches_type d (in_value_type i) then
            [ve_plan_err TypeMismatch (fmt ''default for plan input '{}' must be {}, got {}''
               [in_name i, in_value_type i, json_type_name d])]
          else []
      | None \<Rightarrow> [])"

fun check_plan_inputs :: "plan_input list \<Rightarrow> string set \<Rightarrow> validation_error list" where
  "check_plan_inputs [] input_names = []"
| "check_plan_inputs (i # is) input_names =
     (if \<not> is_addressable_identifier (in_name i) then
        [ve_plan_err InvalidStepConfig
           (fmt ''plan input '{}' must start with a letter or underscore and contain only letters, numbers, underscores, or hyphens''
              [in_name i])]
      else if in_name i \<in> input_names then
        [ve_plan_err InvalidStepConfig (''duplicate plan input name: '' @ in_name i)]
      else []) @
     check_plan_input_shape i @
     check_plan_inputs is
       (if is_addressable_identifier (in_name i) then insert (in_name i) input_names else input_names)"

definition validate_plan_inputs :: "plan \<Rightarrow> validation_error list" where
  "validate_plan_inputs p = check_plan_inputs (p_inputs p) {}"

fun check_step_ids :: "plan_step list \<Rightarrow> string set \<Rightarrow> validation_error list" where
  "check_step_ids [] seen = []"
| "check_step_ids (s # ss) seen =
     (if \<not> is_addressable_identifier (s_id s) then
        [ve_step_err (s_id s) InvalidStepConfig
           (fmt ''step ID '{}' must start with a letter or underscore and contain only letters, numbers, underscores, or hyphens''
              [s_id s])]
      else []) @
     (if s_id s \<in> seen then
        [ve_step_err (s_id s) DuplicateStepId (''duplicate step ID: '' @ s_id s)]
      else []) @
     check_step_ids ss (insert (s_id s) seen)"

fun check_output_names :: "plan_step \<Rightarrow> plan_output list \<Rightarrow> string set \<Rightarrow> validation_error list" where
  "check_output_names s [] output_names = []"
| "check_output_names s (out # outs) output_names =
     (if \<not> is_addressable_identifier (po_name out) then
        [ve_field_err (s_id s) ''outputs'' InvalidStepConfig
           (fmt ''step output '{}' must be a placeholder-addressable identifier'' [po_name out])]
      else if po_name out \<in> output_names then
        [ve_field_err (s_id s) ''outputs'' InvalidStepConfig
           (''duplicate step output name: '' @ po_name out)]
      else []) @
     check_output_names s outs
       (if is_addressable_identifier (po_name out) then insert (po_name out) output_names
        else output_names)"

definition validate_step_ids :: "plan \<Rightarrow> validation_error list" where
  "validate_step_ids p =
     check_step_ids (p_steps p) {} @
     concat (map (\<lambda>s. check_output_names s (s_outputs s) {}) (p_steps p))"

definition validate_structure :: "plan \<Rightarrow> validation_error list" where
  "validate_structure p =
     (if p_steps p = [] then [ve_plan_err EmptyPlan ''plan has no steps'']
      else validate_plan_inputs p @ validate_step_ids p)"

section \<open>Step contracts\<close>

definition SUPPORTED_CODE_LANGUAGES :: "string list" where
  "SUPPORTED_CODE_LANGUAGES =
     [''python'', ''python3'', ''py'', ''bash'', ''sh'', ''shell'', ''javascript'', ''js'', ''node'',
      ''powershell'', ''pwsh'', ''ps1'', ''cmd'', ''bat'', ''batch'']"

definition CONDITION_RESULT_OUTPUT :: string where
  "CONDITION_RESULT_OUTPUT = ''result''"

definition validate_configured_output :: "plan_step \<Rightarrow> string \<Rightarrow> validation_error list" where
  "validate_configured_output s output_name =
     (if \<not> is_addressable_identifier output_name then
        [ve_field_err (s_id s) ''config'' InvalidStepConfig
           (fmt ''configured output field '{}' is not placeholder-addressable'' [output_name])]
      else if s_outputs s \<noteq> [] \<and> \<not> list_ex (\<lambda>out. po_name out = output_name) (s_outputs s) then
        [ve_field_err (s_id s) ''outputs'' InvalidStepConfig
           (fmt ''step '{}' declares outputs but omits its configured output '{}{}''
              [s_id s, output_name, squote])]
      else [])"

definition is_root_directory_path :: "string \<Rightarrow> bool" where
  "is_root_directory_path working_dir \<longleftrightarrow>
     (let root = braced (''input.'' @ ROOT_DIRECTORY_INPUT) in
      working_dir = root \<or>
      (case strip_prefix working_dir root of
         Some (c # suffix) \<Rightarrow> c = CHR ''/'' \<or> c = CHR 0x5C
       | _ \<Rightarrow> False))"

definition check_working_dir :: "plan_input \<Rightarrow> plan_step \<Rightarrow> validation_error list" where
  "check_working_dir i s =
     (let check = (\<lambda>kind working_dir permits_implicit_workspace.
        (case working_dir of
           None \<Rightarrow>
             if permits_implicit_workspace \<and> \<not> in_required i then []
             else [ve_field_err (s_id s) ''config.working_dir'' MissingRootDirectoryInput
               (fmt ''{} step '{}' must derive working_dir from '${{input.{}}}' because the input is required''
                  [kind, s_id s, ROOT_DIRECTORY_INPUT])]
         | Some dir \<Rightarrow>
             if is_root_directory_path dir then []
             else [ve_field_err (s_id s) ''config.working_dir'' MissingRootDirectoryInput
               (fmt ''{} step '{}' working_dir must be '${{input.{}}}' or a path derived from it''
                  [kind, s_id s, ROOT_DIRECTORY_INPUT])]))
      in case s_config s of
        CodeCall c \<Rightarrow> check ''CODE_CALL'' (cc_working_dir c) True
      | AgentCall c \<Rightarrow> check ''AGENT_CALL'' (Some (ac_working_dir c)) False
      | _ \<Rightarrow> [])"

definition validate_root_directory_input :: "plan \<Rightarrow> validation_error list" where
  "validate_root_directory_input p =
     (if \<not> requires_root_directory p then []
      else (case root_directory_input p of
        None \<Rightarrow> [ve_plan_err MissingRootDirectoryInput
          (fmt ''plan runs a command (CODE_CALL or AGENT_CALL) but does not declare a '{}' input for its working directory''
             [ROOT_DIRECTORY_INPUT])]
      | Some i \<Rightarrow>
          (if in_value_type i \<noteq> ''string'' then
             [ve_plan_err MissingRootDirectoryInput
                (fmt ''plan input '{}' must have value_type 'string', got '{}{}''
                   [ROOT_DIRECTORY_INPUT, in_value_type i, squote])]
           else []) @
          concat (map (check_working_dir i) (p_steps p))))"

definition validate_agent_call_contract :: "plan_step \<Rightarrow> agent_call_config \<Rightarrow> validation_error list" where
  "validate_agent_call_contract s c =
     (if trim (ac_objective c) = [] then
        [ve_field_err (s_id s) ''config.objective'' InvalidStepConfig
           ''AGENT_CALL requires a non-empty objective'']
      else []) @
     (if ac_timeout_secs c = Some 0 then
        [ve_field_err (s_id s) ''config.timeout_secs'' InvalidStepConfig
           ''AGENT_CALL timeout_secs must be greater than zero'']
      else [])"

definition non_blank :: "string option \<Rightarrow> string option" where
  "non_blank source = (case source of Some s \<Rightarrow> if trim s = [] then None else Some s | None \<Rightarrow> None)"

definition check_static_source ::
    "plan_step \<Rightarrow> string \<times> string option \<Rightarrow> validation_error list" where
  "check_static_source s = (\<lambda>(field, source).
     (case source of None \<Rightarrow> []
      | Some source \<Rightarrow> map (\<lambda>placeholder.
          ve_field_err (s_id s) (''config.'' @ field) InvalidStepConfig
            (fmt ''CODE_CALL {} in step '{}' must be static but contains plan placeholder '{}' {} pass runtime values through args, env, or stdin''
               [field, s_id s, placeholder, em_dash]))
          (rev (remdups (rev (plan_placeholders_in_source source))))))"

definition validate_code_call_contract :: "plan_step \<Rightarrow> code_call_config \<Rightarrow> validation_error list" where
  "validate_code_call_contract s c =
     (let inline = non_blank (cc_inline c); file = non_blank (cc_file c) in
      (if (inline \<noteq> None) = (file \<noteq> None) then
         [ve_field_err (s_id s) ''config'' InvalidStepConfig
            ''CODE_CALL requires exactly one non-empty source: inline or file'']
       else []) @
      concat (map (check_static_source s) [(''inline'', inline), (''file'', file)]) @
      (if to_ascii_lowercase (trim (cc_language c)) \<notin> set SUPPORTED_CODE_LANGUAGES then
         [ve_field_err (s_id s) ''config.language'' InvalidStepConfig
            (fmt ''CODE_CALL has unsupported language '{}{}'' [cc_language c, squote])]
       else []) @
      (if cc_timeout_secs c = Some 0 then
         [ve_field_err (s_id s) ''config.timeout_secs'' InvalidStepConfig
            ''CODE_CALL timeout_secs must be greater than zero'']
       else []))"

definition validate_human_interaction_contract :: "plan_step \<Rightarrow> human_config \<Rightarrow> validation_error list" where
  "validate_human_interaction_contract s c =
     (if trim (hi_prompt c) = [] then
        [ve_field_err (s_id s) ''config.prompt'' InvalidStepConfig
           ''HUMAN_INTERACTION requires a non-empty prompt'']
      else []) @
     validate_configured_output s (hi_response_field c)"

fun check_fan_in_sources :: "plan \<Rightarrow> plan_step \<Rightarrow> string list \<Rightarrow> string set \<Rightarrow> validation_error list" where
  "check_fan_in_sources p s [] seen = []"
| "check_fan_in_sources p s (source_id # sources) seen =
     (if source_id \<in> seen then
        ve_field_err (s_id s) ''config.from_steps'' InvalidStepConfig
          (fmt ''FAN_IN contains duplicate source step '{}{}'' [source_id, squote]) #
        check_fan_in_sources p s sources seen
      else
        (if source_id = s_id s then
           [ve_field_err (s_id s) ''config.from_steps'' InvalidStepConfig
              ''FAN_IN cannot collect from itself'']
         else if plan_find_step p source_id = None then
           [ve_field_err (s_id s) ''config.from_steps'' MissingDependency
              (fmt ''FAN_IN source step '{}' does not exist'' [source_id])]
         else if \<not> depends_transitively p (s_id s) source_id then
           [ve_field_err (s_id s) ''depends_on'' MissingDependency
              (fmt ''FAN_IN step '{}' must depend on source step '{}{}'' [s_id s, source_id, squote])]
         else []) @
        check_fan_in_sources p s sources (insert source_id seen))"

definition validate_fan_in_contract :: "plan \<Rightarrow> plan_step \<Rightarrow> fan_in_config \<Rightarrow> validation_error list" where
  "validate_fan_in_contract p s c =
     validate_configured_output s (fi_collect_field c) @
     (if fi_from_steps c = [] then
        [ve_field_err (s_id s) ''config.from_steps'' InvalidStepConfig
           ''FAN_IN requires at least one source step'']
      else []) @
     check_fan_in_sources p s (fi_from_steps c) {}"

definition validate_prompt_call_contract :: "plan_step \<Rightarrow> prompt_call_config \<Rightarrow> validation_error list" where
  "validate_prompt_call_contract s c =
     (if trim (pc_model c) = [] then
        [ve_field_err (s_id s) ''config.model'' PromptCallConstraint
           ''PROMPT_CALL requires an explicit model identifier'']
      else []) @
     (if trim (pc_user_prompt c) = [] then
        [ve_field_err (s_id s) ''config.user_prompt'' PromptCallConstraint
           ''PROMPT_CALL requires a non-empty user_prompt'']
      else []) @
     (if trim (pc_output_field c) = [] then
        [ve_field_err (s_id s) ''config.output_field'' PromptCallConstraint
           ''PROMPT_CALL requires an output_field to store the result'']
      else validate_configured_output s (pc_output_field c)) @
     (if pc_max_tokens c = Some 0 then
        [ve_field_err (s_id s) ''config.max_tokens'' PromptCallConstraint
           ''PROMPT_CALL max_tokens must be greater than zero'']
      else [])"

section \<open>FAN_OUT constraints\<close>

definition spawn_owners :: "plan \<Rightarrow> (string \<times> string) list" where
  "spawn_owners p = concat (map (\<lambda>s. case s_config s of
       FanOut c \<Rightarrow> map (\<lambda>spawn_id. (spawn_id, s_id s)) (fo_spawn_steps c)
     | _ \<Rightarrow> []) (p_steps p))"

fun repeated_spawns :: "plan_step \<Rightarrow> string list \<Rightarrow> string set \<Rightarrow> validation_error list" where
  "repeated_spawns s [] local = []"
| "repeated_spawns s (spawn_id # spawns) local =
     (if spawn_id \<in> local then
        [ve_field_err (s_id s) ''config.spawn_steps'' InvalidStepConfig
           (fmt ''FAN_OUT step '{}' lists spawn step '{}' more than once'' [s_id s, spawn_id])]
      else []) @
     repeated_spawns s spawns (insert spawn_id local)"

definition check_multiple_owners :: "plan \<Rightarrow> string \<Rightarrow> validation_error list" where
  "check_multiple_owners p spawn_id =
     (let unique = remdups (pushes_at spawn_id (spawn_owners p)) in
      if length unique > 1 then
        [ve_field_err spawn_id ''config.spawn_steps'' InvalidStepConfig
           (fmt ''FAN_OUT-owned step '{}' has multiple owners: {}'' [spawn_id, join '', '' unique])]
      else [])"

text \<open>The step's owner, when it has exactly one.\<close>

definition fan_out_owner :: "plan \<Rightarrow> string \<Rightarrow> string option" where
  "fan_out_owner p spawn_id =
     (let owners = pushes_at spawn_id (spawn_owners p) in
      if length (remdups owners) = 1 then Some (hd owners) else None)"

definition check_fan_out_until :: "plan_step \<Rightarrow> fan_out_config \<Rightarrow> validation_error list" where
  "check_fan_out_until s c =
     (case fo_until c of None \<Rightarrow> []
      | Some until \<Rightarrow>
          (case parse_expression until of
             Inl message \<Rightarrow> [ve_field_err (s_id s) ''config.until'' InvalidStepConfig
               (fmt ''FAN_OUT step '{}' has invalid until expression: {}'' [s_id s, message])]
           | Inr e \<Rightarrow> []))"

text \<open>The errors of splitting \<^verbatim>\<open>over\<close>, and its two parts.\<close>

definition split_over_reference ::
    "plan_step \<Rightarrow> fan_out_config \<Rightarrow> validation_error list \<times> (string \<times> string) option" where
  "split_over_reference s c =
     (let wrong = ([ve_field_err (s_id s) ''config.over'' InvalidStepConfig
        (fmt ''FAN_OUT step '{}' has invalid over reference '{}' {} expected '<step-id>.<output-name>{}''
           [s_id s, fo_over c, em_dash, squote])], None)
      in case split_once (CHR ''.'') (fo_over c) of
        Some (source_id, output_name) \<Rightarrow>
          if source_id \<noteq> [] \<and> output_name \<noteq> [] then ([], Some (source_id, output_name)) else wrong
      | None \<Rightarrow> wrong)"

definition check_fan_out_source ::
    "plan \<Rightarrow> plan_step \<Rightarrow> fan_out_config \<Rightarrow> string \<Rightarrow> string \<Rightarrow> validation_error list" where
  "check_fan_out_source p s c source_id output_name =
     (case plan_find_step p source_id of
        None \<Rightarrow> [ve_field_err (s_id s) ''config.over'' MissingDependency
          (fmt ''FAN_OUT step '{}' iterates over '{}' but step '{}' does not exist'' [s_id s, fo_over c, source_id])]
      | Some source_step \<Rightarrow>
          (if \<not> depends_transitively p (s_id s) source_id then
             [ve_field_err (s_id s) ''depends_on'' InvalidStepConfig
                (fmt ''FAN_OUT step '{}' iterates over '{}' but does not depend on '{}' {} add '{}' to depends_on so the list exists before fan-out runs''
                   [s_id s, fo_over c, source_id, em_dash, source_id])]
           else []) @
          (let known = producible_outputs source_step in
           if output_name \<notin> set known then
             [ve_field_err (s_id s) ''config.over'' UnknownPlaceholder
                (fmt ''FAN_OUT step '{}' iterates over '{}' but {}''
                   [s_id s, fo_over c, describe_available_outputs known])]
           else []))"

definition check_spawn_dependency ::
    "plan \<Rightarrow> plan_step \<Rightarrow> fan_out_config \<Rightarrow> nat \<Rightarrow> string \<Rightarrow> string \<Rightarrow> validation_error list" where
  "check_spawn_dependency p s c position spawn_id dependency =
     (if dependency = s_id s then []
      else (case position_of (\<lambda>candidate. candidate = dependency) (fo_spawn_steps c) of
        Some dependency_position \<Rightarrow>
          if dependency_position \<ge> position then
            [ve_field_err spawn_id ''depends_on'' InvalidStepConfig
               (fmt ''FAN_OUT-owned step '{}' depends on body step '{}' which is not earlier in owner '{}' spawn_steps''
                  [spawn_id, dependency, s_id s])]
          else []
      | None \<Rightarrow>
          if \<not> depends_transitively p (s_id s) dependency then
            [ve_field_err spawn_id ''depends_on'' InvalidStepConfig
               (fmt ''FAN_OUT-owned step '{}' depends on '{}' which is neither an earlier body step nor available to owner '{}{}''
                  [spawn_id, dependency, s_id s, squote])]
          else []))"

definition check_spawn_step ::
    "plan \<Rightarrow> plan_step \<Rightarrow> fan_out_config \<Rightarrow> nat \<times> string \<Rightarrow> validation_error list" where
  "check_spawn_step p s c = (\<lambda>(position, spawn_id).
     (if spawn_id = s_id s then
        [ve_field_err (s_id s) ''config.spawn_steps'' InvalidStepConfig
           (fmt ''FAN_OUT step '{}' cannot spawn itself'' [s_id s])]
      else (case plan_find_step p spawn_id of
        None \<Rightarrow> [ve_field_err (s_id s) ''config.spawn_steps'' MissingDependency
          (fmt ''FAN_OUT step '{}' spawns '{}' which does not exist'' [s_id s, spawn_id])]
      | Some spawn_step \<Rightarrow>
          (if s_id s \<in> set (s_depends_on spawn_step) then
             [ve_field_err spawn_id ''depends_on'' InvalidStepConfig
                (fmt ''FAN_OUT-owned step '{}' must not depend on its owner '{}' {} it runs inside that step, not after it''
                   [spawn_id, s_id s, em_dash])]
           else []) @
          (case s_config spawn_step of
             HumanInteraction h \<Rightarrow>
               [ve_field_err (s_id s) ''config.spawn_steps'' InvalidStepConfig
                  (fmt ''FAN_OUT step '{}' cannot own {} step '{}' because per-item human input cannot be resumed''
                     [s_id s, show_step_type (step_type_of spawn_step), spawn_id])]
           | _ \<Rightarrow> []) @
          concat (map (check_spawn_dependency p s c position spawn_id) (s_depends_on spawn_step)))))"

definition check_fan_out_spawn_steps :: "plan \<Rightarrow> plan_step \<Rightarrow> fan_out_config \<Rightarrow> validation_error list" where
  "check_fan_out_spawn_steps p s c =
     (if fo_spawn_steps c = [] then
        [ve_field_err (s_id s) ''config.spawn_steps'' InvalidStepConfig
           (fmt ''FAN_OUT step '{}' must list at least one spawn step'' [s_id s])]
      else []) @
     concat (map (check_spawn_step p s c) (enumerate 0 (fo_spawn_steps c)))"

definition raw_result_step :: "plan \<Rightarrow> fan_out_config \<Rightarrow> plan_step option" where
  "raw_result_step p c =
     (case fo_spawn_steps c of [] \<Rightarrow> None
      | _ \<Rightarrow> (case plan_find_step p (last (fo_spawn_steps c)) of
          None \<Rightarrow> None
        | Some t \<Rightarrow>
            if s_outputs t \<noteq> [] \<and>
               (case s_config t of ToolCall _ \<Rightarrow> True | CodeCall _ \<Rightarrow> True | AgentCall _ \<Rightarrow> True | _ \<Rightarrow> False)
            then Some t else None))"

definition check_raw_results_consumers :: "plan \<Rightarrow> plan_step \<Rightarrow> fan_out_config \<Rightarrow> validation_error list" where
  "check_raw_results_consumers p s c =
     (case raw_result_step p c of None \<Rightarrow> []
      | Some raw \<Rightarrow>
          (let results_placeholder = fmt ''${{step.{}.{}}}'' [s_id s, FAN_OUT_RESULTS_OUTPUT] in
           concat (map (\<lambda>consumer. case s_config consumer of
               PromptCall prompt \<Rightarrow>
                 if str_contains (pc_user_prompt prompt) results_placeholder \<or>
                    (case pc_system_prompt prompt of Some v \<Rightarrow> str_contains v results_placeholder | None \<Rightarrow> False)
                 then [ve_field_err (s_id consumer) ''config.user_prompt'' PromptCallConstraint
                   (fmt ''PROMPT_CALL step '{}' sends potentially large FAN_OUT '{}' results from '{}' directly to the model {} add a per-item PROMPT_CALL as the final spawn step so FAN_OUT collects compact summaries before aggregation''
                      [s_id consumer, s_id s, s_id raw, em_dash])]
                 else []
             | _ \<Rightarrow> []) (p_steps p))))"

definition check_main_flow_dependencies :: "plan \<Rightarrow> validation_error list" where
  "check_main_flow_dependencies p =
     concat (map (\<lambda>s.
       if fan_out_owner p (s_id s) \<noteq> None then []
       else concat (map (\<lambda>dependency. case fan_out_owner p dependency of
           None \<Rightarrow> []
         | Some owner \<Rightarrow> [ve_field_err (s_id s) ''depends_on'' InvalidStepConfig
             (fmt ''main-flow step '{}' depends on FAN_OUT-owned step '{}' {} depend on '{}' and consume its 'results' output instead''
                [s_id s, dependency, em_dash, owner])]) (s_depends_on s))) (p_steps p))"

definition check_fan_out_step :: "plan \<Rightarrow> plan_step \<Rightarrow> fan_out_config \<Rightarrow> validation_error list" where
  "check_fan_out_step p s c =
     check_fan_out_until s c @
     check_fan_out_spawn_steps p s c @
     check_raw_results_consumers p s c @
     (case split_over_reference s c of (errors, reference) \<Rightarrow>
        errors @
        (case reference of None \<Rightarrow> []
         | Some (source_id, output_name) \<Rightarrow> check_fan_out_source p s c source_id output_name))"

definition validate_fan_out_constraints :: "plan \<Rightarrow> validation_error list" where
  "validate_fan_out_constraints p =
     concat (map (\<lambda>s. case s_config s of FanOut c \<Rightarrow> repeated_spawns s (fo_spawn_steps c) {} | _ \<Rightarrow> [])
       (p_steps p)) @
     concat (map (check_multiple_owners p) (remdups (map fst (spawn_owners p)))) @
     concat (map (\<lambda>s. case s_config s of FanOut c \<Rightarrow> check_fan_out_step p s c | _ \<Rightarrow> []) (p_steps p)) @
     check_main_flow_dependencies p"

section \<open>CONDITION constraints\<close>

definition check_approval_reference ::
    "plan_step \<Rightarrow> condition_config \<Rightarrow> plan_step \<Rightarrow> validation_error list" where
  "check_approval_reference s c human_step =
     (case s_config human_step of
        HumanInteraction human \<Rightarrow>
          if hi_approval_required human \<and>
             str_contains (cd_expression c)
               (fmt ''${{step.{}.{}}}'' [s_id human_step, hi_response_field human])
          then [ve_field_err (s_id s) ''config.expression'' InvalidStepConfig
            (fmt ''CONDITION step '{}' branches on approval step '{}', but approval_required=true terminates the run on rejection, so this condition can never observe a rejected value; remove the redundant condition when rejection should cancel, or set approval_required=false when both choices must continue into explicit branches''
               [s_id s, s_id human_step])]
          else []
      | _ \<Rightarrow> [])"

definition check_branch_step :: "plan \<Rightarrow> plan_step \<Rightarrow> string \<Rightarrow> string \<Rightarrow> validation_error list" where
  "check_branch_step p s field branch_id =
     (if branch_id \<notin> s_id ` set (p_steps p) then
        [ve_field_err (s_id s) field MissingDependency
           (fmt ''CONDITION step '{}' routes to '{}' which does not exist'' [s_id s, branch_id])]
      else if \<not> depends_transitively p branch_id (s_id s) then
        [ve_field_err (s_id s) field InvalidStepConfig
           (fmt ''step '{}' is routed by CONDITION step '{}' but does not depend on it {} add '{}' to its depends_on so it runs after the branch decision''
              [branch_id, s_id s, em_dash, s_id s])]
      else [])"

definition check_condition_step :: "plan \<Rightarrow> plan_step \<Rightarrow> condition_config \<Rightarrow> validation_error list" where
  "check_condition_step p s c =
     (case parse_expression (cd_expression c) of
        Inl msg \<Rightarrow> [ve_field_err (s_id s) ''config.expression'' InvalidStepConfig msg]
      | Inr e \<Rightarrow> []) @
     concat (map (check_approval_reference s c) (p_steps p)) @
     concat (map (check_branch_step p s ''config.true_steps'') (cd_true_steps c)) @
     concat (map (check_branch_step p s ''config.false_steps'') (cd_false_steps c)) @
     (case find (\<lambda>i. i \<in> set (cd_false_steps c)) (cd_true_steps c) of
        Some dup \<Rightarrow> [ve_field_err (s_id s) ''config.true_steps'' InvalidStepConfig
          (fmt ''step '{}' appears in both true_steps and false_steps of CONDITION '{}{}''
             [dup, s_id s, squote])]
      | None \<Rightarrow> [])"

definition validate_condition_constraints :: "plan \<Rightarrow> validation_error list" where
  "validate_condition_constraints p =
     concat (map (\<lambda>s. case s_config s of Condition c \<Rightarrow> check_condition_step p s c | _ \<Rightarrow> [])
       (p_steps p))"

section \<open>All passes\<close>

definition check_step_contract :: "plan \<Rightarrow> plan_step \<Rightarrow> validation_error list" where
  "check_step_contract p s =
     (if s_timeout_secs s = Some 0 then
        [ve_field_err (s_id s) ''timeout_secs'' InvalidStepConfig
           ''step timeout_secs must be greater than zero'']
      else []) @
     (case s_config s of
        ToolCall c \<Rightarrow> []
      | CodeCall c \<Rightarrow> validate_code_call_contract s c
      | HumanInteraction c \<Rightarrow> validate_human_interaction_contract s c
      | FanOut c \<Rightarrow> validate_configured_output s FAN_OUT_RESULTS_OUTPUT
      | FanIn c \<Rightarrow> validate_fan_in_contract p s c
      | PromptCall c \<Rightarrow> validate_prompt_call_contract s c
      | Condition c \<Rightarrow> validate_configured_output s CONDITION_RESULT_OUTPUT
      | AgentCall c \<Rightarrow> validate_agent_call_contract s c)"

definition validate_step_contracts :: "plan \<Rightarrow> validation_error list" where
  "validate_step_contracts p =
     concat (map (check_step_contract p) (p_steps p)) @
     validate_root_directory_input p @
     validate_fan_out_constraints p @
     validate_condition_constraints p"

definition validate :: "plan \<Rightarrow> tool_catalog \<Rightarrow> validation_error list" where
  "validate p catalog =
     validate_structure p @
     validate_step_contracts p @
     validate_graph (p_steps p) @
     validate_placeholders p @
     validate_plan_output_sources p @
     validate_tool_bindings p catalog"

section \<open>What an accepted plan promises\<close>

lemma addressable_nonempty: "is_addressable_identifier name \<Longrightarrow> name \<noteq> []"
  by (auto simp: is_addressable_identifier_def)

lemma check_plan_inputs_Nil: "check_plan_inputs is names = [] \<Longrightarrow>
    distinct (map in_name is) \<and> in_name ` set is \<inter> names = {} \<and>
    (\<forall>i \<in> set is. is_addressable_identifier (in_name i) \<and> check_plan_input_shape i = [])"
proof (induction "is" names rule: check_plan_inputs.induct)
  case (2 i js names)
  from "2.prems" have a: "is_addressable_identifier (in_name i)" "in_name i \<notin> names" "check_plan_input_shape i = []"
    and r: "check_plan_inputs js (insert (in_name i) names) = []"
    by (simp_all split: if_splits)
  from "2.IH" r a(1) have "distinct (map in_name js) \<and> in_name ` set js \<inter> insert (in_name i) names = {} \<and>
      (\<forall>i \<in> set js. is_addressable_identifier (in_name i) \<and> check_plan_input_shape i = [])"
    by simp
  with a show ?case by simp
qed simp

lemma check_step_ids_Nil: "check_step_ids ss seen = [] \<Longrightarrow>
    distinct (map s_id ss) \<and> s_id ` set ss \<inter> seen = {} \<and>
    (\<forall>s \<in> set ss. is_addressable_identifier (s_id s))"
  by (induction ss seen rule: check_step_ids.induct) (auto split: if_splits)

lemma check_output_names_Nil: "check_output_names s outs names = [] \<Longrightarrow>
    distinct (map po_name outs) \<and> po_name ` set outs \<inter> names = {} \<and>
    (\<forall>x \<in> set outs. is_addressable_identifier (po_name x))"
proof (induction s outs names rule: check_output_names.induct)
  case (2 s out outs names)
  from "2.prems" have a: "is_addressable_identifier (po_name out)" "po_name out \<notin> names"
    and r: "check_output_names s outs (insert (po_name out) names) = []"
    by (simp_all split: if_splits)
  from "2.IH" r a(1) have "distinct (map po_name outs) \<and> po_name ` set outs \<inter> insert (po_name out) names = {} \<and>
      (\<forall>x \<in> set outs. is_addressable_identifier (po_name x))"
    by simp
  with a show ?case by simp
qed simp

lemma validate_Nil:
  assumes "validate p catalog = []"
  shows "p_steps p \<noteq> []" "distinct (map in_name (p_inputs p))" "distinct (map s_id (p_steps p))"
    "\<And>s. s \<in> set (p_steps p) \<Longrightarrow> check_step_contract p s = []"
    "validate_fan_out_constraints p = []" "validate_condition_constraints p = []"
    "validate_root_directory_input p = []"
    "validate_graph (p_steps p) = []" "validate_placeholders p = []"
    "validate_plan_output_sources p = []" "validate_tool_bindings p catalog = []"
proof -
  have st: "validate_structure p = []" and sc: "validate_step_contracts p = []"
    and rest: "validate_graph (p_steps p) = []" "validate_placeholders p = []"
    "validate_plan_output_sources p = []" "validate_tool_bindings p catalog = []"
    using assms by (simp_all add: validate_def)
  show "p_steps p \<noteq> []" using st by (auto simp: validate_structure_def)
  with st have "check_plan_inputs (p_inputs p) {} = []" "check_step_ids (p_steps p) {} = []"
    by (simp_all add: validate_structure_def validate_plan_inputs_def validate_step_ids_def)
  then show "distinct (map in_name (p_inputs p))" "distinct (map s_id (p_steps p))"
    using check_plan_inputs_Nil check_step_ids_Nil by blast+
  show "\<And>s. s \<in> set (p_steps p) \<Longrightarrow> check_step_contract p s = []"
    "validate_fan_out_constraints p = []" "validate_condition_constraints p = []"
    "validate_root_directory_input p = []"
    using sc by (simp_all add: validate_step_contracts_def)
qed (use assms in \<open>simp_all add: validate_def\<close>)

text \<open>The step named \<open>i\<close> stands before the step named \<open>j\<close>.\<close>

definition runs_before :: "plan_step list \<Rightarrow> string \<Rightarrow> string \<Rightarrow> bool" where
  "runs_before os i j \<longleftrightarrow> (\<exists>a b. a < b \<and> b < length os \<and> s_id (os ! a) = i \<and> s_id (os ! b) = j)"

lemma runs_before_trans:
  assumes "distinct (map s_id os)" and "runs_before os i j" and "runs_before os j k"
  shows "runs_before os i k"
proof -
  obtain a b where ab: "a < b" "b < length os" "s_id (os ! a) = i" "s_id (os ! b) = j"
    using assms(2) by (auto simp: runs_before_def)
  obtain b' c where bc: "b' < c" "c < length os" "s_id (os ! b') = j" "s_id (os ! c) = k"
    using assms(3) by (auto simp: runs_before_def)
  have "b = b'"
    using ab bc nth_eq_iff_index_eq [OF assms(1), of b b'] by simp
  with ab bc show ?thesis unfolding runs_before_def by (intro exI [of _ a] exI [of _ c]) simp
qed

lemma dependency_runs_before:
  assumes "deps_first os" and "set os = set (p_steps p)"
    and "\<forall>s \<in> set (p_steps p). set (s_depends_on s) \<subseteq> s_id ` set (p_steps p)"
    and "j \<in> set (deps_of p i)"
  shows "runs_before os j i"
proof -
  obtain s where s: "plan_find_step p i = Some s" "j \<in> set (s_depends_on s)"
    using assms(4) by (cases "plan_find_step p i") (auto simp: deps_of_def)
  then have "s \<in> set os" "s_id s = i" using plan_find_step_Some assms(2) by blast+
  moreover from s assms(2,3) \<open>s \<in> set os\<close> obtain t where "t \<in> set os" "s_id t = j" by blast
  ultimately obtain a b where "a < length os" "os ! a = t" "b < length os" "os ! b = s"
    by (auto simp: in_set_conv_nth)
  moreover from this \<open>s_id t = j\<close> s(2) have "a < b" using assms(1) by (auto simp: deps_first_def)
  ultimately show ?thesis using \<open>s_id s = i\<close> \<open>s_id t = j\<close> by (auto simp: runs_before_def)
qed

lemma deps_first_runs_before:
  assumes "deps_first os" and "set os = set (p_steps p)" and "distinct (map s_id os)"
    and "\<forall>s \<in> set (p_steps p). set (s_depends_on s) \<subseteq> s_id ` set (p_steps p)"
    and "(i, j) \<in> (succ_edges (deps_of p))\<^sup>+"
  shows "runs_before os j i"
  using assms(5)
proof (induction rule: trancl_induct)
  case (base j)
  then show ?case using dependency_runs_before [OF assms(1,2,4)] by simp
next
  case (step j k)
  then have "runs_before os k j" using dependency_runs_before [OF assms(1,2,4)] by simp
  then show ?case using step.IH by (rule runs_before_trans [OF assms(3)])
qed

lemma validated_runs_before:
  assumes "validate p catalog = []" and "\<forall>s \<in> set (p_steps p). distinct (s_depends_on s)"
    and "depends_transitively p i j"
  shows "runs_before (topological_order (p_steps p)) j i"
proof (rule deps_first_runs_before)
  note g = validate_graph_Nil [OF validate_Nil(3) [OF assms(1)], THEN iffD1, OF validate_Nil(8) [OF assms(1)]]
  show "\<forall>s \<in> set (p_steps p). set (s_depends_on s) \<subseteq> s_id ` set (p_steps p)"
    using g by blast
  show "deps_first (topological_order (p_steps p))"
    using g assms(2) validate_Nil(3) [OF assms(1)] by (intro topo.respects) (simp add: schedulable_def)
  show "distinct (map s_id (topological_order (p_steps p)))"
    using validate_Nil(3) [OF assms(1)] by (simp add: topo.ids_distinct)
  show "(i, j) \<in> (succ_edges (deps_of p))\<^sup>+" using assms(3) by (simp add: depends_transitively_iff)
qed (rule topo.set_order)

lemma position_of_Some: "position_of P xs = Some n \<Longrightarrow> n < length xs \<and> P (xs ! n)"
  by (induction xs arbitrary: n) (auto split: if_splits)

lemma spawn_owner_member: "s \<in> set (p_steps p) \<Longrightarrow> s_config s = FanOut c \<Longrightarrow> b \<in> set (fo_spawn_steps c) \<Longrightarrow>
    s_id s \<in> set (pushes_at b (spawn_owners p))"
  by (force simp: set_pushes_at spawn_owners_def split: step_config.splits)

lemma fan_out_owner_unique:
  assumes "validate_fan_out_constraints p = []" and "i \<in> set (pushes_at b (spawn_owners p))"
  shows "fan_out_owner p b = Some i"
proof -
  have "b \<in> set (map fst (spawn_owners p))" using assms(2) by (force simp: set_pushes_at)
  then have "check_multiple_owners p b = []"
    using assms(1) by (auto simp: validate_fan_out_constraints_def)
  then have "length (remdups (pushes_at b (spawn_owners p))) \<le> 1"
    by (simp add: check_multiple_owners_def Let_def split: if_splits)
  moreover have i: "i \<in> set (remdups (pushes_at b (spawn_owners p)))" using assms(2) by simp
  ultimately have r: "remdups (pushes_at b (spawn_owners p)) = [i]"
    by (cases "remdups (pushes_at b (spawn_owners p))") auto
  then have "set (pushes_at b (spawn_owners p)) = {i}"
    by (metis set_remdups list.set(1) list.set(2))
  then have "hd (pushes_at b (spawn_owners p)) = i"
    by (metis list.set_sel(1) empty_iff empty_set insert_not_empty singletonD)
  with r show ?thesis by (simp add: fan_out_owner_def Let_def)
qed

section \<open>Properties\<close>

text \<open>
  C4: step references of the main flow are available when they are read.  In a plan that
  validates, and lists no dependency twice, every step output that a step outside all FAN_OUT
  bodies refers to in its preflight configuration belongs to a step that is no FAN_OUT body
  either and is executed earlier.
\<close>

theorem validated_references_run_before:
  assumes "validate p catalog = []" and "\<forall>s \<in> set (p_steps p). distinct (s_depends_on s)"
    and "s \<in> set (p_steps p)" and "pushes_at (s_id s) (fan_out_owners p) = []"
    and "(source, output) \<in> set (preflight_references s)"
  shows "runs_before (topological_order (p_steps p)) source (s_id s) \<and>
    pushes_at source (fan_out_owners p) = []"
proof -
  have "validate_step_reference_order p = []"
    using validate_Nil(9) [OF assms(1)] by (simp add: validate_placeholders_def)
  with assms(3,5) have "check_preflight_reference p s (source, output) = []"
    by (auto simp: validate_step_reference_order_def)
  then have "reference_is_available p s source"
    by (simp add: check_preflight_reference_def split: if_splits)
  with assms(4) have "depends_transitively p (s_id s) source" "pushes_at source (fan_out_owners p) = []"
    by (simp_all add: reference_is_available_def split: if_splits)
  then show ?thesis using validated_runs_before [OF assms(1,2)] by blast
qed

text \<open>
  C6: routing decisions come first.  In a plan that validates, and lists no dependency twice,
  a CONDITION is executed before every step it routes to, and no step is in both branches.
\<close>

theorem validated_condition_before_branches:
  assumes "validate p catalog = []" and "\<forall>s \<in> set (p_steps p). distinct (s_depends_on s)"
    and "s \<in> set (p_steps p)" and "s_config s = Condition c"
    and "b \<in> set (cd_true_steps c) \<union> set (cd_false_steps c)"
  shows "runs_before (topological_order (p_steps p)) (s_id s) b \<and>
    set (cd_true_steps c) \<inter> set (cd_false_steps c) = {}"
proof
  have c: "check_condition_step p s c = []"
    using validate_Nil(6) [OF assms(1)] assms(3,4)
    by (fastforce simp: validate_condition_constraints_def)
  then have "\<exists>field. check_branch_step p s field b = []"
    using assms(5) by (auto simp: check_condition_step_def)
  then have "depends_transitively p b (s_id s)"
    by (auto simp: check_branch_step_def split: if_splits)
  then show "runs_before (topological_order (p_steps p)) (s_id s) b"
    by (rule validated_runs_before [OF assms(1,2)])
  have "find (\<lambda>i. i \<in> set (cd_false_steps c)) (cd_true_steps c) = None"
    using c by (auto simp: check_condition_step_def split: option.splits)
  then show "set (cd_true_steps c) \<inter> set (cd_false_steps c) = {}"
    by (auto simp: find_None_iff)
qed

text \<open>
  C5: the discipline of FAN_OUT bodies.  In a plan that validates, every body step exists, has
  exactly one owner, which is another step it does not depend on, needs no human input, and
  each of its dependencies is an earlier step of the same body or a step its owner depends on.
\<close>

theorem validated_fan_out_body:
  assumes "validate p catalog = []" and "s \<in> set (p_steps p)" and "s_config s = FanOut c"
    and "i < length (fo_spawn_steps c)" and "fo_spawn_steps c ! i = b"
  shows "\<exists>t. plan_find_step p b = Some t \<and> fan_out_owner p b = Some (s_id s) \<and> b \<noteq> s_id s \<and>
    s_id s \<notin> set (s_depends_on t) \<and> step_type_of t \<noteq> THumanInteraction \<and>
    (\<forall>d \<in> set (s_depends_on t).
       (\<exists>j < i. fo_spawn_steps c ! j = d) \<or> depends_transitively p (s_id s) d)"
proof -
  note v = validate_Nil(5) [OF assms(1)]
  have "check_fan_out_step p s c = []"
    using v assms(2,3) by (fastforce simp: validate_fan_out_constraints_def)
  then have "check_fan_out_spawn_steps p s c = []" by (simp add: check_fan_out_step_def)
  moreover have "(i, b) \<in> set (enumerate 0 (fo_spawn_steps c))"
    using assms(4,5) by (auto simp: in_set_enumerate_eq)
  ultimately have k: "check_spawn_step p s c (i, b) = []"
    by (auto simp: check_fan_out_spawn_steps_def split: if_splits)
  then have ne: "b \<noteq> s_id s" by (auto simp: check_spawn_step_def)
  with k obtain t where t: "plan_find_step p b = Some t"
    by (auto simp: check_spawn_step_def split: option.splits)
  with k ne have own: "s_id s \<notin> set (s_depends_on t)"
    and human: "step_type_of t \<noteq> THumanInteraction"
    and deps: "\<forall>d \<in> set (s_depends_on t). check_spawn_dependency p s c i b d = []"
    by (auto simp: check_spawn_step_def step_type_of_def split: if_splits step_config.splits)
  have "(\<exists>j < i. fo_spawn_steps c ! j = d) \<or> depends_transitively p (s_id s) d"
    if "d \<in> set (s_depends_on t)" for d
  proof -
    have "d \<noteq> s_id s" using that own by auto
    moreover have "check_spawn_dependency p s c i b d = []" using that deps by blast
    ultimately show ?thesis
    proof (cases "position_of (\<lambda>candidate. candidate = d) (fo_spawn_steps c)")
      case None
      with \<open>d \<noteq> s_id s\<close> \<open>check_spawn_dependency p s c i b d = []\<close> show ?thesis
        by (simp add: check_spawn_dependency_def split: if_splits)
    next
      case (Some j)
      with \<open>d \<noteq> s_id s\<close> \<open>check_spawn_dependency p s c i b d = []\<close> have "j < i"
        by (simp add: check_spawn_dependency_def split: if_splits)
      with position_of_Some [OF Some] show ?thesis by blast
    qed
  qed
  moreover have "fan_out_owner p b = Some (s_id s)"
    using assms(4,5) by (intro fan_out_owner_unique [OF v] spawn_owner_member [OF assms(2,3)]) auto
  ultimately show ?thesis using t ne own human by blast
qed

definition pipeline_steps :: "plan_step list" where
  "pipeline_steps =
     [prompt_step ''src'' ''list about ${input.n}'' [],
      (prompt_step ''each'' [] [''src''])\<lparr>s_config := FanOut \<lparr>fo_over = ''src.out'', fo_item_var = ''x'',
         fo_spawn_steps = [''one''], fo_until = None\<rparr>\<rparr>,
      prompt_step ''one'' ''sum up ${item.x}'' [],
      (prompt_step ''gate'' [] [''each''])\<lparr>s_config := Condition \<lparr>cd_expression = ''${step.each.results} == none'',
         cd_true_steps = [''no''], cd_false_steps = [''yes'']\<rparr>\<rparr>,
      prompt_step ''yes'' ''report ${step.each.results}'' [''gate''],
      prompt_step ''no'' ''nothing'' [''gate'']]"

definition pipeline :: plan where
  "pipeline = demo_plan\<lparr>p_steps := pipeline_steps\<rparr>"

lemma pipeline_valid: "validate pipeline [] = []"
  by code_simp

lemma pipeline_deps: "\<forall>s \<in> set (p_steps pipeline). distinct (s_depends_on s)"
  by (simp add: pipeline_def pipeline_steps_def prompt_step_def)

lemma pipeline_step: "i < length pipeline_steps \<Longrightarrow> pipeline_steps ! i \<in> set (p_steps pipeline)"
  by (simp add: pipeline_def)

lemma validated_references_run_before_witness:
  "runs_before (topological_order pipeline_steps) ''each'' ''yes''"
proof -
  have "pushes_at (s_id (pipeline_steps ! 4)) (fan_out_owners pipeline) = []"
    "preflight_references (pipeline_steps ! 4) = [(''each'', ''results'')]" "s_id (pipeline_steps ! 4) = ''yes''"
    by code_simp+
  then show ?thesis
    using validated_references_run_before [OF pipeline_valid pipeline_deps pipeline_step [of 4], of "''each''" "''results''"]
    by (simp add: pipeline_def) (simp add: pipeline_steps_def)
qed

lemma validated_condition_before_branches_witness:
  "runs_before (topological_order pipeline_steps) ''gate'' ''yes''"
  using validated_condition_before_branches [OF pipeline_valid pipeline_deps pipeline_step [of 3]]
  by (simp add: pipeline_def) (simp add: pipeline_steps_def prompt_step_def)

lemma validated_fan_out_body_witness: "fan_out_owner pipeline ''one'' = Some ''each''"
proof -
  have "s_config (pipeline_steps ! 1) = FanOut \<lparr>fo_over = ''src.out'', fo_item_var = ''x'',
      fo_spawn_steps = [''one''], fo_until = None\<rparr>" "s_id (pipeline_steps ! 1) = ''each''"
    "1 < length pipeline_steps"
    by (simp_all add: pipeline_steps_def prompt_step_def)
  then show ?thesis
    using validated_fan_out_body [OF pipeline_valid pipeline_step [of 1], of _ 0 "''one''"] by auto
qed

end
