(* ===== verification/FanOut.thy ===== *)
theory FanOut
  imports AgentCall Validator
begin

text \<open>
  \<^verbatim>\<open>executor/step_runners/fan.rs\<close> and the dispatcher \<^verbatim>\<open>run_step\<close> of
  \<^verbatim>\<open>executor/step_runners/mod.rs\<close>.  A FAN_OUT runs its spawn steps through the
  dispatcher again, so the dispatcher has fuel, one unit per nesting level; \<open>None\<close> means the
  fuel was too small.  Executions of spawn steps reach the executor as events, in order.
\<close>

definition RESULTS_OUTPUT :: string where
  "RESULTS_OUTPUT = ''results''"

section \<open>The list a FAN_OUT goes over\<close>

definition parse_over_ref :: "string \<Rightarrow> (string \<times> string) option" where
  "parse_over_ref over = split_once (CHR ''.'') over"

definition available_outputs :: "named_outputs \<Rightarrow> string" where
  "available_outputs outs = (if outs = [] then ''no named outputs'' else join '', '' (im_keys outs))"

definition available_step_outputs :: "step_outputs \<Rightarrow> string" where
  "available_step_outputs outs =
     (if outputs_is_empty outs then ''none''
      else join '', '' (map (\<lambda>(i, o'). fmt ''{} ({})'' [i, available_outputs o']) (output_entries outs)))"

definition resolve_over_value :: "step_context \<Rightarrow> string \<Rightarrow> string \<Rightarrow> executor_error + json" where
  "resolve_over_value cx over_step over_output =
     (case get_step_outputs (cx_outputs cx) over_step of
        None \<Rightarrow> Inl (step_failed cx (fmt ''FAN_OUT input '{}.{}' is unavailable because step '{}' has not produced outputs yet. Available steps: {}''
          [over_step, over_output, over_step, available_step_outputs (cx_outputs cx)]))
      | Some outs \<Rightarrow> (case im_get outs over_output of
          None \<Rightarrow> Inl (step_failed cx (fmt ''FAN_OUT input '{}.{}' does not exist. Step '{}' produced: {}''
            [over_step, over_output, over_step, available_outputs outs]))
        | Some v \<Rightarrow> Inr v))"

definition FENCE :: string where
  "FENCE = ''```''"

text \<open>The content of the first fenced block: after the fence's line, up to the next fence.\<close>

definition first_fenced_block :: "string \<Rightarrow> string option" where
  "first_fenced_block text =
     (case find_str text FENCE of None \<Rightarrow> None
      | Some n \<Rightarrow>
          (let after_open = drop (n + 3) text;
               rest = (case split_once (hd newline) after_open of Some (before, after) \<Rightarrow> after | None \<Rightarrow> after_open)
           in map_option (\<lambda>m. trim (take m rest)) (find_str rest FENCE)))"

definition bracketed_array_slice :: "string \<Rightarrow> string option" where
  "bracketed_array_slice text =
     (let from_open = dropWhile (\<lambda>c. c \<noteq> CHR ''['') text;
          slice = rev (dropWhile (\<lambda>c. c \<noteq> CHR '']'') (rev from_open))
      in if slice = [] then None else Some (trim slice))"

definition parse_json_array :: "host \<Rightarrow> string \<Rightarrow> json list option" where
  "parse_json_array h candidate = Option.bind (parse_json h candidate) as_array"

definition parse_json_array_from_text :: "host \<Rightarrow> string \<Rightarrow> json list option" where
  "parse_json_array_from_text h text =
     (let trimmed = trim text
      in or_else (parse_json_array h trimmed)
         (or_else (Option.bind (first_fenced_block trimmed) (parse_json_array h))
           (Option.bind (bracketed_array_slice trimmed) (parse_json_array h))))"

definition coerce_fan_out_items :: "host \<Rightarrow> json \<Rightarrow> json list" where
  "coerce_fan_out_items h v = (case v of
     JArray arr \<Rightarrow> arr
   | JString s \<Rightarrow> (case parse_json_array_from_text h s of Some arr \<Rightarrow> arr | None \<Rightarrow> [JString s])
   | single \<Rightarrow> [single])"

section \<open>One spawn step\<close>

type_synonym child_runs = "step_run_iteration list imap"

definition push_runs :: "string \<Rightarrow> step_run_iteration list \<Rightarrow> child_runs \<Rightarrow> child_runs" where
  "push_runs i rs m = im_insert i ((case im_get m i of Some l \<Rightarrow> l | None \<Rightarrow> []) @ rs) m"

type_synonym 'w spawn = "step_context \<Rightarrow> audit \<Rightarrow> 'w \<Rightarrow> ('w \<times> audit \<times> child_run_event list \<times> (executor_error + step_result)) option"

definition failed_iteration :: "nat \<Rightarrow> instant \<Rightarrow> instant \<Rightarrow> 64 word \<Rightarrow> string \<Rightarrow> step_run_iteration" where
  "failed_iteration iteration started finished ms e = \<lparr>it_iteration = iteration, it_status = SFailed,
     it_started_at = started, it_finished_at = finished, it_duration_ms = ms, it_outputs = [], it_stdout = None,
     it_stderr = None, it_error = Some e, it_token_usage = None\<rparr>"

definition completed_iteration :: "nat \<Rightarrow> instant \<Rightarrow> instant \<Rightarrow> 64 word \<Rightarrow> step_result \<Rightarrow> step_run_iteration" where
  "completed_iteration iteration started finished ms res = \<lparr>it_iteration = iteration, it_status = SSucceeded,
     it_started_at = started, it_finished_at = finished, it_duration_ms = ms, it_outputs = res_outputs res,
     it_stdout = res_stdout res, it_stderr = res_stderr res, it_error = None, it_token_usage = res_usage res\<rparr>"

definition skipped_iteration :: "nat \<Rightarrow> instant \<Rightarrow> step_run_iteration" where
  "skipped_iteration iteration now = \<lparr>it_iteration = iteration, it_status = SSkipped, it_started_at = now,
     it_finished_at = now, it_duration_ms = 0, it_outputs = [], it_stdout = None, it_stderr = None,
     it_error = None, it_token_usage = None\<rparr>"

text \<open>The status reported for a template stays Running until the final item.\<close>

definition aggregate_status :: "bool \<Rightarrow> step_run_status \<Rightarrow> step_run_status" where
  "aggregate_status is_final status = (if is_final then status else SRunning)"

definition run_spawn_step ::
    "'w spawn \<Rightarrow> 'w runner_env \<Rightarrow> step_context \<Rightarrow> plan_step \<Rightarrow> nat \<Rightarrow> bool \<Rightarrow> step_outputs \<Rightarrow> child_runs \<Rightarrow> 'w \<Rightarrow>
     ('w \<times> child_run_event list \<times> child_runs \<times> (executor_error + named_outputs)) option" where
  "run_spawn_step spawn env cx s iteration is_final outs runs w =
     (case spawn (cx\<lparr>cx_step := s, cx_outputs := outs\<rparr>) ([], []) w of
        None \<Rightarrow> None
      | Some (w', a, events, result) \<Rightarrow>
          (let started = tr_now (re_transport env) w; finished = tr_now (re_transport env) w';
               ms = tr_elapsed_ms (re_transport env) w w'
           in case result of
             Inl e \<Rightarrow> Some (w', events @ [\<lparr>ce_step_id = s_id s, ce_status = SFailed,
                 ce_run = failed_iteration iteration started finished ms (show_executor_error e)\<rparr>], runs, Inl e)
           | Inr res \<Rightarrow>
               (let it = completed_iteration iteration started finished ms res
                in Some (w', events @ [\<lparr>ce_step_id = s_id s, ce_status = aggregate_status is_final SSucceeded,
                       ce_run = it\<rparr>],
                     fold (\<lambda>(i, rs). push_runs i rs) (res_child_runs res) (push_runs (s_id s) [it] runs),
                     Inr (res_outputs res)))))"

section \<open>One iteration\<close>

text \<open>The steps a completed CONDITION sends no one to; none for other steps.\<close>

definition untaken_branch :: "plan_step \<Rightarrow> named_outputs \<Rightarrow> string list" where
  "untaken_branch s outs =
     (case s_config s of
        Condition c \<Rightarrow>
          (if (case Option.bind (im_get outs RESULT_OUTPUT) as_bool of Some b \<Rightarrow> b | None \<Rightarrow> False)
           then cd_false_steps c else cd_true_steps c)
      | _ \<Rightarrow> [])"

text \<open>
  The loop over the spawn steps: the skipped steps, the outputs accumulated so far and the
  child runs.
\<close>

fun run_body ::
    "'w spawn \<Rightarrow> 'w runner_env \<Rightarrow> step_context \<Rightarrow> nat \<Rightarrow> bool \<Rightarrow> step_outputs \<Rightarrow> string list \<Rightarrow> string set \<Rightarrow>
     output_map \<Rightarrow> child_runs \<Rightarrow> 'w \<Rightarrow> ('w \<times> child_run_event list \<times> child_runs \<times> (executor_error + output_map)) option" where
  "run_body spawn env cx iteration is_final base [] skipped acc runs w = Some (w, [], runs, Inr acc)"
| "run_body spawn env cx iteration is_final base (i # is) skipped acc runs w =
     (case plan_find_step (cx_plan cx) i of
        None \<Rightarrow> Some (w, [], runs, Inl (step_failed cx (fmt ''spawn step '{}' not found in plan'' [i])))
      | Some s \<Rightarrow>
          if i \<in> skipped \<or> list_ex (\<lambda>d. d \<in> skipped) (s_depends_on s) then
            (let it = skipped_iteration iteration (tr_now (re_transport env) w);
                 event = \<lparr>ce_step_id = i, ce_status = aggregate_status is_final SSkipped, ce_run = it\<rparr>
             in map_option (\<lambda>(w', events, rest). (w', event # events, rest))
                  (run_body spawn env cx iteration is_final base is (insert i skipped) acc (push_runs i [it] runs) w))
          else
            (case run_spawn_step spawn env cx s iteration is_final (with_outputs acc base) runs w of
               None \<Rightarrow> None
             | Some (w1, events, runs', Inl e) \<Rightarrow> Some (w1, events, runs', Inl e)
             | Some (w1, events, runs', Inr outs) \<Rightarrow>
                 map_option (\<lambda>(w', events', rest). (w', events @ events', rest))
                   (run_body spawn env cx iteration is_final base is (skipped \<union> set (untaken_branch s outs))
                     (im_insert i outs acc) runs' w1)))"

text \<open>The result of an iteration is what its last spawn step produced.\<close>

definition collect_final_spawn_outputs :: "string list \<Rightarrow> output_map \<Rightarrow> json" where
  "collect_final_spawn_outputs spawn_ids acc =
     (case (if spawn_ids = [] then None else im_get acc (last spawn_ids)) of
        None \<Rightarrow> JNull
      | Some [(name, v)] \<Rightarrow> v
      | Some outs \<Rightarrow> JObject (obj_of outs))"

definition until_satisfied :: "'w runner_env \<Rightarrow> step_context \<Rightarrow> string option \<Rightarrow> step_outputs \<Rightarrow> executor_error + bool" where
  "until_satisfied env cx until_expr outs =
     (case until_expr of
        None \<Rightarrow> Inr False
      | Some u \<Rightarrow>
          (let missing = missing_placeholders (JString u) (p_config (cx_plan cx)) outs
           in if missing \<noteq> [] then
                Inl (step_failed cx (fmt ''FAN_OUT until expression references unavailable iteration output(s): {}''
                  [join '', '' missing]))
              else (case evaluate_expression (re_host env) (p_config (cx_plan cx)) outs u of
                  Inl m \<Rightarrow> Inl (step_failed cx (fmt ''invalid FAN_OUT until expression: {}'' [m]))
                | Inr (matched, trace) \<Rightarrow> Inr matched)))"

section \<open>All iterations\<close>

fun run_items ::
    "'w spawn \<Rightarrow> 'w runner_env \<Rightarrow> step_context \<Rightarrow> fan_out_config \<Rightarrow> nat \<Rightarrow> nat \<Rightarrow> json list \<Rightarrow> json list \<Rightarrow> child_runs \<Rightarrow>
     'w \<Rightarrow> ('w \<times> child_run_event list \<times> child_runs \<times> (executor_error + json list \<times> bool)) option" where
  "run_items spawn env cx c total_items iteration [] results runs w = Some (w, [], runs, Inr (results, False))"
| "run_items spawn env cx c total_items iteration (item # items) results runs w =
     (let base = with_output ITEM_SCOPE_KEY [(fo_item_var c, item)] (cx_outputs cx)
      in case run_body spawn env cx iteration (iteration + 1 = total_items) base (fo_spawn_steps c) {} [] runs w of
        None \<Rightarrow> None
      | Some (w1, events, runs', Inl e) \<Rightarrow> Some (w1, events, runs', Inl e)
      | Some (w1, events, runs', Inr acc) \<Rightarrow>
          (let results = results @ [collect_final_spawn_outputs (fo_spawn_steps c) acc]
           in case until_satisfied env cx (fo_until c) (with_outputs acc base) of
             Inl e \<Rightarrow> Some (w1, events, runs', Inl e)
           | Inr True \<Rightarrow> Some (w1, events, runs', Inr (results, True))
           | Inr False \<Rightarrow>
               map_option (\<lambda>(w', events', rest). (w', events @ events', rest))
                 (run_items spawn env cx c total_items (iteration + 1) items results runs' w1)))"

definition run_fan_out ::
    "'w spawn \<Rightarrow> 'w runner_env \<Rightarrow> step_context \<Rightarrow> 'w \<Rightarrow>
     ('w \<times> child_run_event list \<times> (executor_error + step_result)) option" where
  "run_fan_out spawn env cx w =
     (case s_config (cx_step cx) of
        FanOut c \<Rightarrow>
          (case parse_over_ref (fo_over c) of
             None \<Rightarrow> Some (w, [], Inl (step_failed cx
               (fmt ''FAN_OUT 'over' must be 'step-id.output-name', got: '{}{}'' [fo_over c, squote])))
           | Some (over_step, over_output) \<Rightarrow>
          (case resolve_over_value cx over_step over_output of
             Inl e \<Rightarrow> Some (w, [], Inl e)
           | Inr v \<Rightarrow>
               (let items = coerce_fan_out_items (re_host env) v;
                    runs = im_extend [] (map (\<lambda>i. (i, [])) (fo_spawn_steps c))
                in case run_items spawn env cx c (length items) 0 items [] runs w of
                  None \<Rightarrow> None
                | Some (w', events, runs', Inl e) \<Rightarrow> Some (w', events, Inl e)
                | Some (w', events, runs', Inr (results, matched)) \<Rightarrow>
                    Some (w', events,
                      case fo_until c of
                        Some u \<Rightarrow> if matched then Inr ((plain_result [(RESULTS_OUTPUT, JArray results)])\<lparr>res_child_runs := runs'\<rparr>)
                          else Inl (step_failed cx (fmt ''FAN_OUT exhausted {} iteration(s) without satisfying until condition: {}''
                            [nat_str (length items), u]))
                      | None \<Rightarrow> Inr ((plain_result [(RESULTS_OUTPUT, JArray results)])\<lparr>res_child_runs := runs'\<rparr>)))))
      | _ \<Rightarrow> Some (w, [], Inl (step_failed cx ''expected FAN_OUT config'')))"

section \<open>The dispatcher\<close>

definition missing_error :: "step_context \<Rightarrow> string list \<Rightarrow> executor_error" where
  "missing_error cx missing = step_failed cx
     (fmt ''unresolved placeholder(s): {} {} value is null or does not exist. {} Repair the plan to reference an existing non-null output.''
       [join '', '' missing, em_dash, available_outputs_hint missing (cx_outputs cx)])"

fun run_step :: "nat \<Rightarrow> 'w runner_env \<Rightarrow> 'w agent_env \<Rightarrow> 'w spawn" where
  "run_step 0 env ae cx a w = None"
| "run_step (Suc n) env ae cx a w =
     (let missing = missing_placeholders (runtime_preflight_config (cx_step cx)) (p_config (cx_plan cx)) (cx_outputs cx);
          leaf = (\<lambda>(w', r). Some (w', a, [], r))
      in if missing \<noteq> [] then Some (w, a, [], Inl (missing_error cx missing))
         else case s_config (cx_step cx) of
           ToolCall c \<Rightarrow> leaf (run_tool_call env cx w)
         | CodeCall c \<Rightarrow> leaf (run_code_call env cx w)
         | HumanInteraction c \<Rightarrow> leaf (run_human env cx w)
         | FanOut c \<Rightarrow> map_option (\<lambda>(w', events, r). (w', a, events, r)) (run_fan_out (run_step n env ae) env cx w)
         | FanIn c \<Rightarrow> leaf (w, run_fan_in cx)
         | PromptCall c \<Rightarrow> leaf (run_prompt_call env cx w)
         | Condition c \<Rightarrow> leaf (w, run_condition env cx)
         | AgentCall c \<Rightarrow> (case run_agent_call env ae cx a w of (w', a', r) \<Rightarrow> Some (w', a', [], r)))"

declare run_step.simps(2) [simp del]

section \<open>Fuel\<close>

text \<open>The nesting of FAN_OUT bodies below a step is less than the fuel.\<close>

fun fuel_ok :: "plan \<Rightarrow> nat \<Rightarrow> string \<Rightarrow> bool" where
  "fuel_ok p 0 i = False"
| "fuel_ok p (Suc n) i = list_all (\<lambda>j. plan_find_step p j = None \<or> fuel_ok p n j) (spawned p i)"

lemma run_body_returns:
  assumes "\<And>i s outs w. i \<in> set is \<Longrightarrow> plan_find_step (cx_plan cx) i = Some s \<Longrightarrow>
      spawn (cx\<lparr>cx_step := s, cx_outputs := outs\<rparr>) ([], []) w \<noteq> None"
  shows "run_body spawn env cx iteration is_final base is skipped acc runs w \<noteq> None"
  using assms
proof (induction "is" arbitrary: skipped acc runs w)
  case Nil
  show ?case by simp
next
  case (Cons i "is")
  have IH: "run_body spawn env cx iteration is_final base is skipped acc runs w \<noteq> None" for skipped acc runs w
    by (rule Cons.IH, rule Cons.prems) simp_all
  show ?case
  proof (cases "plan_find_step (cx_plan cx) i")
    case (Some s)
    have ran: "run_spawn_step spawn env cx s iteration is_final outs runs w \<noteq> None" for outs runs w
      using Cons.prems [of i s] Some by (auto simp: run_spawn_step_def Let_def split: option.splits sum.splits)
    show ?thesis
    proof (cases "i \<in> skipped \<or> list_ex (\<lambda>d. d \<in> skipped) (s_depends_on s)")
      case True
      then show ?thesis using IH Some by (simp add: Let_def del: not_None_eq)
    next
      case False
      obtain w1 events runs' r where one:
        "run_spawn_step spawn env cx s iteration is_final (with_outputs acc base) runs w = Some (w1, events, runs', r)"
        using ran by (metis not_None_eq prod_cases4)
      show ?thesis
        by (cases r) (use False Some one IH in \<open>simp_all del: not_None_eq\<close>)
    qed
  qed simp
qed

lemma run_items_returns:
  assumes "\<And>iteration is_final base runs w. run_body spawn env cx iteration is_final base (fo_spawn_steps c) {} [] runs w \<noteq> None"
  shows "run_items spawn env cx c total_items iteration items results runs w \<noteq> None"
proof (induction items arbitrary: iteration results runs w)
  case (Cons item items)
  then show ?case
    using assms by (auto simp: Let_def simp del: not_None_eq split: option.splits sum.splits bool.splits)
qed simp

lemma run_step_returns:
  "fuel_ok (cx_plan cx) n (s_id (cx_step cx)) \<Longrightarrow>
   plan_find_step (cx_plan cx) (s_id (cx_step cx)) = Some (cx_step cx) \<Longrightarrow>
   run_step n env ae cx a w \<noteq> None"
proof (induction n arbitrary: cx a w)
  case (Suc n)
  show ?case
  proof (cases "\<exists>c. s_config (cx_step cx) = FanOut c")
    case True
    then obtain c where c: "s_config (cx_step cx) = FanOut c" ..
    have sp: "spawned (cx_plan cx) (s_id (cx_step cx)) = fo_spawn_steps c"
      using Suc.prems(2) c by (simp add: spawned_def)
    have "run_step n env ae (cx\<lparr>cx_step := s, cx_outputs := outs\<rparr>) ([], []) w \<noteq> None"
      if "i \<in> set (fo_spawn_steps c)" "plan_find_step (cx_plan cx) i = Some s" for i s outs w
    proof (rule Suc.IH)
      have "s_id s = i" using plan_find_step_Some [OF that(2)] by simp
      then show "fuel_ok (cx_plan (cx\<lparr>cx_step := s, cx_outputs := outs\<rparr>)) n (s_id (cx_step (cx\<lparr>cx_step := s, cx_outputs := outs\<rparr>)))"
        "plan_find_step (cx_plan (cx\<lparr>cx_step := s, cx_outputs := outs\<rparr>))
           (s_id (cx_step (cx\<lparr>cx_step := s, cx_outputs := outs\<rparr>))) = Some (cx_step (cx\<lparr>cx_step := s, cx_outputs := outs\<rparr>))"
        using Suc.prems(1) that sp by (auto simp: list_all_iff)
    qed
    then have "run_items (run_step n env ae) env cx c k iteration items results runs w \<noteq> None"
      for k iteration items results runs w
      by (intro run_items_returns run_body_returns) blast+
    then have "run_fan_out (run_step n env ae) env cx w \<noteq> None"
      using c by (auto simp: run_fan_out_def Let_def simp del: not_None_eq split: option.splits sum.splits prod.splits)
    with c show ?thesis by (simp add: run_step.simps(2) Let_def)
  next
    case False
    then show ?thesis
      by (cases "s_config (cx_step cx)") (auto simp: run_step.simps(2) Let_def split: prod.splits)
  qed
qed simp

section \<open>What a FAN_OUT records\<close>

definition runs_of :: "child_runs \<Rightarrow> string \<Rightarrow> step_run_iteration list" where
  "runs_of m i = (case im_get m i of Some l \<Rightarrow> l | None \<Rightarrow> [])"

lemma runs_of_push: "runs_of (push_runs i rs m) j = (if j = i then runs_of m i @ rs else runs_of m j)"
  by (simp add: runs_of_def push_runs_def im.get_put)

lemma run_step_leaf:
  "\<not> (\<exists>c. s_config (cx_step cx) = FanOut c) \<Longrightarrow> run_step n env ae cx a w = Some (w', a', events, r) \<Longrightarrow>
   events = [] \<and> (\<forall>res. r = Inr res \<longrightarrow> res_child_runs res = [])"
proof (cases n)
  case (Suc m)
  have [simp]: "res_child_runs (plain_result outs) = []" for outs by (simp add: plain_result_def)
  have tool: "res_child_runs res = []" if "run_tool_call env cx w = (w', Inr res)" for w w' res
    using that by (auto simp: run_tool_call_def Let_def split: step_config.splits option.splits sum.splits prod.splits if_splits)
  have code: "res_child_runs res = []" if "run_code_call env cx w = (w', Inr res)" for w w' res
    using that by (auto simp: run_code_call_def Let_def script_result_def map_script_output_def
        split: step_config.splits option.splits sum.splits prod.splits if_splits script_outcome.splits)
  have human: "res_child_runs res = []" if "run_human env cx w = (w', Inr res)" for w w' res
    using that by (auto simp: run_human_def split: step_config.splits sum.splits prod.splits)
  have prompt: "res_child_runs res = []" if "run_prompt_call env cx w = (w', Inr res)" for w w' res
    using that by (auto simp: run_prompt_call_def Let_def split: step_config.splits option.splits sum.splits prod.splits)
  have agent: "res_child_runs res = []" if "run_agent_call env ae cx a w = (w', a', Inr res)" for a w w' a' res
    using that by (auto simp: run_agent_call_def agent_result_def Let_def
        split: step_config.splits option.splits sum.splits prod.splits if_splits)
  have pure: "res_child_runs res = []" if "run_fan_in cx = Inr res \<or> run_condition env cx = Inr res" for res
    using that by (auto simp: run_fan_in_def run_condition_def split: step_config.splits sum.splits prod.splits)
  assume "\<not> (\<exists>c. s_config (cx_step cx) = FanOut c)" "run_step n env ae cx a w = Some (w', a', events, r)"
  then show ?thesis
    using tool code human prompt agent pure Suc
    by (cases a; cases "s_config (cx_step cx)") (auto simp: run_step.simps(2) Let_def split: prod.splits if_splits)
qed simp

definition recorded :: "nat \<Rightarrow> step_run_iteration \<Rightarrow> bool" where
  "recorded k r = (it_iteration r = k \<and> (it_status r = SSucceeded \<or> it_status r = SSkipped))"

lemma recorded_completed [simp]: "recorded k (completed_iteration k s f ms res)"
  by (simp add: recorded_def completed_iteration_def)

lemma recorded_skipped [simp]: "recorded k (skipped_iteration k now)"
  by (simp add: recorded_def skipped_iteration_def)

lemma run_spawn_step_records:
  assumes "run_spawn_step spawn env cx s k is_final outs runs w = Some (w', events, runs', Inr o')"
    and flat: "\<And>w a' ev res. spawn (cx\<lparr>cx_step := s, cx_outputs := outs\<rparr>) ([], []) w = Some (w', a', ev, Inr res) \<Longrightarrow>
      res_child_runs res = []"
  shows "\<exists>r. runs' = push_runs (s_id s) [r] runs \<and> recorded k r"
  using assms(1) flat [of w]
  by (force simp: run_spawn_step_def Let_def split: option.splits sum.splits)

lemma run_body_records:
  assumes "run_body spawn env cx k is_final base is skipped acc runs w = Some (w', events, runs', Inr acc')"
    and "distinct is"
    and "\<And>i s outs w w' a' ev res. i \<in> set is \<Longrightarrow> plan_find_step (cx_plan cx) i = Some s \<Longrightarrow>
      spawn (cx\<lparr>cx_step := s, cx_outputs := outs\<rparr>) ([], []) w = Some (w', a', ev, Inr res) \<Longrightarrow> res_child_runs res = []"
  shows "\<forall>j. if j \<in> set is then \<exists>r. runs_of runs' j = runs_of runs j @ [r] \<and> recorded k r
    else runs_of runs' j = runs_of runs j"
  using assms
proof (induction "is" arbitrary: skipped acc runs w events)
  case (Cons i "is")
  obtain s where s: "plan_find_step (cx_plan cx) i = Some s"
    using Cons.prems(1) by (auto split: option.splits)
  then have [simp]: "s_id s = i" using plan_find_step_Some by blast
  have "\<exists>r skipped' acc1 w1 ev1. recorded k r \<and>
      run_body spawn env cx k is_final base is skipped' acc1 (push_runs i [r] runs) w1 = Some (w', ev1, runs', Inr acc')"
  proof (cases "i \<in> skipped \<or> list_ex (\<lambda>d. d \<in> skipped) (s_depends_on s)")
    case True
    with Cons.prems(1) s obtain ev1 where "run_body spawn env cx k is_final base is (insert i skipped) acc
        (push_runs i [skipped_iteration k (tr_now (re_transport env) w)] runs) w = Some (w', ev1, runs', Inr acc')"
      by (auto simp: Let_def)
    then show ?thesis using recorded_skipped by blast
  next
    case False
    with Cons.prems(1) s obtain w1 ev1 runs1 outs1 ev2 where
      one: "run_spawn_step spawn env cx s k is_final (with_outputs acc base) runs w = Some (w1, ev1, runs1, Inr outs1)"
      and rest: "run_body spawn env cx k is_final base is (skipped \<union> set (untaken_branch s outs1))
        (im_insert i outs1 acc) runs1 w1 = Some (w', ev2, runs', Inr acc')"
      by (auto split: option.splits sum.splits)
    from run_spawn_step_records [OF one] Cons.prems(3) [OF _ s] obtain r where
      "runs1 = push_runs i [r] runs" "recorded k r" by auto
    with rest show ?thesis by blast
  qed
  then obtain r skipped' acc1 w1 ev1 where r: "recorded k r"
    and rest: "run_body spawn env cx k is_final base is skipped' acc1 (push_runs i [r] runs) w1 = Some (w', ev1, runs', Inr acc')"
    by blast
  have "\<forall>j. if j \<in> set is then \<exists>r'. runs_of runs' j = runs_of (push_runs i [r] runs) j @ [r'] \<and> recorded k r'
    else runs_of runs' j = runs_of (push_runs i [r] runs) j"
    by (rule Cons.IH [OF rest]) (use Cons.prems(2) in simp, rule Cons.prems(3), simp_all)
  with Cons.prems(2) r show ?case by (auto simp: runs_of_push split: if_splits)
qed simp

lemma run_items_records:
  assumes "run_items spawn env cx c n k items results runs w = Some (w', events, runs', Inr (results', m))"
    and "distinct (fo_spawn_steps c)"
    and "\<And>i s outs w w' a' ev res. i \<in> set (fo_spawn_steps c) \<Longrightarrow> plan_find_step (cx_plan cx) i = Some s \<Longrightarrow>
      spawn (cx\<lparr>cx_step := s, cx_outputs := outs\<rparr>) ([], []) w = Some (w', a', ev, Inr res) \<Longrightarrow> res_child_runs res = []"
  shows "\<exists>d. length results' = length results + d \<and> d \<le> length items \<and> (m \<longrightarrow> 0 < d \<and> fo_until c \<noteq> None) \<and>
    (\<not> m \<longrightarrow> d = length items) \<and>
    (\<forall>i \<in> set (fo_spawn_steps c). \<exists>rs. runs_of runs' i = runs_of runs i @ rs \<and> list_all2 recorded [k..<k + d] rs)"
  using assms(1)
proof (induction items arbitrary: k results runs w events)
  case Nil
  then show ?case by (intro exI [of _ 0]) auto
next
  case (Cons item items)
  let ?base = "with_output ITEM_SCOPE_KEY [(fo_item_var c, item)] (cx_outputs cx)"
  let ?results = "\<lambda>acc. results @ [collect_final_spawn_outputs (fo_spawn_steps c) acc]"
  obtain w1 ev1 runs1 acc where
    body: "run_body spawn env cx k (k + 1 = n) ?base (fo_spawn_steps c) {} [] runs w = Some (w1, ev1, runs1, Inr acc)"
    using Cons.prems by (auto simp: Let_def split: option.splits sum.splits)
  have one: "\<exists>r. runs_of runs1 i = runs_of runs i @ [r] \<and> recorded k r" if "i \<in> set (fo_spawn_steps c)" for i
    using run_body_records [OF body assms(2)] assms(3) that by (metis (no_types, lifting))
  consider (met) "m" "results' = ?results acc" "runs' = runs1" "fo_until c \<noteq> None"
    | (more) ev2 where "run_items spawn env cx c n (k + 1) items (?results acc) runs1 w1 = Some (w', ev2, runs', Inr (results', m))"
    using Cons.prems body by (auto simp: Let_def until_satisfied_def split: option.splits sum.splits bool.splits if_splits)
  then show ?case
  proof cases
    case met
    have "\<exists>rs. runs_of runs' i = runs_of runs i @ rs \<and> list_all2 recorded [k..<k + 1] rs"
      if i: "i \<in> set (fo_spawn_steps c)" for i
      using one [OF i] met by fastforce
    with met show ?thesis by (intro exI [of _ 1]) simp
  next
    case more
    from Cons.IH [OF more] obtain d where d: "length results' = Suc (length results + d)" "d \<le> length items"
      "m \<longrightarrow> 0 < d \<and> fo_until c \<noteq> None" "\<not> m \<longrightarrow> d = length items"
      "\<forall>i \<in> set (fo_spawn_steps c). \<exists>rs. runs_of runs' i = runs_of runs1 i @ rs \<and> list_all2 recorded [k + 1..<k + 1 + d] rs"
      by auto
    have "\<exists>rs. runs_of runs' i = runs_of runs i @ rs \<and> list_all2 recorded [k..<k + Suc d] rs"
      if i: "i \<in> set (fo_spawn_steps c)" for i
    proof -
      obtain rs where rs: "runs_of runs' i = runs_of runs1 i @ rs" "list_all2 recorded [k + 1..<k + 1 + d] rs"
        using d(5) i by blast
      from one [OF i] obtain r where r: "runs_of runs1 i = runs_of runs i @ [r]" "recorded k r" by blast
      have "[k..<k + Suc d] = k # [k + 1..<k + 1 + d]" by (simp add: upt_conv_Cons del: upt_Suc)
      with rs r show ?thesis by (intro exI [of _ "r # rs"]) (simp del: upt_Suc)
    qed
    with d show ?thesis by (intro exI [of _ "Suc d"]) (simp del: upt_Suc)
  qed
qed

section \<open>Enough fuel\<close>

lemma plan_find_step_cong: "p_steps p = p_steps q \<Longrightarrow> plan_find_step p = plan_find_step q"
  by (simp add: plan_find_step_def fun_eq_iff)

lemma fuel_ok_cong:
  assumes "p_steps p = p_steps q"
  shows "fuel_ok p n i = fuel_ok q n i"
proof -
  note find = plan_find_step_cong [OF assms]
  then have "spawned p = spawned q" by (simp add: spawned_def fun_eq_iff)
  with find show ?thesis by (induction n arbitrary: i) simp_all
qed

lemma spawned_owner:
  assumes "validate_fan_out_constraints p = []" "j \<in> set (spawned p x)"
  shows "fan_out_owner p j = Some x"
proof -
  obtain s c where s: "plan_find_step p x = Some s" "s_config s = FanOut c" "j \<in> set (fo_spawn_steps c)"
  proof (cases "plan_find_step p x")
    case None
    then show ?thesis using assms(2) by (simp add: spawned_def)
  next
    case (Some s)
    then show ?thesis using assms(2) that by (cases "s_config s") (auto simp: spawned_def)
  qed
  have "s_id s \<in> set (pushes_at j (spawn_owners p))"
    by (rule spawn_owner_member [OF _ s(2,3)]) (use plan_find_step_Some [OF s(1)] in simp)
  then show ?thesis using fan_out_owner_unique [OF assms(1)] plan_find_step_Some [OF s(1)] by simp
qed

text \<open>A chain of owners, innermost step first, never repeats: it starts at an unowned step.\<close>

lemma owner_chain_fuel:
  assumes "validate_fan_out_constraints p = []"
    and "distinct path" "path \<noteq> []" "set path \<subseteq> s_id ` set (p_steps p)"
    and "successively (\<lambda>x y. x \<in> set (spawned p y)) path" "fan_out_owner p (last path) = None"
    and "length path + n = Suc (length (p_steps p))"
  shows "fuel_ok p n (hd path)"
  using assms(2-)
proof (induction n arbitrary: path)
  case 0
  have "length path = card (set path)" using "0.prems"(1) by (simp add: distinct_card)
  also have "\<dots> \<le> card (s_id ` set (p_steps p))" by (intro card_mono) (use "0.prems"(3) in auto)
  also have "\<dots> \<le> length (p_steps p)" by (metis card_image_le card_length le_trans List.finite_set)
  finally show ?case using "0.prems"(6) by simp
next
  case (Suc n)
  have "fuel_ok p n j" if j: "j \<in> set (spawned p (hd path))" and e: "plan_find_step p j \<noteq> None" for j
  proof -
    have member: "j \<in> s_id ` set (p_steps p)" using e plan_find_step_None [of p j] by auto
    have "j \<notin> set path"
    proof
      assume "j \<in> set path"
      then obtain xs ys where path: "path = xs @ j # ys" using split_list by metis
      show False
      proof (cases ys)
        case Nil
        with path Suc.prems(5) spawned_owner [OF assms(1) j] show False by simp
      next
        case (Cons y zs)
        with path Suc.prems(4) have owned: "j \<in> set (spawned p y)" by (simp add: successively_append_iff)
        have "hd path = y" using spawned_owner [OF assms(1) j] spawned_owner [OF assms(1) owned] by simp
        with path Cons Suc.prems(1) show False by (cases xs) auto
      qed
    qed
    then have "fuel_ok p n (hd (j # path))"
      by (intro Suc.IH) (use Suc.prems j member in \<open>auto simp: successively_Cons\<close>)
    then show ?thesis by simp
  qed
  then show ?case by (auto simp: list_all_iff simp del: not_None_eq)
qed

lemma validated_fuel:
  assumes "validate p catalog = []" "s \<in> set (p_steps p)" "fan_out_owner p (s_id s) = None"
  shows "fuel_ok p (length (p_steps p)) (s_id s)"
  using owner_chain_fuel [OF validate_Nil(5) [OF assms(1)], of "[s_id s]" "length (p_steps p)"] assms(2,3) by simp

section \<open>Properties\<close>

text \<open>
  A step of the main flow returns.  In a plan that validates, running a step that no FAN_OUT
  owns ends with a result or an error: the nesting of FAN_OUT bodies below it is bounded by the
  number of steps of the plan, whatever the run-time configuration that was injected.
\<close>

theorem main_flow_step_returns:
  assumes "validate p catalog = []" and "s \<in> set (p_steps p)" and "fan_out_owner p (s_id s) = None"
    and "p_steps (cx_plan cx) = p_steps p" and "cx_step cx = s"
  shows "\<exists>w' a' events r. run_step (length (p_steps p)) env ae cx a w = Some (w', a', events, r)"
proof -
  have "fuel_ok (cx_plan cx) (length (p_steps p)) (s_id (cx_step cx))"
    using validated_fuel [OF assms(1-3)] fuel_ok_cong [OF assms(4)] assms(5) by simp
  moreover have "plan_find_step (cx_plan cx) (s_id (cx_step cx)) = Some (cx_step cx)"
    using plan_find_step_distinct [OF validate_Nil(3) [OF assms(1)] assms(2)] plan_find_step_cong [OF assms(4)] assms(5)
    by simp
  ultimately have "run_step (length (p_steps p)) env ae cx a w \<noteq> None" by (rule run_step_returns)
  then show ?thesis by (cases "run_step (length (p_steps p)) env ae cx a w") auto
qed

text \<open>
  C9: what a FAN_OUT records.  When a FAN_OUT over steps that are no FAN_OUTs succeeds, its
  \<^verbatim>\<open>results\<close> has one entry per iteration; without an \<^verbatim>\<open>until\<close> expression there is one iteration per item,
  with one at least one and at most as many.  Every spawn step has exactly one child run per
  iteration, numbered in order, and each of them succeeded or was skipped.
\<close>

theorem fan_out_records:
  assumes "s_config (cx_step cx) = FanOut c" and "distinct (fo_spawn_steps c)"
    and "\<And>i s. i \<in> set (fo_spawn_steps c) \<Longrightarrow> plan_find_step (cx_plan cx) i = Some s \<Longrightarrow> \<nexists>c'. s_config s = FanOut c'"
    and "run_step n env ae cx a w = Some (w', a', events, Inr res)"
  shows "\<exists>over_step over_output v results.
    parse_over_ref (fo_over c) = Some (over_step, over_output) \<and> resolve_over_value cx over_step over_output = Inr v \<and>
    im_get (res_outputs res) RESULTS_OUTPUT = Some (JArray results) \<and>
    (case fo_until c of None \<Rightarrow> length results = length (coerce_fan_out_items (re_host env) v)
     | Some u \<Rightarrow> length results \<in> {1..length (coerce_fan_out_items (re_host env) v)}) \<and>
    (\<forall>i \<in> set (fo_spawn_steps c).
       map it_iteration (runs_of (res_child_runs res) i) = [0..<length results] \<and>
       it_status ` set (runs_of (res_child_runs res) i) \<subseteq> {SSucceeded, SSkipped})"
proof -
  obtain m where n: "n = Suc m" using assms(4) by (cases n) auto
  have flat: "res_child_runs res = []"
    if "i \<in> set (fo_spawn_steps c)" "plan_find_step (cx_plan cx) i = Some s"
      "run_step m env ae (cx\<lparr>cx_step := s, cx_outputs := outs\<rparr>) ([], []) w = Some (w', a', ev, Inr res)"
    for i s outs w w' a' ev res
    using run_step_leaf [OF _ that(3)] assms(3) [OF that(1,2)] by simp
  let ?init = "im_extend [] (map (\<lambda>i. (i, [])) (fo_spawn_steps c))"
  have init: "runs_of ?init i = []" for i
    by (auto simp: runs_of_def im_get_extend map_of_eq_None_iff dest!: map_of_SomeD split: option.splits)
  have fan: "run_fan_out (run_step m env ae) env cx w = Some (w', events, Inr res)"
    using assms(1,4) n by (simp add: run_step.simps(2) Let_def split: if_splits)
  obtain over_step over_output v where over: "parse_over_ref (fo_over c) = Some (over_step, over_output)"
      "resolve_over_value cx over_step over_output = Inr v"
    using fan assms(1) by (auto simp: run_fan_out_def split: option.splits sum.splits)
  obtain runs' results met where
    items: "run_items (run_step m env ae) env cx c (length (coerce_fan_out_items (re_host env) v)) 0
        (coerce_fan_out_items (re_host env) v) [] ?init w = Some (w', events, runs', Inr (results, met))"
    and res: "res = (plain_result [(RESULTS_OUTPUT, JArray results)])\<lparr>res_child_runs := runs'\<rparr>"
    and met: "fo_until c \<noteq> None \<Longrightarrow> met"
    using fan assms(1) over
    by (auto simp: run_fan_out_def Let_def split: option.splits sum.splits prod.splits if_splits)
  have "\<exists>d. length results = length ([] :: json list) + d \<and> d \<le> length (coerce_fan_out_items (re_host env) v) \<and>
    (met \<longrightarrow> 0 < d \<and> fo_until c \<noteq> None) \<and> (\<not> met \<longrightarrow> d = length (coerce_fan_out_items (re_host env) v)) \<and>
    (\<forall>i \<in> set (fo_spawn_steps c). \<exists>rs. runs_of runs' i = runs_of ?init i @ rs \<and> list_all2 recorded [0..<0 + d] rs)"
    by (rule run_items_records [OF items assms(2)]) (rule flat)
  then have d: "length results \<le> length (coerce_fan_out_items (re_host env) v)" "met \<longrightarrow> 0 < length results \<and> fo_until c \<noteq> None"
      "\<not> met \<longrightarrow> length results = length (coerce_fan_out_items (re_host env) v)"
    and rec: "\<forall>i \<in> set (fo_spawn_steps c). list_all2 recorded [0..<length results] (runs_of runs' i)"
    by (auto simp: init)
  have "map it_iteration rs = ks \<and> it_status ` set rs \<subseteq> {SSucceeded, SSkipped}" if "list_all2 recorded ks rs" for ks rs
    using that by (induction rule: list_all2_induct) (auto simp: recorded_def)
  moreover have "runs_of (res_child_runs res) = runs_of runs'" by (simp add: res fun_eq_iff)
  ultimately have children: "\<forall>i \<in> set (fo_spawn_steps c).
      map it_iteration (runs_of (res_child_runs res) i) = [0..<length results] \<and>
      it_status ` set (runs_of (res_child_runs res) i) \<subseteq> {SSucceeded, SSkipped}"
    using rec by (simp only:) blast
  have "case fo_until c of None \<Rightarrow> length results = length (coerce_fan_out_items (re_host env) v)
      | Some u \<Rightarrow> length results \<in> {1..length (coerce_fan_out_items (re_host env) v)}"
    using d met by (auto simp: Suc_le_eq split: option.splits)
  moreover have "im_get (res_outputs res) RESULTS_OUTPUT = Some (JArray results)"
    by (simp add: res plain_result_def im_get_def)
  ultimately show ?thesis using over children by blast
qed

definition no_agents :: "nat agent_env" where
  "no_agents = \<lparr>ae_start = \<lambda>cmd env dir timeout w. (w, ObjectiveFailed ''offline''), ae_pretty = \<lambda>v. []\<rparr>"

definition fan_context :: step_context where
  "fan_context = (let cx = demo_context (FanOut \<lparr>fo_over = ''src.out'', fo_item_var = ''x'',
       fo_spawn_steps = [''one''], fo_until = None\<rparr>) [''results''] in
     cx\<lparr>cx_plan := (cx_plan cx)\<lparr>p_steps := [(cx_step cx)\<lparr>s_id := ''one'', s_config := Condition
         \<lparr>cd_expression = ''${item.x} == 2'', cd_true_steps = [], cd_false_steps = []\<rparr>\<rparr>]\<rparr>,
       cx_outputs := outputs_from_map [(''src'', [(''out'', JArray [JString ''1'', JString ''2''])])]\<rparr>)"

lemma main_flow_step_returns_witness:
  "\<exists>w' a' events r. run_step (length (p_steps pipeline)) offline_env no_agents
     (fan_context\<lparr>cx_plan := pipeline, cx_step := pipeline_steps ! 1\<rparr>) ([], []) 0 = Some (w', a', events, r)"
proof (rule main_flow_step_returns [OF pipeline_valid pipeline_step [of 1]])
  show "fan_out_owner pipeline (s_id (pipeline_steps ! 1)) = None" by code_simp
qed (simp_all add: pipeline_steps_def)

lemma fan_context_runs:
  "case run_step 2 offline_env no_agents fan_context ([], []) 0 of Some (w', a', events, Inr res) \<Rightarrow> True | _ \<Rightarrow> False"
  by code_simp

lemma fan_out_records_witness:
  "\<exists>w' a' events res results. run_step 2 offline_env no_agents fan_context ([], []) 0 = Some (w', a', events, Inr res) \<and>
     im_get (res_outputs res) RESULTS_OUTPUT = Some (JArray results) \<and>
     map it_iteration (runs_of (res_child_runs res) ''one'') = [0..<length results]"
proof -
  obtain w' a' events res where
    run: "run_step 2 offline_env no_agents fan_context ([], []) 0 = Some (w', a', events, Inr res)"
    using fan_context_runs by (auto split: option.splits sum.splits) (metis sum.exhaust)
  have config: "s_config (cx_step fan_context) = FanOut \<lparr>fo_over = ''src.out'', fo_item_var = ''x'',
      fo_spawn_steps = [''one''], fo_until = None\<rparr>"
    by (simp add: fan_context_def demo_context_def Let_def)
  have flat: "\<nexists>c'. s_config s = FanOut c'" if "plan_find_step (cx_plan fan_context) i = Some s" for i s
    using that by (auto simp: fan_context_def demo_context_def Let_def plan_find_step_def split: if_splits)
  have "\<exists>results. im_get (res_outputs res) RESULTS_OUTPUT = Some (JArray results) \<and>
      map it_iteration (runs_of (res_child_runs res) ''one'') = [0..<length results]"
    using fan_out_records [OF config _ _ run] flat by auto
  with run show ?thesis by blast
qed

end
