(* ===== verification/Executor.thy ===== *)
theory Executor
  imports FanOut
begin

text \<open>
  The plan executor, \<^verbatim>\<open>executor/mod.rs\<close>.  A step that waits on the outside world
  is a state transformer on the world; a run is persisted through \<open>xe_save\<close>.  Notifications to
  a UI and tracing have no effect on a run and are left out.

  The executor takes the child runs of a FAN_OUT from a channel while the step executes.  Here
  they are recorded when the step has ended, in their order, which is one of the schedules of the
  code; the run depends only on the order.  A deadline drops the step and the child runs it had
  not sent: the environment says when, and what was sent.
\<close>

section \<open>The environment\<close>

record 'w executor_env =
  xe_runner :: "'w runner_env"
  xe_agent :: "'w agent_env"
  xe_inputs :: "json imap"
  xe_timeout_secs :: "64 word option"
  xe_storage_root :: string
  xe_source :: "run_source option"
  xe_lock_lifecycle :: "string \<Rightarrow> ('w, string + unit) effect"
  xe_save :: "run \<Rightarrow> ('w, string + unit) effect"
  xe_take_calls :: "('w, (string \<times> claude_call_summary) list) effect"
  xe_deadline :: "64 word \<Rightarrow> 'w \<Rightarrow> 'w \<Rightarrow> ('w \<times> audit \<times> nat) option"
  xe_sleep :: "64 word \<Rightarrow> 'w \<Rightarrow> 'w"
  xe_uuid :: "'w \<Rightarrow> string"
  xe_hash_order :: "string set \<Rightarrow> string list"

abbreviation xe_now :: "'w executor_env \<Rightarrow> 'w \<Rightarrow> instant" where
  "xe_now env \<equiv> tr_now (re_transport (xe_runner env))"

abbreviation xe_elapsed :: "'w executor_env \<Rightarrow> 'w \<Rightarrow> 'w \<Rightarrow> 64 word" where
  "xe_elapsed env \<equiv> tr_elapsed_ms (re_transport (xe_runner env))"

abbreviation xe_host :: "'w executor_env \<Rightarrow> host" where
  "xe_host env \<equiv> re_host (xe_runner env)"

definition REJECTED_BY_OPERATOR_MESSAGE :: string where
  "REJECTED_BY_OPERATOR_MESSAGE = ''rejected by the operator''"

definition MAX_BACKOFF_SHIFT :: nat where
  "MAX_BACKOFF_SHIFT = 31"

definition PROCESS_REAP_GRACE_SECS :: "64 word" where
  "PROCESS_REAP_GRACE_SECS = 1"

definition save_run :: "'w executor_env \<Rightarrow> run \<Rightarrow> ('w, executor_error + unit) effect" where
  "save_run env r w =
     (case xe_save env r w of (w', Inl e) \<Rightarrow> (w', Inl (EE_Storage e)) | (w', Inr u) \<Rightarrow> (w', Inr ()))"

text \<open>Changing the run of one step; steps without a record are left alone.\<close>

definition adjust_step :: "string \<Rightarrow> (step_run \<Rightarrow> step_run) \<Rightarrow> run \<Rightarrow> run" where
  "adjust_step i f r =
     (case im_get (r_step_runs r) i of None \<Rightarrow> r
      | Some sr \<Rightarrow> r\<lparr>r_step_runs := im_insert i (f sr) (r_step_runs r)\<rparr>)"

definition inject_runtime_inputs :: "json imap \<Rightarrow> plan \<Rightarrow> plan" where
  "inject_runtime_inputs inputs p =
     p\<lparr>p_config := fold (\<lambda>(name, v). im_insert (''input.'' @ name) v) inputs (p_config p)\<rparr>"

section \<open>Child runs\<close>

definition get_or_insert :: "'a \<Rightarrow> 'a option \<Rightarrow> 'a option" where
  "get_or_insert v current = (case current of None \<Rightarrow> Some v | Some x \<Rightarrow> Some x)"

definition record_child_run :: "child_run_event \<Rightarrow> run \<Rightarrow> run" where
  "record_child_run e =
     adjust_step (ce_step_id e) (\<lambda>sr. sr\<lparr>
       sr_status := ce_status e,
       sr_error := (case it_error (ce_run e) of Some m \<Rightarrow> Some m | None \<Rightarrow> sr_error sr),
       sr_started_at := get_or_insert (it_started_at (ce_run e)) (sr_started_at sr),
       sr_finished_at := Some (it_finished_at (ce_run e)),
       sr_duration_ms := Some (sat_add (or_zero (sr_duration_ms sr)) (it_duration_ms (ce_run e))),
       sr_iterations := sr_iterations sr @ [ce_run e],
       sr_attempt := of_nat (length (sr_iterations sr @ [ce_run e]))\<rparr>)"

fun record_events :: "'w executor_env \<Rightarrow> child_run_event list \<Rightarrow> run \<Rightarrow> 'w \<Rightarrow> 'w \<times> run \<times> (executor_error + unit)" where
  "record_events env [] r w = (w, r, Inr ())"
| "record_events env (e # es) r w =
     (let r' = record_child_run e r
      in case save_run env r' w of (w', Inl x) \<Rightarrow> (w', r', Inl x) | (w', Inr u) \<Rightarrow> record_events env es r' w')"

definition finalize_child_run :: "step_run_iteration list \<Rightarrow> step_run \<Rightarrow> step_run" where
  "finalize_child_run returned sr =
     (let recorded = (if sr_iterations sr = [] then returned else sr_iterations sr)
      in if recorded = [] \<or> list_all (\<lambda>it. it_status it = SSkipped) recorded then
           sr\<lparr>sr_status := SSkipped, sr_duration_ms := Some 0\<rparr>
         else sr\<lparr>sr_status := SSucceeded\<rparr>)"

definition finalize_child_runs :: "child_runs \<Rightarrow> run \<Rightarrow> run" where
  "finalize_child_runs children = fold (\<lambda>(i, returned). adjust_step i (finalize_child_run returned)) children"

definition cancel_child :: "instant \<Rightarrow> step_run \<Rightarrow> step_run" where
  "cancel_child now sr =
     (if sr_status sr = SPending \<or> sr_status sr = SRunning then
        sr\<lparr>sr_status := SCancelled, sr_finished_at := Some now\<rparr>
      else sr)"

text \<open>The worklist is a stack; each spawn step is pushed as it is visited.\<close>

function terminalize_loop :: "plan \<Rightarrow> instant \<Rightarrow> string list \<Rightarrow> string set \<Rightarrow> run \<Rightarrow> run" where
  "terminalize_loop p now [] seen r = r"
| "terminalize_loop p now (i # pending) seen r =
     (if i \<in> seen then terminalize_loop p now pending seen r
      else terminalize_loop p now (rev (spawned p i) @ pending) (insert i seen)
             (fold (\<lambda>child. adjust_step child (cancel_child now)) (spawned p i) r))"
  by pat_completeness auto
termination
proof (relation "measures [\<lambda>(p, now, pending, seen, r). card ((set pending \<union> (\<Union>i. set (spawned p i))) - seen),
    \<lambda>(p, now, pending, seen, r). length pending]", goal_cases)
  case 1
  show ?case by simp
next
  case (2 p now i pending seen r)
  then have "(set (i # pending) \<union> (\<Union>i. set (spawned p i))) - seen = (set pending \<union> (\<Union>i. set (spawned p i))) - seen"
    by auto
  then show ?case by simp
next
  case (3 p now i pending seen r)
  have "(set (rev (spawned p i) @ pending) \<union> (\<Union>i. set (spawned p i))) - insert i seen
      \<subset> (set (i # pending) \<union> (\<Union>i. set (spawned p i))) - seen"
    using 3 by auto
  moreover have "finite ((set (i # pending) \<union> (\<Union>i. set (spawned p i))) - seen)"
    by (intro finite_Diff finite_UnI finite_spawned) simp
  ultimately show ?case using psubset_card_mono by auto
qed

definition terminalize_failed_fan_out_children :: "plan \<Rightarrow> string \<Rightarrow> instant \<Rightarrow> run \<Rightarrow> run" where
  "terminalize_failed_fan_out_children p owner now = terminalize_loop p now [owner] {}"

section \<open>One attempt\<close>

text \<open>An attempt that could not be persisted is given up; otherwise it ends with a result.\<close>

datatype attempt_end = Unsaved executor_error | Ended "executor_error + step_result"

definition drain_calls :: "(string \<times> claude_call_summary) list \<Rightarrow> run \<Rightarrow> run" where
  "drain_calls calls = fold (\<lambda>(i, c). adjust_step i (\<lambda>sr. sr\<lparr>sr_claude_calls := sr_claude_calls sr @ [c]\<rparr>)) calls"

definition timeout_grace_secs :: "plan_step \<Rightarrow> 64 word" where
  "timeout_grace_secs s =
     (if step_type_of s \<in> {TCodeCall, TAgentCall, TToolCall} then PROCESS_REAP_GRACE_SECS else 0)"

definition effective_timeout :: "'w executor_env \<Rightarrow> plan_step \<Rightarrow> 64 word option" where
  "effective_timeout env s = or_else (s_timeout_secs s) (xe_timeout_secs env)"

definition timed_out :: "plan_step \<Rightarrow> 64 word \<Rightarrow> executor_error" where
  "timed_out s secs = EE_StepFailed (s_id s) (fmt ''step timed out after {}s'' [nat_str (unat secs)])"

definition run_step_with_child_progress ::
    "'w executor_env \<Rightarrow> step_context \<Rightarrow> audit \<Rightarrow> run \<Rightarrow> 'w \<Rightarrow> ('w \<times> audit \<times> run \<times> (executor_error + step_result)) option" where
  "run_step_with_child_progress env cx a r w =
     (case run_step (length (p_steps (cx_plan cx))) (xe_runner env) (xe_agent env) cx a w of
        None \<Rightarrow> None
      | Some (w1, a1, events, outcome) \<Rightarrow>
          (let (w2, a2, sent, outcome2) =
             (case effective_timeout env (cx_step cx) of
                None \<Rightarrow> (w1, a1, events, outcome)
              | Some secs \<Rightarrow>
                  (case xe_deadline env (sat_add secs (timeout_grace_secs (cx_step cx))) w w1 of
                     None \<Rightarrow> (w1, a1, events, outcome)
                   | Some (w', a', n) \<Rightarrow> (w', a', take n events, Inl (timed_out (cx_step cx) secs))))
           in case record_events env sent r w2 of
             (w3, r3, Inl e) \<Rightarrow> Some (w3, a2, r3, Inl e)
           | (w3, r3, Inr u) \<Rightarrow> Some (w3, a2, r3, outcome2)))"

definition begin_attempt :: "instant \<Rightarrow> nat \<Rightarrow> step_run \<Rightarrow> step_run" where
  "begin_attempt now attempt sr = sr\<lparr>sr_status := SRunning,
     sr_started_at := get_or_insert now (sr_started_at sr), sr_attempt := of_nat attempt, sr_error := None\<rparr>"

definition run_attempt ::
    "'w executor_env \<Rightarrow> step_context \<Rightarrow> nat \<Rightarrow> audit \<Rightarrow> run \<Rightarrow> 'w \<Rightarrow> ('w \<times> audit \<times> run \<times> attempt_end) option" where
  "run_attempt env cx attempt a r w =
     (let r1 = adjust_step (s_id (cx_step cx)) (begin_attempt (xe_now env w) attempt) r
      in case save_run env r1 w of
        (w1, Inl e) \<Rightarrow> Some (w1, a, r1, Unsaved e)
      | (w1, Inr u) \<Rightarrow>
          (case run_step_with_child_progress env cx a r1 w1 of
             None \<Rightarrow> None
           | Some (w2, a2, r2, outcome) \<Rightarrow>
               (let (w3, calls) = xe_take_calls env w2 in Some (w3, a2, drain_calls calls r2, Ended outcome))))"

section \<open>Retries\<close>

definition retry_delay :: "retry_policy \<Rightarrow> nat \<Rightarrow> 64 word" where
  "retry_delay policy failed_attempt =
     (let multiplier = (if rp_backoff policy then push_bit (min (failed_attempt - 1) MAX_BACKOFF_SHIFT) 1 else 1)
      in if unat (rp_delay_secs policy) * unat (multiplier :: 64 word) < 2 ^ 64 then rp_delay_secs policy * multiplier
         else - 1)"

definition max_attempts :: "plan_step \<Rightarrow> nat" where
  "max_attempts s = (case s_retry s of None \<Rightarrow> 1 | Some policy \<Rightarrow> max (unat (rp_max_attempts policy)) 1)"

fun is_human_control :: "executor_error \<Rightarrow> bool" where
  "is_human_control (EE_HumanResponsePending i) = True"
| "is_human_control (EE_RejectedByHuman i) = True"
| "is_human_control _ = False"

definition keep_audit :: "audit \<Rightarrow> step_run \<Rightarrow> step_run" where
  "keep_audit a sr = sr\<lparr>
     sr_stdout := (if fst a \<noteq> [] then Some (fst a) else sr_stdout sr),
     sr_stderr := (if snd a \<noteq> [] then Some (snd a) else sr_stderr sr)\<rparr>"

definition sleep_before_retry :: "'w executor_env \<Rightarrow> plan_step \<Rightarrow> nat \<Rightarrow> 'w \<Rightarrow> 'w" where
  "sleep_before_retry env s attempt w =
     (case s_retry s of None \<Rightarrow> w | Some policy \<Rightarrow> xe_sleep env (retry_delay policy attempt) w)"

definition retry_message :: "nat \<Rightarrow> nat \<Rightarrow> executor_error \<Rightarrow> string" where
  "retry_message attempt attempts e =
     fmt ''attempt {}/{} failed: {}; retrying'' [nat_str attempt, nat_str attempts, show_executor_error e]"

text \<open>The attempts of a step, with how many are left after this one.\<close>

fun run_attempts ::
    "'w executor_env \<Rightarrow> step_context \<Rightarrow> nat \<Rightarrow> nat \<Rightarrow> audit \<Rightarrow> run \<Rightarrow> 'w \<Rightarrow> ('w \<times> run \<times> (executor_error + step_result)) option" where
  "run_attempts env cx attempts 0 a r w =
     (case run_attempt env cx attempts a r w of
        None \<Rightarrow> None
      | Some (w1, a1, r1, Unsaved e) \<Rightarrow> Some (w1, r1, Inl e)
      | Some (w1, a1, r1, Ended (Inr res)) \<Rightarrow> Some (w1, r1, Inr res)
      | Some (w1, a1, r1, Ended (Inl e)) \<Rightarrow>
          Some (w1, if is_human_control e then r1 else adjust_step (s_id (cx_step cx)) (keep_audit a1) r1, Inl e))"
| "run_attempts env cx attempts (Suc left) a r w =
     (case run_attempt env cx (attempts - Suc left) a r w of
        None \<Rightarrow> None
      | Some (w1, a1, r1, Unsaved e) \<Rightarrow> Some (w1, r1, Inl e)
      | Some (w1, a1, r1, Ended (Inr res)) \<Rightarrow> Some (w1, r1, Inr res)
      | Some (w1, a1, r1, Ended (Inl e)) \<Rightarrow>
          if is_human_control e then Some (w1, r1, Inl e)
          else
            (let r2 = adjust_step (s_id (cx_step cx))
               (\<lambda>sr. sr\<lparr>sr_error := Some (retry_message (attempts - Suc left) attempts e)\<rparr>) r1
             in case save_run env r2 w1 of
               (w2, Inl x) \<Rightarrow> Some (w2, r2, Inl x)
             | (w2, Inr u) \<Rightarrow>
                 run_attempts env cx attempts left a1 r2 (sleep_before_retry env (cx_step cx) (attempts - Suc left) w2)))"

definition run_step_with_policy ::
    "'w executor_env \<Rightarrow> step_context \<Rightarrow> run \<Rightarrow> 'w \<Rightarrow> ('w \<times> run \<times> (executor_error + step_result)) option" where
  "run_step_with_policy env cx r w =
     run_attempts env cx (max_attempts (cx_step cx)) (max_attempts (cx_step cx) - 1) ([], []) r w"

section \<open>Checkpoints\<close>

text \<open>
  What the scheduler knows: the steps that completed, those that failed or were skipped, and the
  outputs of the completed ones.
\<close>

record checkpoints =
  ck_completed :: "string set"
  ck_stopped :: "string set"
  ck_outputs :: step_outputs

definition load_checkpoint :: "string \<times> step_run \<Rightarrow> checkpoints \<Rightarrow> checkpoints" where
  "load_checkpoint = (\<lambda>(i, sr) ck.
     (case sr_status sr of
        SSucceeded \<Rightarrow> ck\<lparr>ck_completed := insert i (ck_completed ck),
          ck_outputs := insert_base i (sr_outputs sr) (ck_outputs ck)\<rparr>
      | SFailed \<Rightarrow> ck\<lparr>ck_stopped := insert i (ck_stopped ck)\<rparr>
      | SSkipped \<Rightarrow> ck\<lparr>ck_stopped := insert i (ck_stopped ck)\<rparr>
      | SCancelled \<Rightarrow> ck\<lparr>ck_stopped := insert i (ck_stopped ck)\<rparr>
      | SPending \<Rightarrow> ck | SRunning \<Rightarrow> ck | SWaitingForHuman \<Rightarrow> ck | SUnknown \<Rightarrow> ck))"

definition load_checkpoints :: "run \<Rightarrow> checkpoints" where
  "load_checkpoints r = fold load_checkpoint (r_step_runs r)
     \<lparr>ck_completed = {}, ck_stopped = {}, ck_outputs = outputs_from_map []\<rparr>"

definition fan_out_owned :: "plan \<Rightarrow> string set" where
  "fan_out_owned p = set (concat (map (\<lambda>s. case s_config s of FanOut c \<Rightarrow> fo_spawn_steps c | _ \<Rightarrow> []) (p_steps p)))"

definition set_status :: "step_run_status \<Rightarrow> step_run \<Rightarrow> step_run" where
  "set_status status sr = sr\<lparr>sr_status := status\<rparr>"

text \<open>The loop over the branch not taken, and whether it skipped anything.\<close>

fun skip_untaken :: "string list \<Rightarrow> checkpoints \<Rightarrow> run \<Rightarrow> bool \<Rightarrow> checkpoints \<times> run \<times> bool" where
  "skip_untaken [] ck r any = (ck, r, any)"
| "skip_untaken (i # is) ck r any =
     (if i \<in> ck_completed ck \<or> i \<in> ck_stopped ck then skip_untaken is ck r any
      else skip_untaken is (ck\<lparr>ck_stopped := insert i (ck_stopped ck)\<rparr>)
             (adjust_step i (set_status SSkipped) r) True)"

section \<open>One step of the main flow\<close>

text \<open>After a step: go on, return the run as it is, or raise.\<close>

datatype step_flow = Continue checkpoints | Return | Raise executor_error

definition saved_flow ::
    "'w executor_env \<Rightarrow> run \<Rightarrow> 'w \<Rightarrow> step_flow \<Rightarrow> ('w \<times> run \<times> step_flow)" where
  "saved_flow env r w flow =
     (case save_run env r w of (w', Inl e) \<Rightarrow> (w', r, Raise e) | (w', Inr u) \<Rightarrow> (w', r, flow))"

definition finish_step :: "instant \<Rightarrow> 64 word \<Rightarrow> step_result \<Rightarrow> step_run \<Rightarrow> step_run" where
  "finish_step now ms res sr = sr\<lparr>sr_status := SSucceeded, sr_finished_at := Some now,
     sr_outputs := res_outputs res, sr_stdout := res_stdout res, sr_stderr := res_stderr res,
     sr_duration_ms := Some ms, sr_token_usage := res_usage res\<rparr>"

definition fail_step :: "instant \<Rightarrow> 64 word \<Rightarrow> string \<Rightarrow> step_run \<Rightarrow> step_run" where
  "fail_step now ms message sr = sr\<lparr>sr_status := SFailed, sr_finished_at := Some now,
     sr_error := Some message, sr_duration_ms := Some ms\<rparr>"

definition step_succeeded ::
    "'w executor_env \<Rightarrow> plan \<Rightarrow> plan_step \<Rightarrow> checkpoints \<Rightarrow> instant \<Rightarrow> 64 word \<Rightarrow> step_result \<Rightarrow> run \<Rightarrow> 'w \<Rightarrow>
     'w \<times> run \<times> step_flow" where
  "step_succeeded env p s ck now ms res r w =
     (let i = s_id s;
          r1 = adjust_step i (finish_step now ms res) (finalize_child_runs (res_child_runs res) r);
          ck1 = ck\<lparr>ck_completed := insert i (ck_completed ck), ck_outputs := insert_base i (res_outputs res) (ck_outputs ck)\<rparr>
      in case save_run env r1 w of
        (w1, Inl e) \<Rightarrow> (w1, r1, Raise e)
      | (w1, Inr u) \<Rightarrow>
          (let untaken = (case plan_find_step p i of None \<Rightarrow> []
               | Some t \<Rightarrow> untaken_branch t (case get_step_outputs (ck_outputs ck1) i of Some outs \<Rightarrow> outs | None \<Rightarrow> []));
               (ck2, r2, any_skipped) = skip_untaken untaken ck1 r1 False
           in if any_skipped then saved_flow env r2 w1 (Continue ck2) else (w1, r2, Continue ck2)))"

definition step_context_of :: "'w executor_env \<Rightarrow> plan \<Rightarrow> run_workspace \<Rightarrow> plan_step \<Rightarrow> checkpoints \<Rightarrow> run \<Rightarrow> step_context" where
  "step_context_of env p ws s ck r = \<lparr>cx_plan = p, cx_step = s, cx_outputs = ck_outputs ck,
     cx_timeout_secs = effective_timeout env s, cx_run_id = r_id r, cx_storage_root = xe_storage_root env,
     cx_workspace = Some ws\<rparr>"

definition execute_step ::
    "'w executor_env \<Rightarrow> plan \<Rightarrow> run_workspace \<Rightarrow> plan_step \<Rightarrow> checkpoints \<Rightarrow> run \<Rightarrow> 'w \<Rightarrow> ('w \<times> run \<times> step_flow) option" where
  "execute_step env p ws s ck r w =
     (let i = s_id s in
      if list_ex (\<lambda>d. d \<in> ck_stopped ck) (s_depends_on s) then
        Some (saved_flow env (adjust_step i (set_status SSkipped) r) w
          (Continue (ck\<lparr>ck_stopped := insert i (ck_stopped ck)\<rparr>)))
      else case run_step_with_policy env (step_context_of env p ws s ck r) r w of
        None \<Rightarrow> None
      | Some (w1, r1, outcome) \<Rightarrow>
          (let now = xe_now env w1; ms = xe_elapsed env w w1
           in Some (case outcome of
             Inr res \<Rightarrow> step_succeeded env p s ck now ms res r1 w1
           | Inl e \<Rightarrow>
               (if e = EE_HumanResponsePending i then
                  saved_flow env ((adjust_step i (set_status SWaitingForHuman) r1)\<lparr>r_status := WaitingForHuman i\<rparr>) w1 Return
                else case e of
                  EE_RejectedByHuman j \<Rightarrow>
                    saved_flow env ((adjust_step i (fail_step now ms REJECTED_BY_OPERATOR_MESSAGE) r1)
                      \<lparr>r_status := Cancelled, r_finished_at := Some now\<rparr>) w1 Return
                | _ \<Rightarrow>
                    saved_flow env ((terminalize_failed_fan_out_children p i now
                        (adjust_step i (fail_step now ms (show_executor_error e)) r1))
                      \<lparr>r_status := RunFailed i (show_executor_error e), r_finished_at := Some now\<rparr>) w1 (Raise e)))))"

section \<open>The main flow\<close>

definition resolve_plan_outputs :: "host \<Rightarrow> plan \<Rightarrow> step_outputs \<Rightarrow> json imap" where
  "resolve_plan_outputs h p outs = im_extend []
     (map (\<lambda>o'. (or_name o', resolve_placeholders h (p_config p) outs (JString (or_source o')))) (p_outputs p))"

definition finish_run :: "'w executor_env \<Rightarrow> plan \<Rightarrow> checkpoints \<Rightarrow> run \<Rightarrow> 'w \<Rightarrow> 'w \<times> run \<times> (executor_error + unit)" where
  "finish_run env p ck r w =
     (let r' = r\<lparr>r_outputs := resolve_plan_outputs (xe_host env) p (ck_outputs ck), r_status := Succeeded,
            r_finished_at := Some (xe_now env w)\<rparr>
      in case save_run env r' w of (w', res) \<Rightarrow> (w', r', res))"

fun execute_steps ::
    "'w executor_env \<Rightarrow> plan \<Rightarrow> run_workspace \<Rightarrow> string set \<Rightarrow> string list \<Rightarrow> checkpoints \<Rightarrow> run \<Rightarrow> 'w \<Rightarrow>
     ('w \<times> run \<times> (executor_error + unit)) option" where
  "execute_steps env p ws owned [] ck r w = Some (finish_run env p ck r w)"
| "execute_steps env p ws owned (i # is) ck r w =
     (if i \<in> ck_completed ck \<or> i \<in> ck_stopped ck \<or> i \<in> owned then execute_steps env p ws owned is ck r w
      else case plan_find_step p i of
        None \<Rightarrow> Some (w, r, Inl (EE_StepFailed i ''step id disappeared from plan after ordering''))
      | Some s \<Rightarrow>
          (case execute_step env p ws s ck r w of
             None \<Rightarrow> None
           | Some (w1, r1, Raise e) \<Rightarrow> Some (w1, r1, Inl e)
           | Some (w1, r1, Return) \<Rightarrow> Some (w1, r1, Inr ())
           | Some (w1, r1, Continue ck1) \<Rightarrow> execute_steps env p ws owned is ck1 r1 w1))"

text \<open>The result keeps the run as it was when the execution ended, with an error too.\<close>

definition execute_run ::
    "'w executor_env \<Rightarrow> plan \<Rightarrow> run \<Rightarrow> 'w \<Rightarrow> ('w \<times> run \<times> (executor_error + unit)) option" where
  "execute_run env p r w =
     (case workspace_resolve (re_absolute (xe_runner env)) (p_config p) (xe_storage_root env) (r_id r) of
        Inl e \<Rightarrow> Some (w, r, Inl (EE_Io e))
      | Inr ws \<Rightarrow>
          (let p' = p\<lparr>p_config := im_insert ROOT_KEY (JString (rw_root ws)) (p_config p)\<rparr>;
               r1 = r\<lparr>r_status := Running, r_finished_at := None\<rparr>
           in case save_run env r1 w of
             (w1, Inl e) \<Rightarrow> Some (w1, r1, Inl e)
           | (w1, Inr u) \<Rightarrow>
               execute_steps env p' ws (fan_out_owned p') (map s_id (topological_order (p_steps p')))
                 (load_checkpoints r1) r1 w1))"

section \<open>The entry points\<close>

text \<open>What the caller gets: the run, or an error.\<close>

definition returned :: "('w \<times> run \<times> (executor_error + unit)) option \<Rightarrow> ('w \<times> (executor_error + run)) option" where
  "returned = map_option (\<lambda>(w, r, res). (w, case res of Inl e \<Rightarrow> Inl e | Inr u \<Rightarrow> Inr r))"

definition start_run :: "'w executor_env \<Rightarrow> plan \<Rightarrow> ('w, executor_error + plan \<times> run) effect" where
  "start_run env p w =
     (case resolve_inputs p (xe_inputs env) of
        Inl e \<Rightarrow> (w, Inl (EE_Plan e))
      | Inr inputs \<Rightarrow>
          (let r = run_new (xe_uuid env w) (xe_now env w) (m_id (p_metadata p)) (m_version (p_metadata p))
           in case xe_lock_lifecycle env (r_id r) w of
             (w1, Inl e) \<Rightarrow> (w1, Inl (EE_Storage e))
           | (w1, Inr u) \<Rightarrow>
               (let r1 = r\<lparr>r_inputs := inputs, r_source := xe_source env,
                      r_step_runs := fold (\<lambda>s. im_insert (s_id s) (step_run_new (s_id s))) (p_steps p) (r_step_runs r)\<rparr>
                in case save_run env r1 w1 of
                  (w2, Inl e) \<Rightarrow> (w2, Inl e)
                | (w2, Inr u) \<Rightarrow> (w2, Inr (inject_runtime_inputs inputs p, r1)))))"

definition execute :: "'w executor_env \<Rightarrow> plan \<Rightarrow> 'w \<Rightarrow> ('w \<times> (executor_error + run)) option" where
  "execute env p w =
     (case start_run env p w of
        (w1, Inl e) \<Rightarrow> Some (w1, Inl e)
      | (w1, Inr (p', r)) \<Rightarrow> returned (execute_run env p' r w1))"

text \<open>Equality of \<^verbatim>\<open>IndexMap\<close>s does not look at the order.\<close>

definition im_equal :: "'v imap \<Rightarrow> 'v imap \<Rightarrow> bool" where
  "im_equal m n \<longleftrightarrow> length m = length n \<and> list_all (\<lambda>(k, v). im_get n k = Some v) m"

text \<open>Checks and preparation of a paused run, up to its execution.\<close>

definition accept_resume :: "'w executor_env \<Rightarrow> plan \<Rightarrow> run \<Rightarrow> executor_error + plan" where
  "accept_resume env p r =
     (let invalid = EE_InvalidResume (r_id r); meta = p_metadata p in
      case resolve_inputs p (xe_inputs env) of
        Inl e \<Rightarrow> Inl (EE_Plan e)
      | Inr supplied \<Rightarrow>
          if \<not> im_equal supplied (r_inputs r) then Inl (invalid ''must resume with its original inputs'')
          else case r_status r of
            WaitingForHuman i \<Rightarrow>
              (if r_plan_id r \<noteq> m_id meta \<or> r_plan_version r \<noteq> m_version meta then
                 Inl (invalid (fmt ''belongs to plan {} v{}, not {} v{}'' [r_plan_id r, nat_str (unat (r_plan_version r)),
                   m_id meta, nat_str (unat (m_version meta))]))
               else case plan_find_step p i of
                 None \<Rightarrow> Inl (invalid (fmt ''waits for missing step '{}{}'' [i, squote]))
               | Some s \<Rightarrow>
                   if step_type_of s \<noteq> THumanInteraction \<or>
                      (case im_get (r_step_runs r) i of None \<Rightarrow> True | Some sr \<Rightarrow> sr_status sr \<noteq> SWaitingForHuman)
                   then Inl (invalid (fmt ''has an invalid human-interaction checkpoint at '{}{}'' [i, squote]))
                   else Inr (inject_runtime_inputs (r_inputs r) p))
          | status \<Rightarrow> Inl (invalid (fmt ''cannot be resumed from status {}'' [show_run_status status])))"

definition resume :: "'w executor_env \<Rightarrow> plan \<Rightarrow> run \<Rightarrow> 'w \<Rightarrow> ('w \<times> (executor_error + run)) option" where
  "resume env p r w =
     (case accept_resume env p r of Inl e \<Rightarrow> Some (w, Inl e) | Inr p' \<Rightarrow> returned (execute_run env p' r w))"

section \<open>Resuming after a repair\<close>

datatype repair_resume_mode = PatchedPlan | WorldFixed

definition repair_reset_step_ids :: "plan \<Rightarrow> run \<Rightarrow> string \<Rightarrow> string set" where
  "repair_reset_step_ids p r failed_step_id =
     (let roots = failed_step_id # map s_id (filter (\<lambda>s. \<not> im_contains (r_step_runs r) (s_id s)) (p_steps p));
          downstream = \<Union> (set (map (downstream_closure p) roots))
      in downstream \<union> \<Union> (fan_out_body_closure p ` downstream))"

text \<open>A completed iteration protects its inputs even when its step is reset.\<close>

definition step_has_persisted_success :: "run \<Rightarrow> string \<Rightarrow> string set \<Rightarrow> bool" where
  "step_has_persisted_success r i reset =
     (case im_get (r_step_runs r) i of None \<Rightarrow> False
      | Some sr \<Rightarrow> list_ex (\<lambda>it. it_status it = SSucceeded) (sr_iterations sr) \<or>
          sr_status sr = SSucceeded \<and> i \<notin> reset)"

definition protecting_step :: "plan \<Rightarrow> run \<Rightarrow> string set \<Rightarrow> string \<Rightarrow> plan_step option" where
  "protecting_step p r reset name =
     find (\<lambda>s. name \<in> input_references s \<and> step_has_persisted_success r (s_id s) reset) (p_steps p)"

fun check_overrides :: "plan \<Rightarrow> run \<Rightarrow> string set \<Rightarrow> json imap \<Rightarrow> executor_error option" where
  "check_overrides p r reset [] = None"
| "check_overrides p r reset ((name, v) # rest) =
     (if im_get (r_inputs r) name = Some v then check_overrides p r reset rest
      else case protecting_step p r reset name of
        Some s \<Rightarrow> Some (EE_InvalidResume (r_id r)
          (fmt ''input '{}' cannot change because succeeded step '{}' used its original value'' [name, s_id s]))
      | None \<Rightarrow> check_overrides p r reset rest)"

definition rebase_repair_inputs :: "plan \<Rightarrow> run \<Rightarrow> json imap \<Rightarrow> string set \<Rightarrow> executor_error + json imap" where
  "rebase_repair_inputs p r overrides reset =
     (let kept = fold (\<lambda>input m. case im_get (r_inputs r) (in_name input) of
            Some v \<Rightarrow> im_insert (in_name input) v m | None \<Rightarrow> m) (p_inputs p) [];
          supplied = im_extend kept overrides
      in case resolve_inputs p supplied of Inl e \<Rightarrow> Inl (EE_Plan e)
       | Inr resolved \<Rightarrow> (case check_overrides p r reset overrides of Some e \<Rightarrow> Inl e | None \<Rightarrow> Inr resolved))"

text \<open>The calls of a step that is no longer in the plan stay with the run.\<close>

definition archive_calls :: "plan \<Rightarrow> run \<Rightarrow> run" where
  "archive_calls p r =
     (let gone = (\<lambda>(i, sr). plan_find_step p i = None \<and> sr_claude_calls sr \<noteq> [])
      in r\<lparr>r_archived_claude_calls := fold (\<lambda>(i, sr) m.
             im_insert i ((case im_get m i of Some l \<Rightarrow> l | None \<Rightarrow> []) @ sr_claude_calls sr) m)
             (filter gone (r_step_runs r)) (r_archived_claude_calls r),
           r_step_runs := filter (\<lambda>(i, sr). plan_find_step p i \<noteq> None) (r_step_runs r)\<rparr>)"

definition reset_step :: "string \<Rightarrow> step_run imap \<Rightarrow> step_run imap" where
  "reset_step i m = im_insert i ((step_run_new i)\<lparr>sr_claude_calls :=
     (case im_get m i of Some sr \<Rightarrow> sr_claude_calls sr | None \<Rightarrow> [])\<rparr>) m"

definition ensure_step :: "plan_step \<Rightarrow> step_run imap \<Rightarrow> step_run imap" where
  "ensure_step s m = (if im_contains m (s_id s) then m else im_insert (s_id s) (step_run_new (s_id s)) m)"

definition rebuild_step_runs :: "'w executor_env \<Rightarrow> plan \<Rightarrow> string set \<Rightarrow> run \<Rightarrow> run" where
  "rebuild_step_runs env p reset r =
     (let r = archive_calls p r
      in r\<lparr>r_step_runs := fold ensure_step (p_steps p) (fold reset_step (xe_hash_order env reset) (r_step_runs r))\<rparr>)"

definition check_repair_version :: "plan \<Rightarrow> run \<Rightarrow> repair_resume_mode \<Rightarrow> string option" where
  "check_repair_version p r mode =
     (let v = m_version (p_metadata p); show_v = (\<lambda>n. nat_str (unat n)) in
      case mode of
        PatchedPlan \<Rightarrow>
          if v \<le> r_plan_version r then
            Some (fmt ''repair plan version {} must be newer than run version {}'' [show_v v, show_v (r_plan_version r)])
          else None
      | WorldFixed \<Rightarrow>
          if v \<noteq> r_plan_version r then
            Some (fmt ''world-fixed resume requires the unchanged plan version {}, got {}''
              [show_v (r_plan_version r), show_v v])
          else None)"

definition accept_repair ::
    "'w executor_env \<Rightarrow> plan \<Rightarrow> run \<Rightarrow> json imap \<Rightarrow> repair_resume_mode \<Rightarrow> executor_error + (plan \<times> run)" where
  "accept_repair env p r overrides mode =
     (let invalid = (\<lambda>m. Inl (EE_InvalidResume (r_id r) m)) in
      case r_status r of
        RunFailed failed message \<Rightarrow>
          (if m_id (p_metadata p) \<noteq> r_plan_id r then
             invalid (fmt ''belongs to plan {}, not {}'' [r_plan_id r, m_id (p_metadata p)])
           else case check_repair_version p r mode of
             Some m \<Rightarrow> invalid m
           | None \<Rightarrow>
           if (case im_get (r_step_runs r) failed of None \<Rightarrow> True | Some sr \<Rightarrow> sr_status sr \<noteq> SFailed) then
             invalid (fmt ''has no failed step checkpoint at '{}{}'' [failed, squote])
           else
             (let reset = repair_reset_step_ids p r failed
              in case rebase_repair_inputs p r overrides reset of
                Inl e \<Rightarrow> Inl e
              | Inr inputs \<Rightarrow>
                  (case (if im_get inputs ROOT_DIRECTORY_INPUT = im_get (r_inputs r) ROOT_DIRECTORY_INPUT then None
                         else find (\<lambda>s. step_uses_workspace (re_catalog (xe_runner env)) s \<and>
                           step_has_persisted_success r (s_id s) reset) (p_steps p)) of
                     Some s \<Rightarrow> invalid (fmt ''input '{}' cannot change because succeeded step '{}' used the original run workspace; start a new run to use a different directory''
                       [ROOT_DIRECTORY_INPUT, s_id s])
                   | None \<Rightarrow>
                       Inr (inject_runtime_inputs inputs p,
                         (rebuild_step_runs env p reset (r\<lparr>r_inputs := inputs\<rparr>))
                           \<lparr>r_plan_id := m_id (p_metadata p), r_plan_version := m_version (p_metadata p)\<rparr>))))
      | status \<Rightarrow> invalid (fmt ''cannot resume from repair with status {}'' [show_run_status status]))"

definition resume_from_repair ::
    "'w executor_env \<Rightarrow> plan \<Rightarrow> run \<Rightarrow> json imap \<Rightarrow> repair_resume_mode \<Rightarrow> 'w \<Rightarrow> ('w \<times> (executor_error + run)) option" where
  "resume_from_repair env p r overrides mode w =
     (case accept_repair env p r overrides mode of
        Inl e \<Rightarrow> Some (w, Inl e)
      | Inr (p', r') \<Rightarrow>
          (case save_run env r' w of
             (w1, Inl e) \<Rightarrow> Some (w1, Inl e)
           | (w1, Inr u) \<Rightarrow> returned (execute_run env p' r' w1)))"

end
