(* ===== verification/Execution.thy ===== *)
theory Execution
  imports Executor
begin

text \<open>
  What the executor guarantees: an execution returns, work that is done is not repeated, a step
  runs after the steps it depends on, and a repaired run keeps its billed calls.
\<close>

section \<open>Which step runs an operation touches\<close>

abbreviation step_run_of :: "run \<Rightarrow> string \<Rightarrow> step_run option" where
  "step_run_of r i \<equiv> im_get (r_step_runs r) i"

lemma step_run_adjust: "step_run_of (adjust_step i f r) j =
    (if j = i then map_option f (step_run_of r i) else step_run_of r j)"
  by (auto simp: adjust_step_def im.get_put split: option.split)

lemma adjust_step_fields [simp]: "r_status (adjust_step i f r) = r_status r" "r_id (adjust_step i f r) = r_id r"
  by (simp_all add: adjust_step_def split: option.split)

text \<open>A step run without the calls billed to it.\<close>

definition unbilled :: "step_run \<Rightarrow> step_run" where
  "unbilled sr = sr\<lparr>sr_claude_calls := []\<rparr>"

text \<open>Outside \<open>S\<close> every step run is the same, and the step runs stay those of the same steps.\<close>

definition kept :: "string set \<Rightarrow> run \<Rightarrow> run \<Rightarrow> bool" where
  "kept S r r' \<longleftrightarrow> r_status r' = r_status r \<and> r_id r' = r_id r \<and>
     (\<forall>j. (step_run_of r' j = None) = (step_run_of r j = None)) \<and>
     (\<forall>j. j \<notin> S \<longrightarrow> map_option unbilled (step_run_of r' j) = map_option unbilled (step_run_of r j))"

named_theorems kept_intros

lemma kept_refl [kept_intros]: "kept S r r"
  by (simp add: kept_def)

lemma kept_trans: "kept S r r1 \<Longrightarrow> kept S r1 r2 \<Longrightarrow> kept S r r2"
  by (simp add: kept_def)

lemma kept_mono: "kept S r r' \<Longrightarrow> S \<subseteq> T \<Longrightarrow> kept T r r'"
  by (auto simp: kept_def)

lemma kept_adjust [kept_intros]: "i \<in> S \<Longrightarrow> kept S r (adjust_step i f r)"
  by (auto simp: kept_def step_run_adjust)

lemma kept_adjust_after: "kept S r r' \<Longrightarrow> i \<in> S \<Longrightarrow> kept S r (adjust_step i f r')"
  by (rule kept_trans [OF _ kept_adjust])

lemma kept_fold: "(\<And>x r. x \<in> set xs \<Longrightarrow> kept S r (f x r)) \<Longrightarrow> kept S r (fold f xs r)"
  by (induction xs arbitrary: r) (auto intro: kept_refl kept_trans)

lemma kept_bill: "kept S r (adjust_step i (\<lambda>sr. sr\<lparr>sr_claude_calls := sr_claude_calls sr @ cs\<rparr>) r)"
proof -
  have "map_option unbilled (map_option (\<lambda>sr. sr\<lparr>sr_claude_calls := sr_claude_calls sr @ cs\<rparr>) x) = map_option unbilled x" for x
    by (cases x) (simp_all add: unbilled_def)
  then show ?thesis by (simp add: kept_def step_run_adjust)
qed

lemma kept_drain [kept_intros]: "kept S r (drain_calls calls r)"
  unfolding drain_calls_def by (rule kept_fold) (simp add: kept_bill split: prod.split)

lemma kept_finalize: "set (im_keys children) \<subseteq> S \<Longrightarrow> kept S r (finalize_child_runs children r)"
  unfolding finalize_child_runs_def by (rule kept_fold) (auto simp: im_keys_def intro!: kept_adjust)

lemma kept_record: "ce_step_id e \<in> S \<Longrightarrow> kept S r (record_child_run e r)"
  by (simp add: record_child_run_def kept_adjust)

lemma kept_record_events:
  "record_events env es r w = (w', r', res) \<Longrightarrow> \<forall>e \<in> set es. ce_step_id e \<in> S \<Longrightarrow> kept S r r'"
proof (induction es arbitrary: r w)
  case (Cons e es)
  have one: "kept S r (record_child_run e r)" using Cons.prems(2) by (simp add: kept_record)
  with Cons show ?case
    by (auto simp: Let_def split: prod.splits sum.splits intro: kept_trans)
qed (auto intro: kept_refl)

lemma kept_terminalize: "(\<And>i. set (spawned p i) \<subseteq> S) \<Longrightarrow> kept S r (terminalize_loop p now pending seen r)"
proof (induction p now pending seen r rule: terminalize_loop.induct)
  case (2 p now i pending seen r)
  have "kept S r (fold (\<lambda>child. adjust_step child (cancel_child now)) (spawned p i) r)"
    by (rule kept_fold) (use "2.prems" in \<open>auto intro: kept_adjust\<close>)
  with 2 show ?case by (auto intro: kept_trans)
qed (simp add: kept_refl)

section \<open>A FAN_OUT reports only steps it owns\<close>

lemma fan_out_owned_spawned: "set (spawned p i) \<subseteq> fan_out_owned p"
proof (cases "plan_find_step p i")
  case (Some s)
  then have "s \<in> set (p_steps p)" using plan_find_step_Some by blast
  with Some show ?thesis by (cases "s_config s") (force simp: spawned_def fan_out_owned_def)+
qed (simp add: spawned_def)

lemma fan_out_owned_step: "s \<in> set (p_steps p) \<Longrightarrow> s_config s = FanOut c \<Longrightarrow> set (fo_spawn_steps c) \<subseteq> fan_out_owned p"
  by (force simp: fan_out_owned_def)

lemma keys_push_runs: "set (im_keys (push_runs i rs m)) = insert i (set (im_keys m))"
  by (auto simp: push_runs_def im_keys_insert)

lemma keys_fold_push: "set (im_keys (fold (\<lambda>(i, rs). push_runs i rs) kvs m)) = set (im_keys m) \<union> fst ` set kvs"
  by (induction kvs arbitrary: m) (auto simp: keys_push_runs)

lemma keys_extend: "set (im_keys (im_extend m kvs)) = set (im_keys m) \<union> fst ` set kvs"
  by (induction kvs arbitrary: m) (auto simp: im_extend_def im_keys_insert split: if_splits)

text \<open>The steps a spawn reports: those of its events, and of the child runs of its result.\<close>

definition reports :: "string set \<Rightarrow> child_run_event list \<Rightarrow> (executor_error + step_result) \<Rightarrow> bool" where
  "reports S events r \<longleftrightarrow> (\<forall>e \<in> set events. ce_step_id e \<in> S) \<and>
     (case r of Inl e \<Rightarrow> True | Inr res \<Rightarrow> set (im_keys (res_child_runs res)) \<subseteq> S)"

lemma run_spawn_step_reports:
  assumes "run_spawn_step spawn env cx s k f outs runs w = Some (w', events, runs', r)" and "s_id s \<in> S"
    and "\<And>w w' a' ev r. spawn (cx\<lparr>cx_step := s, cx_outputs := outs\<rparr>) ([], []) w = Some (w', a', ev, r) \<Longrightarrow> reports S ev r"
    and "set (im_keys runs) \<subseteq> S"
  shows "(\<forall>e \<in> set events. ce_step_id e \<in> S) \<and> set (im_keys runs') \<subseteq> S"
proof -
  obtain a ev r' where ran: "spawn (cx\<lparr>cx_step := s, cx_outputs := outs\<rparr>) ([], []) w = Some (w', a, ev, r')"
    using assms(1) by (auto simp: run_spawn_step_def Let_def split: option.splits sum.splits)
  note rep = assms(3) [OF ran]
  show ?thesis
  proof (cases r')
    case (Inl e)
    with assms(1,2,4) ran rep show ?thesis by (auto simp: run_spawn_step_def reports_def Let_def)
  next
    case (Inr res)
    then have "fst ` set (res_child_runs res) \<subseteq> S" using rep by (simp add: reports_def im_keys_def)
    then have "set (im_keys (fold (\<lambda>(i, rs). push_runs i rs) (res_child_runs res) (push_runs (s_id s) [it] runs))) \<subseteq> S" for it
      using assms(2,4) by (simp add: keys_fold_push keys_push_runs)
    with Inr assms(1,2) ran rep show ?thesis by (auto simp: run_spawn_step_def reports_def Let_def)
  qed
qed

lemma run_body_reports:
  assumes "run_body spawn env cx k f base is skipped acc runs w = Some (w', events, runs', r)"
    and "set is \<subseteq> S" and "set (im_keys runs) \<subseteq> S"
    and "\<And>i s outs w w' a' ev r. plan_find_step (cx_plan cx) i = Some s \<Longrightarrow>
      spawn (cx\<lparr>cx_step := s, cx_outputs := outs\<rparr>) ([], []) w = Some (w', a', ev, r) \<Longrightarrow> reports S ev r"
  shows "(\<forall>e \<in> set events. ce_step_id e \<in> S) \<and> set (im_keys runs') \<subseteq> S"
  using assms(1-3)
proof (induction "is" arbitrary: skipped acc runs w events)
  case (Cons i "is")
  show ?case
  proof (cases "plan_find_step (cx_plan cx) i")
    case None
    with Cons.prems show ?thesis by simp
  next
    case (Some s)
    then have id: "s_id s = i" using plan_find_step_Some by blast
    show ?thesis
    proof (cases "i \<in> skipped \<or> list_ex (\<lambda>d. d \<in> skipped) (s_depends_on s)")
      case True
      with Cons.prems Some obtain ev where
        "run_body spawn env cx k f base is (insert i skipped) acc
          (push_runs i [skipped_iteration k (tr_now (re_transport env) w)] runs) w = Some (w', ev, runs', r)"
        "\<exists>e. ce_step_id e = i \<and> events = e # ev"
        by (auto simp: Let_def)
      with Cons.IH [OF this(1)] Cons.prems show ?thesis by (auto simp: keys_push_runs)
    next
      case False
      obtain w1 ev1 runs1 r1 where
        one: "run_spawn_step spawn env cx s k f (with_outputs acc base) runs w = Some (w1, ev1, runs1, r1)"
        using Cons.prems(1) Some False by (cases "run_spawn_step spawn env cx s k f (with_outputs acc base) runs w") auto
      have here: "(\<forall>e \<in> set ev1. ce_step_id e \<in> S) \<and> set (im_keys runs1) \<subseteq> S"
        by (rule run_spawn_step_reports [OF one]) (use Cons.prems id assms(4) [OF Some] in auto)
      show ?thesis
      proof (cases r1)
        case (Inl e)
        with Cons.prems(1) Some False one here show ?thesis by simp
      next
        case (Inr o')
        with Cons.prems(1) Some False one obtain ev2 where
          rest: "run_body spawn env cx k f base is (skipped \<union> set (untaken_branch s o')) (im_insert i o' acc) runs1 w1 =
            Some (w', ev2, runs', r)" and events: "events = ev1 @ ev2"
          by auto
        from Cons.IH [OF rest] Cons.prems(2) here events show ?thesis by auto
      qed
    qed
  qed
qed simp

lemma run_items_reports:
  assumes "run_items spawn env cx c n k items results runs w = Some (w', events, runs', r)"
    and "set (fo_spawn_steps c) \<subseteq> S" and "set (im_keys runs) \<subseteq> S"
    and "\<And>i s outs w w' a' ev r. plan_find_step (cx_plan cx) i = Some s \<Longrightarrow>
      spawn (cx\<lparr>cx_step := s, cx_outputs := outs\<rparr>) ([], []) w = Some (w', a', ev, r) \<Longrightarrow> reports S ev r"
  shows "(\<forall>e \<in> set events. ce_step_id e \<in> S) \<and> set (im_keys runs') \<subseteq> S"
  using assms(1,3)
proof (induction items arbitrary: k results runs w events)
  case (Cons item items)
  let ?base = "with_output ITEM_SCOPE_KEY [(fo_item_var c, item)] (cx_outputs cx)"
  obtain w1 ev1 runs1 r1 where
    body: "run_body spawn env cx k (k + 1 = n) ?base (fo_spawn_steps c) {} [] runs w = Some (w1, ev1, runs1, r1)"
    using Cons.prems by (cases "run_body spawn env cx k (k + 1 = n) ?base (fo_spawn_steps c) {} [] runs w") auto
  have one: "(\<forall>e \<in> set ev1. ce_step_id e \<in> S) \<and> set (im_keys runs1) \<subseteq> S"
    by (rule run_body_reports [OF body assms(2) Cons.prems(2) assms(4)])
  show ?case
  proof (cases "\<exists>acc ev2 results'. run_items spawn env cx c n (k + 1) items results' runs1 w1 = Some (w', ev2, runs', r) \<and>
      events = ev1 @ ev2")
    case True
    then obtain ev2 results' where
      "run_items spawn env cx c n (k + 1) items results' runs1 w1 = Some (w', ev2, runs', r)" "events = ev1 @ ev2"
      by blast
    with Cons.IH [OF this(1)] one show ?thesis by auto
  next
    case False
    with Cons.prems body one show ?thesis
      by (auto simp: Let_def split: sum.splits bool.splits)
  qed
qed simp

lemma run_step_reports:
  "run_step n env ae cx a w = Some (w', a', events, r) \<Longrightarrow> cx_step cx \<in> set (p_steps (cx_plan cx)) \<Longrightarrow>
   reports (fan_out_owned (cx_plan cx)) events r"
proof (induction n arbitrary: cx a w w' a' events r)
  case (Suc n)
  let ?S = "fan_out_owned (cx_plan cx)"
  show ?case
  proof (cases "\<exists>c. s_config (cx_step cx) = FanOut c")
    case False
    from run_step_leaf [OF False Suc.prems(1)] show ?thesis
      by (cases r) (simp_all add: reports_def im_keys_def)
  next
    case True
    then obtain c where c: "s_config (cx_step cx) = FanOut c" ..
    have spawn: "reports ?S ev r"
      if "plan_find_step (cx_plan cx) i = Some s"
        "run_step n env ae (cx\<lparr>cx_step := s, cx_outputs := outs\<rparr>) ([], []) w = Some (w', a', ev, r)"
      for i s outs w w' a' ev r
      using Suc.IH [OF that(2)] plan_find_step_Some [OF that(1)] by simp
    have items: "(\<forall>e \<in> set ev. ce_step_id e \<in> ?S) \<and> set (im_keys runs') \<subseteq> ?S"
      if "run_items (run_step n env ae) env cx c k 0 items [] (im_extend [] (map (\<lambda>i. (i, [])) (fo_spawn_steps c))) w =
        Some (w', ev, runs', r)" for k items w w' ev runs' r
    proof (rule run_items_reports [OF that])
      show owned: "set (fo_spawn_steps c) \<subseteq> ?S" by (rule fan_out_owned_step [OF Suc.prems(2) c])
      then show "set (im_keys (im_extend [] (map (\<lambda>i. (i, [])) (fo_spawn_steps c)))) \<subseteq> ?S"
        by (simp add: keys_extend image_image im_keys_def [of "[]"])
    qed (rule spawn)
    have fan: "reports ?S ev r" if "run_fan_out (run_step n env ae) env cx w = Some (w', ev, r)" for w w' ev r
      using that c
      by (auto simp: run_fan_out_def reports_def plain_result_def Let_def
          split: option.splits sum.splits prod.splits if_splits dest!: items)
    show ?thesis
      using Suc.prems(1) c by (auto simp: run_step.simps(2) Let_def reports_def missing_error_def split: if_splits dest: fan [unfolded reports_def])
  qed
qed simp

section \<open>What one step of the main flow touches\<close>

lemma run_with_progress_kept:
  assumes "run_step_with_child_progress env cx a r w = Some (w', a', r', res)"
    and "cx_step cx \<in> set (p_steps (cx_plan cx))" and "fan_out_owned (cx_plan cx) \<subseteq> S"
  shows "kept S r r' \<and> (\<forall>out. res = Inr out \<longrightarrow> set (im_keys (res_child_runs out)) \<subseteq> S)"
proof -
  obtain w1 a1 events outcome where
    ran: "run_step (length (p_steps (cx_plan cx))) (xe_runner env) (xe_agent env) cx a w = Some (w1, a1, events, outcome)"
    using assms(1) by (cases "run_step (length (p_steps (cx_plan cx))) (xe_runner env) (xe_agent env) cx a w")
      (auto simp: run_step_with_child_progress_def)
  have rep: "\<forall>e \<in> set events. ce_step_id e \<in> S" "\<And>out. outcome = Inr out \<Longrightarrow> set (im_keys (res_child_runs out)) \<subseteq> S"
    using run_step_reports [OF ran assms(2)] assms(3) by (auto simp: reports_def)
  obtain sent w2 res3 where
    rec: "record_events env sent r w2 = (w', r', res3)" "set sent \<subseteq> set events"
    and out: "\<forall>out. res = Inr out \<longrightarrow> outcome = Inr out"
    using assms(1) ran
    by (auto simp: run_step_with_child_progress_def Let_def split: option.splits prod.splits sum.splits)
      (metis set_take_subset sum.distinct(1))+
  have "kept S r r'" using rec rep(1) by (intro kept_record_events [OF rec(1)]) auto
  with out rep(2) show ?thesis by blast
qed

lemma run_attempt_kept:
  assumes "run_attempt env cx k a r w = Some (w', a', r', e)"
    and "cx_step cx \<in> set (p_steps (cx_plan cx))" and "fan_out_owned (cx_plan cx) \<subseteq> S" and "s_id (cx_step cx) \<in> S"
  shows "kept S r r' \<and> (\<forall>out. e = Ended (Inr out) \<longrightarrow> set (im_keys (res_child_runs out)) \<subseteq> S)"
proof -
  let ?r1 = "adjust_step (s_id (cx_step cx)) (begin_attempt (xe_now env w) k) r"
  have first: "kept S r ?r1" using assms(4) by (rule kept_adjust)
  obtain w1 saved where save: "save_run env ?r1 w = (w1, saved)" by (cases "save_run env ?r1 w")
  show ?thesis
  proof (cases saved)
    case (Inl x)
    with assms(1) save first show ?thesis by (auto simp: run_attempt_def Let_def)
  next
    case (Inr u)
    with assms(1) save obtain w2 a2 r2 outcome calls w3 where
      run: "run_step_with_child_progress env cx a ?r1 w1 = Some (w2, a2, r2, outcome)"
      and r': "r' = drain_calls calls r2" "e = Ended outcome"
      by (auto simp: run_attempt_def Let_def split: option.splits prod.splits)
    from run_with_progress_kept [OF run assms(2,3)] first have "kept S r r2" by (blast intro: kept_trans)
    then have "kept S r r'" unfolding r' by (rule kept_trans [OF _ kept_drain])
    with run_with_progress_kept [OF run assms(2,3)] r' show ?thesis by blast
  qed
qed

lemma run_attempts_kept:
  assumes "cx_step cx \<in> set (p_steps (cx_plan cx))" and "fan_out_owned (cx_plan cx) \<subseteq> S" and "s_id (cx_step cx) \<in> S"
  shows "run_attempts env cx k left a r w = Some (w', r', res) \<Longrightarrow>
    kept S r r' \<and> (\<forall>out. res = Inr out \<longrightarrow> set (im_keys (res_child_runs out)) \<subseteq> S)"
proof (induction left arbitrary: a r w)
  case 0
  then obtain w1 a1 r1 e where one: "run_attempt env cx k a r w = Some (w1, a1, r1, e)"
    by (cases "run_attempt env cx k a r w") auto
  from run_attempt_kept [OF one assms] "0.prems" one show ?case
    by (cases e) (auto split: sum.splits if_splits intro: kept_adjust_after assms(3))
next
  case (Suc left)
  then obtain w1 a1 r1 e where one: "run_attempt env cx (k - Suc left) a r w = Some (w1, a1, r1, e)"
    by (cases "run_attempt env cx (k - Suc left) a r w") auto
  note k1 = run_attempt_kept [OF one assms]
  show ?case
  proof (cases "\<exists>x. e = Ended (Inl x) \<and> \<not> is_human_control x")
    case False
    with k1 Suc.prems one show ?thesis by (cases e) (auto split: sum.splits if_splits)
  next
    case True
    then obtain x where x: "e = Ended (Inl x)" "\<not> is_human_control x" by blast
    let ?r2 = "adjust_step (s_id (cx_step cx)) (\<lambda>sr. sr\<lparr>sr_error := Some (retry_message (k - Suc left) k x)\<rparr>) r1"
    have k2: "kept S r ?r2" using k1 assms(3) by (blast intro: kept_adjust_after)
    obtain w2 saved where save: "save_run env ?r2 w1 = (w2, saved)" by (cases "save_run env ?r2 w1")
    show ?thesis
    proof (cases saved)
      case (Inl y)
      with Suc.prems one x save k2 show ?thesis by (auto simp: Let_def)
    next
      case (Inr u)
      with Suc.prems one x save have
        "run_attempts env cx k left a1 ?r2 (sleep_before_retry env (cx_step cx) (k - Suc left) w2) = Some (w', r', res)"
        by (simp add: Let_def)
      from Suc.IH [OF this] k2 show ?thesis by (blast intro: kept_trans)
    qed
  qed
qed

section \<open>The scheduler's invariant\<close>

abbreviation status_of :: "run \<Rightarrow> string \<Rightarrow> step_run_status option" where
  "status_of r i \<equiv> map_option sr_status (step_run_of r i)"

text \<open>The steps of the main flow, and why one of them is skipped.\<close>

definition main_flow :: "plan \<Rightarrow> plan_step set" where
  "main_flow p = {s \<in> set (p_steps p). s_id s \<notin> fan_out_owned p}"

definition untaken_by :: "plan \<Rightarrow> run \<Rightarrow> string \<Rightarrow> bool" where
  "untaken_by p r i \<longleftrightarrow> (\<exists>t \<in> main_flow p. \<exists>sr. step_run_of r (s_id t) = Some sr \<and> sr_status sr = SSucceeded \<and>
     i \<in> set (untaken_branch t (sr_outputs sr)))"

definition sched_inv :: "plan \<Rightarrow> string set \<Rightarrow> checkpoints \<Rightarrow> run \<Rightarrow> bool" where
  "sched_inv p D ck r \<longleftrightarrow> (\<forall>s \<in> main_flow p.
     step_run_of r (s_id s) \<noteq> None \<and>
     (status_of r (s_id s) = Some SSucceeded \<longleftrightarrow> s_id s \<in> ck_completed ck) \<and>
     (s_id s \<in> ck_completed ck \<longrightarrow> set (s_depends_on s) \<subseteq> ck_completed ck) \<and>
     (s_id s \<in> ck_stopped ck \<longrightarrow> status_of r (s_id s) = Some SSkipped \<and>
       (set (s_depends_on s) \<inter> ck_stopped ck \<noteq> {} \<or> untaken_by p r (s_id s))) \<and>
     (s_id s \<in> D \<longrightarrow> s_id s \<in> ck_completed ck \<union> ck_stopped ck))"

definition deps_succeeded :: "plan \<Rightarrow> run \<Rightarrow> bool" where
  "deps_succeeded p r \<longleftrightarrow> (\<forall>s \<in> main_flow p. status_of r (s_id s) = Some SSucceeded \<longrightarrow>
     (\<forall>d \<in> set (s_depends_on s). status_of r d = Some SSucceeded))"

definition all_settled :: "plan \<Rightarrow> run \<Rightarrow> bool" where
  "all_settled p r \<longleftrightarrow> (\<forall>s \<in> main_flow p. status_of r (s_id s) = Some SSucceeded \<or>
     status_of r (s_id s) = Some SSkipped \<and>
     ((\<exists>d \<in> set (s_depends_on s). status_of r d = Some SSkipped) \<or> untaken_by p r (s_id s)))"

text \<open>The dependencies of the main flow are in the main flow.\<close>

definition main_closed :: "plan \<Rightarrow> bool" where
  "main_closed p \<longleftrightarrow> (\<forall>s \<in> main_flow p. set (s_depends_on s) \<subseteq> s_id ` main_flow p)"

lemma kept_status:
  assumes "kept S r r'" and "j \<notin> S"
  shows "status_of r' j = status_of r j"
    and "step_run_of r j = Some sr \<Longrightarrow> \<exists>sr'. step_run_of r' j = Some sr' \<and> sr_status sr' = sr_status sr \<and> sr_outputs sr' = sr_outputs sr"
proof -
  have eq: "map_option unbilled (step_run_of r' j) = map_option unbilled (step_run_of r j)"
    using assms by (simp add: kept_def)
  have "sr_status (unbilled x) = sr_status x" "sr_outputs (unbilled x) = sr_outputs x" for x
    by (simp_all add: unbilled_def)
  with eq show "status_of r' j = status_of r j"
    and "step_run_of r j = Some sr \<Longrightarrow> \<exists>sr'. step_run_of r' j = Some sr' \<and> sr_status sr' = sr_status sr \<and> sr_outputs sr' = sr_outputs sr"
    by (cases "step_run_of r j"; cases "step_run_of r' j"; simp; metis)+
qed

lemma kept_present: "kept S r r' \<Longrightarrow> (step_run_of r' j = None) = (step_run_of r j = None)"
  by (simp add: kept_def)

lemma untaken_by_kept:
  assumes "untaken_by p r i" and "kept S r r'"
    and "\<And>s. s \<in> main_flow p \<Longrightarrow> status_of r (s_id s) = Some SSucceeded \<Longrightarrow> s_id s \<notin> S"
  shows "untaken_by p r' i"
proof -
  obtain t sr where t: "t \<in> main_flow p" "step_run_of r (s_id t) = Some sr" "sr_status sr = SSucceeded"
    "i \<in> set (untaken_branch t (sr_outputs sr))"
    using assms(1) by (auto simp: untaken_by_def)
  from kept_status(2) [OF assms(2) assms(3) [OF t(1)] t(2)] t show ?thesis
    unfolding untaken_by_def by fastforce
qed

lemma sched_inv_change:
  assumes inv: "sched_inv p D ck r" and k: "kept S r r'"
    and off: "\<And>s. s \<in> main_flow p \<Longrightarrow> s_id s \<in> S \<Longrightarrow> s_id s \<notin> ck_completed ck \<and> s_id s \<notin> ck_stopped ck \<and>
      status_of r' (s_id s) \<noteq> Some SSucceeded"
  shows "sched_inv p D ck r'"
  unfolding sched_inv_def
proof
  fix s assume s: "s \<in> main_flow p"
  note I = inv [unfolded sched_inv_def, rule_format, OF s]
  have u: "untaken_by p r (s_id s) \<Longrightarrow> untaken_by p r' (s_id s)"
    by (erule untaken_by_kept [OF _ k]) (use inv off in \<open>auto simp: sched_inv_def\<close>)
  show "step_run_of r' (s_id s) \<noteq> None \<and>
     (status_of r' (s_id s) = Some SSucceeded \<longleftrightarrow> s_id s \<in> ck_completed ck) \<and>
     (s_id s \<in> ck_completed ck \<longrightarrow> set (s_depends_on s) \<subseteq> ck_completed ck) \<and>
     (s_id s \<in> ck_stopped ck \<longrightarrow> status_of r' (s_id s) = Some SSkipped \<and>
       (set (s_depends_on s) \<inter> ck_stopped ck \<noteq> {} \<or> untaken_by p r' (s_id s))) \<and>
     (s_id s \<in> D \<longrightarrow> s_id s \<in> ck_completed ck \<union> ck_stopped ck)"
  proof (cases "s_id s \<in> S")
    case True
    with I off [OF s True] kept_present [OF k, of "s_id s"] show ?thesis by auto
  next
    case False
    with I u kept_status(1) [OF k False] kept_present [OF k, of "s_id s"] show ?thesis by auto
  qed
qed

lemma sched_inv_complete:
  assumes inv: "sched_inv p D ck r" and s: "s \<in> main_flow p" "set (s_depends_on s) \<subseteq> ck_completed ck"
    and k: "kept (insert (s_id s) (fan_out_owned p)) r r'" and ok: "status_of r' (s_id s) = Some SSucceeded"
    and new: "s_id s \<notin> ck_stopped ck" "s_id s \<notin> ck_completed ck"
    and ck': "ck_completed ck' = insert (s_id s) (ck_completed ck)" "ck_stopped ck' = ck_stopped ck"
    and ids: "\<And>t. t \<in> main_flow p \<Longrightarrow> s_id t = s_id s \<Longrightarrow> t = s"
  shows "sched_inv p (insert (s_id s) D) ck' r'"
  unfolding sched_inv_def
proof
  fix t assume t: "t \<in> main_flow p"
  note I = inv [unfolded sched_inv_def, rule_format, OF t]
  have u: "untaken_by p r (s_id t) \<Longrightarrow> untaken_by p r' (s_id t)"
    by (erule untaken_by_kept [OF _ k]) (use inv new in \<open>auto simp: sched_inv_def main_flow_def\<close>)
  show "step_run_of r' (s_id t) \<noteq> None \<and>
     (status_of r' (s_id t) = Some SSucceeded \<longleftrightarrow> s_id t \<in> ck_completed ck') \<and>
     (s_id t \<in> ck_completed ck' \<longrightarrow> set (s_depends_on t) \<subseteq> ck_completed ck') \<and>
     (s_id t \<in> ck_stopped ck' \<longrightarrow> status_of r' (s_id t) = Some SSkipped \<and>
       (set (s_depends_on t) \<inter> ck_stopped ck' \<noteq> {} \<or> untaken_by p r' (s_id t))) \<and>
     (s_id t \<in> insert (s_id s) D \<longrightarrow> s_id t \<in> ck_completed ck' \<union> ck_stopped ck')"
  proof (cases "s_id t = s_id s")
    case True
    with ids [OF t] s(2) new ok show ?thesis by (auto simp: ck')
  next
    case False
    then have out: "s_id t \<notin> insert (s_id s) (fan_out_owned p)" using t by (simp add: main_flow_def)
    with I u kept_status(1) [OF k out] kept_present [OF k, of "s_id t"] False show ?thesis by (auto simp: ck')
  qed
qed

lemma sched_inv_stop:
  assumes inv: "sched_inv p D ck r" and k: "kept N r r'"
    and off: "N \<inter> ck_completed ck = {}" "N \<inter> ck_stopped ck = {}"
    and skipped: "\<And>s. s \<in> main_flow p \<Longrightarrow> s_id s \<in> N \<Longrightarrow> status_of r' (s_id s) = Some SSkipped"
    and why: "\<And>s. s \<in> main_flow p \<Longrightarrow> s_id s \<in> N \<Longrightarrow>
      set (s_depends_on s) \<inter> ck_stopped ck \<noteq> {} \<or> untaken_by p r (s_id s)"
    and ck': "ck_completed ck' = ck_completed ck" "ck_stopped ck' = ck_stopped ck \<union> N"
  shows "sched_inv p (D \<union> N) ck' r'"
  unfolding sched_inv_def
proof
  fix s assume s: "s \<in> main_flow p"
  note I = inv [unfolded sched_inv_def, rule_format, OF s]
  have u: "untaken_by p r (s_id s) \<Longrightarrow> untaken_by p r' (s_id s)"
    by (erule untaken_by_kept [OF _ k]) (use inv off in \<open>auto simp: sched_inv_def\<close>)
  show "step_run_of r' (s_id s) \<noteq> None \<and>
     (status_of r' (s_id s) = Some SSucceeded \<longleftrightarrow> s_id s \<in> ck_completed ck') \<and>
     (s_id s \<in> ck_completed ck' \<longrightarrow> set (s_depends_on s) \<subseteq> ck_completed ck') \<and>
     (s_id s \<in> ck_stopped ck' \<longrightarrow> status_of r' (s_id s) = Some SSkipped \<and>
       (set (s_depends_on s) \<inter> ck_stopped ck' \<noteq> {} \<or> untaken_by p r' (s_id s))) \<and>
     (s_id s \<in> D \<union> N \<longrightarrow> s_id s \<in> ck_completed ck' \<union> ck_stopped ck')"
  proof (cases "s_id s \<in> N")
    case True
    with I off skipped [OF s True] why [OF s True] u kept_present [OF k, of "s_id s"] show ?thesis
      unfolding ck' by auto
  next
    case False
    with I u kept_status(1) [OF k False] kept_present [OF k, of "s_id s"] show ?thesis unfolding ck' by auto
  qed
qed

lemma sched_inv_mono: "sched_inv p D ck r \<Longrightarrow> E \<subseteq> D \<Longrightarrow> sched_inv p E ck r"
  by (fastforce simp: sched_inv_def)

lemma sched_inv_deps:
  assumes "sched_inv p D ck r" and "main_closed p"
  shows "deps_succeeded p r"
  unfolding deps_succeeded_def
proof (intro ballI impI)
  fix s d assume s: "s \<in> main_flow p" "status_of r (s_id s) = Some SSucceeded" "d \<in> set (s_depends_on s)"
  then have "d \<in> ck_completed ck" using assms(1) by (auto simp: sched_inv_def)
  moreover obtain t where "t \<in> main_flow p" "s_id t = d" using s assms(2) by (auto simp: main_closed_def)
  ultimately show "status_of r d = Some SSucceeded" using assms(1) by (auto simp: sched_inv_def)
qed

lemma sched_inv_settled:
  assumes "sched_inv p D ck r" and "main_closed p" and "s_id ` main_flow p \<subseteq> D"
  shows "all_settled p r"
  unfolding all_settled_def
proof
  fix s assume s: "s \<in> main_flow p"
  note I = assms(1) [unfolded sched_inv_def, rule_format]
  have "\<exists>d \<in> set (s_depends_on s). status_of r d = Some SSkipped" if "set (s_depends_on s) \<inter> ck_stopped ck \<noteq> {}"
    using that s assms(2) I unfolding main_closed_def by blast
  with I [OF s] assms(3) s show "status_of r (s_id s) = Some SSucceeded \<or> status_of r (s_id s) = Some SSkipped \<and>
     ((\<exists>d \<in> set (s_depends_on s). status_of r d = Some SSkipped) \<or> untaken_by p r (s_id s))"
    by blast
qed

section \<open>One step of the main flow\<close>

lemma save_run_result: "save_run env r w = (w', res) \<Longrightarrow> (\<exists>e. res = Inl e) \<or> res = Inr ()"
  by (cases res) auto

lemma saved_flow_cases: "saved_flow env r w flow = (w', r', flow') \<Longrightarrow> r' = r \<and> (flow' = flow \<or> (\<exists>e. flow' = Raise e))"
  by (auto simp: saved_flow_def split: prod.splits sum.splits)

text \<open>The steps newly skipped, and the run after that.\<close>

definition newly_skipped :: "string list \<Rightarrow> checkpoints \<Rightarrow> string set" where
  "newly_skipped is ck = set is - ck_completed ck - ck_stopped ck"

lemma skip_untaken_effect:
  "skip_untaken is ck r any = (ck', r', any') \<Longrightarrow>
   ck_completed ck' = ck_completed ck \<and> ck_outputs ck' = ck_outputs ck \<and>
   ck_stopped ck' = ck_stopped ck \<union> newly_skipped is ck \<and> r_status r' = r_status r \<and> r_id r' = r_id r \<and>
   (\<forall>j. step_run_of r' j =
     (if j \<in> newly_skipped is ck then map_option (set_status SSkipped) (step_run_of r j) else step_run_of r j))"
proof (induction "is" arbitrary: ck r any)
  case (Cons i "is")
  show ?case
  proof (cases "i \<in> ck_completed ck \<or> i \<in> ck_stopped ck")
    case True
    then have "newly_skipped (i # is) ck = newly_skipped is ck" by (auto simp: newly_skipped_def)
    with Cons True show ?thesis by auto
  next
    case False
    let ?ck = "ck\<lparr>ck_stopped := insert i (ck_stopped ck)\<rparr>"
    from False have new: "newly_skipped (i # is) ck = insert i (newly_skipped is ?ck)" "i \<notin> newly_skipped is ?ck"
      by (auto simp: newly_skipped_def)
    from Cons.prems False have
      "skip_untaken is ?ck (adjust_step i (set_status SSkipped) r) True = (ck', r', any')" by simp
    from Cons.IH [OF this] new show ?thesis by (auto simp: step_run_adjust)
  qed
qed (simp add: newly_skipped_def)

lemma skip_untaken_kept: "skip_untaken is ck r any = (ck', r', any') \<Longrightarrow> kept (newly_skipped is ck) r r'"
  using skip_untaken_effect [of "is" ck r any ck' r' any'] by (simp add: kept_def)

lemma execute_step_cases:
  assumes run: "execute_step env p ws s ck r w = Some (w', r', flow)" and s: "s \<in> main_flow p"
    and find: "plan_find_step p (s_id s) = Some s" and base: "so_overlay (ck_outputs ck) = []"
  obtains
    (skip) "set (s_depends_on s) \<inter> ck_stopped ck \<noteq> {}" "r' = adjust_step (s_id s) (set_status SSkipped) r"
      "flow = Continue (ck\<lparr>ck_stopped := insert (s_id s) (ck_stopped ck)\<rparr>) \<or> (\<exists>e. flow = Raise e)"
  | (finish) r0 now ms res r1 ck1 where "set (s_depends_on s) \<inter> ck_stopped ck = {}"
      "kept (insert (s_id s) (fan_out_owned p)) r r0" "r1 = adjust_step (s_id s) (finish_step now ms res) r0"
      "ck1 = ck\<lparr>ck_completed := insert (s_id s) (ck_completed ck), ck_outputs := insert_base (s_id s) (res_outputs res) (ck_outputs ck)\<rparr>"
      "r' = r1 \<and> (\<exists>e. flow = Raise e) \<or>
       (\<exists>ck2 any. skip_untaken (untaken_branch s (res_outputs res)) ck1 r1 False = (ck2, r', any) \<and>
         (flow = Continue ck2 \<or> (\<exists>e. flow = Raise e)))"
  | (fail) r1 where "kept (insert (s_id s) (fan_out_owned p)) r r1" "r_step_runs r' = r_step_runs r1"
      "status_of r1 (s_id s) \<noteq> Some SSucceeded" "r_status r' \<noteq> Succeeded" "flow = Return \<or> (\<exists>e. flow = Raise e)"
proof (cases "list_ex (\<lambda>d. d \<in> ck_stopped ck) (s_depends_on s)")
  case True
  with run have "saved_flow env (adjust_step (s_id s) (set_status SSkipped) r) w
      (Continue (ck\<lparr>ck_stopped := insert (s_id s) (ck_stopped ck)\<rparr>)) = (w', r', flow)"
    by (simp add: execute_step_def Let_def)
  from saved_flow_cases [OF this] True show ?thesis by (intro skip) (auto simp: list_ex_iff)
next
  case False
  then have deps: "set (s_depends_on s) \<inter> ck_stopped ck = {}" by (auto simp: list_ex_iff)
  let ?cx = "step_context_of env p ws s ck r" and ?S = "insert (s_id s) (fan_out_owned p)"
  obtain w1 r1 outcome where ran: "run_step_with_policy env ?cx r w = Some (w1, r1, outcome)"
    using run False by (cases "run_step_with_policy env ?cx r w") (auto simp: execute_step_def Let_def)
  have k: "kept ?S r r1 \<and> (\<forall>out. outcome = Inr out \<longrightarrow> set (im_keys (res_child_runs out)) \<subseteq> ?S)"
    by (rule run_attempts_kept [OF _ _ _ ran [unfolded run_step_with_policy_def]])
      (use s in \<open>auto simp: step_context_of_def main_flow_def\<close>)
  define now where "now = xe_now env w1"
  define ms where "ms = xe_elapsed env w w1"
  have out: "s_id s \<notin> fan_out_owned p" using s by (simp add: main_flow_def)
  show ?thesis
  proof (cases outcome)
    case (Inr res)
    let ?r0 = "finalize_child_runs (res_child_runs res) r1"
    let ?r1 = "adjust_step (s_id s) (finish_step now ms res) ?r0"
    let ?ck1 = "ck\<lparr>ck_completed := insert (s_id s) (ck_completed ck), ck_outputs := insert_base (s_id s) (res_outputs res) (ck_outputs ck)\<rparr>"
    have k0: "kept ?S r ?r0" using k Inr by (blast intro: kept_trans kept_finalize)
    have outs: "get_step_outputs (ck_outputs ?ck1) (s_id s) = Some (res_outputs res)"
      using base by (simp add: get_step_outputs_def insert_base_def im.get_put)
    have fin: "step_succeeded env p s ck now ms res r1 w1 = (w', r', flow)"
      using run False ran Inr by (simp add: execute_step_def Let_def now_def ms_def)
    obtain w2 saved where save: "save_run env ?r1 w1 = (w2, saved)" by (cases "save_run env ?r1 w1")
    show ?thesis
    proof (cases saved)
      case (Inl e)
      with fin save have "r' = ?r1 \<and> (\<exists>e. flow = Raise e)" by (auto simp: step_succeeded_def Let_def)
      then show ?thesis by (intro finish [OF deps k0 refl refl]) blast
    next
      case (Inr u)
      obtain ck2 r2 any where sk: "skip_untaken (untaken_branch s (res_outputs res)) ?ck1 ?r1 False = (ck2, r2, any)"
        by (cases "skip_untaken (untaken_branch s (res_outputs res)) ?ck1 ?r1 False")
      have "r' = r2 \<and> (flow = Continue ck2 \<or> (\<exists>e. flow = Raise e))"
      proof (cases any)
        case True
        with fin save Inr sk outs find have "saved_flow env r2 w2 (Continue ck2) = (w', r', flow)"
          by (simp add: step_succeeded_def Let_def)
        then show ?thesis by (rule saved_flow_cases)
      next
        case False
        with fin save Inr sk outs find show ?thesis by (simp add: step_succeeded_def Let_def)
      qed
      with sk show ?thesis by (intro finish [OF deps k0 refl refl]) blast
    qed
  next
    case (Inl e)
    consider (waiting) "e = EE_HumanResponsePending (s_id s)"
      | (rejected) j where "e = EE_RejectedByHuman j"
      | (failed) "e \<noteq> EE_HumanResponsePending (s_id s)" "\<nexists>j. e = EE_RejectedByHuman j"
      by blast
    then show ?thesis
    proof cases
      case waiting
      let ?r = "adjust_step (s_id s) (set_status SWaitingForHuman) r1"
      have "saved_flow env (?r\<lparr>r_status := WaitingForHuman (s_id s)\<rparr>) w1 Return = (w', r', flow)"
        using run False ran Inl waiting by (simp add: execute_step_def Let_def)
      from saved_flow_cases [OF this] show ?thesis
        by (intro fail [of ?r] kept_adjust_after conjunct1 [OF k])
          (cases "step_run_of r1 (s_id s)"; auto simp: step_run_adjust set_status_def)+
    next
      case (rejected j)
      let ?r = "adjust_step (s_id s) (fail_step now ms REJECTED_BY_OPERATOR_MESSAGE) r1"
      have "saved_flow env (?r\<lparr>r_status := Cancelled, r_finished_at := Some now\<rparr>) w1 Return = (w', r', flow)"
        using run False ran Inl rejected by (simp add: execute_step_def Let_def now_def ms_def)
      from saved_flow_cases [OF this] show ?thesis
        by (intro fail [of ?r] kept_adjust_after conjunct1 [OF k])
          (cases "step_run_of r1 (s_id s)"; auto simp: step_run_adjust fail_step_def)+
    next
      case failed
      let ?f = "adjust_step (s_id s) (fail_step now ms (show_executor_error e)) r1"
      let ?r = "terminalize_failed_fan_out_children p (s_id s) now ?f"
      have t: "kept (fan_out_owned p) ?f ?r"
        unfolding terminalize_failed_fan_out_children_def by (rule kept_terminalize) (rule fan_out_owned_spawned)
      have kr: "kept ?S r ?r"
        by (rule kept_trans [OF kept_adjust_after [OF conjunct1 [OF k]] kept_mono [OF t]]) auto
      have "status_of ?r (s_id s) = status_of ?f (s_id s)" using kept_status(1) [OF t out] .
      then have st: "status_of ?r (s_id s) \<noteq> Some SSucceeded"
        by (cases "step_run_of r1 (s_id s)") (auto simp: step_run_adjust fail_step_def)
      have "saved_flow env (?r\<lparr>r_status := RunFailed (s_id s) (show_executor_error e), r_finished_at := Some now\<rparr>) w1 (Raise e) = (w', r', flow)"
        using run False ran Inl failed by (cases e) (simp_all add: execute_step_def Let_def now_def ms_def)
      from saved_flow_cases [OF this] show ?thesis
        by (intro fail [OF kr _ st]) auto
    qed
  qed
qed

lemma sched_inv_field [simp]: "sched_inv p D ck (r\<lparr>r_status := st\<rparr>) = sched_inv p D ck r"
  by (simp add: sched_inv_def untaken_by_def)

lemma same_step_runs: "r_step_runs r' = r_step_runs r \<Longrightarrow> deps_succeeded p r \<Longrightarrow> deps_succeeded p r'"
  by (simp add: deps_succeeded_def)

text \<open>What the invariant becomes: it holds for the next step, or the run ends.\<close>

definition flow_ok :: "plan \<Rightarrow> string set \<Rightarrow> run \<Rightarrow> step_flow \<Rightarrow> bool" where
  "flow_ok p D r flow \<longleftrightarrow> (case flow of
     Continue ck \<Rightarrow> sched_inv p D ck r \<and> so_overlay (ck_outputs ck) = [] \<and> r_status r \<noteq> Succeeded
   | _ \<Rightarrow> deps_succeeded p r \<and> r_status r \<noteq> Succeeded)"

lemma execute_step_inv:
  assumes run: "execute_step env p ws s ck r w = Some (w', r', flow)" and s: "s \<in> main_flow p"
    and find: "plan_find_step p (s_id s) = Some s" and ids: "distinct (map s_id (p_steps p))"
    and closed: "main_closed p"
    and inv: "sched_inv p D ck r" "so_overlay (ck_outputs ck) = []" "r_status r \<noteq> Succeeded"
    and deps: "set (s_depends_on s) \<subseteq> D" and new: "s_id s \<notin> ck_completed ck" "s_id s \<notin> ck_stopped ck"
  shows "flow_ok p (insert (s_id s) D) r' flow"
  using run s find inv(2)
proof (cases rule: execute_step_cases)
  case skip
  have k: "kept {s_id s} r r'" unfolding skip(2) by (rule kept_adjust) simp
  have present: "step_run_of r (s_id s) \<noteq> None" using inv(1) s by (auto simp: sched_inv_def)
  have id: "t = s" if "t \<in> main_flow p" "s_id t = s_id s" for t
    using that s ids by (auto simp: main_flow_def distinct_map inj_on_def)
  have "sched_inv p (D \<union> {s_id s}) (ck\<lparr>ck_stopped := insert (s_id s) (ck_stopped ck)\<rparr>) r'"
  proof (rule sched_inv_stop [OF inv(1) k])
    show "status_of r' (s_id t) = Some SSkipped" if "t \<in> main_flow p" "s_id t \<in> {s_id s}" for t
      using that present by (auto simp: skip(2) step_run_adjust set_status_def)
    show "set (s_depends_on t) \<inter> ck_stopped ck \<noteq> {} \<or> untaken_by p r (s_id t)"
      if "t \<in> main_flow p" "s_id t \<in> {s_id s}" for t
      using that id skip(1) by auto
  qed (use new in auto)
  moreover have "r_status r' = r_status r" by (simp add: skip(2))
  ultimately show ?thesis
    using skip(3) inv(2,3) sched_inv_deps [OF _ closed] by (auto simp: flow_ok_def)
next
  case (finish r0 now ms res r1 ck1)
  let ?S = "insert (s_id s) (fan_out_owned p)"
  have k1: "kept ?S r r1" unfolding finish(3) by (rule kept_adjust_after [OF finish(2)]) simp
  have "step_run_of r0 (s_id s) \<noteq> None"
    using inv(1) s kept_present [OF finish(2), of "s_id s"] by (auto simp: sched_inv_def)
  then have done_run: "\<exists>sr. step_run_of r1 (s_id s) = Some sr \<and> sr_status sr = SSucceeded \<and> sr_outputs sr = res_outputs res"
    by (auto simp: finish(3) step_run_adjust finish_step_def)
  have met: "set (s_depends_on s) \<subseteq> ck_completed ck"
  proof
    fix d assume d: "d \<in> set (s_depends_on s)"
    then obtain t where "t \<in> main_flow p" "s_id t = d" using closed s by (auto simp: main_closed_def)
    with d deps inv(1) have "d \<in> ck_completed ck \<union> ck_stopped ck" by (auto simp: sched_inv_def)
    with d finish(1) show "d \<in> ck_completed ck" by auto
  qed
  have inv1: "sched_inv p (insert (s_id s) D) ck1 r1"
    by (rule sched_inv_complete [OF inv(1) s met k1])
      (use done_run new s ids in \<open>auto simp: finish(4) main_flow_def distinct_map inj_on_def\<close>)
  have st1: "r_status r1 \<noteq> Succeeded" using k1 inv(3) by (simp add: kept_def)
  consider (unsaved) e where "r' = r1" "flow = Raise e"
    | (routed) ck2 any where "skip_untaken (untaken_branch s (res_outputs res)) ck1 r1 False = (ck2, r', any)"
      "flow = Continue ck2 \<or> (\<exists>e. flow = Raise e)"
    using finish(5) by blast
  then show ?thesis
  proof cases
    case unsaved
    with inv1 st1 sched_inv_deps [OF inv1 closed] show ?thesis by (simp add: flow_ok_def)
  next
    case (routed ck2 any)
    note sk = routed(1)
    let ?N = "newly_skipped (untaken_branch s (res_outputs res)) ck1"
    note eff = skip_untaken_effect [OF sk]
    have why: "untaken_by p r1 i" if "i \<in> ?N" for i
      using that done_run s unfolding untaken_by_def newly_skipped_def by force
    have "sched_inv p (insert (s_id s) D \<union> ?N) ck2 r'"
    proof (rule sched_inv_stop [OF inv1 skip_untaken_kept [OF sk]])
      show "?N \<inter> ck_completed ck1 = {}" "?N \<inter> ck_stopped ck1 = {}" by (auto simp: newly_skipped_def)
      show "status_of r' (s_id t) = Some SSkipped" if "t \<in> main_flow p" "s_id t \<in> ?N" for t
      proof -
        have "step_run_of r1 (s_id t) \<noteq> None" using inv1 that(1) by (auto simp: sched_inv_def)
        with eff that(2) show ?thesis by (auto simp: set_status_def)
      qed
    qed (use eff why in auto)
    then have inv2: "sched_inv p (insert (s_id s) D) ck2 r'" by (rule sched_inv_mono) auto
    have "so_overlay (ck_outputs ck2) = []" using eff inv(2) by (simp add: finish(4) insert_base_def)
    moreover have "r_status r' \<noteq> Succeeded" using eff st1 by simp
    ultimately show ?thesis using routed(2) inv2 sched_inv_deps [OF inv2 closed] by (auto simp: flow_ok_def)
  qed
next
  case (fail r1)
  have "sched_inv p D ck r1"
    by (rule sched_inv_change [OF inv(1) fail(1)]) (use new fail(3) in \<open>auto simp: main_flow_def\<close>)
  from same_step_runs [OF fail(2) sched_inv_deps [OF this closed]] fail(4,5) show ?thesis
    by (auto simp: flow_ok_def)
qed

definition deps_earlier :: "plan \<Rightarrow> string list \<Rightarrow> bool" where
  "deps_earlier p order \<longleftrightarrow> (\<forall>xs i ys. order = xs @ i # ys \<longrightarrow>
     (\<forall>s \<in> main_flow p. s_id s = i \<longrightarrow> set (s_depends_on s) \<subseteq> set xs))"

lemma execute_steps_inv:
  assumes ids: "distinct (map s_id (p_steps p))" and closed: "main_closed p"
    and order: "deps_earlier p (pre @ is)"
    and all: "s_id ` set (p_steps p) \<subseteq> set (pre @ is)"
    and run: "execute_steps env p ws (fan_out_owned p) is ck r w = Some (w', r', res)"
    and inv: "sched_inv p (set pre) ck r" "so_overlay (ck_outputs ck) = []" "r_status r \<noteq> Succeeded"
  shows "deps_succeeded p r' \<and> (r_status r' = Succeeded \<longrightarrow> all_settled p r')"
  using order all run inv
proof (induction "is" arbitrary: pre ck r w)
  case Nil
  have "r_step_runs r' = r_step_runs r" using Nil.prems(3) by (auto simp: finish_run_def Let_def split: prod.splits)
  moreover have "all_settled p r"
    by (rule sched_inv_settled [OF Nil.prems(4) closed]) (use Nil.prems(2) in \<open>auto simp: main_flow_def\<close>)
  ultimately show ?case
    using sched_inv_deps [OF Nil.prems(4) closed] by (simp add: deps_succeeded_def all_settled_def untaken_by_def)
next
  case (Cons i "is")
  have order': "deps_earlier p ((pre @ [i]) @ is)"
    and all': "s_id ` set (p_steps p) \<subseteq> set ((pre @ [i]) @ is)"
    using Cons.prems(1,2) by simp_all
  note IH = Cons.IH [OF order' all']
  show ?case
  proof (cases "i \<in> ck_completed ck \<or> i \<in> ck_stopped ck \<or> i \<in> fan_out_owned p")
    case True
    then have "sched_inv p (set (pre @ [i])) ck r"
      using Cons.prems(4) by (auto simp: sched_inv_def main_flow_def)
    from IH [OF _ this Cons.prems(5,6)] Cons.prems(3) True show ?thesis by simp
  next
    case False
    show ?thesis
    proof (cases "plan_find_step p i")
      case None
      with Cons.prems(3) False have "r' = r" by simp
      with sched_inv_deps [OF Cons.prems(4) closed] Cons.prems(6) show ?thesis by simp
    next
      case (Some s)
      then have s: "s_id s = i" "s \<in> main_flow p"
        using plan_find_step_Some [OF Some] False by (auto simp: main_flow_def)
      obtain w1 r1 flow where one: "execute_step env p ws s ck r w = Some (w1, r1, flow)"
        using Cons.prems(3) False Some by (cases "execute_step env p ws s ck r w") auto
      have "set (s_depends_on s) \<subseteq> set pre" using Cons.prems(1) s unfolding deps_earlier_def by blast
      with execute_step_inv [OF one s(2) _ ids closed Cons.prems(4-6)] Some s(1) False
      have ok: "flow_ok p (set (pre @ [i])) r1 flow" by auto
      show ?thesis
      proof (cases flow)
        case (Continue ck1)
        with Cons.prems(3) False Some one have
          "execute_steps env p ws (fan_out_owned p) is ck1 r1 w1 = Some (w', r', res)" by simp
        with ok Continue show ?thesis by (intro IH) (auto simp: flow_ok_def)
      next
        case Return
        with Cons.prems(3) False Some one ok show ?thesis by (simp add: flow_ok_def)
      next
        case (Raise e)
        with Cons.prems(3) False Some one ok show ?thesis by (simp add: flow_ok_def)
      qed
    qed
  qed
qed

section \<open>Where an execution starts\<close>

lemma load_checkpoint_one:
  "ck_completed (load_checkpoint (i, sr) ck) = ck_completed ck \<union> (if sr_status sr = SSucceeded then {i} else {})"
  "ck_stopped (load_checkpoint (i, sr) ck) =
     ck_stopped ck \<union> (if sr_status sr \<in> {SFailed, SSkipped, SCancelled} then {i} else {})"
  "so_overlay (ck_outputs (load_checkpoint (i, sr) ck)) = so_overlay (ck_outputs ck)"
  by (cases "sr_status sr"; simp add: load_checkpoint_def insert_base_def)+

lemma load_checkpoints_fold:
  "ck_completed (fold load_checkpoint xs ck) = ck_completed ck \<union> {i. \<exists>sr. (i, sr) \<in> set xs \<and> sr_status sr = SSucceeded} \<and>
   ck_stopped (fold load_checkpoint xs ck) = ck_stopped ck \<union> {i. \<exists>sr. (i, sr) \<in> set xs \<and>
     sr_status sr \<in> {SFailed, SSkipped, SCancelled}} \<and>
   so_overlay (ck_outputs (fold load_checkpoint xs ck)) = so_overlay (ck_outputs ck)"
proof (induction xs arbitrary: ck)
  case (Cons x xs)
  obtain i sr where x: "x = (i, sr)" by (cases x)
  show ?case
    unfolding fold_Cons o_apply using Cons.IH [of "load_checkpoint x ck"]
    by (auto simp: x load_checkpoint_one split: if_splits)
qed simp

lemma load_checkpoints_completed: "im_get (r_step_runs r) i = Some sr \<Longrightarrow> sr_status sr = SSucceeded \<Longrightarrow>
    i \<in> ck_completed (load_checkpoints r)"
  by (auto simp: load_checkpoints_def load_checkpoints_fold im_get_def dest: map_of_SomeD)

lemma load_checkpoints_stopped: "im_get (r_step_runs r) i = Some sr \<Longrightarrow>
    sr_status sr \<in> {SFailed, SSkipped, SCancelled} \<Longrightarrow> i \<in> ck_stopped (load_checkpoints r)"
  by (auto simp: load_checkpoints_def load_checkpoints_fold im_get_def dest: map_of_SomeD)

lemma set_im_insert: "set (im_insert k v m) \<subseteq> insert (k, v) (set m)"
  by (induction m) (auto simp: im_insert_def)

definition all_pending :: "plan \<Rightarrow> run \<Rightarrow> bool" where
  "all_pending p r \<longleftrightarrow> (\<forall>(i, sr) \<in> set (r_step_runs r). sr_status sr = SPending) \<and>
     (\<forall>s \<in> set (p_steps p). step_run_of r (s_id s) \<noteq> None)"

lemma all_pending_start:
  assumes "all_pending p r"
  shows "sched_inv p {} (load_checkpoints r) r \<and> so_overlay (ck_outputs (load_checkpoints r)) = []"
proof
  have none: "ck_completed (load_checkpoints r) = {}" "ck_stopped (load_checkpoints r) = {}"
    using assms by (auto simp: load_checkpoints_def load_checkpoints_fold all_pending_def)
  have "step_run_of r (s_id s) \<noteq> None \<and> status_of r (s_id s) \<noteq> Some SSucceeded" if "s \<in> main_flow p" for s
    using assms that by (fastforce simp: all_pending_def main_flow_def im_get_def dest: map_of_SomeD)
  with none show "sched_inv p {} (load_checkpoints r) r" by (simp add: sched_inv_def)
qed (simp add: load_checkpoints_def load_checkpoints_fold outputs_from_map_def)

lemma start_run_pending:
  assumes "start_run env p w = (w', Inr (p', r))"
  shows "all_pending p r \<and> p_steps p' = p_steps p"
proof -
  let ?fold = "\<lambda>ss m. fold (\<lambda>s. im_insert (s_id s) (step_run_new (s_id s))) ss m"
  have get: "im_get (?fold ss m) i \<noteq> None" if "i \<in> s_id ` set ss \<or> im_get m i \<noteq> None" for ss m i
    using that
  proof (induction ss arbitrary: m)
    case (Cons s ss)
    show ?case
      unfolding fold_Cons o_apply by (rule Cons.IH) (use Cons.prems in \<open>auto simp: im.get_put\<close>)
  qed simp
  have pending: "\<forall>(i, sr) \<in> set (?fold ss m). sr_status sr = SPending"
    if "\<forall>(i, sr) \<in> set m. sr_status sr = SPending" for ss m
    using that
  proof (induction ss arbitrary: m)
    case (Cons s ss)
    have "\<forall>(i, sr) \<in> set (im_insert (s_id s) (step_run_new (s_id s)) m). sr_status sr = SPending"
      using Cons.prems set_im_insert [of "s_id s" "step_run_new (s_id s)" m]
      by (fastforce simp: step_run_new_def)
    from Cons.IH [OF this] show ?case by simp
  qed simp
  have r: "r_step_runs r = ?fold (p_steps p) []" and p': "p_steps p' = p_steps p"
    using assms by (auto simp: start_run_def Let_def run_new_def inject_runtime_inputs_def split: sum.splits prod.splits)
  with get [of _ "p_steps p" "[]"] pending [of "[]" "p_steps p"] show ?thesis
    unfolding all_pending_def by auto
qed

section \<open>Validated plans\<close>

lemma fan_out_owned_cong: "p_steps p = p_steps q \<Longrightarrow> fan_out_owned p = fan_out_owned q"
  by (simp add: fan_out_owned_def)

lemma main_flow_cong: "p_steps p = p_steps q \<Longrightarrow> main_flow p = main_flow q"
  by (simp add: main_flow_def fan_out_owned_def)

lemma owned_iff_owner:
  assumes "validate_fan_out_constraints p = []"
  shows "j \<in> fan_out_owned p \<longleftrightarrow> fan_out_owner p j \<noteq> None"
proof
  assume "j \<in> fan_out_owned p"
  then obtain s where s: "s \<in> set (p_steps p)" "j \<in> set (case s_config s of FanOut c \<Rightarrow> fo_spawn_steps c | _ \<Rightarrow> [])"
    by (auto simp: fan_out_owned_def)
  then obtain c where "s_config s = FanOut c" "j \<in> set (fo_spawn_steps c)" by (cases "s_config s") auto
  with s(1) have "s_id s \<in> set (pushes_at j (spawn_owners p))" by (intro spawn_owner_member)
  from fan_out_owner_unique [OF assms this] show "fan_out_owner p j \<noteq> None" by simp
next
  assume "fan_out_owner p j \<noteq> None"
  then have "pushes_at j (spawn_owners p) \<noteq> []" by (auto simp: fan_out_owner_def Let_def split: if_splits)
  then obtain o' where "o' \<in> set (pushes_at j (spawn_owners p))" by (cases "pushes_at j (spawn_owners p)") auto
  then have "(j, o') \<in> set (spawn_owners p)" by (simp add: set_pushes_at)
  then obtain s where "s \<in> set (p_steps p)" "j \<in> set (case s_config s of FanOut c \<Rightarrow> fo_spawn_steps c | _ \<Rightarrow> [])"
    by (force simp: spawn_owners_def split: step_config.splits)
  then show "j \<in> fan_out_owned p" by (auto simp: fan_out_owned_def)
qed

lemma concat_map_Nil: "concat (map f xs) = [] \<Longrightarrow> x \<in> set xs \<Longrightarrow> f x = []"
  by simp

lemma validated_main_closed:
  assumes "validate p catalog = []"
  shows "main_closed p"
  unfolding main_closed_def
proof (intro ballI subsetI)
  fix s d assume s: "s \<in> main_flow p" and d: "d \<in> set (s_depends_on s)"
  note v = validate_Nil [OF assms]
  have own: "fan_out_owner p (s_id s) = None" and mem: "s \<in> set (p_steps p)"
    using s owned_iff_owner [OF v(5), of "s_id s"] by (auto simp: main_flow_def)
  have "check_main_flow_dependencies p = []" using v(5) by (simp add: validate_fan_out_constraints_def)
  note concat_map_Nil [OF this [unfolded check_main_flow_dependencies_def] mem]
  with own have "concat (map (\<lambda>dependency. case fan_out_owner p dependency of None \<Rightarrow> []
      | Some owner \<Rightarrow> [ve_field_err (s_id s) ''depends_on'' InvalidStepConfig
          (fmt ''main-flow step '{}' depends on FAN_OUT-owned step '{}' {} depend on '{}' and consume its 'results' output instead''
             [s_id s, dependency, em_dash, owner])]) (s_depends_on s)) = []" by simp
  from concat_map_Nil [OF this d] have "fan_out_owner p d = None" by (simp split: option.splits)
  then have "d \<notin> fan_out_owned p" using owned_iff_owner [OF v(5)] by simp
  moreover have "d \<in> s_id ` set (p_steps p)"
    using validate_graph_Nil [OF v(3), THEN iffD1, OF v(8)] mem d by blast
  ultimately show "d \<in> s_id ` main_flow p" by (auto simp: main_flow_def)
qed

lemma validated_deps_earlier:
  assumes "validate p catalog = []" and "\<forall>s \<in> set (p_steps p). distinct (s_depends_on s)"
  shows "deps_earlier p (map s_id (topological_order (p_steps p)))"
  unfolding deps_earlier_def
proof (intro allI impI ballI subsetI)
  fix xs i ys s d
  assume order: "map s_id (topological_order (p_steps p)) = xs @ i # ys"
    and s: "s \<in> main_flow p" "s_id s = i" and d: "d \<in> set (s_depends_on s)"
  have "plan_find_step p i = Some s"
    using plan_find_step_distinct [OF validate_Nil(3) [OF assms(1)]] s by (auto simp: main_flow_def)
  with d have "(i, d) \<in> (succ_edges (deps_of p))\<^sup>+" by (auto simp: deps_of_def)
  then have "runs_before (topological_order (p_steps p)) d i"
    by (intro validated_runs_before [OF assms]) (simp add: depends_transitively_iff)
  then obtain a b where ab: "a < b" "b < length (xs @ i # ys)" "(xs @ i # ys) ! a = d" "(xs @ i # ys) ! b = i"
    unfolding runs_before_def by (metis (no_types, lifting) length_map nth_map order order.strict_trans)
  have dist: "distinct (xs @ i # ys)"
    using topo.ids_distinct validate_Nil(3) [OF assms(1)] order by metis
  have "b = length xs"
    using nth_eq_iff_index_eq [OF dist, of b "length xs"] ab(2,4) by simp
  with ab(1,3) show "d \<in> set xs" by (auto simp: nth_append)
qed

section \<open>Settled steps stay as they are\<close>

abbreviation settled :: "checkpoints \<Rightarrow> string set" where
  "settled ck \<equiv> ck_completed ck \<union> ck_stopped ck"

abbreviation unbilled_of :: "run \<Rightarrow> string \<Rightarrow> step_run option" where
  "unbilled_of r i \<equiv> map_option unbilled (step_run_of r i)"

lemma execute_step_keeps:
  assumes run: "execute_step env p ws s ck r w = Some (w', r', flow)" and s: "s \<in> main_flow p"
    and find: "plan_find_step p (s_id s) = Some s" and base: "so_overlay (ck_outputs ck) = []"
    and j: "j \<in> settled ck" "j \<notin> fan_out_owned p" and new: "s_id s \<notin> settled ck"
  shows "unbilled_of r' j = unbilled_of r j \<and>
    (\<forall>ck'. flow = Continue ck' \<longrightarrow> settled ck \<subseteq> settled ck' \<and> so_overlay (ck_outputs ck') = [])"
  using run s find base
proof (cases rule: execute_step_cases)
  case skip
  with j new base show ?thesis by (auto simp: step_run_adjust)
next
  case (finish r0 now ms res r1 ck1)
  have "kept (insert (s_id s) (fan_out_owned p)) r r1" unfolding finish(3) by (rule kept_adjust_after [OF finish(2)]) simp
  moreover have "j \<noteq> s_id s" using j(1) new by auto
  ultimately have k1: "unbilled_of r1 j = unbilled_of r j" using j(2) by (simp add: kept_def)
  consider (unsaved) e where "r' = r1" "flow = Raise e"
    | (routed) ck2 any where "skip_untaken (untaken_branch s (res_outputs res)) ck1 r1 False = (ck2, r', any)"
      "flow = Continue ck2 \<or> (\<exists>e. flow = Raise e)"
    using finish(5) by blast
  then show ?thesis
  proof cases
    case unsaved
    with k1 show ?thesis by simp
  next
    case (routed ck2 any)
    note eff = skip_untaken_effect [OF routed(1)]
    have "j \<notin> newly_skipped (untaken_branch s (res_outputs res)) ck1"
      using j by (auto simp: newly_skipped_def finish(4))
    with eff have "step_run_of r' j = step_run_of r1 j" by simp
    moreover have "settled ck \<subseteq> settled ck2 \<and> so_overlay (ck_outputs ck2) = []"
      using eff base by (auto simp: finish(4) insert_base_def)
    ultimately show ?thesis using routed(2) k1 by auto
  qed
next
  case (fail r1)
  have "j \<noteq> s_id s" using j(1) new by auto
  with fail(1) j(2) have "unbilled_of r1 j = unbilled_of r j" by (simp add: kept_def)
  with fail(2,5) show ?thesis by auto
qed

lemma execute_steps_keeps:
  assumes "execute_steps env p ws (fan_out_owned p) is ck r w = Some (w', r', res)"
    and "so_overlay (ck_outputs ck) = []" and "j \<in> settled ck" "j \<notin> fan_out_owned p"
  shows "unbilled_of r' j = unbilled_of r j"
  using assms(1-3)
proof (induction "is" arbitrary: ck r w)
  case Nil
  then show ?case by (auto simp: finish_run_def Let_def split: prod.splits)
next
  case (Cons i "is")
  show ?case
  proof (cases "i \<in> ck_completed ck \<or> i \<in> ck_stopped ck \<or> i \<in> fan_out_owned p")
    case True
    with Cons show ?thesis by simp
  next
    case False
    show ?thesis
    proof (cases "plan_find_step p i")
      case None
      with Cons.prems(1) False show ?thesis by simp
    next
      case (Some s)
      then have s: "s_id s = i" "s \<in> main_flow p"
        using plan_find_step_Some [OF Some] False by (auto simp: main_flow_def)
      obtain w1 r1 flow where one: "execute_step env p ws s ck r w = Some (w1, r1, flow)"
        using Cons.prems(1) False Some by (cases "execute_step env p ws s ck r w") auto
      have k: "unbilled_of r1 j = unbilled_of r j"
        "\<And>ck'. flow = Continue ck' \<Longrightarrow> settled ck \<subseteq> settled ck' \<and> so_overlay (ck_outputs ck') = []"
        using execute_step_keeps [OF one s(2) _ Cons.prems(2,3) assms(4)] Some s(1) False by auto
      show ?thesis
      proof (cases flow)
        case (Continue ck1)
        with Cons.prems(1) False Some one have
          rest: "execute_steps env p ws (fan_out_owned p) is ck1 r1 w1 = Some (w', r', res)" by simp
        from Cons.IH [OF rest] k Continue Cons.prems(3) show ?thesis by auto
      qed (use Cons.prems(1) False Some one k in simp_all)
    qed
  qed
qed

lemma execute_run_start:
  assumes "execute_run env p r w = Some (w', r', res)"
  shows "r' = r \<or> r' = r\<lparr>r_status := Running, r_finished_at := None\<rparr> \<or>
    (\<exists>ws p' w1. p_steps p' = p_steps p \<and>
      execute_steps env p' ws (fan_out_owned p') (map s_id (topological_order (p_steps p')))
        (load_checkpoints (r\<lparr>r_status := Running, r_finished_at := None\<rparr>))
        (r\<lparr>r_status := Running, r_finished_at := None\<rparr>) w1 = Some (w', r', res))"
  using assms
  by (auto simp: execute_run_def Let_def split: sum.splits prod.splits)

lemma execute_run_keeps:
  assumes run: "execute_run env p r w = Some (w', r', res)"
    and sr: "step_run_of r i = Some sr" "sr_status sr \<in> {SSucceeded, SFailed, SSkipped, SCancelled}"
    and main: "i \<notin> fan_out_owned p"
  shows "unbilled_of r' i = unbilled_of r i"
proof -
  let ?r1 = "r\<lparr>r_status := Running, r_finished_at := None\<rparr>"
  consider "r_step_runs r' = r_step_runs r" | ws p' w1 where "p_steps p' = p_steps p"
      "execute_steps env p' ws (fan_out_owned p') (map s_id (topological_order (p_steps p')))
        (load_checkpoints ?r1) ?r1 w1 = Some (w', r', res)"
    using execute_run_start [OF run] by auto
  then show ?thesis
  proof cases
    case 2
    have "unbilled_of r' i = unbilled_of ?r1 i"
    proof (rule execute_steps_keeps [OF 2(2)])
      show "so_overlay (ck_outputs (load_checkpoints ?r1)) = []"
        by (simp add: load_checkpoints_def load_checkpoints_fold outputs_from_map_def)
      show "i \<in> settled (load_checkpoints ?r1)"
        using load_checkpoints_completed [of ?r1 i sr] load_checkpoints_stopped [of ?r1 i sr] sr by auto
      show "i \<notin> fan_out_owned p'" using main fan_out_owned_cong [OF 2(1)] by simp
    qed
    then show ?thesis by simp
  qed simp
qed

lemma execute_run_inv:
  assumes valid: "validate p catalog = []" and deps: "\<forall>s \<in> set (p_steps p). distinct (s_depends_on s)"
    and p': "p_steps p' = p_steps p" and pending: "all_pending p r" and st: "r_status r \<noteq> Succeeded"
    and run: "execute_run env p' r w = Some (w', r', res)"
  shows "deps_succeeded p r' \<and> (r_status r' = Succeeded \<longrightarrow> all_settled p r')"
proof -
  let ?r1 = "r\<lparr>r_status := Running, r_finished_at := None\<rparr>"
  have cong: "deps_succeeded q = deps_succeeded p" "all_settled q = all_settled p" "main_closed q = main_closed p"
    "all_pending q = all_pending p" "deps_earlier q = deps_earlier p" if "p_steps q = p_steps p" for q
    using that main_flow_cong [OF that]
    by (simp_all add: fun_eq_iff deps_succeeded_def all_settled_def main_closed_def all_pending_def untaken_by_def deps_earlier_def)
  have start: "deps_succeeded p r" if "all_pending p r" for r
    using sched_inv_deps [OF conjunct1 [OF all_pending_start [OF that]] validated_main_closed [OF valid]] .
  consider "r' = r" | "r' = ?r1" | ws q w1 where "p_steps q = p_steps p"
      "execute_steps env q ws (fan_out_owned q) ([] @ map s_id (topological_order (p_steps q)))
        (load_checkpoints ?r1) ?r1 w1 = Some (w', r', res)"
    using execute_run_start [OF run] p' by auto
  then show ?thesis
  proof cases
    case 1
    with start [OF pending] st show ?thesis by simp
  next
    case 2
    have "all_pending p ?r1" using pending by (simp add: all_pending_def)
    from start [OF this] 2 show ?thesis by simp
  next
    case (3 ws q w1)
    have pend: "all_pending q ?r1" using pending cong(4) [OF 3(1)] by (simp add: all_pending_def)
    have "deps_succeeded q r' \<and> (r_status r' = Succeeded \<longrightarrow> all_settled q r')"
    proof (rule execute_steps_inv [of q "[]"])
      show "distinct (map s_id (p_steps q))" using validate_Nil(3) [OF valid] 3(1) by simp
      show "main_closed q" using validated_main_closed [OF valid] cong(3) [OF 3(1)] by simp
      show "deps_earlier q ([] @ map s_id (topological_order (p_steps q)))"
        using validated_deps_earlier [OF valid deps] cong(5) [OF 3(1)] 3(1) by simp
      show "s_id ` set (p_steps q) \<subseteq> set ([] @ map s_id (topological_order (p_steps q)))"
        by (simp add: topo.set_order)
      show "execute_steps env q ws (fan_out_owned q) (map s_id (topological_order (p_steps q)))
          (load_checkpoints ?r1) ?r1 w1 = Some (w', r', res)" using 3(2) by simp
      show "sched_inv q (set []) (load_checkpoints ?r1) ?r1" "so_overlay (ck_outputs (load_checkpoints ?r1)) = []"
        using all_pending_start [OF pend] by simp_all
      show "r_status ?r1 \<noteq> Succeeded" by simp
    qed
    with cong [OF 3(1)] show ?thesis by simp
  qed
qed

section \<open>Executions return\<close>

lemma run_attempt_returns:
  assumes "\<And>a w. run_step (length (p_steps (cx_plan cx))) (xe_runner env) (xe_agent env) cx a w \<noteq> None"
  shows "run_attempt env cx k a r w \<noteq> None"
proof -
  have "run_step_with_child_progress env cx a r w \<noteq> None" for a r w
    using assms [of a w] by (auto simp: run_step_with_child_progress_def Let_def split: option.splits prod.splits sum.splits)
  then show ?thesis
    by (auto simp: run_attempt_def Let_def simp del: not_None_eq split: option.splits prod.splits sum.splits)
qed

lemma run_attempts_returns:
  assumes "\<And>a w. run_step (length (p_steps (cx_plan cx))) (xe_runner env) (xe_agent env) cx a w \<noteq> None"
  shows "run_attempts env cx k left a r w \<noteq> None"
proof (induction left arbitrary: a r w)
  case 0
  obtain w1 a1 r1 e where "run_attempt env cx k a r w = Some (w1, a1, r1, e)"
    using run_attempt_returns [OF assms, of k a r w] by auto
  then show ?case by (simp split: attempt_end.split sum.split)
next
  case (Suc left)
  obtain w1 a1 r1 e where "run_attempt env cx (k - Suc left) a r w = Some (w1, a1, r1, e)"
    using run_attempt_returns [OF assms, of "k - Suc left" a r w] by auto
  with Suc.IH show ?case by (simp add: Let_def del: not_None_eq split: attempt_end.split sum.split prod.split)
qed

lemma execute_step_returns:
  assumes "\<And>cx a w. cx_plan cx = p \<Longrightarrow> cx_step cx = s \<Longrightarrow>
    run_step (length (p_steps p)) (xe_runner env) (xe_agent env) cx a w \<noteq> None"
  shows "execute_step env p ws s ck r w \<noteq> None"
proof -
  have "run_step_with_policy env (step_context_of env p ws s ck r) r w \<noteq> None"
    unfolding run_step_with_policy_def
    by (rule run_attempts_returns) (simp add: step_context_of_def assms del: not_None_eq)
  then show ?thesis
    by (auto simp: execute_step_def Let_def simp del: not_None_eq split: option.splits prod.splits)
qed

lemma execute_steps_returns:
  assumes "\<And>s cx a w. s \<in> main_flow p \<Longrightarrow> cx_plan cx = p \<Longrightarrow> cx_step cx = s \<Longrightarrow>
    run_step (length (p_steps p)) (xe_runner env) (xe_agent env) cx a w \<noteq> None"
  shows "execute_steps env p ws (fan_out_owned p) is ck r w \<noteq> None"
proof (induction "is" arbitrary: ck r w)
  case (Cons i "is")
  show ?case
  proof (cases "i \<in> settled ck \<or> i \<in> fan_out_owned p \<or> plan_find_step p i = None")
    case True
    with Cons.IH show ?thesis by (auto simp del: not_None_eq split: option.split)
  next
    case False
    then obtain s where s: "plan_find_step p i = Some s" by auto
    with False have "s \<in> main_flow p" using plan_find_step_Some [OF s] by (auto simp: main_flow_def)
    then obtain w1 r1 flow where "execute_step env p ws s ck r w = Some (w1, r1, flow)"
      using execute_step_returns [of p s env ws ck r w] assms by auto
    with False s Cons.IH show ?thesis by (simp del: not_None_eq split: step_flow.split)
  qed
qed simp

lemma execute_run_returns:
  assumes valid: "validate p catalog = []" and p': "p_steps p' = p_steps p"
  shows "execute_run env p' r w \<noteq> None"
proof -
  have "execute_steps env q ws (fan_out_owned q) is ck r w \<noteq> None" if q: "p_steps q = p_steps p" for q ws "is" ck r w
  proof (rule execute_steps_returns)
    fix s a w and cx :: step_context assume s: "s \<in> main_flow q" and cx: "cx_plan cx = q" "cx_step cx = s"
    have mem: "s \<in> set (p_steps p)" and own: "fan_out_owner p (s_id s) = None"
      using s main_flow_cong [OF q] owned_iff_owner [OF validate_Nil(5) [OF valid]] by (auto simp: main_flow_def)
    have "fuel_ok (cx_plan cx) (length (p_steps p)) (s_id (cx_step cx))"
      using validated_fuel [OF valid mem own] fuel_ok_cong [OF q] cx by simp
    moreover have "plan_find_step (cx_plan cx) (s_id (cx_step cx)) = Some (cx_step cx)"
      using plan_find_step_distinct [OF validate_Nil(3) [OF valid] mem] plan_find_step_cong [OF q] cx by simp
    ultimately show "run_step (length (p_steps q)) (xe_runner env) (xe_agent env) cx a w \<noteq> None"
      using run_step_returns [of cx] q by (simp del: not_None_eq)
  qed
  then show ?thesis using p' by (simp add: execute_run_def Let_def del: not_None_eq split: sum.split prod.split)
qed

lemma accept_resume_steps: "accept_resume env p r = Inr p' \<Longrightarrow> p_steps p' = p_steps p"
  by (auto simp: accept_resume_def inject_runtime_inputs_def Let_def split: sum.splits run_status.splits option.splits if_splits)

lemma accept_repair_cases:
  assumes "accept_repair env p r overrides mode = Inr (p', r')"
  obtains failed message inputs where "r_status r = RunFailed failed message"
    "p_steps p' = p_steps p" "r' = (rebuild_step_runs env p (repair_reset_step_ids p r failed) (r\<lparr>r_inputs := inputs\<rparr>))
       \<lparr>r_plan_id := m_id (p_metadata p), r_plan_version := m_version (p_metadata p)\<rparr>"
  using assms
  by (auto simp: accept_repair_def inject_runtime_inputs_def Let_def split: sum.splits run_status.splits option.splits if_splits)

section \<open>What a repair rebuilds\<close>

lemma im_get_filter: "P i \<Longrightarrow> im_get (filter (\<lambda>(j, v). P j) m) i = im_get m i"
  by (induction m) (auto simp: im_get_def)

lemma reset_steps_other: "i \<notin> set is \<Longrightarrow> im_get (fold reset_step is m) i = im_get m i"
  by (induction "is" arbitrary: m) (auto simp: reset_step_def im.get_put)

lemma ensure_steps_present: "im_get m i = Some sr \<Longrightarrow> im_get (fold ensure_step ss m) i = Some sr"
proof (induction ss arbitrary: m)
  case (Cons s ss)
  have "im_get (ensure_step s m) i = Some sr"
    using Cons.prems by (auto simp: ensure_step_def im.get_put im_contains_def)
  from Cons.IH [OF this] show ?case by simp
qed simp

lemma rebuild_keeps:
  assumes "step_run_of r i = Some sr" and "plan_find_step p i \<noteq> None" and "i \<notin> set (xe_hash_order env reset)"
  shows "step_run_of (rebuild_step_runs env p reset r) i = Some sr"
proof -
  have "step_run_of (archive_calls p r) i = Some sr"
    using im_get_filter [of "\<lambda>i. plan_find_step p i \<noteq> None" i "r_step_runs r"] assms(1,2)
    by (simp add: archive_calls_def Let_def)
  with assms(3) show ?thesis
    by (simp add: rebuild_step_runs_def Let_def ensure_steps_present reset_steps_other)
qed

text \<open>The calls billed to the steps of a run.\<close>

definition calls_in :: "step_run imap \<Rightarrow> claude_call_summary multiset" where
  "calls_in m = mset (concat (map (\<lambda>(i, sr). sr_claude_calls sr) m))"

lemma run_calls_split: "mset (run_calls r) = calls_in (r_step_runs r) + mset (concat (map snd (r_archived_claude_calls r)))"
  by (simp add: run_calls_def calls_in_def)

lemma calls_in_insert:
  "calls_in (im_insert i v m) + mset (case im_get m i of Some sr \<Rightarrow> sr_claude_calls sr | None \<Rightarrow> []) =
   calls_in m + mset (sr_claude_calls v)"
  by (induction m) (auto simp: im_insert_def im_get_def calls_in_def)

lemma calls_in_same:
  "sr_claude_calls v = (case im_get m i of Some sr \<Rightarrow> sr_claude_calls sr | None \<Rightarrow> []) \<Longrightarrow>
   calls_in (im_insert i v m) = calls_in m"
  using calls_in_insert [of i v m] by simp

lemma calls_in_reset: "calls_in (fold reset_step is m) = calls_in m"
  by (induction "is" arbitrary: m) (simp_all add: reset_step_def calls_in_same)

lemma calls_in_ensure: "calls_in (fold ensure_step ss m) = calls_in m"
proof (induction ss arbitrary: m)
  case (Cons s ss)
  have "calls_in (ensure_step s m) = calls_in m"
    by (auto simp: ensure_step_def im_contains_def step_run_new_def intro: calls_in_same)
  with Cons show ?case by simp
qed simp

lemma archived_insert:
  "mset (concat (map snd (im_insert i ((case im_get m i of Some l \<Rightarrow> l | None \<Rightarrow> []) @ cs) m))) =
   mset (concat (map snd m)) + mset cs"
  by (induction m) (auto simp: im_insert_def im_get_def)

lemma archived_fold:
  "mset (concat (map snd (fold (\<lambda>(i, sr) m.
       im_insert i ((case im_get m i of Some l \<Rightarrow> l | None \<Rightarrow> []) @ sr_claude_calls sr) m) xs m))) =
   mset (concat (map snd m)) + calls_in xs"
proof (induction xs arbitrary: m)
  case (Cons x xs)
  obtain i sr where "x = (i, sr)" by (cases x)
  with Cons archived_insert [of i m "sr_claude_calls sr"] show ?case by (simp add: calls_in_def)
qed (simp add: calls_in_def)

lemma archive_calls_conserve: "mset (run_calls (archive_calls p r)) = mset (run_calls r)"
proof -
  have "calls_in (filter (\<lambda>(i, sr). plan_find_step p i \<noteq> None) m) +
      calls_in (filter (\<lambda>(i, sr). plan_find_step p i = None \<and> sr_claude_calls sr \<noteq> []) m) = calls_in m" for m
    by (induction m) (auto simp: calls_in_def)
  from this [of "r_step_runs r"] show ?thesis
    by (simp add: run_calls_split archive_calls_def Let_def archived_fold add.commute add.left_commute)
qed

lemma rebuild_conserves: "mset (run_calls (rebuild_step_runs env p reset r)) = mset (run_calls r)"
  using archive_calls_conserve [of p r]
  by (simp add: run_calls_split rebuild_step_runs_def Let_def calls_in_reset calls_in_ensure)

section \<open>Properties\<close>




text \<open>
  C8: a repair loses no billed call.  Accepting a run for a repair, which drops the records of
  removed steps, resets some and adds others, leaves the run with the same calls, so that its usage
  totals are those from before.
\<close>

theorem repair_conserves_usage:
  assumes "accept_repair env p r overrides mode = Inr (p', r')"
  shows "mset (run_calls r') = mset (run_calls r) \<and> claude_totals r' = claude_totals r"
  using assms
proof (rule accept_repair_cases)
  fix failed inputs
  assume r': "r' = (rebuild_step_runs env p (repair_reset_step_ids p r failed) (r\<lparr>r_inputs := inputs\<rparr>))
       \<lparr>r_plan_id := m_id (p_metadata p), r_plan_version := m_version (p_metadata p)\<rparr>"
  have "run_calls (x\<lparr>r_plan_id := a, r_plan_version := b\<rparr>) = run_calls x" "run_calls (x\<lparr>r_inputs := inputs\<rparr>) = run_calls x" for x a b
    by (simp_all add: run_calls_def)
  with rebuild_conserves [of env p "repair_reset_step_ids p r failed" "r\<lparr>r_inputs := inputs\<rparr>"]
  have "mset (run_calls r') = mset (run_calls r)" by (simp only: r')
  then show ?thesis using fold_totals_permute by (auto simp: claude_totals_def totals_from_summaries_def)
qed

text \<open>
  the delay before a retry.  It is the configured delay, doubled for each failed attempt after
  the first when backoff is on, up to 31 times, and it stops at the largest 64-bit number of seconds
  instead of wrapping around.
\<close>

theorem retry_delay_saturates:
  "unat (retry_delay policy k) = min (2 ^ 64 - 1)
     (unat (rp_delay_secs policy) * (if rp_backoff policy then 2 ^ min (k - 1) 31 else 1))"
proof -
  have m: "unat (push_bit (min (k - 1) 31) 1 :: 64 word) = 2 ^ min (k - 1) 31"
  proof -
    have "(2 :: nat) ^ min (k - 1) 31 < 2 ^ 64" by (rule power_strict_increasing) auto
    then have "unat (of_nat (2 ^ min (k - 1) 31) :: 64 word) = 2 ^ min (k - 1) 31" by (simp only: unat_of_nat) simp
    then show ?thesis by (simp add: push_bit_eq_mult)
  qed
  have sat: "unat (if unat a * unat b < 2 ^ 64 then a * b else - 1) = min (2 ^ 64 - 1) (unat a * unat b)" for a b :: "64 word"
    by (auto simp: unat_mult_lem [THEN iffD1] unsigned_minus_1_eq_mask mask_eq_exp_minus_1)
  show ?thesis
    unfolding retry_delay_def Let_def MAX_BACKOFF_SHIFT_def
    using sat [of "rp_delay_secs policy" "push_bit (min (k - 1) 31) 1", unfolded m] sat [of "rp_delay_secs policy" 1, unfolded unsigned_1]
    by (cases "rp_backoff policy") (simp_all only: m if_True if_False unsigned_1)
qed

end
