(* ===== verification/RepairResume.thy ===== *)
theory RepairResume
  imports Execution
begin

text \<open>
  The executor on concrete plans: executions that show its properties can hold, and two behaviours
  of \<^verbatim>\<open>executor/mod.rs\<close> that its documentation does not have.
\<close>

section \<open>An executor without a network\<close>

definition demo_executor :: "nat executor_env" where
  "demo_executor = \<lparr>xe_runner = offline_env, xe_agent = no_agents, xe_inputs = [], xe_timeout_secs = None,
     xe_storage_root = ''/data'', xe_source = None, xe_lock_lifecycle = \<lambda>i w. (w, Inr ()),
     xe_save = \<lambda>r w. (w, Inr ()), xe_take_calls = \<lambda>w. (w, []), xe_deadline = \<lambda>secs w w'. None,
     xe_sleep = \<lambda>secs w. w, xe_uuid = \<lambda>w. ''run'', xe_hash_order = \<lambda>S. filter (\<lambda>i. i \<in> S) [''slow'', ''fetch'', ''check'']\<rparr>"

text \<open>The same before the tool of the catalog was installed.\<close>

definition bare_executor :: "nat executor_env" where
  "bare_executor = demo_executor\<lparr>xe_runner := offline_env\<lparr>re_catalog := []\<rparr>\<rparr>"

definition detour_step :: "string \<Rightarrow> step_config \<Rightarrow> string list \<Rightarrow> plan_step" where
  "detour_step i config deps = \<lparr>s_id = i, s_name = i, s_description = None, s_config = config,
     s_depends_on = deps, s_outputs = [], s_timeout_secs = None, s_retry = None\<rparr>"

definition always :: "string list \<Rightarrow> step_config" where
  "always false_steps = Condition \<lparr>cd_expression = ''true == true'', cd_true_steps = [], cd_false_steps = false_steps\<rparr>"

definition detour :: plan where
  "detour = \<lparr>p_metadata = metadata_new ''detour'' 0 None, p_name = ''detour'', p_description = None,
     p_inputs = [], p_config = [],
     p_steps = [detour_step ''check'' (always [''slow'']) [],
       detour_step ''fetch'' (ToolCall \<lparr>tc_tool = ''ls'', tc_arguments = []\<rparr>) [],
       detour_step ''slow'' (always []) [''check'', ''fetch'']],
     p_outputs = []\<rparr>"

lemma detour_valid: "validate detour (re_catalog offline_env) = []"
  by code_simp

definition failed_run :: "nat \<times> plan \<times> run \<Rightarrow> nat \<times> run \<Rightarrow> bool" where
  "failed_run = (\<lambda>(w1, p1, r0) (w2, r1).
     (case r_status r1 of RunFailed failed message \<Rightarrow> failed = ''fetch'' | _ \<Rightarrow> False) \<and>
     status_of r1 ''check'' = Some SSucceeded \<and> ''check'' \<notin> fan_out_owned detour \<and>
     ''check'' \<notin> repair_reset_step_ids detour r1 ''fetch'' \<and>
     (case accept_repair demo_executor detour r1 [] WorldFixed of Inl e \<Rightarrow> False | Inr x \<Rightarrow> True))"

lemma detour_runs:
  "case start_run bare_executor detour 0 of
     (w1, Inr (p1, r0)) \<Rightarrow>
       (case execute_run bare_executor p1 r0 w1 of
          Some (w2, r1, Inl e) \<Rightarrow> failed_run (w1, p1, r0) (w2, r1)
        | _ \<Rightarrow> False)
   | _ \<Rightarrow> False"
  by code_simp

lemma detour_failed:
  obtains w1 p1 r0 w2 r1 e message p2 r2 where
    "start_run bare_executor detour 0 = (w1, Inr (p1, r0))" "execute_run bare_executor p1 r0 w1 = Some (w2, r1, Inl e)"
    "r_status r1 = RunFailed ''fetch'' message" "status_of r1 ''check'' = Some SSucceeded"
    "''check'' \<notin> fan_out_owned detour" "''check'' \<notin> repair_reset_step_ids detour r1 ''fetch''"
    "accept_repair demo_executor detour r1 [] WorldFixed = Inr (p2, r2)"
proof -
  obtain w1 a where s: "start_run bare_executor detour 0 = (w1, a)" by (cases "start_run bare_executor detour 0")
  with detour_runs obtain p1 r0 where a: "a = Inr (p1, r0)" by (cases a) auto
  with s detour_runs obtain w2 r1 b where x: "execute_run bare_executor p1 r0 w1 = Some (w2, r1, b)"
    by (cases "execute_run bare_executor p1 r0 w1") auto
  with s a detour_runs obtain e where b: "b = Inl e" by (cases b) auto
  with s a x detour_runs have f: "failed_run (w1, p1, r0) (w2, r1)" by simp
  then obtain m where m: "r_status r1 = RunFailed ''fetch'' m" by (cases "r_status r1") (auto simp: failed_run_def)
  from f obtain p2 r2 where "accept_repair demo_executor detour r1 [] WorldFixed = Inr (p2, r2)"
    by (cases "accept_repair demo_executor detour r1 [] WorldFixed") (auto simp: failed_run_def)
  with f that s a x b m show ?thesis by (auto simp: failed_run_def)
qed



lemma demo_hash_order: "set (xe_hash_order demo_executor S) \<subseteq> S"
  by (auto simp: demo_executor_def)


lemma repair_conserves_usage_witness:
  "\<exists>w1 p1 r0 w2 r1 e p2 r2. start_run bare_executor detour 0 = (w1, Inr (p1, r0)) \<and>
     execute_run bare_executor p1 r0 w1 = Some (w2, r1, Inl e) \<and>
     accept_repair demo_executor detour r1 [] WorldFixed = Inr (p2, r2) \<and> claude_totals r2 = claude_totals r1"
proof -
  obtain w1 p1 r0 w2 r1 e p2 r2 where
    runs: "start_run bare_executor detour 0 = (w1, Inr (p1, r0))" "execute_run bare_executor p1 r0 w1 = Some (w2, r1, Inl e)"
    and accept: "accept_repair demo_executor detour r1 [] WorldFixed = Inr (p2, r2)"
    by (rule detour_failed)
  from repair_conserves_usage [OF accept] runs accept show ?thesis by blast
qed

section \<open>Behaviours the documentation does not have\<close>


text \<open>
  A FAN_OUT body step whose first attempt failed and whose retry succeeded has status
  \<^verbatim>\<open>Succeeded\<close> together with the error of the failed attempt.
\<close>

lemma retried_child_keeps_error:
  assumes "step_run_of r i = Some sr" and "ce_step_id e1 = i" and "it_error (ce_run e1) = Some m"
    and "ce_step_id e2 = i" and "ce_status e2 = SSucceeded" and "it_error (ce_run e2) = None"
  shows "map_option (\<lambda>sr. (sr_status sr, sr_error sr)) (step_run_of (record_child_run e2 (record_child_run e1 r)) i) =
    Some (SSucceeded, Some m)"
  using assms by (simp add: record_child_run_def step_run_adjust)

end
