(* ===== verification/PlanWire.thy ===== *)
theory PlanWire
  imports PlanSteps
begin

text \<open>
  The JSON form of a plan: what the derived \<^verbatim>\<open>Serialize\<close> and \<^verbatim>\<open>Deserialize\<close>
  of the structs and enums of \<^verbatim>\<open>plan/types.rs\<close> write and read, attribute by attribute.

  A document is a JSON tree whose objects keep the order of the text, so that an
  \<^verbatim>\<open>IndexMap\<close> keeps its order through a file.  \<open>canon\<close> is the
  \<^verbatim>\<open>serde_json::Value\<close> a document stands for, its objects sorted: reading a document
  as a value, or \<^verbatim>\<open>to_value\<close> of a struct, gives the canonical form.

  The text of a timestamp, the rounding to \<^verbatim>\<open>f32\<close> and the text of a reading error
  come from outside the repository: \<open>wire\<close>.
\<close>

named_theorems wire_simps \<open>reading back what was written\<close>

record wire =
  wi_show_time :: "instant \<Rightarrow> string"
  wi_parse_time :: "string \<Rightarrow> instant option"
  wi_f32 :: "number \<Rightarrow> number"
  wi_error :: "string \<Rightarrow> json \<Rightarrow> string"

section \<open>Documents and values\<close>

fun canon :: "json \<Rightarrow> json" where
  "canon (JArray vs) = JArray (map canon vs)"
| "canon (JObject kvs) = JObject (obj_of (map (\<lambda>(k, v). (k, canon v)) kvs))"
| "canon v = v"

text \<open>
  The fields of a struct, with a mark on those that have a \<^verbatim>\<open>serde(default)\<close>.  A struct
  is read from an object, where a known field may occur once, or from an array of its fields in
  order, whose missing tail must have defaults.
\<close>

type_synonym fields = "(string \<times> bool) list"

definition struct_of :: "fields \<Rightarrow> json \<Rightarrow> (string \<times> json) list option" where
  "struct_of spec v =
     (case v of
        JObject kvs \<Rightarrow>
          if list_all (\<lambda>(n, d). length (filter (\<lambda>(k, w). k = n) kvs) \<le> 1) spec then Some kvs else None
      | JArray vs \<Rightarrow>
          if length vs \<le> length spec \<and> list_all snd (drop (length vs) spec)
          then Some (zip (map fst spec) vs) else None
      | _ \<Rightarrow> None)"

text \<open>
  A required field, an \<^verbatim>\<open>Option\<close>, which is absent when missing or null, and a field
  with a default.
\<close>

definition req :: "(json \<Rightarrow> 'a option) \<Rightarrow> (string \<times> json) list \<Rightarrow> string \<Rightarrow> 'a option" where
  "req f kvs n = (case map_of kvs n of None \<Rightarrow> None | Some v \<Rightarrow> f v)"

definition opt_value :: "(json \<Rightarrow> 'a option) \<Rightarrow> json \<Rightarrow> 'a option option" where
  "opt_value f v = (if is_null v then Some None else map_option Some (f v))"

definition opt :: "(json \<Rightarrow> 'a option) \<Rightarrow> (string \<times> json) list \<Rightarrow> string \<Rightarrow> 'a option option" where
  "opt f kvs n = (case map_of kvs n of None \<Rightarrow> Some None | Some v \<Rightarrow> opt_value f v)"

definition dflt :: "'a \<Rightarrow> (json \<Rightarrow> 'a option) \<Rightarrow> (string \<times> json) list \<Rightarrow> string \<Rightarrow> 'a option" where
  "dflt d f kvs n = (case map_of kvs n of None \<Rightarrow> Some d | Some v \<Rightarrow> f v)"

text \<open>Integers are read from integers in range only, an \<^verbatim>\<open>f32\<close> from any number.\<close>

definition word_of :: "json \<Rightarrow> 'a::len word option" where
  "word_of v = (case v of
     JNumber (NumInt i) \<Rightarrow> if 0 \<le> i \<and> i < 2 ^ LENGTH('a) then Some (word_of_int i) else None
   | _ \<Rightarrow> None)"

definition float_of :: "wire \<Rightarrow> json \<Rightarrow> number option" where
  "float_of w v = (case v of JNumber n \<Rightarrow> Some (wi_f32 w n) | _ \<Rightarrow> None)"

definition time_of :: "wire \<Rightarrow> json \<Rightarrow> instant option" where
  "time_of w v = (case v of JString s \<Rightarrow> wi_parse_time w s | _ \<Rightarrow> None)"

fun list_of :: "(json \<Rightarrow> 'a option) \<Rightarrow> json \<Rightarrow> 'a list option" where
  "list_of f (JArray vs) = those (map f vs)"
| "list_of f _ = None"

fun map_entries :: "(json \<Rightarrow> 'a option) \<Rightarrow> json \<Rightarrow> 'a imap option" where
  "map_entries f (JObject kvs) =
     map_option (im_extend []) (those (map (\<lambda>(k, v). map_option (Pair k) (f v)) kvs))"
| "map_entries f _ = None"

text \<open>A unit variant: its name, or an object with the name as its only key and null as value.\<close>

definition variant_of :: "(string \<times> 'a) list \<Rightarrow> json \<Rightarrow> 'a option" where
  "variant_of names v = (case v of
     JString s \<Rightarrow> map_of names s
   | JObject [(s, JNull)] \<Rightarrow> map_of names s
   | _ \<Rightarrow> None)"

section \<open>Writing\<close>

definition str_map_doc :: "string imap \<Rightarrow> json" where
  "str_map_doc m = JObject (map (\<lambda>(k, v). (k, JString v)) m)"

fun config_doc_fields :: "step_config \<Rightarrow> (string \<times> json) list" where
  "config_doc_fields (ToolCall c) =
     [(''tool'', JString (tc_tool c)), (''arguments'', JObject (tc_arguments c))]"
| "config_doc_fields (CodeCall c) =
     [(''language'', JString (cc_language c)), (''inline'', opt_json JString (cc_inline c)),
      (''file'', opt_json JString (cc_file c)), (''args'', strs_json (cc_args c)),
      (''stdin'', opt_json JString (cc_stdin c)), (''env'', str_map_doc (cc_env c)),
      (''working_dir'', opt_json JString (cc_working_dir c)),
      (''timeout_secs'', opt_json u64_json (cc_timeout_secs c))]"
| "config_doc_fields (HumanInteraction c) =
     [(''prompt'', JString (hi_prompt c)), (''response_field'', JString (hi_response_field c)),
      (''approval_required'', JBool (hi_approval_required c))]"
| "config_doc_fields (FanOut c) =
     [(''over'', JString (fo_over c)), (''item_var'', JString (fo_item_var c)),
      (''spawn_steps'', strs_json (fo_spawn_steps c))] @
     (case fo_until c of None \<Rightarrow> [] | Some u \<Rightarrow> [(''until'', JString u)])"
| "config_doc_fields (FanIn c) =
     [(''from_steps'', strs_json (fi_from_steps c)), (''collect_field'', JString (fi_collect_field c))]"
| "config_doc_fields (PromptCall c) =
     [(''model'', JString (pc_model c)), (''system_prompt'', opt_json JString (pc_system_prompt c)),
      (''user_prompt'', JString (pc_user_prompt c)), (''output_field'', JString (pc_output_field c)),
      (''max_tokens'', opt_json u64_json (pc_max_tokens c)),
      (''temperature'', opt_json JNumber (pc_temperature c))]"
| "config_doc_fields (Condition c) =
     [(''expression'', JString (cd_expression c)), (''true_steps'', strs_json (cd_true_steps c)),
      (''false_steps'', strs_json (cd_false_steps c))]"
| "config_doc_fields (AgentCall c) =
     [(''objective'', JString (ac_objective c)), (''working_dir'', JString (ac_working_dir c)),
      (''timeout_secs'', opt_json u64_json (ac_timeout_secs c))]"

definition config_doc :: "step_config \<Rightarrow> json" where
  "config_doc c = JObject ((''type'', JString (show_step_type (config_step_type c))) # config_doc_fields c)"

definition retry_doc :: "retry_policy \<Rightarrow> json" where
  "retry_doc r = JObject [(''max_attempts'', u64_json (rp_max_attempts r)),
     (''delay_secs'', u64_json (rp_delay_secs r)), (''backoff'', JBool (rp_backoff r))]"

definition output_doc :: "plan_output \<Rightarrow> json" where
  "output_doc o' = JObject [(''name'', JString (po_name o')),
     (''description'', opt_json JString (po_description o')), (''value_type'', JString (po_value_type o'))]"

definition output_ref_doc :: "plan_output_ref \<Rightarrow> json" where
  "output_ref_doc o' = JObject [(''name'', JString (or_name o')),
     (''description'', opt_json JString (or_description o')), (''source'', JString (or_source o'))]"

fun show_input_kind :: "input_kind \<Rightarrow> string" where
  "show_input_kind KValue = ''value''"
| "show_input_kind KFilePath = ''file_path''"
| "show_input_kind KOutputFilePath = ''output_file_path''"
| "show_input_kind KDirectoryPath = ''directory_path''"

definition input_doc :: "plan_input \<Rightarrow> json" where
  "input_doc i = JObject [(''name'', JString (in_name i)),
     (''description'', opt_json JString (in_description i)), (''value_type'', JString (in_value_type i)),
     (''required'', JBool (in_required i)), (''default'', opt_json id (in_default i)),
     (''input_kind'', JString (show_input_kind (in_kind i)))]"

definition step_doc :: "plan_step \<Rightarrow> json" where
  "step_doc s = JObject [(''id'', JString (s_id s)), (''name'', JString (s_name s)),
     (''description'', opt_json JString (s_description s)), (''config'', config_doc (s_config s)),
     (''depends_on'', strs_json (s_depends_on s)), (''outputs'', JArray (map output_doc (s_outputs s))),
     (''timeout_secs'', opt_json u64_json (s_timeout_secs s)), (''retry'', opt_json retry_doc (s_retry s))]"

fun show_plan_status :: "plan_status \<Rightarrow> string" where
  "show_plan_status Draft = ''draft''"
| "show_plan_status Published = ''published''"

definition metadata_doc :: "wire \<Rightarrow> plan_metadata \<Rightarrow> json" where
  "metadata_doc w m = JObject
    ([(''id'', JString (m_id m)), (''version'', u64_json (m_version m)),
      (''created_at'', JString (wi_show_time w (m_created_at m))),
      (''updated_at'', JString (wi_show_time w (m_updated_at m))),
      (''compiled_by'', opt_json JString (m_compiled_by m)), (''intent'', opt_json JString (m_intent m)),
      (''parent_plan_id'', opt_json JString (m_parent_plan_id m)),
      (''parent_version'', opt_json u64_json (m_parent_version m)),
      (''status'', JString (show_plan_status (m_status m)))] @
     (case m_solution_design m of None \<Rightarrow> [] | Some d \<Rightarrow> [(''solution_design'', JString d)]))"

definition plan_doc :: "wire \<Rightarrow> plan \<Rightarrow> json" where
  "plan_doc w p = JObject [(''metadata'', metadata_doc w (p_metadata p)), (''name'', JString (p_name p)),
     (''description'', opt_json JString (p_description p)), (''inputs'', JArray (map input_doc (p_inputs p))),
     (''config'', JObject (p_config p)), (''steps'', JArray (map step_doc (p_steps p))),
     (''outputs'', JArray (map output_ref_doc (p_outputs p)))]"

section \<open>Reading\<close>

definition tool_call_of :: "json \<Rightarrow> tool_call_config option" where
  "tool_call_of v = Option.bind (struct_of [(''tool'', False), (''arguments'', True)] v) (\<lambda>kvs.
     Option.bind (req as_str kvs ''tool'') (\<lambda>t.
     Option.bind (dflt [] (map_entries (Some \<circ> canon)) kvs ''arguments'') (\<lambda>a.
     Some \<lparr>tc_tool = t, tc_arguments = a\<rparr>)))"

definition code_call_of :: "json \<Rightarrow> code_call_config option" where
  "code_call_of v = Option.bind (struct_of [(''language'', False), (''inline'', False), (''file'', False),
       (''args'', True), (''stdin'', True), (''env'', True), (''working_dir'', False), (''timeout_secs'', False)] v) (\<lambda>kvs.
     Option.bind (req as_str kvs ''language'') (\<lambda>l.
     Option.bind (opt as_str kvs ''inline'') (\<lambda>i.
     Option.bind (opt as_str kvs ''file'') (\<lambda>f.
     Option.bind (dflt [] (list_of as_str) kvs ''args'') (\<lambda>a.
     Option.bind (opt as_str kvs ''stdin'') (\<lambda>s.
     Option.bind (dflt [] (map_entries as_str) kvs ''env'') (\<lambda>e.
     Option.bind (opt as_str kvs ''working_dir'') (\<lambda>d.
     Option.bind (opt word_of kvs ''timeout_secs'') (\<lambda>t.
     Some \<lparr>cc_language = l, cc_inline = i, cc_file = f, cc_args = a, cc_stdin = s, cc_env = e,
       cc_working_dir = d, cc_timeout_secs = t\<rparr>)))))))))"

definition human_of :: "json \<Rightarrow> human_config option" where
  "human_of v = Option.bind (struct_of [(''prompt'', False), (''response_field'', False), (''approval_required'', True)] v) (\<lambda>kvs.
     Option.bind (req as_str kvs ''prompt'') (\<lambda>p.
     Option.bind (req as_str kvs ''response_field'') (\<lambda>r.
     Option.bind (dflt False as_bool kvs ''approval_required'') (\<lambda>a.
     Some \<lparr>hi_prompt = p, hi_response_field = r, hi_approval_required = a\<rparr>))))"

definition fan_out_of :: "json \<Rightarrow> fan_out_config option" where
  "fan_out_of v = Option.bind (struct_of [(''over'', False), (''item_var'', False), (''spawn_steps'', True), (''until'', True)] v) (\<lambda>kvs.
     Option.bind (req as_str kvs ''over'') (\<lambda>ov.
     Option.bind (req as_str kvs ''item_var'') (\<lambda>i.
     Option.bind (dflt [] (list_of as_str) kvs ''spawn_steps'') (\<lambda>s.
     Option.bind (opt as_str kvs ''until'') (\<lambda>u.
     Some \<lparr>fo_over = ov, fo_item_var = i, fo_spawn_steps = s, fo_until = u\<rparr>)))))"

definition fan_in_of :: "json \<Rightarrow> fan_in_config option" where
  "fan_in_of v = Option.bind (struct_of [(''from_steps'', False), (''collect_field'', False)] v) (\<lambda>kvs.
     Option.bind (req (list_of as_str) kvs ''from_steps'') (\<lambda>f.
     Option.bind (req as_str kvs ''collect_field'') (\<lambda>c.
     Some \<lparr>fi_from_steps = f, fi_collect_field = c\<rparr>)))"

definition prompt_call_of :: "wire \<Rightarrow> json \<Rightarrow> prompt_call_config option" where
  "prompt_call_of w v = Option.bind (struct_of [(''model'', False), (''system_prompt'', False), (''user_prompt'', False),
       (''output_field'', False), (''max_tokens'', False), (''temperature'', False)] v) (\<lambda>kvs.
     Option.bind (req as_str kvs ''model'') (\<lambda>m.
     Option.bind (opt as_str kvs ''system_prompt'') (\<lambda>s.
     Option.bind (req as_str kvs ''user_prompt'') (\<lambda>u.
     Option.bind (req as_str kvs ''output_field'') (\<lambda>f.
     Option.bind (opt word_of kvs ''max_tokens'') (\<lambda>x.
     Option.bind (opt (float_of w) kvs ''temperature'') (\<lambda>t.
     Some \<lparr>pc_model = m, pc_system_prompt = s, pc_user_prompt = u, pc_output_field = f, pc_max_tokens = x,
       pc_temperature = t\<rparr>)))))))"

definition condition_of :: "json \<Rightarrow> condition_config option" where
  "condition_of v = Option.bind (struct_of [(''expression'', False), (''true_steps'', True), (''false_steps'', True)] v) (\<lambda>kvs.
     Option.bind (req as_str kvs ''expression'') (\<lambda>e.
     Option.bind (dflt [] (list_of as_str) kvs ''true_steps'') (\<lambda>t.
     Option.bind (dflt [] (list_of as_str) kvs ''false_steps'') (\<lambda>f.
     Some \<lparr>cd_expression = e, cd_true_steps = t, cd_false_steps = f\<rparr>))))"

definition agent_call_of :: "json \<Rightarrow> agent_call_config option" where
  "agent_call_of v = Option.bind (struct_of [(''objective'', False), (''working_dir'', False), (''timeout_secs'', False)] v) (\<lambda>kvs.
     Option.bind (req as_str kvs ''objective'') (\<lambda>ob.
     Option.bind (req as_str kvs ''working_dir'') (\<lambda>d.
     Option.bind (opt word_of kvs ''timeout_secs'') (\<lambda>t.
     Some \<lparr>ac_objective = ob, ac_working_dir = d, ac_timeout_secs = t\<rparr>))))"

definition step_type_names :: "(string \<times> step_type) list" where
  "step_type_names = map (\<lambda>t. (show_step_type t, t))
     [TToolCall, TCodeCall, THumanInteraction, TFanOut, TFanIn, TPromptCall, TCondition, TAgentCall]"

definition variant_config_of :: "wire \<Rightarrow> step_type \<Rightarrow> json \<Rightarrow> step_config option" where
  "variant_config_of w t v = (case t of
     TToolCall \<Rightarrow> map_option ToolCall (tool_call_of v)
   | TCodeCall \<Rightarrow> map_option CodeCall (code_call_of v)
   | THumanInteraction \<Rightarrow> map_option HumanInteraction (human_of v)
   | TFanOut \<Rightarrow> map_option FanOut (fan_out_of v)
   | TFanIn \<Rightarrow> map_option FanIn (fan_in_of v)
   | TPromptCall \<Rightarrow> map_option PromptCall (prompt_call_of w v)
   | TCondition \<Rightarrow> map_option Condition (condition_of v)
   | TAgentCall \<Rightarrow> map_option AgentCall (agent_call_of v))"

text \<open>
  The internally tagged enum: the tag is the one \<^verbatim>\<open>type\<close> entry of an object, or the
  first element of an array, and the rest is the variant's struct.
\<close>

definition config_of :: "wire \<Rightarrow> json \<Rightarrow> step_config option" where
  "config_of w v = (case v of
     JObject kvs \<Rightarrow>
       (case filter (\<lambda>(k, u). k = ''type'') kvs of
          [(k, JString t)] \<Rightarrow> Option.bind (map_of step_type_names t) (\<lambda>t'.
            variant_config_of w t' (JObject (filter (\<lambda>(k, u). k \<noteq> ''type'') kvs)))
        | _ \<Rightarrow> None)
   | JArray (JString t # vs) \<Rightarrow>
       Option.bind (map_of step_type_names t) (\<lambda>t'. variant_config_of w t' (JArray vs))
   | _ \<Rightarrow> None)"

definition retry_of :: "json \<Rightarrow> retry_policy option" where
  "retry_of v = Option.bind (struct_of [(''max_attempts'', False), (''delay_secs'', False), (''backoff'', True)] v) (\<lambda>kvs.
     Option.bind (req word_of kvs ''max_attempts'') (\<lambda>m.
     Option.bind (req word_of kvs ''delay_secs'') (\<lambda>d.
     Option.bind (dflt False as_bool kvs ''backoff'') (\<lambda>b.
     Some \<lparr>rp_max_attempts = m, rp_delay_secs = d, rp_backoff = b\<rparr>))))"

definition output_of :: "json \<Rightarrow> plan_output option" where
  "output_of v = Option.bind (struct_of [(''name'', False), (''description'', False), (''value_type'', True)] v) (\<lambda>kvs.
     Option.bind (req as_str kvs ''name'') (\<lambda>n.
     Option.bind (opt as_str kvs ''description'') (\<lambda>d.
     Option.bind (dflt ''any'' as_str kvs ''value_type'') (\<lambda>t.
     Some \<lparr>po_name = n, po_description = d, po_value_type = t\<rparr>))))"

definition output_ref_of :: "json \<Rightarrow> plan_output_ref option" where
  "output_ref_of v = Option.bind (struct_of [(''name'', False), (''description'', False), (''source'', False)] v) (\<lambda>kvs.
     Option.bind (req as_str kvs ''name'') (\<lambda>n.
     Option.bind (opt as_str kvs ''description'') (\<lambda>d.
     Option.bind (req as_str kvs ''source'') (\<lambda>s.
     Some \<lparr>or_name = n, or_description = d, or_source = s\<rparr>))))"

definition input_kind_names :: "(string \<times> input_kind) list" where
  "input_kind_names = map (\<lambda>k. (show_input_kind k, k)) [KValue, KFilePath, KOutputFilePath, KDirectoryPath]"

definition input_of :: "json \<Rightarrow> plan_input option" where
  "input_of v = Option.bind (struct_of [(''name'', False), (''description'', False), (''value_type'', True),
       (''required'', True), (''default'', True), (''input_kind'', True)] v) (\<lambda>kvs.
     Option.bind (req as_str kvs ''name'') (\<lambda>n.
     Option.bind (opt as_str kvs ''description'') (\<lambda>d.
     Option.bind (dflt ''any'' as_str kvs ''value_type'') (\<lambda>t.
     Option.bind (dflt True as_bool kvs ''required'') (\<lambda>r.
     Option.bind (opt (Some \<circ> canon) kvs ''default'') (\<lambda>x.
     Option.bind (dflt KValue (variant_of input_kind_names) kvs ''input_kind'') (\<lambda>k.
     Some \<lparr>in_name = n, in_description = d, in_value_type = t, in_required = r, in_default = x, in_kind = k\<rparr>)))))))"

definition step_of :: "wire \<Rightarrow> json \<Rightarrow> plan_step option" where
  "step_of w v = Option.bind (struct_of [(''id'', False), (''name'', False), (''description'', False), (''config'', False),
       (''depends_on'', True), (''outputs'', True), (''timeout_secs'', False), (''retry'', False)] v) (\<lambda>kvs.
     Option.bind (req as_str kvs ''id'') (\<lambda>i.
     Option.bind (req as_str kvs ''name'') (\<lambda>n.
     Option.bind (opt as_str kvs ''description'') (\<lambda>d.
     Option.bind (req (config_of w) kvs ''config'') (\<lambda>c.
     Option.bind (dflt [] (list_of as_str) kvs ''depends_on'') (\<lambda>ds.
     Option.bind (dflt [] (list_of output_of) kvs ''outputs'') (\<lambda>os.
     Option.bind (opt word_of kvs ''timeout_secs'') (\<lambda>t.
     Option.bind (opt retry_of kvs ''retry'') (\<lambda>r.
     Some \<lparr>s_id = i, s_name = n, s_description = d, s_config = c, s_depends_on = ds, s_outputs = os,
       s_timeout_secs = t, s_retry = r\<rparr>)))))))))"

definition plan_status_names :: "(string \<times> plan_status) list" where
  "plan_status_names = map (\<lambda>s. (show_plan_status s, s)) [Draft, Published]"

definition metadata_of :: "wire \<Rightarrow> json \<Rightarrow> plan_metadata option" where
  "metadata_of w v = Option.bind (struct_of [(''id'', False), (''version'', False), (''created_at'', False),
       (''updated_at'', False), (''compiled_by'', False), (''intent'', False), (''parent_plan_id'', False),
       (''parent_version'', False), (''status'', True), (''solution_design'', True)] v) (\<lambda>kvs.
     Option.bind (req as_str kvs ''id'') (\<lambda>i.
     Option.bind (req word_of kvs ''version'') (\<lambda>n.
     Option.bind (req (time_of w) kvs ''created_at'') (\<lambda>c.
     Option.bind (req (time_of w) kvs ''updated_at'') (\<lambda>u.
     Option.bind (opt as_str kvs ''compiled_by'') (\<lambda>b.
     Option.bind (opt as_str kvs ''intent'') (\<lambda>t.
     Option.bind (opt as_str kvs ''parent_plan_id'') (\<lambda>pp.
     Option.bind (opt word_of kvs ''parent_version'') (\<lambda>pv.
     Option.bind (dflt Published (variant_of plan_status_names) kvs ''status'') (\<lambda>s.
     Option.bind (opt as_str kvs ''solution_design'') (\<lambda>d.
     Some \<lparr>m_id = i, m_version = n, m_created_at = c, m_updated_at = u, m_compiled_by = b, m_intent = t,
       m_parent_plan_id = pp, m_parent_version = pv, m_status = s, m_solution_design = d\<rparr>)))))))))))"

definition plan_of :: "wire \<Rightarrow> json \<Rightarrow> plan option" where
  "plan_of w v = Option.bind (struct_of [(''metadata'', False), (''name'', False), (''description'', False), (''inputs'', True),
       (''config'', True), (''steps'', False), (''outputs'', True)] v) (\<lambda>kvs.
     Option.bind (req (metadata_of w) kvs ''metadata'') (\<lambda>m.
     Option.bind (req as_str kvs ''name'') (\<lambda>n.
     Option.bind (opt as_str kvs ''description'') (\<lambda>d.
     Option.bind (dflt [] (list_of input_of) kvs ''inputs'') (\<lambda>i.
     Option.bind (dflt [] (map_entries (Some \<circ> canon)) kvs ''config'') (\<lambda>c.
     Option.bind (req (list_of (step_of w)) kvs ''steps'') (\<lambda>s.
     Option.bind (dflt [] (list_of output_ref_of) kvs ''outputs'') (\<lambda>out.
     Some \<lparr>p_metadata = m, p_name = n, p_description = d, p_inputs = i, p_config = c, p_steps = s,
       p_outputs = out\<rparr>))))))))"

section \<open>Well-formed plans\<close>

text \<open>
  What the Rust types guarantee: the keys of a map are distinct, an embedded value is a JSON
  value, a temperature is an \<^verbatim>\<open>f32\<close>.  A default that is an explicit null cannot be told
  from an absent one in the JSON form.
\<close>

definition wf_entries :: "json imap \<Rightarrow> bool" where
  "wf_entries m \<longleftrightarrow> distinct (im_keys m) \<and> list_all (\<lambda>(k, v). wf_json v) m"

fun wf_config :: "wire \<Rightarrow> step_config \<Rightarrow> bool" where
  "wf_config w (ToolCall c) \<longleftrightarrow> wf_entries (tc_arguments c)"
| "wf_config w (CodeCall c) \<longleftrightarrow> distinct (im_keys (cc_env c))"
| "wf_config w (PromptCall c) \<longleftrightarrow> (case pc_temperature c of None \<Rightarrow> True | Some n \<Rightarrow> wi_f32 w n = n)"
| "wf_config w _ \<longleftrightarrow> True"

definition wf_input :: "plan_input \<Rightarrow> bool" where
  "wf_input i \<longleftrightarrow> (case in_default i of None \<Rightarrow> True | Some v \<Rightarrow> wf_json v \<and> v \<noteq> JNull)"

definition wf_plan :: "wire \<Rightarrow> plan \<Rightarrow> bool" where
  "wf_plan w p \<longleftrightarrow> list_all wf_input (p_inputs p) \<and> wf_entries (p_config p) \<and>
     list_all (\<lambda>s. wf_config w (s_config s)) (p_steps p)"

definition times_roundtrip :: "wire \<Rightarrow> bool" where
  "times_roundtrip w \<longleftrightarrow> (\<forall>t. wi_parse_time w (wi_show_time w t) = Some t)"

section \<open>Sorted objects\<close>

lemma obj_of_Nil [simp]: "obj_of [] = []"
  by (simp add: obj_of_def)

lemma map_of_obj_of_acc:
  "sorted_wrt (<) (map fst acc) \<Longrightarrow>
   map_of (fold (\<lambda>(k, v). obj_insert k v) kvs acc) n = map_of (rev kvs @ acc) n"
proof (induction kvs arbitrary: acc)
  case Nil
  show ?case by simp
next
  case (Cons kv kvs)
  obtain k v where [simp]: "kv = (k, v)" by (cases kv)
  have "sorted_wrt (<) (map fst (obj_insert k v acc))" by (rule sorted_obj_insert [OF Cons.prems])
  from Cons.IH [OF this] map_of_obj_insert [OF Cons.prems, of k v]
  show ?case by (auto simp: map_add_def split: option.split)
qed

lemma map_of_obj_of: "distinct (map fst kvs) \<Longrightarrow> map_of (obj_of kvs) = map_of kvs"
proof
  fix n
  assume d: "distinct (map fst kvs)"
  have "map_of (rev kvs) n = map_of kvs n"
    by (metis d map_of_inject_set distinct_rev rev_map set_rev)
  then show "map_of (obj_of kvs) n = map_of kvs n"
    by (simp add: obj_of_def map_of_obj_of_acc)
qed

lemma strict_sorted_distinct: "sorted_wrt (<) (xs :: 'a :: linorder list) \<Longrightarrow> distinct xs"
  by (simp add: strict_sorted_iff)

lemma distinct_obj_of: "distinct (map fst (obj_of kvs))"
  by (rule strict_sorted_distinct) (simp add: sorted_obj_of)

lemma entries_of_keys: "distinct (map fst kvs) \<Longrightarrow> map (\<lambda>k. (k, the (map_of kvs k))) (map fst kvs) = kvs"
  by (auto intro!: map_idI)

lemma obj_of_sorted:
  assumes s: "sorted_wrt (<) (map fst kvs)"
  shows "obj_of kvs = kvs"
proof -
  have m: "map_of (obj_of kvs) = map_of kvs"
    by (rule map_of_obj_of) (rule strict_sorted_distinct [OF s])
  then have "fst ` set (obj_of kvs) = fst ` set kvs" by (metis dom_map_of_conv_image_fst)
  then have "map fst (obj_of kvs) = map fst kvs"
    by (intro strict_sorted_equal [OF s sorted_obj_of]) simp
  then show ?thesis
    using entries_of_keys [OF distinct_obj_of, of kvs] entries_of_keys [OF strict_sorted_distinct [OF s]]
    by (simp only: m)
qed

lemma canon_wf: "wf_json v \<Longrightarrow> canon v = v"
proof (induction v rule: canon.induct)
  case (1 vs)
  then show ?case by (auto simp: list_all_iff intro!: map_idI)
next
  case (2 kvs)
  then have "map (\<lambda>(k, v). (k, canon v)) kvs = kvs"
    by (auto simp: list_all_iff intro!: map_idI)
  with 2 show ?case by (simp add: obj_of_sorted)
qed auto

lemma set_obj_insert: "set (obj_insert k v kvs) \<subseteq> insert (k, v) (set kvs)"
  by (induction k v kvs rule: obj_insert.induct) auto

lemma set_obj_of: "set (obj_of kvs) \<subseteq> set kvs"
proof -
  have "set (fold (\<lambda>(k, v). obj_insert k v) kvs acc) \<subseteq> set kvs \<union> set acc" for acc
  proof (induction kvs arbitrary: acc)
    case (Cons kv kvs)
    obtain k v where kv: "kv = (k, v)" by (cases kv)
    with Cons [of "obj_insert k v acc"] set_obj_insert [of k v acc] show ?case by auto
  qed simp
  from this [of "[]"] show ?thesis by (simp add: obj_of_def)
qed

lemma canon_idem [simp]: "canon (canon v) = canon v"
proof (induction v rule: canon.induct)
  case (1 vs)
  then show ?case by auto
next
  case (2 kvs)
  let ?kvs = "obj_of (map (\<lambda>(k, v). (k, canon v)) kvs)"
  have "canon v = v" if "(k, v) \<in> set ?kvs" for k v
  proof -
    from set_obj_of [of "map (\<lambda>(k, v). (k, canon v)) kvs"] that 2 show ?thesis by auto
  qed
  then have "map (\<lambda>(k, v). (k, canon v)) ?kvs = ?kvs" by (auto intro!: map_idI)
  then show ?case by (simp add: obj_of_sorted sorted_obj_of)
qed auto

section \<open>The two views of a document\<close>

text \<open>
  A reader sees a document either as it is in the text or as a value with sorted objects.  Both
  views keep leaves and lists and show the same fields of an object; they differ in the order of the
  entries of a map.
\<close>

lemma struct_of_object:
  assumes "distinct (map fst kvs)"
  shows "struct_of spec (JObject kvs) = Some kvs"
proof -
  have "length (filter (\<lambda>(k, w). k = n) kvs) \<le> 1" for n
    using assms by (induction kvs) (force simp: filter_empty_conv)+
  then show ?thesis by (auto simp: struct_of_def list_all_iff)
qed

lemma filter_key: "distinct (map fst kvs) \<Longrightarrow> map_of kvs k = Some v \<Longrightarrow> filter (\<lambda>(j, u). j = k) kvs = [(k, v)]"
  by (induction kvs) (force simp: filter_empty_conv split: if_splits)+

locale tree_view =
  fixes view :: "json \<Rightarrow> json"
    and entries :: "json imap \<Rightarrow> json imap"
    and strings :: "string imap \<Rightarrow> string imap"
  assumes leaves: "view JNull = JNull" "view (JBool b) = JBool b" "view (JNumber n) = JNumber n"
      "view (JString s) = JString s" "view (JArray vs) = JArray (map view vs)"
    and canon_view: "canon (view v) = canon v"
    and object: "distinct (map fst kvs) \<Longrightarrow> \<exists>kvs'. view (JObject kvs) = JObject kvs' \<and> distinct (map fst kvs') \<and>
      map_of kvs' = (\<lambda>n. map_option view (map_of kvs n))"
    and entries_view: "wf_entries m \<Longrightarrow> map_entries (Some \<circ> canon) (view (JObject m)) = Some (entries m)"
    and strings_view: "distinct (im_keys e) \<Longrightarrow> map_entries as_str (view (str_map_doc e)) = Some (strings e)"
begin

lemma struct_view:
  assumes "distinct (map fst kvs)"
    and "\<And>kvs'. map_of kvs' = (\<lambda>n. map_option view (map_of kvs n)) \<Longrightarrow> k kvs' = r"
  shows "Option.bind (struct_of spec (view (JObject kvs))) k = r"
proof -
  from object [OF assms(1)] obtain kvs' where v: "view (JObject kvs) = JObject kvs'" "distinct (map fst kvs')"
      "map_of kvs' = (\<lambda>n. map_option view (map_of kvs n))" by blast
  with assms(2) struct_of_object [OF v(2), of spec] show ?thesis by simp
qed

lemma object_not_null: "distinct (map fst kvs) \<Longrightarrow> view (JObject kvs) \<noteq> JNull"
  using object [of kvs] by auto

lemma list_view: "(\<And>x. x \<in> set xs \<Longrightarrow> f (view (g x)) = Some (h x)) \<Longrightarrow>
    list_of f (view (JArray (map g xs))) = Some (map h xs)"
  by (induction xs) (auto simp: leaves)

lemma opt_view: "(\<And>y. x = Some y \<Longrightarrow> f (view (g y)) = Some (h y) \<and> view (g y) \<noteq> JNull) \<Longrightarrow>
    opt_value f (view (opt_json g x)) = Some (map_option h x)"
  by (cases x) (auto simp: opt_value_def opt_json_def leaves)

lemma opt_str [wire_simps]: "opt_value as_str (view (opt_json JString x)) = Some x"
  using opt_view [of x as_str JString id] by (simp add: option.map_id leaves)

lemma word_view [wire_simps]: "word_of (view (u64_json x)) = Some x"
  by (simp add: u64_json_def word_of_def leaves)

lemma opt_word [wire_simps]: "opt_value word_of (view (opt_json u64_json x)) = Some x"
  using opt_view [of x word_of u64_json id] by (simp add: option.map_id word_view) (simp add: u64_json_def leaves)

lemma strs_view [wire_simps]: "list_of as_str (view (strs_json xs)) = Some xs"
  using list_view [of xs as_str JString id] by (simp add: strs_json_def leaves)

lemma optional_view [wire_simps]:
  "opt_value f (view (opt_json id x)) = Some x" if "\<And>v. x = Some v \<Longrightarrow> f (view v) = Some v \<and> view v \<noteq> JNull"
  using opt_view [of x f id id] that by (simp add: option.map_id)

lemma opt_value_str [wire_simps]: "opt_value as_str (JString s) = Some (Some s)"
  by (simp add: opt_value_def)

lemmas field_simps = req_def opt_def dflt_def

lemma retry_view [wire_simps]: "retry_of (view (retry_doc r)) = Some r"
  unfolding retry_of_def retry_doc_def by (rule struct_view) (simp_all add: field_simps wire_simps leaves)

lemma opt_retry [wire_simps]: "opt_value retry_of (view (opt_json retry_doc x)) = Some x"
  using opt_view [of x retry_of retry_doc id]
  by (simp add: option.map_id retry_view) (simp add: retry_doc_def object_not_null)

lemma output_view [wire_simps]: "output_of (view (output_doc x)) = Some x"
  unfolding output_of_def output_doc_def by (rule struct_view) (simp_all add: field_simps wire_simps leaves)

lemma output_ref_view [wire_simps]: "output_ref_of (view (output_ref_doc x)) = Some x"
  unfolding output_ref_of_def output_ref_doc_def by (rule struct_view) (simp_all add: field_simps wire_simps leaves)

lemma kind_view [wire_simps]: "variant_of input_kind_names (JString (show_input_kind k)) = Some k"
  by (cases k) (simp_all add: variant_of_def input_kind_names_def)

lemma status_view [wire_simps]: "variant_of plan_status_names (JString (show_plan_status s)) = Some s"
  by (cases s) (simp_all add: variant_of_def plan_status_names_def)

lemma default_view:
  "wf_input i \<Longrightarrow> opt_value (Some \<circ> canon) (view (opt_json id (in_default i))) = Some (in_default i)"
proof (rule optional_view)
  fix v assume "wf_input i" "in_default i = Some v"
  then have v: "canon v = v" "v \<noteq> JNull" by (auto simp: wf_input_def canon_wf)
  have "view v \<noteq> JNull"
  proof
    assume "view v = JNull"
    then have "canon (view v) = JNull" by simp
    with v show False by (simp add: canon_view)
  qed
  with v show "(Some \<circ> canon) (view v) = Some v \<and> view v \<noteq> JNull" by (simp add: canon_view)
qed

lemma input_view: "wf_input i \<Longrightarrow> input_of (view (input_doc i)) = Some i"
  unfolding input_of_def input_doc_def by (rule struct_view) (simp_all add: field_simps wire_simps leaves default_view)

lemma metadata_view [wire_simps]:
  "times_roundtrip w \<Longrightarrow> metadata_of w (view (metadata_doc w m)) = Some m"
  unfolding metadata_of_def metadata_doc_def
  by (cases "m_solution_design m"; rule struct_view) (simp_all add: field_simps wire_simps leaves time_of_def times_roundtrip_def)

fun arrange_config :: "step_config \<Rightarrow> step_config" where
  "arrange_config (ToolCall c) = ToolCall (c\<lparr>tc_arguments := entries (tc_arguments c)\<rparr>)"
| "arrange_config (CodeCall c) = CodeCall (c\<lparr>cc_env := strings (cc_env c)\<rparr>)"
| "arrange_config c = c"

lemma temperature_view: "wi_f32 w n = n \<Longrightarrow> float_of w (JNumber n) = Some n"
  by (simp add: float_of_def)

lemma variant_view:
  assumes "distinct (map fst kvs')" and "map_of kvs' = (\<lambda>n. map_option view (map_of (config_doc_fields c) n))"
    and "wf_config w c"
  shows "variant_config_of w (config_step_type c) (JObject kvs') = Some (arrange_config c)"
proof -
  have s: "struct_of spec (JObject kvs') = Some kvs'" for spec
    using struct_of_object [OF assms(1)] .
  show ?thesis
  proof (cases c)
    case (FanOut x)
    with assms(2,3) s show ?thesis
      by (cases "fo_until x") (simp_all add: variant_config_of_def fan_out_of_def field_simps wire_simps leaves)
  next
    case (PromptCall x)
    with assms(3) have "opt_value (float_of w) (view (opt_json JNumber (pc_temperature x))) = Some (pc_temperature x)"
      using opt_view [of "pc_temperature x" "float_of w" JNumber id]
      by (auto simp: option.map_id temperature_view leaves split: option.splits)
    with PromptCall assms(2,3) s show ?thesis
      by (simp add: variant_config_of_def prompt_call_of_def field_simps wire_simps leaves)
  qed (use assms(2,3) s in \<open>simp_all add: variant_config_of_def tool_call_of_def code_call_of_def human_of_def
      fan_in_of_def condition_of_def agent_call_of_def field_simps wire_simps leaves entries_view strings_view\<close>)
qed

lemma type_not_field: "''type'' \<notin> fst ` set (config_doc_fields c)" "distinct (map fst (config_doc_fields c))"
  by (cases c; auto split: option.splits)+

lemma config_view:
  assumes "wf_config w c"
  shows "config_of w (view (config_doc c)) = Some (arrange_config c)"
proof -
  let ?t = "show_step_type (config_step_type c)"
  have "distinct (map fst ((''type'', JString ?t) # config_doc_fields c))"
    using type_not_field [of c] by simp
  from object [OF this] obtain kvs' where v: "view (config_doc c) = JObject kvs'" "distinct (map fst kvs')"
      "map_of kvs' = (\<lambda>n. map_option view (map_of ((''type'', JString ?t) # config_doc_fields c) n))"
    unfolding config_doc_def by blast
  let ?rest = "filter (\<lambda>(k, u). k \<noteq> ''type'') kvs'"
  have tag: "filter (\<lambda>(k, u). k = ''type'') kvs' = [(''type'', JString ?t)]"
    using v(3) by (intro filter_key [OF v(2)]) (simp add: leaves)
  have "map_of ?rest n = (if n = ''type'' then None else map_of kvs' n)" for n
    by (induction kvs') auto
  then have rest: "map_of ?rest = (\<lambda>n. map_option view (map_of (config_doc_fields c) n))"
    using v(3) type_not_field(1) [of c] by (auto simp: fun_eq_iff map_of_eq_None_iff)
  have "distinct (map fst ?rest)" using v(2) by (rule distinct_map_filter)
  from variant_view [OF this rest assms] have "variant_config_of w (config_step_type c) (JObject ?rest) = Some (arrange_config c)" .
  moreover have "map_of step_type_names ?t = Some (config_step_type c)"
    by (cases "config_step_type c") (simp_all add: step_type_names_def)
  ultimately show ?thesis by (simp add: config_of_def v(1) tag)
qed

definition arrange_step :: "plan_step \<Rightarrow> plan_step" where
  "arrange_step s = s\<lparr>s_config := arrange_config (s_config s)\<rparr>"

lemma step_view: "wf_config w (s_config s) \<Longrightarrow> step_of w (view (step_doc s)) = Some (arrange_step s)"
  unfolding step_of_def step_doc_def
  by (rule struct_view)
    (simp_all add: field_simps wire_simps leaves(1-4) config_view list_view [of _ output_of output_doc id] arrange_step_def)

definition arrange_plan :: "plan \<Rightarrow> plan" where
  "arrange_plan p = p\<lparr>p_config := entries (p_config p), p_steps := map arrange_step (p_steps p)\<rparr>"

lemma plan_view:
  assumes "wf_plan w p" and "times_roundtrip w"
  shows "plan_of w (view (plan_doc w p)) = Some (arrange_plan p)"
proof -
  have inputs: "list_of input_of (view (JArray (map input_doc (p_inputs p)))) = Some (p_inputs p)"
    using list_view [of "p_inputs p" input_of input_doc id] assms(1)
    by (simp add: wf_plan_def list_all_iff input_view)
  have steps: "list_of (step_of w) (view (JArray (map step_doc (p_steps p)))) = Some (map arrange_step (p_steps p))"
    using assms(1) by (intro list_view) (auto simp: wf_plan_def list_all_iff step_view)
  have outs: "list_of output_ref_of (view (JArray (map output_ref_doc (p_outputs p)))) = Some (p_outputs p)"
    using list_view [of "p_outputs p" output_ref_of output_ref_doc id] by (simp add: output_ref_view)
  show ?thesis
    unfolding plan_of_def plan_doc_def
    by (rule struct_view)
      (use assms in \<open>simp_all add: field_simps wire_simps leaves(1-4) inputs steps outs entries_view wf_plan_def arrange_plan_def\<close>)
qed

end

lemma those_pairs: "those (map (\<lambda>(k, v). map_option (Pair k) (Some (g v))) m) = Some (map (\<lambda>(k, v). (k, g v)) m)"
  by (induction m) auto

lemma map_entries_canon:
  assumes "wf_entries m"
  shows "map_entries (Some \<circ> canon) (JObject m) = Some m"
proof -
  have "map (\<lambda>(k, v). (k, canon v)) m = m"
    using assms by (auto simp: wf_entries_def list_all_iff canon_wf intro!: map_idI)
  moreover have "im_extend [] m = m" using im_extend_new [of "[]" m] assms by (simp add: wf_entries_def)
  ultimately show ?thesis using those_pairs [of canon m] by (simp add: comp_def)
qed

lemma map_entries_strings:
  assumes "distinct (im_keys e)"
  shows "map_entries as_str (JObject (map (\<lambda>(k, v). (k, JString v)) e)) = Some e"
proof -
  have "those (map (\<lambda>(k, v). map_option (Pair k) (as_str v)) (map (\<lambda>(k, v). (k, JString v)) e)) = Some e"
    by (induction e) auto
  then show ?thesis using im_extend_new [of "[]" e] assms by simp
qed

lemma obj_insert_map: "obj_insert k (g v) (map (\<lambda>(k, v). (k, g v)) m) = map (\<lambda>(k, v). (k, g v)) (obj_insert k v m)"
  by (induction k v m rule: obj_insert.induct) auto

lemma obj_of_map: "obj_of (map (\<lambda>(k, v). (k, g v)) m) = map (\<lambda>(k, v). (k, g v)) (obj_of m)"
proof -
  have "fold (\<lambda>(k, v). obj_insert k v) (map (\<lambda>(k, v). (k, g v)) m) (map (\<lambda>(k, v). (k, g v)) acc) =
      map (\<lambda>(k, v). (k, g v)) (fold (\<lambda>(k, v). obj_insert k v) m acc)" for acc
    by (induction m arbitrary: acc) (auto simp: obj_insert_map)
  from this [of "[]"] show ?thesis by (simp add: obj_of_def)
qed

lemma wf_entries_obj_of: "wf_entries m \<Longrightarrow> wf_entries (obj_of m)"
  using set_obj_of [of m] distinct_obj_of [of m] by (auto simp: wf_entries_def im_keys_def list_all_iff)

lemma canon_entries: "wf_entries m \<Longrightarrow> canon (JObject m) = JObject (obj_of m)"
proof -
  assume "wf_entries m"
  then have "map (\<lambda>(k, v). (k, canon v)) m = m"
    by (auto simp: wf_entries_def list_all_iff canon_wf intro!: map_idI)
  then show ?thesis by simp
qed

interpretation as_text: tree_view "\<lambda>v. v" "\<lambda>m. m" "\<lambda>e. e"
  by unfold_locales (auto simp: map_entries_canon str_map_doc_def map_entries_strings option.map_ident simp del: map_entries.simps)

interpretation as_value: tree_view canon obj_of obj_of
proof (unfold_locales, goal_cases)
  case (7 kvs)
  show ?case
  proof (intro exI conjI)
    show "canon (JObject kvs) = JObject (obj_of (map (\<lambda>(k, v). (k, canon v)) kvs))" by simp
    show "distinct (map fst (obj_of (map (\<lambda>(k, v). (k, canon v)) kvs)))" by (rule distinct_obj_of)
    have keys: "map fst (map (\<lambda>(k, v). (k, canon v)) kvs) = map fst kvs" by (induction kvs) auto
    have "map_of (map (\<lambda>(k, v). (k, canon v)) kvs) = (\<lambda>n. map_option canon (map_of kvs n))"
      by (rule ext) (induction kvs; auto)
    then show "map_of (obj_of (map (\<lambda>(k, v). (k, canon v)) kvs)) = (\<lambda>n. map_option canon (map_of kvs n))"
      by (simp only: map_of_obj_of [of "map (\<lambda>(k, v). (k, canon v)) kvs", unfolded keys, OF 7])
  qed
next
  case (8 m)
  then show ?case by (simp only: canon_entries map_entries_canon [OF wf_entries_obj_of])
next
  case (9 e)
  have "canon (str_map_doc e) = JObject (map (\<lambda>(k, v). (k, JString v)) (obj_of e))"
    by (simp add: str_map_doc_def comp_def split_beta obj_of_map [of JString, unfolded split_beta])
  moreover have "distinct (im_keys (obj_of e))" using distinct_obj_of [of e] by (simp add: im_keys_def)
  ultimately show ?case by (simp only: map_entries_strings)
qed auto

section \<open>Equality of plans\<close>

text \<open>
  The derived \<^verbatim>\<open>PartialEq\<close> compares the maps of a plan by their entries, whatever
  their order.
\<close>

definition same_map :: "'v imap \<Rightarrow> 'v imap \<Rightarrow> bool" where
  "same_map m m' \<longleftrightarrow> length m = length m' \<and> list_all (\<lambda>(k, v). map_of m' k = Some v) m"

fun same_config :: "step_config \<Rightarrow> step_config \<Rightarrow> bool" where
  "same_config (ToolCall c) (ToolCall d) \<longleftrightarrow>
     tc_tool c = tc_tool d \<and> same_map (tc_arguments c) (tc_arguments d)"
| "same_config (CodeCall c) (CodeCall d) \<longleftrightarrow>
     c\<lparr>cc_env := []\<rparr> = d\<lparr>cc_env := []\<rparr> \<and> same_map (cc_env c) (cc_env d)"
| "same_config c d \<longleftrightarrow> c = d"

definition same_step :: "plan_step \<Rightarrow> plan_step \<Rightarrow> bool" where
  "same_step s t \<longleftrightarrow> s\<lparr>s_config := s_config t\<rparr> = t \<and> same_config (s_config s) (s_config t)"

definition same_plan :: "plan \<Rightarrow> plan \<Rightarrow> bool" where
  "same_plan p q \<longleftrightarrow> p\<lparr>p_config := p_config q, p_steps := p_steps q\<rparr> = q \<and>
     same_map (p_config p) (p_config q) \<and> list_all2 same_step (p_steps p) (p_steps q)"

lemma same_map_refl: "distinct (im_keys m) \<Longrightarrow> same_map m m"
  by (auto simp: same_map_def list_all_iff im_keys_def)

lemma length_obj_of: "distinct (map fst m) \<Longrightarrow> length (obj_of m) = length m"
proof -
  assume d: "distinct (map fst m)"
  have "fst ` set (obj_of m) = fst ` set m" by (metis d dom_map_of_conv_image_fst map_of_obj_of)
  then show ?thesis
    using distinct_card [OF d] distinct_card [OF distinct_obj_of [of m]] by simp
qed

lemma same_map_obj_of: "distinct (im_keys m) \<Longrightarrow> same_map (obj_of m) m"
  using set_obj_of [of m] by (auto simp: same_map_def im_keys_def list_all_iff length_obj_of)

lemma same_config_arranged: "wf_config w c \<Longrightarrow> same_config (as_value.arrange_config c) c"
  by (cases c) (auto simp: same_map_obj_of wf_entries_def)

lemma same_plan_arranged: "wf_plan w p \<Longrightarrow> same_plan (as_value.arrange_plan p) p"
  by (auto simp: same_plan_def as_value.arrange_plan_def as_value.arrange_step_def same_step_def wf_plan_def list_all_iff
      wf_entries_def same_map_obj_of list_all2_conv_all_nth intro: same_config_arranged)

lemma text_config [simp]: "as_text.arrange_config c = c"
  by (cases c) simp_all

lemma text_plan [simp]: "as_text.arrange_plan p = p"
  by (simp add: as_text.arrange_plan_def as_text.arrange_step_def map_idI)

lemma plan_of_text: "wf_plan w p \<Longrightarrow> times_roundtrip w \<Longrightarrow> plan_of w (plan_doc w p) = Some p"
  using as_text.plan_view [of w p] by simp

section \<open>Properties\<close>

text \<open>
  The value form of a configuration is the one \<^verbatim>\<open>to_value\<close> gives to the preflight check.
\<close>

lemma canon_config_doc:
  assumes "wf_config w c"
  shows "canon (config_doc c) = config_to_json c"
proof -
  have strs: "canon (strs_json xs) = strs_json xs" for xs
    by (simp add: strs_json_def)
  have opts: "canon (opt_json JString x) = opt_json JString x" "canon (opt_json u64_json n) = opt_json u64_json n"
      "canon (opt_json JNumber t) = opt_json JNumber t" for x t and n :: "'b::len word option"
    by (simp_all add: opt_json_def u64_json_def split: option.split)
  have "map (\<lambda>(k, v). (k, canon v)) (config_doc_fields c) = config_fields c"
  proof (cases c)
    case (ToolCall x)
    with assms canon_entries [of "tc_arguments x"] show ?thesis by simp
  next
    case (CodeCall x)
    have m: "map (\<lambda>(k, v). (k, canon v)) (map (\<lambda>(k, v). (k, JString v)) e) = map (\<lambda>(k, v). (k, JString v)) e" for e
      by (induction e) auto
    then have "canon (str_map_doc (cc_env x)) = JObject (obj_of (map (\<lambda>(k, v). (k, JString v)) (cc_env x)))"
      by (simp only: str_map_doc_def canon.simps m)
    with CodeCall show ?thesis by (simp add: strs opts)
  next
    case (FanOut x)
    then show ?thesis by (simp add: strs split: option.split)
  qed (simp_all add: strs opts)
  then show ?thesis by (simp add: config_doc_def config_to_json_def)
qed


text \<open>
  C25: plans survive their JSON form.  A plan is read back from its file exactly, with its maps in
  order; through a \<^verbatim>\<open>serde_json::Value\<close> it is read back equal, its maps sorted.
\<close>

theorem plan_json_roundtrip:
  assumes "wf_plan w p" and "times_roundtrip w"
  shows "plan_of w (plan_doc w p) = Some p \<and> (\<exists>q. plan_of w (canon (plan_doc w p)) = Some q \<and> same_plan q p)"
  using plan_of_text [OF assms] as_value.plan_view [OF assms] same_plan_arranged [OF assms(1)] by blast

text \<open>A wire whose timestamps are written in unary, for the witnesses.\<close>

definition demo_wire :: wire where
  "demo_wire = \<lparr>wi_show_time = \<lambda>t. (if 0 \<le> t then replicate (nat t) (CHR ''p'') else replicate (nat (- t)) (CHR ''m'')),
     wi_parse_time = \<lambda>s. Some (if hd (s @ ''p'') = CHR ''p'' then int (length s) else - int (length s)),
     wi_f32 = \<lambda>n. n, wi_error = \<lambda>what v. ''invalid '' @ what\<rparr>"

lemma demo_times: "times_roundtrip demo_wire"
proof -
  have "wi_parse_time demo_wire (wi_show_time demo_wire t) = Some t" for t
    by (cases "nat t"; cases "nat (- t)") (auto simp: demo_wire_def)
  then show ?thesis by (simp add: times_roundtrip_def)
qed

lemma demo_wf: "wf_plan demo_wire demo_plan"
  by (simp add: wf_plan_def demo_plan_def demo_inputs_def wf_input_def wf_entries_def im_keys_def wf_number_def)

lemma plan_json_roundtrip_witness:
  "plan_of demo_wire (plan_doc demo_wire demo_plan) = Some demo_plan"
  using plan_json_roundtrip [OF demo_wf demo_times] by blast

end
