(* ===== verification/Patch.thy ===== *)
theory Patch
  imports PlanWire Dag
begin

text \<open>
  Patches: the proposals of \<^verbatim>\<open>storage/patches.rs\<close> and their application in
  \<^verbatim>\<open>repair/patch.rs\<close>.  The steps and the plan are edited through their JSON form at a
  JSON pointer (RFC 6901), so that an edit is a path into a tree and reading the tree back decides
  whether the result is still a step or a plan.
\<close>

section \<open>Patches\<close>

datatype patch_operation =
    Batch "patch_operation list"
  | ReplaceStep plan_step
  | UpdateStepConfig step_config
  | InsertBefore plan_step
  | InsertAfter plan_step
  | SetStepField string string json
  | RemoveStepField string string
  | SetPlanField string json
  | RemovePlanField string

datatype patch_status = Pending | Approved | Rejected | Applied

fun show_patch_status :: "patch_status \<Rightarrow> string" where
  "show_patch_status Pending = ''pending''"
| "show_patch_status Approved = ''approved''"
| "show_patch_status Rejected = ''rejected''"
| "show_patch_status Applied = ''applied''"

record patch =
  pt_id :: string
  pt_plan_id :: string
  pt_plan_version :: "32 word"
  pt_run_id :: string
  pt_failing_step_id :: string
  pt_operation :: patch_operation
  pt_rationale :: string
  pt_proposed_at :: instant
  pt_status :: patch_status
  pt_approved_at :: "instant option"
  pt_rejected_at :: "instant option"
  pt_rejection_reason :: "string option"

definition patch_new :: "string \<Rightarrow> instant \<Rightarrow> string \<Rightarrow> 32 word \<Rightarrow> string \<Rightarrow> string \<Rightarrow> patch_operation \<Rightarrow> string \<Rightarrow> patch" where
  "patch_new uuid now plan_id plan_version run_id failing_step_id operation rationale =
     \<lparr>pt_id = uuid, pt_plan_id = plan_id, pt_plan_version = plan_version, pt_run_id = run_id,
      pt_failing_step_id = failing_step_id, pt_operation = operation, pt_rationale = rationale,
      pt_proposed_at = now, pt_status = Pending, pt_approved_at = None, pt_rejected_at = None,
      pt_rejection_reason = None\<rparr>"

section \<open>Errors\<close>

text \<open>A source error is kept as its text.  Writing a plan as a value never fails.\<close>

datatype patch_error =
    PA_EmptyBatch
  | PA_StepNotFound string
  | PA_Serialization string string
  | PA_InvalidJsonPointer string
  | PA_PlanRootReplacement
  | PA_ProtectedPlanMetadata string
  | PA_InvalidStep string string
  | PA_InvalidPlan string

fun show_patch_error :: "patch_error \<Rightarrow> string" where
  "show_patch_error PA_EmptyBatch = ''batch patch must contain at least one operation''"
| "show_patch_error (PA_StepNotFound i) = fmt ''step {} not found'' [i]"
| "show_patch_error (PA_Serialization context source) = fmt ''{}: {}'' [context, source]"
| "show_patch_error (PA_InvalidJsonPointer m) = m"
| "show_patch_error PA_PlanRootReplacement = ''SetPlanField cannot replace the JSON root''"
| "show_patch_error (PA_ProtectedPlanMetadata p) =
     fmt ''plan metadata is lifecycle-owned and cannot be patched at '{}{}'' [p, squote]"
| "show_patch_error (PA_InvalidStep i source) = fmt ''step '{}' is invalid after patch: {}'' [i, source]"
| "show_patch_error (PA_InvalidPlan source) = fmt ''plan is invalid after patch: {}'' [source]"

section \<open>JSON pointers\<close>

definition decode_pointer_token :: "string \<Rightarrow> string" where
  "decode_pointer_token t = replace_all ''~0'' ''~'' (replace_all ''~1'' ''/'' t)"

text \<open>\<^verbatim>\<open>Value::pointer_mut\<close>: the tokens of a pointer, and the element a token names.\<close>

definition pointer_tokens :: "string \<Rightarrow> string list option" where
  "pointer_tokens p =
     (case p of [] \<Rightarrow> Some []
      | c # cs \<Rightarrow> if c = CHR ''/'' then Some (map decode_pointer_token (split_all (CHR ''/'') cs)) else None)"

definition USIZE :: nat where
  "USIZE = 2 ^ 64"

definition array_index :: "string \<Rightarrow> nat option" where
  "array_index t =
     (if starts_with t ''+'' \<or> starts_with t ''0'' \<and> length t \<noteq> 1 then None else parse_uint USIZE t)"

text \<open>
  What \<open>f\<close> makes of the value at a path, put in its place; \<open>missing\<close> when the path does not
  exist.
\<close>

fun at_path :: "string list \<Rightarrow> (json \<Rightarrow> 'e + json) \<Rightarrow> 'e \<Rightarrow> json \<Rightarrow> 'e + json" where
  "at_path [] f missing v = f v"
| "at_path (t # ts) f missing (JObject kvs) =
     (case map_of kvs t of None \<Rightarrow> Inl missing
      | Some u \<Rightarrow> try_bind (at_path ts f missing u) (\<lambda>u'. Inr (JObject (obj_insert t u' kvs))))"
| "at_path (t # ts) f missing (JArray vs) =
     (case array_index t of None \<Rightarrow> Inl missing
      | Some i \<Rightarrow>
          if i < length vs then try_bind (at_path ts f missing (vs ! i)) (\<lambda>u'. Inr (JArray (vs[i := u'])))
          else Inl missing)"
| "at_path (t # ts) f missing v = Inl missing"

definition at_pointer :: "string \<Rightarrow> (json \<Rightarrow> 'e + json) \<Rightarrow> 'e \<Rightarrow> json \<Rightarrow> 'e + json" where
  "at_pointer p f missing v =
     (case pointer_tokens p of None \<Rightarrow> Inl missing | Some ts \<Rightarrow> at_path ts f missing v)"

definition set_json_pointer :: "json \<Rightarrow> string \<Rightarrow> json \<Rightarrow> patch_error + json" where
  "set_json_pointer root pointer v =
     (if pointer = [] then Inr v
      else at_pointer pointer (\<lambda>u. Inr v)
        (PA_InvalidJsonPointer (fmt ''JSON pointer '{}' does not exist'' [pointer])) root)"

definition split_pointer :: "string \<Rightarrow> patch_error + string \<times> string" where
  "split_pointer pointer =
     (if pointer = [] then Inl (PA_InvalidJsonPointer ''cannot remove the JSON root'')
      else if \<not> starts_with pointer ''/'' then
        Inl (PA_InvalidJsonPointer (fmt ''JSON pointer '{}' must be empty or start with '/{}'' [pointer, squote]))
      else (case rsplit_once (CHR ''/'') pointer of
          None \<Rightarrow> Inl (PA_InvalidJsonPointer (fmt ''invalid JSON pointer '{}{}'' [pointer, squote]))
        | Some (parent, raw) \<Rightarrow> Inr (parent, decode_pointer_token raw)))"

definition remove_member :: "string \<Rightarrow> string \<Rightarrow> string \<Rightarrow> json \<Rightarrow> patch_error + json" where
  "remove_member pointer parent_pointer token parent =
     (let missing = PA_InvalidJsonPointer (fmt ''JSON pointer '{}' does not exist'' [pointer]) in
      case parent of
        JObject kvs \<Rightarrow> if map_of kvs token = None then Inl missing else Inr (JObject (im_remove token kvs))
      | JArray items \<Rightarrow>
          (case parse_uint USIZE token of
             None \<Rightarrow> Inl (PA_InvalidJsonPointer (fmt ''JSON pointer '{}' does not address an array index'' [pointer]))
           | Some i \<Rightarrow> if length items \<le> i then Inl missing else Inr (JArray (take i items @ drop (Suc i) items)))
      | _ \<Rightarrow> Inl (PA_InvalidJsonPointer
          (fmt ''JSON pointer parent '{}' is not an object or array'' [parent_pointer])))"

definition remove_json_pointer :: "json \<Rightarrow> string \<Rightarrow> patch_error + json" where
  "remove_json_pointer root pointer =
     try_bind (split_pointer pointer) (\<lambda>(parent_pointer, token).
       if parent_pointer = [] then remove_member pointer parent_pointer token root
       else at_pointer parent_pointer (remove_member pointer parent_pointer token)
         (PA_InvalidJsonPointer (fmt ''JSON pointer parent '{}' does not exist'' [parent_pointer])) root)"

definition validate_plan_pointer :: "string \<Rightarrow> bool \<Rightarrow> patch_error + unit" where
  "validate_plan_pointer pointer reject_root_replacement =
     (if reject_root_replacement \<and> pointer = [] then Inl PA_PlanRootReplacement
      else if pointer = ''/metadata'' \<or> starts_with pointer ''/metadata/'' then
        Inl (PA_ProtectedPlanMetadata pointer)
      else Inr ())"

section \<open>Applying an operation\<close>

fun position :: "('a \<Rightarrow> bool) \<Rightarrow> 'a list \<Rightarrow> nat option" where
  "position P [] = None"
| "position P (x # xs) = (if P x then Some 0 else map_option Suc (position P xs))"

definition step_position :: "plan \<Rightarrow> string \<Rightarrow> patch_error + nat" where
  "step_position p i = ok_or (PA_StepNotFound i) (position (\<lambda>s. s_id s = i) (p_steps p))"

definition step_mut :: "plan \<Rightarrow> string \<Rightarrow> (plan_step \<Rightarrow> patch_error + plan_step) \<Rightarrow> patch_error + plan" where
  "step_mut p i f =
     try_bind (step_position p i) (\<lambda>n.
     try_bind (f (p_steps p ! n)) (\<lambda>s. Inr (p\<lparr>p_steps := (p_steps p)[n := s]\<rparr>)))"

definition insert_at :: "nat \<Rightarrow> 'a \<Rightarrow> 'a list \<Rightarrow> 'a list" where
  "insert_at n x xs = take n xs @ x # drop n xs"

definition edit_step :: "wire \<Rightarrow> string \<Rightarrow> (json \<Rightarrow> patch_error + json) \<Rightarrow> plan_step \<Rightarrow> patch_error + plan_step" where
  "edit_step w i f s =
     try_bind (f (canon (step_doc s))) (\<lambda>v.
       ok_or (PA_InvalidStep i (wi_error w ''step'' v)) (step_of w v))"

definition edit_plan :: "wire \<Rightarrow> (json \<Rightarrow> patch_error + json) \<Rightarrow> plan \<Rightarrow> patch_error + plan" where
  "edit_plan w f p =
     try_bind (f (canon (plan_doc w p))) (\<lambda>v.
       ok_or (PA_InvalidPlan (wi_error w ''plan'' v)) (plan_of w v))"

fun apply_single_operation :: "wire \<Rightarrow> string \<Rightarrow> patch_operation \<Rightarrow> plan \<Rightarrow> patch_error + plan"
  and apply_operations :: "wire \<Rightarrow> string \<Rightarrow> patch_operation list \<Rightarrow> plan \<Rightarrow> patch_error + plan" where
  "apply_single_operation w failing (Batch ops) p =
     (if ops = [] then Inl PA_EmptyBatch else apply_operations w failing ops p)"
| "apply_single_operation w failing (ReplaceStep s) p =
     try_bind (step_position p failing) (\<lambda>n. Inr (p\<lparr>p_steps := (p_steps p)[n := s]\<rparr>))"
| "apply_single_operation w failing (UpdateStepConfig c) p =
     step_mut p failing (\<lambda>s. Inr (s\<lparr>s_config := c\<rparr>))"
| "apply_single_operation w failing (InsertBefore s) p =
     try_bind (step_position p failing) (\<lambda>n. Inr (p\<lparr>p_steps := insert_at n s (p_steps p)\<rparr>))"
| "apply_single_operation w failing (InsertAfter s) p =
     try_bind (step_position p failing) (\<lambda>n. Inr (p\<lparr>p_steps := insert_at (n + 1) s (p_steps p)\<rparr>))"
| "apply_single_operation w failing (SetStepField i pointer v) p =
     step_mut p i (edit_step w i (\<lambda>root. set_json_pointer root pointer v))"
| "apply_single_operation w failing (RemoveStepField i pointer) p =
     step_mut p i (edit_step w i (\<lambda>root. remove_json_pointer root pointer))"
| "apply_single_operation w failing (SetPlanField pointer v) p =
     try_bind (validate_plan_pointer pointer True) (\<lambda>u. edit_plan w (\<lambda>root. set_json_pointer root pointer v) p)"
| "apply_single_operation w failing (RemovePlanField pointer) p =
     try_bind (validate_plan_pointer pointer False) (\<lambda>u. edit_plan w (\<lambda>root. remove_json_pointer root pointer) p)"
| "apply_operations w failing [] p = Inr p"
| "apply_operations w failing (op # ops) p =
     try_bind (apply_single_operation w failing op p) (apply_operations w failing ops)"

definition apply_operation :: "wire \<Rightarrow> plan \<Rightarrow> patch \<Rightarrow> patch_error + plan" where
  "apply_operation w p pt = apply_single_operation w (pt_failing_step_id pt) (pt_operation pt) p"

section \<open>Pointers stay out of the metadata\<close>

lemma decode_plain:
  assumes "CHR ''~'' \<notin> set n" and "CHR ''/'' \<notin> set n" and "decode_pointer_token t = n"
  shows "t = n"
proof -
  have "replace_all ''~1'' ''/'' t = n"
    using replace_all_unchanged [of "CHR ''~''" "''~0''" "replace_all ''~1'' ''/'' t"] assms
    by (simp add: decode_pointer_token_def)
  with replace_all_unchanged [of "CHR ''/''" "''~1''" t] assms(2) show ?thesis by simp
qed

lemma first_token:
  assumes "pointer_tokens p = Some (t # ts)" and "p \<noteq> ''/metadata''" and "\<not> starts_with p ''/metadata/''"
  shows "t \<noteq> ''metadata''"
proof
  assume t: "t = ''metadata''"
  from assms(1) obtain cs where p: "p = CHR ''/'' # cs" and ts: "map decode_pointer_token (split_all (CHR ''/'') cs) = t # ts"
    by (auto simp: pointer_tokens_def split: list.splits if_splits)
  then obtain raw raws where raw: "split_all (CHR ''/'') cs = raw # raws" "decode_pointer_token raw = t" by auto
  have "raw = ''metadata''" using decode_plain [of "''metadata''" raw] raw(2) t by simp
  with split_all_hd [OF raw(1)] p have "p = ''/metadata'' \<or> (\<exists>b. p = ''/metadata/'' @ b)" by auto
  with assms(2,3) show False by (auto simp: starts_with_iff)
qed

definition metadata_field :: "json \<Rightarrow> json option" where
  "metadata_field v = (case v of JObject kvs \<Rightarrow> if distinct (map fst kvs) then map_of kvs ''metadata'' else None | _ \<Rightarrow> None)"

lemma at_path_metadata:
  assumes "at_path (t # ts) f missing v = Inr v'" and "t \<noteq> ''metadata''" and "metadata_field v = Some m"
    and "\<And>kvs. v = JObject kvs \<Longrightarrow> sorted_wrt (<) (map fst kvs)"
  shows "metadata_field v' = Some m"
proof -
  from assms(3) obtain kvs where v: "v = JObject kvs" "distinct (map fst kvs)" "map_of kvs ''metadata'' = Some m"
    by (cases v) (auto simp: metadata_field_def split: if_splits)
  from assms(1) obtain u where "v' = JObject (obj_insert t u kvs)"
    by (auto simp: v(1) try_bind_Inr split: option.splits)
  moreover have "distinct (map fst (obj_insert t u kvs))"
    using sorted_obj_insert [OF assms(4) [OF v(1)], of t u] by (rule strict_sorted_distinct)
  ultimately show ?thesis
    using map_of_obj_insert [OF assms(4) [OF v(1)], of t u "''metadata''"] assms(2) v(3)
    by (simp add: metadata_field_def)
qed

lemma at_pointer_metadata:
  assumes "at_pointer p f missing v = Inr v'" and "p \<noteq> []" and "p \<noteq> ''/metadata''" and "\<not> starts_with p ''/metadata/''"
    and "metadata_field v = Some m" and "\<And>kvs. v = JObject kvs \<Longrightarrow> sorted_wrt (<) (map fst kvs)"
  shows "metadata_field v' = Some m"
proof -
  from assms(1) obtain ts where ts: "pointer_tokens p = Some ts" "at_path ts f missing v = Inr v'"
    by (auto simp: at_pointer_def split: option.splits)
  with assms(2) obtain t us where "ts = t # us"
    by (cases ts) (auto simp: pointer_tokens_def split: list.splits if_splits)
  with ts first_token [of p t us] at_path_metadata [of t us f missing v v' m] assms(3-6) show ?thesis by auto
qed

lemma set_metadata:
  assumes "set_json_pointer v pointer x = Inr v'" and "validate_plan_pointer pointer True = Inr u"
    and "metadata_field v = Some m" and "\<And>kvs. v = JObject kvs \<Longrightarrow> sorted_wrt (<) (map fst kvs)"
  shows "metadata_field v' = Some m"
  using assms at_pointer_metadata [of pointer "\<lambda>u. Inr x" _ v v' m]
  by (auto simp: set_json_pointer_def validate_plan_pointer_def split: if_splits)

lemma remove_json_pointer_cases:
  assumes "remove_json_pointer v pointer = Inr v'"
  obtains parent raw missing where "pointer = parent @ CHR ''/'' # raw" "CHR ''/'' \<notin> set raw"
    "parent = [] \<and> remove_member pointer parent (decode_pointer_token raw) v = Inr v' \<or>
     parent \<noteq> [] \<and> at_pointer parent (remove_member pointer parent (decode_pointer_token raw)) missing v = Inr v'"
proof -
  from assms obtain x where x: "split_pointer pointer = Inr x"
      and y: "(case x of (parent, token) \<Rightarrow> if parent = [] then remove_member pointer parent token v
        else at_pointer parent (remove_member pointer parent token)
          (PA_InvalidJsonPointer (fmt ''JSON pointer parent '{}' does not exist'' [parent])) v) = Inr v'"
    unfolding remove_json_pointer_def try_bind_Inr by blast
  obtain parent token where xp: "x = (parent, token)" by (cases x)
  note sp = x [unfolded xp] and step = y [unfolded xp prod.case]
  from sp obtain raw where "rsplit_once (CHR ''/'') pointer = Some (parent, raw)" "token = decode_pointer_token raw"
    unfolding split_pointer_def by (auto split: if_splits option.splits)
  with step that [of parent raw] show thesis
    by (cases "parent = []") (auto simp: rsplit_once_Some)
qed

lemma distinct_im_remove: "distinct (map fst m) \<Longrightarrow> distinct (map fst (im_remove k m))"
  by (simp add: im_remove_def distinct_map_filter)

lemma remove_member_metadata:
  assumes "remove_member pointer parent token v = Inr v'" and "token \<noteq> ''metadata''" and "metadata_field v = Some m"
  shows "metadata_field v' = Some m"
proof -
  from assms(3) obtain kvs where v: "v = JObject kvs" "distinct (map fst kvs)" "map_of kvs ''metadata'' = Some m"
    by (cases v) (auto simp: metadata_field_def split: if_splits)
  with assms(1) have "v' = JObject (im_remove token kvs)"
    by (simp add: remove_member_def split: if_splits)
  with v assms(2) im_get_remove [of token kvs "''metadata''"] show ?thesis
    by (simp add: metadata_field_def distinct_im_remove im_get_def)
qed

lemma remove_metadata:
  assumes "remove_json_pointer v pointer = Inr v'" and "validate_plan_pointer pointer False = Inr u"
    and "metadata_field v = Some m" and "\<And>kvs. v = JObject kvs \<Longrightarrow> sorted_wrt (<) (map fst kvs)"
  shows "metadata_field v' = Some m"
proof -
  from assms(2) have p: "pointer \<noteq> ''/metadata''" "\<not> starts_with pointer ''/metadata/''"
    by (auto simp: validate_plan_pointer_def split: if_splits)
  from assms(1) obtain parent raw missing where cut: "pointer = parent @ CHR ''/'' # raw" "CHR ''/'' \<notin> set raw"
    and step: "parent = [] \<and> remove_member pointer parent (decode_pointer_token raw) v = Inr v' \<or>
     parent \<noteq> [] \<and> at_pointer parent (remove_member pointer parent (decode_pointer_token raw)) missing v = Inr v'"
    by (rule remove_json_pointer_cases)
  show ?thesis
  proof (cases "parent = []")
    case True
    have "decode_pointer_token raw \<noteq> ''metadata''"
      using decode_plain [of "''metadata''" raw] cut(1) p(1) True by auto
    with step True remove_member_metadata [OF _ _ assms(3)] show ?thesis by blast
  next
    case False
    have "parent \<noteq> ''/metadata''" using p(2) cut(1) by (auto simp: starts_with_iff)
    moreover have "\<not> starts_with parent ''/metadata/''" using p(2) cut(1) by (auto simp: starts_with_iff)
    moreover have "at_pointer parent (remove_member pointer parent (decode_pointer_token raw)) missing v = Inr v'"
      using step False by blast
    ultimately show ?thesis using at_pointer_metadata [of parent "remove_member pointer parent (decode_pointer_token raw)" missing v v' m]
        False assms(3,4) by blast
  qed
qed

lemma edit_plan_metadata:
  assumes "edit_plan w f p = Inr p'" and "times_roundtrip w"
    and "\<And>v v' m. f v = Inr v' \<Longrightarrow> metadata_field v = Some m \<Longrightarrow>
      (\<And>kvs. v = JObject kvs \<Longrightarrow> sorted_wrt (<) (map fst kvs)) \<Longrightarrow> metadata_field v' = Some m"
  shows "p_metadata p' = p_metadata p"
proof -
  let ?v = "canon (plan_doc w p)"
  from assms(1) obtain v' where v': "f ?v = Inr v'" "plan_of w v' = Some p'"
    by (auto simp: edit_plan_def try_bind_Inr)
  have "metadata_field ?v = Some (canon (metadata_doc w (p_metadata p)))"
    using distinct_obj_of by (simp add: plan_doc_def metadata_field_def map_of_obj_of)
  moreover have "sorted_wrt (<) (map fst kvs)" if "?v = JObject kvs" for kvs
    using that sorted_obj_of by (auto simp: plan_doc_def)
  ultimately have "metadata_field v' = Some (canon (metadata_doc w (p_metadata p)))"
    using assms(3) [OF v'(1)] by blast
  then obtain kvs where k: "v' = JObject kvs" "map_of kvs ''metadata'' = Some (canon (metadata_doc w (p_metadata p)))"
    by (cases v') (auto simp: metadata_field_def split: if_splits)
  from v'(2) have "req (metadata_of w) kvs ''metadata'' = Some (p_metadata p')"
    by (auto simp: plan_of_def k(1) struct_of_def bind_eq_Some_conv split: if_splits)
  with k(2) as_value.metadata_view [OF assms(2), of "p_metadata p"] show ?thesis
    by (simp add: req_def)
qed

lemma step_ops_metadata:
  "step_mut p i g = Inr p' \<Longrightarrow> p_metadata p' = p_metadata p"
  by (auto simp: step_mut_def try_bind_Inr)

lemma operations_keep_metadata:
  shows "apply_single_operation w failing op p = Inr p' \<Longrightarrow> times_roundtrip w \<Longrightarrow> p_metadata p' = p_metadata p"
    and "apply_operations w failing ops p = Inr p' \<Longrightarrow> times_roundtrip w \<Longrightarrow> p_metadata p' = p_metadata p"
proof (induction w failing op p and w failing ops p arbitrary: p' and p' rule: apply_single_operation_apply_operations.induct)
  case (8 w failing pointer v p)
  then have ok: "validate_plan_pointer pointer True = Inr ()"
      and e: "edit_plan w (\<lambda>root. set_json_pointer root pointer v) p = Inr p'"
    by (auto simp: try_bind_Inr)
  show ?case
    by (rule edit_plan_metadata [OF e \<open>times_roundtrip w\<close>]) (rule set_metadata [OF _ ok])
next
  case (9 w failing pointer p)
  then have ok: "validate_plan_pointer pointer False = Inr ()"
      and e: "edit_plan w (\<lambda>root. remove_json_pointer root pointer) p = Inr p'"
    by (auto simp: try_bind_Inr)
  show ?case
    by (rule edit_plan_metadata [OF e \<open>times_roundtrip w\<close>]) (rule remove_metadata [OF _ ok])
next
  case (3 w failing c p)
  then show ?case by (simp add: step_ops_metadata [of p failing])
next
  case (6 w failing i pointer v p)
  then show ?case by (simp add: step_ops_metadata [of p i])
next
  case (7 w failing i pointer p)
  then show ?case by (simp add: step_ops_metadata [of p i])
next
  case (11 w failing op ops p)
  from "11.prems"(1) obtain q where q: "apply_single_operation w failing op p = Inr q" "apply_operations w failing ops q = Inr p'"
    by (auto simp: try_bind_Inr)
  show ?case
    using "11.IH"(1) [OF q(1) "11.prems"(2)] "11.IH"(2) [OF q(1) q(2) "11.prems"(2)] by simp
qed (auto simp: try_bind_Inr split: if_splits)

section \<open>The JSON form of a patch\<close>

fun operation_doc :: "patch_operation \<Rightarrow> json" where
  "operation_doc (Batch ops) = JObject [(''op'', JString ''batch''), (''operations'', JArray (map operation_doc ops))]"
| "operation_doc (ReplaceStep s) = JObject [(''op'', JString ''replace_step''), (''new_step'', step_doc s)]"
| "operation_doc (UpdateStepConfig c) =
     JObject [(''op'', JString ''update_step_config''), (''new_config'', config_doc c)]"
| "operation_doc (InsertBefore s) = JObject [(''op'', JString ''insert_before''), (''step'', step_doc s)]"
| "operation_doc (InsertAfter s) = JObject [(''op'', JString ''insert_after''), (''step'', step_doc s)]"
| "operation_doc (SetStepField i p v) =
     JObject [(''op'', JString ''set_step_field''), (''step_id'', JString i), (''pointer'', JString p), (''value'', v)]"
| "operation_doc (RemoveStepField i p) =
     JObject [(''op'', JString ''remove_step_field''), (''step_id'', JString i), (''pointer'', JString p)]"
| "operation_doc (SetPlanField p v) =
     JObject [(''op'', JString ''set_plan_field''), (''pointer'', JString p), (''value'', v)]"
| "operation_doc (RemovePlanField p) = JObject [(''op'', JString ''remove_plan_field''), (''pointer'', JString p)]"

definition patch_doc :: "wire \<Rightarrow> patch \<Rightarrow> json" where
  "patch_doc w p =
     (let time = opt_json (\<lambda>t. JString (wi_show_time w t)) in
      JObject [(''id'', JString (pt_id p)), (''plan_id'', JString (pt_plan_id p)),
        (''plan_version'', u64_json (pt_plan_version p)), (''run_id'', JString (pt_run_id p)),
        (''failing_step_id'', JString (pt_failing_step_id p)), (''operation'', operation_doc (pt_operation p)),
        (''rationale'', JString (pt_rationale p)), (''proposed_at'', JString (wi_show_time w (pt_proposed_at p))),
        (''status'', JString (show_patch_status (pt_status p))), (''approved_at'', time (pt_approved_at p)),
        (''rejected_at'', time (pt_rejected_at p)), (''rejection_reason'', opt_json JString (pt_rejection_reason p))])"

text \<open>The tag and the rest of an internally tagged enum.\<close>

definition tagged :: "string \<Rightarrow> json \<Rightarrow> (string \<times> json) option" where
  "tagged tag v = (case v of
     JObject kvs \<Rightarrow>
       (case filter (\<lambda>(k, u). k = tag) kvs of
          [(k, JString t)] \<Rightarrow> Some (t, JObject (filter (\<lambda>(k, u). k \<noteq> tag) kvs))
        | _ \<Rightarrow> None)
   | JArray (JString t # vs) \<Rightarrow> Some (t, JArray vs)
   | _ \<Rightarrow> None)"

definition step_operation_of :: "wire \<Rightarrow> (string \<times> json) option \<Rightarrow> patch_operation option" where
  "step_operation_of w tv = (case tv of None \<Rightarrow> None | Some (t, v) \<Rightarrow>
     if t = ''replace_step'' then
       Option.bind (struct_of [(''new_step'', False)] v) (\<lambda>kvs. map_option ReplaceStep (req (step_of w) kvs ''new_step''))
     else if t = ''update_step_config'' then
       Option.bind (struct_of [(''new_config'', False)] v) (\<lambda>kvs. map_option UpdateStepConfig (req (config_of w) kvs ''new_config''))
     else if t = ''insert_before'' then
       Option.bind (struct_of [(''step'', False)] v) (\<lambda>kvs. map_option InsertBefore (req (step_of w) kvs ''step''))
     else if t = ''insert_after'' then
       Option.bind (struct_of [(''step'', False)] v) (\<lambda>kvs. map_option InsertAfter (req (step_of w) kvs ''step''))
     else if t = ''set_step_field'' then
       Option.bind (struct_of [(''step_id'', False), (''pointer'', False), (''value'', False)] v) (\<lambda>kvs.
       Option.bind (req as_str kvs ''step_id'') (\<lambda>i. Option.bind (req as_str kvs ''pointer'') (\<lambda>p.
         map_option (SetStepField i p) (req (Some \<circ> canon) kvs ''value''))))
     else if t = ''remove_step_field'' then
       Option.bind (struct_of [(''step_id'', False), (''pointer'', False)] v) (\<lambda>kvs.
       Option.bind (req as_str kvs ''step_id'') (\<lambda>i. map_option (RemoveStepField i) (req as_str kvs ''pointer'')))
     else if t = ''set_plan_field'' then
       Option.bind (struct_of [(''pointer'', False), (''value'', False)] v) (\<lambda>kvs.
       Option.bind (req as_str kvs ''pointer'') (\<lambda>p. map_option (SetPlanField p) (req (Some \<circ> canon) kvs ''value'')))
     else if t = ''remove_plan_field'' then
       Option.bind (struct_of [(''pointer'', False)] v) (\<lambda>kvs. map_option RemovePlanField (req as_str kvs ''pointer''))
     else None)"

text \<open>The elements of a batch, when the document is one.\<close>

definition batch_elements :: "json \<Rightarrow> json list option" where
  "batch_elements v = (case tagged ''op'' v of
     Some (t, u) \<Rightarrow>
       if t = ''batch'' then
         Option.bind (struct_of [(''operations'', False)] u) (\<lambda>kvs. req as_array kvs ''operations'')
       else None
   | None \<Rightarrow> None)"

lemma size_map_of: "map_of kvs n = Some v \<Longrightarrow> size v < size_list (size_prod (\<lambda>_. 0) size) kvs"
  by (induction kvs) (auto split: if_splits)

lemma size_filter: "size_list f (filter P xs) \<le> size_list f xs"
  by (induction xs) auto

lemma size_tagged: "tagged tag v = Some (t, u) \<Longrightarrow> size u \<le> size v"
  using size_filter by (auto simp: tagged_def split: json.splits list.splits prod.splits)

lemma size_struct: "struct_of spec v = Some kvs \<Longrightarrow> map_of kvs n = Some x \<Longrightarrow> size x < size v"
proof -
  assume s: "struct_of spec v = Some kvs" and x: "map_of kvs n = Some x"
  show ?thesis
  proof (cases v)
    case (JArray vs)
    with s x have "x \<in> set vs"
      by (auto simp: struct_of_def split: if_splits dest!: map_of_SomeD set_zip_rightD)
    with JArray show ?thesis by (simp add: less_Suc_eq_le size_list_estimation')
  next
    case (JObject ks)
    with s x size_map_of [of kvs n x] show ?thesis by (auto simp: struct_of_def split: if_splits)
  qed (use s in \<open>auto simp: struct_of_def\<close>)
qed

lemma as_array_Some: "as_array v = Some vs \<longleftrightarrow> v = JArray vs"
  by (cases v) auto

lemma size_batch: "batch_elements v = Some vs \<Longrightarrow> u \<in> set vs \<Longrightarrow> size u < size v"
proof -
  assume b: "batch_elements v = Some vs" and u: "u \<in> set vs"
  then obtain t x kvs where x: "tagged ''op'' v = Some (t, x)" "struct_of [(''operations'', False)] x = Some kvs"
      "map_of kvs ''operations'' = Some (JArray vs)"
    by (auto simp: batch_elements_def req_def bind_eq_Some_conv as_array_Some split: option.splits if_splits)
  have "size u < size (JArray vs)" using u by (simp add: less_Suc_eq_le size_list_estimation')
  also have "\<dots> < size x" by (rule size_struct [OF x(2,3)])
  also have "\<dots> \<le> size v" by (rule size_tagged [OF x(1)])
  finally show ?thesis .
qed

function operation_of :: "wire \<Rightarrow> json \<Rightarrow> patch_operation option" where
  "operation_of w v =
     (case batch_elements v of
        Some vs \<Rightarrow> map_option Batch (those (map (operation_of w) vs))
      | None \<Rightarrow> step_operation_of w (tagged ''op'' v))"
  by pat_completeness auto
termination
  by (relation "measure (\<lambda>(w, v). size v)") (auto simp: size_batch)

declare operation_of.simps [simp del]

definition patch_status_names :: "(string \<times> patch_status) list" where
  "patch_status_names = map (\<lambda>s. (show_patch_status s, s)) [Pending, Approved, Rejected, Applied]"

definition patch_of :: "wire \<Rightarrow> json \<Rightarrow> patch option" where
  "patch_of w v = Option.bind (struct_of [(''id'', False), (''plan_id'', False), (''plan_version'', False),
       (''run_id'', False), (''failing_step_id'', False), (''operation'', False), (''rationale'', False),
       (''proposed_at'', False), (''status'', False), (''approved_at'', False), (''rejected_at'', False),
       (''rejection_reason'', False)] v) (\<lambda>kvs.
     Option.bind (req as_str kvs ''id'') (\<lambda>i.
     Option.bind (req as_str kvs ''plan_id'') (\<lambda>p.
     Option.bind (req word_of kvs ''plan_version'') (\<lambda>n.
     Option.bind (req as_str kvs ''run_id'') (\<lambda>r.
     Option.bind (req as_str kvs ''failing_step_id'') (\<lambda>f.
     Option.bind (req (operation_of w) kvs ''operation'') (\<lambda>op.
     Option.bind (req as_str kvs ''rationale'') (\<lambda>t.
     Option.bind (req (time_of w) kvs ''proposed_at'') (\<lambda>d.
     Option.bind (req (variant_of patch_status_names) kvs ''status'') (\<lambda>s.
     Option.bind (opt (time_of w) kvs ''approved_at'') (\<lambda>a.
     Option.bind (opt (time_of w) kvs ''rejected_at'') (\<lambda>j.
     Option.bind (opt as_str kvs ''rejection_reason'') (\<lambda>e.
     Some \<lparr>pt_id = i, pt_plan_id = p, pt_plan_version = n, pt_run_id = r, pt_failing_step_id = f,
       pt_operation = op, pt_rationale = t, pt_proposed_at = d, pt_status = s, pt_approved_at = a,
       pt_rejected_at = j, pt_rejection_reason = e\<rparr>)))))))))))))"

fun wf_operation :: "wire \<Rightarrow> patch_operation \<Rightarrow> bool" where
  "wf_operation w (Batch ops) \<longleftrightarrow> list_all (wf_operation w) ops"
| "wf_operation w (ReplaceStep s) \<longleftrightarrow> wf_config w (s_config s)"
| "wf_operation w (UpdateStepConfig c) \<longleftrightarrow> wf_config w c"
| "wf_operation w (InsertBefore s) \<longleftrightarrow> wf_config w (s_config s)"
| "wf_operation w (InsertAfter s) \<longleftrightarrow> wf_config w (s_config s)"
| "wf_operation w (SetStepField i p v) \<longleftrightarrow> wf_json v"
| "wf_operation w (SetPlanField p v) \<longleftrightarrow> wf_json v"
| "wf_operation w _ \<longleftrightarrow> True"

lemma text_step [simp]: "as_text.arrange_step s = s"
  by (simp add: as_text.arrange_step_def)

lemma step_of_text: "wf_config w (s_config s) \<Longrightarrow> step_of w (step_doc s) = Some s"
  using as_text.step_view by simp

lemma config_of_text: "wf_config w c \<Longrightarrow> config_of w (config_doc c) = Some c"
  using as_text.config_view by simp

lemma those_map_Some: "(\<And>x. x \<in> set xs \<Longrightarrow> f (g x) = Some x) \<Longrightarrow> those (map (f \<circ> g) xs) = Some xs"
  by (induction xs) auto

lemma batch_elements_doc:
  "batch_elements (operation_doc op) = (case op of Batch ops \<Rightarrow> Some (map operation_doc ops) | _ \<Rightarrow> None)"
  by (cases op) (simp_all add: batch_elements_def tagged_def struct_of_def req_def)

lemma operation_of_text: "wf_operation w op \<Longrightarrow> operation_of w (operation_doc op) = Some op"
proof (induction op)
  case (Batch ops)
  then have "those (map (operation_of w \<circ> operation_doc) ops) = Some ops"
    by (intro those_map_Some) (auto simp: list_all_iff)
  then show ?case
    by (subst operation_of.simps) (simp add: batch_elements_doc del: operation_doc.simps)
qed (subst operation_of.simps;
  simp add: batch_elements_doc [of "ReplaceStep x" for x, simplified] batch_elements_def tagged_def struct_of_def req_def
    step_operation_of_def step_of_text config_of_text canon_wf)+

lemma patch_of_text:
  assumes "wf_operation w (pt_operation p)" and "times_roundtrip w"
  shows "patch_of w (patch_doc w p) = Some p"
proof -
  have time: "opt_value (time_of w) (opt_json (\<lambda>t. JString (wi_show_time w t)) x) = Some x" for x
    using assms(2) by (cases x) (auto simp: opt_value_def opt_json_def time_of_def times_roundtrip_def)
  have status: "variant_of patch_status_names (JString (show_patch_status s)) = Some s" for s
    by (cases s) (simp_all add: variant_of_def patch_status_names_def)
  show ?thesis
    using assms(2)
    by (simp add: patch_of_def patch_doc_def Let_def struct_of_def req_def opt_def time status operation_of_text [OF assms(1)]
        as_text.opt_str as_text.word_view time_of_def times_roundtrip_def)
qed

section \<open>Properties\<close>

lemma position_Some: "position P xs = Some n \<longleftrightarrow>
    (\<exists>before x after. xs = before @ x # after \<and> length before = n \<and> P x \<and> (\<forall>y \<in> set before. \<not> P y))"
proof (induction xs arbitrary: n)
  case Nil
  show ?case by simp
next
  case (Cons x xs)
  show ?case
  proof (cases "P x")
    case True
    then show ?thesis by (auto simp: Cons_eq_append_conv)
  next
    case False
    show ?thesis
    proof
      assume "position P (x # xs) = Some n"
      with False obtain m where "n = Suc m" "position P xs = Some m" by auto
      with Cons.IH [of m] obtain b y a where "xs = b @ y # a" "length b = m" "P y" "\<forall>z \<in> set b. \<not> P z" by auto
      with \<open>n = Suc m\<close> False show "\<exists>b y a. x # xs = b @ y # a \<and> length b = n \<and> P y \<and> (\<forall>z \<in> set b. \<not> P z)"
        by (intro exI [of _ "x # b"]) auto
    next
      assume "\<exists>b y a. x # xs = b @ y # a \<and> length b = n \<and> P y \<and> (\<forall>z \<in> set b. \<not> P z)"
      then show "position P (x # xs) = Some n"
        using False Cons.IH [of "n - 1"] by (auto simp: Cons_eq_append_conv)
    qed
  qed
qed

lemma step_position_Inr:
  assumes "step_position p i = Inr n"
  obtains before s after where "p_steps p = before @ s # after" "length before = n" "s_id s = i"
    "i \<notin> s_id ` set before"
  using assms by (fastforce simp: step_position_def position_Some image_iff)

text \<open>The step an operation is about; none for a batch or an edit of the plan.\<close>

fun operation_target :: "string \<Rightarrow> patch_operation \<Rightarrow> string option" where
  "operation_target failing (SetStepField i p v) = Some i"
| "operation_target failing (RemoveStepField i p) = Some i"
| "operation_target failing (Batch ops) = None"
| "operation_target failing (SetPlanField p v) = None"
| "operation_target failing (RemovePlanField p) = None"
| "operation_target failing _ = Some failing"

lemma step_mut_local:
  assumes "step_mut p i f = Inr p'"
  shows "\<exists>before s after s'. p_steps p = before @ s # after \<and> s_id s = i \<and> i \<notin> s_id ` set before \<and>
    f s = Inr s' \<and> p' = p\<lparr>p_steps := before @ s' # after\<rparr>"
proof -
  from assms obtain n s' where n: "step_position p i = Inr n" and s': "f (p_steps p ! n) = Inr s'"
      and p': "p' = p\<lparr>p_steps := (p_steps p)[n := s']\<rparr>"
    by (auto simp: step_mut_def try_bind_Inr)
  from n obtain before s after where "p_steps p = before @ s # after" "length before = n" "s_id s = i"
      "i \<notin> s_id ` set before"
    by (rule step_position_Inr)
  with s' p' show ?thesis by (intro exI [of _ before]) (auto simp: nth_append)
qed

text \<open>
  a patch never touches the metadata of a plan.  Whatever pointers an operation or a batch uses,
  with or without escapes, the plan it produces has the identity, the version, the lineage and the
  timestamps of the plan it was applied to.
\<close>

theorem patch_keeps_metadata:
  assumes "apply_operation w p pt = Inr p'" and "times_roundtrip w"
  shows "p_metadata p' = p_metadata p"
  using assms operations_keep_metadata(1) by (simp add: apply_operation_def)

definition rename_patch :: patch where
  "rename_patch = patch_new ''patch'' 0 ''p'' 1 ''run'' ''a'' (SetPlanField ''/name'' (JString ''renamed'')) ''why''"

lemma patch_keeps_metadata_witness:
  "\<exists>p'. apply_operation demo_wire demo_plan rename_patch = Inr p' \<and> p_name p' = ''renamed'' \<and>
     p_metadata p' = p_metadata demo_plan"
proof -
  have "case apply_operation demo_wire demo_plan rename_patch of Inl e \<Rightarrow> False | Inr p' \<Rightarrow> p_name p' = ''renamed''"
    by code_simp
  then obtain p' where p': "apply_operation demo_wire demo_plan rename_patch = Inr p'" "p_name p' = ''renamed''"
    by (auto split: sum.splits)
  with patch_keeps_metadata [OF p'(1) demo_times] show ?thesis by blast
qed

text \<open>
  an edit of a step is local.  An operation on one step leaves every other step, their order
  and the rest of the plan as they are; the step it is about is replaced, or kept with one new
  step before or after it.
\<close>

theorem step_operation_local:
  assumes "operation_target failing op = Some i" and "apply_single_operation w failing op p = Inr p'"
  shows "\<exists>before s after middle s'. p_steps p = before @ s # after \<and> s_id s = i \<and> i \<notin> s_id ` set before \<and>
    p' = p\<lparr>p_steps := before @ middle @ after\<rparr> \<and> middle \<in> {[s'], [s', s], [s, s']}"
proof -
  have at: "\<exists>before s after middle s'. p_steps p = before @ s # after \<and> s_id s = i \<and> i \<notin> s_id ` set before \<and>
      p' = p\<lparr>p_steps := before @ middle @ after\<rparr> \<and> middle \<in> {[s'], [s', s], [s, s']}"
    if n: "step_position p i = Inr n" and p': "p' = p\<lparr>p_steps := ss\<rparr>"
      and ss: "ss \<in> {(p_steps p)[n := x], insert_at n x (p_steps p), insert_at (n + 1) x (p_steps p)}" for n ss x
  proof -
    from n obtain before s after where c: "p_steps p = before @ s # after" "length before = n" "s_id s = i" "i \<notin> s_id ` set before"
      by (rule step_position_Inr)
    then have "ss \<in> {before @ [x] @ after, before @ [x, s] @ after, before @ [s, x] @ after}"
      using ss by (auto simp: insert_at_def)
    then obtain middle where "ss = before @ middle @ after" "middle \<in> {[x], [x, s], [s, x]}" by blast
    with c p' show ?thesis by blast
  qed
  have edited: ?thesis if "step_mut p i f = Inr p'" for f
    using step_mut_local [OF that] by (metis append_Cons append_Nil insertI1)
  show ?thesis
  proof (cases op)
    case (ReplaceStep x)
    with assms obtain n where "step_position p i = Inr n" "p' = p\<lparr>p_steps := (p_steps p)[n := x]\<rparr>"
      by (auto simp: try_bind_Inr)
    then show ?thesis by (rule at [where x = x]) simp
  next
    case (InsertBefore x)
    with assms obtain n where "step_position p i = Inr n" "p' = p\<lparr>p_steps := insert_at n x (p_steps p)\<rparr>"
      by (auto simp: try_bind_Inr)
    then show ?thesis by (rule at [where x = x]) simp
  next
    case (InsertAfter x)
    with assms obtain n where "step_position p i = Inr n" "p' = p\<lparr>p_steps := insert_at (n + 1) x (p_steps p)\<rparr>"
      by (auto simp: try_bind_Inr)
    then show ?thesis by (rule at [where x = x]) simp
  qed (use assms edited in auto)
qed

lemma step_operation_local_witness:
  "case apply_single_operation demo_wire ''b'' (SetStepField ''b'' ''/name'' (JString ''new''))
      (demo_plan\<lparr>p_steps := diamond\<rparr>) of
     Inl e \<Rightarrow> False
   | Inr p' \<Rightarrow> \<exists>before s after middle s'. diamond = before @ s # after \<and> s_id s = ''b'' \<and> ''b'' \<notin> s_id ` set before \<and>
       p' = demo_plan\<lparr>p_steps := before @ middle @ after\<rparr> \<and> middle \<in> {[s'], [s', s], [s, s']}"
proof -
  have "case apply_single_operation demo_wire ''b'' (SetStepField ''b'' ''/name'' (JString ''new''))
      (demo_plan\<lparr>p_steps := diamond\<rparr>) of Inl e \<Rightarrow> False | Inr p' \<Rightarrow> True"
    by code_simp
  then obtain p' where p': "apply_single_operation demo_wire ''b'' (SetStepField ''b'' ''/name'' (JString ''new''))
      (demo_plan\<lparr>p_steps := diamond\<rparr>) = Inr p'"
    by (auto split: sum.splits)
  show ?thesis
    unfolding p' sum.case using step_operation_local [OF _ p', of "''b''"] by simp
qed

end
