(* ===== verification/Disk.thy ===== *)
theory Disk
  imports Patch
begin

text \<open>
  The file system under the data root, and the write primitives of \<^verbatim>\<open>storage/mod.rs\<close>.

  A disk is its files, in directory order, and its directories.  Every system call is numbered, and
  a fault schedule says what happens to the call with a given number: it works, it fails with an
  I/O error, or the process dies there.  A computation is \<open>Done\<close> with a value, \<open>Failed\<close> with a
  \<^verbatim>\<open>StorageError\<close>, or \<open>Crashed\<close>; after a crash nothing more happens to the disk.  A write that
  does not complete may leave any prefix of its content.  Completed calls are durable in order;
  the source syncs every file it publishes.
\<close>

type_synonym path = "string list"

datatype io_kind = IoNotFound | IoAlreadyExists | IoInvalidInput | IoInvalidData | IoUnsupported | IoOther

datatype storage_error =
    SE_Io io_kind string
  | SE_Json string
  | SE_NotFound string string

fun show_storage_error :: "storage_error \<Rightarrow> string" where
  "show_storage_error (SE_Io k m) = fmt ''I/O error: {}'' [m]"
| "show_storage_error (SE_Json m) = fmt ''JSON error: {}'' [m]"
| "show_storage_error (SE_NotFound kind i) = fmt ''not found: {} {}'' [kind, i]"

record disk =
  dk_files :: "(path \<times> string) list"
  dk_dirs :: "path list"
  dk_calls :: nat

datatype fault = Works | Fails io_kind | Crashes

text \<open>
  What comes from outside: the fault schedule, how much of a broken call was done, fresh UUIDs, the
  text form of JSON, the \<^verbatim>\<open>Debug\<close> form of a string, and the clock.
\<close>

record store_env =
  se_fault :: "nat \<Rightarrow> fault"
  se_partial :: "nat \<Rightarrow> nat"
  se_uuid :: "nat \<Rightarrow> string"
  se_wire :: wire
  se_text :: "json \<Rightarrow> string"
  se_parse :: "string \<Rightarrow> json option"
  se_json_error :: "string \<Rightarrow> string \<Rightarrow> string"
  se_debug :: "string \<Rightarrow> string"
  se_clock :: "nat \<Rightarrow> instant"

section \<open>Computations\<close>

datatype 'a outcome = Done 'a | Failed storage_error | Crashed

type_synonym 'a io = "disk \<Rightarrow> disk \<times> 'a outcome"

definition ret :: "'a \<Rightarrow> 'a io" where
  "ret v d = (d, Done v)"

definition throw :: "storage_error \<Rightarrow> 'a io" where
  "throw e d = (d, Failed e)"

definition bind :: "'a io \<Rightarrow> ('a \<Rightarrow> 'b io) \<Rightarrow> 'b io" where
  "bind m k d = (case m d of
     (d', Done v) \<Rightarrow> k v d'
   | (d', Failed e) \<Rightarrow> (d', Failed e)
   | (d', Crashed) \<Rightarrow> (d', Crashed))"

definition seq :: "unit io \<Rightarrow> 'b io \<Rightarrow> 'b io" where
  "seq m k = bind m (\<lambda>u. k)"

text \<open>The result of a call as a value (a \<^verbatim>\<open>match\<close> on it); a crash stays a crash.\<close>

definition attempt :: "'a io \<Rightarrow> (storage_error + 'a) io" where
  "attempt m d = (case m d of
     (d', Done v) \<Rightarrow> (d', Done (Inr v))
   | (d', Failed e) \<Rightarrow> (d', Done (Inl e))
   | (d', Crashed) \<Rightarrow> (d', Crashed))"

definition lift_result :: "storage_error + 'a \<Rightarrow> 'a io" where
  "lift_result r = (case r of Inl e \<Rightarrow> throw e | Inr v \<Rightarrow> ret v)"

fun io_each :: "('a \<Rightarrow> unit io) \<Rightarrow> 'a list \<Rightarrow> unit io" where
  "io_each f [] = ret ()"
| "io_each f (x # xs) = seq (f x) (io_each f xs)"

section \<open>System calls\<close>

definition get_file :: "disk \<Rightarrow> path \<Rightarrow> string option" where
  "get_file d p = map_of (dk_files d) p"

definition put_file :: "path \<Rightarrow> string \<Rightarrow> disk \<Rightarrow> disk" where
  "put_file p c d = d\<lparr>dk_files := AList.update p c (dk_files d)\<rparr>"

definition drop_file :: "path \<Rightarrow> disk \<Rightarrow> disk" where
  "drop_file p d = d\<lparr>dk_files := filter (\<lambda>(q, c). q \<noteq> p) (dk_files d)\<rparr>"

definition is_dir :: "disk \<Rightarrow> path \<Rightarrow> bool" where
  "is_dir d p \<longleftrightarrow> p = [] \<or> p \<in> set (dk_dirs d)"

text \<open>One call: its effect when it works, what a broken one leaves behind otherwise.\<close>

definition sys :: "store_env \<Rightarrow> (disk \<Rightarrow> disk) \<Rightarrow> 'a io \<Rightarrow> 'a io" where
  "sys env broken effect d =
     (let n = dk_calls d; d' = d\<lparr>dk_calls := n + 1\<rparr>
      in case se_fault env n of
           Works \<Rightarrow> effect d'
         | Fails k \<Rightarrow> (broken d', Failed (SE_Io k ''I/O fault''))
         | Crashes \<Rightarrow> (broken d', Crashed))"

definition io_error :: "io_kind \<Rightarrow> 'a io" where
  "io_error k = throw (SE_Io k ''I/O fault'')"

definition prefixes :: "path \<Rightarrow> path list" where
  "prefixes p = map (\<lambda>n. take n p) [1..<Suc (length p)]"

definition create_dir_all :: "store_env \<Rightarrow> path \<Rightarrow> unit io" where
  "create_dir_all env p = sys env id (\<lambda>d. (d\<lparr>dk_dirs := remdups (dk_dirs d @ prefixes p)\<rparr>, Done ()))"

definition create_new :: "store_env \<Rightarrow> path \<Rightarrow> unit io" where
  "create_new env p = sys env id (\<lambda>d.
     if get_file d p \<noteq> None \<or> is_dir d p then io_error IoAlreadyExists d
     else if \<not> is_dir d (butlast p) then io_error IoNotFound d
     else (put_file p [] d, Done ()))"

text \<open>Writing through the handle of a file just created: a broken write leaves a prefix.\<close>

definition write_all :: "store_env \<Rightarrow> path \<Rightarrow> string \<Rightarrow> unit io" where
  "write_all env p c d =
     sys env (put_file p (take (se_partial env (dk_calls d)) c)) (\<lambda>d'. (put_file p c d', Done ())) d"

definition sync_file :: "store_env \<Rightarrow> unit io" where
  "sync_file env = sys env id (\<lambda>d. (d, Done ()))"

definition rename_file :: "store_env \<Rightarrow> path \<Rightarrow> path \<Rightarrow> unit io" where
  "rename_file env src dst = sys env id (\<lambda>d. case get_file d src of
       None \<Rightarrow> io_error IoNotFound d
     | Some c \<Rightarrow> (put_file dst c (drop_file src d), Done ()))"

definition hard_link :: "store_env \<Rightarrow> path \<Rightarrow> path \<Rightarrow> unit io" where
  "hard_link env src dst = sys env id (\<lambda>d. case get_file d src of
       None \<Rightarrow> io_error IoNotFound d
     | Some c \<Rightarrow> if get_file d dst \<noteq> None \<or> is_dir d dst then io_error IoAlreadyExists d
               else (put_file dst c d, Done ()))"

definition remove_file :: "store_env \<Rightarrow> path \<Rightarrow> unit io" where
  "remove_file env p = sys env id (\<lambda>d.
     if get_file d p = None then io_error IoNotFound d else (drop_file p d, Done ()))"

definition read_file :: "store_env \<Rightarrow> path \<Rightarrow> string io" where
  "read_file env p = sys env id (\<lambda>d. case get_file d p of
       None \<Rightarrow> io_error IoNotFound d | Some c \<Rightarrow> (d, Done c))"

text \<open>\<^verbatim>\<open>Path::exists\<close> is false when the question cannot be answered.\<close>

definition path_exists :: "store_env \<Rightarrow> path \<Rightarrow> bool io" where
  "path_exists env p d = (case sys env id (\<lambda>d. (d, Done (get_file d p \<noteq> None \<or> is_dir d p))) d of
     (d', Failed e) \<Rightarrow> (d', Done False) | r \<Rightarrow> r)"

text \<open>The children of a directory with their kind, in directory order.\<close>

definition child_of :: "path \<Rightarrow> path \<Rightarrow> bool" where
  "child_of dir p \<longleftrightarrow> p \<noteq> [] \<and> butlast p = dir"

definition children :: "disk \<Rightarrow> path \<Rightarrow> (string \<times> bool) list" where
  "children d dir = map (\<lambda>(p, c). (last p, True)) (filter (\<lambda>(p, c). child_of dir p) (dk_files d)) @
     map (\<lambda>p. (last p, False)) (filter (child_of dir) (dk_dirs d))"

definition read_dir :: "store_env \<Rightarrow> path \<Rightarrow> (string \<times> bool) list io" where
  "read_dir env dir = sys env id (\<lambda>d.
     if is_dir d dir then (d, Done (children d dir)) else io_error IoNotFound d)"

text \<open>A broken recursive removal has removed some of the files.\<close>

definition below :: "path \<Rightarrow> path \<Rightarrow> bool" where
  "below dir p \<longleftrightarrow> take (length dir) p = dir"

definition remove_dir_all :: "store_env \<Rightarrow> path \<Rightarrow> unit io" where
  "remove_dir_all env dir d =
     sys env (\<lambda>d'. fold drop_file (take (se_partial env (dk_calls d)) (filter (below dir) (map fst (dk_files d')))) d')
       (\<lambda>d'. if is_dir d' dir
          then (d'\<lparr>dk_files := filter (\<lambda>(p, c). \<not> below dir p) (dk_files d'),
                  dk_dirs := filter (\<lambda>p. \<not> below dir p) (dk_dirs d')\<rparr>, Done ())
          else io_error IoNotFound d') d"

section \<open>Publishing a file\<close>

text \<open>
  \<^verbatim>\<open>validate_record_id\<close> on Unix: an identifier is one normal path component without slashes
  of either kind.
\<close>

definition validate_record_id :: "store_env \<Rightarrow> string \<Rightarrow> unit io" where
  "validate_record_id env i =
     (if i = [] \<or> CHR ''/'' \<in> set i \<or> CHR 0x5C \<in> set i \<or> i = ''.'' \<or> i = ''..''
      then throw (SE_Io IoInvalidInput (fmt ''invalid storage record id: {}'' [se_debug env i]))
      else ret ())"

definition TEMP_FILE_SUFFIX :: string where
  "TEMP_FILE_SUFFIX = ''.tmp''"

definition temp_path :: "store_env \<Rightarrow> path \<Rightarrow> disk \<Rightarrow> path" where
  "temp_path env p d = butlast p @ [fmt ''{}.{}{}'' [last p, se_uuid env (dk_calls d), TEMP_FILE_SUFFIX]]"

definition sync_parent_directory :: "store_env \<Rightarrow> unit io" where
  "sync_parent_directory env = sync_file env"

definition fill_temp :: "store_env \<Rightarrow> path \<Rightarrow> string \<Rightarrow> unit io" where
  "fill_temp env temp c = seq (create_new env temp) (seq (write_all env temp c) (sync_file env))"

definition write_atomically :: "store_env \<Rightarrow> path \<Rightarrow> string \<Rightarrow> unit io" where
  "write_atomically env p c d =
     (let temp = temp_path env p d
      in bind (attempt (seq (fill_temp env temp c)
           (seq (rename_file env temp p) (seq (sync_file env) (sync_parent_directory env)))))
         (\<lambda>r. case r of
            Inr u \<Rightarrow> ret ()
          | Inl e \<Rightarrow> bind (attempt (remove_file env temp)) (\<lambda>ignored. throw e)) d)"

datatype exclusive_write = Created | AlreadyExists

definition write_exclusively_direct :: "store_env \<Rightarrow> path \<Rightarrow> string \<Rightarrow> exclusive_write io" where
  "write_exclusively_direct env p c =
     bind (attempt (create_new env p)) (\<lambda>r. case r of
       Inl (SE_Io IoAlreadyExists m) \<Rightarrow> ret AlreadyExists
     | Inl e \<Rightarrow> throw e
     | Inr u \<Rightarrow>
         bind (attempt (seq (write_all env p c) (sync_file env))) (\<lambda>written. case written of
           Inl e \<Rightarrow> bind (attempt (remove_file env p)) (\<lambda>ignored. throw e)
         | Inr u \<Rightarrow> seq (sync_parent_directory env) (ret Created)))"

definition claim_link :: "store_env \<Rightarrow> path \<Rightarrow> path \<Rightarrow> string \<Rightarrow> exclusive_write io" where
  "claim_link env temp p c =
     bind (attempt (hard_link env temp p)) (\<lambda>r. case r of
       Inr u \<Rightarrow> seq (sync_file env) (seq (sync_parent_directory env) (ret Created))
     | Inl (SE_Io IoAlreadyExists m) \<Rightarrow> ret AlreadyExists
     | Inl (SE_Io IoUnsupported m) \<Rightarrow> write_exclusively_direct env p c
     | Inl e \<Rightarrow> throw e)"

definition write_exclusively :: "store_env \<Rightarrow> path \<Rightarrow> string \<Rightarrow> exclusive_write io" where
  "write_exclusively env p c d =
     (let temp = temp_path env p d
      in bind (attempt (seq (fill_temp env temp c) (claim_link env temp p c)))
         (\<lambda>r. bind (attempt (remove_file env temp)) (\<lambda>ignored. lift_result r)) d)"

end
