(* ===== verification/PlanStore.thy ===== *)
theory PlanStore
  imports Disk
begin

text \<open>
  The record stores of \<^verbatim>\<open>storage/\<close>: the versioned plans of \<^verbatim>\<open>plans.rs\<close>, whose
  snapshots are immutable and whose \<^verbatim>\<open>current.json\<close> advances by compare-and-swap, and the
  stores that keep one file per record (\<^verbatim>\<open>patches.rs\<close>, \<^verbatim>\<open>runs.rs\<close>,
  \<^verbatim>\<open>plan_edits.rs\<close>, \<^verbatim>\<open>world_fixes.rs\<close>), which are written alike and differ in
  their directory, their kind and their record type.

  A directory entry whose name or type cannot be read is not distinguished from an absent one.
\<close>

section \<open>Reading a document\<close>

definition decode :: "store_env \<Rightarrow> string \<Rightarrow> (json \<Rightarrow> 'a option) \<Rightarrow> string \<Rightarrow> storage_error + 'a" where
  "decode env what f raw = (case se_parse env raw of
     None \<Rightarrow> Inl (SE_Json (se_json_error env what raw))
   | Some v \<Rightarrow> ok_or (SE_Json (se_json_error env what raw)) (f v))"

definition consistency_error :: "string \<Rightarrow> storage_error" where
  "consistency_error m = SE_Io IoInvalidData m"

section \<open>Plans\<close>

definition PLANS_DIR :: path where
  "PLANS_DIR = [''plans'']"

definition version_str :: "32 word \<Rightarrow> string" where
  "version_str v = nat_str (unat v)"

definition version_file_name :: "32 word \<Rightarrow> string" where
  "version_file_name v = fmt ''v{}.json'' [version_str v]"

definition current_path :: "string \<Rightarrow> path" where
  "current_path i = PLANS_DIR @ [i, ''current.json'']"

definition version_path :: "string \<Rightarrow> 32 word \<Rightarrow> path" where
  "version_path i v = PLANS_DIR @ [i, version_file_name v]"

definition plan_text :: "store_env \<Rightarrow> plan \<Rightarrow> string" where
  "plan_text env p = se_text env (plan_doc (se_wire env) p)"

definition load_plan_from_path :: "store_env \<Rightarrow> path \<Rightarrow> string \<Rightarrow> plan io" where
  "load_plan_from_path env path i =
     bind (path_exists env path) (\<lambda>found.
     if \<not> found then throw (SE_NotFound ''plan'' i)
     else bind (read_file env path) (\<lambda>raw.
       bind (lift_result (decode env ''plan'' (plan_of (se_wire env)) raw)) (\<lambda>p.
       if m_id (p_metadata p) \<noteq> i then
         throw (consistency_error (fmt ''plan identity mismatch: requested '{}', stored '{}{}''
           [i, m_id (p_metadata p), squote]))
       else ret p)))"

definition load_current :: "store_env \<Rightarrow> string \<Rightarrow> plan io" where
  "load_current env i = seq (validate_record_id env i) (load_plan_from_path env (current_path i) i)"

definition load_version :: "store_env \<Rightarrow> string \<Rightarrow> 32 word \<Rightarrow> plan io" where
  "load_version env i v =
     seq (validate_record_id env i) (bind (load_plan_from_path env (version_path i v) i) (\<lambda>p.
       if m_version (p_metadata p) \<noteq> v then
         throw (consistency_error (fmt ''plan version mismatch for '{}': requested v{}, stored v{}''
           [i, version_str v, version_str (m_version (p_metadata p))]))
       else ret p))"

definition load_current_if_present :: "store_env \<Rightarrow> string \<Rightarrow> plan option io" where
  "load_current_if_present env i =
     bind (path_exists env (current_path i)) (\<lambda>found.
       if \<not> found then ret None
       else bind (load_plan_from_path env (current_path i) i) (\<lambda>p. ret (Some p)))"

definition claim_snapshot :: "store_env \<Rightarrow> plan \<Rightarrow> unit io" where
  "claim_snapshot env p =
     (let i = m_id (p_metadata p); v = m_version (p_metadata p)
      in seq (validate_record_id env i) (seq (create_dir_all env (PLANS_DIR @ [i]))
        (bind (write_exclusively env (version_path i v) (plan_text env p)) (\<lambda>w. case w of
           Created \<Rightarrow> ret ()
         | AlreadyExists \<Rightarrow> bind (load_version env i v) (\<lambda>existing.
             if same_plan existing p then ret ()
             else throw (consistency_error (fmt ''conflicting immutable snapshot for plan '{}' v{}''
               [i, version_str v])))))))"

definition saturating_succ :: "32 word \<Rightarrow> 32 word" where
  "saturating_succ v = (if v = - 1 then v else v + 1)"

definition checked_succ :: "32 word \<Rightarrow> 32 word option" where
  "checked_succ v = (if v = - 1 then None else Some (v + 1))"

definition opt_version :: "32 word option \<Rightarrow> string" where
  "opt_version o' = (case o' of None \<Rightarrow> ''None'' | Some v \<Rightarrow> fmt ''Some({})'' [version_str v])"

definition advance_current :: "store_env \<Rightarrow> plan \<Rightarrow> 32 word option \<Rightarrow> unit io" where
  "advance_current env p expected =
     (let i = m_id (p_metadata p); v = m_version (p_metadata p);
          write = write_atomically env (current_path i) (plan_text env p)
      in bind (load_current_if_present env i) (\<lambda>current. case current of
           Some c \<Rightarrow>
             if same_plan c p then ret ()
             else if expected = Some (m_version (p_metadata c)) \<and> v = saturating_succ (m_version (p_metadata c)) then write
             else throw (consistency_error
               (fmt ''current plan compare-and-swap failed for '{}': expected {}, found v{}''
                 [i, opt_version expected, version_str (m_version (p_metadata c))]))
         | None \<Rightarrow>
             if expected = None \<and> v = 1 then write
             else throw (consistency_error
               (fmt ''current plan compare-and-swap failed for '{}': expected {}, found no current plan''
                 [i, opt_version expected]))))"

text \<open>The predecessor a saved version must have.\<close>

definition expected_predecessor :: "plan \<Rightarrow> plan option \<Rightarrow> storage_error + 32 word option" where
  "expected_predecessor p current =
     (let i = m_id (p_metadata p); v = m_version (p_metadata p) in
      case current of
        None \<Rightarrow> if v = 1 then Inr None
          else Inl (consistency_error (fmt ''cannot save plan '{}' at v{} without v1 as current'' [i, version_str v]))
      | Some c \<Rightarrow>
          if same_plan c p then Inr (Some (m_version (p_metadata c)))
          else (case checked_succ (m_version (p_metadata c)) of
             None \<Rightarrow> Inl (consistency_error (fmt ''plan '{}' version overflow'' [i]))
           | Some succ_v \<Rightarrow>
               if v \<noteq> succ_v then
                 Inl (consistency_error
                   (fmt ''stale or out-of-order plan save for '{}': current is v{}, candidate is v{}''
                     [i, version_str (m_version (p_metadata c)), version_str v]))
               else Inr (Some (m_version (p_metadata c)))))"

definition save_plan :: "store_env \<Rightarrow> plan \<Rightarrow> unit io" where
  "save_plan env p =
     seq (validate_record_id env (m_id (p_metadata p)))
       (bind (load_current_if_present env (m_id (p_metadata p))) (\<lambda>current.
        bind (lift_result (expected_predecessor p current)) (\<lambda>expected.
        seq (claim_snapshot env p) (advance_current env p expected))))"

record plan_summary =
  ps_id :: string
  ps_name :: string
  ps_version :: "32 word"
  ps_intent :: "string option"
  ps_updated_at :: instant
  ps_status :: plan_status

definition summary_of :: "plan \<Rightarrow> plan_summary" where
  "summary_of p = \<lparr>ps_id = m_id (p_metadata p), ps_name = p_name p, ps_version = m_version (p_metadata p),
     ps_intent = m_intent (p_metadata p), ps_updated_at = m_updated_at (p_metadata p),
     ps_status = m_status (p_metadata p)\<rparr>"

fun collect_summaries :: "store_env \<Rightarrow> (string \<times> bool) list \<Rightarrow> plan_summary list io" where
  "collect_summaries env [] = ret []"
| "collect_summaries env ((name, is_file) # entries) =
     (if is_file then collect_summaries env entries
      else bind (path_exists env (current_path name)) (\<lambda>found.
        if \<not> found then collect_summaries env entries
        else bind (attempt (load_current env name)) (\<lambda>r.
          bind (collect_summaries env entries) (\<lambda>rest.
          ret (case r of Inr p \<Rightarrow> summary_of p # rest | Inl e \<Rightarrow> rest)))))"

definition list_plans :: "store_env \<Rightarrow> plan_summary list io" where
  "list_plans env =
     bind (path_exists env PLANS_DIR) (\<lambda>found.
       if \<not> found then ret []
       else bind (read_dir env PLANS_DIR) (\<lambda>entries.
         bind (collect_summaries env entries) (\<lambda>ss. ret (sort_key (\<lambda>s. - ps_updated_at s) ss))))"

definition delete_plan :: "store_env \<Rightarrow> string \<Rightarrow> unit io" where
  "delete_plan env i =
     seq (validate_record_id env i) (bind (path_exists env (PLANS_DIR @ [i])) (\<lambda>found.
       if \<not> found then throw (SE_NotFound ''plan'' i) else remove_dir_all env (PLANS_DIR @ [i])))"

definition version_of_name :: "string \<Rightarrow> 32 word option" where
  "version_of_name name =
     Option.bind (strip_prefix name ''v'') (\<lambda>rest.
     Option.bind (strip_suffix rest ''.json'') (\<lambda>v. map_option of_nat (parse_uint (2 ^ 32) v)))"

fun collect_versions :: "store_env \<Rightarrow> string \<Rightarrow> (string \<times> bool) list \<Rightarrow> 32 word list io" where
  "collect_versions env i [] = ret []"
| "collect_versions env i ((name, is_file) # entries) =
     (case version_of_name name of
        None \<Rightarrow> collect_versions env i entries
      | Some v \<Rightarrow>
          if \<not> is_file then collect_versions env i entries
          else bind (attempt (load_version env i v)) (\<lambda>r.
            bind (collect_versions env i entries) (\<lambda>rest.
            ret (case r of Inr p \<Rightarrow> v # rest | Inl e \<Rightarrow> rest))))"

definition list_versions :: "store_env \<Rightarrow> string \<Rightarrow> 32 word list io" where
  "list_versions env i =
     seq (validate_record_id env i) (bind (path_exists env (PLANS_DIR @ [i])) (\<lambda>found.
       if \<not> found then throw (SE_NotFound ''plan'' i)
       else bind (read_dir env (PLANS_DIR @ [i])) (\<lambda>entries.
         bind (collect_versions env i entries) (\<lambda>vs. ret (sort vs)))))"

section \<open>One file per record\<close>

text \<open>
  The record type of a store: its directory, the kind its errors name, the identity and the date of
  a record, and its text form.
\<close>

record 'r codec =
  cd_dir :: path
  cd_kind :: string
  cd_label :: string
  cd_id :: "'r \<Rightarrow> string"
  cd_date :: "'r \<Rightarrow> instant"
  cd_text :: "'r \<Rightarrow> string"
  cd_read :: "string \<Rightarrow> storage_error + 'r"

definition record_path :: "'r codec \<Rightarrow> string \<Rightarrow> path" where
  "record_path cd i = cd_dir cd @ [fmt ''{}.json'' [i]]"

definition save_record :: "store_env \<Rightarrow> 'r codec \<Rightarrow> 'r \<Rightarrow> unit io" where
  "save_record env cd r =
     seq (validate_record_id env (cd_id cd r)) (seq (create_dir_all env (cd_dir cd))
       (write_atomically env (record_path cd (cd_id cd r)) (cd_text cd r)))"

definition load_record :: "store_env \<Rightarrow> 'r codec \<Rightarrow> string \<Rightarrow> 'r io" where
  "load_record env cd i =
     seq (validate_record_id env i) (bind (path_exists env (record_path cd i)) (\<lambda>found.
       if \<not> found then throw (SE_NotFound (cd_kind cd) i)
       else bind (read_file env (record_path cd i)) (\<lambda>raw.
         bind (lift_result (cd_read cd raw)) (\<lambda>r.
         if cd_id cd r \<noteq> i then
           throw (consistency_error (fmt ''{} identity mismatch: requested '{}', stored '{}{}''
             [cd_label cd, i, cd_id cd r, squote]))
         else ret r))))"

definition delete_record :: "store_env \<Rightarrow> 'r codec \<Rightarrow> string \<Rightarrow> unit io" where
  "delete_record env cd i =
     seq (validate_record_id env i) (bind (path_exists env (record_path cd i)) (\<lambda>found.
       if \<not> found then throw (SE_NotFound (cd_kind cd) i) else remove_file env (record_path cd i)))"

text \<open>\<^verbatim>\<open>trim_end_matches\<close> takes a suffix off as often as it occurs.\<close>

function trim_end_matches :: "string \<Rightarrow> string \<Rightarrow> string" where
  "trim_end_matches p s =
     (if p = [] then s else case strip_suffix s p of None \<Rightarrow> s | Some t \<Rightarrow> trim_end_matches p t)"
  by pat_completeness auto
termination
  by (relation "measure (\<lambda>(p, s). length s)") (auto simp: strip_suffix_Some)

declare trim_end_matches.simps [simp del]

fun collect_records :: "store_env \<Rightarrow> 'r codec \<Rightarrow> (string \<times> bool) list \<Rightarrow> 'r list io" where
  "collect_records env cd [] = ret []"
| "collect_records env cd ((name, is_file) # entries) =
     (if \<not> ends_with name ''.json'' \<or> \<not> is_file then collect_records env cd entries
      else bind (attempt (read_file env (cd_dir cd @ [name]))) (\<lambda>raw.
        bind (collect_records env cd entries) (\<lambda>rest.
        ret (case raw of Inl e \<Rightarrow> rest
             | Inr s \<Rightarrow> (case cd_read cd s of Inl e \<Rightarrow> rest
                 | Inr r \<Rightarrow> if cd_id cd r = trim_end_matches ''.json'' name then r # rest else rest)))))"

definition list_records :: "store_env \<Rightarrow> 'r codec \<Rightarrow> 'r list io" where
  "list_records env cd =
     bind (path_exists env (cd_dir cd)) (\<lambda>found.
       if \<not> found then ret []
       else bind (read_dir env (cd_dir cd)) (\<lambda>entries.
         bind (collect_records env cd entries) (\<lambda>rs. ret (sort_key (\<lambda>r. - cd_date cd r) rs))))"

section \<open>Patches\<close>

definition patch_text :: "store_env \<Rightarrow> patch \<Rightarrow> string" where
  "patch_text env p = se_text env (patch_doc (se_wire env) p)"

definition patch_codec :: "store_env \<Rightarrow> patch codec" where
  "patch_codec env = \<lparr>cd_dir = [''patches''], cd_kind = ''patch'', cd_label = ''patch'', cd_id = pt_id,
     cd_date = pt_proposed_at, cd_text = patch_text env,
     cd_read = decode env ''patch'' (patch_of (se_wire env))\<rparr>"

definition save_patch :: "store_env \<Rightarrow> patch \<Rightarrow> unit io" where
  "save_patch env p = save_record env (patch_codec env) p"

definition load_patch :: "store_env \<Rightarrow> string \<Rightarrow> patch io" where
  "load_patch env i = load_record env (patch_codec env) i"

definition list_patches :: "store_env \<Rightarrow> patch list io" where
  "list_patches env = list_records env (patch_codec env)"

end
