(* ===== verification/RepairCommit.thy ===== *)
theory RepairCommit
  imports PlanStore
begin

text \<open>
  \<^verbatim>\<open>StorageRoot\<close> of \<^verbatim>\<open>storage/mod.rs\<close>: opening a data root, and the
  crash-consistent commit of an approved repair.  A commit claims the snapshot of the next plan
  version, writes a journal, advances the current plan, marks the patch as applied and removes the
  journal; opening a root, and every commit, first completes the journals that are left.

  The commit lock serializes the commits of one process; it is held for the whole operation and not
  part of the model.
\<close>

definition STORE_DIRS :: "path list" where
  "STORE_DIRS = [[''plans''], [''runs''], [''patches''], [''plan_edits''], [''repair-transactions''],
     [''world-fixes''], [''llm-usage'']]"

definition TRANSACTIONS_DIR :: path where
  "TRANSACTIONS_DIR = [''repair-transactions'']"

record repair_transaction =
  tx_patch_id :: string
  tx_plan_id :: string
  tx_base_version :: "32 word"
  tx_next_plan :: plan

definition transaction_doc :: "wire \<Rightarrow> repair_transaction \<Rightarrow> json" where
  "transaction_doc w t = JObject [(''patch_id'', JString (tx_patch_id t)), (''plan_id'', JString (tx_plan_id t)),
     (''base_version'', u64_json (tx_base_version t)), (''next_plan'', plan_doc w (tx_next_plan t))]"

definition transaction_of :: "wire \<Rightarrow> json \<Rightarrow> repair_transaction option" where
  "transaction_of w v = Option.bind (struct_of [(''patch_id'', False), (''plan_id'', False), (''base_version'', False),
       (''next_plan'', False)] v) (\<lambda>kvs.
     Option.bind (req as_str kvs ''patch_id'') (\<lambda>i.
     Option.bind (req as_str kvs ''plan_id'') (\<lambda>p.
     Option.bind (req word_of kvs ''base_version'') (\<lambda>b.
     Option.bind (req (plan_of w) kvs ''next_plan'') (\<lambda>n.
     Some \<lparr>tx_patch_id = i, tx_plan_id = p, tx_base_version = b, tx_next_plan = n\<rparr>)))))"

definition same_transaction :: "repair_transaction \<Rightarrow> repair_transaction \<Rightarrow> bool" where
  "same_transaction t u \<longleftrightarrow> tx_patch_id t = tx_patch_id u \<and> tx_plan_id t = tx_plan_id u \<and>
     tx_base_version t = tx_base_version u \<and> same_plan (tx_next_plan t) (tx_next_plan u)"

definition transaction_text :: "store_env \<Rightarrow> repair_transaction \<Rightarrow> string" where
  "transaction_text env t = se_text env (transaction_doc (se_wire env) t)"

definition read_transaction :: "store_env \<Rightarrow> string \<Rightarrow> storage_error + repair_transaction" where
  "read_transaction env raw = decode env ''repair transaction'' (transaction_of (se_wire env)) raw"

definition journal_path :: "string \<Rightarrow> path" where
  "journal_path i = TRANSACTIONS_DIR @ [fmt ''{}.json'' [i]]"

definition persist_repair_transaction :: "store_env \<Rightarrow> repair_transaction \<Rightarrow> unit io" where
  "persist_repair_transaction env t =
     (let path = journal_path (tx_patch_id t)
      in seq (validate_record_id env (tx_patch_id t))
        (bind (write_exclusively env path (transaction_text env t)) (\<lambda>w. case w of
           Created \<Rightarrow> ret ()
         | AlreadyExists \<Rightarrow> bind (read_file env path) (\<lambda>raw.
             bind (lift_result (read_transaction env raw)) (\<lambda>existing.
             if same_transaction existing t then ret ()
             else throw (consistency_error (fmt ''conflicting repair journal for patch '{}{}''
               [tx_patch_id t, squote])))))))"

text \<open>Marking the patch: it must be the one the journal was written for.\<close>

definition settle_patch :: "store_env \<Rightarrow> repair_transaction \<Rightarrow> patch \<Rightarrow> unit io" where
  "settle_patch env t patch =
     (if pt_plan_id patch \<noteq> tx_plan_id t \<or> pt_plan_version patch \<noteq> tx_base_version t then
        throw (consistency_error (fmt ''persisted patch '{}' does not match its repair journal'' [tx_patch_id t]))
      else case pt_status patch of
        Approved \<Rightarrow> save_patch env (patch\<lparr>pt_status := Applied\<rparr>)
      | Applied \<Rightarrow> ret ()
      | s \<Rightarrow> throw (consistency_error (fmt ''patch '{}' changed to {} while its repair commit was pending''
          [tx_patch_id t, show_patch_status s])))"

definition remove_journal :: "store_env \<Rightarrow> string \<Rightarrow> unit io" where
  "remove_journal env i =
     bind (path_exists env (journal_path i)) (\<lambda>found.
       if found then seq (remove_file env (journal_path i)) (sync_parent_directory env) else ret ())"

definition complete_repair_transaction :: "store_env \<Rightarrow> repair_transaction \<Rightarrow> unit io" where
  "complete_repair_transaction env t =
     seq (validate_record_id env (tx_patch_id t)) (seq (validate_record_id env (tx_plan_id t))
     (if m_id (p_metadata (tx_next_plan t)) \<noteq> tx_plan_id t \<or>
         m_version (p_metadata (tx_next_plan t)) \<noteq> saturating_succ (tx_base_version t) then
        throw (consistency_error (fmt ''invalid repair journal for patch '{}{}'' [tx_patch_id t, squote]))
      else seq (claim_snapshot env (tx_next_plan t))
        (seq (advance_current env (tx_next_plan t) (Some (tx_base_version t)))
        (bind (load_patch env (tx_patch_id t)) (\<lambda>patch.
         seq (settle_patch env t patch) (remove_journal env (tx_patch_id t)))))))"

text \<open>A journal that cannot be read is moved out of the way, if it can be.\<close>

definition quarantine_unreadable_journal :: "store_env \<Rightarrow> string \<Rightarrow> unit io" where
  "quarantine_unreadable_journal env name =
     bind (attempt (rename_file env (TRANSACTIONS_DIR @ [name])
       (TRANSACTIONS_DIR @ [(case strip_suffix name ''.json'' of Some s \<Rightarrow> s | None \<Rightarrow> name) @ ''.json.corrupt'']))) (\<lambda>r. ret ())"

definition recover_journal :: "store_env \<Rightarrow> string \<Rightarrow> unit io" where
  "recover_journal env name =
     bind (attempt (read_file env (TRANSACTIONS_DIR @ [name]))) (\<lambda>raw. case raw of
       Inl (SE_Io IoNotFound m) \<Rightarrow> ret ()
     | Inl e \<Rightarrow> quarantine_unreadable_journal env name
     | Inr s \<Rightarrow> (case read_transaction env s of
           Inl e \<Rightarrow> quarantine_unreadable_journal env name
         | Inr t \<Rightarrow> complete_repair_transaction env t))"

text \<open>The extension of a file name: what follows the last dot, unless the name starts with it.\<close>

definition extension :: "string \<Rightarrow> string option" where
  "extension name = (case rsplit_once (CHR ''.'') name of
     None \<Rightarrow> None | Some (stem, ext) \<Rightarrow> if stem = [] then None else Some ext)"

definition journals :: "(string \<times> bool) list \<Rightarrow> string list" where
  "journals entries = sort (map fst (filter (\<lambda>(name, is_file). is_file \<and> extension name = Some ''json'') entries))"

definition recover_repair_transactions :: "store_env \<Rightarrow> unit io" where
  "recover_repair_transactions env =
     bind (read_dir env TRANSACTIONS_DIR) (\<lambda>entries. io_each (recover_journal env) (journals entries))"

definition open_storage :: "store_env \<Rightarrow> unit io" where
  "open_storage env =
     seq (create_dir_all env []) (seq (io_each (create_dir_all env) STORE_DIRS) (recover_repair_transactions env))"

text \<open>What a commit checks before it writes anything; \<open>None\<close> when it had been committed before.\<close>

definition check_commit :: "patch \<Rightarrow> plan \<Rightarrow> string \<Rightarrow> storage_error + unit" where
  "check_commit patch next_plan i =
     (if pt_status patch \<noteq> Approved then
        Inl (consistency_error (fmt ''patch '{}' must be approved before commit; found {}''
          [i, show_patch_status (pt_status patch)]))
      else if pt_plan_id patch \<noteq> m_id (p_metadata next_plan) then
        Inl (consistency_error (fmt ''repair plan identity mismatch for patch '{}': expected '{}', found '{}{}''
          [i, pt_plan_id patch, m_id (p_metadata next_plan), squote]))
      else case checked_succ (pt_plan_version patch) of
        None \<Rightarrow> Inl (consistency_error (fmt ''plan version overflow for patch '{}{}'' [i, squote]))
      | Some v \<Rightarrow>
          if m_version (p_metadata next_plan) \<noteq> v then
            Inl (consistency_error (fmt ''repair version mismatch for patch '{}': base is v{}, candidate is v{}''
              [i, version_str (pt_plan_version patch), version_str (m_version (p_metadata next_plan))]))
          else Inr ())"

definition commit_repair :: "store_env \<Rightarrow> string \<Rightarrow> plan \<Rightarrow> unit io" where
  "commit_repair env i next_plan =
     seq (validate_record_id env i) (seq (validate_record_id env (m_id (p_metadata next_plan)))
     (seq (recover_repair_transactions env) (bind (load_patch env i) (\<lambda>patch.
      if pt_status patch = Applied then
        bind (load_current env (pt_plan_id patch)) (\<lambda>current.
          if same_plan current next_plan then ret ()
          else throw (consistency_error (fmt ''patch '{}' is already applied to different plan content'' [i])))
      else seq (lift_result (check_commit patch next_plan i))
        (bind (load_current env (pt_plan_id patch)) (\<lambda>current.
         if m_version (p_metadata current) \<noteq> pt_plan_version patch then
           throw (consistency_error (fmt ''stale repair patch '{}': current plan is v{}, patch targets v{}''
             [i, version_str (m_version (p_metadata current)), version_str (pt_plan_version patch)]))
         else (let t = \<lparr>tx_patch_id = i, tx_plan_id = pt_plan_id patch, tx_base_version = pt_plan_version patch,
                        tx_next_plan = next_plan\<rparr>
           in seq (claim_snapshot env next_plan) (seq (persist_repair_transaction env t)
             (complete_repair_transaction env t)))))))))"

end
