(* ===== verification/DemoText.thy ===== *)
theory DemoText
  imports Json
begin

text \<open>
  A text form of JSON documents that reads back, for the witnesses: every character of a string is
  marked, integers are unary, lists and objects are bracketed.  It stands for \<^verbatim>\<open>serde_json\<close>
  where a property assumes that a document is read back as it was written.
\<close>

definition demo_chars :: "string \<Rightarrow> string" where
  "demo_chars s = concat (map (\<lambda>c. [CHR ''.'', c]) s) @ '';''"

definition demo_int :: "int \<Rightarrow> string" where
  "demo_int i = (if 0 \<le> i then replicate (nat i) (CHR ''p'') else replicate (nat (- i)) (CHR ''m'')) @ '';''"

fun demo_text :: "json \<Rightarrow> string" where
  "demo_text JNull = ''n''"
| "demo_text (JBool b) = (if b then ''t'' else ''f'')"
| "demo_text (JNumber (NumInt i)) = CHR ''i'' # demo_int i"
| "demo_text (JNumber (NumFloat m e)) = CHR ''d'' # demo_int m @ demo_int e"
| "demo_text (JString s) = CHR ''s'' # demo_chars s"
| "demo_text (JArray vs) = CHR ''['' # concat (map demo_text vs) @ '']''"
| "demo_text (JObject kvs) = CHR ''{'' # concat (map (\<lambda>(k, v). CHR ''k'' # demo_chars k @ demo_text v) kvs) @ ''}''"

fun read_chars :: "string \<Rightarrow> (string \<times> string) option" where
  "read_chars (a # b # s) =
     (if a = CHR ''.'' then map_option (\<lambda>(cs, r). (b # cs, r)) (read_chars s)
      else if a = CHR '';'' then Some ([], b # s) else None)"
| "read_chars [a] = (if a = CHR '';'' then Some ([], []) else None)"
| "read_chars [] = None"

fun read_run :: "char \<Rightarrow> string \<Rightarrow> (int \<times> string) option" where
  "read_run x [] = None"
| "read_run x (a # s) =
     (if a = x then map_option (\<lambda>(n, r). (n + 1, r)) (read_run x s)
      else if a = CHR '';'' then Some (0, s) else None)"

definition read_int :: "string \<Rightarrow> (int \<times> string) option" where
  "read_int s = (if hd (s @ '';'') = CHR ''m'' then map_option (\<lambda>(n, r). (- n, r)) (read_run (CHR ''m'') s)
     else read_run (CHR ''p'') s)"

fun read_value :: "nat \<Rightarrow> string \<Rightarrow> (json \<times> string) option"
  and read_items :: "nat \<Rightarrow> string \<Rightarrow> (json list \<times> string) option"
  and read_entries :: "nat \<Rightarrow> string \<Rightarrow> ((string \<times> json) list \<times> string) option" where
  "read_value 0 s = None"
| "read_value (Suc n) [] = None"
| "read_value (Suc n) (a # s) =
     (if a = CHR ''n'' then Some (JNull, s)
      else if a = CHR ''t'' then Some (JBool True, s)
      else if a = CHR ''f'' then Some (JBool False, s)
      else if a = CHR ''i'' then map_option (\<lambda>(i, r). (JNumber (NumInt i), r)) (read_int s)
      else if a = CHR ''d'' then
        Option.bind (read_int s) (\<lambda>(m, r). map_option (\<lambda>(e, r'). (JNumber (NumFloat m e), r')) (read_int r))
      else if a = CHR ''s'' then map_option (\<lambda>(cs, r). (JString cs, r)) (read_chars s)
      else if a = CHR ''['' then map_option (\<lambda>(vs, r). (JArray vs, r)) (read_items n s)
      else if a = CHR ''{'' then map_option (\<lambda>(kvs, r). (JObject kvs, r)) (read_entries n s)
      else None)"
| "read_items 0 s = None"
| "read_items (Suc n) s =
     (if hd (s @ ''x'') = CHR '']'' then Some ([], tl s)
      else Option.bind (read_value n s) (\<lambda>(v, r). map_option (\<lambda>(vs, r'). (v # vs, r')) (read_items n r)))"
| "read_entries 0 s = None"
| "read_entries (Suc n) s =
     (if hd (s @ ''x'') = CHR ''}'' then Some ([], tl s)
      else Option.bind (read_chars (tl s)) (\<lambda>(k, r). Option.bind (read_value n r) (\<lambda>(v, r').
        map_option (\<lambda>(kvs, r''). ((k, v) # kvs, r'')) (read_entries n r'))))"

definition demo_parse :: "string \<Rightarrow> json option" where
  "demo_parse s = (case read_value (length s + 1) s of Some (v, []) \<Rightarrow> Some v | _ \<Rightarrow> None)"

lemma read_demo_chars: "read_chars (demo_chars s @ r) = Some (s, r)"
  by (induction s) (simp_all add: demo_chars_def, cases r, simp_all)

lemma read_run_replicate: "x \<noteq> CHR '';'' \<Longrightarrow> read_run x (replicate n x @ CHR '';'' # r) = Some (int n, r)"
  by (induction n) simp_all

lemma read_demo_int: "read_int (demo_int i @ r) = Some (i, r)"
proof -
  have "hd (replicate n (CHR ''p'') @ CHR '';'' # r @ '';'') \<noteq> CHR ''m''" for n by (cases n) auto
  moreover have "hd (replicate n (CHR ''m'') @ CHR '';'' # r @ '';'') = CHR ''m'' \<longleftrightarrow> 0 < n" for n by (cases n) auto
  ultimately show ?thesis by (simp add: read_int_def demo_int_def read_run_replicate)
qed

lemma text_starts: "hd (demo_text v @ s) \<noteq> CHR '']''" "demo_text v \<noteq> []"
  by (cases v rule: demo_text.cases; simp)+

lemma read_items_text:
  assumes "\<And>v r n. v \<in> set vs \<Longrightarrow> length (demo_text v) \<le> n \<Longrightarrow> read_value n (demo_text v @ r) = Some (v, r)"
    and "length (concat (map demo_text vs)) < n"
  shows "read_items n (concat (map demo_text vs) @ CHR '']'' # r) = Some (vs, r)"
  using assms
proof (induction vs arbitrary: n)
  case Nil
  then show ?case by (cases n) auto
next
  case (Cons v vs)
  then obtain m where n: "n = Suc m" by (cases n) auto
  have "0 < length (demo_text v)" using text_starts(2) by simp
  with Cons.prems(2) have m: "length (demo_text v) \<le> m" "length (concat (map demo_text vs)) < m"
    by (simp_all add: n del: length_greater_0_conv)
  have "read_items m (concat (map demo_text vs) @ CHR '']'' # r) = Some (vs, r)"
    using Cons.prems(1) by (intro Cons.IH [OF _ m(2)]) auto
  then show ?case
    using Cons.prems(1) [of v m] m(1) text_starts(1) by (simp add: n)
qed

lemma read_entries_text:
  assumes "\<And>k v r n. (k, v) \<in> set kvs \<Longrightarrow> length (demo_text v) \<le> n \<Longrightarrow> read_value n (demo_text v @ r) = Some (v, r)"
    and "length (concat (map (\<lambda>(k, v). CHR ''k'' # demo_chars k @ demo_text v) kvs)) < n"
  shows "read_entries n (concat (map (\<lambda>(k, v). CHR ''k'' # demo_chars k @ demo_text v) kvs) @ CHR ''}'' # r) = Some (kvs, r)"
  using assms
proof (induction kvs arbitrary: n)
  case Nil
  then show ?case by (cases n) auto
next
  case (Cons kv kvs)
  obtain k v where kv: "kv = (k, v)" by (cases kv)
  from Cons.prems(2) obtain m where n: "n = Suc m" by (cases n) auto
  from Cons.prems(2) have m: "length (demo_text v) \<le> m"
      "length (concat (map (\<lambda>(k, v). CHR ''k'' # demo_chars k @ demo_text v) kvs)) < m"
    by (auto simp: n kv)
  have "read_entries m (concat (map (\<lambda>(k, v). CHR ''k'' # demo_chars k @ demo_text v) kvs) @ CHR ''}'' # r) = Some (kvs, r)"
    using Cons.prems(1) by (intro Cons.IH [OF _ m(2)]) auto
  then show ?case
    using Cons.prems(1) [of k v m] m(1) by (simp add: n kv read_demo_chars)
qed

lemma read_demo_value: "length (demo_text v) \<le> n \<Longrightarrow> read_value n (demo_text v @ r) = Some (v, r)"
proof (induction v arbitrary: n r rule: demo_text.induct)
  case (6 vs)
  then obtain m where n: "n = Suc m" by (cases n) auto
  have "read_items m (concat (map demo_text vs) @ CHR '']'' # r) = Some (vs, r)"
    using 6 by (intro read_items_text) (auto simp: n)
  then show ?case by (simp add: n)
next
  case (7 kvs)
  then obtain m where n: "n = Suc m" by (cases n) auto
  have "read_entries m (concat (map (\<lambda>(k, v). CHR ''k'' # demo_chars k @ demo_text v) kvs) @ CHR ''}'' # r) = Some (kvs, r)"
    using 7 by (intro read_entries_text) (auto simp: n)
  then show ?case by (simp add: n)
next
  case (1 n r)
  then show ?case by (cases n) auto
next
  case (2 b n r)
  then show ?case by (cases n; cases b) auto
next
  case (3 i n r)
  then show ?case by (cases n) (auto simp: read_demo_int)
next
  case (4 m e n r)
  then show ?case by (cases n) (auto simp: read_demo_int)
next
  case (5 s n r)
  then show ?case by (cases n) (auto simp: read_demo_chars)
qed

lemma demo_parse_text: "demo_parse (demo_text v) = Some v"
  using read_demo_value [of v "length (demo_text v) + 1" "[]"] by (simp add: demo_parse_def)

end
