(* ===== verification/CrashSafety.thy ===== *)
theory CrashSafety
  imports RepairCommit DemoText
begin

text \<open>
  Crash safety of the repair commit.  \<open>triple P m Q E\<close> says that a computation started in \<open>P\<close> ends
  normally in \<open>Q\<close>, and that it leaves \<open>E\<close> behind when it fails or the process dies in it, at whatever
  system call.  The published files of a disk are those with the extension
  \<^verbatim>\<open>json\<close>; a temporary file is none of them, so that writing one changes nothing that is
  published and a rename or a link publishes a whole document.
\<close>

section \<open>Triples\<close>

definition triple :: "(disk \<Rightarrow> bool) \<Rightarrow> 'a io \<Rightarrow> ('a \<Rightarrow> disk \<Rightarrow> bool) \<Rightarrow> (disk \<Rightarrow> bool) \<Rightarrow> bool" where
  "triple P m Q E \<longleftrightarrow> (\<forall>d. P d \<longrightarrow> (case m d of
     (d', Done v) \<Rightarrow> Q v d' | (d', Failed e) \<Rightarrow> E d' | (d', Crashed) \<Rightarrow> E d'))"

lemma triple_ret: "(\<And>d. P d \<Longrightarrow> Q v d) \<Longrightarrow> triple P (ret v) Q E"
  by (simp add: triple_def ret_def)

lemma triple_throw: "(\<And>d. P d \<Longrightarrow> E d) \<Longrightarrow> triple P (throw e) Q E"
  by (simp add: triple_def throw_def)

lemma triple_bind: "triple P m R E \<Longrightarrow> (\<And>v. triple (R v) (k v) Q E) \<Longrightarrow> triple P (bind m k) Q E"
  by (fastforce simp: triple_def bind_def split: prod.splits outcome.splits)

lemma triple_seq: "triple P m (\<lambda>u. R) E \<Longrightarrow> triple R k Q E \<Longrightarrow> triple P (seq m k) Q E"
  unfolding seq_def by (rule triple_bind)

lemma triple_attempt: "triple P m Q E \<Longrightarrow>
    triple P (attempt m) (\<lambda>r d. case r of Inr v \<Rightarrow> Q v d | Inl e \<Rightarrow> E d) E"
  by (fastforce simp: triple_def attempt_def split: prod.splits outcome.splits)

lemma triple_conseq: "triple P m Q E \<Longrightarrow> (\<And>d. P' d \<Longrightarrow> P d) \<Longrightarrow> (\<And>v d. Q v d \<Longrightarrow> Q' v d) \<Longrightarrow>
    (\<And>d. E d \<Longrightarrow> E' d) \<Longrightarrow> triple P' m Q' E'"
  by (fastforce simp: triple_def split: prod.splits outcome.splits)

lemma triple_pure: "(\<phi> \<Longrightarrow> triple P m Q E) \<Longrightarrow> triple (\<lambda>d. \<phi> \<and> P d) m Q E"
  by (auto simp: triple_def)

lemma triple_at: "(\<And>d. P d \<Longrightarrow> triple (\<lambda>d'. d' = d) m Q E) \<Longrightarrow> triple P m Q E"
  by (auto simp: triple_def)

lemma triple_lift: "(\<And>v. r = Inr v \<Longrightarrow> triple P (ret v) Q E) \<Longrightarrow> (\<And>d. P d \<Longrightarrow> E d) \<Longrightarrow> triple P (lift_result r) Q E"
  by (cases r) (auto simp: lift_result_def intro: triple_throw)

lemma triple_sys:
  assumes "\<And>d. P d \<Longrightarrow> E (broken (d\<lparr>dk_calls := dk_calls d + 1\<rparr>))"
    and "\<And>d. P d \<Longrightarrow> triple (\<lambda>d'. d' = d\<lparr>dk_calls := dk_calls d + 1\<rparr>) effect Q E"
  shows "triple P (sys env broken effect) Q E"
  using assms by (fastforce simp: triple_def sys_def Let_def split: fault.splits)

section \<open>Published files\<close>

definition json_path :: "path \<Rightarrow> bool" where
  "json_path p \<longleftrightarrow> p \<noteq> [] \<and> extension (last p) = Some ''json''"

definition published :: "disk \<Rightarrow> path \<Rightarrow> string option" where
  "published d p = (if json_path p then get_file d p else None)"

abbreviation "pub f \<equiv> (\<lambda>d. published d = f)"

lemma get_file_put [simp]: "get_file (put_file p c d) q = (if q = p then Some c else get_file d q)"
  by (simp add: get_file_def put_file_def update_conv')

lemma get_file_drop [simp]: "get_file (drop_file p d) q = (if q = p then None else get_file d q)"
proof -
  have "map_of (filter (\<lambda>(q, c). q \<noteq> p) m) q = (if q = p then None else map_of m q)" for m :: "(path \<times> string) list"
    by (induction m) auto
  then show ?thesis by (simp add: get_file_def drop_file_def)
qed

lemma get_file_calls [simp]: "get_file (d\<lparr>dk_calls := n\<rparr>) p = get_file d p"
    "get_file (d\<lparr>dk_dirs := ds\<rparr>) p = get_file d p"
  by (simp_all add: get_file_def)

lemma published_simps [simp]:
  "published (d\<lparr>dk_calls := n\<rparr>) = published d"
  "published (d\<lparr>dk_dirs := ds\<rparr>) = published d"
  "published (put_file p c d) = (if json_path p then (published d)(p \<mapsto> c) else published d)"
  "published (drop_file p d) = (if json_path p then (published d)(p := None) else published d)"
  by (auto simp: published_def fun_eq_iff)

lemma extension_dot: "CHR ''.'' \<notin> set e \<Longrightarrow> s \<noteq> [] \<Longrightarrow> extension (s @ CHR ''.'' # e) = Some e"
proof -
  assume e: "CHR ''.'' \<notin> set e" and s: "s \<noteq> []"
  then have "rsplit_once (CHR ''.'') (s @ CHR ''.'' # e) = Some (s, e)" by (simp add: rsplit_once_Some)
  with s show ?thesis by (simp add: extension_def)
qed

lemma fmt_json: "fmt ''{}.json'' [i] = i @ ''.json''"
  by (simp add: fmt.simps)

lemma fmt_version: "fmt ''v{}.json'' [i] = CHR ''v'' # i @ ''.json''"
  by (simp add: fmt.simps)

lemma temp_not_json: "\<not> json_path (temp_path env p d)"
proof -
  have "fmt ''{}.{}{}'' [a, b, TEMP_FILE_SUFFIX] = (a @ CHR ''.'' # b) @ CHR ''.'' # ''tmp''" for a b
    by (simp add: fmt.simps TEMP_FILE_SUFFIX_def)
  then have "extension (last (temp_path env p d)) = Some ''tmp''"
    using extension_dot [of "''tmp''" "last p @ CHR ''.'' # se_uuid env (dk_calls d)"]
    by (simp add: temp_path_def)
  then show ?thesis by (simp add: json_path_def)
qed

section \<open>The write primitives\<close>

lemma pub_sync: "triple P (sync_file env) (\<lambda>u. P) P" if "\<And>d n. P (d\<lparr>dk_calls := n\<rparr>) = P d"
  unfolding sync_file_def by (rule triple_sys) (simp_all add: triple_def that)

lemma pub_create_dir: "triple (pub f) (create_dir_all env p) (\<lambda>u. pub f) (pub f)"
  unfolding create_dir_all_def by (rule triple_sys) (simp_all add: triple_def)

lemma pub_read: "triple (pub f) (read_file env p) (\<lambda>c d. published d = f \<and> (json_path p \<longrightarrow> f p = Some c)) (pub f)"
  unfolding read_file_def
  by (rule triple_sys) (auto simp: triple_def io_error_def throw_def published_def split: option.splits)

lemma pub_exists: "triple (pub f) (path_exists env p)
    (\<lambda>found d. published d = f) (pub f)"
  by (auto simp: path_exists_def triple_def sys_def Let_def split: fault.splits)

lemma pub_remove: "\<not> json_path p \<Longrightarrow> triple (pub f) (remove_file env p) (\<lambda>u. pub f) (pub f)"
  unfolding remove_file_def by (rule triple_sys) (auto simp: triple_def io_error_def throw_def)

lemma pub_fill_temp:
  assumes "\<not> json_path temp"
  shows "triple (pub f) (fill_temp env temp c) (\<lambda>u d. published d = f \<and> get_file d temp = Some c) (pub f)"
proof -
  have create: "triple (pub f) (create_new env temp) (\<lambda>u. pub f) (pub f)"
    unfolding create_new_def
    by (rule triple_sys) (auto simp: triple_def io_error_def throw_def assms)
  have filled: "triple (pub f) (write_all env temp c) (\<lambda>u d. published d = f \<and> get_file d temp = Some c) (pub f)"
    by (auto simp: triple_def write_all_def sys_def Let_def assms split: fault.splits)
  have sync: "triple (\<lambda>d. published d = f \<and> get_file d temp = Some c) (sync_file env)
      (\<lambda>u d. published d = f \<and> get_file d temp = Some c) (pub f)"
    by (rule triple_conseq [OF pub_sync [of "\<lambda>d. published d = f \<and> get_file d temp = Some c"]]) auto
  show ?thesis
    unfolding fill_temp_def by (intro triple_seq [OF create] triple_seq [OF filled] sync)
qed

lemma write_atomically_triple:
  assumes "json_path p"
  shows "triple (pub f) (write_atomically env p c) (\<lambda>u. pub (f(p \<mapsto> c))) (\<lambda>d. published d \<in> {f, f(p \<mapsto> c)})"
proof (rule triple_at)
  fix d0
  assume d0: "published d0 = f"
  let ?temp = "temp_path env p d0" and ?E = "\<lambda>d. published d \<in> {f, f(p \<mapsto> c)}"
  have fill: "triple (pub f) (fill_temp env ?temp c) (\<lambda>u d. published d = f \<and> get_file d ?temp = Some c) ?E"
    by (rule triple_conseq [OF pub_fill_temp [OF temp_not_json]]) auto
  have rename: "triple (\<lambda>d. published d = f \<and> get_file d ?temp = Some c) (rename_file env ?temp p) (\<lambda>u. pub (f(p \<mapsto> c))) ?E"
    unfolding rename_file_def
    by (rule triple_sys) (auto simp: triple_def assms temp_not_json)
  have sync: "triple (pub (f(p \<mapsto> c))) (sync_file env) (\<lambda>u. pub (f(p \<mapsto> c))) ?E"
    by (rule triple_conseq [OF pub_sync [of "pub (f(p \<mapsto> c))"]]) auto
  have body: "triple (pub f) (seq (fill_temp env ?temp c) (seq (rename_file env ?temp p)
      (seq (sync_file env) (sync_parent_directory env)))) (\<lambda>u. pub (f(p \<mapsto> c))) ?E"
    unfolding sync_parent_directory_def
    by (intro triple_seq [OF fill] triple_seq [OF rename] triple_seq [OF sync] sync)
  have cleanup: "triple ?E (attempt (remove_file env ?temp)) (\<lambda>r. ?E) ?E"
    by (rule triple_at) (rule triple_conseq [OF triple_attempt [OF pub_remove [OF temp_not_json]]], auto split: sum.splits)
  have "triple (pub f) (bind (attempt (seq (fill_temp env ?temp c) (seq (rename_file env ?temp p)
      (seq (sync_file env) (sync_parent_directory env))))) (\<lambda>r. case r of Inr u \<Rightarrow> ret ()
        | Inl e \<Rightarrow> bind (attempt (remove_file env ?temp)) (\<lambda>ignored. throw e))) (\<lambda>u. pub (f(p \<mapsto> c))) ?E"
  proof (rule triple_bind [OF triple_attempt [OF body]], goal_cases)
    case (1 r)
    show ?case
    proof (cases r)
      case (Inl e)
      have "triple ?E (bind (attempt (remove_file env ?temp)) (\<lambda>ignored. throw e)) (\<lambda>u. pub (f(p \<mapsto> c))) ?E"
        by (rule triple_bind [OF cleanup]) (rule triple_throw)
      with Inl show ?thesis by simp
    qed (simp add: triple_ret)
  qed
  with d0 show "triple (\<lambda>d. d = d0) (write_atomically env p c) (\<lambda>u. pub (f(p \<mapsto> c))) ?E"
    by (simp add: triple_def write_atomically_def Let_def)
qed

definition links_supported :: "store_env \<Rightarrow> bool" where
  "links_supported env \<longleftrightarrow> (\<forall>n. se_fault env n \<noteq> Fails IoUnsupported)"

text \<open>What claiming a file may have done when it does not return.\<close>

definition claimed :: "(path \<Rightarrow> string option) \<Rightarrow> path \<Rightarrow> string \<Rightarrow> (path \<Rightarrow> string option) set" where
  "claimed f p c = (if f p = None then {f, f(p \<mapsto> c)} else {f})"

lemma write_exclusively_triple:
  assumes "json_path p" and "links_supported env"
  shows "triple (pub f) (write_exclusively env p c)
    (\<lambda>w d. case w of Created \<Rightarrow> f p = None \<and> published d = f(p \<mapsto> c) | AlreadyExists \<Rightarrow> published d = f)
    (\<lambda>d. published d \<in> claimed f p c)"
proof (rule triple_at)
  fix d0
  assume d0: "published d0 = f"
  let ?temp = "temp_path env p d0" and ?E = "\<lambda>d. published d \<in> claimed f p c"
  let ?Q = "\<lambda>w d. case w of Created \<Rightarrow> f p = None \<and> published d = f(p \<mapsto> c) | AlreadyExists \<Rightarrow> published d = f"
  have fill: "triple (pub f) (fill_temp env ?temp c) (\<lambda>u d. published d = f \<and> get_file d ?temp = Some c) ?E"
    by (rule triple_conseq [OF pub_fill_temp [OF temp_not_json]]) (auto simp: claimed_def)
  have link: "triple (\<lambda>d. published d = f \<and> get_file d ?temp = Some c) (attempt (hard_link env ?temp p))
      (\<lambda>r d. case r of Inr u \<Rightarrow> f p = None \<and> published d = f(p \<mapsto> c)
         | Inl e \<Rightarrow> published d = f \<and> (\<forall>m. e \<noteq> SE_Io IoUnsupported m)) ?E"
    using assms
    by (auto simp: triple_def attempt_def hard_link_def sys_def Let_def io_error_def throw_def claimed_def links_supported_def
        published_def temp_not_json split: fault.splits)
  have sync: "triple (\<lambda>d. f p = None \<and> published d = f(p \<mapsto> c)) (sync_file env)
      (\<lambda>u d. f p = None \<and> published d = f(p \<mapsto> c)) ?E"
    by (rule triple_conseq [OF pub_sync [of "\<lambda>d. f p = None \<and> published d = f(p \<mapsto> c)"]]) (auto simp: claimed_def)
  have claim: "triple (\<lambda>d. published d = f \<and> get_file d ?temp = Some c) (claim_link env ?temp p c) ?Q ?E"
    unfolding claim_link_def
  proof (rule triple_bind [OF link], goal_cases)
    case (1 r)
    show ?case
    proof (cases r)
      case (Inr u)
      then show ?thesis
        by (auto simp: sync_parent_directory_def intro!: triple_seq [OF sync] triple_ret)
    next
      case (Inl e)
      show ?thesis
      proof (cases e)
        case (SE_Io k m)
        with Inl show ?thesis
          by (cases k) (auto simp: triple_def ret_def throw_def claimed_def)
      qed (use Inl in \<open>auto simp: triple_def throw_def claimed_def\<close>)
    qed
  qed
  have body: "triple (pub f) (seq (fill_temp env ?temp c) (claim_link env ?temp p c)) ?Q ?E"
    by (rule triple_seq [OF fill claim])
  have cleanup: "triple (pub g) (attempt (remove_file env ?temp)) (\<lambda>r. pub g) (pub g)" for g
    by (rule triple_conseq [OF triple_attempt [OF pub_remove [OF temp_not_json]]]) (auto split: sum.splits)
  have "triple (pub f) (bind (attempt (seq (fill_temp env ?temp c) (claim_link env ?temp p c)))
      (\<lambda>r. bind (attempt (remove_file env ?temp)) (\<lambda>ignored. lift_result r))) ?Q ?E"
  proof (rule triple_bind [OF triple_attempt [OF body]], goal_cases)
    case (1 r)
    show ?case
    proof (rule triple_at)
      fix d
      assume d: "case r of Inr w \<Rightarrow> ?Q w d | Inl e \<Rightarrow> ?E d"
      have e: "?E d'" if "published d' = published d" for d'
        using d that by (cases r) (auto simp: claimed_def split: exclusive_write.splits)
      have c: "triple (pub (published d)) (attempt (remove_file env ?temp)) (\<lambda>r. pub (published d)) ?E"
        by (rule triple_conseq [OF cleanup]) (use e in auto)
      have l: "triple (pub (published d)) (lift_result r) ?Q ?E"
        using d e by (cases r) (auto simp: lift_result_def split: exclusive_write.splits intro!: triple_ret triple_throw)
      have "triple (pub (published d)) (bind (attempt (remove_file env ?temp)) (\<lambda>ignored. lift_result r)) ?Q ?E"
        by (rule triple_bind [OF c l])
      then show "triple (\<lambda>d'. d' = d) (bind (attempt (remove_file env ?temp)) (\<lambda>ignored. lift_result r)) ?Q ?E"
        by (auto simp: triple_def)
    qed
  qed
  with d0 show "triple (\<lambda>d. d = d0) (write_exclusively env p c) ?Q ?E"
    by (simp add: triple_def write_exclusively_def Let_def)
qed

section \<open>Reading\<close>

text \<open>A stored plan, and a stored record, as the files say.\<close>

definition plan_at :: "store_env \<Rightarrow> (path \<Rightarrow> string option) \<Rightarrow> path \<Rightarrow> plan \<Rightarrow> bool" where
  "plan_at env f path p \<longleftrightarrow> (\<exists>raw. f path = Some raw \<and> decode env ''plan'' (plan_of (se_wire env)) raw = Inr p)"

definition record_at :: "'r codec \<Rightarrow> (path \<Rightarrow> string option) \<Rightarrow> string \<Rightarrow> 'r \<Rightarrow> bool" where
  "record_at cd f i r \<longleftrightarrow> (\<exists>raw. f (record_path cd i) = Some raw \<and> cd_read cd raw = Inr r)"

lemma validate_triple: "(\<And>d. P d \<Longrightarrow> E d) \<Longrightarrow> triple P (validate_record_id env i) (\<lambda>u. P) E"
  by (auto simp: validate_record_id_def intro: triple_ret triple_throw)

lemma load_plan_triple:
  assumes "json_path path"
  shows "triple (pub f) (load_plan_from_path env path i)
    (\<lambda>p d. published d = f \<and> plan_at env f path p \<and> m_id (p_metadata p) = i) (pub f)"
  unfolding load_plan_from_path_def
proof (rule triple_bind [OF pub_exists], goal_cases)
  case (1 found)
  have "triple (pub f) (bind (read_file env path) (\<lambda>raw.
       bind (lift_result (decode env ''plan'' (plan_of (se_wire env)) raw)) (\<lambda>p.
       if m_id (p_metadata p) \<noteq> i then throw (e p) else ret p)))
     (\<lambda>p d. published d = f \<and> plan_at env f path p \<and> m_id (p_metadata p) = i) (pub f)" for e
  proof (rule triple_bind [OF pub_read], goal_cases)
    case (1 raw)
    show ?case
      using assms
      by (cases "decode env ''plan'' (plan_of (se_wire env)) raw")
        (auto simp: triple_def bind_def lift_result_def throw_def ret_def plan_at_def)
  qed
  then show ?case by (auto intro: triple_throw)
qed

lemma current_json: "json_path (current_path i)"
  using extension_dot [of "''json''" "''current''"] by (simp add: json_path_def current_path_def)

lemma version_json: "json_path (version_path i v)"
  using extension_dot [of "''json''" "CHR ''v'' # version_str v"]
  by (simp add: json_path_def version_path_def version_file_name_def fmt_version)

lemma record_json: "i \<noteq> [] \<Longrightarrow> json_path (record_path cd i)"
  using extension_dot [of "''json''" i] by (simp add: json_path_def record_path_def fmt_json)

lemma load_current_triple: "triple (pub f) (load_current env i)
    (\<lambda>p d. published d = f \<and> plan_at env f (current_path i) p \<and> m_id (p_metadata p) = i) (pub f)"
  unfolding load_current_def
  by (rule triple_seq [OF validate_triple load_plan_triple [OF current_json]])

lemma load_version_triple: "triple (pub f) (load_version env i v)
    (\<lambda>p d. published d = f \<and> plan_at env f (version_path i v) p) (pub f)"
  unfolding load_version_def
  by (rule triple_seq [OF validate_triple], assumption, rule triple_bind [OF load_plan_triple [OF version_json]])
    (auto simp: triple_def ret_def throw_def)

lemma load_current_if_present_triple: "triple (pub f) (load_current_if_present env i)
    (\<lambda>c d. published d = f \<and> (\<forall>p. c = Some p \<longrightarrow> plan_at env f (current_path i) p)) (pub f)"
  unfolding load_current_if_present_def
proof (rule triple_bind [OF pub_exists], goal_cases)
  case (1 found)
  have "triple (pub f) (bind (load_plan_from_path env (current_path i) i) (\<lambda>p. ret (Some p)))
      (\<lambda>c d. published d = f \<and> (\<forall>p. c = Some p \<longrightarrow> plan_at env f (current_path i) p)) (pub f)"
    by (rule triple_bind [OF load_plan_triple [OF current_json]]) (auto intro: triple_ret)
  then show ?case by (auto intro: triple_ret)
qed

lemma load_record_triple:
  assumes "i \<noteq> []"
  shows "triple (pub f) (load_record env cd i) (\<lambda>r d. published d = f \<and> record_at cd f i r) (pub f)"
  unfolding load_record_def
proof (rule triple_seq [OF validate_triple], assumption, rule triple_bind [OF pub_exists], goal_cases)
  case (1 found)
  have "triple (pub f) (bind (read_file env (record_path cd i)) (\<lambda>raw.
         bind (lift_result (cd_read cd raw)) (\<lambda>r. if cd_id cd r \<noteq> i then throw (e r) else ret r)))
     (\<lambda>r d. published d = f \<and> record_at cd f i r) (pub f)" for e
  proof (rule triple_bind [OF pub_read], goal_cases)
    case (1 raw)
    show ?case
      using record_json [OF assms, of cd]
      by (cases "cd_read cd raw") (auto simp: triple_def bind_def lift_result_def throw_def ret_def record_at_def)
  qed
  then show ?case by (auto intro: triple_throw)
qed

section \<open>Publishing plans and patches\<close>

abbreviation "snapshot_path p \<equiv> version_path (m_id (p_metadata p)) (m_version (p_metadata p))"

abbreviation "plan_current_path p \<equiv> current_path (m_id (p_metadata p))"

lemma claim_snapshot_triple:
  assumes "links_supported env"
  shows "triple (pub f) (claim_snapshot env p)
    (\<lambda>u d. f (snapshot_path p) = None \<and> published d = f(snapshot_path p \<mapsto> plan_text env p) \<or>
       published d = f \<and> (\<exists>e. plan_at env f (snapshot_path p) e \<and> same_plan e p))
    (\<lambda>d. published d \<in> claimed f (snapshot_path p) (plan_text env p))"
    (is "triple _ _ ?Q ?E")
proof -
  have f: "published d = f \<Longrightarrow> ?E d" for d by (auto simp: claimed_def)
  have dir: "triple (pub f) (create_dir_all env (PLANS_DIR @ [m_id (p_metadata p)])) (\<lambda>u. pub f) ?E"
    by (rule triple_conseq [OF pub_create_dir]) (auto simp: claimed_def)
  have existing: "triple (pub f) (load_version env (m_id (p_metadata p)) (m_version (p_metadata p)))
      (\<lambda>e d. published d = f \<and> plan_at env f (snapshot_path p) e) ?E"
    by (rule triple_conseq [OF load_version_triple]) (auto simp: claimed_def)
  have load: "triple (pub f) (bind (load_version env (m_id (p_metadata p)) (m_version (p_metadata p))) (\<lambda>existing.
      if same_plan existing p then ret () else throw e)) ?Q ?E" for e
    by (rule triple_bind [OF existing]) (auto simp: claimed_def triple_def ret_def throw_def)
  show ?thesis
    unfolding claim_snapshot_def Let_def
  proof (rule triple_seq [OF validate_triple], erule f, rule triple_seq [OF dir],
      rule triple_bind [OF write_exclusively_triple [OF version_json assms]], goal_cases)
    case (1 w)
    show ?case
      using load by (cases w) (auto intro: triple_ret)
  qed
qed

lemma advance_current_triple:
  "triple (pub f) (advance_current env p expected)
    (\<lambda>u d. published d = f(plan_current_path p \<mapsto> plan_text env p) \<or>
       published d = f \<and> (\<exists>c. plan_at env f (plan_current_path p) c \<and> same_plan c p))
    (\<lambda>d. published d \<in> {f, f(plan_current_path p \<mapsto> plan_text env p)})"
    (is "triple _ _ ?Q ?E")
proof -
  have current: "triple (pub f) (load_current_if_present env (m_id (p_metadata p)))
      (\<lambda>c d. published d = f \<and> (\<forall>x. c = Some x \<longrightarrow> plan_at env f (plan_current_path p) x)) ?E"
    by (rule triple_conseq [OF load_current_if_present_triple]) auto
  have w: "triple (pub f) (write_atomically env (plan_current_path p) (plan_text env p)) ?Q ?E"
    by (rule triple_conseq [OF write_atomically_triple [OF current_json]]) auto
  show ?thesis
    unfolding advance_current_def Let_def
  proof (rule triple_bind [OF current], goal_cases)
    case (1 c)
    show ?case
    proof (cases c)
      case None
      with w show ?thesis by (auto simp: triple_def throw_def)
    next
      case (Some x)
      with w show ?thesis by (fastforce simp: triple_def throw_def ret_def)
    qed
  qed
qed

lemma save_record_triple:
  assumes "cd_id cd r \<noteq> []"
  shows "triple (pub f) (save_record env cd r)
    (\<lambda>u. pub (f(record_path cd (cd_id cd r) \<mapsto> cd_text cd r)))
    (\<lambda>d. published d \<in> {f, f(record_path cd (cd_id cd r) \<mapsto> cd_text cd r)})"
  unfolding save_record_def
  by (rule triple_seq [OF validate_triple triple_seq [OF triple_conseq [OF pub_create_dir]
        write_atomically_triple [OF record_json [OF assms]]]]) auto

text \<open>The journals of a directory listing are the published files of the directory.\<close>

lemma journals_triple: "triple (pub f) (read_dir env TRANSACTIONS_DIR)
    (\<lambda>es d. published d = f \<and> set (journals es) = {n. f (TRANSACTIONS_DIR @ [n]) \<noteq> None}) (pub f)"
proof -
  have e: "n \<in> set (journals (children d TRANSACTIONS_DIR)) \<longleftrightarrow> published d (TRANSACTIONS_DIR @ [n]) \<noteq> None" for n d
  proof -
    have "n \<in> set (journals (children d TRANSACTIONS_DIR)) \<longleftrightarrow>
        (\<exists>p c. (p, c) \<in> set (dk_files d) \<and> child_of TRANSACTIONS_DIR p \<and> last p = n) \<and> extension n = Some ''json''"
      by (auto simp: journals_def children_def image_iff)
    also have "(\<exists>p c. (p, c) \<in> set (dk_files d) \<and> child_of TRANSACTIONS_DIR p \<and> last p = n) \<longleftrightarrow>
        get_file d (TRANSACTIONS_DIR @ [n]) \<noteq> None"
      unfolding get_file_def child_of_def
      by (metis append_butlast_last_id append_is_Nil_conv butlast_snoc last_snoc map_of_SomeD not_None_eq not_Cons_self2 weak_map_of_SomeI)
    finally show ?thesis by (auto simp: published_def json_path_def)
  qed
  show ?thesis
    unfolding read_dir_def
    by (rule triple_sys) (auto simp: triple_def io_error_def throw_def e set_eq_iff)
qed

end
