(* ===== verification/CommitCrash.thy ===== *)
theory CommitCrash
  imports CrashSafety
begin

text \<open>
  What a crash, or an I/O error, during the commit of a repair can leave behind, and what opening
  the store makes of it.  The commit goes through six stages of the published files; every
  interruption leaves one of them, and recovery leads each of them to the one before the commit
  (with or without the claimed snapshot) or to the one after it.
\<close>

section \<open>The stages of a commit\<close>

definition applied :: "patch \<Rightarrow> patch" where
  "applied pt = pt\<lparr>pt_status := Applied\<rparr>"

definition transaction_for :: "patch \<Rightarrow> plan \<Rightarrow> repair_transaction" where
  "transaction_for pt q = \<lparr>tx_patch_id = pt_id pt, tx_plan_id = pt_plan_id pt, tx_base_version = pt_plan_version pt,
     tx_next_plan = q\<rparr>"

type_synonym files = "path \<Rightarrow> string option"

definition with_snapshot :: "store_env \<Rightarrow> plan \<Rightarrow> files \<Rightarrow> files" where
  "with_snapshot env q f = f(snapshot_path q \<mapsto> plan_text env q)"

definition with_journal :: "store_env \<Rightarrow> patch \<Rightarrow> plan \<Rightarrow> files \<Rightarrow> files" where
  "with_journal env pt q f = f(journal_path (pt_id pt) \<mapsto> transaction_text env (transaction_for pt q))"

definition with_current :: "store_env \<Rightarrow> plan \<Rightarrow> files \<Rightarrow> files" where
  "with_current env q f = f(plan_current_path q \<mapsto> plan_text env q)"

definition with_applied :: "store_env \<Rightarrow> patch \<Rightarrow> files \<Rightarrow> files" where
  "with_applied env pt f = f(record_path (patch_codec env) (pt_id pt) \<mapsto> patch_text env (applied pt))"

definition claimed_stage :: "store_env \<Rightarrow> plan \<Rightarrow> files \<Rightarrow> files" where
  "claimed_stage env q f = with_snapshot env q f"

definition journaled_stage :: "store_env \<Rightarrow> patch \<Rightarrow> plan \<Rightarrow> files \<Rightarrow> files" where
  "journaled_stage env pt q f = with_journal env pt q (claimed_stage env q f)"

definition advanced_stage :: "store_env \<Rightarrow> patch \<Rightarrow> plan \<Rightarrow> files \<Rightarrow> files" where
  "advanced_stage env pt q f = with_current env q (journaled_stage env pt q f)"

definition settled_stage :: "store_env \<Rightarrow> patch \<Rightarrow> plan \<Rightarrow> files \<Rightarrow> files" where
  "settled_stage env pt q f = with_applied env pt (advanced_stage env pt q f)"

definition committed_stage :: "store_env \<Rightarrow> patch \<Rightarrow> plan \<Rightarrow> files \<Rightarrow> files" where
  "committed_stage env pt q f = (settled_stage env pt q f)(journal_path (pt_id pt) := None)"

definition unfinished :: "store_env \<Rightarrow> patch \<Rightarrow> plan \<Rightarrow> files \<Rightarrow> files set" where
  "unfinished env pt q f = {journaled_stage env pt q f, advanced_stage env pt q f, settled_stage env pt q f}"

definition commit_stages :: "store_env \<Rightarrow> patch \<Rightarrow> plan \<Rightarrow> files \<Rightarrow> files set" where
  "commit_stages env pt q f =
     {f, claimed_stage env q f, committed_stage env pt q f} \<union> unfinished env pt q f"

text \<open>
  A store in which the patch \<open>pt\<close> is approved and targets the current plan \<open>p\<close>, with no journal
  left, and the next version \<open>q\<close> of the plan, which is either unknown or has been claimed with this
  very content.  Every document the commit writes or reads is read back as it was written.
\<close>

definition reads_back :: "store_env \<Rightarrow> json \<Rightarrow> bool" where
  "reads_back env v \<longleftrightarrow> se_parse env (se_text env v) = Some v"

definition commit_documents :: "store_env \<Rightarrow> patch \<Rightarrow> plan \<Rightarrow> plan \<Rightarrow> json set" where
  "commit_documents env pt p q = {plan_doc (se_wire env) p, plan_doc (se_wire env) q,
     patch_doc (se_wire env) pt, patch_doc (se_wire env) (applied pt),
     transaction_doc (se_wire env) (transaction_for pt q)}"

definition commit_ready :: "store_env \<Rightarrow> patch \<Rightarrow> plan \<Rightarrow> plan \<Rightarrow> files \<Rightarrow> bool" where
  "commit_ready env pt p q f \<longleftrightarrow>
     f (plan_current_path p) = Some (plan_text env p) \<and>
     f (record_path (patch_codec env) (pt_id pt)) = Some (patch_text env pt) \<and>
     (\<forall>n. f (TRANSACTIONS_DIR @ [n]) = None) \<and>
     (f (snapshot_path q) = None \<or> f (snapshot_path q) = Some (plan_text env q)) \<and>
     pt_id pt \<noteq> [] \<and> pt_status pt = Approved \<and> pt_plan_id pt = m_id (p_metadata p) \<and>
     pt_plan_version pt = m_version (p_metadata p) \<and>
     m_id (p_metadata q) = m_id (p_metadata p) \<and> m_version (p_metadata p) \<noteq> - 1 \<and>
     m_version (p_metadata q) = m_version (p_metadata p) + 1 \<and>
     wf_plan (se_wire env) p \<and> wf_plan (se_wire env) q \<and> wf_operation (se_wire env) (pt_operation pt) \<and>
     times_roundtrip (se_wire env) \<and> (\<forall>v \<in> commit_documents env pt p q. reads_back env v)"

section \<open>What the documents say\<close>

lemma same_config_refl: "wf_config w c \<Longrightarrow> same_config c c"
  by (cases c) (auto simp: same_map_refl wf_entries_def)

lemma same_plan_refl: "wf_plan w p \<Longrightarrow> same_plan p p"
  by (auto simp: same_plan_def wf_plan_def wf_entries_def same_map_refl same_step_def list_all_iff
      list_all2_conv_all_nth intro: same_config_refl)

lemma same_plan_metadata: "same_plan p q \<Longrightarrow> p_metadata p = p_metadata q"
  by (metis plan.select_convs(1) plan.surjective plan.update_convs(5) plan.update_convs(6) same_plan_def)

lemma decode_plan: "wf_plan (se_wire env) p \<Longrightarrow> times_roundtrip (se_wire env) \<Longrightarrow> reads_back env (plan_doc (se_wire env) p) \<Longrightarrow>
    decode env ''plan'' (plan_of (se_wire env)) (plan_text env p) = Inr p"
  by (simp add: decode_def plan_text_def reads_back_def plan_of_text)

lemma decode_patch: "wf_operation (se_wire env) (pt_operation pt) \<Longrightarrow> times_roundtrip (se_wire env) \<Longrightarrow>
    reads_back env (patch_doc (se_wire env) pt) \<Longrightarrow>
    cd_read (patch_codec env) (patch_text env pt) = Inr pt"
  by (simp add: decode_def patch_text_def patch_codec_def reads_back_def patch_of_text)

lemma transaction_of_text: "wf_plan w (tx_next_plan t) \<Longrightarrow> times_roundtrip w \<Longrightarrow>
    transaction_of w (transaction_doc w t) = Some t"
  by (simp add: transaction_of_def transaction_doc_def struct_of_def req_def as_text.word_view plan_of_text)

lemma decode_transaction: "wf_plan (se_wire env) (tx_next_plan t) \<Longrightarrow> times_roundtrip (se_wire env) \<Longrightarrow>
    reads_back env (transaction_doc (se_wire env) t) \<Longrightarrow> read_transaction env (transaction_text env t) = Inr t"
  by (simp add: read_transaction_def decode_def transaction_text_def reads_back_def transaction_of_text)

text \<open>The four files of a commit are different.\<close>

lemma commit_paths:
  "journal_path j \<noteq> current_path i" "journal_path j \<noteq> version_path i v" "journal_path j \<noteq> record_path (patch_codec env) k"
  "current_path i \<noteq> version_path i' v" "current_path i \<noteq> record_path (patch_codec env) k"
  "version_path i v \<noteq> record_path (patch_codec env) k"
  by (simp_all add: journal_path_def current_path_def version_path_def record_path_def patch_codec_def TRANSACTIONS_DIR_def
      PLANS_DIR_def version_file_name_def fmt_version)

lemmas stage_paths = commit_paths commit_paths [symmetric]

lemmas stage_defs = claimed_stage_def journaled_stage_def advanced_stage_def settled_stage_def committed_stage_def
  with_snapshot_def with_journal_def with_current_def with_applied_def

section \<open>Completing a journal\<close>

lemma triple_sets: "(\<And>g. g \<in> S \<Longrightarrow> triple (pub g) m Q E) \<Longrightarrow> triple (\<lambda>d. published d \<in> S) m Q E"
  by (auto simp: triple_def)

lemma remove_json_triple:
  assumes "json_path p"
  shows "triple (pub f) (remove_file env p) (\<lambda>u. pub (f(p := None))) (\<lambda>d. published d \<in> {f, f(p := None)})"
  unfolding remove_file_def
  by (rule triple_sys) (auto simp: triple_def io_error_def throw_def assms)

lemma plan_at_text:
  assumes "f path = Some (plan_text env p)" and "wf_plan (se_wire env) p" and "times_roundtrip (se_wire env)"
    and "reads_back env (plan_doc (se_wire env) p)"
  shows "plan_at env f path e \<longleftrightarrow> e = p"
  using assms decode_plan [OF assms(2-4)] by (auto simp: plan_at_def)

lemma ready_decodes:
  assumes "commit_ready env pt p q f"
  shows "g path = Some (plan_text env p) \<Longrightarrow> plan_at env g path e \<longleftrightarrow> e = p"
    and "g path = Some (plan_text env q) \<Longrightarrow> plan_at env g path e \<longleftrightarrow> e = q"
    and "g (record_path (patch_codec env) i) = Some (patch_text env pt) \<Longrightarrow> record_at (patch_codec env) g i r \<longleftrightarrow> r = pt"
    and "g (record_path (patch_codec env) i) = Some (patch_text env (applied pt)) \<Longrightarrow>
      record_at (patch_codec env) g i r \<longleftrightarrow> r = applied pt"
    and "read_transaction env (transaction_text env (transaction_for pt q)) = Inr (transaction_for pt q)"
proof -
  note r = assms [unfolded commit_ready_def commit_documents_def]
  show "g path = Some (plan_text env p) \<Longrightarrow> plan_at env g path e \<longleftrightarrow> e = p"
    by (rule plan_at_text) (use r in auto)
  show "g path = Some (plan_text env q) \<Longrightarrow> plan_at env g path e \<longleftrightarrow> e = q"
    by (rule plan_at_text) (use r in auto)
  have "cd_read (patch_codec env) (patch_text env pt) = Inr pt"
    by (rule decode_patch) (use r in auto)
  then show "g (record_path (patch_codec env) i) = Some (patch_text env pt) \<Longrightarrow> record_at (patch_codec env) g i r \<longleftrightarrow> r = pt"
    by (auto simp: record_at_def)
  have "cd_read (patch_codec env) (patch_text env (applied pt)) = Inr (applied pt)"
    by (rule decode_patch) (use r in \<open>auto simp: applied_def\<close>)
  then show "g (record_path (patch_codec env) i) = Some (patch_text env (applied pt)) \<Longrightarrow>
      record_at (patch_codec env) g i r \<longleftrightarrow> r = applied pt"
    by (auto simp: record_at_def)
  show "read_transaction env (transaction_text env (transaction_for pt q)) = Inr (transaction_for pt q)"
    by (rule decode_transaction) (use r in \<open>auto simp: transaction_for_def\<close>)
qed

lemma ready_plans:
  assumes "commit_ready env pt p q f"
  shows "decode env ''plan'' (plan_of (se_wire env)) (plan_text env p) = Inr p"
    "decode env ''plan'' (plan_of (se_wire env)) (plan_text env q) = Inr q"
    "cd_read (patch_codec env) (patch_text env pt) = Inr pt"
    "cd_read (patch_codec env) (patch_text env (applied pt)) = Inr (applied pt)" "same_plan q q"
  using assms by (auto simp: commit_ready_def commit_documents_def applied_def intro!: decode_plan decode_patch same_plan_refl)

lemma complete_triple:
  assumes ready: "commit_ready env pt p q f" and links: "links_supported env"
    and remove: "triple (pub (settled_stage env pt q f)) (remove_journal env (pt_id pt)) (\<lambda>u d. published d \<in> R)
      (\<lambda>d. published d \<in> unfinished env pt q f \<union> {committed_stage env pt q f})"
  shows "triple (\<lambda>d. published d \<in> unfinished env pt q f) (complete_repair_transaction env (transaction_for pt q))
    (\<lambda>u d. published d \<in> R) (\<lambda>d. published d \<in> unfinished env pt q f \<union> {committed_stage env pt q f})"
    (is "triple (\<lambda>d. published d \<in> ?U) _ _ ?E")
proof -
  let ?t = "transaction_for pt q" and ?s3 = "advanced_stage env pt q f" and ?s4 = "settled_stage env pt q f"
  note r = ready [unfolded commit_ready_def]
  note d = ready_decodes [OF ready]
  have U: "published d \<in> ?U \<Longrightarrow> ?E d" for d by simp
  have ids: "m_id (p_metadata (tx_next_plan ?t)) = tx_plan_id ?t"
      "m_version (p_metadata (tx_next_plan ?t)) = saturating_succ (tx_base_version ?t)"
    using r by (auto simp: transaction_for_def saturating_succ_def)
  have snap: "g (snapshot_path q) = Some (plan_text env q)" if "g \<in> ?U" for g
    using that by (auto simp: unfinished_def stage_defs stage_paths)
  have claim: "triple (\<lambda>d. published d \<in> ?U) (claim_snapshot env q) (\<lambda>u d. published d \<in> ?U) ?E"
    by (rule triple_sets, rule triple_conseq [OF claim_snapshot_triple [OF links]])
      (auto simp: claimed_def snap)
  have advance: "triple (\<lambda>d. published d \<in> ?U) (advance_current env q (Some (pt_plan_version pt)))
      (\<lambda>u d. published d \<in> {?s3, ?s4}) ?E"
  proof (rule triple_sets)
    fix g assume g: "g \<in> ?U"
    have new: "g(plan_current_path q \<mapsto> plan_text env q) \<in> {?s3, ?s4}"
      using g by (auto simp: unfinished_def stage_defs stage_paths fun_upd_twist fun_upd_idem_iff)
    have old: "g \<in> {?s3, ?s4}" if "plan_at env g (plan_current_path q) c" "same_plan c q" for c
    proof (rule ccontr)
      assume "g \<notin> {?s3, ?s4}"
      with g have "g = journaled_stage env pt q f" by (auto simp: unfinished_def)
      then have "g (plan_current_path q) = Some (plan_text env p)"
        using r by (simp add: stage_defs stage_paths)
      with that(1) d(1) have "c = p" by simp
      with same_plan_metadata [OF that(2)] r show False by auto
    qed
    show "triple (pub g) (advance_current env q (Some (pt_plan_version pt))) (\<lambda>u d. published d \<in> {?s3, ?s4}) ?E"
      by (rule triple_conseq [OF advance_current_triple]) (use new old g in \<open>auto simp: unfinished_def\<close>)
  qed
  have load: "triple (\<lambda>d. published d \<in> {?s3, ?s4}) (load_patch env (pt_id pt))
      (\<lambda>x d. x = pt \<and> published d = ?s3 \<or> x = applied pt \<and> published d = ?s4) ?E"
  proof (rule triple_sets)
    fix g assume g: "g \<in> {?s3, ?s4}"
    have s3: "?s3 (record_path (patch_codec env) (pt_id pt)) = Some (patch_text env pt)"
      using r by (simp add: stage_defs stage_paths)
    have s4: "?s4 (record_path (patch_codec env) (pt_id pt)) = Some (patch_text env (applied pt))"
      by (auto simp: stage_defs)
    have at3: "record_at (patch_codec env) ?s3 (pt_id pt) x \<longleftrightarrow> x = pt" for x
      by (rule d(3)) (rule s3)
    have at4: "record_at (patch_codec env) ?s4 (pt_id pt) x \<longleftrightarrow> x = applied pt" for x
      by (rule d(4)) (rule s4)
    show "triple (pub g) (load_patch env (pt_id pt))
      (\<lambda>x d. x = pt \<and> published d = ?s3 \<or> x = applied pt \<and> published d = ?s4) ?E"
      unfolding load_patch_def
      by (rule triple_conseq [OF load_record_triple])
        (use g r in \<open>auto simp: at3 at4 unfinished_def\<close>)
  qed
  have settle: "triple (\<lambda>d. x = pt \<and> published d = ?s3 \<or> x = applied pt \<and> published d = ?s4) (settle_patch env ?t x)
      (\<lambda>u. pub ?s4) ?E" for x
  proof -
    have save: "triple (pub ?s3) (save_patch env (pt\<lparr>pt_status := Applied\<rparr>)) (\<lambda>u. pub ?s4) ?E"
      unfolding save_patch_def
      by (rule triple_conseq [OF save_record_triple])
        (use r in \<open>auto simp: patch_codec_def unfinished_def settled_stage_def with_applied_def applied_def record_path_def\<close>)
    have "triple (pub ?s3) (settle_patch env ?t pt) (\<lambda>u. pub ?s4) ?E"
      using r save by (simp add: settle_patch_def transaction_for_def)
    moreover have "triple (pub ?s4) (settle_patch env ?t (applied pt)) (\<lambda>u. pub ?s4) ?E"
      using r by (auto simp: settle_patch_def transaction_for_def applied_def intro: triple_ret)
    ultimately show ?thesis by (auto simp: triple_def)
  qed
  have "triple (\<lambda>d. published d \<in> ?U) (seq (claim_snapshot env q)
        (seq (advance_current env q (Some (pt_plan_version pt)))
        (bind (load_patch env (pt_id pt)) (\<lambda>patch. seq (settle_patch env ?t patch) (remove_journal env (pt_id pt))))))
      (\<lambda>u d. published d \<in> R) ?E"
    by (intro triple_seq [OF claim] triple_seq [OF advance] triple_bind [OF load] triple_seq [OF settle] remove)
  then have "triple (\<lambda>d. published d \<in> ?U) (if m_id (p_metadata (tx_next_plan ?t)) \<noteq> tx_plan_id ?t \<or>
         m_version (p_metadata (tx_next_plan ?t)) \<noteq> saturating_succ (tx_base_version ?t) then throw e
      else seq (claim_snapshot env (tx_next_plan ?t))
        (seq (advance_current env (tx_next_plan ?t) (Some (tx_base_version ?t)))
        (bind (load_patch env (tx_patch_id ?t)) (\<lambda>patch.
         seq (settle_patch env ?t patch) (remove_journal env (tx_patch_id ?t))))))
      (\<lambda>u d. published d \<in> R) ?E" for e
    using ids by (simp add: transaction_for_def)
  then show ?thesis
    unfolding complete_repair_transaction_def
    by (intro triple_seq [OF validate_triple] U)
qed

text \<open>Removing the journal; a failed existence check leaves it behind.\<close>

lemma journal_json: "i \<noteq> [] \<Longrightarrow> json_path (journal_path i)"
  using extension_dot [of "''json''" i] by (simp add: json_path_def journal_path_def fmt_json)

definition crash_only :: "store_env \<Rightarrow> bool" where
  "crash_only env \<longleftrightarrow> (\<forall>n k. se_fault env n \<noteq> Fails k)"

lemma crash_only_links: "crash_only env \<Longrightarrow> links_supported env"
  by (simp add: crash_only_def links_supported_def)

lemma remove_journal_triple:
  assumes "i \<noteq> []"
  shows "triple (pub g) (remove_journal env i) (\<lambda>u d. published d \<in> {g, g(journal_path i := None)})
    (\<lambda>d. published d \<in> {g, g(journal_path i := None)})" (is "triple _ _ _ ?E")
proof -
  have ex: "triple (pub g) (path_exists env (journal_path i)) (\<lambda>found. pub g) ?E"
    by (rule triple_conseq [OF pub_exists]) auto
  have r: "triple (pub g) (remove_file env (journal_path i)) (\<lambda>u. pub (g(journal_path i := None))) ?E"
    by (rule remove_json_triple [OF journal_json [OF assms]])
  have y: "triple (pub (g(journal_path i := None))) (sync_file env) (\<lambda>u. ?E) ?E"
    by (rule triple_conseq [OF pub_sync [of "pub (g(journal_path i := None))"]]) auto
  have "triple (pub g) (if found then seq (remove_file env (journal_path i)) (sync_parent_directory env) else ret ())
      (\<lambda>u. ?E) ?E" for found
    unfolding sync_parent_directory_def by (cases found) (use triple_seq [OF r y] in \<open>simp_all add: triple_ret\<close>)
  then show ?thesis unfolding remove_journal_def by (rule triple_bind [OF ex])
qed

lemma exists_sure:
  assumes "crash_only env" and "json_path p"
  shows "triple (pub g) (path_exists env p) (\<lambda>found d. published d = g \<and> (g p \<noteq> None \<longrightarrow> found)) (pub g)"
  using assms by (auto simp: path_exists_def triple_def sys_def Let_def crash_only_def published_def split: fault.splits)

lemma remove_journal_sure:
  assumes "i \<noteq> []" and "crash_only env" and "g (journal_path i) \<noteq> None"
  shows "triple (pub g) (remove_journal env i) (\<lambda>u. pub (g(journal_path i := None)))
    (\<lambda>d. published d \<in> {g, g(journal_path i := None)})" (is "triple _ _ ?Q ?E")
proof -
  have ex: "triple (pub g) (path_exists env (journal_path i)) (\<lambda>found d. found \<and> published d = g) ?E"
    by (rule triple_conseq [OF exists_sure [OF assms(2) journal_json [OF assms(1)]]]) (use assms(3) in auto)
  have r: "triple (pub g) (remove_file env (journal_path i)) ?Q ?E"
    by (rule remove_json_triple [OF journal_json [OF assms(1)]])
  have y: "triple (pub (g(journal_path i := None))) (sync_file env) ?Q ?E"
    by (rule triple_conseq [OF pub_sync [of "pub (g(journal_path i := None))"]]) auto
  have "triple (\<lambda>d. found \<and> published d = g)
      (if found then seq (remove_file env (journal_path i)) (sync_parent_directory env) else ret ()) ?Q ?E" for found
    unfolding sync_parent_directory_def by (rule triple_pure) (use triple_seq [OF r y] in simp)
  then show ?thesis unfolding remove_journal_def by (rule triple_bind [OF ex])
qed

lemma settled_journal: "settled_stage env pt q f (journal_path (pt_id pt)) = Some (transaction_text env (transaction_for pt q))"
  by (simp add: stage_defs stage_paths)

text \<open>Completing under any faults, and in a process that can only die.\<close>

lemma complete_any:
  assumes "commit_ready env pt p q f" and "links_supported env"
  shows "triple (\<lambda>d. published d \<in> unfinished env pt q f) (complete_repair_transaction env (transaction_for pt q))
    (\<lambda>u d. published d \<in> {settled_stage env pt q f, committed_stage env pt q f})
    (\<lambda>d. published d \<in> unfinished env pt q f \<union> {committed_stage env pt q f})"
  by (rule complete_triple [OF assms], rule triple_conseq [OF remove_journal_triple])
    (use assms(1) in \<open>auto simp: commit_ready_def committed_stage_def unfinished_def\<close>)

lemma complete_sure:
  assumes "commit_ready env pt p q f" and "crash_only env"
  shows "triple (\<lambda>d. published d \<in> unfinished env pt q f) (complete_repair_transaction env (transaction_for pt q))
    (\<lambda>u. pub (committed_stage env pt q f))
    (\<lambda>d. published d \<in> unfinished env pt q f \<union> {committed_stage env pt q f})"
proof -
  have "triple (\<lambda>d. published d \<in> unfinished env pt q f) (complete_repair_transaction env (transaction_for pt q))
    (\<lambda>u d. published d \<in> {committed_stage env pt q f})
    (\<lambda>d. published d \<in> unfinished env pt q f \<union> {committed_stage env pt q f})"
    by (rule complete_triple [OF assms(1) crash_only_links [OF assms(2)]],
        rule triple_conseq [OF remove_journal_sure [OF _ assms(2)]])
      (use assms(1) in \<open>auto simp: commit_ready_def committed_stage_def unfinished_def settled_journal\<close>)
  then show ?thesis by simp
qed

section \<open>The commit\<close>

lemma seq_ret: "seq (ret ()) k = k"
  by (simp add: seq_def bind_def ret_def fun_eq_iff)

lemma no_journals: "triple (pub g) (recover_repair_transactions env) (\<lambda>u. pub g) (pub g)"
  if "\<And>n. g (TRANSACTIONS_DIR @ [n]) = None"
  unfolding recover_repair_transactions_def
  by (rule triple_bind [OF journals_triple]) (use that in \<open>auto simp: triple_def ret_def\<close>)

lemma commit_triple:
  assumes ready: "commit_ready env pt p q f" and links: "links_supported env"
  shows "triple (pub f) (commit_repair env (pt_id pt) q)
    (\<lambda>u d. published d \<in> {settled_stage env pt q f, committed_stage env pt q f})
    (\<lambda>d. published d \<in> commit_stages env pt q f)" (is "triple _ _ ?Q ?E")
proof -
  let ?t = "transaction_for pt q" and ?s1 = "claimed_stage env q f" and ?s2 = "journaled_stage env pt q f"
  note r = ready [unfolded commit_ready_def]
  note d = ready_decodes [OF ready]
  have f: "published d = f \<Longrightarrow> ?E d" and s1: "published d = ?s1 \<Longrightarrow> ?E d" for d
    by (simp_all add: commit_stages_def)
  have recover: "triple (pub f) (recover_repair_transactions env) (\<lambda>u. pub f) ?E"
    by (rule triple_conseq [OF no_journals]) (use r f in auto)
  have load: "triple (pub f) (load_patch env (pt_id pt)) (\<lambda>x d. x = pt \<and> published d = f) ?E"
    unfolding load_patch_def
    by (rule triple_conseq [OF load_record_triple]) (use r d(3) f in auto)
  have current: "triple (pub f) (load_current env (pt_plan_id pt)) (\<lambda>c d. c = p \<and> published d = f) ?E"
    by (rule triple_conseq [OF load_current_triple]) (use r d(1) f in auto)
  have claim: "triple (pub f) (claim_snapshot env q) (\<lambda>u. pub ?s1) ?E"
    by (rule triple_conseq [OF claim_snapshot_triple [OF links]])
      (use r in \<open>auto simp: claimed_def commit_stages_def stage_defs fun_upd_idem_iff plan_at_def\<close>)
  have persist: "triple (pub ?s1) (persist_repair_transaction env ?t) (\<lambda>u. pub ?s2) ?E"
  proof -
    have none: "?s1 (journal_path (pt_id pt)) = None"
      using r by (simp add: stage_defs stage_paths) (simp add: journal_path_def)
    have w: "triple (pub ?s1) (write_exclusively env (journal_path (pt_id pt)) (transaction_text env ?t))
        (\<lambda>w d. case w of Created \<Rightarrow> published d = ?s2 | AlreadyExists \<Rightarrow> published d = ?s1) ?E"
      by (rule triple_conseq [OF write_exclusively_triple [OF journal_json links]])
        (use r none in \<open>auto simp: claimed_def commit_stages_def unfinished_def journaled_stage_def with_journal_def
          split: exclusive_write.splits\<close>)
    have unread: "triple (pub ?s1) (read_file env (journal_path (pt_id pt))) (\<lambda>c d. False) ?E"
      by (rule triple_conseq [OF pub_read]) (use r none s1 journal_json in auto)
    have never: "triple (pub ?s1) (bind (read_file env (journal_path (pt_id pt))) k) (\<lambda>u. pub ?s2) ?E" for k :: "string \<Rightarrow> unit io"
      by (rule triple_bind [OF unread]) (simp add: triple_def)
    have step: "triple (\<lambda>d. case w of Created \<Rightarrow> published d = ?s2 | AlreadyExists \<Rightarrow> published d = ?s1)
        (case w of Created \<Rightarrow> ret () | AlreadyExists \<Rightarrow> bind (read_file env (journal_path (pt_id pt))) k) (\<lambda>u. pub ?s2) ?E"
      for w and k :: "string \<Rightarrow> unit io"
      using never by (cases w) (auto intro: triple_ret)
    have "tx_patch_id ?t = pt_id pt" by (simp add: transaction_for_def)
    then show ?thesis
      unfolding persist_repair_transaction_def Let_def
      by (auto intro!: triple_seq [OF validate_triple] triple_bind [OF w] step s1)
  qed
  have complete: "triple (pub ?s2) (complete_repair_transaction env ?t) ?Q ?E"
    by (rule triple_conseq [OF complete_any [OF ready links]])
      (auto simp: commit_stages_def unfinished_def)
  have body: "triple (pub f) (seq (claim_snapshot env q) (seq (persist_repair_transaction env ?t)
      (complete_repair_transaction env ?t))) ?Q ?E"
    by (intro triple_seq [OF claim] triple_seq [OF persist] complete)
  have check: "check_commit pt q (pt_id pt) = Inr ()"
    using r by (auto simp: check_commit_def checked_succ_def)
  have t: "\<lparr>tx_patch_id = pt_id pt, tx_plan_id = pt_plan_id pt, tx_base_version = pt_plan_version pt, tx_next_plan = q\<rparr> = ?t"
    by (simp add: transaction_for_def)
  show ?thesis
    unfolding commit_repair_def Let_def
  proof (intro triple_seq [OF validate_triple] triple_seq [OF recover] triple_bind [OF load] f, assumption, assumption,
      rule triple_pure, goal_cases)
    case (1 x)
    have "triple (pub f) (bind (load_current env (pt_plan_id pt)) (\<lambda>c.
        if m_version (p_metadata c) \<noteq> pt_plan_version pt then throw (e c)
        else seq (claim_snapshot env q) (seq (persist_repair_transaction env ?t) (complete_repair_transaction env ?t)))) ?Q ?E"
      for e :: "plan \<Rightarrow> storage_error"
      by (rule triple_bind [OF current], rule triple_pure) (use r body in auto)
    moreover have "pt_status pt = Approved" using r by simp
    ultimately show ?case unfolding 1 t by (simp add: check lift_result_def seq_ret)
  qed
qed

section \<open>Opening the store again\<close>

text \<open>
  Two processes that write the same documents: the fault schedule, the fresh names and the clock of
  the second are its own.
\<close>

definition same_format :: "store_env \<Rightarrow> store_env \<Rightarrow> bool" where
  "same_format env env' \<longleftrightarrow> se_wire env = se_wire env' \<and> se_text env = se_text env' \<and> se_parse env = se_parse env'"

lemma same_format_stages:
  assumes "same_format env env'"
  shows "claimed_stage env' = claimed_stage env" "journaled_stage env' = journaled_stage env"
    "advanced_stage env' = advanced_stage env" "settled_stage env' = settled_stage env"
    "committed_stage env' = committed_stage env" "commit_stages env' = commit_stages env"
    "unfinished env' = unfinished env" "commit_ready env' = commit_ready env"
  using assms
  by (simp_all add: fun_eq_iff same_format_def stage_defs commit_stages_def unfinished_def commit_ready_def plan_text_def patch_text_def
      transaction_text_def record_path_def patch_codec_def reads_back_def commit_documents_def)

definition recovered :: "store_env \<Rightarrow> patch \<Rightarrow> plan \<Rightarrow> files \<Rightarrow> files set" where
  "recovered env pt q f = {f, claimed_stage env q f, committed_stage env pt q f}"

lemma stage_split: "commit_stages env pt q f = recovered env pt q f \<union> unfinished env pt q f"
  by (simp add: commit_stages_def recovered_def)

lemma read_sure:
  assumes "crash_only env" and "json_path p"
  shows "triple (pub g) (attempt (read_file env p)) (\<lambda>r d. published d = g \<and> (case r of Inr c \<Rightarrow> g p = Some c
    | Inl e \<Rightarrow> g p = None \<and> (\<exists>m. e = SE_Io IoNotFound m))) (pub g)"
  using assms by (auto simp: attempt_def read_file_def io_error_def throw_def triple_def sys_def Let_def crash_only_def
      published_def split: fault.splits option.splits)

lemma no_journal_left: "commit_ready env pt p q f \<Longrightarrow> g \<in> recovered env pt q f \<Longrightarrow> g (TRANSACTIONS_DIR @ [n]) = None"
proof -
  assume ready: "commit_ready env pt p q f" and g: "g \<in> recovered env pt q f"
  have "n \<noteq> fmt ''{}.json'' [pt_id pt] \<Longrightarrow> TRANSACTIONS_DIR @ [n] \<noteq> journal_path (pt_id pt)"
    by (simp add: journal_path_def)
  with ready g show ?thesis
    by (auto simp: commit_ready_def recovered_def stage_defs TRANSACTIONS_DIR_def PLANS_DIR_def version_path_def
        current_path_def record_path_def patch_codec_def journal_path_def)
qed

lemma journal_left: "commit_ready env pt p q f \<Longrightarrow> g \<in> unfinished env pt q f \<Longrightarrow>
    g (TRANSACTIONS_DIR @ [n]) \<noteq> None \<longleftrightarrow> TRANSACTIONS_DIR @ [n] = journal_path (pt_id pt)"
  by (auto simp: unfinished_def commit_ready_def stage_defs TRANSACTIONS_DIR_def PLANS_DIR_def version_path_def
      current_path_def record_path_def patch_codec_def journal_path_def split: if_splits)

lemma unfinished_journal: "g \<in> unfinished env pt q f \<Longrightarrow>
    g (journal_path (pt_id pt)) = Some (transaction_text env (transaction_for pt q))"
  by (auto simp: unfinished_def stage_defs stage_paths)

text \<open>Recovering the one journal a commit may have left.\<close>

lemma recover_journal_triple:
  assumes ready: "commit_ready env pt p q f" and crash: "crash_only env"
    and S: "committed_stage env pt q f \<in> S \<and> S \<subseteq> recovered env pt q f"
    and name: "TRANSACTIONS_DIR @ [n] = journal_path (pt_id pt)"
  shows "triple (\<lambda>d. published d \<in> S \<union> unfinished env pt q f) (recover_journal env n)
    (\<lambda>u d. published d \<in> S) (\<lambda>d. published d \<in> S \<union> unfinished env pt q f)" (is "triple _ _ ?Q ?E")
proof (rule triple_sets)
  fix g assume g: "g \<in> S \<union> unfinished env pt q f"
  have json: "json_path (TRANSACTIONS_DIR @ [n])"
    using ready by (simp add: name journal_json commit_ready_def)
  have read: "triple (pub g) (attempt (read_file env (TRANSACTIONS_DIR @ [n]))) (\<lambda>r d. (case r of Inr c \<Rightarrow> g (TRANSACTIONS_DIR @ [n]) = Some c
      | Inl e \<Rightarrow> g (TRANSACTIONS_DIR @ [n]) = None \<and> (\<exists>m. e = SE_Io IoNotFound m)) \<and> published d = g) ?E"
    by (rule triple_conseq [OF read_sure [OF crash json]]) (use g in auto)
  show "triple (pub g) (recover_journal env n) ?Q ?E"
    unfolding recover_journal_def
  proof (rule triple_bind [OF read], rule triple_pure, goal_cases)
    case (1 r)
    show ?case
    proof (cases "g \<in> S")
      case True
      with S have "g (TRANSACTIONS_DIR @ [n]) = None" by (intro no_journal_left [OF ready]) auto
      with 1 True show ?thesis by (auto split: sum.splits intro: triple_ret)
    next
      case False
      with g have u: "g \<in> unfinished env pt q f" by simp
      with 1 have r: "r = Inr (transaction_text env (transaction_for pt q))"
        by (auto simp: name unfinished_journal split: sum.splits)
      have "triple (pub g) (complete_repair_transaction env (transaction_for pt q)) ?Q ?E"
        by (rule triple_conseq [OF complete_sure [OF ready crash]]) (use u S in auto)
      then show ?thesis by (simp add: r ready_decodes(5) [OF ready])
    qed
  qed
qed

lemma io_each_settles:
  assumes step: "\<And>n. n \<in> set ns \<Longrightarrow> triple P (f n) (\<lambda>u. Q) E" and Q: "\<And>d. Q d \<Longrightarrow> P d" and ns: "ns \<noteq> []"
  shows "triple P (io_each f ns) (\<lambda>u. Q) E"
proof -
  have rest: "triple Q (io_each f ms) (\<lambda>u. Q) E" if "set ms \<subseteq> set ns" for ms
    using that
  proof (induction ms)
    case (Cons m ms)
    have "triple Q (f m) (\<lambda>u. Q) E" by (rule triple_conseq [OF step]) (use Cons.prems Q in auto)
    with Cons show ?case by (auto intro: triple_seq)
  qed (simp add: triple_ret)
  obtain m ms where "ns = m # ms" using ns by (cases ns) auto
  with triple_seq [OF step rest, of m ms] show ?thesis by auto
qed

lemma recover_triple:
  assumes ready: "commit_ready env pt p q f" and crash: "crash_only env"
    and S: "committed_stage env pt q f \<in> S \<and> S \<subseteq> recovered env pt q f"
  shows "triple (\<lambda>d. published d \<in> S \<union> unfinished env pt q f) (recover_repair_transactions env)
    (\<lambda>u d. published d \<in> S) (\<lambda>d. published d \<in> S \<union> unfinished env pt q f)" (is "triple _ _ ?Q ?E")
  unfolding recover_repair_transactions_def
proof (rule triple_sets)
  fix g assume g: "g \<in> S \<union> unfinished env pt q f"
  have list: "triple (pub g) (read_dir env TRANSACTIONS_DIR)
      (\<lambda>es d. set (journals es) = {n. g (TRANSACTIONS_DIR @ [n]) \<noteq> None} \<and> published d = g) ?E"
    by (rule triple_conseq [OF journals_triple]) (use g in auto)
  show "triple (pub g) (bind (read_dir env TRANSACTIONS_DIR) (\<lambda>entries. io_each (recover_journal env) (journals entries))) ?Q ?E"
  proof (rule triple_bind [OF list], rule triple_pure, goal_cases)
    case (1 es)
    show ?case
    proof (cases "g \<in> S")
      case True
      with S have "g \<in> recovered env pt q f" by auto
      with 1 True no_journal_left [OF ready this] show ?thesis by (auto intro: triple_ret)
    next
      case False
      with g have u: "g \<in> unfinished env pt q f" by simp
      have "journals es \<noteq> []"
        using 1 unfinished_journal [OF u] by (auto simp: journal_path_def)
      moreover have "triple ?E (recover_journal env n) ?Q ?E" if "n \<in> set (journals es)" for n
        by (rule recover_journal_triple [OF ready crash S]) (use that 1 journal_left [OF ready u] in auto)
      ultimately have "triple ?E (io_each (recover_journal env) (journals es)) ?Q ?E"
        by (intro io_each_settles) auto
      then show ?thesis by (rule triple_conseq) (use g in auto)
    qed
  qed
qed

lemma open_triple:
  assumes "commit_ready env pt p q f" and "crash_only env"
    and "committed_stage env pt q f \<in> S \<and> S \<subseteq> recovered env pt q f"
  shows "triple (\<lambda>d. published d \<in> S \<union> unfinished env pt q f) (open_storage env)
    (\<lambda>u d. published d \<in> S) (\<lambda>d. published d \<in> S \<union> unfinished env pt q f)" (is "triple ?P _ ?Q _")
proof -
  have dir: "triple ?P (create_dir_all env x) (\<lambda>u. ?P) ?P" for x
    by (rule triple_sets) (rule triple_conseq [OF pub_create_dir], auto)
  have dirs: "triple ?P (io_each (create_dir_all env) ps) (\<lambda>u. ?P) ?P" for ps
  proof (induction ps)
    case (Cons x ps)
    from triple_seq [OF dir Cons] show ?case by simp
  qed (simp add: triple_ret)
  show ?thesis
    unfolding open_storage_def by (intro triple_seq [OF dir] triple_seq [OF dirs] recover_triple [OF assms])
qed

text \<open>Attempts to open the store, each of which may have died, one after the other.\<close>

fun reopened :: "store_env list \<Rightarrow> disk \<Rightarrow> disk" where
  "reopened [] d = d"
| "reopened (e # es) d = reopened es (fst (open_storage e d))"

lemma triple_left: "triple P m Q E \<Longrightarrow> P d \<Longrightarrow> (\<And>v d. Q v d \<Longrightarrow> E d) \<Longrightarrow> E (fst (m d))"
  by (cases "m d"; cases "snd (m d)") (fastforce simp: triple_def)+

lemma triple_done: "triple P m Q E \<Longrightarrow> P d \<Longrightarrow> snd (m d) = Done v \<Longrightarrow> Q v (fst (m d))"
  by (cases "m d") (fastforce simp: triple_def)

lemma reopened_stays:
  assumes "commit_ready env pt p q f" and "committed_stage env pt q f \<in> S \<and> S \<subseteq> recovered env pt q f"
    and "\<forall>e \<in> set es. crash_only e \<and> same_format env e" and "published d \<in> S \<union> unfinished env pt q f"
  shows "published (reopened es d) \<in> S \<union> unfinished env pt q f"
  using assms(3,4)
proof (induction es arbitrary: d)
  case (Cons e es)
  then have e: "crash_only e" "same_format env e" by auto
  note same = same_format_stages [OF e(2)]
  have "triple (\<lambda>d. published d \<in> S \<union> unfinished env pt q f) (open_storage e) (\<lambda>u d. published d \<in> S)
      (\<lambda>d. published d \<in> S \<union> unfinished env pt q f)"
    using open_triple [of e pt p q f S] assms(1,2) e(1) by (simp add: same recovered_def)
  then have "published (fst (open_storage e d)) \<in> S \<union> unfinished env pt q f"
    by (rule triple_left) (use Cons.prems in auto)
  with Cons show ?case by simp
qed simp

lemma open_settles:
  assumes "commit_ready env pt p q f" and "committed_stage env pt q f \<in> S \<and> S \<subseteq> recovered env pt q f"
    and "crash_only e" and "same_format env e" and "published d \<in> S \<union> unfinished env pt q f"
    and "snd (open_storage e d) = Done ()"
  shows "published (fst (open_storage e d)) \<in> S"
proof -
  note same = same_format_stages [OF assms(4)]
  have "triple (\<lambda>d. published d \<in> S \<union> unfinished env pt q f) (open_storage e) (\<lambda>u d. published d \<in> S)
      (\<lambda>d. published d \<in> S \<union> unfinished env pt q f)"
    using open_triple [of e pt p q f S] assms(1-3) by (simp add: same recovered_def)
  from triple_done [OF this assms(5,6)] show ?thesis .
qed

end
