(* ===== verification/Undisturbed.thy ===== *)
theory Undisturbed
  imports CommitCrash
begin

text \<open>
  What the operations of the stores do when no system call fails: every computation has one
  outcome, which these equations compute from the files and the directories.
\<close>

definition undisturbed :: "store_env \<Rightarrow> bool" where
  "undisturbed env \<longleftrightarrow> (\<forall>n. se_fault env n = Works)"

definition later :: "nat \<Rightarrow> disk \<Rightarrow> disk" where
  "later n d = d\<lparr>dk_calls := dk_calls d + n\<rparr>"

lemma undisturbed_sys: "undisturbed env \<Longrightarrow> sys env broken effect d = effect (later 1 d)"
  by (simp add: sys_def undisturbed_def Let_def later_def)

definition valid_id :: "string \<Rightarrow> bool" where
  "valid_id i \<longleftrightarrow> i \<noteq> [] \<and> CHR ''/'' \<notin> set i \<and> CHR 0x5C \<notin> set i \<and> i \<noteq> ''.'' \<and> i \<noteq> ''..''"

lemma validate_valid: "valid_id i \<Longrightarrow> validate_record_id env i = ret ()"
  by (auto simp: validate_record_id_def valid_id_def)

lemma validate_invalid: "\<not> valid_id i \<Longrightarrow> \<exists>e. validate_record_id env i = throw e"
  by (auto simp: validate_record_id_def valid_id_def)

text \<open>The names the process draws next for the temporary files of a directory are not taken.\<close>

definition free_names :: "store_env \<Rightarrow> path \<Rightarrow> disk \<Rightarrow> bool" where
  "free_names env dir d \<longleftrightarrow> (\<forall>n name. dk_calls d \<le> n \<longrightarrow>
     (let t = dir @ [fmt ''{}.{}{}'' [name, se_uuid env n, TEMP_FILE_SUFFIX]] in get_file d t = None \<and> \<not> is_dir d t))"

lemma is_dir_simps [simp]:
  "is_dir (d\<lparr>dk_calls := n\<rparr>) p = is_dir d p"
  "is_dir (put_file q c d) p = is_dir d p"
  "is_dir (drop_file q d) p = is_dir d p"
  by (simp_all add: is_dir_def put_file_def drop_file_def)

lemma dk_calls_simps [simp]: "dk_calls (put_file q c d) = dk_calls d" "dk_calls (drop_file q d) = dk_calls d"
  by (simp_all add: put_file_def drop_file_def)

lemma free_temp: "free_names env (butlast p) d \<Longrightarrow> get_file d (temp_path env p d) = None \<and> \<not> is_dir d (temp_path env p d)"
  by (auto simp: free_names_def temp_path_def Let_def)

lemma free_later: "free_names env dir d \<Longrightarrow> dk_calls d \<le> n \<Longrightarrow> free_names env dir (d\<lparr>dk_calls := n\<rparr>)"
  by (auto simp: free_names_def Let_def)

lemma free_put: "free_names env dir d \<Longrightarrow> json_path p \<Longrightarrow> free_names env dir (put_file p c d)"
  using temp_not_json [of env "dir @ [name]" "d\<lparr>dk_calls := n\<rparr>" for name n]
  by (fastforce simp: free_names_def Let_def temp_path_def)

lemma free_drop: "free_names env dir d \<Longrightarrow> free_names env dir (drop_file p d)"
  by (auto simp: free_names_def Let_def)

lemma is_dir_create: "is_dir (d\<lparr>dk_dirs := remdups (dk_dirs d @ prefixes x)\<rparr>) p \<longleftrightarrow> is_dir d p \<or> p \<in> set (prefixes x)"
  by (auto simp: is_dir_def)

lemma prefixes_self: "x \<noteq> [] \<Longrightarrow> x \<in> set (prefixes x)"
  by (cases x) (auto simp: prefixes_def image_iff intro!: bexI [of _ "length x"])

lemma prefixes_length: "p \<in> set (prefixes x) \<Longrightarrow> length p \<le> length x"
  by (auto simp: prefixes_def)

lemma free_create: "free_names env dir d \<Longrightarrow> length x \<le> length dir \<Longrightarrow>
    free_names env dir (d\<lparr>dk_dirs := remdups (dk_dirs d @ prefixes x)\<rparr>)"
  by (auto simp: free_names_def Let_def is_dir_create dest!: prefixes_length)

lemma prefixes_hd: "p \<in> set (prefixes x) \<Longrightarrow> p \<noteq> [] \<and> hd p = hd x"
  by (auto simp: prefixes_def hd_conv_nth)

lemma free_create_other: "free_names env dir d \<Longrightarrow> dir \<noteq> [] \<Longrightarrow> hd x \<noteq> hd dir \<Longrightarrow>
    free_names env dir (d\<lparr>dk_dirs := remdups (dk_dirs d @ prefixes x)\<rparr>)"
  by (auto simp: free_names_def Let_def is_dir_create dest!: prefixes_hd)

section \<open>The write primitives\<close>

lemma later_simps [simp]:
  "dk_calls (later n d) = dk_calls d + n" "get_file (later n d) = get_file d" "is_dir (later n d) = is_dir d"
  "published (later n d) = published d" "later m (later n d) = later (n + m) d"
  "put_file p c (later n d) = later n (put_file p c d)" "drop_file p (later n d) = later n (drop_file p d)"
  by (auto simp: later_def get_file_def fun_eq_iff published_def put_file_def drop_file_def)

lemma free_later' [simp]: "free_names env dir d \<Longrightarrow> free_names env dir (later n d)"
  by (simp add: later_def free_later)

text \<open>Putting a file under a free name and taking it away again.\<close>

lemma put_put: "put_file p c' (put_file p c d) = put_file p c' d"
  by (simp add: put_file_def update_last)

lemma drop_put_free: "get_file d p = None \<Longrightarrow> drop_file p (put_file p c d) = d"
proof -
  have "filter (\<lambda>(q, c). q \<noteq> p) (AList.update p c m) = m" if "map_of m p = None" for m :: "(path \<times> string) list"
    using that by (induction m) (auto split: if_splits)
  then show "get_file d p = None \<Longrightarrow> ?thesis" by (simp add: get_file_def put_file_def drop_file_def)
qed

lemma drop_put_link: "get_file d t = None \<Longrightarrow> get_file d p = None \<Longrightarrow> p \<noteq> t \<Longrightarrow>
    drop_file t (put_file p c (put_file t c' d)) = put_file p c d"
proof -
  have "filter (\<lambda>(q, c). q \<noteq> t) (AList.update p c (AList.update t c' m)) = AList.update p c m"
    if "map_of m t = None" "map_of m p = None" "p \<noteq> t" for m :: "(path \<times> string) list"
    using that by (induction m) (auto split: if_splits)
  then show "get_file d t = None \<Longrightarrow> get_file d p = None \<Longrightarrow> p \<noteq> t \<Longrightarrow> ?thesis"
    by (simp add: get_file_def put_file_def drop_file_def)
qed

lemma fill_temp_works:
  assumes "undisturbed env" and "get_file d t = None" and "\<not> is_dir d t" and "is_dir d (butlast t)"
  shows "fill_temp env t c d = (later 3 (put_file t c d), Done ())"
  using assms
  by (simp add: fill_temp_def seq_def bind_def create_new_def write_all_def sync_file_def undisturbed_sys put_put numeral_3_eq_3)

lemma temp_parent: "butlast (temp_path env p d) = butlast p"
  by (simp add: temp_path_def)

lemma temp_other: "json_path p \<Longrightarrow> p \<noteq> temp_path env p d"
  using temp_not_json by metis

lemma write_atomically_works:
  assumes "undisturbed env" and "free_names env (butlast p) d" and "is_dir d (butlast p)"
  shows "write_atomically env p c d = (later 6 (put_file p c d), Done ())"
  using assms free_temp [OF assms(2)]
  by (simp add: write_atomically_def Let_def attempt_def bind_def seq_def fill_temp_works temp_parent rename_file_def
      sync_parent_directory_def sync_file_def undisturbed_sys drop_put_free ret_def)

lemma write_exclusively_taken:
  assumes "undisturbed env" and "free_names env (butlast p) d" and "is_dir d (butlast p)" and "get_file d p \<noteq> None" and "json_path p"
  shows "write_exclusively env p c d = (later 5 d, Done AlreadyExists)"
  using assms free_temp [OF assms(2)] temp_other [OF assms(5), of env d]
  by (simp add: write_exclusively_def Let_def attempt_def bind_def seq_def fill_temp_works temp_parent claim_link_def hard_link_def
      remove_file_def undisturbed_sys drop_put_free ret_def io_error_def throw_def lift_result_def)

lemma write_exclusively_free:
  assumes "undisturbed env" and "free_names env (butlast p) d" and "is_dir d (butlast p)" and "get_file d p = None" and "json_path p"
    and "\<not> is_dir d p"
  shows "write_exclusively env p c d = (later 7 (put_file p c d), Done Created)"
  using assms free_temp [OF assms(2)] temp_other [OF assms(5), of env d]
  by (simp add: write_exclusively_def Let_def attempt_def bind_def seq_def fill_temp_works temp_parent claim_link_def hard_link_def
      remove_file_def undisturbed_sys drop_put_link ret_def sync_file_def sync_parent_directory_def lift_result_def)

lemma exists_works: "undisturbed env \<Longrightarrow> path_exists env p d = (later 1 d, Done (get_file d p \<noteq> None \<or> is_dir d p))"
  by (simp add: path_exists_def undisturbed_sys)

lemma read_works: "undisturbed env \<Longrightarrow> get_file d p = Some c \<Longrightarrow> read_file env p d = (later 1 d, Done c)"
  by (simp add: read_file_def undisturbed_sys)

lemma read_missing: "undisturbed env \<Longrightarrow> get_file d p = None \<Longrightarrow> read_file env p d = (later 1 d, Failed (SE_Io IoNotFound ''I/O fault''))"
  by (simp add: read_file_def undisturbed_sys io_error_def throw_def)

lemma create_dir_works: "undisturbed env \<Longrightarrow>
    create_dir_all env x d = (later 1 (d\<lparr>dk_dirs := remdups (dk_dirs d @ prefixes x)\<rparr>), Done ())"
  by (simp add: create_dir_all_def undisturbed_sys) (simp add: later_def)

lemma remove_works: "undisturbed env \<Longrightarrow> get_file d p \<noteq> None \<Longrightarrow> remove_file env p d = (later 1 (drop_file p d), Done ())"
  by (auto simp: remove_file_def undisturbed_sys)

section \<open>A store for the witnesses\<close>

text \<open>
  Its documents are written as codes; it holds the demo plan and an approved patch, and a next
  version is ready to be committed.
\<close>

definition toy_text :: "json \<Rightarrow> string" where
  "toy_text v = (case v of JObject kvs \<Rightarrow> (case kvs of
       (k, x) # rest \<Rightarrow> if k = ''patch_id'' then ''t''
         else if k = ''id'' then (case map_of rest ''status'' of Some (JString s) \<Rightarrow> s | _ \<Rightarrow> '''')
         else (case x of JObject ms \<Rightarrow> (if map_of ms ''version'' = Some (JNumber (NumInt 1)) then ''1'' else ''2'') | _ \<Rightarrow> '''')
     | [] \<Rightarrow> '''') | _ \<Rightarrow> '''')"

definition demo_approved :: patch where
  "demo_approved = rename_patch\<lparr>pt_status := Approved\<rparr>"

definition demo_next :: plan where
  "demo_next = demo_plan\<lparr>p_metadata := (p_metadata demo_plan)\<lparr>m_version := 2\<rparr>\<rparr>"

definition toy_parse :: "string \<Rightarrow> json option" where
  "toy_parse s = (if s = ''1'' then Some (plan_doc demo_wire demo_plan) else if s = ''2'' then Some (plan_doc demo_wire demo_next)
     else if s = ''t'' then Some (transaction_doc demo_wire (transaction_for demo_approved demo_next))
     else if s = ''approved'' then Some (patch_doc demo_wire demo_approved)
     else if s = ''applied'' then Some (patch_doc demo_wire (applied demo_approved)) else None)"

definition demo_store :: "char \<Rightarrow> (nat \<Rightarrow> fault) \<Rightarrow> store_env" where
  "demo_store c faults = \<lparr>se_fault = faults, se_partial = \<lambda>n. n, se_uuid = \<lambda>n. c # nat_str n, se_wire = demo_wire, se_text = toy_text,
     se_parse = toy_parse, se_json_error = \<lambda>what raw. what, se_debug = \<lambda>s. s, se_clock = int\<rparr>"

definition crash_at :: "nat \<Rightarrow> nat \<Rightarrow> fault" where
  "crash_at n k = (if k = n then Crashes else Works)"

definition demo_disk :: disk where
  "demo_disk = \<lparr>dk_files = [(plan_current_path demo_plan, ''1''), ([''patches'', ''patch.json''], ''approved'')],
     dk_dirs = STORE_DIRS @ [[''plans'', m_id (p_metadata demo_plan)]], dk_calls = 0\<rparr>"


lemma demo_paths: "current_path ''p'' = [''plans'', ''p'', ''current.json'']" "m_id (p_metadata demo_plan) = ''p''"
    "version_path ''p'' 2 = [''plans'', ''p'', ''v2.json'']"
    "record_path (patch_codec env) ''patch'' = [''patches'', ''patch.json'']"
  by (code_simp, code_simp, code_simp) (simp add: record_path_def patch_codec_def fmt_json)

lemma demo_texts: "toy_text (plan_doc demo_wire demo_plan) = ''1''" "toy_text (patch_doc demo_wire demo_approved) = ''approved''"
    "toy_text (plan_doc demo_wire demo_next) = ''2''" "toy_text (patch_doc demo_wire (applied demo_approved)) = ''applied''"
    "toy_text (transaction_doc demo_wire (transaction_for demo_approved demo_next)) = ''t''"
  by code_simp+

lemma demo_ready: "commit_ready (demo_store c faults) demo_approved demo_plan demo_next (published demo_disk)"
proof -
  have json: "json_path [''plans'', ''p'', ''current.json'']" "json_path [''patches'', ''patch.json'']" by code_simp+
  have f: "published demo_disk x = (if x = [''plans'', ''p'', ''current.json''] then Some ''1''
      else if x = [''patches'', ''patch.json''] then Some ''approved'' else None)" for x
    using json by (auto simp: published_def get_file_def demo_disk_def demo_paths)
  have "wf_plan demo_wire demo_next" using demo_wf by (simp add: wf_plan_def demo_next_def)
  moreover have "wf_operation demo_wire (pt_operation demo_approved)" by code_simp
  moreover have "m_version (p_metadata demo_plan) = 1" "m_version (p_metadata demo_next) = 2" "pt_id demo_approved = ''patch''"
      "pt_plan_id demo_approved = ''p''" "pt_plan_version demo_approved = 1" "pt_status demo_approved = Approved"
      "m_id (p_metadata demo_next) = ''p''" by code_simp+
  moreover have "\<forall>v \<in> commit_documents (demo_store c faults) demo_approved demo_plan demo_next. reads_back (demo_store c faults) v"
    by (simp add: commit_documents_def reads_back_def demo_store_def demo_texts toy_parse_def)
  ultimately show ?thesis
    unfolding commit_ready_def
    by (simp add: f demo_paths demo_wf demo_times demo_texts plan_text_def patch_text_def demo_store_def TRANSACTIONS_DIR_def)
qed

lemma fresh_char:
  assumes "list_all (\<lambda>p. c \<notin> set (last p)) (map fst (dk_files d) @ dk_dirs d)"
  shows "free_names (demo_store c faults) dir d"
proof -
  have c: "c \<in> set (fmt ''{}.{}{}'' [name, c # nat_str n, TEMP_FILE_SUFFIX])" for name n
    by (simp add: fmt.simps)
  have "get_file d (dir @ [t]) = None \<and> \<not> is_dir d (dir @ [t])" if "c \<in> set t" for t
    using assms that by (force simp: get_file_def is_dir_def list_all_iff map_of_eq_None_iff)
  with c show ?thesis by (simp add: free_names_def Let_def demo_store_def)
qed

abbreviation "dying n \<equiv> demo_store (CHR ''X'') (crash_at n)"

abbreviation "working_store \<equiv> demo_store (CHR ''Z'') (\<lambda>n. Works)"

lemma demo_faults: "links_supported (dying n)" "crash_only (dying n)" "crash_only working_store" "undisturbed working_store"
    "same_format (dying m) (dying n)" "same_format (dying m) working_store"
  by (simp_all add: links_supported_def crash_only_def undisturbed_def same_format_def demo_store_def crash_at_def)

lemma demo_ids: "pt_id demo_approved = ''patch''" "valid_id (pt_id demo_approved)" "valid_id (m_id (p_metadata demo_plan))"
  by code_simp+

end
