(* ===== verification/RecordStore.thy ===== *)
theory RecordStore
  imports Undisturbed
begin

text \<open>
  The stores that keep one file per record refine a map from identifiers to records, as long as
  system calls work: saving updates the map, loading looks an identifier up, deleting removes it,
  and listing returns the records newest first.
\<close>

section \<open>The interface\<close>

datatype 'r store_op = Put 'r | Delete string

fun apply_op :: "('r \<Rightarrow> unit io) \<Rightarrow> (string \<Rightarrow> unit io) \<Rightarrow> 'r store_op \<Rightarrow> disk \<Rightarrow> disk" where
  "apply_op put del (Put r) d = fst (put r d)"
| "apply_op put del (Delete k) d = fst (del k d)"

fun map_op :: "('r \<Rightarrow> string) \<Rightarrow> 'r store_op \<Rightarrow> (string \<Rightarrow> 'r option) \<Rightarrow> string \<Rightarrow> 'r option" where
  "map_op key (Put r) m = m(key r \<mapsto> r)"
| "map_op key (Delete k) m = m(k := None)"

fun good_op :: "('r \<Rightarrow> bool) \<Rightarrow> 'r store_op \<Rightarrow> bool" where
  "good_op good (Put r) = good r"
| "good_op good (Delete k) = True"

locale record_files =
  fixes view :: "disk \<Rightarrow> string \<Rightarrow> 'r option"
    and ok :: "disk \<Rightarrow> bool"
    and good :: "'r \<Rightarrow> bool"
    and key :: "'r \<Rightarrow> string"
    and put :: "'r \<Rightarrow> unit io"
    and look :: "string \<Rightarrow> 'r io"
    and del :: "string \<Rightarrow> unit io"
  assumes put_law: "ok d \<Longrightarrow> good r \<Longrightarrow> \<exists>d'. put r d = (d', Done ()) \<and> ok d' \<and> view d' = (view d)(key r \<mapsto> r)"
    and look_law: "ok d \<Longrightarrow> \<exists>d' x. look k d = (d', x) \<and> ok d' \<and> view d' = view d \<and>
      (case view d k of Some r \<Rightarrow> x = Done r | None \<Rightarrow> (\<exists>e. x = Failed e))"
    and del_law: "ok d \<Longrightarrow> \<exists>d' x. del k d = (d', x) \<and> ok d' \<and> view d' = (view d)(k := None) \<and>
      (view d k \<noteq> None \<longrightarrow> x = Done ())"
begin

lemma op_refines: "ok d \<Longrightarrow> (good_op good) oper \<Longrightarrow> ok ((apply_op put del) oper d) \<and> view ((apply_op put del) oper d) = (map_op key) oper (view d)"
  using put_law del_law by (cases oper) (fastforce, metis apply_op.simps(2) fst_conv map_op.simps(2))

lemma ops_refine: "ok d \<Longrightarrow> list_all (good_op good) ops \<Longrightarrow>
    ok (fold (apply_op put del) ops d) \<and> view (fold (apply_op put del) ops d) = fold (map_op key) ops (view d)"
  by (induction ops arbitrary: d) (simp_all add: op_refines)

lemma look_refines:
  assumes "ok d" and "list_all (good_op good) ops"
  shows "snd (look k (fold (apply_op put del) ops d)) = Done r \<longleftrightarrow> fold (map_op key) ops (view d) k = Some r"
proof -
  from ops_refine [OF assms] have d: "ok (fold (apply_op put del) ops d)" "view (fold (apply_op put del) ops d) = fold (map_op key) ops (view d)" by auto
  from look_law [OF d(1), of k] show ?thesis
    unfolding d(2) by (cases "fold (map_op key) ops (view d) k") auto
qed

lemma look_after_put: "ok d \<Longrightarrow> good r \<Longrightarrow> snd (look (key r) (fst (put r d))) = Done r"
  using look_refines [of d "[Put r]" "key r" r] by simp

lemma put_twice: "ok d \<Longrightarrow> good r \<Longrightarrow> good s \<Longrightarrow> key r = key s \<Longrightarrow>
    view (fst (put s (fst (put r d)))) = view (fst (put s d))"
  using ops_refine [of d "[Put r, Put s]"] ops_refine [of d "[Put s]"] by simp

end

section \<open>The record files\<close>

definition stored :: "'r codec \<Rightarrow> disk \<Rightarrow> string \<Rightarrow> 'r option" where
  "stored cd d i = (case get_file d (record_path cd i) of
     None \<Rightarrow> None
   | Some raw \<Rightarrow> (case cd_read cd raw of Inl e \<Rightarrow> None | Inr r \<Rightarrow> if valid_id i \<and> cd_id cd r = i then Some r else None))"

definition working :: "store_env \<Rightarrow> 'r codec \<Rightarrow> disk \<Rightarrow> bool" where
  "working env cd d \<longleftrightarrow> undisturbed env \<and> free_names env (cd_dir cd) d"

definition writable :: "'r codec \<Rightarrow> 'r \<Rightarrow> bool" where
  "writable cd r \<longleftrightarrow> valid_id (cd_id cd r) \<and> cd_read cd (cd_text cd r) = Inr r"

lemma record_path_inj: "record_path cd i = record_path cd j \<longleftrightarrow> i = j"
  by (simp add: record_path_def fmt_json)

lemma record_parent: "butlast (record_path cd i) = cd_dir cd"
  by (simp add: record_path_def)

lemma save_record_works:
  assumes "working env cd d" and "valid_id (cd_id cd r)"
  shows "save_record env cd r d = (later 7 (put_file (record_path cd (cd_id cd r)) (cd_text cd r)
    (d\<lparr>dk_dirs := remdups (dk_dirs d @ prefixes (cd_dir cd))\<rparr>)), Done ())"
proof -
  let ?d = "d\<lparr>dk_dirs := remdups (dk_dirs d @ prefixes (cd_dir cd))\<rparr>"
  have "is_dir ?d (cd_dir cd)"
    unfolding is_dir_create using prefixes_self by (cases "cd_dir cd = []") (auto simp: is_dir_def)
  moreover have "free_names env (cd_dir cd) ?d"
    using assms by (auto simp: working_def intro: free_create)
  ultimately show ?thesis
    using assms by (simp add: save_record_def seq_def bind_def validate_valid ret_def create_dir_works working_def
        write_atomically_works record_parent)
qed

lemma load_record_works:
  assumes "undisturbed env" and "valid_id i"
  shows "load_record env cd i d = (case get_file d (record_path cd i) of
     None \<Rightarrow> if is_dir d (record_path cd i) then (later 2 d, Failed (SE_Io IoNotFound ''I/O fault''))
       else (later 1 d, Failed (SE_NotFound (cd_kind cd) i))
   | Some raw \<Rightarrow> (later 2 d, case cd_read cd raw of Inl e \<Rightarrow> Failed e | Inr r \<Rightarrow> if cd_id cd r = i then Done r
       else Failed (consistency_error (fmt ''{} identity mismatch: requested '{}', stored '{}{}''
         [cd_label cd, i, cd_id cd r, squote]))))"
  using assms
  by (auto simp: load_record_def seq_def bind_def validate_valid ret_def exists_works read_works read_missing throw_def
      lift_result_def numeral_2_eq_2 split: option.splits sum.splits)

lemma delete_record_works:
  assumes "undisturbed env" and "valid_id i"
  shows "delete_record env cd i d = (if get_file d (record_path cd i) \<noteq> None then (later 2 (drop_file (record_path cd i) d), Done ())
     else if is_dir d (record_path cd i) then (later 2 d, Failed (SE_Io IoNotFound ''I/O fault''))
     else (later 1 d, Failed (SE_NotFound (cd_kind cd) i)))"
  using assms
  by (auto simp: delete_record_def seq_def bind_def validate_valid ret_def exists_works remove_file_def undisturbed_sys throw_def
      io_error_def numeral_2_eq_2)

lemma stored_put: "writable cd r \<Longrightarrow> stored cd (put_file (record_path cd (cd_id cd r)) (cd_text cd r) d) = (stored cd d)(cd_id cd r \<mapsto> r)"
  by (auto simp: stored_def fun_eq_iff record_path_inj writable_def)

lemma stored_drop: "stored cd (drop_file (record_path cd i) d) = (stored cd d)(i := None)"
  by (auto simp: stored_def fun_eq_iff record_path_inj)

lemma stored_frame [simp]: "stored cd (later n d) = stored cd d" "stored cd (d\<lparr>dk_dirs := ds\<rparr>) = stored cd d"
  by (simp_all add: stored_def fun_eq_iff)

interpretation record_store: record_files "stored cd" "working env cd" "writable cd" "cd_id cd"
    "save_record env cd" "load_record env cd" "delete_record env cd" for env cd
proof
  fix d r
  assume d: "working env cd d" and r: "writable cd r"
  then have "cd_id cd r \<noteq> []" and v: "valid_id (cd_id cd r)" by (auto simp: writable_def valid_id_def)
  with d have "working env cd (later 7 (put_file (record_path cd (cd_id cd r)) (cd_text cd r)
      (d\<lparr>dk_dirs := remdups (dk_dirs d @ prefixes (cd_dir cd))\<rparr>)))"
    by (auto simp: working_def intro!: free_later' free_put free_create record_json)
  then show "\<exists>d'. save_record env cd r d = (d', Done ()) \<and> working env cd d' \<and> stored cd d' = (stored cd d)(cd_id cd r \<mapsto> r)"
    by (simp add: save_record_works [OF d v] stored_put [OF r])
next
  fix d k
  assume d: "working env cd d"
  show "\<exists>d' x. load_record env cd k d = (d', x) \<and> working env cd d' \<and> stored cd d' = stored cd d \<and>
      (case stored cd d k of Some r \<Rightarrow> x = Done r | None \<Rightarrow> (\<exists>e. x = Failed e))"
  proof (cases "valid_id k")
    case True
    with d show ?thesis
      by (auto simp: working_def load_record_works stored_def split: option.splits sum.splits)
  next
    case False
    with validate_invalid [OF False, of env] d show ?thesis
      by (auto simp: load_record_def seq_def bind_def throw_def stored_def split: option.splits sum.splits)
  qed
next
  fix d k
  assume d: "working env cd d"
  show "\<exists>d' x. delete_record env cd k d = (d', x) \<and> working env cd d' \<and> stored cd d' = (stored cd d)(k := None) \<and>
      (stored cd d k \<noteq> None \<longrightarrow> x = Done ())"
  proof (cases "valid_id k")
    case True
    with d show ?thesis
      by (auto simp: working_def delete_record_works stored_drop free_drop fun_eq_iff) (auto simp: stored_def)
  next
    case False
    with validate_invalid [OF False, of env] d show ?thesis
      by (auto simp: delete_record_def seq_def bind_def throw_def stored_def fun_eq_iff split: option.splits sum.splits)
  qed
qed

section \<open>Listing\<close>

text \<open>Every file of the store's directory is the file of a valid identifier that does not itself end in \<^verbatim>\<open>.json\<close>.\<close>

definition tidy :: "'r codec \<Rightarrow> disk \<Rightarrow> bool" where
  "tidy cd d \<longleftrightarrow> is_dir d (cd_dir cd) \<and>
     (\<forall>name. get_file d (cd_dir cd @ [name]) \<noteq> None \<longrightarrow>
       (\<exists>i. valid_id i \<and> \<not> ends_with i ''.json'' \<and> name = i @ ''.json''))"

definition listed :: "'r codec \<Rightarrow> disk \<Rightarrow> string \<times> bool \<Rightarrow> 'r option" where
  "listed cd d entry = (case entry of (name, is_file) \<Rightarrow>
     if \<not> ends_with name ''.json'' \<or> \<not> is_file then None
     else case get_file d (cd_dir cd @ [name]) of None \<Rightarrow> None
     | Some raw \<Rightarrow> (case cd_read cd raw of Inl e \<Rightarrow> None
         | Inr r \<Rightarrow> if cd_id cd r = trim_end_matches ''.json'' name then Some r else None))"

lemma listed_later [simp]: "listed cd (later n d) = listed cd d"
  by (simp add: listed_def fun_eq_iff)

lemma listed_text: "ends_with name ''.json'' \<Longrightarrow> listed cd d (name, True) = (case get_file d (cd_dir cd @ [name]) of None \<Rightarrow> None
     | Some raw \<Rightarrow> (case cd_read cd raw of Inl e \<Rightarrow> None
         | Inr r \<Rightarrow> if cd_id cd r = trim_end_matches ''.json'' name then Some r else None))"
  by (simp add: listed_def)

lemma collect_records_works: "undisturbed env \<Longrightarrow>
    \<exists>n. collect_records env cd es d = (later n d, Done (List.map_filter (listed cd d) es))"
proof (induction es arbitrary: d)
  case Nil
  show ?case by (rule exI [of _ 0]) (simp add: ret_def map_filter_simps later_def)
next
  case (Cons e es)
  obtain name is_file where e: "e = (name, is_file)" by (cases e)
  from Cons.IH [OF Cons.prems, of d] obtain n where n: "collect_records env cd es d = (later n d, Done (List.map_filter (listed cd d) es))" ..
  from Cons.IH [OF Cons.prems, of "later 1 d"] obtain m where m: "collect_records env cd es (later 1 d) =
      (later m (later 1 d), Done (List.map_filter (listed cd d) es))" by auto
  show ?case
  proof (cases "\<not> ends_with name ''.json'' \<or> \<not> is_file")
    case True
    then have "listed cd d e = None" by (auto simp: e listed_def)
    with True n show ?thesis by (auto simp: e map_filter_simps)
  next
    case False
    have "\<exists>r. attempt (read_file env (cd_dir cd @ [name])) d = (later 1 d, Done r) \<and>
        (case get_file d (cd_dir cd @ [name]) of None \<Rightarrow> \<exists>e. r = Inl e | Some raw \<Rightarrow> r = Inr raw)"
      using Cons.prems by (cases "get_file d (cd_dir cd @ [name])") (simp_all add: attempt_def read_works read_missing)
    then obtain r where r: "attempt (read_file env (cd_dir cd @ [name])) d = (later 1 d, Done r)"
      "case get_file d (cd_dir cd @ [name]) of None \<Rightarrow> \<exists>e. r = Inl e | Some raw \<Rightarrow> r = Inr raw" by blast
    with False m show ?thesis
      by (auto simp: e listed_text map_filter_simps bind_def ret_def intro!: exI [of _ "m + 1"] split: option.splits sum.splits)
  qed
qed

lemma trim_json: "\<not> ends_with i ''.json'' \<Longrightarrow> trim_end_matches ''.json'' (i @ ''.json'') = i"
proof -
  assume i: "\<not> ends_with i ''.json''"
  have "trim_end_matches ''.json'' i = i"
    using i by (subst trim_end_matches.simps) (auto simp: strip_suffix_Some ends_with_append split: option.splits)
  then show ?thesis
    by (subst trim_end_matches.simps) (auto simp: strip_suffix_Some split: option.splits)
qed

lemma list_records_works:
  assumes "undisturbed env" and "is_dir d (cd_dir cd)"
  shows "\<exists>n. list_records env cd d = (later n d, Done (sort_key (\<lambda>r. - cd_date cd r) (List.map_filter (listed cd d) (children d (cd_dir cd)))))"
proof -
  obtain n where "collect_records env cd (children d (cd_dir cd)) (later 2 d) =
      (later n (later 2 d), Done (List.map_filter (listed cd d) (children d (cd_dir cd))))"
    using collect_records_works [OF assms(1), of cd "children d (cd_dir cd)" "later 2 d"] by auto
  moreover have "children (later m d) (cd_dir cd) = children d (cd_dir cd)" for m
    by (simp add: children_def later_def)
  ultimately show ?thesis
    using assms by (auto simp: list_records_def bind_def exists_works read_dir_def undisturbed_sys ret_def numeral_2_eq_2
        intro!: exI [of _ "n + 2"])
qed

lemma listed_stored:
  assumes "tidy cd d"
  shows "r \<in> set (List.map_filter (listed cd d) (children d (cd_dir cd))) \<longleftrightarrow> (\<exists>i. stored cd d i = Some r)"
proof
  assume "r \<in> set (List.map_filter (listed cd d) (children d (cd_dir cd)))"
  then obtain name is_file where n: "(name, is_file) \<in> set (children d (cd_dir cd))" "listed cd d (name, is_file) = Some r"
    by (auto simp: List.map_filter_def)
  then have "get_file d (cd_dir cd @ [name]) \<noteq> None"
    by (auto simp: listed_def split: if_splits option.splits)
  with assms obtain i where i: "valid_id i" "\<not> ends_with i ''.json''" "name = i @ ''.json''"
    unfolding tidy_def by blast
  then have "record_path cd i = cd_dir cd @ [name]" by (simp add: record_path_def fmt_json)
  with n(2) i have "stored cd d i = Some r"
    by (auto simp: listed_def stored_def trim_json split: if_splits option.splits sum.splits)
  then show "\<exists>i. stored cd d i = Some r" ..
next
  assume "\<exists>i. stored cd d i = Some r"
  then obtain i where i: "stored cd d i = Some r" ..
  then obtain raw where raw: "get_file d (record_path cd i) = Some raw" "cd_read cd raw = Inr r" "cd_id cd r = i"
    by (auto simp: stored_def split: option.splits sum.splits if_splits)
  then have m: "(record_path cd i, raw) \<in> set (dk_files d)" by (auto simp: get_file_def dest: map_of_SomeD)
  have "get_file d (cd_dir cd @ [i @ ''.json'']) \<noteq> None"
    using raw by (simp add: record_path_def fmt_json)
  then have e: "\<not> ends_with i ''.json''"
    using assms unfolding tidy_def by blast
  have "(i @ ''.json'', True) \<in> set (children d (cd_dir cd))"
    using m by (force simp: children_def child_of_def record_path_def fmt_json)
  moreover have "listed cd d (i @ ''.json'', True) = Some r"
    using raw e by (simp add: listed_def trim_json record_path_def fmt_json)
  ultimately show "r \<in> set (List.map_filter (listed cd d) (children d (cd_dir cd)))"
    by (force simp: List.map_filter_def)
qed

section \<open>The stores as maps\<close>

text \<open>
  C20: A record store refines a map. After any sequence of saves, of records whose identifier is valid
  and whose document is read back, and deletes, by a process whose system calls work, loading an
  identifier returns exactly the record the map holds under it, and fails when it holds none.
\<close>

theorem record_store_refines_map:
  assumes "working env cd d" and "list_all (good_op (writable cd)) ops"
  shows "snd (load_record env cd i (fold (apply_op (save_record env cd) (delete_record env cd)) ops d)) = Done r \<longleftrightarrow>
    fold (map_op (cd_id cd)) ops (stored cd d) i = Some r"
  using assms by (rule record_store.look_refines)

lemma record_store_refines_map_witness:
  "snd (load_record working_store (patch_codec working_store) ''patch''
     (fold (apply_op (save_record working_store (patch_codec working_store)) (delete_record working_store (patch_codec working_store)))
       [Put (applied demo_approved), Delete ''other''] demo_disk)) = Done (applied demo_approved)"
proof -
  let ?cd = "patch_codec working_store"
  have id: "cd_id ?cd (applied demo_approved) = ''patch''" "valid_id ''patch''"
    using demo_ids by (simp_all add: patch_codec_def applied_def)
  have "list_all (\<lambda>p. CHR ''Z'' \<notin> set (last p)) (map fst (dk_files demo_disk) @ dk_dirs demo_disk)" by code_simp
  then have "working working_store ?cd demo_disk"
    by (simp add: working_def demo_faults fresh_char)
  moreover have "writable ?cd (applied demo_approved)"
    using ready_plans(4) [OF demo_ready] id by (simp add: writable_def) (simp add: patch_codec_def)
  ultimately show ?thesis
    using record_store_refines_map [of working_store ?cd demo_disk "[Put (applied demo_approved), Delete ''other'']"] id by simp
qed

text \<open>
  Listing a store returns every stored record and nothing else, the newest first, when every file
  of the directory is named after a valid identifier that does not itself end in \<^verbatim>\<open>.json\<close>.
\<close>

theorem list_records_complete:
  assumes "undisturbed env" and "tidy cd d"
  shows "\<exists>d' rs. list_records env cd d = (d', Done rs) \<and> set rs = ran (stored cd d) \<and>
    sorted (map (\<lambda>r. - cd_date cd r) rs)"
proof -
  have "is_dir d (cd_dir cd)" using assms(2) by (simp add: tidy_def)
  from list_records_works [OF assms(1) this] show ?thesis
    using listed_stored [OF assms(2)] by (fastforce simp: ran_def)
qed

lemma list_records_complete_witness:
  "case list_records working_store (patch_codec working_store) demo_disk of
     (d', Done rs) \<Rightarrow> set rs = {demo_approved} | r \<Rightarrow> False"
proof -
  let ?cd = "patch_codec working_store"
  have g: "get_file demo_disk [''patches'', name] = (if name = ''patch.json'' then Some ''approved'' else None)" for name
    by (simp add: get_file_def demo_disk_def demo_paths)
  have "is_dir demo_disk [''patches'']" by code_simp
  moreover have "\<exists>i. valid_id i \<and> \<not> ends_with i ''.json'' \<and> ''patch.json'' = i @ ''.json''"
    using demo_ids by (intro exI [of _ "''patch''"]) (simp add: ends_with_def)
  ultimately have tidy: "tidy ?cd demo_disk" by (simp add: tidy_def g patch_codec_def)
  have read: "cd_read ?cd ''approved'' = Inr demo_approved"
    using ready_plans(3) [OF demo_ready, of "CHR ''Z''" "\<lambda>n. Works"] by (simp add: patch_text_def) (simp add: demo_store_def demo_texts)
  have "stored ?cd demo_disk i = (if i = ''patch'' then Some demo_approved else None)" for i
    using g [of "i @ ''.json''"] read demo_ids
    by (auto simp: stored_def record_path_def fmt_json patch_codec_def)
  then have "ran (stored ?cd demo_disk) = {demo_approved}" by (auto simp: ran_def split: if_splits)
  with list_records_complete [OF demo_faults(4) tidy] show ?thesis by auto
qed

end
