(* ===== verification/Recovery.thy ===== *)
theory Recovery
  imports RecordStore
begin

text \<open>
  Recovery comes to an end: an opening of the store that is not disturbed completes whatever an
  interrupted commit left.  Together with the crash safety of the commit this says what every
  interruption ends in.  A computation that cannot fail is a triple whose failure post-condition is
  empty.
\<close>

abbreviation succeeds :: "(disk \<Rightarrow> bool) \<Rightarrow> 'a io \<Rightarrow> ('a \<Rightarrow> disk \<Rightarrow> bool) \<Rightarrow> bool" where
  "succeeds P m Q \<equiv> triple P m Q (\<lambda>d. False)"

lemma succeeds_iff: "succeeds P m Q \<longleftrightarrow> (\<forall>d. P d \<longrightarrow> (\<exists>d' v. m d = (d', Done v) \<and> Q v d'))"
proof -
  have "(case m d of (d', Done v) \<Rightarrow> Q v d' | (d', Failed e) \<Rightarrow> False | (d', Crashed) \<Rightarrow> False) \<longleftrightarrow>
      (\<exists>d' v. m d = (d', Done v) \<and> Q v d')" for d
    by (cases "m d"; cases "snd (m d)") auto
  then show ?thesis by (simp add: triple_def)
qed

section \<open>Undisturbed system calls\<close>

definition calm :: "store_env \<Rightarrow> plan \<Rightarrow> disk \<Rightarrow> bool" where
  "calm e q d \<longleftrightarrow> undisturbed e \<and> free_names e (PLANS_DIR @ [m_id (p_metadata q)]) d \<and>
     free_names e [''patches''] d \<and> free_names e TRANSACTIONS_DIR d"

lemma calm_later [simp]: "calm e q d \<Longrightarrow> calm e q (later n d)"
  by (simp add: calm_def)

lemma calm_put: "calm e q d \<Longrightarrow> json_path p \<Longrightarrow> calm e q (put_file p c d)"
  by (simp add: calm_def free_put)

lemma calm_drop: "calm e q d \<Longrightarrow> calm e q (drop_file p d)"
  by (simp add: calm_def free_drop)

lemma calm_create: "calm e q d \<Longrightarrow> length x \<le> 1 \<or> x = PLANS_DIR @ [m_id (p_metadata q)] \<Longrightarrow>
    calm e q (d\<lparr>dk_dirs := remdups (dk_dirs d @ prefixes x)\<rparr>)"
  unfolding calm_def
  by (elim conjE disjE)
    (auto intro: free_create free_create_other simp: TRANSACTIONS_DIR_def PLANS_DIR_def)

lemma published_get: "published d p = Some c \<Longrightarrow> get_file d p = Some c \<and> json_path p"
  by (simp add: published_def split: if_splits)

abbreviation at :: "store_env \<Rightarrow> plan \<Rightarrow> files \<Rightarrow> disk \<Rightarrow> bool" where
  "at e q g \<equiv> (\<lambda>d. published d = g \<and> calm e q d)"

lemma create_dir_succeeds: "length x \<le> 1 \<or> x = PLANS_DIR @ [m_id (p_metadata q)] \<Longrightarrow>
    succeeds (at e q g) (create_dir_all e x) (\<lambda>u d. at e q g d \<and> is_dir d x)"
proof -
  assume x: "length x \<le> 1 \<or> x = PLANS_DIR @ [m_id (p_metadata q)]"
  have "is_dir (d\<lparr>dk_dirs := remdups (dk_dirs d @ prefixes x)\<rparr>) x" for d
    unfolding is_dir_create using prefixes_self [of x] by (cases "x = []") (auto simp: is_dir_def)
  moreover have "create_dir_all e x d = (later 1 (d\<lparr>dk_dirs := remdups (dk_dirs d @ prefixes x)\<rparr>), Done ())" if "calm e q d" for d
    using that by (simp add: create_dir_works calm_def)
  ultimately show ?thesis
    using calm_create [OF _ x] by (simp add: triple_def)
qed

lemma load_plan_succeeds:
  assumes "g path = Some (plan_text e x)" and "decode e ''plan'' (plan_of (se_wire e)) (plan_text e x) = Inr x"
    and "m_id (p_metadata x) = i"
  shows "succeeds (at e q g) (load_plan_from_path e path i) (\<lambda>c d. c = x \<and> at e q g d)"
proof -
  have "load_plan_from_path e path i d = (later 2 d, Done x)" if "at e q g d" for d
    using that assms published_get [of d path "plan_text e x"]
    by (simp add: load_plan_from_path_def bind_def exists_works read_works calm_def lift_result_def ret_def numeral_2_eq_2)
  then show ?thesis by (simp add: triple_def)
qed

lemma write_succeeds:
  assumes "json_path p" and "butlast p = [''patches''] \<or> butlast p = PLANS_DIR @ [m_id (p_metadata q)]"
  shows "succeeds (\<lambda>d. at e q g d \<and> is_dir d (butlast p)) (write_atomically e p c) (\<lambda>u. at e q (g(p \<mapsto> c)))"
proof -
  have "write_atomically e p c d = (later 6 (put_file p c d), Done ())" if "at e q g d" "is_dir d (butlast p)" for d
    using that assms by (intro write_atomically_works) (auto simp: calm_def)
  then show ?thesis using assms by (auto simp: triple_def calm_put)
qed

lemma load_patch_succeeds:
  assumes "g (record_path (patch_codec e) i) = Some (patch_text e x)" and "cd_read (patch_codec e) (patch_text e x) = Inr x"
    and "valid_id i" and "pt_id x = i"
  shows "succeeds (at e q g) (load_patch e i) (\<lambda>c d. c = x \<and> at e q g d)"
proof -
  have "load_patch e i d = (later 2 d, Done x)" if "at e q g d" for d
    using that assms published_get [of d "record_path (patch_codec e) i" "patch_text e x"]
    by (auto simp: load_patch_def load_record_works calm_def patch_codec_def)
  then show ?thesis by (simp add: triple_def)
qed

lemma save_patch_succeeds:
  assumes "valid_id (pt_id x)"
  shows "succeeds (at e q g) (save_patch e x) (\<lambda>u. at e q (g(record_path (patch_codec e) (pt_id x) \<mapsto> patch_text e x)))"
proof -
  let ?p = "record_path (patch_codec e) (pt_id x)"
  have json: "json_path ?p" using assms by (simp add: valid_id_def record_json)
  have "save_patch e x d = (later 7 (put_file ?p (patch_text e x) (d\<lparr>dk_dirs := remdups (dk_dirs d @ prefixes [''patches''])\<rparr>)), Done ())"
    if "at e q g d" for d
    using that assms save_record_works [of e "patch_codec e" d x]
    by (simp add: save_patch_def working_def calm_def patch_codec_def)
  then show ?thesis using json by (auto simp: triple_def intro!: calm_later calm_put calm_create)
qed

lemma claim_succeeds:
  assumes g: "g (snapshot_path q) = Some (plan_text e q)" and q: "decode e ''plan'' (plan_of (se_wire e)) (plan_text e q) = Inr q"
    and "valid_id (m_id (p_metadata q))" and "same_plan q q"
  shows "succeeds (at e q g) (claim_snapshot e q) (\<lambda>u d. at e q g d \<and> is_dir d (PLANS_DIR @ [m_id (p_metadata q)]))"
proof -
  let ?dir = "PLANS_DIR @ [m_id (p_metadata q)]"
  have parent: "butlast (snapshot_path q) = ?dir" by (simp add: version_path_def PLANS_DIR_def)
  have "claim_snapshot e q d = (later 8 (d\<lparr>dk_dirs := remdups (dk_dirs d @ prefixes ?dir)\<rparr>), Done ())" (is "_ = (later 8 ?d, _)")
    if d: "at e q g d" for d
  proof -
    have c: "calm e q ?d" using d by (intro calm_create) auto
    have f: "get_file ?d (snapshot_path q) = Some (plan_text e q)" "json_path (snapshot_path q)"
      using published_get [of d "snapshot_path q"] d g by auto
    have dir: "is_dir ?d ?dir" using prefixes_self [of ?dir] by (simp add: is_dir_create)
    have w: "write_exclusively e (snapshot_path q) (plan_text e q) (later 1 ?d) = (later 5 (later 1 ?d), Done AlreadyExists)"
      using c f dir by (intro write_exclusively_taken) (auto simp: calm_def parent)
    have "load_version e (m_id (p_metadata q)) (m_version (p_metadata q)) (later 6 ?d) = (later 2 (later 6 ?d), Done q)"
      using c f q assms(3)
      by (simp add: load_version_def seq_def bind_def validate_valid ret_def load_plan_from_path_def exists_works read_works
          calm_def lift_result_def numeral_2_eq_2)
    with w d assms(3,4) show ?thesis
      by (simp add: claim_snapshot_def Let_def seq_def bind_def validate_valid ret_def create_dir_works calm_def)
  qed
  then show ?thesis
    using prefixes_self [of ?dir] by (auto simp: triple_def is_dir_create intro!: calm_later calm_create)
qed

lemma remove_succeeds:
  assumes "g (journal_path i) \<noteq> None"
  shows "succeeds (at e q g) (remove_journal e i) (\<lambda>u. at e q (g(journal_path i := None)))"
proof -
  have "remove_journal e i d = (later 3 (drop_file (journal_path i) d), Done ()) \<and> json_path (journal_path i)" if "at e q g d" for d
    using that assms published_get [of d "journal_path i"]
    by (auto simp: remove_journal_def bind_def seq_def exists_works remove_works calm_def sync_parent_directory_def sync_file_def
        undisturbed_sys ret_def numeral_3_eq_3)
  then show ?thesis by (auto simp: triple_def intro!: calm_later calm_drop)
qed

section \<open>Completing a journal succeeds\<close>

lemma current_works:
  assumes "published d (current_path i) = Some (plan_text e x)" and "undisturbed e"
    and "decode e ''plan'' (plan_of (se_wire e)) (plan_text e x) = Inr x" and "m_id (p_metadata x) = i"
  shows "load_current_if_present e i d = (later 3 d, Done (Some x))"
  using assms published_get [OF assms(1)]
  by (simp add: load_current_if_present_def load_plan_from_path_def bind_def exists_works read_works
      lift_result_def ret_def numeral_3_eq_3)

lemma complete_succeeds:
  assumes ready: "commit_ready e pt p q f" and ids: "valid_id (pt_id pt)" "valid_id (m_id (p_metadata p))"
    and g: "g \<in> unfinished e pt q f"
  shows "succeeds (at e q g) (complete_repair_transaction e (transaction_for pt q)) (\<lambda>u. at e q (committed_stage e pt q f))"
proof -
  let ?t = "transaction_for pt q" and ?s3 = "advanced_stage e pt q f" and ?s4 = "settled_stage e pt q f"
  note r = ready [unfolded commit_ready_def]
  note reads = ready_plans [OF ready]
  have parent: "butlast (plan_current_path q) = PLANS_DIR @ [m_id (p_metadata q)]"
    by (simp add: current_path_def PLANS_DIR_def)
  have snap: "g (snapshot_path q) = Some (plan_text e q)"
    using g by (auto simp: unfinished_def stage_defs stage_paths)
  have qid: "m_id (p_metadata q) = m_id (p_metadata p)" using r by simp
  have claim: "succeeds (at e q g) (claim_snapshot e q) (\<lambda>u d. at e q g d \<and> is_dir d (PLANS_DIR @ [m_id (p_metadata q)]))"
    by (rule claim_succeeds) (use snap reads ids qid in auto)
  let ?adv = "\<lambda>d. published d \<in> {?s3, ?s4} \<and> calm e q d"
  have advance: "succeeds (\<lambda>d. at e q g d \<and> is_dir d (PLANS_DIR @ [m_id (p_metadata q)]))
      (advance_current e q (Some (pt_plan_version pt))) (\<lambda>u. ?adv)" (is "succeeds ?P _ _")
  proof -
    have present: "succeeds ?P (load_current_if_present e (m_id (p_metadata q))) (\<lambda>c d. c = Some x \<and> ?P d)"
      if "g (plan_current_path q) = Some (plan_text e x)" "decode e ''plan'' (plan_of (se_wire e)) (plan_text e x) = Inr x"
        "m_id (p_metadata x) = m_id (p_metadata q)" for x
      using that current_works by (auto simp: triple_def calm_def)
    show ?thesis
    proof (cases "g = journaled_stage e pt q f")
      case True
      then have cur: "g (plan_current_path q) = Some (plan_text e p)"
        using r by (simp add: stage_defs stage_paths)
      have upd: "g(plan_current_path q \<mapsto> plan_text e q) = ?s3"
        by (simp add: True advanced_stage_def with_current_def)
      have "succeeds ?P (write_atomically e (plan_current_path q) (plan_text e q)) (\<lambda>u. at e q ?s3)"
        using write_succeeds [OF current_json, of "m_id (p_metadata q)" q g e "plan_text e q"] by (simp only: parent upd simp_thms)
      then have w: "succeeds ?P (write_atomically e (plan_current_path q) (plan_text e q)) (\<lambda>u. ?adv)"
        by (rule triple_conseq) simp_all
      have "m_version (p_metadata q) \<noteq> m_version (p_metadata p)" using r by simp
      then have differ: "\<not> same_plan p q" using same_plan_metadata [of p q] by metis
      show ?thesis
        unfolding advance_current_def Let_def
      proof (rule triple_bind [OF present [OF cur reads(1) qid [symmetric]]], rule triple_pure, goal_cases)
        case (1 c)
        then show ?case using r w by (simp add: differ saturating_succ_def)
      qed
    next
      case False
      with g have s: "g \<in> {?s3, ?s4}" by (auto simp: unfinished_def)
      then have cur: "g (plan_current_path q) = Some (plan_text e q)"
        by (auto simp: stage_defs stage_paths)
      show ?thesis
        unfolding advance_current_def Let_def
      proof (rule triple_bind [OF present [OF cur reads(2) refl]], rule triple_pure, goal_cases)
        case (1 c)
        then show ?case using s by (simp add: reads(5)) (rule triple_ret, auto)
      qed
    qed
  qed
  have rest: "succeeds (at e q h) (bind (load_patch e (pt_id pt)) (\<lambda>patch. seq (settle_patch e ?t patch) (remove_journal e (pt_id pt))))
      (\<lambda>u. at e q (committed_stage e pt q f))" if h: "h \<in> {?s3, ?s4}" for h
  proof -
    have remove: "succeeds (at e q ?s4) (remove_journal e (pt_id pt)) (\<lambda>u. at e q (committed_stage e pt q f))"
      unfolding committed_stage_def by (rule remove_succeeds) (simp add: settled_journal)
    let ?x = "if h = ?s4 then applied pt else pt"
    have x: "h (record_path (patch_codec e) (pt_id pt)) = Some (patch_text e ?x)"
      using h r by (auto simp: settled_stage_def with_applied_def) (auto simp: stage_defs stage_paths)
    have load: "succeeds (at e q h) (load_patch e (pt_id pt)) (\<lambda>c d. c = ?x \<and> at e q h d)"
      by (rule load_patch_succeeds, rule x) (use ids reads in \<open>auto simp: applied_def\<close>)
    have settle: "succeeds (at e q h) (settle_patch e ?t ?x) (\<lambda>u. at e q ?s4)"
    proof (cases "h = ?s4")
      case True
      then show ?thesis using r by (auto simp: settle_patch_def transaction_for_def applied_def intro: triple_ret)
    next
      case False
      with h have "h = ?s3" by simp
      then have "h(record_path (patch_codec e) (pt_id (applied pt)) \<mapsto> patch_text e (applied pt)) = ?s4"
        by (simp add: settled_stage_def with_applied_def applied_def)
      with save_patch_succeeds [of "applied pt" h e q] ids False r show ?thesis
        by (simp add: settle_patch_def transaction_for_def applied_def)
    qed
    show ?thesis
      by (rule triple_bind [OF load], rule triple_pure) (simp only: triple_seq [OF settle remove])
  qed
  have "succeeds ?adv (bind (load_patch e (pt_id pt)) (\<lambda>patch. seq (settle_patch e ?t patch) (remove_journal e (pt_id pt))))
      (\<lambda>u. at e q (committed_stage e pt q f))"
    using rest [of ?s3] rest [of ?s4] by (auto simp: triple_def)
  note all = triple_seq [OF claim triple_seq [OF advance this]]
  have "m_id (p_metadata (tx_next_plan ?t)) = tx_plan_id ?t"
      "m_version (p_metadata (tx_next_plan ?t)) = saturating_succ (tx_base_version ?t)" "tx_plan_id ?t = m_id (p_metadata p)"
    using r by (auto simp: transaction_for_def saturating_succ_def)
  then show ?thesis
    using all ids by (simp add: complete_repair_transaction_def validate_valid seq_ret transaction_for_def)
qed

section \<open>Opening the store succeeds\<close>

definition settled_calm :: "store_env \<Rightarrow> patch \<Rightarrow> plan \<Rightarrow> files \<Rightarrow> disk \<Rightarrow> bool" where
  "settled_calm e pt q f d \<longleftrightarrow> published d \<in> commit_stages e pt q f \<and> calm e q d"

lemma recover_journal_succeeds:
  assumes ready: "commit_ready e pt p q f" and ids: "valid_id (pt_id pt)" "valid_id (m_id (p_metadata p))"
    and name: "TRANSACTIONS_DIR @ [n] = journal_path (pt_id pt)"
  shows "succeeds (settled_calm e pt q f) (recover_journal e n) (\<lambda>u. settled_calm e pt q f)"
proof -
  have "\<exists>d' v. recover_journal e n d = (d', Done v) \<and> settled_calm e pt q f d'" if d: "settled_calm e pt q f d" for d
  proof (cases "published d \<in> unfinished e pt q f")
    case True
    let ?g = "published d" and ?n = "TRANSACTIONS_DIR @ [n]"
    have calm: "calm e q (later 1 d)" using d by (simp add: settled_calm_def)
    have "?g (journal_path (pt_id pt)) = Some (transaction_text e (transaction_for pt q))"
      by (rule unfinished_journal [OF True])
    then have "read_file e ?n d = (later 1 d, Done (transaction_text e (transaction_for pt q)))"
      using d published_get by (intro read_works) (auto simp: settled_calm_def calm_def name)
    then have rec: "recover_journal e n d = complete_repair_transaction e (transaction_for pt q) (later 1 d)"
      by (simp add: recover_journal_def bind_def attempt_def ready_decodes(5) [OF ready])
    have "committed_stage e pt q f \<in> commit_stages e pt q f" by (simp add: commit_stages_def)
    moreover obtain d' v where "complete_repair_transaction e (transaction_for pt q) (later 1 d) = (d', Done v)"
        "at e q (committed_stage e pt q f) d'"
      using complete_succeeds [OF ready ids True] calm unfolding succeeds_iff by (metis later_simps(4))
    ultimately show ?thesis by (simp add: rec settled_calm_def)
  next
    case False
    with d have "published d \<in> recovered e pt q f" by (auto simp: settled_calm_def stage_split)
    then have "published d (journal_path (pt_id pt)) = None"
      using no_journal_left [OF ready, of _ n] name by simp
    moreover have "json_path (journal_path (pt_id pt))"
      using ids by (intro journal_json) (auto simp: valid_id_def)
    ultimately have "get_file d (TRANSACTIONS_DIR @ [n]) = None" by (simp add: published_def name)
    with d show ?thesis
      by (simp add: recover_journal_def bind_def attempt_def read_missing settled_calm_def calm_def ret_def)
  qed
  then show ?thesis unfolding succeeds_iff by blast
qed

lemma open_succeeds:
  assumes ready: "commit_ready e pt p q f" and ids: "valid_id (pt_id pt)" "valid_id (m_id (p_metadata p))"
  shows "succeeds (settled_calm e pt q f) (open_storage e) (\<lambda>u. settled_calm e pt q f)"
proof -
  let ?J = "settled_calm e pt q f"
  have dir: "succeeds (\<lambda>d. ?J d \<and> (\<forall>y \<in> Y. is_dir d y)) (create_dir_all e x) (\<lambda>u d. ?J d \<and> (\<forall>y \<in> insert x Y. is_dir d y))"
    if "length x \<le> 1" for x Y
  proof -
    have "is_dir (d\<lparr>dk_dirs := remdups (dk_dirs d @ prefixes x)\<rparr>) x" for d
      unfolding is_dir_create using prefixes_self [of x] by (cases "x = []") (auto simp: is_dir_def)
    moreover have "create_dir_all e x d = (later 1 (d\<lparr>dk_dirs := remdups (dk_dirs d @ prefixes x)\<rparr>), Done ())" if "calm e q d" for d
      using that by (simp add: create_dir_works calm_def)
    ultimately show ?thesis
      using calm_create [of e q _ x] that by (simp add: triple_def settled_calm_def) (simp add: is_dir_create)
  qed
  have dirs: "succeeds (\<lambda>d. ?J d \<and> (\<forall>y \<in> Y. is_dir d y)) (io_each (create_dir_all e) xs)
      (\<lambda>u d. ?J d \<and> (\<forall>y \<in> set xs \<union> Y. is_dir d y))" if "\<forall>x \<in> set xs. length x \<le> 1" for xs Y
    using that
  proof (induction xs arbitrary: Y)
    case (Cons x xs)
    from triple_seq [OF dir Cons.IH, of x Y] Cons.prems show ?case by simp
  qed (simp add: triple_ret)
  have recover: "succeeds (\<lambda>d. ?J d \<and> is_dir d TRANSACTIONS_DIR) (recover_repair_transactions e) (\<lambda>u. ?J)"
  proof (rule triple_at)
    fix d assume d: "?J d \<and> is_dir d TRANSACTIONS_DIR"
    have list: "read_dir e TRANSACTIONS_DIR d = (later 1 d, Done (children (later 1 d) TRANSACTIONS_DIR))"
      using d by (simp add: read_dir_def undisturbed_sys settled_calm_def calm_def)
    let ?js = "journals (children (later 1 d) TRANSACTIONS_DIR)"
    have "triple (pub (published d)) (read_dir e TRANSACTIONS_DIR)
      (\<lambda>es d'. published d' = published d \<and> set (journals es) = {n. published d (TRANSACTIONS_DIR @ [n]) \<noteq> None}) (pub (published d))"
      by (rule journals_triple)
    from triple_done [OF this _ , of d] list
    have js: "set ?js = {n. published d (TRANSACTIONS_DIR @ [n]) \<noteq> None}" by simp
    have each: "succeeds ?J (recover_journal e n) (\<lambda>u. ?J)" if "n \<in> set ?js" for n
    proof (cases "published d \<in> unfinished e pt q f")
      case True
      with that js journal_left [OF ready True] have "TRANSACTIONS_DIR @ [n] = journal_path (pt_id pt)" by auto
      then show ?thesis by (rule recover_journal_succeeds [OF ready ids])
    next
      case False
      with d have "published d \<in> recovered e pt q f" by (auto simp: settled_calm_def stage_split)
      with that js no_journal_left [OF ready] show ?thesis by auto
    qed
    have "succeeds ?J (io_each (recover_journal e) ns) (\<lambda>u. ?J)" if "set ns \<subseteq> set ?js" for ns
      using that
    proof (induction ns)
      case (Cons n ns)
      then show ?case using triple_seq [OF each, of n] by simp
    qed (simp add: triple_ret)
    from this [of ?js] d show "succeeds (\<lambda>d'. d' = d) (recover_repair_transactions e) (\<lambda>u. ?J)"
      by (auto simp: triple_def recover_repair_transactions_def bind_def list settled_calm_def)
  qed
  have "succeeds (\<lambda>d. ?J d \<and> (\<forall>y \<in> {[]}. is_dir d y)) (io_each (create_dir_all e) STORE_DIRS) (\<lambda>u d. ?J d \<and> is_dir d TRANSACTIONS_DIR)"
    by (rule triple_conseq [OF dirs]) (auto simp: STORE_DIRS_def TRANSACTIONS_DIR_def)
  from triple_seq [OF dir [of "[]" "{}"] triple_seq [OF this recover]]
  show ?thesis by (simp add: open_storage_def)
qed

section \<open>The outcome of an interrupted commit\<close>

lemma reopen_succeeds:
  assumes "commit_ready env pt p q (published d)" and "links_supported env"
    and "\<forall>e \<in> set es. crash_only e \<and> same_format env e" and "same_format env e"
    and "valid_id (pt_id pt)" and "valid_id (m_id (p_metadata p))"
    and "calm e q (reopened es (fst (commit_repair env (pt_id pt) q d)))"
  shows "snd (open_storage e (reopened es (fst (commit_repair env (pt_id pt) q d)))) = Done ()"
proof -
  let ?d = "reopened es (fst (commit_repair env (pt_id pt) q d))"
  have "published (fst (commit_repair env (pt_id pt) q d)) \<in> commit_stages env pt q (published d)"
    by (rule triple_left [OF commit_triple [OF assms(1,2)]]) (auto simp: commit_stages_def unfinished_def)
  then have "published ?d \<in> recovered env pt q (published d) \<union> unfinished env pt q (published d)"
    by (intro reopened_stays [OF assms(1) _ assms(3)]) (auto simp: stage_split recovered_def)
  then have "settled_calm e pt q (published d) ?d"
    using assms(7) by (simp add: settled_calm_def same_format_stages [OF assms(4)] stage_split)
  moreover have "commit_ready e pt p q (published d)"
    using assms(1) by (simp add: same_format_stages [OF assms(4)])
  ultimately show ?thesis
    using open_succeeds [OF _ assms(5,6)] unfolding succeeds_iff by fastforce
qed


text \<open>
  C11: Recovery terminates successfully: whatever a commit left behind when a system call of it failed or
  the process died, and however many reopenings died after it, the next opening of the store whose
  system calls work and whose fresh names are free does not fail.
\<close>

theorem recovery_succeeds:
  assumes "commit_ready env pt p q (published d)" and "links_supported env"
    and "\<forall>e \<in> set es. crash_only e \<and> same_format env e" and "same_format env e"
    and "valid_id (pt_id pt)" and "valid_id (m_id (p_metadata p))"
    and "calm e q (reopened es (fst (commit_repair env (pt_id pt) q d)))"
  shows "snd (open_storage e (reopened es (fst (commit_repair env (pt_id pt) q d)))) = Done ()"
  using assms by (rule reopen_succeeds)

text \<open>Witnesses: a commit that dies in a write, and a reopening that dies once more.\<close>

abbreviation "demo_left \<equiv> reopened [dying 50] (fst (commit_repair (dying 28) ''patch'' demo_next demo_disk))"

lemma demo_fresh: "list_all (\<lambda>p. CHR ''Z'' \<notin> set (last p)) (map fst (dk_files demo_left) @ dk_dirs demo_left)"
  by code_simp

lemma demo_calm: "calm working_store demo_next demo_left"
  using demo_faults(4) demo_fresh by (simp add: calm_def fresh_char)


lemma recovery_succeeds_witness: "snd (open_storage working_store demo_left) = Done ()"
  using recovery_succeeds [where es = "[dying 50]", OF demo_ready demo_faults(1) _ demo_faults(6) demo_ids(2,3)] demo_calm demo_faults
  by (simp add: demo_ids(1))

end
