(* ===== verification/FailurePacket.thy ===== *)
theory FailurePacket
  imports Runs
begin

text \<open>
  What a repair is told about a failure: the classification of \<^verbatim>\<open>repair/classifier.rs\<close>,
  which looks for fixed patterns in a fixed priority, and the packet of
  \<^verbatim>\<open>repair/failure_packet.rs\<close>, whose error message carries explicit guidance for the kinds
  a backend is known to misread.

  Unicode lower-casing and the regular-expression engine come from outside the repository:
  \<open>text_host\<close>.
\<close>

section \<open>Classification\<close>

datatype error_kind =
    EK_ToolNotFound
  | EK_ToolExecutionFailed
  | EK_CodeExecutionFailed
  | EK_MissingInterpreter
  | EK_TimeoutExceeded
  | EK_NetworkError
  | EK_ExternalEndpointDown
  | EK_PermissionDenied
  | EK_OutputSchemaViolation
  | EK_PromptCallFailed
  | EK_Unknown

record text_host =
  th_lowercase :: "string \<Rightarrow> string"
  th_http_error_status :: "string \<Rightarrow> bool"

definition HTTP_MARKER_PATTERNS :: "string list" where
  "HTTP_MARKER_PATTERNS = [''http'', ''reqwest'']"

definition TRANSPORT_FAILURE_PATTERNS :: "string list" where
  "TRANSPORT_FAILURE_PATTERNS = [''dns'', ''connection refused'', ''connection reset'', ''error trying to connect'',
     ''timed out'', ''timeout'', ''tls'', ''ssl'', ''certificate'']"

definition TIMEOUT_PATTERNS :: "string list" where
  "TIMEOUT_PATTERNS = [''timed out'', ''timeout'']"

definition PERMISSION_PATTERNS :: "string list" where
  "PERMISSION_PATTERNS = [''permission denied'', ''access denied'']"

definition NETWORK_PATTERNS :: "string list" where
  "NETWORK_PATTERNS = [''network'', ''connection'', ''dns'', ''socket'']"

definition PROMPT_CALL_PATTERNS :: "string list" where
  "PROMPT_CALL_PATTERNS = [''prompt_call'', ''api error'']"

definition TOOL_EXECUTION_PATTERNS :: "string list" where
  "TOOL_EXECUTION_PATTERNS = [''exit code'', ''exited with'']"

definition OUTPUT_MAPPING_PATTERNS :: "string list" where
  "OUTPUT_MAPPING_PATTERNS = [''cannot satisfy the declared outputs'']"

definition NOT_FOUND_PATTERNS :: "string list" where
  "NOT_FOUND_PATTERNS = [''not found'', ''no such file'']"

definition MISSING_INTERPRETER_PATTERNS :: "string list" where
  "MISSING_INTERPRETER_PATTERNS = [''failed to spawn interpreter'']"

definition CODE_EXECUTION_STDERR_PATTERNS :: "string list" where
  "CODE_EXECUTION_STDERR_PATTERNS = [''traceback'', ''syntaxerror'', ''nameerror'', ''typeerror'', ''exception'',
     ''error[e'', ''error: '']"

definition contains_any :: "string \<Rightarrow> string list \<Rightarrow> bool" where
  "contains_any haystack patterns \<longleftrightarrow> list_ex (str_contains haystack) patterns"

definition is_external_endpoint_down :: "string \<Rightarrow> bool" where
  "is_external_endpoint_down combined \<longleftrightarrow>
     contains_any combined HTTP_MARKER_PATTERNS \<and> contains_any combined TRANSPORT_FAILURE_PATTERNS"

definition classify_error :: "text_host \<Rightarrow> string \<Rightarrow> string option \<Rightarrow> error_kind" where
  "classify_error th error_message stderr =
     (let msg = th_lowercase th error_message;
          err = th_lowercase th (case stderr of None \<Rightarrow> [] | Some s \<Rightarrow> s);
          combined = fmt ''{} {}'' [msg, err]
      in if contains_any msg OUTPUT_MAPPING_PATTERNS then EK_OutputSchemaViolation
         else if contains_any combined PROMPT_CALL_PATTERNS then EK_PromptCallFailed
         else if th_http_error_status th combined then EK_ToolExecutionFailed
         else if is_external_endpoint_down combined then EK_ExternalEndpointDown
         else if contains_any combined TIMEOUT_PATTERNS then EK_TimeoutExceeded
         else if contains_any combined PERMISSION_PATTERNS then EK_PermissionDenied
         else if contains_any combined NETWORK_PATTERNS then EK_NetworkError
         else if contains_any combined TOOL_EXECUTION_PATTERNS then EK_ToolExecutionFailed
         else if contains_any msg MISSING_INTERPRETER_PATTERNS \<and> contains_any combined NOT_FOUND_PATTERNS then
           EK_MissingInterpreter
         else if contains_any combined NOT_FOUND_PATTERNS then EK_ToolNotFound
         else if contains_any err CODE_EXECUTION_STDERR_PATTERNS then EK_CodeExecutionFailed
         else EK_Unknown)"

section \<open>Guidance\<close>

definition REPAIR_GUIDANCE_MARKER :: string where
  "REPAIR_GUIDANCE_MARKER = ''[repair-guidance]''"

definition EXTERNAL_ENDPOINT_DOWN_GUIDANCE :: string where
  "EXTERNAL_ENDPOINT_DOWN_GUIDANCE =
     [CHR 0x0A] @
     [CHR 0x0A] @
     ''[repair-guidance] This is an EXTERNAL ENDPOINT DOWN failure: the remote host is unreachable at '' @
     ''the transport level (DNS failure, connection refused/reset, timeout, or TLS error) '' @
     em_dash @
     '' it is not an executor or code bug. Resuming the step against the same URL will fail again '' @
     ''identically. Propose substituting the endpoint with a reliable alternative, or adding a '' @
     ''fallback step (e.g. an offline/local computation, or a different provider), instead of retrying '' @
     ''the same call.''"

definition OUTPUT_MAPPING_GUIDANCE :: string where
  "OUTPUT_MAPPING_GUIDANCE =
     [CHR 0x0A] @
     [CHR 0x0A] @
     ''[repair-guidance] This is an OUTPUT MAPPING failure: the script itself ran successfully, but '' @
     ''its stdout could not be parsed as a single RFC 8259 JSON object, so the declared outputs stayed '' @
     ''empty. Do NOT rewrite the script's input-parsing logic '' @
     em_dash @
     '' it is not the problem. Fix how the output is emitted: the script must print exactly one JSON '' @
     ''object whose keys are the declared output names, with no invalid escape sequences. A frequent '' @
     ''cause on Windows is Python decoding stdin with the ANSI code page and json.dumps then emitting '' @
     ''lone UTF-16 surrogate escapes; ensure the step reads and writes UTF-8 (for Python, set the '' @
     ''step's env to PYTHONUTF8=1 / PYTHONIOENCODING=utf-8, or decode input bytes explicitly with '' @
     ''errors='replace').''"

definition MISSING_INTERPRETER_GUIDANCE :: string where
  "MISSING_INTERPRETER_GUIDANCE =
     [CHR 0x0A] @
     [CHR 0x0A] @
     ''[repair-guidance] This is a MISSING INTERPRETER failure: the code interpreter was found on PATH '' @
     ''but the OS could not execute it (e.g. broken shebang, macOS CLT stub, or a wrapper pointing to '' @
     ''an absent runtime). The spawn itself fails with ENOENT '' @
     em_dash @
     '' retrying the same interpreter will fail identically. Do NOT propose another CODE_CALL step '' @
     ''with the same interpreter. Consult the '## Execution environment' section to see which '' @
     ''interpreters are confirmed available on this machine. If none are suitable, use a TOOL_CALL '' @
     ''step instead.''"

definition repeated_failure_guidance :: "nat \<Rightarrow> string" where
  "repeated_failure_guidance prior_repair_count =
     [CHR 0x0A] @
     [CHR 0x0A] @
     ''[repair-guidance] REPEATED FAILURE AFTER REPAIR: '' @
     nat_str prior_repair_count @
     '' earlier patch(es) for this plan were already applied for this exact failing step and error '' @
     ''message, and the failure recurred unchanged. Whatever those patches edited is NOT the root '' @
     ''cause '' @
     em_dash @
     '' do not propose another variation of the same edit. Re-diagnose from first principles: inspect '' @
     ''the upstream steps' actual outputs, the execution environment (interpreter, encoding, working '' @
     ''directory, external state), and consider whether the fix belongs in a different step, in a '' @
     ''step's env, or in the world rather than in the previously edited field.''"

section \<open>The packet\<close>

record failure_packet =
  fp_id :: string
  fp_run_id :: string
  fp_plan_id :: string
  fp_plan_version :: "32 word"
  fp_failing_step :: plan_step
  fp_runtime_inputs :: json
  fp_dependency_outputs :: "json imap"
  fp_stdout :: "string option"
  fp_stderr :: "string option"
  fp_error_message :: string
  fp_error_kind :: error_kind
  fp_created_at :: instant

definition dependency_outputs :: "run \<Rightarrow> plan_step \<Rightarrow> json imap" where
  "dependency_outputs r s = im_extend [] (List.map_filter (\<lambda>dep_id.
     map_option (\<lambda>dep_run. (dep_id, JObject (obj_of (sr_outputs dep_run)))) (im_get (r_step_runs r) dep_id)) (s_depends_on s))"

definition enriched_message :: "error_kind \<Rightarrow> string \<Rightarrow> string" where
  "enriched_message kind raw = (case kind of
     EK_ExternalEndpointDown \<Rightarrow> raw @ EXTERNAL_ENDPOINT_DOWN_GUIDANCE
   | EK_MissingInterpreter \<Rightarrow> raw @ MISSING_INTERPRETER_GUIDANCE
   | EK_OutputSchemaViolation \<Rightarrow> raw @ OUTPUT_MAPPING_GUIDANCE
   | _ \<Rightarrow> raw)"

definition build_packet :: "text_host \<Rightarrow> string \<Rightarrow> instant \<Rightarrow> run \<Rightarrow> plan_step \<Rightarrow> step_run \<Rightarrow> failure_packet" where
  "build_packet th uuid now r s sr =
     (let raw = (case sr_error sr of Some e \<Rightarrow> e | None \<Rightarrow> ''unknown error'');
          kind = classify_error th raw (sr_stderr sr)
      in \<lparr>fp_id = uuid, fp_run_id = r_id r, fp_plan_id = r_plan_id r, fp_plan_version = r_plan_version r,
          fp_failing_step = s, fp_runtime_inputs = JObject (obj_of (r_inputs r)),
          fp_dependency_outputs = dependency_outputs r s, fp_stdout = sr_stdout sr, fp_stderr = sr_stderr sr,
          fp_error_message = enriched_message kind raw, fp_error_kind = kind, fp_created_at = now\<rparr>)"

end
