(* ===== verification/Normalization.thy ===== *)
theory Normalization
  imports Schedule
begin

text \<open>
  \<^verbatim>\<open>plan/normalization.rs\<close>: sorting dependency lists, the layered topological order of
  the steps, and sorting the configuration.  \<open>None\<close> is the panic of
  \<^verbatim>\<open>expect("step index is emitted once")\<close>.
\<close>

definition sort_step_indices :: "plan_step list \<Rightarrow> nat list \<Rightarrow> nat list" where
  "sort_step_indices ss indices = sort_key (\<lambda>i. s_id (ss ! i)) (sort indices)"

text \<open>The positions whose step has a given ID (\<^verbatim>\<open>indices_by_id\<close>).\<close>

definition indices_by_id :: "plan_step list \<Rightarrow> string \<Rightarrow> nat list" where
  "indices_by_id ss i = filter (\<lambda>k. s_id (ss ! k) = i) [0..<length ss]"

definition pending_deps :: "plan_step list \<Rightarrow> nat set option list" where
  "pending_deps ss = map (\<lambda>s. Some (set (concat (map (indices_by_id ss) (s_depends_on s))))) ss"

function order_loop :: "plan_step list \<Rightarrow> nat set option list \<Rightarrow> nat list \<Rightarrow> nat list" where
  "order_loop ss pending ordered =
     (if length ordered < length ss then
        (let ready = filter (\<lambda>i. pending ! i = Some {}) [0..<length pending] in
         if ready = [] then
           ordered @ sort_step_indices ss (filter (\<lambda>i. pending ! i \<noteq> None) [0..<length pending])
         else
           order_loop ss
             (map (\<lambda>i. if i \<in> set ready then None else map_option (\<lambda>d. d - set ready) (pending ! i))
               [0..<length pending])
             (ordered @ sort_step_indices ss ready))
      else ordered)"
  by pat_completeness auto
termination
proof (relation "measure (\<lambda>(ss, pending, ordered). length ss - length ordered)", goal_cases)
  case 1
  show ?case by simp
next
  case (2 ss pending ordered ready)
  then have "0 < length ready" by simp
  with 2(1) show ?case by (simp add: sort_step_indices_def del: length_greater_0_conv)
qed

declare order_loop.simps [simp del]

definition ordered_indices :: "plan_step list \<Rightarrow> nat list" where
  "ordered_indices ss = order_loop ss (pending_deps ss) []"

text \<open>The last loop takes each step out of its slot.\<close>

fun emit_steps :: "plan_step option list \<Rightarrow> nat list \<Rightarrow> plan_step list option" where
  "emit_steps slots [] = Some []"
| "emit_steps slots (i # is) =
     (case slots ! i of None \<Rightarrow> None
      | Some s \<Rightarrow> map_option (Cons s) (emit_steps (slots[i := None]) is))"

definition normalize_step_order :: "plan_step list \<Rightarrow> plan_step list option" where
  "normalize_step_order ss = emit_steps (map Some ss) (ordered_indices ss)"

definition sorted_by_key :: "json imap \<Rightarrow> json imap" where
  "sorted_by_key m = im_extend [] (sort_key fst m)"

definition sort_depends_on :: "plan_step \<Rightarrow> plan_step" where
  "sort_depends_on s = s\<lparr>s_depends_on := sort (s_depends_on s)\<rparr>"

definition normalize :: "plan \<Rightarrow> plan option" where
  "normalize p =
     (case normalize_step_order (map sort_depends_on (p_steps p)) of
        None \<Rightarrow> None
      | Some ss \<Rightarrow> Some (p\<lparr>p_steps := ss, p_config := sorted_by_key (p_config p)\<rparr>))"

section \<open>Emitting an order\<close>

lemma emit_steps_Some: "distinct is \<Longrightarrow> \<forall>i \<in> set is. i < length slots \<and> slots ! i = Some (f i) \<Longrightarrow>
    emit_steps slots is = Some (map f is)"
proof (induction "is" arbitrary: slots)
  case Nil
  then show ?case by simp
next
  case (Cons i js)
  have "\<forall>j \<in> set js. j < length (slots[i := None]) \<and> slots[i := None] ! j = Some (f j)"
    using Cons.prems by (auto simp: nth_list_update)
  with Cons show ?case by simp
qed

section \<open>The loop's invariant\<close>

definition order_inv :: "plan_step list \<Rightarrow> nat set option list \<Rightarrow> nat list \<Rightarrow> bool" where
  "order_inv ss pending ordered \<longleftrightarrow> length pending = length ss \<and> distinct ordered \<and>
     set ordered = {i. i < length ss \<and> pending ! i = None}"

definition ready_of :: "nat set option list \<Rightarrow> nat list" where
  "ready_of pending = filter (\<lambda>i. pending ! i = Some {}) [0..<length pending]"

definition settle :: "nat set option list \<Rightarrow> nat list \<Rightarrow> nat set option list" where
  "settle pending ready =
     map (\<lambda>i. if i \<in> set ready then None else map_option (\<lambda>d. d - set ready) (pending ! i))
       [0..<length pending]"

lemma order_loop_rec: "order_loop ss pending ordered =
    (if length ordered < length ss then
       if ready_of pending = [] then
         ordered @ sort_step_indices ss (filter (\<lambda>i. pending ! i \<noteq> None) [0..<length pending])
       else order_loop ss (settle pending (ready_of pending))
         (ordered @ sort_step_indices ss (ready_of pending))
     else ordered)"
  by (subst order_loop.simps) (simp add: ready_of_def settle_def Let_def)

lemma set_sort_step_indices [simp]: "set (sort_step_indices ss is) = set is"
  by (simp add: sort_step_indices_def)

lemma distinct_sort_step_indices [simp]: "distinct (sort_step_indices ss is) = distinct is"
  by (simp add: sort_step_indices_def)

lemma length_sort_step_indices [simp]: "length (sort_step_indices ss is) = length is"
  by (simp add: sort_step_indices_def)

lemma length_settle [simp]: "length (settle pending ready) = length pending"
  by (simp add: settle_def)

lemma nth_settle: "i < length pending \<Longrightarrow> settle pending ready ! i =
    (if i \<in> set ready then None else map_option (\<lambda>d. d - set ready) (pending ! i))"
  by (simp add: settle_def)

lemma set_ready_of: "set (ready_of pending) = {i. i < length pending \<and> pending ! i = Some {}}"
  by (auto simp: ready_of_def)

lemma order_inv_start: "order_inv ss (pending_deps ss) []"
  by (simp add: order_inv_def pending_deps_def)

lemma order_inv_step: "order_inv ss pending ordered \<Longrightarrow>
    order_inv ss (settle pending (ready_of pending)) (ordered @ sort_step_indices ss (ready_of pending))"
proof -
  assume "order_inv ss pending ordered"
  then have len: "length pending = length ss" and dist: "distinct ordered"
    and mem: "\<And>i. i \<in> set ordered \<longleftrightarrow> i < length ss \<and> pending ! i = None"
    by (simp_all add: order_inv_def)
  have rdy: "i \<in> set (ready_of pending) \<longleftrightarrow> i < length ss \<and> pending ! i = Some {}" for i
    by (simp add: set_ready_of len)
  have "i \<in> set (ordered @ sort_step_indices ss (ready_of pending)) \<longleftrightarrow>
      i \<in> {i. i < length ss \<and> settle pending (ready_of pending) ! i = None}" for i
    using mem [of i] rdy [of i] nth_settle [of i pending "ready_of pending"] len
    by (cases "i < length ss") auto
  moreover have "set ordered \<inter> set (ready_of pending) = {}"
    using mem rdy by fastforce
  moreover have "distinct (ready_of pending)" by (simp add: ready_of_def)
  ultimately show ?thesis
    unfolding order_inv_def using len dist by (intro conjI set_eqI) simp_all
qed

lemma order_loop_complete:
  "order_inv ss pending ordered \<Longrightarrow>
   distinct (order_loop ss pending ordered) \<and> set (order_loop ss pending ordered) = {..<length ss}"
proof (induction ss pending ordered rule: order_loop.induct)
  case (1 ss pending ordered)
  consider (full) "\<not> length ordered < length ss"
    | (stuck) "length ordered < length ss" "ready_of pending = []"
    | (round) "length ordered < length ss" "ready_of pending \<noteq> []" by blast
  note c = this
  from "1.prems" have len: "length pending = length ss" and dist: "distinct ordered"
    and mem: "\<And>i. i \<in> set ordered \<longleftrightarrow> i < length ss \<and> pending ! i = None"
    by (simp_all add: order_inv_def)
  from c show ?case
  proof cases
    case full
    then have l: "order_loop ss pending ordered = ordered" by (simp add: order_loop_rec)
    have sub: "set ordered \<subseteq> {..<length ss}" and "card (set ordered) = length ordered"
      using mem dist by (auto simp: distinct_card)
    then have "set ordered = {..<length ss}"
      using full card_seteq [OF _ sub] by simp
    with l dist show ?thesis by simp
  next
    case stuck
    let ?left = "filter (\<lambda>i. pending ! i \<noteq> None) [0..<length pending]"
    have l: "order_loop ss pending ordered = ordered @ sort_step_indices ss ?left"
      using stuck by (simp add: order_loop_rec)
    have "set ordered \<union> set ?left = {..<length ss}"
    proof (rule set_eqI)
      show "i \<in> set ordered \<union> set ?left \<longleftrightarrow> i \<in> {..<length ss}" for i
        using mem [of i] len by auto
    qed
    moreover have "set ordered \<inter> set ?left = {}" by (auto simp: mem)
    moreover have "distinct ?left" by simp
    ultimately show ?thesis
      unfolding l distinct_append set_append set_sort_step_indices distinct_sort_step_indices
      using dist by (intro conjI)
  next
    case round
    then have l: "order_loop ss pending ordered = order_loop ss (settle pending (ready_of pending))
        (ordered @ sort_step_indices ss (ready_of pending))"
      by (subst order_loop_rec) simp
    show ?thesis
      unfolding l using "1.IH" [OF round(1) refl] round(2) order_inv_step [OF "1.prems"]
      by (simp add: ready_of_def settle_def)
  qed
qed

lemma ordered_indices_complete:
  "distinct (ordered_indices ss)" "set (ordered_indices ss) = {..<length ss}"
  using order_loop_complete [OF order_inv_start] by (simp_all add: ordered_indices_def)

lemma normalize_step_order_eq: "normalize_step_order ss = Some (map ((!) ss) (ordered_indices ss))"
  unfolding normalize_step_order_def
  by (rule emit_steps_Some) (simp_all add: ordered_indices_complete)

section \<open>Dependencies first\<close>

definition layer_inv :: "plan_step list \<Rightarrow> nat set option list \<Rightarrow> nat list \<Rightarrow> bool" where
  "layer_inv ss pending ordered \<longleftrightarrow> order_inv ss pending ordered \<and>
     (\<forall>i < length ss. \<forall>d. pending ! i = Some d \<longrightarrow>
        d = {k. k < length ss \<and> pending ! k \<noteq> None \<and> dep_at ss i k}) \<and>
     (\<forall>a < length ordered. \<forall>k < length ss. dep_at ss (ordered ! a) k \<longrightarrow> (\<exists>b < a. ordered ! b = k))"

lemma layer_inv_start: "layer_inv ss (pending_deps ss) []"
  by (auto simp: layer_inv_def order_inv_start) (auto simp: pending_deps_def indices_by_id_def dep_at_def)

lemma layer_inv_step:
  assumes "layer_inv ss pending ordered"
  shows "layer_inv ss (settle pending (ready_of pending))
    (ordered @ sort_step_indices ss (ready_of pending))"
proof -
  let ?ready = "sort_step_indices ss (ready_of pending)"
  have inv: "order_inv ss pending ordered" and len: "length pending = length ss"
    and mem: "\<And>i. i \<in> set ordered \<longleftrightarrow> i < length ss \<and> pending ! i = None"
    and deps: "\<And>i d. i < length ss \<Longrightarrow> pending ! i = Some d \<Longrightarrow>
      d = {k. k < length ss \<and> pending ! k \<noteq> None \<and> dep_at ss i k}"
    and before: "\<And>a k. a < length ordered \<Longrightarrow> k < length ss \<Longrightarrow> dep_at ss (ordered ! a) k \<Longrightarrow>
      \<exists>b < a. ordered ! b = k"
    using assms by (simp_all add: layer_inv_def order_inv_def)
  have deps': "d = {k. k < length ss \<and> settle pending (ready_of pending) ! k \<noteq> None \<and> dep_at ss i k}"
    if i: "i < length ss" "settle pending (ready_of pending) ! i = Some d" for i d
  proof -
    from i obtain e where e: "pending ! i = Some e" "d = e - set (ready_of pending)"
      by (auto simp: nth_settle len split: if_splits)
    have "settle pending (ready_of pending) ! k \<noteq> None \<longleftrightarrow>
        pending ! k \<noteq> None \<and> k \<notin> set (ready_of pending)" if "k < length ss" for k
      using that by (cases "pending ! k") (simp_all add: nth_settle len)
    with deps [OF i(1) e(1)] e(2) show ?thesis by blast
  qed
  have before': "\<exists>b < a. (ordered @ ?ready) ! b = k"
    if a: "a < length (ordered @ ?ready)" "k < length ss" "dep_at ss ((ordered @ ?ready) ! a) k" for a k
  proof (cases "a < length ordered")
    case True
    with a before [of a k] obtain b where "b < a" "ordered ! b = k" by (auto simp: nth_append)
    with True show ?thesis by (intro exI [of _ b]) (simp add: nth_append)
  next
    case False
    let ?x = "(ordered @ ?ready) ! a"
    from False a(1) have "?x = ?ready ! (a - length ordered)" "a - length ordered < length ?ready"
      by (auto simp: nth_append)
    then have "?x \<in> set ?ready" by (metis nth_mem)
    then have x: "?x < length ss" "pending ! ?x = Some {}"
      by (auto simp: set_ready_of len)
    from deps [OF x] a(2,3) have "k \<in> set ordered" by (auto simp: mem)
    then obtain b where "b < length ordered" "ordered ! b = k" by (auto simp: in_set_conv_nth)
    with False show ?thesis by (intro exI [of _ b]) (simp add: nth_append)
  qed
  show ?thesis
    unfolding layer_inv_def
    by (intro conjI allI impI order_inv_step [OF inv] deps') (assumption | rule before')+
qed

lemma order_loop_layers:
  assumes "acyclic (dep_edges ss)"
  shows "layer_inv ss pending ordered \<Longrightarrow>
    \<forall>a < length (order_loop ss pending ordered). \<forall>k < length ss.
      dep_at ss (order_loop ss pending ordered ! a) k \<longrightarrow>
      (\<exists>b < a. order_loop ss pending ordered ! b = k)"
  using assms
proof (induction ss pending ordered rule: order_loop.induct)
  case (1 ss pending ordered)
  consider (full) "\<not> length ordered < length ss"
    | (stuck) "length ordered < length ss" "ready_of pending = []"
    | (round) "length ordered < length ss" "ready_of pending \<noteq> []" by blast
  then show ?case
  proof cases
    case full
    then have l: "order_loop ss pending ordered = ordered" by (simp add: order_loop_rec)
    show ?thesis unfolding l using "1.prems"(1) by (simp add: layer_inv_def)
  next
    case stuck
    let ?X = "{ss ! i | i. i < length ss \<and> pending ! i \<noteq> None}"
    have "filter (\<lambda>i. pending ! i \<noteq> None) [0..<length pending] = []"
    proof (rule ccontr)
      assume "\<not> ?thesis"
      then have "?X \<noteq> {}"
        using "1.prems"(1) by (auto simp: filter_empty_conv layer_inv_def order_inv_def)
      moreover have "?X \<subseteq> set ss" by auto
      ultimately obtain s where "s \<in> ?X" and free: "\<forall>t \<in> ?X. s_id t \<notin> set (s_depends_on s)"
        using schedulable_minimal [OF "1.prems"(2)] by meson
      then obtain i d where i: "i < length ss" "pending ! i = Some d" "s = ss ! i" by auto
      with "1.prems"(1) have "d = {k. k < length ss \<and> pending ! k \<noteq> None \<and> dep_at ss i k}"
        by (simp add: layer_inv_def)
      with free i(3) have "d = {}" by (auto simp: dep_at_def)
      with i "1.prems"(1) have "i \<in> set (ready_of pending)"
        by (simp add: set_ready_of layer_inv_def order_inv_def)
      with stuck(2) show False by simp
    qed
    then have l: "order_loop ss pending ordered = ordered"
      using stuck by (simp add: order_loop_rec sort_step_indices_def)
    show ?thesis unfolding l using "1.prems"(1) by (simp add: layer_inv_def)
  next
    case round
    then have l: "order_loop ss pending ordered = order_loop ss (settle pending (ready_of pending))
        (ordered @ sort_step_indices ss (ready_of pending))"
      by (subst order_loop_rec) simp
    show ?thesis
      unfolding l using "1.IH" [OF round(1) refl] round(2) layer_inv_step [OF "1.prems"(1)] "1.prems"(2)
      by (simp add: ready_of_def settle_def)
  qed
qed

definition step_order :: "plan_step list \<Rightarrow> plan_step list" where
  "step_order ss = map ((!) ss) (ordered_indices ss)"

lemma step_order_mset: "mset (step_order ss) = mset ss"
proof -
  have "mset (ordered_indices ss) = mset [0..<length ss]"
    using ordered_indices_complete [of ss]
    by (metis atLeast_upt distinct_upt set_eq_iff_mset_eq_distinct)
  then have "mset (step_order ss) = image_mset ((!) ss) (mset [0..<length ss])"
    by (simp add: step_order_def)
  also have "\<dots> = mset ss" by (metis map_nth mset_map)
  finally show ?thesis .
qed

lemma step_order_deps_first:
  assumes "schedulable ss"
  shows "deps_first (step_order ss)"
proof -
  have ac: "acyclic (dep_edges ss)" using assms by (simp add: schedulable_def)
  have "j < i" if ij: "i < length (ordered_indices ss)" "j < length (ordered_indices ss)"
      "dep_at ss (ordered_indices ss ! i) (ordered_indices ss ! j)" for i j
  proof -
    have "ordered_indices ss ! j < length ss"
      using nth_mem [OF ij(2)] by (simp add: ordered_indices_complete)
    then obtain b where b: "b < i" "ordered_indices ss ! b = ordered_indices ss ! j"
      using order_loop_layers [OF ac layer_inv_start] ij(1,3) unfolding ordered_indices_def by meson
    then have "b = j"
      using ordered_indices_complete(1) [of ss] ij(1,2) by (simp add: nth_eq_iff_index_eq)
    with b show ?thesis by simp
  qed
  then show ?thesis by (simp add: deps_first_def step_order_def dep_at_def)
qed

interpretation norm: step_schedule step_order
  by unfold_locales (rule step_order_mset, rule step_order_deps_first)
section \<open>Ordering an ordered list changes nothing\<close>

lemma order_loop_prefix: "\<exists>r. order_loop ss pending ordered = ordered @ r"
proof (induction ss pending ordered rule: order_loop.induct)
  case (1 ss pending ordered)
  show ?case
  proof (cases "length ordered < length ss \<and> ready_of pending \<noteq> []")
    case True
    then obtain r where "order_loop ss (settle pending (ready_of pending))
        (ordered @ sort_step_indices ss (ready_of pending)) =
        (ordered @ sort_step_indices ss (ready_of pending)) @ r"
      using 1 unfolding ready_of_def settle_def by blast
    with True show ?thesis by (subst order_loop_rec) simp
  next
    case False
    then show ?thesis by (subst order_loop_rec) auto
  qed
qed

lemma filter_interval:
  assumes "\<And>j. j < n \<Longrightarrow> P j \<longleftrightarrow> lo \<le> j \<and> j < hi" and "hi \<le> (n :: nat)"
  shows "filter P [0..<n] = [lo..<hi]"
  by (rule sorted_distinct_set_unique) (use assms in \<open>auto intro: sorted_wrt_filter\<close>)

lemma sorted_block:
  assumes "sigma = xs @ sort_step_indices ss is @ ys" and "lo = length xs" and "hi = lo + length is"
  shows "sort_step_indices (map ((!) ss) sigma) [lo..<hi] = [lo..<hi]"
proof -
  have "map ((!) sigma) [lo..<hi] = sort_step_indices ss is"
    using assms by (intro nth_equalityI) (auto simp: nth_append)
  then have "map (\<lambda>i. s_id (ss ! i)) (map ((!) sigma) [lo..<hi]) =
      map (\<lambda>i. s_id (ss ! i)) (sort_step_indices ss is)" by simp
  moreover have "sorted (map (\<lambda>i. s_id (ss ! i)) (sort_step_indices ss is))"
    by (simp add: sort_step_indices_def)
  moreover have "map (\<lambda>j. s_id (map ((!) ss) sigma ! j)) [lo..<hi] =
      map (\<lambda>i. s_id (ss ! i)) (map ((!) sigma) [lo..<hi])"
  proof -
    have "j < length sigma" if "j \<in> set [lo..<hi]" for j
      using that unfolding assms by simp
    then show ?thesis by simp
  qed
  ultimately have "sorted (map (\<lambda>j. s_id (map ((!) ss) sigma ! j)) [lo..<hi])" by simp
  then show ?thesis
    by (simp add: sort_step_indices_def sorted_sort_id sort_key_id_if_sorted)
qed

lemma distinct_middle: "distinct (xs @ zs @ ys) \<Longrightarrow> j < length (xs @ zs @ ys) \<Longrightarrow>
    (xs @ zs @ ys) ! j \<in> set zs \<longleftrightarrow> length xs \<le> j \<and> j < length xs + length zs"
  by (auto simp: nth_append disjoint_iff split: if_splits)

text \<open>
  The simulation: the loop on the ordered list repeats the rounds of the loop on the original
  list, position \<open>j\<close> standing for the original position \<open>sigma ! j\<close>.
\<close>

definition mirrors :: "nat list \<Rightarrow> nat set option list \<Rightarrow> nat set option list \<Rightarrow> bool" where
  "mirrors sigma pending pending' \<longleftrightarrow> length pending' = length pending \<and>
     (\<forall>j < length pending. pending' ! j =
        map_option (\<lambda>d. {k. k < length pending \<and> sigma ! k \<in> d}) (pending ! (sigma ! j)))"

definition bounded_deps :: "nat set option list \<Rightarrow> bool" where
  "bounded_deps pending \<longleftrightarrow> (\<forall>i < length pending. \<forall>d. pending ! i = Some d \<longrightarrow> d \<subseteq> {..<length pending})"

lemma bounded_deps_settle: "bounded_deps pending \<Longrightarrow> bounded_deps (settle pending ready)"
  by (fastforce simp: bounded_deps_def nth_settle split: if_splits)

lemma mirrors_ready:
  assumes "mirrors sigma pending pending'" "bounded_deps pending" "set sigma = {..<length pending}"
    and "length sigma = length pending" "j < length pending"
  shows "pending' ! j = Some {} \<longleftrightarrow> sigma ! j \<in> set (ready_of pending)"
proof -
  have sj: "sigma ! j < length pending"
    using assms(3,4,5) nth_mem by fastforce
  have "{k. k < length pending \<and> sigma ! k \<in> d} = {} \<longleftrightarrow> d = {}" if "pending ! (sigma ! j) = Some d" for d
  proof -
    have "d \<subseteq> set sigma" using that sj assms(2,3) by (auto simp: bounded_deps_def)
    then show ?thesis using assms(4) by (auto simp: in_set_conv_nth subset_iff)
  qed
  with sj assms(1,5) show ?thesis
    by (auto simp: mirrors_def set_ready_of)
qed

lemma mirrors_settle:
  assumes m: "mirrors sigma pending pending'" and s: "set sigma = {..<length pending}"
    and l: "length sigma = length pending"
    and r: "\<And>j. j < length pending \<Longrightarrow> j \<in> set ready' \<longleftrightarrow> sigma ! j \<in> set ready"
  shows "mirrors sigma (settle pending ready) (settle pending' ready')"
proof -
  have "settle pending' ready' ! j =
      map_option (\<lambda>d. {k. k < length pending \<and> sigma ! k \<in> d}) (settle pending ready ! (sigma ! j))"
    if j: "j < length pending" for j
  proof -
    have sj: "sigma ! j < length pending" using s l j nth_mem by fastforce
    have "{k. k < length pending \<and> sigma ! k \<in> d} - set ready' =
        {k. k < length pending \<and> sigma ! k \<in> d - set ready}" for d
      using r by auto
    then show ?thesis
      using m j sj r [OF j] by (cases "pending ! (sigma ! j)") (auto simp: mirrors_def nth_settle)
  qed
  then show ?thesis using m by (simp add: mirrors_def)
qed

lemma order_loop_again:
  "order_inv ss pending ordered \<Longrightarrow> bounded_deps pending \<Longrightarrow>
   sigma = order_loop ss pending ordered \<Longrightarrow> mirrors sigma pending pending' \<Longrightarrow>
   order_loop (map ((!) ss) sigma) pending' [0..<length ordered] = [0..<length ss]"
proof (induction ss pending ordered arbitrary: pending' rule: order_loop.induct)
  case (1 ss pending ordered)
  let ?os = "map ((!) ss) sigma"
  have len: "length pending = length ss" using "1.prems"(1) by (simp add: order_inv_def)
  have sig: "distinct sigma" "set sigma = {..<length ss}"
    using order_loop_complete [OF "1.prems"(1)] "1.prems"(3) by simp_all
  then have slen: "length sigma = length ss" using distinct_card [OF sig(1)] by simp
  have len': "length pending' = length ss" using "1.prems"(4) len by (simp add: mirrors_def)
  have rdy: "pending' ! j = Some {} \<longleftrightarrow> sigma ! j \<in> set (ready_of pending)" if "j < length ss" for j
    using mirrors_ready [OF "1.prems"(4,2)] sig slen len that by simp
  consider (full) "\<not> length ordered < length ss"
    | (stuck) "length ordered < length ss" "ready_of pending = []"
    | (round) "length ordered < length ss" "ready_of pending \<noteq> []" by blast
  then show ?case
  proof cases
    case full
    obtain r where "sigma = ordered @ r" using order_loop_prefix "1.prems"(3) by metis
    with full slen have "length ordered = length ss" by auto
    then show ?thesis by (simp add: order_loop_rec slen)
  next
    case stuck
    let ?left = "filter (\<lambda>i. pending ! i \<noteq> None) [0..<length pending]"
    have s: "sigma = ordered @ sort_step_indices ss ?left @ []"
      using stuck "1.prems"(3) by (simp add: order_loop_rec)
    have n: "length ss = length ordered + length ?left" using s slen by (metis append_Nil2 length_append length_sort_step_indices)
    have none: "ready_of pending' = []"
      using rdy stuck(2) by (simp add: ready_of_def filter_empty_conv len')
    have "filter (\<lambda>j. pending' ! j \<noteq> None) [0..<length pending'] = [length ordered..<length ss]"
    proof (rule filter_interval)
      fix j assume j: "j < length pending'"
      then have "sigma ! j < length ss" using sig(2) slen len' nth_mem by fastforce
      then have "pending' ! j \<noteq> None \<longleftrightarrow> sigma ! j \<in> set ?left"
        using "1.prems"(4) j len len' by (auto simp: mirrors_def)
      also have "\<dots> \<longleftrightarrow> length ordered \<le> j \<and> j < length ordered + length (sort_step_indices ss ?left)"
        using distinct_middle [of ordered "sort_step_indices ss ?left" "[]" j] s sig(1) slen j len'
        by simp
      finally show "pending' ! j \<noteq> None \<longleftrightarrow> length ordered \<le> j \<and> j < length ss"
        by (simp only: n length_sort_step_indices)
    qed (simp add: len')
    moreover have "sort_step_indices ?os [length ordered..<length ss] = [length ordered..<length ss]"
      by (rule sorted_block [OF s refl n])
    moreover have "[0..<length ss] = [0..<length ordered] @ [length ordered..<length ss]"
      unfolding n by (rule upt_add_eq_append) simp
    ultimately show ?thesis
      using stuck(1) none slen by (subst order_loop_rec) simp
  next
    case round
    let ?ready = "sort_step_indices ss (ready_of pending)"
    let ?hi = "length ordered + length (ready_of pending)"
    have l: "sigma = order_loop ss (settle pending (ready_of pending)) (ordered @ ?ready)"
      using round "1.prems"(3) by (subst (asm) order_loop_rec) simp
    then obtain r where s: "sigma = ordered @ ?ready @ r"
      using order_loop_prefix by (metis append.assoc)
    then have hi: "?hi \<le> length ss" using slen by (metis length_append length_sort_step_indices
          add.assoc le_add1)
    have ready': "ready_of pending' = [length ordered..<?hi]"
      unfolding ready_of_def [of pending']
    proof (rule filter_interval)
      fix j assume j: "j < length pending'"
      then have "pending' ! j = Some {} \<longleftrightarrow> sigma ! j \<in> set ?ready" using rdy len' by simp
      also have "\<dots> \<longleftrightarrow> length ordered \<le> j \<and> j < length ordered + length ?ready"
        using distinct_middle [of ordered ?ready r j] s sig(1) slen j len' by simp
      finally show "pending' ! j = Some {} \<longleftrightarrow> length ordered \<le> j \<and> j < ?hi" by simp
    qed (simp add: len' hi)
    have block: "sort_step_indices ?os [length ordered..<?hi] = [length ordered..<?hi]"
      by (rule sorted_block [OF s refl refl])
    have "mirrors sigma (settle pending (ready_of pending)) (settle pending' (ready_of pending'))"
    proof (rule mirrors_settle [OF "1.prems"(4)])
      fix j assume "j < length pending"
      then show "j \<in> set (ready_of pending') \<longleftrightarrow> sigma ! j \<in> set (ready_of pending)"
        using rdy [of j] len len' by (simp add: set_ready_of)
    qed (use sig slen len in simp_all)
    note m = this
    have ne: "filter (\<lambda>i. pending ! i = Some {}) [0..<length pending] \<noteq> []"
      using round(2) by (simp add: ready_of_def)
    note ih = "1.IH" [OF round(1) refl ne, folded ready_of_def, folded settle_def]
    have "order_loop ?os (settle pending' (ready_of pending')) [0..<length (ordered @ ?ready)]
        = [0..<length ss]"
      using ih [OF order_inv_step [OF "1.prems"(1)] bounded_deps_settle [OF "1.prems"(2)] l m] .
    moreover have "[0..<length (ordered @ ?ready)] = [0..<length ordered] @ [length ordered..<?hi]"
      unfolding length_append length_sort_step_indices by (rule upt_add_eq_append) simp
    moreover have "ready_of pending' \<noteq> []" using round(2) ready' by simp
    ultimately show ?thesis
      using round(1) slen by (subst order_loop_rec) (simp add: ready' block)
  qed
qed

lemma ordered_indices_again:
  "ordered_indices (step_order ss) = [0..<length ss]"
proof -
  let ?s = "ordered_indices ss"
  have slen: "length ?s = length ss"
    using distinct_card [OF ordered_indices_complete(1)] by (simp add: ordered_indices_complete(2))
  have lt: "?s ! j < length ss" if "j < length ss" for j
    using ordered_indices_complete(2) [of ss] slen that nth_mem by fastforce
  have pd: "i < length xs \<Longrightarrow> pending_deps xs ! i = Some {k. k < length xs \<and> dep_at xs i k}" for xs i
    by (auto simp: pending_deps_def indices_by_id_def dep_at_def)
  have len: "length (pending_deps xs) = length xs" for xs by (simp add: pending_deps_def)
  have "mirrors ?s (pending_deps ss) (pending_deps (step_order ss))"
    unfolding mirrors_def len
  proof (intro conjI allI impI)
    show "length (step_order ss) = length ss" by (rule norm.length_order)
    fix j assume j: "j < length ss"
    have "dep_at (step_order ss) j k \<longleftrightarrow> dep_at ss (?s ! j) (?s ! k)" if "k < length ss" for k
      using that j slen by (simp add: step_order_def dep_at_def)
    then have "{k. k < length ss \<and> dep_at (step_order ss) j k} =
        {k. k < length ss \<and> ?s ! k \<in> {k. k < length ss \<and> dep_at ss (?s ! j) k}}"
      using lt by blast
    then show "pending_deps (step_order ss) ! j =
        map_option (\<lambda>d. {k. k < length ss \<and> ?s ! k \<in> d}) (pending_deps ss ! (?s ! j))"
      using pd [of j "step_order ss"] pd [OF lt [OF j]] j norm.length_order [of ss] by simp
  qed
  moreover have "bounded_deps (pending_deps ss)"
    by (auto simp: bounded_deps_def len pd)
  ultimately have "order_loop (map ((!) ss) ?s) (pending_deps (step_order ss)) [0..<length []]
      = [0..<length ss]"
    using order_loop_again [OF order_inv_start, of ss ?s] by (simp add: ordered_indices_def)
  then show ?thesis by (simp add: ordered_indices_def step_order_def)
qed

lemma step_order_idem: "step_order (step_order ss) = step_order ss"
proof -
  have "length (step_order ss) = length ss" by (rule norm.length_order)
  then show ?thesis
    by (simp add: step_order_def [of "step_order ss"] ordered_indices_again)
      (metis map_nth)
qed
section \<open>The other passes\<close>

lemma sort_depends_on_sel [simp]:
  "s_id (sort_depends_on s) = s_id s" "s_depends_on (sort_depends_on s) = sort (s_depends_on s)"
  by (simp_all add: sort_depends_on_def)

lemma sort_depends_on_idem [simp]: "sort_depends_on (sort_depends_on s) = sort_depends_on s"
  by (simp add: sort_depends_on_def sorted_sort_id)

lemma dep_edges_sorted: "dep_edges (map sort_depends_on ss) = dep_edges ss"
  by (simp add: dep_edges_Union)

lemma schedulable_sorted: "schedulable (map sort_depends_on ss) \<longleftrightarrow> schedulable ss"
  by (simp add: schedulable_def dep_edges_sorted comp_def)

lemma im_extend_sorted:
  "sorted (map fst kvs) \<Longrightarrow> sorted (im_keys m) \<Longrightarrow> \<forall>k \<in> set (im_keys m). \<forall>j \<in> fst ` set kvs. k \<le> j \<Longrightarrow>
   sorted (im_keys (im_extend m kvs))"
proof (induction kvs arbitrary: m)
  case Nil
  then show ?case by (simp add: im_extend_def)
next
  case (Cons kv kvs)
  obtain k v where kv: "kv = (k, v)" by (cases kv)
  have "sorted (im_keys (im_insert k v m))"
    using Cons.prems kv by (auto simp: im_keys_insert sorted_append)
  moreover have "\<forall>k' \<in> set (im_keys (im_insert k v m)). \<forall>j \<in> fst ` set kvs. k' \<le> j"
    using Cons.prems kv by (auto simp: im_keys_insert)
  ultimately show ?case
    using Cons.IH [of "im_insert k v m"] Cons.prems(1) kv by (simp add: im_extend_def)
qed

lemma sorted_by_key_idem [simp]: "sorted_by_key (sorted_by_key m) = sorted_by_key m"
proof -
  have d: "distinct (im_keys (sorted_by_key m))"
    by (simp add: sorted_by_key_def im_extend_distinct im_keys_def [of "[]"])
  have "sorted (map fst (sorted_by_key m))"
    using im_extend_sorted [of "sort_key fst m" "[]"] by (simp add: sorted_by_key_def im_keys_def)
  then have "sort_key fst (sorted_by_key m) = sorted_by_key m" by (rule sort_key_id_if_sorted)
  then show ?thesis
    using im_extend_new [of "[]" "sorted_by_key m"] d by (simp add: sorted_by_key_def [of "sorted_by_key m"])
qed

lemma normalize_eq: "normalize p = Some (p\<lparr>p_steps := step_order (map sort_depends_on (p_steps p)),
    p_config := sorted_by_key (p_config p)\<rparr>)"
  by (simp add: normalize_def normalize_step_order_eq step_order_def)

section \<open>Properties\<close>

text \<open>
  C31: normalization of any plan ends without the panic of its last loop, keeps every step with
  its dependency list sorted, and is idempotent: normalizing the result gives the result,
  also for plans with cycles or duplicate step IDs.
\<close>

theorem normalize_idempotent:
  "\<exists>q. normalize p = Some q \<and> normalize q = Some q \<and>
     mset (p_steps q) = mset (map sort_depends_on (p_steps p))"
proof -
  let ?ss = "step_order (map sort_depends_on (p_steps p))"
  have "map sort_depends_on ?ss = ?ss"
  proof (rule map_idI)
    fix s assume "s \<in> set ?ss"
    then show "sort_depends_on s = s" by (auto simp: norm.set_order)
  qed
  then show ?thesis
    by (simp add: normalize_eq step_order_idem norm.permutes)
qed

text \<open>
  The stored order is an execution order.  In a normalized plan whose step IDs are
  distinct, whose dependency lists have no repetition and whose dependencies have no cycle,
  every step stands after all steps of the plan it depends on.
\<close>

theorem normalize_dependencies_first:
  assumes "schedulable (p_steps p)" and "normalize p = Some q"
  shows "deps_first (p_steps q)"
  using assms norm.respects [of "map sort_depends_on (p_steps p)"]
  by (auto simp: normalize_eq schedulable_sorted)

definition chain_steps :: "plan_step list" where
  "chain_steps = map (\<lambda>(i, deps). \<lparr>s_id = i, s_name = i, s_description = None,
      s_config = FanIn \<lparr>fi_from_steps = deps, fi_collect_field = ''all''\<rparr>, s_depends_on = deps,
      s_outputs = [], s_timeout_secs = None, s_retry = None\<rparr>)
     [(''b'', [''a'']), (''c'', [''b'', ''a'']), (''a'', [])]"

lemma chain_schedulable: "schedulable chain_steps"
proof -
  have "acyclic (dep_edges chain_steps)"
    by (rule acyclic_rank [of _ "\<lambda>i. if i = ''a'' then 0 else if i = ''b'' then 1 else 2"])
      (auto simp: dep_edges_def chain_steps_def)
  then show ?thesis by (simp add: schedulable_def) (simp add: chain_steps_def)
qed

lemma normalize_dependencies_first_witness:
  "\<exists>q. normalize (demo_plan\<lparr>p_steps := chain_steps\<rparr>) = Some q \<and>
     map s_id (p_steps q) = [''a'', ''b'', ''c''] \<and> deps_first (p_steps q)"
proof -
  have s: "schedulable (p_steps (demo_plan\<lparr>p_steps := chain_steps\<rparr>))"
    by (simp add: chain_schedulable)
  have "map s_id (step_order (map sort_depends_on chain_steps)) = [''a'', ''b'', ''c'']"
    by code_simp
  then show ?thesis
    using normalize_dependencies_first [OF s normalize_eq] by (simp add: normalize_eq)
qed

end
