(* ===== verification/Repair.thy ===== *)
theory Repair
  imports Recovery FailurePacket Validator Normalization
begin

text \<open>
  The repair loop: proposing and applying patches (\<^verbatim>\<open>repair/mod.rs\<close>) and the two
  stored operations of \<^verbatim>\<open>app/engine.rs\<close> that approve or reject a patch.

  The compiler backend and the JSON form of run and world-fix records are parameters; spans and
  telemetry are left out.  A \<^verbatim>\<open>Result\<close> is the value of a computation, so that a
  caller can look at an error and go on; only a crash ends everything.
\<close>

section \<open>Results over the disk\<close>

type_synonym ('e, 'a) rio = "('e + 'a) io"

definition rok :: "'a \<Rightarrow> ('e, 'a) rio" where
  "rok v = ret (Inr v)"

definition rfail :: "'e \<Rightarrow> ('e, 'a) rio" where
  "rfail e = ret (Inl e)"

definition rbind :: "('e, 'a) rio \<Rightarrow> ('a \<Rightarrow> ('e, 'b) rio) \<Rightarrow> ('e, 'b) rio" where
  "rbind m k = bind m (\<lambda>r. case r of Inl e \<Rightarrow> rfail e | Inr v \<Rightarrow> k v)"

definition lift_io :: "(storage_error \<Rightarrow> 'e) \<Rightarrow> 'a io \<Rightarrow> ('e, 'a) rio" where
  "lift_io h m = bind (attempt m) (\<lambda>r. ret (map_sum h id r))"

definition lift_sum :: "'e + 'a \<Rightarrow> ('e, 'a) rio" where
  "lift_sum r = ret r"

definition fresh_uuid :: "store_env \<Rightarrow> string io" where
  "fresh_uuid env d = (d, Done (se_uuid env (dk_calls d)))"

definition utc_now :: "store_env \<Rightarrow> instant io" where
  "utc_now env d = (d, Done (se_clock env (dk_calls d)))"

section \<open>Errors and records\<close>

datatype repair_error =
    RE_RunNotFound string
  | RE_RunNotFailed
  | RE_PatchNotApproved string string
  | RE_Compiler string
  | RE_PatchInvalid string
  | RE_Io string
  | RE_Storage string

fun show_repair_error :: "repair_error \<Rightarrow> string" where
  "show_repair_error (RE_RunNotFound run_id) = fmt ''no run found to repair: {}'' [run_id]"
| "show_repair_error RE_RunNotFailed = fmt ''run did not fail {} nothing to repair'' [em_dash]"
| "show_repair_error (RE_PatchNotApproved patch_id status) =
     fmt ''patch '{}' cannot be applied: expected status Approved, got {}'' [patch_id, status]"
| "show_repair_error (RE_Compiler e) = fmt ''compiler error: {}'' [e]"
| "show_repair_error (RE_PatchInvalid e) = fmt ''validation failed after proposed patch: {}'' [e]"
| "show_repair_error (RE_Io e) = fmt ''I/O error: {}'' [e]"
| "show_repair_error (RE_Storage e) = fmt ''storage error: {}'' [e]"

definition storage_failure :: "storage_error \<Rightarrow> repair_error" where
  "storage_failure e = RE_Storage (show_storage_error e)"

record remediation_action =
  ra_description :: string
  ra_command :: "string option"

record world_fix =
  wx_id :: string
  wx_plan_id :: string
  wx_plan_version :: "32 word"
  wx_run_id :: string
  wx_failing_step_id :: string
  wx_diagnosis :: string
  wx_remediation :: "remediation_action list"
  wx_proposed_at :: instant

definition world_fix_new :: "string \<Rightarrow> instant \<Rightarrow> string \<Rightarrow> 32 word \<Rightarrow> string \<Rightarrow> string \<Rightarrow> string \<Rightarrow>
    remediation_action list \<Rightarrow> world_fix" where
  "world_fix_new uuid now plan_id plan_version run_id failing_step_id diagnosis remediation =
     \<lparr>wx_id = uuid, wx_plan_id = plan_id, wx_plan_version = plan_version, wx_run_id = run_id,
      wx_failing_step_id = failing_step_id, wx_diagnosis = diagnosis, wx_remediation = remediation, wx_proposed_at = now\<rparr>"

datatype repair_proposal = PatchProposal patch | WorldFixProposal world_fix

record repair_request =
  rq_plan :: plan
  rq_run_id :: string
  rq_failing_step_id :: string
  rq_error_message :: string
  rq_stdout :: "string option"
  rq_stderr :: "string option"
  rq_runtime_inputs :: json
  rq_dependency_outputs :: "json imap"
  rq_tool_catalog :: "tool_entry list"
  rq_extra_context :: "string option"

record repair_env =
  re_store :: store_env
  re_text :: text_host
  re_runs :: "run codec"
  re_world_fixes :: "world_fix codec"
  re_propose :: "repair_request \<Rightarrow> string + repair_proposal"
  re_correct :: "repair_request \<Rightarrow> patch \<Rightarrow> string \<Rightarrow> string + patch"

section \<open>Proposing\<close>

definition failed_step_for_repair :: "run \<Rightarrow> repair_error + step_run" where
  "failed_step_for_repair r = (case r_status r of
     RunFailed i message \<Rightarrow>
       (case im_get (r_step_runs r) i of
          None \<Rightarrow> Inl (RE_Storage (fmt ''run status names failed step '{}', but no matching step run exists'' [i]))
        | Some sr \<Rightarrow>
            if sr_status sr \<noteq> SFailed then
              Inl (RE_Storage (fmt ''run status names failed step '{}', but its step run status is {}''
                [i, show_step_run_status (sr_status sr)]))
            else Inr sr)
   | _ \<Rightarrow> Inl RE_RunNotFailed)"

text \<open>Does the record of an earlier run show the very same failure?\<close>

definition same_failure :: "string \<Rightarrow> string \<Rightarrow> run \<Rightarrow> bool" where
  "same_failure step_id message prior = (r_status prior = RunFailed step_id message)"

fun count_recurrences :: "repair_env \<Rightarrow> run \<Rightarrow> string \<Rightarrow> string \<Rightarrow> patch list \<Rightarrow> nat io" where
  "count_recurrences renv r i message [] = ret 0"
| "count_recurrences renv r i message (p # ps) =
     (if pt_plan_id p = r_plan_id r \<and> pt_status p = Applied \<and> pt_failing_step_id p = i \<and> pt_run_id p \<noteq> r_id r
      then bind (attempt (load_record (re_store renv) (re_runs renv) (pt_run_id p))) (\<lambda>prior.
        bind (count_recurrences renv r i message ps) (\<lambda>n.
          ret (case prior of Inr q \<Rightarrow> if same_failure i message q then n + 1 else n | Inl e \<Rightarrow> n)))
      else count_recurrences renv r i message ps)"

definition applied_repairs_for_recurring_failure :: "repair_env \<Rightarrow> run \<Rightarrow> nat io" where
  "applied_repairs_for_recurring_failure renv r = (case r_status r of
     RunFailed i message \<Rightarrow> bind (attempt (list_patches (re_store renv))) (\<lambda>listed. case listed of
       Inl e \<Rightarrow> ret 0
     | Inr ps \<Rightarrow> count_recurrences renv r i message ps)
   | _ \<Rightarrow> ret 0)"

definition format_validation_errors :: "validation_error list \<Rightarrow> string" where
  "format_validation_errors errors = join ''; '' (map show_validation_error errors)"

text \<open>Normalization always returns; its \<open>None\<close> would be a panic.\<close>

definition normalized :: "plan \<Rightarrow> plan" where
  "normalized p = (case normalize p of Some q \<Rightarrow> q | None \<Rightarrow> p)"

definition validate_patch_candidate :: "wire \<Rightarrow> patch \<Rightarrow> plan \<Rightarrow> tool_catalog \<Rightarrow> repair_error + unit" where
  "validate_patch_candidate w candidate p catalog =
     (case apply_operation w p candidate of
        Inl e \<Rightarrow> Inl (RE_PatchInvalid (show_patch_error e))
      | Inr q \<Rightarrow> (let errors = validate (normalized q) catalog
          in if errors = [] then Inr () else Inl (RE_PatchInvalid (format_validation_errors errors))))"

definition persist_validated_candidate :: "repair_env \<Rightarrow> patch \<Rightarrow> plan \<Rightarrow> tool_catalog \<Rightarrow> (repair_error, unit) rio" where
  "persist_validated_candidate renv candidate p catalog =
     rbind (lift_sum (validate_patch_candidate (se_wire (re_store renv)) candidate p catalog)) (\<lambda>u.
       lift_io storage_failure (save_patch (re_store renv) candidate))"

definition repair_request_for :: "failure_packet \<Rightarrow> string \<Rightarrow> run \<Rightarrow> plan \<Rightarrow> step_run \<Rightarrow> tool_catalog \<Rightarrow> string option \<Rightarrow> repair_request" where
  "repair_request_for packet message r p sr catalog extra_context =
     \<lparr>rq_plan = p, rq_run_id = r_id r, rq_failing_step_id = sr_step_id sr, rq_error_message = message,
      rq_stdout = fp_stdout packet, rq_stderr = fp_stderr packet, rq_runtime_inputs = fp_runtime_inputs packet,
      rq_dependency_outputs = fp_dependency_outputs packet,
      rq_tool_catalog = filter te_allowlisted (map snd catalog), rq_extra_context = extra_context\<rparr>"

text \<open>One bounded correction after a candidate that cannot be applied.\<close>

definition correct_candidate :: "repair_env \<Rightarrow> repair_request \<Rightarrow> patch \<Rightarrow> string \<Rightarrow> plan \<Rightarrow> tool_catalog \<Rightarrow>
    (repair_error, repair_proposal) rio" where
  "correct_candidate renv request proposed initial_errors p catalog =
     rbind (lift_sum (map_sum RE_Compiler id (re_correct renv request proposed initial_errors))) (\<lambda>corrected.
     bind (persist_validated_candidate renv corrected p catalog) (\<lambda>r. case r of
       Inr u \<Rightarrow> rok (PatchProposal corrected)
     | Inl (RE_PatchInvalid corrected_errors) \<Rightarrow> rfail (RE_PatchInvalid
         (fmt ''corrected patch remained invalid: {}; initial candidate: {}'' [corrected_errors, initial_errors]))
     | Inl e \<Rightarrow> rfail e))"

definition propose_candidate :: "repair_env \<Rightarrow> repair_request \<Rightarrow> plan \<Rightarrow> tool_catalog \<Rightarrow> (repair_error, repair_proposal) rio" where
  "propose_candidate renv request p catalog =
     rbind (lift_sum (map_sum RE_Compiler id (re_propose renv request))) (\<lambda>proposal. case proposal of
       WorldFixProposal fix_record \<Rightarrow>
         rbind (lift_io storage_failure (save_record (re_store renv) (re_world_fixes renv) fix_record)) (\<lambda>u.
           rok (WorldFixProposal fix_record))
     | PatchProposal proposed \<Rightarrow>
         bind (persist_validated_candidate renv proposed p catalog) (\<lambda>r. case r of
           Inr u \<Rightarrow> rok (PatchProposal proposed)
         | Inl (RE_PatchInvalid initial_errors) \<Rightarrow> correct_candidate renv request proposed initial_errors p catalog
         | Inl e \<Rightarrow> rfail e))"

definition propose_repair :: "repair_env \<Rightarrow> run \<Rightarrow> plan \<Rightarrow> tool_catalog \<Rightarrow> string option \<Rightarrow> (repair_error, repair_proposal) rio" where
  "propose_repair renv r p catalog extra_context =
     rbind (lift_sum (failed_step_for_repair r)) (\<lambda>sr.
     rbind (lift_sum (ok_or (RE_Storage (fmt ''failed step '{}' not found in plan '{}{}''
         [sr_step_id sr, m_id (p_metadata p), squote])) (plan_find_step p (sr_step_id sr)))) (\<lambda>failing_step.
     bind (fresh_uuid (re_store renv)) (\<lambda>uuid. bind (utc_now (re_store renv)) (\<lambda>now.
     let packet = build_packet (re_text renv) uuid now r failing_step sr
     in bind (applied_repairs_for_recurring_failure renv r) (\<lambda>n.
        let message = (if n = 0 then fp_error_message packet else fp_error_message packet @ repeated_failure_guidance n)
        in propose_candidate renv (repair_request_for packet message r p sr catalog extra_context) p catalog)))))"

section \<open>Applying\<close>

text \<open>The derived equality of patches; the maps inside a step are compared by their entries.\<close>

fun same_operation :: "patch_operation \<Rightarrow> patch_operation \<Rightarrow> bool" where
  "same_operation (Batch xs) (Batch ys) \<longleftrightarrow> list_all2 same_operation xs ys"
| "same_operation (ReplaceStep s) (ReplaceStep t) \<longleftrightarrow> same_step s t"
| "same_operation (UpdateStepConfig c) (UpdateStepConfig d) \<longleftrightarrow> same_config c d"
| "same_operation (InsertBefore s) (InsertBefore t) \<longleftrightarrow> same_step s t"
| "same_operation (InsertAfter s) (InsertAfter t) \<longleftrightarrow> same_step s t"
| "same_operation x y \<longleftrightarrow> x = y"

definition same_patch :: "patch \<Rightarrow> patch \<Rightarrow> bool" where
  "same_patch p q \<longleftrightarrow> p\<lparr>pt_operation := pt_operation q\<rparr> = q \<and> same_operation (pt_operation p) (pt_operation q)"

text \<open>What the patch makes of the plan: the next version, with its lineage, normalized.\<close>

definition patched_plan :: "instant \<Rightarrow> plan \<Rightarrow> plan \<Rightarrow> plan" where
  "patched_plan now p q = normalized (q\<lparr>p_metadata := (next_version now (p_metadata q))
     \<lparr>m_parent_plan_id := Some (m_id (p_metadata p)), m_parent_version := Some (m_version (p_metadata p))\<rparr>\<rparr>)"

definition publish_patched :: "store_env \<Rightarrow> tool_catalog \<Rightarrow> patch \<Rightarrow> plan \<Rightarrow> (repair_error, plan) rio" where
  "publish_patched env catalog pt updated =
     (let errors = validate updated catalog
      in if errors \<noteq> [] then rfail (RE_PatchInvalid (format_validation_errors errors))
         else rbind (lift_io storage_failure (commit_repair env (pt_id pt) updated)) (\<lambda>u. rok updated))"

definition apply_checked :: "store_env \<Rightarrow> tool_catalog \<Rightarrow> patch \<Rightarrow> plan \<Rightarrow> (repair_error, plan) rio" where
  "apply_checked env catalog pt p =
     (if checked_succ (m_version (p_metadata p)) = None then
        rfail (RE_Storage (fmt ''cannot apply patch '{}': plan version overflow at v{}''
          [pt_id pt, version_str (m_version (p_metadata p))]))
      else case apply_operation (se_wire env) p pt of
        Inl e \<Rightarrow> rfail (RE_PatchInvalid (show_patch_error e))
      | Inr q \<Rightarrow> bind (utc_now env) (\<lambda>now. publish_patched env catalog pt (patched_plan now p q)))"

definition apply_patch :: "store_env \<Rightarrow> tool_catalog \<Rightarrow> patch \<Rightarrow> plan \<Rightarrow> (repair_error, plan) rio" where
  "apply_patch env catalog pt p =
     rbind (lift_io storage_failure (load_patch env (pt_id pt))) (\<lambda>persisted.
     if \<not> same_patch persisted pt then
       rfail (RE_Storage (fmt ''persisted patch '{}' does not exactly match the supplied patch'' [pt_id pt]))
     else if pt_status persisted \<noteq> Approved then
       rfail (RE_PatchNotApproved (pt_id persisted) (show_patch_status (pt_status persisted)))
     else if pt_plan_id pt \<noteq> m_id (p_metadata p) then
       rfail (RE_Storage (fmt ''repair plan identity mismatch for patch '{}': patch targets '{}', supplied plan is '{}{}''
         [pt_id pt, pt_plan_id pt, m_id (p_metadata p), squote]))
     else if pt_plan_version pt \<noteq> m_version (p_metadata p) then
       rfail (RE_Storage (fmt ''repair base version mismatch for patch '{}': patch targets v{}, supplied plan is v{}''
         [pt_id pt, version_str (pt_plan_version pt), version_str (m_version (p_metadata p))]))
     else rbind (lift_io storage_failure (load_current env (pt_plan_id pt))) (\<lambda>current.
       if \<not> same_plan current p then
         rfail (RE_Storage (fmt ''stale repair base for patch '{}': supplied plan v{} is not the current persisted plan v{}''
           [pt_id pt, version_str (m_version (p_metadata p)), version_str (m_version (p_metadata current))]))
       else apply_checked env catalog pt p))"

section \<open>Approving and rejecting stored patches\<close>

text \<open>An \<^verbatim>\<open>anyhow\<close> error that can be asked whether it is a storage error.\<close>

datatype engine_error = EE_Storage storage_error | EE_Message string

text \<open>The patch as approved, persisted when it was pending.\<close>

definition approve_patch :: "store_env \<Rightarrow> string \<Rightarrow> patch \<Rightarrow> (engine_error, patch) rio" where
  "approve_patch env i patch = (case pt_status patch of
     Pending \<Rightarrow> bind (utc_now env) (\<lambda>now.
       let approved = patch\<lparr>pt_status := Approved, pt_approved_at := Some now\<rparr>
       in rbind (lift_io EE_Storage (save_patch env approved)) (\<lambda>u. rok approved))
   | Approved \<Rightarrow> rok patch
   | Applied \<Rightarrow> rfail (EE_Message (fmt ''patch '{}' has already been applied'' [i]))
   | Rejected \<Rightarrow> rfail (EE_Message (fmt ''patch '{}' cannot be applied: it was rejected'' [i])))"

definition restore_pending :: "patch \<Rightarrow> patch" where
  "restore_pending approved = approved\<lparr>pt_status := Pending, pt_approved_at := None\<rparr>"

definition apply_patch_in_storage :: "store_env \<Rightarrow> (engine_error, tool_catalog) rio \<Rightarrow> string \<Rightarrow> (engine_error, plan) rio" where
  "apply_patch_in_storage env read_catalog i =
     rbind (lift_io EE_Storage (open_storage env)) (\<lambda>u.
     rbind (lift_io EE_Storage (load_patch env i)) (\<lambda>patch.
     rbind (approve_patch env i patch) (\<lambda>approved.
     rbind read_catalog (\<lambda>catalog.
     rbind (lift_io EE_Storage (load_version env (pt_plan_id approved) (pt_plan_version approved))) (\<lambda>p.
     bind (apply_patch env catalog approved p) (\<lambda>applied. case applied of
       Inr updated \<Rightarrow> rok updated
     | Inl e \<Rightarrow> (let failure = EE_Message (fmt ''failed to apply patch: {}'' [show_repair_error e])
         in if pt_status patch = Pending
            then rbind (lift_io EE_Storage (save_patch env (restore_pending approved))) (\<lambda>u. rfail failure)
            else rfail failure)))))))"

definition reject_patch_in_storage :: "store_env \<Rightarrow> string \<Rightarrow> string option \<Rightarrow> (engine_error, unit) rio" where
  "reject_patch_in_storage env i reason =
     rbind (lift_io EE_Storage (open_storage env)) (\<lambda>u.
     rbind (lift_io EE_Storage (load_patch env i)) (\<lambda>patch.
     if pt_status patch \<noteq> Pending then
       rfail (EE_Message (fmt ''patch '{}' cannot be rejected: expected status pending, got {}''
         [i, show_patch_status (pt_status patch)]))
     else bind (utc_now env) (\<lambda>now.
       lift_io EE_Storage (save_patch env (patch\<lparr>pt_status := Rejected, pt_rejected_at := Some now,
         pt_rejection_reason := reason\<rparr>)))))"

definition is_patch_not_found :: "engine_error \<Rightarrow> bool" where
  "is_patch_not_found e = (case e of EE_Storage (SE_NotFound kind i) \<Rightarrow> kind = ''patch'' | _ \<Rightarrow> False)"

end
