(* ===== verification/Preflight.thy ===== *)
theory Preflight
  imports Repair
begin

text \<open>
  What the preflight of a proposed patch promises: validation does not look at the metadata of a
  plan, so that a candidate accepted when it was proposed is accepted when it is approved, as long
  as the plan and the catalog are the same.
\<close>

named_theorems metadata_blind \<open>checks that ignore the metadata of a plan\<close>

section \<open>Validation ignores metadata\<close>

abbreviation with_metadata :: "plan \<Rightarrow> plan_metadata \<Rightarrow> plan" where
  "with_metadata p m \<equiv> p\<lparr>p_metadata := m\<rparr>"

lemma blind_plan_find_step [metadata_blind]: "plan_find_step (with_metadata p m) = plan_find_step p"
  by (simp add: fun_eq_iff plan_find_step_def)

lemma blind_spawned [metadata_blind]: "spawned (with_metadata p m) = spawned p"
  by (simp add: fun_eq_iff spawned_def metadata_blind)

lemma blind_body_closure_loop [metadata_blind]: "body_closure_loop (with_metadata p m) owned pending = body_closure_loop p owned pending"
  by (induction p owned pending rule: body_closure_loop.induct) (simp_all add: metadata_blind split: prod.splits)

lemma blind_fan_out_body_closure [metadata_blind]: "fan_out_body_closure (with_metadata p m) i = fan_out_body_closure p i"
  by (simp add: fan_out_body_closure_def metadata_blind del: body_closure_loop.simps)

lemma blind_deps_of [metadata_blind]: "deps_of (with_metadata p m) i = deps_of p i"
  by (simp add: deps_of_def metadata_blind)

lemma blind_depends_loop [metadata_blind]: "depends_loop (with_metadata p m) target seen queue = depends_loop p target seen queue"
  by (induction p target seen queue rule: depends_loop.induct) (simp_all add: metadata_blind split: option.splits)

lemma blind_depends_transitively [metadata_blind]: "depends_transitively (with_metadata p m) i t = depends_transitively p i t"
  by (simp add: depends_transitively_def metadata_blind del: depends_loop.simps)

lemma blind_branch_targets [metadata_blind]: "branch_targets (with_metadata p m) = branch_targets p"
  by (simp add: branch_targets_def metadata_blind)

lemma blind_routed_next [metadata_blind]: "routed_next (with_metadata p m) i = routed_next p i"
  by (simp add: routed_next_def metadata_blind)

lemma blind_routed_loop [metadata_blind]: "routed_loop (with_metadata p m) routed pending = routed_loop p routed pending"
  by (induction p routed pending rule: routed_loop.induct) (simp_all add: metadata_blind)

lemma blind_condition_routed_step_ids [metadata_blind]: "condition_routed_step_ids (with_metadata p m) = condition_routed_step_ids p"
  by (simp add: condition_routed_step_ids_def metadata_blind)

lemma blind_validate_plan_inputs [metadata_blind]: "validate_plan_inputs (with_metadata p m) = validate_plan_inputs p"
  by (simp add: validate_plan_inputs_def metadata_blind del: body_closure_loop.simps depends_loop.simps routed_loop.simps cong: option.case_cong if_cong step_config.case_cong prod.case_cong list.case_cong)

lemma blind_validate_step_ids [metadata_blind]: "validate_step_ids (with_metadata p m) = validate_step_ids p"
  by (simp add: validate_step_ids_def metadata_blind del: body_closure_loop.simps depends_loop.simps routed_loop.simps cong: option.case_cong if_cong step_config.case_cong prod.case_cong list.case_cong)

lemma blind_validate_structure [metadata_blind]: "validate_structure (with_metadata p m) = validate_structure p"
  by (simp add: validate_structure_def metadata_blind del: body_closure_loop.simps depends_loop.simps routed_loop.simps cong: option.case_cong if_cong step_config.case_cong prod.case_cong list.case_cong)

lemma blind_requires_root_directory [metadata_blind]: "requires_root_directory (with_metadata p m) = requires_root_directory p"
  by (simp add: requires_root_directory_def metadata_blind del: body_closure_loop.simps depends_loop.simps routed_loop.simps cong: option.case_cong if_cong step_config.case_cong prod.case_cong list.case_cong)

lemma blind_root_directory_input [metadata_blind]: "root_directory_input (with_metadata p m) = root_directory_input p"
  by (simp add: root_directory_input_def metadata_blind del: body_closure_loop.simps depends_loop.simps routed_loop.simps cong: option.case_cong if_cong step_config.case_cong prod.case_cong list.case_cong)

lemma blind_validate_root_directory_input [metadata_blind]: "validate_root_directory_input (with_metadata p m) = validate_root_directory_input p"
  by (simp add: validate_root_directory_input_def metadata_blind del: body_closure_loop.simps depends_loop.simps routed_loop.simps cong: option.case_cong if_cong step_config.case_cong prod.case_cong list.case_cong)

lemma blind_check_fan_in_sources [metadata_blind]:
  "check_fan_in_sources (with_metadata p m) s srcs seen = check_fan_in_sources p s srcs seen"
  by (induction p s srcs seen rule: check_fan_in_sources.induct) (simp_all add: metadata_blind)

lemma blind_validate_fan_in_contract [metadata_blind]: "validate_fan_in_contract (with_metadata p m) = validate_fan_in_contract p"
  by (intro ext) (simp add: validate_fan_in_contract_def metadata_blind del: body_closure_loop.simps depends_loop.simps routed_loop.simps cong: option.case_cong if_cong step_config.case_cong prod.case_cong list.case_cong split: prod.splits)

lemma blind_spawn_owners [metadata_blind]: "spawn_owners (with_metadata p m) = spawn_owners p"
  by (simp add: spawn_owners_def metadata_blind del: body_closure_loop.simps depends_loop.simps routed_loop.simps cong: option.case_cong if_cong step_config.case_cong prod.case_cong list.case_cong split: prod.splits)

lemma blind_check_multiple_owners [metadata_blind]: "check_multiple_owners (with_metadata p m) = check_multiple_owners p"
  by (intro ext) (simp add: check_multiple_owners_def metadata_blind del: body_closure_loop.simps depends_loop.simps routed_loop.simps cong: option.case_cong if_cong step_config.case_cong prod.case_cong list.case_cong split: prod.splits)

lemma blind_fan_out_owner [metadata_blind]: "fan_out_owner (with_metadata p m) = fan_out_owner p"
  by (intro ext) (simp add: fan_out_owner_def metadata_blind del: body_closure_loop.simps depends_loop.simps routed_loop.simps cong: option.case_cong if_cong step_config.case_cong prod.case_cong list.case_cong split: prod.splits)

lemma blind_check_spawn_dependency [metadata_blind]: "check_spawn_dependency (with_metadata p m) = check_spawn_dependency p"
  by (intro ext) (simp add: check_spawn_dependency_def metadata_blind del: body_closure_loop.simps depends_loop.simps routed_loop.simps cong: option.case_cong if_cong step_config.case_cong prod.case_cong list.case_cong split: prod.splits)

lemma blind_check_spawn_step [metadata_blind]: "check_spawn_step (with_metadata p m) = check_spawn_step p"
  by (intro ext) (simp add: check_spawn_step_def metadata_blind del: body_closure_loop.simps depends_loop.simps routed_loop.simps cong: option.case_cong if_cong step_config.case_cong prod.case_cong list.case_cong split: prod.splits)

lemma blind_check_fan_out_spawn_steps [metadata_blind]: "check_fan_out_spawn_steps (with_metadata p m) = check_fan_out_spawn_steps p"
  by (intro ext) (simp add: check_fan_out_spawn_steps_def metadata_blind del: body_closure_loop.simps depends_loop.simps routed_loop.simps cong: option.case_cong if_cong step_config.case_cong prod.case_cong list.case_cong split: prod.splits)

lemma blind_raw_result_step [metadata_blind]: "raw_result_step (with_metadata p m) = raw_result_step p"
  by (intro ext) (simp add: raw_result_step_def metadata_blind del: body_closure_loop.simps depends_loop.simps routed_loop.simps cong: option.case_cong if_cong step_config.case_cong prod.case_cong list.case_cong split: prod.splits)

lemma blind_check_raw_results_consumers [metadata_blind]: "check_raw_results_consumers (with_metadata p m) = check_raw_results_consumers p"
  by (intro ext) (simp add: check_raw_results_consumers_def metadata_blind del: body_closure_loop.simps depends_loop.simps routed_loop.simps cong: option.case_cong if_cong step_config.case_cong prod.case_cong list.case_cong split: prod.splits)

lemma blind_check_main_flow_dependencies [metadata_blind]: "check_main_flow_dependencies (with_metadata p m) = check_main_flow_dependencies p"
  by (simp add: check_main_flow_dependencies_def metadata_blind del: body_closure_loop.simps depends_loop.simps routed_loop.simps cong: option.case_cong if_cong step_config.case_cong prod.case_cong list.case_cong split: prod.splits)

lemma blind_check_fan_out_source [metadata_blind]: "check_fan_out_source (with_metadata p m) = check_fan_out_source p"
  by (intro ext) (simp add: check_fan_out_source_def metadata_blind del: body_closure_loop.simps depends_loop.simps routed_loop.simps cong: option.case_cong if_cong step_config.case_cong prod.case_cong list.case_cong split: prod.splits)

lemma blind_check_fan_out_step [metadata_blind]: "check_fan_out_step (with_metadata p m) = check_fan_out_step p"
  by (intro ext) (simp add: check_fan_out_step_def metadata_blind del: body_closure_loop.simps depends_loop.simps routed_loop.simps cong: option.case_cong if_cong step_config.case_cong prod.case_cong list.case_cong split: prod.splits)

lemma blind_validate_fan_out_constraints [metadata_blind]: "validate_fan_out_constraints (with_metadata p m) = validate_fan_out_constraints p"
  by (simp add: validate_fan_out_constraints_def metadata_blind del: body_closure_loop.simps depends_loop.simps routed_loop.simps cong: option.case_cong if_cong step_config.case_cong prod.case_cong list.case_cong split: prod.splits)

lemma blind_check_branch_step [metadata_blind]: "check_branch_step (with_metadata p m) = check_branch_step p"
  by (intro ext) (simp add: check_branch_step_def metadata_blind del: body_closure_loop.simps depends_loop.simps routed_loop.simps cong: option.case_cong if_cong step_config.case_cong prod.case_cong list.case_cong split: prod.splits)

lemma blind_check_condition_step [metadata_blind]: "check_condition_step (with_metadata p m) = check_condition_step p"
  by (intro ext) (simp add: check_condition_step_def metadata_blind del: body_closure_loop.simps depends_loop.simps routed_loop.simps cong: option.case_cong if_cong step_config.case_cong prod.case_cong list.case_cong split: prod.splits)

lemma blind_validate_condition_constraints [metadata_blind]: "validate_condition_constraints (with_metadata p m) = validate_condition_constraints p"
  by (simp add: validate_condition_constraints_def metadata_blind del: body_closure_loop.simps depends_loop.simps routed_loop.simps cong: option.case_cong if_cong step_config.case_cong prod.case_cong list.case_cong split: prod.splits)

lemma blind_check_step_contract [metadata_blind]: "check_step_contract (with_metadata p m) = check_step_contract p"
  by (intro ext) (simp add: check_step_contract_def metadata_blind del: body_closure_loop.simps depends_loop.simps routed_loop.simps cong: option.case_cong if_cong step_config.case_cong prod.case_cong list.case_cong split: prod.splits)

lemma blind_validate_step_contracts [metadata_blind]: "validate_step_contracts (with_metadata p m) = validate_step_contracts p"
  by (simp add: validate_step_contracts_def metadata_blind del: body_closure_loop.simps depends_loop.simps routed_loop.simps cong: option.case_cong if_cong step_config.case_cong prod.case_cong list.case_cong split: prod.splits)

lemma blind_outputs_by_step [metadata_blind]: "outputs_by_step (with_metadata p m) = outputs_by_step p"
  by (simp add: outputs_by_step_def metadata_blind del: body_closure_loop.simps depends_loop.simps routed_loop.simps cong: option.case_cong if_cong step_config.case_cong prod.case_cong list.case_cong split: prod.splits)

lemma blind_item_owners [metadata_blind]: "item_owners (with_metadata p m) = item_owners p"
  by (simp add: item_owners_def metadata_blind del: body_closure_loop.simps depends_loop.simps routed_loop.simps cong: option.case_cong if_cong step_config.case_cong prod.case_cong list.case_cong split: prod.splits)

lemma blind_check_step_output [metadata_blind]: "check_step_output (with_metadata p m) = check_step_output p"
  by (intro ext) (simp add: check_step_output_def metadata_blind del: body_closure_loop.simps depends_loop.simps routed_loop.simps cong: option.case_cong if_cong step_config.case_cong prod.case_cong list.case_cong split: prod.splits)

lemma blind_check_placeholder [metadata_blind]: "check_placeholder (with_metadata p m) = check_placeholder p"
  by (intro ext) (simp add: check_placeholder_def metadata_blind del: body_closure_loop.simps depends_loop.simps routed_loop.simps cong: option.case_cong if_cong step_config.case_cong prod.case_cong list.case_cong split: prod.splits)

lemma blind_check_string [metadata_blind]: "check_string (with_metadata p m) = check_string p"
  by (intro ext) (simp add: check_string_def metadata_blind del: body_closure_loop.simps depends_loop.simps routed_loop.simps cong: option.case_cong if_cong step_config.case_cong prod.case_cong list.case_cong split: prod.splits)

lemma blind_fan_out_owners [metadata_blind]: "fan_out_owners (with_metadata p m) = fan_out_owners p"
  by (simp add: fan_out_owners_def metadata_blind del: body_closure_loop.simps depends_loop.simps routed_loop.simps cong: option.case_cong if_cong step_config.case_cong prod.case_cong list.case_cong split: prod.splits)

lemma blind_reference_is_available [metadata_blind]: "reference_is_available (with_metadata p m) = reference_is_available p"
  by (intro ext) (simp add: reference_is_available_def metadata_blind del: body_closure_loop.simps depends_loop.simps routed_loop.simps cong: option.case_cong if_cong step_config.case_cong prod.case_cong list.case_cong split: prod.splits)

lemma blind_check_preflight_reference [metadata_blind]: "check_preflight_reference (with_metadata p m) = check_preflight_reference p"
  by (intro ext) (simp add: check_preflight_reference_def metadata_blind del: body_closure_loop.simps depends_loop.simps routed_loop.simps cong: option.case_cong if_cong step_config.case_cong prod.case_cong list.case_cong split: prod.splits)

lemma blind_check_until_reference [metadata_blind]: "check_until_reference (with_metadata p m) = check_until_reference p"
  by (intro ext) (simp add: check_until_reference_def metadata_blind del: body_closure_loop.simps depends_loop.simps routed_loop.simps cong: option.case_cong if_cong step_config.case_cong prod.case_cong list.case_cong split: prod.splits)

lemma blind_validate_step_reference_order [metadata_blind]: "validate_step_reference_order (with_metadata p m) = validate_step_reference_order p"
  by (simp add: validate_step_reference_order_def metadata_blind del: body_closure_loop.simps depends_loop.simps routed_loop.simps cong: option.case_cong if_cong step_config.case_cong prod.case_cong list.case_cong split: prod.splits)

lemma blind_validate_placeholders [metadata_blind]: "validate_placeholders (with_metadata p m) = validate_placeholders p"
  by (simp add: validate_placeholders_def metadata_blind del: body_closure_loop.simps depends_loop.simps routed_loop.simps cong: option.case_cong if_cong step_config.case_cong prod.case_cong list.case_cong split: prod.splits)

lemma blind_check_plan_output [metadata_blind]: "check_plan_output (with_metadata p m) = check_plan_output p"
  by (intro ext) (simp add: check_plan_output_def metadata_blind del: body_closure_loop.simps depends_loop.simps routed_loop.simps cong: option.case_cong if_cong step_config.case_cong prod.case_cong list.case_cong split: prod.splits)

lemma blind_validate_plan_output_sources [metadata_blind]: "validate_plan_output_sources (with_metadata p m) = validate_plan_output_sources p"
  by (simp add: validate_plan_output_sources_def metadata_blind del: body_closure_loop.simps depends_loop.simps routed_loop.simps cong: option.case_cong if_cong step_config.case_cong prod.case_cong list.case_cong split: prod.splits)

lemma blind_check_argument [metadata_blind]: "check_argument (with_metadata p m) = check_argument p"
  by (intro ext) (simp add: check_argument_def metadata_blind del: body_closure_loop.simps depends_loop.simps routed_loop.simps cong: option.case_cong if_cong step_config.case_cong prod.case_cong list.case_cong split: prod.splits)

lemma blind_check_argument_types [metadata_blind]: "check_argument_types (with_metadata p m) = check_argument_types p"
  by (intro ext) (simp add: check_argument_types_def metadata_blind del: body_closure_loop.simps depends_loop.simps routed_loop.simps cong: option.case_cong if_cong step_config.case_cong prod.case_cong list.case_cong split: prod.splits)

lemma blind_check_tool_step [metadata_blind]: "check_tool_step (with_metadata p m) = check_tool_step p"
  by (intro ext) (simp add: check_tool_step_def metadata_blind del: body_closure_loop.simps depends_loop.simps routed_loop.simps cong: option.case_cong if_cong step_config.case_cong prod.case_cong list.case_cong split: prod.splits)

lemma blind_validate_tool_bindings [metadata_blind]: "validate_tool_bindings (with_metadata p m) = validate_tool_bindings p"
  by (intro ext) (simp add: validate_tool_bindings_def metadata_blind del: body_closure_loop.simps depends_loop.simps routed_loop.simps cong: option.case_cong if_cong step_config.case_cong prod.case_cong list.case_cong split: prod.splits)

lemma validate_blind: "validate (with_metadata p m) catalog = validate p catalog"
  by (simp add: validate_def metadata_blind)

section \<open>Normalization keeps metadata\<close>

lemma normalized_eq: "normalize p = Some (normalized p)"
  by (simp add: normalized_def normalize_eq)

lemma normalized_metadata: "p_metadata (normalized p) = p_metadata p"
  by (auto simp: normalized_def normalize_def split: option.splits)

lemma normalized_with_metadata: "normalized (with_metadata p m) = with_metadata (normalized p) m"
  by (auto simp: normalized_def normalize_def split: option.splits)

lemma patched_plan_eq: "patched_plan now p q = with_metadata (normalized q)
    ((next_version now (p_metadata q))\<lparr>m_parent_plan_id := Some (m_id (p_metadata p)), m_parent_version := Some (m_version (p_metadata p))\<rparr>)"
  by (simp add: patched_plan_def normalized_with_metadata)

lemma validate_patched: "validate (patched_plan now p q) catalog = validate (normalized q) catalog"
  by (simp add: patched_plan_eq validate_blind)

text \<open>Applying a patch looks at its operation and its failing step only.\<close>

lemma apply_operation_cong: "pt_operation c = pt_operation pt \<Longrightarrow> pt_failing_step_id c = pt_failing_step_id pt \<Longrightarrow>
    apply_operation w p c = apply_operation w p pt"
  by (simp add: apply_operation_def)

section \<open>Results\<close>

lemma rbind_Inr: "rbind m k d = (d', Done (Inr v)) \<longleftrightarrow> (\<exists>d1 u. m d = (d1, Done (Inr u)) \<and> k u d1 = (d', Done (Inr v)))"
  by (auto simp: rbind_def bind_def rfail_def ret_def split: prod.splits outcome.splits sum.splits)

lemma rbind_Inl: "rbind m k d = (d', Done (Inl e)) \<longleftrightarrow>
    m d = (d', Done (Inl e)) \<or> (\<exists>d1 u. m d = (d1, Done (Inr u)) \<and> k u d1 = (d', Done (Inl e)))"
  by (auto simp: rbind_def bind_def rfail_def ret_def split: prod.splits outcome.splits sum.splits)

lemma lift_io_Inr: "lift_io h m d = (d', Done (Inr v)) \<longleftrightarrow> m d = (d', Done v)"
  by (auto simp: lift_io_def bind_def attempt_def ret_def split: prod.splits outcome.splits)

lemma lift_io_Inl: "lift_io h m d = (d', Done (Inl e)) \<longleftrightarrow> (\<exists>e'. m d = (d', Failed e') \<and> e = h e')"
  by (auto simp: lift_io_def bind_def attempt_def ret_def split: prod.splits outcome.splits)

lemma lift_sum_Done: "lift_sum r d = (d', Done x) \<longleftrightarrow> d' = d \<and> x = r"
  by (auto simp: lift_sum_def ret_def)

lemma rok_Done: "rok v d = (d', Done x) \<longleftrightarrow> d' = d \<and> x = Inr v" "rfail e d = (d', Done x) \<longleftrightarrow> d' = d \<and> x = Inl e"
  by (auto simp: rok_def rfail_def ret_def)

lemma bind_Done: "bind m k d = (d', Done v) \<longleftrightarrow> (\<exists>d1 u. m d = (d1, Done u) \<and> k u d1 = (d', Done v))"
  by (auto simp: bind_def split: prod.splits outcome.splits)

lemmas result_simps = rbind_Inr rbind_Inl lift_io_Inr lift_io_Inl lift_sum_Done rok_Done

section \<open>Properties\<close>

lemma apply_patch_Inr:
  assumes "apply_patch env catalog pt p d = (d', Done (Inr u))"
  shows "\<exists>persisted r now d1. same_patch persisted pt \<and> pt_status persisted = Approved \<and> pt_plan_id pt = m_id (p_metadata p) \<and>
    pt_plan_version pt = m_version (p_metadata p) \<and> m_version (p_metadata p) \<noteq> - 1 \<and>
    apply_operation (se_wire env) p pt = Inr r \<and> u = patched_plan now p r \<and> validate u catalog = [] \<and>
    commit_repair env (pt_id pt) u d1 = (d', Done ())"
  using assms
  by (auto simp: apply_patch_def apply_checked_def publish_patched_def result_simps Let_def bind_def utc_now_def checked_succ_def
      split: if_splits sum.splits)


text \<open>What the preflight accepts cannot be rejected as invalid when it is applied.\<close>

lemma preflight_final:
  assumes "validate_patch_candidate (se_wire env) c p catalog = Inr ()"
    and "pt_operation pt = pt_operation c" and "pt_failing_step_id pt = pt_failing_step_id c"
  shows "snd (apply_patch env catalog pt p d) \<noteq> Done (Inl (RE_PatchInvalid m))"
proof
  assume "snd (apply_patch env catalog pt p d) = Done (Inl (RE_PatchInvalid m))"
  then obtain d' where a: "apply_patch env catalog pt p d = (d', Done (Inl (RE_PatchInvalid m)))"
    by (metis prod.collapse)
  have op: "apply_operation (se_wire env) p pt = apply_operation (se_wire env) p c"
    by (rule apply_operation_cong [OF assms(2,3), symmetric, THEN sym])
  from assms(1) obtain q where q: "apply_operation (se_wire env) p c = Inr q" "validate (normalized q) catalog = []"
    by (auto simp: validate_patch_candidate_def Let_def split: sum.splits if_splits)
  from a show False
    by (auto simp: apply_patch_def apply_checked_def publish_patched_def result_simps Let_def bind_def utc_now_def
        storage_failure_def op q validate_patched split: if_splits)
qed

lemma saved_patch_published: "save_patch env c d = (d', Done ()) \<Longrightarrow>
    published d' (record_path (patch_codec env) (pt_id c)) = Some (patch_text env c)"
proof -
  assume s: "save_patch env c d = (d', Done ())"
  then have "pt_id c \<noteq> []"
    by (auto simp: save_patch_def save_record_def seq_def bind_def validate_record_id_def throw_def patch_codec_def split: if_splits)
  then have "triple (pub (published d)) (save_patch env c)
      (\<lambda>u. pub ((published d)(record_path (patch_codec env) (pt_id c) \<mapsto> patch_text env c))) (\<lambda>d. True)"
    unfolding save_patch_def by (rule_tac triple_conseq [OF save_record_triple]) (auto simp: patch_codec_def record_path_def)
  from triple_done [OF this, of d "()"] s show ?thesis by simp
qed

lemma candidate_persisted:
  assumes "propose_candidate renv request p catalog d = (d', Done (Inr (PatchProposal c)))"
  shows "\<exists>d1. persist_validated_candidate renv c p catalog d1 = (d', Done (Inr ()))"
proof -
  from assms obtain proposal d1 where r: "(case proposal of
      WorldFixProposal f \<Rightarrow> rbind (lift_io storage_failure (save_record (re_store renv) (re_world_fixes renv) f)) (\<lambda>u. rok (WorldFixProposal f))
    | PatchProposal proposed \<Rightarrow> bind (persist_validated_candidate renv proposed p catalog) (\<lambda>r. case r of
           Inr u \<Rightarrow> rok (PatchProposal proposed)
         | Inl (RE_PatchInvalid initial_errors) \<Rightarrow> correct_candidate renv request proposed initial_errors p catalog
         | Inl e \<Rightarrow> rfail e)) d1 = (d', Done (Inr (PatchProposal c)))"
    unfolding propose_candidate_def by (auto simp: rbind_Inr)
  have corrected: "\<exists>d1. persist_validated_candidate renv c p catalog d1 = (d', Done (Inr ()))"
    if "correct_candidate renv request proposed es p catalog d2 = (d', Done (Inr (PatchProposal c)))" for proposed es d2
  proof -
    from that obtain corrected d3 d4 x where x: "persist_validated_candidate renv corrected p catalog d3 = (d4, Done x)"
      "(case x of Inr u \<Rightarrow> rok (PatchProposal corrected)
         | Inl (RE_PatchInvalid corrected_errors) \<Rightarrow> rfail (RE_PatchInvalid
             (fmt ''corrected patch remained invalid: {}; initial candidate: {}'' [corrected_errors, es]))
         | Inl e \<Rightarrow> rfail e) d4 = (d', Done (Inr (PatchProposal c)))"
      unfolding correct_candidate_def rbind_Inr bind_Done by blast
    then have "x = Inr () \<and> corrected = c \<and> d4 = d'"
      by (cases x rule: sum.exhaust) (auto simp: rok_Done split: repair_error.splits)
    with x(1) show ?thesis by auto
  qed
  show ?thesis
  proof (cases proposal)
    case (PatchProposal proposed)
    with r obtain d2 x where "persist_validated_candidate renv proposed p catalog d1 = (d2, Done x)"
      "(case x of Inr u \<Rightarrow> rok (PatchProposal proposed)
         | Inl (RE_PatchInvalid initial_errors) \<Rightarrow> correct_candidate renv request proposed initial_errors p catalog
         | Inl e \<Rightarrow> rfail e) d2 = (d', Done (Inr (PatchProposal c)))"
      by (auto simp: bind_Done)
    with corrected show ?thesis
      by (auto simp: rok_Done split: sum.splits repair_error.splits)
  qed (use r in \<open>auto simp: result_simps\<close>)
qed

text \<open>
  C13: A repair patch that is exposed for review has been persisted, and approving it later cannot fail
  validation: applied to the same plan against the same catalog, its operation never yields an
  invalid plan, whatever else may go wrong.
\<close>

theorem exposed_patch_is_applicable:
  assumes "propose_repair renv r p catalog extra d = (d', Done (Inr (PatchProposal c)))"
    and "pt_operation pt = pt_operation c" and "pt_failing_step_id pt = pt_failing_step_id c"
    and "se_wire env = se_wire (re_store renv)"
  shows "published d' (record_path (patch_codec (re_store renv)) (pt_id c)) = Some (patch_text (re_store renv) c) \<and>
    snd (apply_patch env catalog pt p d'') \<noteq> Done (Inl (RE_PatchInvalid m))"
proof -
  from assms(1) obtain request d0 where "propose_candidate renv request p catalog d0 = (d', Done (Inr (PatchProposal c)))"
    unfolding propose_repair_def by (auto simp: result_simps bind_Done Let_def)
  from candidate_persisted [OF this] obtain d1 where d1: "persist_validated_candidate renv c p catalog d1 = (d', Done (Inr ()))" ..
  then have v: "validate_patch_candidate (se_wire (re_store renv)) c p catalog = Inr ()"
    and s: "save_patch (re_store renv) c d1 = (d', Done ())"
    by (auto simp: persist_validated_candidate_def result_simps)
  from saved_patch_published [OF s] preflight_final [of env c p catalog pt] v assms(2-4) show ?thesis by simp
qed

section \<open>A repair that goes through\<close>

definition review_plan :: plan where
  "review_plan = demo_plan\<lparr>p_steps := [prompt_step ''src'' ''list about ${input.n}'' []]\<rparr>"

definition renamed_plan :: plan where
  "renamed_plan = patched_plan 0 review_plan (review_plan\<lparr>p_name := ''renamed''\<rparr>)"

definition repair_store :: store_env where
  "repair_store = working_store\<lparr>se_clock := \<lambda>n. 0, se_parse := \<lambda>s. if s = ''1'' then Some (plan_doc demo_wire review_plan)
     else if s = ''2'' then Some (plan_doc demo_wire renamed_plan) else toy_parse s\<rparr>"

definition sample_codec :: "string \<Rightarrow> ('r \<Rightarrow> string) \<Rightarrow> 'r codec" where
  "sample_codec kind name = \<lparr>cd_dir = [kind], cd_kind = kind, cd_label = kind, cd_id = name, cd_date = \<lambda>r. 0, cd_text = name,
     cd_read = \<lambda>s. Inl (SE_Json s)\<rparr>"

definition failed_sample :: run where
  "failed_sample = (run_new ''run'' 0 ''p'' 1)\<lparr>r_status := RunFailed ''src'' ''boom'',
     r_step_runs := [(''src'', (step_run_new ''src'')\<lparr>sr_status := SFailed, sr_error := Some ''boom''\<rparr>)]\<rparr>"

definition repair_sample :: repair_env where
  "repair_sample = \<lparr>re_store = repair_store, re_text = \<lparr>th_lowercase = to_ascii_lowercase, th_http_error_status = \<lambda>s. False\<rparr>,
     re_runs = sample_codec ''runs'' r_id, re_world_fixes = sample_codec ''world_fixes'' wx_id,
     re_propose = \<lambda>q. Inr (PatchProposal rename_patch), re_correct = \<lambda>q c e. Inl ''no correction''\<rparr>"


lemma exposed_patch_is_applicable_witness:
  "\<exists>d'. propose_repair repair_sample failed_sample review_plan [] None demo_disk = (d', Done (Inr (PatchProposal rename_patch))) \<and>
    snd (apply_patch repair_store [] demo_approved review_plan demo_disk) \<noteq> Done (Inl (RE_PatchInvalid ''invalid''))"
proof -
  have "case propose_repair repair_sample failed_sample review_plan [] None demo_disk of
      (d', Done (Inr (PatchProposal c))) \<Rightarrow> c = rename_patch | _ \<Rightarrow> False" by code_simp
  then obtain d' where r: "propose_repair repair_sample failed_sample review_plan [] None demo_disk =
      (d', Done (Inr (PatchProposal rename_patch)))"
    by (auto split: prod.splits outcome.splits sum.splits repair_proposal.splits)
  from exposed_patch_is_applicable [OF r, of demo_approved repair_store demo_disk "''invalid''"]
  show ?thesis using r by (simp add: demo_approved_def repair_sample_def)
qed

end
