(* ===== verification/PatchLifecycle.thy ===== *)
theory PatchLifecycle
  imports Preflight
begin

text \<open>
  The life of a stored patch as \<^verbatim>\<open>app/engine.rs\<close> manages it: what approving and
  rejecting do to the files of the store.
\<close>

section \<open>Opening a store without journals\<close>

lemma open_quiet:
  assumes "\<And>n. g (TRANSACTIONS_DIR @ [n]) = None"
  shows "succeeds (at e q g) (open_storage e) (\<lambda>u. at e q g)"
proof -
  let ?J = "at e q g"
  have dir: "succeeds (\<lambda>d. ?J d \<and> (\<forall>y \<in> Y. is_dir d y)) (create_dir_all e x) (\<lambda>u d. ?J d \<and> (\<forall>y \<in> insert x Y. is_dir d y))"
    if "length x \<le> 1" for x Y
  proof -
    have "is_dir (d\<lparr>dk_dirs := remdups (dk_dirs d @ prefixes x)\<rparr>) x" for d
      unfolding is_dir_create using prefixes_self [of x] by (cases "x = []") (auto simp: is_dir_def)
    moreover have "create_dir_all e x d = (later 1 (d\<lparr>dk_dirs := remdups (dk_dirs d @ prefixes x)\<rparr>), Done ())" if "calm e q d" for d
      using that by (simp add: create_dir_works calm_def)
    ultimately show ?thesis
      using calm_create [of e q _ x] that by (simp add: triple_def) (simp add: is_dir_create)
  qed
  have dirs: "succeeds (\<lambda>d. ?J d \<and> (\<forall>y \<in> Y. is_dir d y)) (io_each (create_dir_all e) xs)
      (\<lambda>u d. ?J d \<and> (\<forall>y \<in> set xs \<union> Y. is_dir d y))" if "\<forall>x \<in> set xs. length x \<le> 1" for xs Y
    using that
  proof (induction xs arbitrary: Y)
    case (Cons x xs)
    from triple_seq [OF dir Cons.IH, of x Y] Cons.prems show ?case by simp
  qed (simp add: triple_ret)
  have recover: "succeeds (\<lambda>d. ?J d \<and> is_dir d TRANSACTIONS_DIR) (recover_repair_transactions e) (\<lambda>u. ?J)"
  proof -
    have "recover_repair_transactions e d = (later 1 d, Done ())" if d: "?J d" "is_dir d TRANSACTIONS_DIR" for d
    proof -
      have list: "read_dir e TRANSACTIONS_DIR d = (later 1 d, Done (children (later 1 d) TRANSACTIONS_DIR))"
        using d by (simp add: read_dir_def undisturbed_sys calm_def)
      from triple_done [OF journals_triple, of d g e] d list
      have "set (journals (children (later 1 d) TRANSACTIONS_DIR)) = {}" by (simp add: assms)
      with list show ?thesis by (simp add: recover_repair_transactions_def bind_def ret_def)
    qed
    then show ?thesis by (simp add: triple_def)
  qed
  have "succeeds (\<lambda>d. ?J d \<and> (\<forall>y \<in> {[]}. is_dir d y)) (io_each (create_dir_all e) STORE_DIRS) (\<lambda>u d. ?J d \<and> is_dir d TRANSACTIONS_DIR)"
    by (rule triple_conseq [OF dirs]) (auto simp: STORE_DIRS_def TRANSACTIONS_DIR_def)
  from triple_seq [OF dir [of "[]" "{}"] triple_seq [OF this recover]]
  show ?thesis by (simp add: open_storage_def)
qed

section \<open>Results that are always delivered\<close>

lemma rbind_lift: "succeeds P m Q \<Longrightarrow> (\<And>v. succeeds (Q v) (k v) R) \<Longrightarrow> succeeds P (rbind (lift_io h m) k) R"
  unfolding succeeds_iff by (fastforce simp: rbind_def lift_io_def bind_def attempt_def ret_def)

lemma utc_now_succeeds: "(\<And>n. succeeds P (k (se_clock e n)) R) \<Longrightarrow> succeeds P (bind (utc_now e) k) R"
  unfolding succeeds_iff by (simp add: bind_def utc_now_def)

lemma rok_succeeds: "(\<And>d. P d \<Longrightarrow> Q (Inr v) d) \<Longrightarrow> succeeds P (rok v) Q" "(\<And>d. P d \<Longrightarrow> Q (Inl x) d) \<Longrightarrow> succeeds P (rfail x) Q"
  by (simp_all add: rok_def rfail_def triple_ret)

lemma rbind_rok: "rbind (rok v) k = k v" "rbind (rfail x) k = rfail x"
  by (simp_all add: rbind_def rok_def rfail_def bind_def ret_def fun_eq_iff)

lemma rbind_clock: "rbind (bind (utc_now e) f) h = bind (utc_now e) (\<lambda>now. rbind (f now) h)"
  by (simp add: rbind_def bind_def utc_now_def fun_eq_iff)

lemma rbind_assoc: "rbind (rbind f h) h' = rbind f (\<lambda>x. rbind (h x) h')"
  by (auto simp: rbind_def bind_def rfail_def ret_def fun_eq_iff split: prod.splits outcome.splits sum.splits)

lemma missing_version_fails:
  assumes "g (version_path i v) = None" and "valid_id i" and "at e q g d"
  shows "\<exists>n err. load_version e i v d = (later n d, Failed err)"
proof -
  have "get_file d (version_path i v) = None"
    using assms version_json [of i v] by (auto simp: published_def split: if_splits)
  with assms show ?thesis
    by (cases "is_dir d (version_path i v)")
      (auto simp: load_version_def load_plan_from_path_def seq_def bind_def validate_valid ret_def exists_works read_missing calm_def throw_def)
qed

lemma missing_version_result:
  assumes "g (version_path i v) = None" and "valid_id i"
  shows "succeeds (at e q g) (rbind (lift_io h (load_version e i v)) k) (\<lambda>r d. (\<exists>err. r = Inl (h err)) \<and> at e q g d)"
  unfolding succeeds_iff
proof (intro allI impI)
  fix d assume d: "at e q g d"
  from missing_version_fails [OF assms d] obtain n err where "load_version e i v d = (later n d, Failed err)" by blast
  with d show "\<exists>d' r. rbind (lift_io h (load_version e i v)) k d = (d', Done r) \<and> (\<exists>err. r = Inl (h err)) \<and> at e q g d'"
    by (auto simp: rbind_def lift_io_def bind_def attempt_def ret_def rfail_def)
qed

definition approved_at :: "patch \<Rightarrow> instant \<Rightarrow> patch" where
  "approved_at pt now = pt\<lparr>pt_status := Approved, pt_approved_at := Some now\<rparr>"

text \<open>A pending patch of the store that is read back in every approval state.\<close>

definition reviewable :: "store_env \<Rightarrow> files \<Rightarrow> patch \<Rightarrow> bool" where
  "reviewable e g pt \<longleftrightarrow> pt_status pt = Pending \<and> valid_id (pt_id pt) \<and> valid_id (pt_plan_id pt) \<and>
     (\<forall>n. g (TRANSACTIONS_DIR @ [n]) = None) \<and>
     g (record_path (patch_codec e) (pt_id pt)) = Some (patch_text e pt) \<and>
     cd_read (patch_codec e) (patch_text e pt) = Inr pt \<and>
     (\<forall>n. cd_read (patch_codec e) (patch_text e (approved_at pt (se_clock e n))) = Inr (approved_at pt (se_clock e n)))"

abbreviation with_patch :: "store_env \<Rightarrow> patch \<Rightarrow> files \<Rightarrow> files" where
  "with_patch e pt g \<equiv> g(record_path (patch_codec e) (pt_id pt) \<mapsto> patch_text e pt)"

lemma reject_settled:
  assumes "\<And>n. g (TRANSACTIONS_DIR @ [n]) = None" and "g (record_path (patch_codec e) i) = Some (patch_text e x)"
    and "cd_read (patch_codec e) (patch_text e x) = Inr x" and "valid_id i" and "pt_id x = i" and "pt_status x \<noteq> Pending"
  shows "succeeds (at e q g) (reject_patch_in_storage e i reason) (\<lambda>r d. (\<exists>m. r = Inl (EE_Message m)) \<and> at e q g d)"
  unfolding reject_patch_in_storage_def
proof (rule rbind_lift [OF open_quiet [where g = g]], goal_cases)
  case 2
  show ?case
  proof (rule rbind_lift [OF load_patch_succeeds [of g, OF assms(2-5)]], rule triple_pure, goal_cases)
    case (1 c)
    then show ?case using assms(6) by (auto intro: rok_succeeds)
  qed
qed (rule assms(1))
lemma approve_then_missing:
  assumes r: "reviewable e g pt" and gone: "g (version_path (pt_plan_id pt) (pt_plan_version pt)) = None"
  shows "succeeds (at e q g) (apply_patch_in_storage e (rok catalog) (pt_id pt)) (\<lambda>r d. (\<exists>err. r = Inl (EE_Storage err)) \<and>
    (\<exists>n. at e q (with_patch e (approved_at pt (se_clock e n)) g) d))"
proof -
  note v = r [unfolded reviewable_def]
  have j: "g (TRANSACTIONS_DIR @ [n]) = None" for n using v by simp
  have load: "succeeds (at e q g) (load_patch e (pt_id pt)) (\<lambda>c d. c = pt \<and> at e q g d)"
    by (rule load_patch_succeeds) (use v in auto)
  have rest: "succeeds (at e q g) (rbind (approve_patch e (pt_id pt) pt) (\<lambda>approved. rbind (rok catalog) (\<lambda>catalog.
      rbind (lift_io EE_Storage (load_version e (pt_plan_id approved) (pt_plan_version approved))) (k approved catalog))))
      (\<lambda>r d. (\<exists>err. r = Inl (EE_Storage err)) \<and> (\<exists>n. at e q (with_patch e (approved_at pt (se_clock e n)) g) d))" for k
  proof -
    have save: "succeeds (at e q g) (save_patch e (approved_at pt now)) (\<lambda>u. at e q (with_patch e (approved_at pt now) g))" for now
      using save_patch_succeeds [of "approved_at pt now" g e q] v by (simp add: approved_at_def)
    have miss: "succeeds (at e q (with_patch e (approved_at pt now) g))
        (rbind (lift_io EE_Storage (load_version e (pt_plan_id pt) (pt_plan_version pt))) (k (approved_at pt now) catalog))
        (\<lambda>r d. (\<exists>err. r = Inl (EE_Storage err)) \<and> (\<exists>n. at e q (with_patch e (approved_at pt (se_clock e n)) g) d))" if "now = se_clock e n" for now n
    proof -
      have "with_patch e (approved_at pt now) g (version_path (pt_plan_id pt) (pt_plan_version pt)) = None"
        using gone by (simp add: stage_paths)
      with missing_version_result [where g = "with_patch e (approved_at pt now) g" and i = "pt_plan_id pt" and
        v = "pt_plan_version pt" and e = e and q = q and h = EE_Storage and k = "k (approved_at pt now) catalog"] v
      have "succeeds (at e q (with_patch e (approved_at pt now) g))
        (rbind (lift_io EE_Storage (load_version e (pt_plan_id pt) (pt_plan_version pt))) (k (approved_at pt now) catalog))
        (\<lambda>r d. (\<exists>err. r = Inl (EE_Storage err)) \<and> at e q (with_patch e (approved_at pt now) g) d)" by simp
      then show ?thesis using that unfolding succeeds_iff by blast
    qed
    have ids: "pt_plan_id (approved_at pt now) = pt_plan_id pt" "pt_plan_version (approved_at pt now) = pt_plan_version pt" for now
      by (simp_all add: approved_at_def)
    have a: "approve_patch e (pt_id pt) pt = bind (utc_now e) (\<lambda>now.
        rbind (lift_io EE_Storage (save_patch e (approved_at pt now))) (\<lambda>u. rok (approved_at pt now)))"
      using v by (simp add: approve_patch_def approved_at_def Let_def)
    show ?thesis
      unfolding a rbind_clock rbind_assoc rbind_rok ids
      by (rule utc_now_succeeds, rule rbind_lift [OF save], rule miss) (rule refl)
  qed
  show ?thesis
    unfolding apply_patch_in_storage_def
    by (rule rbind_lift [OF open_quiet [where g = g]], rule j, rule rbind_lift [OF load], rule triple_pure) (simp only: rest)
qed

text \<open>
  C39: A patch can be left approved for good. When the plan version a pending patch targets cannot be
  loaded, applying it fails, but only after its approval has been persisted and without the
  rollback the code has for a failed application: the stored patch stays approved, and rejecting it
  is refused from then on.
\<close>

theorem failed_lookup_leaves_patch_approved:
  assumes "reviewable e (published d) pt" and "calm e q d"
    and "published d (version_path (pt_plan_id pt) (pt_plan_version pt)) = None"
  shows "\<exists>d' err now. apply_patch_in_storage e (rok catalog) (pt_id pt) d = (d', Done (Inl (EE_Storage err))) \<and>
    published d' = with_patch e (approved_at pt now) (published d) \<and>
    (\<exists>d'' m. reject_patch_in_storage e (pt_id pt) reason d' = (d'', Done (Inl (EE_Message m))) \<and> published d'' = published d')"
proof -
  note v = assms(1) [unfolded reviewable_def]
  from approve_then_missing [OF assms(1,3), of q catalog] assms(2)
  obtain d' err n where d': "apply_patch_in_storage e (rok catalog) (pt_id pt) d = (d', Done (Inl (EE_Storage err)))"
      "at e q (with_patch e (approved_at pt (se_clock e n)) (published d)) d'"
    unfolding succeeds_iff by blast
  let ?now = "se_clock e n"
  have "succeeds (at e q (with_patch e (approved_at pt ?now) (published d))) (reject_patch_in_storage e (pt_id pt) reason)
      (\<lambda>r d''. (\<exists>m. r = Inl (EE_Message m)) \<and> at e q (with_patch e (approved_at pt ?now) (published d)) d'')"
    by (rule reject_settled [where x = "approved_at pt ?now"])
      (use v in \<open>auto simp: approved_at_def TRANSACTIONS_DIR_def record_path_def patch_codec_def\<close>)
  then obtain d'' m where "reject_patch_in_storage e (pt_id pt) reason d' = (d'', Done (Inl (EE_Message m)))"
      "published d'' = published d'"
    using d'(2) unfolding succeeds_iff by metis
  with d' show ?thesis by blast
qed

section \<open>A store with a pending patch and no plan\<close>

definition review_store :: store_env where
  "review_store = working_store\<lparr>se_clock := \<lambda>n. 0, se_parse := \<lambda>s. if s = ''pending'' then Some (patch_doc demo_wire rename_patch)
     else if s = ''approved'' then Some (patch_doc demo_wire (approved_at rename_patch 0)) else None\<rparr>"

definition review_disk :: disk where
  "review_disk = \<lparr>dk_files = [([''patches'', ''patch.json''], ''pending'')], dk_dirs = STORE_DIRS, dk_calls = 0\<rparr>"

lemma review_calm: "calm review_store demo_plan review_disk"
proof -
  have "free_names review_store dir review_disk = free_names working_store dir review_disk" for dir
    by (simp add: free_names_def review_store_def temp_path_def)
  moreover have "free_names working_store dir review_disk" for dir
    by (rule fresh_char) code_simp
  ultimately show ?thesis
    using demo_faults(4) by (simp add: calm_def) (simp add: review_store_def undisturbed_def)
qed

lemma review_texts: "toy_text (patch_doc demo_wire rename_patch) = ''pending''"
    "toy_text (patch_doc demo_wire (approved_at rename_patch 0)) = ''approved''"
  by code_simp+

lemma review_files: "published review_disk = [[''patches'', ''patch.json''] \<mapsto> ''pending'']"
proof -
  have "json_path [''patches'', ''patch.json'']" by code_simp
  then show ?thesis by (auto simp: published_def get_file_def review_disk_def fun_eq_iff)
qed

lemma review_ready: "reviewable review_store (published review_disk) rename_patch"
proof -
  have "wf_operation demo_wire (pt_operation rename_patch)" by code_simp
  then have reads: "cd_read (patch_codec review_store) (patch_text review_store x) = Inr x" if "x = rename_patch \<or> x = approved_at rename_patch 0" for x
    using that demo_times
    by (intro decode_patch) (auto simp: approved_at_def review_store_def demo_store_def reads_back_def review_texts [unfolded approved_at_def])
  have "pt_id rename_patch = ''patch''" "pt_plan_id rename_patch = ''p''" "pt_status rename_patch = Pending"
    by code_simp+
  then show ?thesis
    using reads [of rename_patch] reads [of "approved_at rename_patch 0"]
    by (auto simp: reviewable_def review_files demo_paths valid_id_def TRANSACTIONS_DIR_def patch_text_def
        review_store_def demo_store_def review_texts)
qed

lemma failed_lookup_leaves_patch_approved_witness:
  "\<exists>d' err now. apply_patch_in_storage review_store (rok []) ''patch'' review_disk = (d', Done (Inl (EE_Storage err))) \<and>
    published d' [''patches'', ''patch.json''] = Some (patch_text review_store (approved_at rename_patch now))"
proof -
  have i: "pt_id rename_patch = ''patch''" by code_simp
  have "published review_disk (version_path (pt_plan_id rename_patch) (pt_plan_version rename_patch)) = None"
    by (simp add: review_files) code_simp
  from failed_lookup_leaves_patch_approved [OF review_ready review_calm this, of "[]" None]
  obtain d' err now where "apply_patch_in_storage review_store (rok []) (pt_id rename_patch) review_disk = (d', Done (Inl (EE_Storage err)))"
    "published d' = with_patch review_store (approved_at rename_patch now) (published review_disk)" by blast
  moreover have "pt_id (approved_at rename_patch now) = ''patch''" by (simp add: approved_at_def i)
  ultimately show ?thesis using i demo_paths(4) [of review_store] by fastforce
qed

end
