(* ===== verification/Interleaving.thy ===== *)
theory Interleaving
  imports Main
begin

text \<open>
  Systems of processes that share a resource.  An action is one atomic step of one process or of
  the environment; \<open>act a s\<close> is the state after it, or \<open>None\<close> when it is not possible.  A run is
  any sequence of possible actions, and an invariant is shown once for the start states and
  once for a step.
\<close>

fun run_actions :: "('a \<Rightarrow> 's \<Rightarrow> 's option) \<Rightarrow> 'a list \<Rightarrow> 's \<Rightarrow> 's option" where
  "run_actions act [] s = Some s"
| "run_actions act (a # as) s = Option.bind (act a s) (run_actions act as)"

text \<open>The states reachable by actions that the environment allows.\<close>

inductive reach :: "('a \<Rightarrow> 's \<Rightarrow> 's option) \<Rightarrow> ('s \<Rightarrow> 'a \<Rightarrow> bool) \<Rightarrow> ('s \<Rightarrow> bool) \<Rightarrow> 's \<Rightarrow> bool"
  for act allowed start where
  reach_start: "start s \<Longrightarrow> reach act allowed start s"
| reach_step: "reach act allowed start s \<Longrightarrow> allowed s a \<Longrightarrow> act a s = Some t \<Longrightarrow> reach act allowed start t"

lemma reach_run:
  assumes "run_actions act as s = Some t" and "reach act allowed start s" and "\<And>s a. a \<in> set as \<Longrightarrow> allowed s a"
  shows "reach act allowed start t"
  using assms
proof (induction as arbitrary: s)
  case (Cons a as)
  then obtain u where "act a s = Some u" "run_actions act as u = Some t" by (auto simp: bind_eq_Some_conv)
  with Cons show ?case by (metis list.set_intros reach_step)
qed simp

locale step_invariant =
  fixes act :: "'a \<Rightarrow> 's \<Rightarrow> 's option" and allowed :: "'s \<Rightarrow> 'a \<Rightarrow> bool"
    and start :: "'s \<Rightarrow> bool" and inv :: "'s \<Rightarrow> bool"
  assumes holds_at_start: "start s \<Longrightarrow> inv s"
    and kept_by_step: "inv s \<Longrightarrow> allowed s a \<Longrightarrow> act a s = Some t \<Longrightarrow> inv t"
begin

lemma always: "reach act allowed start s \<Longrightarrow> inv s"
  by (induction rule: reach.induct) (auto intro: holds_at_start kept_by_step)

lemma along_run: "run_actions act as s = Some t \<Longrightarrow> inv s \<Longrightarrow> (\<And>s a. a \<in> set as \<Longrightarrow> allowed s a) \<Longrightarrow> inv t"
proof (induction as arbitrary: s)
  case (Cons a as)
  then obtain u where "act a s = Some u" "run_actions act as u = Some t" by (auto simp: bind_eq_Some_conv)
  with Cons show ?case by (metis list.set_intros kept_by_step)
qed simp

end

end
