(* ===== verification/SchedulerLock.thy ===== *)
theory SchedulerLock
  imports Interleaving
begin

text \<open>
  \<^verbatim>\<open>app/scheduler_lock.rs\<close>: the lock file by which at most one process is to run the cron
  scheduler.  A process claims the file with \<^verbatim>\<open>create_new\<close>, keeps its heartbeat fresh through its
  own file handle, and moves a stale file out of the way before it tries again.

  The model has any number of processes and interleaves their file operations.  A file is an inode:
  the lock path names one inode or none, and a process writes through the handle of the inode it has
  created, whatever the path names by then.  Every claim draws a fresh token; it is represented by the
  number of the inode.  A killed process stands for a crash and for any I/O error that makes it stop.
\<close>

definition LOCK_LEASE :: nat where
  "LOCK_LEASE = 30000"

definition ACQUIRE_ATTEMPTS :: nat where
  "ACQUIRE_ATTEMPTS = 8"

record lock_record =
  lr_token :: nat
  lr_pid :: nat
  lr_heartbeat_ms :: nat

record lock_inode =
  ln_record :: "lock_record option"
  ln_modified :: nat

text \<open>
  Where a process is: in the loop of \<^verbatim>\<open>acquire_with_timing\<close> (about to create, to read the record,
  to look at the modification time, to rename), between the creation of its file and its first record,
  owner, owner in the middle of a heartbeat (the file is truncated), or dropping the lock.
\<close>

datatype phase =
    Creating nat
  | Created nat
  | ReadingRecord nat
  | ReadingTime nat
  | Quarantining nat
  | Owning nat
  | Beating nat
  | Removing nat
  | HeldBy "nat option"
  | Exhausted
  | Released
  | Killed

record lock_system =
  ls_path :: "nat option"
  ls_inodes :: "nat \<Rightarrow> lock_inode"
  ls_next :: nat
  ls_now :: nat
  ls_phase :: "nat \<Rightarrow> phase"

datatype lock_action = Advance nat | Heartbeat nat | DropLock nat | Kill nat | Tick nat

abbreviation set_phase :: "nat \<Rightarrow> phase \<Rightarrow> lock_system \<Rightarrow> lock_system" where
  "set_phase p x s \<equiv> s\<lparr>ls_phase := (ls_phase s)(p := x)\<rparr>"

definition write_inode :: "nat \<Rightarrow> lock_record option \<Rightarrow> lock_system \<Rightarrow> lock_system" where
  "write_inode i r s = s\<lparr>ls_inodes := (ls_inodes s)(i := \<lparr>ln_record = r, ln_modified = ls_now s\<rparr>)\<rparr>"

definition write_record :: "nat \<Rightarrow> nat \<Rightarrow> lock_system \<Rightarrow> lock_system" where
  "write_record p i s = write_inode i (Some \<lparr>lr_token = i, lr_pid = p, lr_heartbeat_ms = ls_now s\<rparr>) s"

text \<open>\<^verbatim>\<open>read_record\<close>: a missing, empty or unreadable file gives no record.\<close>

definition read_record :: "lock_system \<Rightarrow> lock_record option" where
  "read_record s = (case ls_path s of None \<Rightarrow> None | Some i \<Rightarrow> ln_record (ls_inodes s i))"

definition record_is_fresh :: "nat \<Rightarrow> nat \<Rightarrow> lock_record \<Rightarrow> bool" where
  "record_is_fresh lease now r \<longleftrightarrow> now - lr_heartbeat_ms r \<le> lease"

definition file_is_fresh :: "nat \<Rightarrow> lock_system \<Rightarrow> bool" where
  "file_is_fresh lease s = (case ls_path s of None \<Rightarrow> False
     | Some i \<Rightarrow> ln_modified (ls_inodes s i) \<le> ls_now s \<and> ls_now s - ln_modified (ls_inodes s i) \<le> lease)"

definition create_lock :: "nat \<Rightarrow> lock_system \<Rightarrow> lock_system" where
  "create_lock p s = set_phase p (Created (ls_next s)) (write_inode (ls_next s) None
     (s\<lparr>ls_path := Some (ls_next s), ls_next := ls_next s + 1\<rparr>))"

text \<open>One file operation of a process that acquires, beats or drops.\<close>

fun advance :: "nat \<Rightarrow> nat \<Rightarrow> phase \<Rightarrow> lock_system \<Rightarrow> lock_system option" where
  "advance lease p (Creating 0) s = Some (set_phase p Exhausted s)"
| "advance lease p (Creating (Suc n)) s =
     Some (if ls_path s = None then create_lock p s else set_phase p (ReadingRecord n) s)"
| "advance lease p (Created i) s = Some (set_phase p (Owning i) (write_record p i s))"
| "advance lease p (ReadingRecord n) s = Some (set_phase p (case read_record s of
       None \<Rightarrow> ReadingTime n
     | Some r \<Rightarrow> if record_is_fresh lease (ls_now s) r then HeldBy (Some (lr_pid r)) else Quarantining n) s)"
| "advance lease p (ReadingTime n) s =
     Some (set_phase p (if file_is_fresh lease s then HeldBy None else Quarantining n) s)"
| "advance lease p (Quarantining n) s = Some (set_phase p (Creating n) (s\<lparr>ls_path := None\<rparr>))"
| "advance lease p (Beating i) s = Some (set_phase p (Owning i) (write_record p i s))"
| "advance lease p (Removing i) s = Some (set_phase p Released (s\<lparr>ls_path := None\<rparr>))"
| "advance lease p x s = None"

text \<open>
  A heartbeat first truncates the file; dropping the lock reads the record at the path, and removes the
  file only if the token is its own.
\<close>

fun lock_step :: "nat \<Rightarrow> lock_action \<Rightarrow> lock_system \<Rightarrow> lock_system option" where
  "lock_step lease (Advance p) s = advance lease p (ls_phase s p) s"
| "lock_step lease (Heartbeat p) s = (case ls_phase s p of
       Owning i \<Rightarrow> Some (set_phase p (Beating i) (write_inode i None s)) | _ \<Rightarrow> None)"
| "lock_step lease (DropLock p) s = (case ls_phase s p of
       Owning i \<Rightarrow> Some (set_phase p (case read_record s of
           Some r \<Rightarrow> if lr_token r = i then Removing i else Released | None \<Rightarrow> Released) s) | _ \<Rightarrow> None)"
| "lock_step lease (Kill p) s = Some (set_phase p Killed s)"
| "lock_step lease (Tick d) s = Some (s\<lparr>ls_now := ls_now s + d\<rparr>)"

text \<open>No lock file, and every process is about to acquire.\<close>

definition starting :: "lock_system \<Rightarrow> bool" where
  "starting s \<longleftrightarrow> ls_path s = None \<and> (\<forall>p. ls_phase s p = Creating ACQUIRE_ATTEMPTS)"

definition owner :: "lock_system \<Rightarrow> nat \<Rightarrow> bool" where
  "owner s p \<longleftrightarrow> (case ls_phase s p of Owning i \<Rightarrow> True | Beating i \<Rightarrow> True | _ \<Rightarrow> False)"

section \<open>Concurrent starters\<close>

text \<open>The lock file, where there is one, is within its lease, and its record is as old as the file.\<close>

definition within_lease :: "nat \<Rightarrow> lock_system \<Rightarrow> bool" where
  "within_lease lease s \<longleftrightarrow> (\<forall>i. ls_path s = Some i \<longrightarrow> ls_now s - ln_modified (ls_inodes s i) \<le> lease)"

text \<open>Nobody drops the lock, and the lease of the lock file does not run out.\<close>

definition start_up :: "nat \<Rightarrow> lock_system \<Rightarrow> lock_action \<Rightarrow> bool" where
  "start_up lease s a = (case a of
     DropLock p \<Rightarrow> False | Tick d \<Rightarrow> within_lease lease (s\<lparr>ls_now := ls_now s + d\<rparr>) | _ \<Rightarrow> True)"

definition claims :: "phase \<Rightarrow> bool" where
  "claims x = (case x of Created i \<Rightarrow> True | Owning i \<Rightarrow> True | Beating i \<Rightarrow> True | _ \<Rightarrow> False)"

fun sound_phase :: "nat option \<Rightarrow> phase \<Rightarrow> bool" where
  "sound_phase path (Created i) \<longleftrightarrow> path = Some i"
| "sound_phase path (Owning i) \<longleftrightarrow> path = Some i"
| "sound_phase path (Beating i) \<longleftrightarrow> path = Some i"
| "sound_phase path (ReadingRecord n) \<longleftrightarrow> path \<noteq> None"
| "sound_phase path (ReadingTime n) \<longleftrightarrow> path \<noteq> None"
| "sound_phase path (Quarantining n) \<longleftrightarrow> False"
| "sound_phase path (Removing n) \<longleftrightarrow> False"
| "sound_phase path x \<longleftrightarrow> True"

definition sound_file :: "nat \<Rightarrow> nat \<Rightarrow> lock_inode \<Rightarrow> bool" where
  "sound_file lease now f \<longleftrightarrow> ln_modified f \<le> now \<and> now - ln_modified f \<le> lease \<and>
     (\<forall>r. ln_record f = Some r \<longrightarrow> lr_heartbeat_ms r = ln_modified f)"

definition claimed_once :: "nat \<Rightarrow> lock_system \<Rightarrow> bool" where
  "claimed_once lease s \<longleftrightarrow> (\<forall>p. sound_phase (ls_path s) (ls_phase s p)) \<and>
     (\<forall>p q. claims (ls_phase s p) \<longrightarrow> claims (ls_phase s q) \<longrightarrow> p = q) \<and>
     (\<forall>i. ls_path s = Some i \<longrightarrow> sound_file lease (ls_now s) (ls_inodes s i))"

lemma claimed_once_phase:
  assumes "claimed_once lease s" and "sound_phase (ls_path s) x" and "claims x \<Longrightarrow> claims (ls_phase s p)"
  shows "claimed_once lease (set_phase p x s)"
  using assms by (auto simp: claimed_once_def)

lemma claimed_once_write:
  "claimed_once lease s \<Longrightarrow> (\<And>x. r = Some x \<Longrightarrow> lr_heartbeat_ms x = ls_now s) \<Longrightarrow> claimed_once lease (write_inode i r s)"
  by (auto simp: claimed_once_def write_inode_def sound_file_def)

lemma write_inode_frame [simp]: "ls_path (write_inode i r s) = ls_path s" "ls_phase (write_inode i r s) = ls_phase s"
  by (simp_all add: write_inode_def)

lemma claimed_once_create:
  assumes c: "claimed_once lease s" and none: "ls_path s = None"
  shows "claimed_once lease (create_lock p s)"
proof -
  have none': "\<not> claims x \<and> sound_phase (Some i) x" if "sound_phase None x" for x i
    using that by (cases x) (simp_all add: claims_def)
  have "\<not> claims (ls_phase s q) \<and> sound_phase (Some i) (ls_phase s q)" for q i
    using none' c none by (simp add: claimed_once_def)
  then show ?thesis
    by (simp add: claimed_once_def create_lock_def write_inode_def sound_file_def)
qed

lemma claimed_once_fresh: "claimed_once lease s \<Longrightarrow> read_record s = Some r \<Longrightarrow> record_is_fresh lease (ls_now s) r"
  by (auto simp: claimed_once_def read_record_def record_is_fresh_def sound_file_def split: option.splits)

lemma claimed_once_file: "claimed_once lease s \<Longrightarrow> ls_path s \<noteq> None \<Longrightarrow> file_is_fresh lease s"
  by (auto simp: claimed_once_def file_is_fresh_def sound_file_def)

lemma claimed_once_starting: "starting s \<Longrightarrow> claimed_once lease s"
  by (simp add: claimed_once_def starting_def claims_def)

lemma claimed_once_advance:
  assumes c: "claimed_once lease s" and t: "advance lease p (ls_phase s p) s = Some t"
  shows "claimed_once lease t"
proof -
  have sound: "sound_phase (ls_path s) (ls_phase s p)" using c by (simp add: claimed_once_def)
  have written: "claimed_once lease (set_phase p (Owning i) (write_record p i s))"
    if "ls_phase s p = Created i \<or> ls_phase s p = Beating i" for i
    unfolding write_record_def
    by (rule claimed_once_phase [OF claimed_once_write [OF c]]) (use that sound in \<open>auto simp: write_inode_def claims_def\<close>)
  show ?thesis
  proof (cases "ls_phase s p")
    case (Creating n)
    with t c show ?thesis
      by (cases n) (auto simp: claims_def intro: claimed_once_phase claimed_once_create split: if_splits)
  next
    case (ReadingRecord n)
    with t sound claimed_once_fresh [OF c] show ?thesis
      by (auto simp: claims_def intro!: claimed_once_phase [OF c] split: option.splits)
  next
    case (ReadingTime n)
    with t sound claimed_once_file [OF c] show ?thesis
      by (auto simp: claims_def intro!: claimed_once_phase [OF c])
  qed (use t sound written in auto)
qed

lemma claimed_once_step:
  assumes c: "claimed_once lease s" and "start_up lease s a" and t: "lock_step lease a s = Some t"
  shows "claimed_once lease t"
proof (cases a)
  case (Advance p)
  with t show ?thesis by (auto intro: claimed_once_advance [OF c])
next
  case (Heartbeat p)
  with t obtain i where i: "ls_phase s p = Owning i" "t = set_phase p (Beating i) (write_inode i None s)"
    by (auto split: phase.splits)
  moreover have "ls_path s = Some i" using c i(1) unfolding claimed_once_def by (metis sound_phase.simps(2))
  ultimately show ?thesis
    using claimed_once_phase [OF claimed_once_write [OF c, of None i], of "Beating i" p] by (simp add: claims_def)
next
  case (Kill p)
  with t show ?thesis by (auto simp: claims_def intro!: claimed_once_phase [OF c])
next
  case (Tick d)
  with t c assms(2) show ?thesis
    by (auto simp: claimed_once_def start_up_def within_lease_def sound_file_def)
qed (use assms in \<open>simp add: start_up_def\<close>)

interpretation starters: step_invariant "lock_step lease" "start_up lease" starting "claimed_once lease"
  by unfold_locales (rule claimed_once_starting, assumption, rule claimed_once_step)

text \<open>
  C22: However many processes try to acquire the scheduler lock at once, in whatever order their file operations
  interleave and wherever some of them die, at most one gets it, as long as no lease runs out and
  nobody drops the lock; no process moves the lock file of another one away.
\<close>

theorem concurrent_starters_exclusive:
  assumes "reach (lock_step lease) (start_up lease) starting s"
  shows "(owner s p \<longrightarrow> owner s q \<longrightarrow> p = q) \<and> ls_phase s p \<noteq> Quarantining n"
proof -
  have c: "claimed_once lease s" using assms by (rule starters.always)
  have "owner s r \<Longrightarrow> claims (ls_phase s r)" for r by (auto simp: owner_def claims_def split: phase.splits)
  moreover have "sound_phase (ls_path s) (ls_phase s p)" using c by (simp add: claimed_once_def)
  ultimately show ?thesis using c unfolding claimed_once_def by (metis sound_phase.simps(6))
qed

definition idle_system :: lock_system where
  "idle_system = \<lparr>ls_path = None, ls_inodes = \<lambda>i. \<lparr>ln_record = None, ln_modified = 0\<rparr>, ls_next = 0, ls_now = 0,
     ls_phase = \<lambda>p. Creating ACQUIRE_ATTEMPTS\<rparr>"

lemma idle_starting: "starting idle_system"
  by (simp add: starting_def idle_system_def)

lemma attempts: "ACQUIRE_ATTEMPTS = Suc (Suc (Suc (Suc (Suc (Suc (Suc (Suc 0)))))))"
  by (simp add: ACQUIRE_ATTEMPTS_def)

lemmas run_simps = idle_system_def create_lock_def write_record_def write_inode_def read_record_def record_is_fresh_def
  file_is_fresh_def within_lease_def owner_def attempts LOCK_LEASE_def

lemma concurrent_starters_exclusive_witness:
  "\<exists>s. run_actions (lock_step LOCK_LEASE) [Advance 0, Advance 1, Advance 1, Advance 0, Tick 30000] idle_system = Some s \<and>
     owner s 0 \<and> \<not> owner s 1"
proof -
  let ?as = "[Advance 0, Advance 1, Advance 1, Advance 0]"
  obtain s where s: "run_actions (lock_step LOCK_LEASE) ?as idle_system = Some s" "owner s 0"
      "within_lease LOCK_LEASE (s\<lparr>ls_now := ls_now s + 30000\<rparr>)"
    by (simp add: run_simps)
  have "reach (lock_step LOCK_LEASE) (start_up LOCK_LEASE) starting s"
    by (rule reach_run [OF s(1)], rule reach_start, rule idle_starting) (auto simp: start_up_def)
  then have r: "reach (lock_step LOCK_LEASE) (start_up LOCK_LEASE) starting (s\<lparr>ls_now := ls_now s + 30000\<rparr>)"
    by (rule reach_step [where a = "Tick 30000"]) (use s(3) in \<open>simp_all add: start_up_def\<close>)
  have "owner (s\<lparr>ls_now := ls_now s + 30000\<rparr>) 0" using s(2) by (simp add: owner_def)
  moreover from this have "\<not> owner (s\<lparr>ls_now := ls_now s + 30000\<rparr>) 1"
    using concurrent_starters_exclusive [OF r, of 0 1] by auto
  ultimately show ?thesis using s(1) by (auto simp: bind_eq_Some_conv)
qed

section \<open>What moving a stale file away breaks\<close>


text \<open>
  The same happens when two processes find the file of a crashed owner: each has judged the old record
  stale, and the second one renames away the file the first one has created after its own rename.
\<close>

lemma stale_lock_two_owners:
  "\<exists>s. run_actions (lock_step LOCK_LEASE) [Advance 0, Advance 0, Kill 0, Tick 30001, Advance 1, Advance 1, Advance 2, Advance 2,
      Advance 1, Advance 1, Advance 1, Advance 2, Advance 2, Advance 2] idle_system = Some s \<and> owner s 1 \<and> owner s 2"
  by (simp add: run_simps)

end
