(* ===== verification/UpdateGate.thy ===== *)
theory UpdateGate
  imports Prelude Interleaving
begin

text \<open>
  \<^verbatim>\<open>app/update_gate.rs\<close>: work and update installations of all processes keep out of each other's
  way with two advisory file locks and a marker file.  Work is admitted under a shared lock; an
  installation first announces its intent exclusively, so that no new work starts, and then waits
  for an exclusive lock on the work file.  The marker names an installer that outlives its process.

  The model interleaves the file operations of any number of tasks, each with its own file handles.
  The \<^verbatim>\<open>ADMISSION\<close> mutex, which keeps the threads of one process from overlapping in \<^verbatim>\<open>admit\<close> and
  \<^verbatim>\<open>begin\<close>, is left out: the model has those interleavings as well.
\<close>

record flock =
  fl_shared :: "nat list"
  fl_exclusive :: "nat option"

definition try_lock_shared :: "nat \<Rightarrow> flock \<Rightarrow> flock option" where
  "try_lock_shared t l = (if fl_exclusive l = None then Some (l\<lparr>fl_shared := t # fl_shared l\<rparr>) else None)"

definition try_lock_exclusive :: "nat \<Rightarrow> flock \<Rightarrow> flock option" where
  "try_lock_exclusive t l =
     (if fl_shared l = [] \<and> fl_exclusive l = None then Some (l\<lparr>fl_exclusive := Some t\<rparr>) else None)"

definition unlock :: "nat \<Rightarrow> flock \<Rightarrow> flock" where
  "unlock t l = \<lparr>fl_shared = removeAll t (fl_shared l),
     fl_exclusive = (if fl_exclusive l = Some t then None else fl_exclusive l)\<rparr>"

datatype intention = ToWork | ToInstall

text \<open>
  The points of \<^verbatim>\<open>admit\<close> and \<^verbatim>\<open>begin\<close> between two file operations, and the guards:
  \<open>Working\<close> is a \<^verbatim>\<open>WorkGuard\<close>, \<open>Pending\<close> a \<^verbatim>\<open>PendingInstall\<close>, \<open>Quiet\<close> one together with the file that
  \<^verbatim>\<open>quiescent\<close> returns, and \<open>Installing\<close> an \<^verbatim>\<open>InstallGuard\<close>.
\<close>

datatype gate_phase =
    Outside
  | CheckingHandoff intention
  | ClearingHandoff intention
  | HandoffChecked intention
  | IntentShared
  | WorkShared
  | Working
  | Pending
  | Quiet
  | Installing

record gate =
  ug_intent :: flock
  ug_work :: flock
  ug_marker :: "string option"
  ug_alive :: "nat \<Rightarrow> bool"
  ug_phase :: "nat \<Rightarrow> gate_phase"

datatype gate_action =
    Admit nat
  | BeginInstall nat
  | Proceed nat
  | Quiescent nat
  | Acquire nat
  | Release nat
  | WriteMarker nat string
  | ProcessEnds nat

definition at_phase :: "nat \<Rightarrow> gate_phase \<Rightarrow> gate \<Rightarrow> gate" where
  "at_phase t x g = g\<lparr>ug_phase := (ug_phase g)(t := x)\<rparr>"

text \<open>\<^verbatim>\<open>check_handoff\<close> on the content of the marker: refuse, go on, or remove the marker first.\<close>

datatype handoff = HandoffRefused | HandoffClear | HandoffLeftOver

definition check_handoff :: "(nat \<Rightarrow> bool) \<Rightarrow> string option \<Rightarrow> handoff" where
  "check_handoff process_alive marker = (case marker of
       None \<Rightarrow> HandoffClear
     | Some content \<Rightarrow> (case parse_uint (2 ^ 32) (trim content) of
           None \<Rightarrow> HandoffRefused
         | Some pid \<Rightarrow> if pid = 0 \<or> pid > 2147483647 then HandoffRefused
             else if process_alive pid then HandoffRefused else HandoffLeftOver))"

fun proceed :: "nat \<Rightarrow> gate_phase \<Rightarrow> gate \<Rightarrow> gate option" where
  "proceed t (CheckingHandoff x) g = Some (at_phase t (case check_handoff (ug_alive g) (ug_marker g) of
       HandoffRefused \<Rightarrow> Outside | HandoffClear \<Rightarrow> HandoffChecked x | HandoffLeftOver \<Rightarrow> ClearingHandoff x) g)"
| "proceed t (ClearingHandoff x) g = Some (case ug_marker g of
       None \<Rightarrow> at_phase t Outside g
     | Some content \<Rightarrow> at_phase t (HandoffChecked x) (g\<lparr>ug_marker := None\<rparr>))"
| "proceed t (HandoffChecked ToWork) g = Some (case try_lock_shared t (ug_intent g) of
       None \<Rightarrow> at_phase t Outside g
     | Some l \<Rightarrow> at_phase t IntentShared (g\<lparr>ug_intent := l\<rparr>))"
| "proceed t (HandoffChecked ToInstall) g = Some (case try_lock_exclusive t (ug_intent g) of
       None \<Rightarrow> at_phase t Outside g
     | Some l \<Rightarrow> at_phase t Pending (g\<lparr>ug_intent := l\<rparr>))"
| "proceed t IntentShared g = Some (case try_lock_shared t (ug_work g) of
       None \<Rightarrow> at_phase t Outside (g\<lparr>ug_intent := unlock t (ug_intent g)\<rparr>)
     | Some l \<Rightarrow> at_phase t WorkShared (g\<lparr>ug_work := l\<rparr>))"
| "proceed t WorkShared g = Some (at_phase t Working (g\<lparr>ug_intent := unlock t (ug_intent g)\<rparr>))"
| "proceed t x g = None"

text \<open>Dropping a guard; a process that dies drops all of its locks, wherever it is.\<close>

definition release :: "nat \<Rightarrow> gate \<Rightarrow> gate" where
  "release t g = at_phase t Outside (g\<lparr>ug_intent := unlock t (ug_intent g), ug_work := unlock t (ug_work g)\<rparr>)"

fun gate_step :: "gate_action \<Rightarrow> gate \<Rightarrow> gate option" where
  "gate_step (Admit t) g = (if ug_phase g t = Outside then Some (at_phase t (CheckingHandoff ToWork) g) else None)"
| "gate_step (BeginInstall t) g = (if ug_phase g t = Outside then Some (at_phase t (CheckingHandoff ToInstall) g) else None)"
| "gate_step (Proceed t) g = proceed t (ug_phase g t) g"
| "gate_step (Quiescent t) g = (if ug_phase g t \<noteq> Pending then None
     else case try_lock_exclusive t (ug_work g) of None \<Rightarrow> Some g
       | Some l \<Rightarrow> Some (at_phase t Quiet (g\<lparr>ug_work := l\<rparr>)))"
| "gate_step (Acquire t) g = (if ug_phase g t = Quiet then Some (at_phase t Installing g) else None)"
| "gate_step (Release t) g = Some (release t g)"
| "gate_step (WriteMarker t content) g =
     (if ug_phase g t = Installing \<and> ug_marker g = None then Some (g\<lparr>ug_marker := Some content\<rparr>) else None)"
| "gate_step (ProcessEnds pid) g = Some (g\<lparr>ug_alive := (ug_alive g)(pid := False)\<rparr>)"

definition gate_start :: "gate \<Rightarrow> bool" where
  "gate_start g \<longleftrightarrow> ug_intent g = \<lparr>fl_shared = [], fl_exclusive = None\<rparr> \<and>
     ug_work g = \<lparr>fl_shared = [], fl_exclusive = None\<rparr> \<and> (\<forall>t. ug_phase g t = Outside)"

section \<open>What the locks say about the tasks\<close>

text \<open>
  A lock agrees with the tasks when its shared holders are the tasks in the phases \<open>sh\<close>, its exclusive
  holder is the one task in the phases \<open>ex\<close>, and the two exclude each other.
\<close>

definition agrees :: "gate_phase set \<Rightarrow> gate_phase set \<Rightarrow> flock \<Rightarrow> (nat \<Rightarrow> gate_phase) \<Rightarrow> bool" where
  "agrees sh ex l ph \<longleftrightarrow> (\<forall>t. t \<in> set (fl_shared l) \<longleftrightarrow> ph t \<in> sh) \<and> (\<forall>t. fl_exclusive l = Some t \<longleftrightarrow> ph t \<in> ex) \<and>
     (fl_exclusive l = None \<or> fl_shared l = [])"

lemma agrees_move [simp]:
  assumes "x \<in> sh \<longleftrightarrow> ph t \<in> sh" and "x \<in> ex \<longleftrightarrow> ph t \<in> ex"
  shows "agrees sh ex l (ph(t := x)) = agrees sh ex l ph"
proof -
  have "(ph(t := x)) u \<in> sh \<longleftrightarrow> ph u \<in> sh" "(ph(t := x)) u \<in> ex \<longleftrightarrow> ph u \<in> ex" for u
    using assms by (cases "u = t"; simp)+
  then show ?thesis by (simp only: agrees_def)
qed

lemma agrees_shared: "agrees sh ex l ph \<Longrightarrow> try_lock_shared t l = Some l' \<Longrightarrow> x \<in> sh \<Longrightarrow> x \<notin> ex \<Longrightarrow> agrees sh ex l' (ph(t := x))"
  by (auto simp: agrees_def try_lock_shared_def split: if_splits)

lemma agrees_exclusive: "agrees sh ex l ph \<Longrightarrow> try_lock_exclusive t l = Some l' \<Longrightarrow> x \<in> ex \<Longrightarrow> x \<notin> sh \<Longrightarrow> agrees sh ex l' (ph(t := x))"
  by (auto simp: agrees_def try_lock_exclusive_def split: if_splits)

lemma agrees_unlock:
  assumes "agrees sh ex l ph" and "x \<notin> sh" and "x \<notin> ex"
  shows "agrees sh ex (unlock t l) (ph(t := x))"
proof -
  have a: "u \<in> set (fl_shared l) \<longleftrightarrow> ph u \<in> sh" "ph u \<in> ex \<longleftrightarrow> fl_exclusive l = Some u" "fl_exclusive l = None \<or> fl_shared l = []" for u
    using assms(1) by (simp_all add: agrees_def)
  show ?thesis using a(3) assms(2,3) unfolding agrees_def by (auto simp: unlock_def a(1,2))
qed

lemmas agrees_rules = agrees_shared agrees_exclusive agrees_unlock

definition gate_ok :: "gate \<Rightarrow> bool" where
  "gate_ok g \<longleftrightarrow> agrees {IntentShared, WorkShared} {Pending, Quiet, Installing} (ug_intent g) (ug_phase g) \<and>
     agrees {WorkShared, Working} {Quiet, Installing} (ug_work g) (ug_phase g)"

lemma gate_ok_start: "gate_start g \<Longrightarrow> gate_ok g"
  by (simp add: gate_start_def gate_ok_def agrees_def)

lemma gate_ok_proceed:
  assumes "gate_ok g" and "proceed t (ug_phase g t) g = Some h"
  shows "gate_ok h"
proof (cases "ug_phase g t")
  case (HandoffChecked x)
  with assms show ?thesis
    by (cases x) (auto simp: gate_ok_def at_phase_def intro: agrees_rules split: option.splits)
qed (use assms in \<open>auto simp: gate_ok_def at_phase_def intro: agrees_rules split: handoff.splits option.splits\<close>)

lemma gate_ok_step:
  assumes "gate_ok g" and "gate_step a g = Some h"
  shows "gate_ok h"
proof (cases a)
  case (Proceed t)
  with assms show ?thesis by (auto intro: gate_ok_proceed)
qed (use assms in \<open>auto simp: gate_ok_def at_phase_def release_def intro: agrees_rules split: option.splits if_splits\<close>)

interpretation gates: step_invariant gate_step "\<lambda>g a. True" gate_start gate_ok
  by unfold_locales (rule gate_ok_start, assumption, rule gate_ok_step)


text \<open>
  C23: While an update is being installed, no other task works, is being admitted, or holds or prepares an installation
  of its own, whatever the interleaving and whichever processes die. Once an installation is
  pending no task starts to work any more, so that the work in progress can only finish; and when
  none is left the installation gets its exclusive lock.
\<close>

theorem installation_excludes_work:
  assumes "reach gate_step (\<lambda>g a. True) gate_start g"
  shows "(ug_phase g t = Installing \<longrightarrow> u \<noteq> t \<longrightarrow> ug_phase g u \<notin> {IntentShared, WorkShared, Working, Pending, Quiet, Installing}) \<and>
    (ug_phase g t \<in> {Pending, Quiet, Installing} \<longrightarrow> gate_step a g = Some h \<longrightarrow> ug_phase h u = Working \<longrightarrow> ug_phase g u = Working) \<and>
    (ug_phase g t = Pending \<longrightarrow> (\<forall>v. ug_phase g v \<noteq> Working) \<longrightarrow>
      (\<exists>h. gate_step (Quiescent t) g = Some h \<and> ug_phase h t = Quiet))"
proof -
  have ok: "gate_ok g" using assms by (rule gates.always)
  let ?I = "ug_intent g" and ?W = "ug_work g"
  have I: "ug_phase g v \<in> {Pending, Quiet, Installing} \<longleftrightarrow> fl_exclusive ?I = Some v"
      "ug_phase g v \<in> {IntentShared, WorkShared} \<longleftrightarrow> v \<in> set (fl_shared ?I)"
      "fl_exclusive ?I = None \<or> fl_shared ?I = []" for v
    using ok by (simp_all add: gate_ok_def agrees_def)
  have W: "ug_phase g v \<in> {Quiet, Installing} \<longleftrightarrow> fl_exclusive ?W = Some v"
      "ug_phase g v \<in> {WorkShared, Working} \<longleftrightarrow> v \<in> set (fl_shared ?W)"
      "fl_exclusive ?W = None \<or> fl_shared ?W = []" for v
    using ok by (simp_all add: gate_ok_def agrees_def)
  have excl: "ug_phase g u \<notin> {IntentShared, WorkShared}" "u \<noteq> t \<Longrightarrow> ug_phase g u \<notin> {Pending, Quiet, Installing}"
    if "ug_phase g t \<in> {Pending, Quiet, Installing}" for u
    using that I by (metis (no_types, lifting) empty_iff list.set(1) option.distinct(1), metis (no_types, lifting) option.inject)
  have 1: "ug_phase g u \<notin> {IntentShared, WorkShared, Working, Pending, Quiet, Installing}" if "ug_phase g t = Installing" "u \<noteq> t"
  proof -
    have "fl_shared ?W = []" using W(1) [of t] W(3) that(1) by auto
    then have "ug_phase g u \<noteq> Working" using W(2) [of u] by auto
    with excl [of u] that show ?thesis by auto
  qed
  have 2: "ug_phase g u = Working" if "ug_phase g t \<in> {Pending, Quiet, Installing}" "gate_step a g = Some h" "ug_phase h u = Working"
  proof (rule ccontr)
    assume n: "ug_phase g u \<noteq> Working"
    then have "ug_phase g u = WorkShared"
      using that(2,3)
      by (cases a; cases "ug_phase g u")
        (auto simp: at_phase_def release_def elim!: proceed.elims split: if_splits option.splits handoff.splits)
    with excl(1) [OF that(1), of u] show False by simp
  qed
  have 3: "\<exists>h. gate_step (Quiescent t) g = Some h \<and> ug_phase h t = Quiet" if "ug_phase g t = Pending" "\<forall>v. ug_phase g v \<noteq> Working"
  proof -
    have "v \<notin> set (fl_shared ?W)" for v using W(2) [of v] excl(1) [of v] that by auto
    then have "fl_shared ?W = []" by (cases "fl_shared ?W") auto
    moreover have "fl_exclusive ?W \<noteq> Some v" for v
      using W(1) [of v] excl(2) [of v] that(1) by (cases "v = t") auto
    ultimately show ?thesis using that(1) by (cases "fl_exclusive ?W") (auto simp: try_lock_exclusive_def at_phase_def)
  qed
  show ?thesis using 1 2 3 by blast
qed

definition open_gate :: gate where
  "open_gate = \<lparr>ug_intent = \<lparr>fl_shared = [], fl_exclusive = None\<rparr>, ug_work = \<lparr>fl_shared = [], fl_exclusive = None\<rparr>,
     ug_marker = None, ug_alive = \<lambda>pid. pid = 9, ug_phase = \<lambda>t. Outside\<rparr>"

lemma open_gate_start: "gate_start open_gate"
  by (simp add: gate_start_def open_gate_def)

lemmas gate_run_simps = open_gate_def at_phase_def release_def check_handoff_def try_lock_shared_def try_lock_exclusive_def
  unlock_def

text \<open>An installation that waits for work, and the admission it refuses.\<close>

lemma installation_excludes_work_witness:
  "\<exists>g. run_actions gate_step [Admit 0, Proceed 0, Proceed 0, Proceed 0, Proceed 0, Admit 1, Proceed 1, Release 0,
      BeginInstall 2, Proceed 2, Proceed 2, Proceed 1, Quiescent 2, Acquire 2] open_gate = Some g \<and>
    ug_phase g 2 = Installing \<and> ug_phase g 1 \<noteq> Working"
proof -
  let ?as = "[Admit 0, Proceed 0, Proceed 0, Proceed 0, Proceed 0, Admit 1, Proceed 1, Release 0,
      BeginInstall 2, Proceed 2, Proceed 2, Proceed 1, Quiescent 2, Acquire 2]"
  obtain g where g: "run_actions gate_step ?as open_gate = Some g" "ug_phase g 2 = Installing"
    by (simp add: gate_run_simps)
  have "reach gate_step (\<lambda>g a. True) gate_start g"
    by (rule reach_run [OF g(1)], rule reach_start, rule open_gate_start) simp
  from installation_excludes_work [OF this, of 2 1] g show ?thesis by auto
qed

section \<open>The marker is checked and removed in two steps\<close>

text \<open>
  A task that has found the marker of a dead installer removes whatever marker is there when it gets to
  it: here the one of the installer that task 1 has started in between (process 9, still alive), so
  that task 0 is admitted while that installer runs.  The two tasks are of different processes.
\<close>

lemma handoff_race:
  "\<exists>g. run_actions gate_step [Admit 0, Proceed 0, BeginInstall 1, Proceed 1, Proceed 1, Proceed 1, Quiescent 1, Acquire 1,
      WriteMarker 1 ''9'', Release 1, Proceed 0, Proceed 0, Proceed 0, Proceed 0] (open_gate\<lparr>ug_marker := Some ''8''\<rparr>) = Some g \<and>
    ug_phase g 0 = Working \<and> ug_alive g 9"
proof -
  have "nat_str 8 = ''8''" "nat_str 9 = ''9''" "trim ''8'' = ''8''" "trim ''9'' = ''9''" by code_simp+
  then have "parse_uint 4294967296 (trim ''8'') = Some 8" "parse_uint 4294967296 (trim ''9'') = Some 9"
    using parse_nat_str [of 8 4294967296] parse_nat_str [of 9 4294967296] by simp_all
  then show ?thesis by (simp add: gate_run_simps)
qed

end
