(* ===== verification/Scheduler.thy ===== *)
theory Scheduler
  imports Repair "HOL-Library.Product_Lexorder"
begin

text \<open>
  Schedules (\<^verbatim>\<open>app/schedule_store.rs\<close>) and the loop that claims due occurrences (the scheduler
  functions of \<^verbatim>\<open>app/engine.rs\<close>).

  The \<^verbatim>\<open>cron\<close> crate is a parameter: whether an expression parses, and its next occurrence after a
  time.  Running a claimed plan is the executor's business; here a claim ends when its run is reported
  finished.
\<close>

record cron_lib =
  cl_error :: "string \<Rightarrow> string option"
  cl_next :: "string \<Rightarrow> instant \<Rightarrow> instant option"

record schedule =
  sc_id :: string
  sc_plan_id :: string
  sc_cron :: string
  sc_enabled :: bool
  sc_inputs :: "json imap"
  sc_created_at :: instant
  sc_last_run :: "instant option"

datatype schedule_error =
    SSE_Read path string
  | SSE_Malformed path string
  | SSE_Write storage_error

definition SCHEDULES_PATH :: path where
  "SCHEDULES_PATH = [''schedules.json'']"

section \<open>Cron expressions\<close>

text \<open>\<^verbatim>\<open>split_whitespace().count()\<close>: the number of maximal runs of other characters.\<close>

function word_count :: "bool \<Rightarrow> string \<Rightarrow> nat" where
  "word_count inside s = (case s of [] \<Rightarrow> if inside then 1 else 0
     | c # cs \<Rightarrow> if ws_len s = 0 then word_count True cs
         else (if inside then 1 else 0) + word_count False (drop (ws_len s) s))"
  by pat_completeness auto
termination by (relation "measure (length \<circ> snd)") auto

declare word_count.simps [simp del]

definition normalize_cron :: "cron_lib \<Rightarrow> string \<Rightarrow> string + string" where
  "normalize_cron lib expr =
     (let fields = word_count False expr
      in if fields \<notin> {5, 6, 7} then
           Inl (fmt ''cron expression must have 5 fields (min hour day month weekday), 6 (leading seconds), or 7 (plus trailing year), got {}''
             [nat_str fields])
         else let normalized = (if fields = 5 then fmt ''0 {}'' [trim expr] else trim expr)
              in case cl_error lib normalized of
                   None \<Rightarrow> Inr normalized
                 | Some e \<Rightarrow> Inl (fmt ''invalid cron expression: {}'' [e]))"

definition next_occurrence :: "cron_lib \<Rightarrow> string \<Rightarrow> instant \<Rightarrow> instant option" where
  "next_occurrence lib cron after = (if cl_error lib cron = None then cl_next lib cron after else None)"

section \<open>The schedule file\<close>

definition schedule_doc :: "wire \<Rightarrow> schedule \<Rightarrow> json" where
  "schedule_doc w s = JObject [(''id'', JString (sc_id s)), (''plan_id'', JString (sc_plan_id s)),
     (''cron'', JString (sc_cron s)), (''enabled'', JBool (sc_enabled s)), (''inputs'', JObject (sc_inputs s)),
     (''created_at'', JString (wi_show_time w (sc_created_at s))),
     (''last_run'', opt_json (\<lambda>t. JString (wi_show_time w t)) (sc_last_run s))]"

definition schedule_of :: "wire \<Rightarrow> json \<Rightarrow> schedule option" where
  "schedule_of w v = Option.bind (struct_of [(''id'', False), (''plan_id'', False), (''cron'', False), (''enabled'', False),
       (''inputs'', True), (''created_at'', False), (''last_run'', False)] v) (\<lambda>kvs.
     Option.bind (req as_str kvs ''id'') (\<lambda>i.
     Option.bind (req as_str kvs ''plan_id'') (\<lambda>p.
     Option.bind (req as_str kvs ''cron'') (\<lambda>c.
     Option.bind (req as_bool kvs ''enabled'') (\<lambda>b.
     Option.bind (dflt [] (map_entries (Some \<circ> canon)) kvs ''inputs'') (\<lambda>m.
     Option.bind (req (time_of w) kvs ''created_at'') (\<lambda>t.
     Option.bind (opt (time_of w) kvs ''last_run'') (\<lambda>l.
     Some \<lparr>sc_id = i, sc_plan_id = p, sc_cron = c, sc_enabled = b, sc_inputs = m, sc_created_at = t, sc_last_run = l\<rparr>))))))))"

definition schedules_text :: "store_env \<Rightarrow> schedule list \<Rightarrow> string" where
  "schedules_text env ss = se_text env (JArray (map (schedule_doc (se_wire env)) ss))"

definition load_schedules :: "store_env \<Rightarrow> (schedule_error, schedule list) rio" where
  "load_schedules env = bind (attempt (read_file env SCHEDULES_PATH)) (\<lambda>r. case r of
       Inl (SE_Io IoNotFound m) \<Rightarrow> rok []
     | Inl e \<Rightarrow> rfail (SSE_Read SCHEDULES_PATH (show_storage_error e))
     | Inr raw \<Rightarrow> (case decode env ''schedules'' (list_of (schedule_of (se_wire env))) raw of
           Inl e \<Rightarrow> rfail (SSE_Malformed SCHEDULES_PATH (show_storage_error e))
         | Inr ss \<Rightarrow> rok ss))"

definition save_schedules :: "store_env \<Rightarrow> schedule list \<Rightarrow> (schedule_error, unit) rio" where
  "save_schedules env ss =
     rbind (lift_io (\<lambda>e. SSE_Read [] (show_storage_error e)) (create_dir_all env [])) (\<lambda>u.
       lift_io SSE_Write (write_atomically env SCHEDULES_PATH (schedules_text env ss)))"

section \<open>Changing schedules\<close>

text \<open>The stored part of creating, deleting and toggling a schedule.\<close>

definition update_schedules :: "store_env \<Rightarrow> (schedule list \<Rightarrow> schedule list) \<Rightarrow> (schedule_error, unit) rio" where
  "update_schedules env f = rbind (load_schedules env) (\<lambda>ss. save_schedules env (f ss))"

definition create_schedule :: "store_env \<Rightarrow> schedule \<Rightarrow> (schedule_error, unit) rio" where
  "create_schedule env s = update_schedules env (\<lambda>ss. ss @ [s])"

definition delete_schedule :: "store_env \<Rightarrow> string \<Rightarrow> (schedule_error, unit) rio" where
  "delete_schedule env i = update_schedules env (filter (\<lambda>s. sc_id s \<noteq> i))"

definition toggle_schedule :: "store_env \<Rightarrow> string \<Rightarrow> (schedule_error, unit) rio" where
  "toggle_schedule env i = update_schedules env (map (\<lambda>s. if sc_id s = i then s\<lparr>sc_enabled := \<not> sc_enabled s\<rparr> else s))"

section \<open>Claiming\<close>

text \<open>Active schedules first, in order of their next run; paused ones at the end.\<close>

definition sort_by_next_run :: "('t \<times> instant option) list \<Rightarrow> ('t \<times> instant option) list" where
  "sort_by_next_run items = sort_key (\<lambda>(x, n). case n of Some t \<Rightarrow> (False, t) | None \<Rightarrow> (True, 0)) items"

definition due_schedules :: "cron_lib \<Rightarrow> schedule list \<Rightarrow> bool \<Rightarrow> instant \<Rightarrow> instant \<Rightarrow> schedule list" where
  "due_schedules lib ss paused last_tick now =
     (if paused then []
      else filter (\<lambda>s. case next_occurrence lib (sc_cron s) last_tick of Some n \<Rightarrow> n \<le> now | None \<Rightarrow> False)
        (filter sc_enabled ss))"

definition claim_due_schedules :: "store_env \<Rightarrow> cron_lib \<Rightarrow> bool \<Rightarrow> string list \<Rightarrow> instant \<Rightarrow> instant \<Rightarrow>
    (schedule_error, schedule list) rio" where
  "claim_due_schedules env lib paused active_ids last_tick now =
     rbind (load_schedules env) (\<lambda>ss.
       let due = filter (\<lambda>s. sc_id s \<notin> set active_ids) (due_schedules lib ss paused last_tick now)
       in if due = [] then rok due
          else rbind (save_schedules env (map (\<lambda>s. if sc_id s \<in> sc_id ` set due then s\<lparr>sc_last_run := Some now\<rparr> else s) ss)) (\<lambda>u.
            rok due))"

section \<open>The loop\<close>

record scheduler =
  sl_last_tick :: instant
  sl_active :: "string list"

definition scheduler_started :: "instant \<Rightarrow> scheduler" where
  "scheduler_started now = \<lparr>sl_last_tick = now, sl_active = []\<rparr>"

text \<open>
  One round of \<^verbatim>\<open>scheduler_loop\<close>: without admission, or when the claim fails, the window stays open;
  otherwise it is closed, and the claimed schedules are dispatched.
\<close>

definition scheduler_tick :: "store_env \<Rightarrow> cron_lib \<Rightarrow> bool \<Rightarrow> bool \<Rightarrow> instant \<Rightarrow> scheduler \<Rightarrow> (scheduler \<times> schedule list) io" where
  "scheduler_tick env lib admitted paused now st =
     (if \<not> admitted then ret (st, [])
      else bind (claim_due_schedules env lib paused (sl_active st) (sl_last_tick st) now) (\<lambda>r. case r of
        Inl e \<Rightarrow> ret (st, [])
      | Inr due \<Rightarrow> ret (st\<lparr>sl_last_tick := now, sl_active := map sc_id due @ sl_active st\<rparr>, due)))"

definition run_finished :: "string \<Rightarrow> scheduler \<Rightarrow> scheduler" where
  "run_finished i st = st\<lparr>sl_active := removeAll i (sl_active st)\<rparr>"

section \<open>No occurrence is claimed twice\<close>

text \<open>
  What can happen to the scheduler: a round on whatever the disk holds by then (the user edits the
  file in between) under any fault schedule, the end of a run, a restart of the process.
\<close>

record round =
  rd_env :: store_env
  rd_disk :: disk
  rd_admitted :: bool
  rd_paused :: bool
  rd_now :: instant

datatype scheduler_event = Round round | RunFinished string | Restart instant

definition claims_of :: "cron_lib \<Rightarrow> instant \<Rightarrow> schedule list \<Rightarrow> (string \<times> instant) list" where
  "claims_of lib last_tick due = map (\<lambda>s. (sc_id s, the (next_occurrence lib (sc_cron s) last_tick))) due"

text \<open>The claimed occurrences, round by round; a crash in a round ends the scheduler until a restart.\<close>

fun history :: "cron_lib \<Rightarrow> scheduler_event list \<Rightarrow> scheduler option \<Rightarrow> (string \<times> instant) list list" where
  "history lib [] st = []"
| "history lib (Restart t # es) st = history lib es (Some (scheduler_started t))"
| "history lib (RunFinished i # es) st = history lib es (map_option (run_finished i) st)"
| "history lib (Round r # es) None = history lib es None"
| "history lib (Round r # es) (Some st) =
     (case scheduler_tick (rd_env r) lib (rd_admitted r) (rd_paused r) (rd_now r) st (rd_disk r) of
        (d, Done (st', due)) \<Rightarrow> claims_of lib (sl_last_tick st) due # history lib es (Some st')
      | (d, _) \<Rightarrow> history lib es None)"

fun event_times :: "scheduler_event list \<Rightarrow> instant list" where
  "event_times [] = []"
| "event_times (Round r # es) = rd_now r # event_times es"
| "event_times (Restart t # es) = t # event_times es"
| "event_times (RunFinished i # es) = event_times es"

definition unique_ids :: "round \<Rightarrow> bool" where
  "unique_ids r \<longleftrightarrow> (case load_schedules (rd_env r) (rd_disk r) of
     (d, Done (Inr ss)) \<Rightarrow> distinct (map sc_id ss) | _ \<Rightarrow> True)"

lemma claim_Inr:
  assumes "claim_due_schedules env lib paused active last_tick now d = (d', Done (Inr due))"
  shows "\<exists>ss d1. load_schedules env d = (d1, Done (Inr ss)) \<and>
    due = filter (\<lambda>s. sc_id s \<notin> set active) (due_schedules lib ss paused last_tick now) \<and>
    (due \<noteq> [] \<longrightarrow> save_schedules env (map (\<lambda>s. if sc_id s \<in> sc_id ` set due then s\<lparr>sc_last_run := Some now\<rparr> else s) ss) d1 =
       (d', Done (Inr ())))"
  using assms unfolding claim_due_schedules_def Let_def
  by (auto simp: rbind_def bind_def rok_def rfail_def ret_def split: prod.splits outcome.splits sum.splits if_splits)

lemma due_window:
  assumes "s \<in> set (due_schedules lib ss paused last_tick now)" and "\<And>c t n. cl_next lib c t = Some n \<Longrightarrow> t < n"
  shows "last_tick < the (next_occurrence lib (sc_cron s) last_tick) \<and> the (next_occurrence lib (sc_cron s) last_tick) \<le> now"
  using assms by (auto simp: due_schedules_def next_occurrence_def split: if_splits option.splits)

lemma tick_cases:
  assumes "scheduler_tick env lib admitted paused now st d = (d', Done (st', due))"
  shows "st' = st \<and> due = [] \<or> (sl_last_tick st' = now \<and>
    claim_due_schedules env lib paused (sl_active st) (sl_last_tick st) now d = (d', Done (Inr due)))"
  using assms by (auto simp: scheduler_tick_def bind_def ret_def split: if_splits prod.splits outcome.splits sum.splits)

lemma tick_claims:
  assumes "scheduler_tick env lib admitted paused now st d = (d', Done (st', due))" and "\<And>c t n. cl_next lib c t = Some n \<Longrightarrow> t < n"
    and "sl_last_tick st \<le> now" and "(i, t) \<in> set (claims_of lib (sl_last_tick st) due)"
  shows "sl_last_tick st < t \<and> t \<le> sl_last_tick st'"
  using tick_cases [OF assms(1)] assms(4)
  by (auto simp: claims_of_def dest!: claim_Inr due_window [OF _ assms(2)])

lemma tick_mono:
  "scheduler_tick env lib admitted paused now st d = (d', Done (st', due)) \<Longrightarrow> sl_last_tick st \<le> now \<Longrightarrow>
    sl_last_tick st \<le> sl_last_tick st' \<and> sl_last_tick st' \<le> now"
  by (auto dest: tick_cases)

text \<open>A scheduler is behind all events to come.\<close>

definition behind :: "scheduler option \<Rightarrow> scheduler_event list \<Rightarrow> bool" where
  "behind st es \<longleftrightarrow> sorted (event_times es) \<and> (\<forall>s. st = Some s \<longrightarrow> (\<forall>u \<in> set (event_times es). sl_last_tick s \<le> u))"

lemma behind_step:
  "behind st (Restart t # es) \<Longrightarrow> behind (Some (scheduler_started t)) es"
  "behind st (RunFinished i # es) \<Longrightarrow> behind (map_option (run_finished i) st) es"
  "behind st (Round r # es) \<Longrightarrow> behind None es"
  by (auto simp: behind_def scheduler_started_def run_finished_def)

lemma behind_round:
  assumes "behind (Some st) (Round r # es)"
    and "scheduler_tick (rd_env r) lib (rd_admitted r) (rd_paused r) (rd_now r) st (rd_disk r) = (d, Done (st', due))"
  shows "behind (Some st') es \<and> sl_last_tick st \<le> rd_now r \<and> sl_last_tick st \<le> sl_last_tick st'"
  using assms tick_mono [OF assms(2)] by (fastforce simp: behind_def)

lemma history_later:
  assumes strict: "\<And>c t n. cl_next lib c t = Some n \<Longrightarrow> t < n"
    and "behind st es" and "\<forall>u \<in> set (event_times es). b \<le> u" and "\<forall>s. st = Some s \<longrightarrow> b \<le> sl_last_tick s"
    and "xs \<in> set (history lib es st)" and "(i, t) \<in> set xs"
  shows "b < t"
  using assms
proof (induction lib es st rule: history.induct)
  case (2 lib u es st)
  have "behind (Some (scheduler_started u)) es" using "2.prems"(2) by (rule behind_step)
  with 2 show ?case by (simp add: scheduler_started_def)
next
  case (3 lib i es st)
  have "behind (map_option (run_finished i) st) es" using "3.prems"(2) by (rule behind_step)
  with 3 show ?case by (cases st) (auto simp: run_finished_def)
next
  case (4 lib r es)
  have "behind None es" using "4.prems"(2) by (rule behind_step)
  with 4 show ?case by simp
next
  case (5 lib r es st)
  obtain d res where tick: "scheduler_tick (rd_env r) lib (rd_admitted r) (rd_paused r) (rd_now r) st (rd_disk r) = (d, res)"
    by fastforce
  have stopped: "behind None es" using "5.prems"(2) by (rule behind_step)
  show ?case
  proof (cases res)
    case (Done v)
    obtain st' due where v: "v = (st', due)" by fastforce
    note tick' = tick [unfolded Done v]
    note bh = behind_round [OF "5.prems"(2) tick']
    from "5.prems"(5) consider "xs = claims_of lib (sl_last_tick st) due" | "xs \<in> set (history lib es (Some st'))"
      by (auto simp: tick')
    then show ?thesis
    proof cases
      case 1
      have "sl_last_tick st < t" using tick_claims [OF tick' "5.prems"(1)] bh "5.prems"(6) by (auto simp: 1)
      with "5.prems"(4) show ?thesis by simp
    next
      case 2
      show ?thesis
        using "5.IH"(1) [OF tick [symmetric] Done v [symmetric] "5.prems"(1) _ _ _ 2 "5.prems"(6)] bh "5.prems"(3,4) by simp
    qed
  next
    case (Failed e)
    show ?thesis using "5.IH"(2) [OF tick [symmetric] Failed "5.prems"(1) stopped] "5.prems" by (simp add: tick Failed)
  next
    case Crashed
    show ?thesis using "5.IH"(3) [OF tick [symmetric] Crashed "5.prems"(1) stopped] "5.prems" by (simp add: tick Crashed)
  qed
qed simp

abbreviation earlier :: "(string \<times> instant) list \<Rightarrow> (string \<times> instant) list \<Rightarrow> bool" where
  "earlier xs ys \<equiv> \<forall>(i, t) \<in> set xs. \<forall>(j, u) \<in> set ys. t < u"

lemma history_sorted:
  assumes "\<And>c t n. cl_next lib c t = Some n \<Longrightarrow> t < n" and "behind st es"
  shows "sorted_wrt earlier (history lib es st)"
  using assms
proof (induction lib es st rule: history.induct)
  case (2 lib u es st)
  have "behind (Some (scheduler_started u)) es" using "2.prems"(2) by (rule behind_step)
  with 2 show ?case by simp
next
  case (3 lib i es st)
  have "behind (map_option (run_finished i) st) es" using "3.prems"(2) by (rule behind_step)
  with 3 show ?case by simp
next
  case (4 lib r es)
  have "behind None es" using "4.prems"(2) by (rule behind_step)
  with 4 show ?case by simp
next
  case (5 lib r es st)
  obtain d res where tick: "scheduler_tick (rd_env r) lib (rd_admitted r) (rd_paused r) (rd_now r) st (rd_disk r) = (d, res)"
    by fastforce
  have stopped: "behind None es" using "5.prems"(2) by (rule behind_step)
  show ?case
  proof (cases res)
    case (Done v)
    obtain st' due where v: "v = (st', due)" by fastforce
    note tick' = tick [unfolded Done v]
    note bh = behind_round [OF "5.prems"(2) tick']
    have "earlier (claims_of lib (sl_last_tick st) due) xs" if xs: "xs \<in> set (history lib es (Some st'))" for xs
    proof (safe)
      fix i t j u
      assume i: "(i, t) \<in> set (claims_of lib (sl_last_tick st) due)" and j: "(j, u) \<in> set xs"
      have "t \<le> sl_last_tick st'" using tick_claims [OF tick' "5.prems"(1) _ i] bh by simp
      moreover have "sl_last_tick st' < u"
        using history_later [OF "5.prems"(1) _ _ _ xs j, where b = "sl_last_tick st'"] bh by (auto simp: behind_def)
      ultimately show "t < u" by simp
    qed
    with "5.IH"(1) [OF tick [symmetric] Done v [symmetric] "5.prems"(1)] bh show ?thesis by (simp add: tick')
  next
    case (Failed e)
    show ?thesis using "5.IH"(2) [OF tick [symmetric] Failed "5.prems"(1) stopped] by (simp add: tick Failed)
  next
    case Crashed
    show ?thesis using "5.IH"(3) [OF tick [symmetric] Crashed "5.prems"(1) stopped] by (simp add: tick Crashed)
  qed
qed simp

lemma claims_distinct:
  assumes "scheduler_tick (rd_env r) lib (rd_admitted r) (rd_paused r) (rd_now r) st (rd_disk r) = (d', Done (st', due))" and "unique_ids r"
  shows "distinct (claims_of lib l due)"
proof -
  have "distinct (map sc_id due)"
    using tick_cases [OF assms(1)] assms(2)
    by (auto simp: unique_ids_def due_schedules_def distinct_map_filter dest!: claim_Inr)
  then have "distinct (map fst (claims_of lib l due))" by (simp add: claims_of_def comp_def)
  then show ?thesis by (metis distinct_map)
qed

lemma history_round:
  assumes "xs \<in> set (history lib (Round r # es) (Some st))"
  shows "xs \<in> set (history lib es None) \<or> (\<exists>d st' due.
    scheduler_tick (rd_env r) lib (rd_admitted r) (rd_paused r) (rd_now r) st (rd_disk r) = (d, Done (st', due)) \<and>
    (xs = claims_of lib (sl_last_tick st) due \<or> xs \<in> set (history lib es (Some st'))))"
proof -
  obtain d res where t: "scheduler_tick (rd_env r) lib (rd_admitted r) (rd_paused r) (rd_now r) st (rd_disk r) = (d, res)"
    by fastforce
  with assms show ?thesis by (cases res) auto
qed

lemma history_distinct:
  assumes "\<And>r. Round r \<in> set es \<Longrightarrow> unique_ids r" and "xs \<in> set (history lib es st)"
  shows "distinct xs"
  using assms
proof (induction es arbitrary: st)
  case (Cons e es)
  note IH = Cons.IH [OF Cons.prems(1)]
  show ?case
  proof (cases e)
    case (Round r)
    show ?thesis
    proof (cases st)
      case (Some s)
      with history_round Cons.prems(2) Round consider "xs \<in> set (history lib es None)"
        | d st' due where "scheduler_tick (rd_env r) lib (rd_admitted r) (rd_paused r) (rd_now r) s (rd_disk r) = (d, Done (st', due))"
          "xs = claims_of lib (sl_last_tick s) due \<or> xs \<in> set (history lib es (Some st'))" by blast
      then show ?thesis
        by cases (use IH claims_distinct [of r] Cons.prems(1) [of r] Round in auto)
    qed (use IH Cons.prems Round in auto)
  qed (use IH Cons.prems in auto)
qed simp

lemma distinct_concat_earlier: "sorted_wrt earlier xss \<Longrightarrow> (\<And>xs. xs \<in> set xss \<Longrightarrow> distinct xs) \<Longrightarrow> distinct (concat xss)"
  by (induction xss) fastforce+


text \<open>A claim is on the disk, with its time, before anything is dispatched.\<close>

lemma schedules_json: "json_path SCHEDULES_PATH"
  by code_simp

lemma saved_schedules_published:
  assumes "save_schedules env ss d = (d', Done (Inr u))"
  shows "published d' SCHEDULES_PATH = Some (schedules_text env ss)"
proof -
  obtain d1 where "write_atomically env SCHEDULES_PATH (schedules_text env ss) d1 = (d', Done ())"
    using assms by (auto simp: save_schedules_def rbind_def lift_io_def attempt_def bind_def ret_def rfail_def
        split: prod.splits outcome.splits sum.splits)
  then show ?thesis
    using triple_done [OF write_atomically_triple [OF schedules_json], of d1 "published d1" env "schedules_text env ss" "()"] by simp
qed

lemma claim_is_recorded:
  assumes "claim_due_schedules env lib paused active last_tick now d = (d', Done (Inr due))" and "due \<noteq> []"
  shows "\<exists>ss d1. load_schedules env d = (d1, Done (Inr ss)) \<and> set due \<subseteq> set ss \<and>
    published d' SCHEDULES_PATH = Some (schedules_text env
      (map (\<lambda>s. if sc_id s \<in> sc_id ` set due then s\<lparr>sc_last_run := Some now\<rparr> else s) ss))"
proof -
  from claim_Inr [OF assms(1)] assms(2) obtain ss d1 where c: "load_schedules env d = (d1, Done (Inr ss))"
    "due = filter (\<lambda>s. sc_id s \<notin> set active) (due_schedules lib ss paused last_tick now)"
    "save_schedules env (map (\<lambda>s. if sc_id s \<in> sc_id ` set due then s\<lparr>sc_last_run := Some now\<rparr> else s) ss) d1 = (d', Done (Inr ()))"
    by blast
  then have "set due \<subseteq> set ss" by (auto simp: due_schedules_def)
  with c(1) saved_schedules_published [OF c(3)] show ?thesis by blast
qed

section \<open>A schedule that is due every ten units of time\<close>

definition every_ten :: cron_lib where
  "every_ten = \<lparr>cl_error = \<lambda>s. None, cl_next = \<lambda>c t. Some (10 * (t div 10 + 1))\<rparr>"

definition ten_schedule :: schedule where
  "ten_schedule = \<lparr>sc_id = ''s'', sc_plan_id = ''p'', sc_cron = ''c'', sc_enabled = True, sc_inputs = [], sc_created_at = 0,
     sc_last_run = None\<rparr>"

definition ten_store :: store_env where
  "ten_store = working_store\<lparr>se_text := \<lambda>v. ''x'', se_parse := \<lambda>s. Some (JArray [schedule_doc demo_wire ten_schedule])\<rparr>"

definition ten_disk :: disk where
  "ten_disk = \<lparr>dk_files = [(SCHEDULES_PATH, ''x'')], dk_dirs = [], dk_calls = 0\<rparr>"

definition round_at :: "instant \<Rightarrow> scheduler_event" where
  "round_at t = Round \<lparr>rd_env = ten_store, rd_disk = ten_disk, rd_admitted = True, rd_paused = False, rd_now = t\<rparr>"

lemma every_ten_strict: "cl_next every_ten c t = Some n \<Longrightarrow> t < n"
  by (simp add: every_ten_def)

lemma ten_unique: "Round r = round_at t \<Longrightarrow> unique_ids r"
proof -
  have "case load_schedules ten_store ten_disk of (d, Done (Inr ss)) \<Rightarrow> distinct (map sc_id ss) | _ \<Rightarrow> True" by code_simp
  then show "Round r = round_at t \<Longrightarrow> unique_ids r" by (simp add: round_at_def unique_ids_def)
qed


text \<open>
  When the wall clock is set back, the window is set back with it, and the same occurrence is claimed
  again: the recorded time of the last claim is never looked at.
\<close>

lemma clock_set_back_claims_twice:
  "history every_ten [Restart 5, round_at 12, RunFinished ''s'', round_at 7, round_at 12] None =
    [[(''s'', 10)], [], [(''s'', 10)]]"
  by code_simp

end
