(* ===== verification/NormalValid.thy ===== *)
theory NormalValid
  imports Preflight Execution
begin

text \<open>
  Normalization keeps a plan valid.  The code validates a compiled or an imported plan and stores its
  normal form without validating it again; here every pass of the validator is shown to accept a
  rearrangement of the steps of a plan exactly when it accepts the plan.
\<close>

section \<open>Rearranged plans\<close>

lemma sorted_step_sel [simp]:
  "s_id (sort_depends_on s) = s_id s" "s_config (sort_depends_on s) = s_config s" "s_outputs (sort_depends_on s) = s_outputs s"
  "s_timeout_secs (sort_depends_on s) = s_timeout_secs s" "set (s_depends_on (sort_depends_on s)) = set (s_depends_on s)"
  "step_type_of (sort_depends_on s) = step_type_of s"
  by (simp_all add: sort_depends_on_def step_type_of_def)

lemma mset_concat_map: "mset xs = mset ys \<Longrightarrow> mset (concat (map g xs)) = mset (concat (map g ys))"
proof -
  have "mset (concat (map g zs)) = (\<Sum>x \<in># mset zs. mset (g x))" for zs by (induction zs) simp_all
  then show "mset xs = mset ys \<Longrightarrow> ?thesis" by simp
qed

lemma mset_pushes_at: "mset (pushes_at k ps) = image_mset snd {#x \<in># mset ps. fst x = k#}"
  by (simp add: pushes_at_def)

locale rearrangement =
  fixes p q :: plan
  assumes steps: "mset (p_steps q) = mset (map sort_depends_on (p_steps p))"
    and inputs: "p_inputs q = p_inputs p"
    and outputs: "p_outputs q = p_outputs p"
    and keys: "set (im_keys (p_config q)) = set (im_keys (p_config p))"
begin

lemma set_steps: "set (p_steps q) = sort_depends_on ` set (p_steps p)"
  using mset_eq_setD [OF steps] by simp

lemma all_steps: "(\<forall>s \<in> set (p_steps q). P s) \<longleftrightarrow> (\<forall>s \<in> set (p_steps p). P (sort_depends_on s))"
  by (simp add: set_steps)

lemma ids_mset: "mset (map s_id (p_steps q)) = mset (map s_id (p_steps p))"
proof -
  have "mset (map s_id (p_steps q)) = image_mset s_id (mset (p_steps q))" by simp
  also have "\<dots> = mset (map s_id (p_steps p))" by (simp add: steps image_mset.compositionality comp_def)
  finally show ?thesis .
qed

lemma ids: "s_id ` set (p_steps q) = s_id ` set (p_steps p)"
  using mset_eq_setD [OF ids_mset] by simp

lemma distinct_ids: "distinct (map s_id (p_steps q)) \<longleftrightarrow> distinct (map s_id (p_steps p))"
  by (rule mset_eq_imp_distinct_iff [OF ids_mset])

lemma find_step:
  assumes "distinct (map s_id (p_steps p))"
  shows "plan_find_step q i = map_option sort_depends_on (plan_find_step p i)"
proof (cases "plan_find_step p i")
  case None
  then have "i \<notin> s_id ` set (p_steps q)" using plan_find_step_None [of p] ids by blast
  then have "plan_find_step q i = None" using plan_find_step_Some [of q i] by (cases "plan_find_step q i") auto
  with None show ?thesis by simp
next
  case (Some s)
  then have "s_id s = i" "sort_depends_on s \<in> set (p_steps q)"
    using plan_find_step_Some [OF Some] by (auto simp: set_steps)
  then show ?thesis
    using plan_find_step_distinct [of q "sort_depends_on s"] assms distinct_ids Some by simp
qed

lemma depends: "distinct (map s_id (p_steps p)) \<Longrightarrow> depends_transitively q = depends_transitively p"
proof -
  assume "distinct (map s_id (p_steps p))"
  then have "set (deps_of q i) = set (deps_of p i)" for i
    by (simp add: deps_of_def find_step split: option.split)
  then have "succ_edges (deps_of q) = succ_edges (deps_of p)" by (simp add: succ_edges_def)
  then show ?thesis by (simp add: fun_eq_iff depends_transitively_iff)
qed

text \<open>What is collected from the steps in order is the same up to the order.\<close>

lemma collected: "(\<And>s. g (sort_depends_on s) = g s) \<Longrightarrow> mset (concat (map g (p_steps q))) = mset (concat (map g (p_steps p)))"
  using mset_concat_map [OF steps, of g] by (simp add: comp_def)

lemma item_owner_pushes: "set (pushes_at i (item_owners q)) = set (pushes_at i (item_owners p))"
proof -
  have "mset (item_owners q) = mset (item_owners p)" unfolding item_owners_def
    by (rule collected) (simp split: step_config.split)
  from mset_eq_setD [OF this] show ?thesis by (simp add: set_pushes_at)
qed

lemma spawn_owners_mset: "mset (spawn_owners q) = mset (spawn_owners p)"
  unfolding spawn_owners_def by (rule collected) (simp split: step_config.split)

lemma spawn_owner_pushes: "set (pushes_at i (spawn_owners q)) = set (pushes_at i (spawn_owners p))"
  using mset_eq_setD [OF spawn_owners_mset] by (simp add: set_pushes_at)

lemma routed:
  assumes "distinct (map s_id (p_steps p))"
  shows "condition_routed_step_ids q = condition_routed_step_ids p"
proof -
  have "mset (branch_targets q) = mset (branch_targets p)" unfolding branch_targets_def by (rule collected) simp
  from mset_eq_setD [OF this] have targets: "set (branch_targets q) = set (branch_targets p)" .
  have "spawned q i = spawned p i" for i
    using assms by (simp add: spawned_def find_step split: option.split)
  moreover have "{s \<in> set (p_steps q). i \<in> set (s_depends_on s)} = sort_depends_on ` {s \<in> set (p_steps p). i \<in> set (s_depends_on s)}" for i
    by (auto simp: set_steps)
  ultimately have "set (routed_next q i) = set (routed_next p i)" for i
    by (simp add: routed_next_def image_image)
  then have "succ_edges (routed_next q) = succ_edges (routed_next p)" by (simp add: succ_edges_def)
  with targets show ?thesis by (simp add: condition_routed_reach)
qed

end

section \<open>The passes\<close>

lemma check_step_ids_iff: "check_step_ids ss seen = [] \<longleftrightarrow>
    distinct (map s_id ss) \<and> s_id ` set ss \<inter> seen = {} \<and> (\<forall>s \<in> set ss. is_addressable_identifier (s_id s))"
  by (induction ss seen rule: check_step_ids.induct) auto

lemma check_output_names_sorted: "check_output_names (sort_depends_on s) outs names = check_output_names s outs names"
  by (induction outs arbitrary: names) simp_all

lemma repeated_spawns_sorted: "repeated_spawns (sort_depends_on s) spawns local = repeated_spawns s spawns local"
  by (induction spawns arbitrary: local) simp_all

lemma step_checks_sorted:
  "validate_configured_output (sort_depends_on s) = validate_configured_output s"
  "check_static_source (sort_depends_on s) = check_static_source s"
  "check_working_dir i (sort_depends_on s) = check_working_dir i s"
  "check_fan_out_until (sort_depends_on s) = check_fan_out_until s"
  "split_over_reference (sort_depends_on s) = split_over_reference s"
  "producible_outputs (sort_depends_on s) = producible_outputs s"
  "preflight_references (sort_depends_on s) = preflight_references s"
  unfolding fun_eq_iff validate_configured_output_def check_static_source_def check_working_dir_def check_fan_out_until_def
    split_over_reference_def producible_outputs_def preflight_references_def runtime_preflight_config_def sorted_step_sel
  by simp_all

lemma contracts_sorted:
  "validate_code_call_contract (sort_depends_on s) = validate_code_call_contract s"
  "validate_human_interaction_contract (sort_depends_on s) = validate_human_interaction_contract s"
  "validate_prompt_call_contract (sort_depends_on s) = validate_prompt_call_contract s"
  "validate_agent_call_contract (sort_depends_on s) = validate_agent_call_contract s"
  unfolding fun_eq_iff validate_code_call_contract_def validate_human_interaction_contract_def validate_prompt_call_contract_def
    validate_agent_call_contract_def step_checks_sorted sorted_step_sel
  by simp_all

lemma single_owner_cong: "set xs = set ys \<Longrightarrow>
    (if length (remdups xs) = 1 then Some (hd xs) else None) = (if length (remdups ys) = 1 then Some (hd ys) else None)"
proof -
  assume eq: "set xs = set ys"
  have "hd zs = x" if "set zs = {x}" for zs :: "'a list" and x using that by (cases zs) auto
  with eq show ?thesis by (auto simp: length_remdups_card_conv card_1_singleton_iff)
qed

lemma concat_map_empty: "concat (map f xs) = [] \<longleftrightarrow> (\<forall>x \<in> set xs. f x = [])"
  by auto

context rearrangement begin

lemma structure_pass: "validate_structure q = [] \<longleftrightarrow> validate_structure p = []"
proof -
  have "p_steps q = [] \<longleftrightarrow> p_steps p = []" using set_steps by (metis image_is_empty set_empty)
  moreover have "validate_plan_inputs q = validate_plan_inputs p" by (simp add: validate_plan_inputs_def inputs)
  moreover have "validate_step_ids q = [] \<longleftrightarrow> validate_step_ids p = []"
    by (simp add: validate_step_ids_def check_step_ids_iff distinct_ids all_steps check_output_names_sorted)
  ultimately show ?thesis by (simp add: validate_structure_def)
qed

lemma fan_in_sources:
  assumes "distinct (map s_id (p_steps p))"
  shows "check_fan_in_sources q (sort_depends_on s) sources seen = check_fan_in_sources p s sources seen"
  by (induction sources arbitrary: seen) (simp_all add: find_step [OF assms] depends [OF assms])

lemma step_contract:
  assumes "distinct (map s_id (p_steps p))"
  shows "check_step_contract q (sort_depends_on s) = check_step_contract p s"
  by (simp add: check_step_contract_def contracts_sorted step_checks_sorted validate_fan_in_contract_def fan_in_sources [OF assms]
      split: step_config.split)

lemma root_directory: "validate_root_directory_input q = [] \<longleftrightarrow> validate_root_directory_input p = []"
proof -
  have "requires_root_directory q = requires_root_directory p"
    by (simp add: requires_root_directory_def list_ex_iff set_steps)
  moreover have "root_directory_input q = root_directory_input p"
    by (simp add: root_directory_input_def inputs)
  ultimately show ?thesis
    by (simp add: validate_root_directory_input_def all_steps step_checks_sorted split: option.split)
qed

lemma owner: "fan_out_owner q i = fan_out_owner p i"
  unfolding fan_out_owner_def Let_def by (rule single_owner_cong [OF spawn_owner_pushes])

lemma multiple_owners: "check_multiple_owners q i = [] \<longleftrightarrow> check_multiple_owners p i = []"
  by (simp add: check_multiple_owners_def Let_def length_remdups_card_conv spawn_owner_pushes)

lemma spawn_dependency:
  assumes "distinct (map s_id (p_steps p))"
  shows "check_spawn_dependency q (sort_depends_on s) c = check_spawn_dependency p s c"
  by (simp add: fun_eq_iff check_spawn_dependency_def depends [OF assms] split: option.split)

lemma spawn_step:
  assumes "distinct (map s_id (p_steps p))"
  shows "check_spawn_step q (sort_depends_on s) c x = [] \<longleftrightarrow> check_spawn_step p s c x = []"
  by (cases x; cases "plan_find_step p (snd x)")
    (auto simp: check_spawn_step_def find_step [OF assms] spawn_dependency [OF assms] split: step_config.splits)

lemma raw_results:
  assumes "distinct (map s_id (p_steps p))"
  shows "check_raw_results_consumers q (sort_depends_on s) c = [] \<longleftrightarrow> check_raw_results_consumers p s c = []"
proof -
  have "raw_result_step q c = map_option sort_depends_on (raw_result_step p c)"
    by (auto simp: raw_result_step_def find_step [OF assms] split: list.split option.split step_config.splits)
  then show ?thesis
    by (simp add: check_raw_results_consumers_def Let_def all_steps split: option.split step_config.split)
qed

lemma fan_out_source:
  assumes "distinct (map s_id (p_steps p))"
  shows "check_fan_out_source q (sort_depends_on s) = check_fan_out_source p s"
  unfolding fun_eq_iff check_fan_out_source_def find_step [OF assms] depends [OF assms] sorted_step_sel
  by (simp add: step_checks_sorted split: option.split)

lemma fan_out_step:
  assumes "distinct (map s_id (p_steps p))"
  shows "check_fan_out_step q (sort_depends_on s) c = [] \<longleftrightarrow> check_fan_out_step p s c = []"
  by (auto simp: check_fan_out_step_def check_fan_out_spawn_steps_def step_checks_sorted spawn_step [OF assms] raw_results [OF assms]
      fan_out_source [OF assms] split: prod.split option.split)

lemma main_flow: "check_main_flow_dependencies q = [] \<longleftrightarrow> check_main_flow_dependencies p = []"
  unfolding check_main_flow_dependencies_def concat_map_empty all_steps owner sorted_step_sel
  by (simp add: concat_map_empty split: option.split)

lemma fan_out_constraints:
  assumes "distinct (map s_id (p_steps p))"
  shows "validate_fan_out_constraints q = [] \<longleftrightarrow> validate_fan_out_constraints p = []"
proof -
  have "fst ` set (spawn_owners q) = fst ` set (spawn_owners p)" using mset_eq_setD [OF spawn_owners_mset] by simp
  moreover have "(case s_config s of FanOut c \<Rightarrow> check_fan_out_step q (sort_depends_on s) c | _ \<Rightarrow> []) = [] \<longleftrightarrow>
      (case s_config s of FanOut c \<Rightarrow> check_fan_out_step p s c | _ \<Rightarrow> []) = []" for s
    using fan_out_step [OF assms] by (simp split: step_config.split)
  ultimately show ?thesis
    unfolding validate_fan_out_constraints_def append_is_Nil_conv concat_map_empty all_steps repeated_spawns_sorted sorted_step_sel
      multiple_owners main_flow by simp
qed

lemma condition_step:
  assumes "distinct (map s_id (p_steps p))"
  shows "check_condition_step q (sort_depends_on s) c = [] \<longleftrightarrow> check_condition_step p s c = []"
proof -
  have "check_branch_step q (sort_depends_on s) = check_branch_step p s"
    by (simp add: fun_eq_iff check_branch_step_def ids depends [OF assms])
  moreover have "check_approval_reference (sort_depends_on s) c (sort_depends_on t) = check_approval_reference s c t" for t
    by (simp add: check_approval_reference_def split: step_config.split)
  ultimately show ?thesis
    by (simp add: check_condition_step_def all_steps split: sum.split option.split)
qed

lemma condition_constraints:
  assumes "distinct (map s_id (p_steps p))"
  shows "validate_condition_constraints q = [] \<longleftrightarrow> validate_condition_constraints p = []"
  using condition_step [OF assms]
  by (simp add: validate_condition_constraints_def all_steps split: step_config.split)

lemma find_SomeD': "find P xs = Some x \<Longrightarrow> x \<in> set xs \<and> P x"
  by (induction xs) (auto split: if_splits)

lemma step_output:
  assumes "distinct (map s_id (p_steps p))"
  shows "check_step_output q = check_step_output p"
proof -
  have entries: "set (map (\<lambda>s. (s_id s, producible_outputs s)) (p_steps q)) = set (map (\<lambda>s. (s_id s, producible_outputs s)) (p_steps p))"
    by (simp add: set_steps image_image step_checks_sorted)
  have "map_of (rev (map (\<lambda>s. (s_id s, producible_outputs s)) (p_steps q))) =
      map_of (rev (map (\<lambda>s. (s_id s, producible_outputs s)) (p_steps p)))"
  proof (subst map_of_inject_set)
    have "map fst (map (\<lambda>s. (s_id s, producible_outputs s)) ss) = map s_id ss" for ss by simp
    then show "distinct (map fst (rev (map (\<lambda>s. (s_id s, producible_outputs s)) (p_steps q))))"
      "distinct (map fst (rev (map (\<lambda>s. (s_id s, producible_outputs s)) (p_steps p))))"
      using assms distinct_ids unfolding rev_map [symmetric] distinct_rev by metis+
  qed (use entries in simp)
  then have "im_get (outputs_by_step q) = im_get (outputs_by_step p)"
    by (simp add: fun_eq_iff outputs_by_step_def im_get_extend)
  then show ?thesis by (simp add: fun_eq_iff check_step_output_def ids)
qed

lemma fan_out_owners_mset: "mset (pushes_at i (fan_out_owners q)) =
    image_mset (map_prod sort_depends_on id) (mset (pushes_at i (fan_out_owners p)))"
proof -
  let ?g = "\<lambda>owner. case s_config owner of
       FanOut c \<Rightarrow> map (\<lambda>(position, spawn_id). (spawn_id, owner, position)) (enumerate 0 (fo_spawn_steps c))
     | _ \<Rightarrow> []"
  have g: "?g (sort_depends_on s) = map (map_prod id (map_prod sort_depends_on id)) (?g s)" for s
    by (simp add: case_prod_unfold split: step_config.split)
  have "mset (fan_out_owners q) = mset (concat (map (?g \<circ> sort_depends_on) (p_steps p)))"
    using mset_concat_map [OF steps, of ?g] by (simp add: fan_out_owners_def)
  also have "concat (map (?g \<circ> sort_depends_on) (p_steps p)) = map (map_prod id (map_prod sort_depends_on id)) (fan_out_owners p)"
    unfolding fan_out_owners_def map_concat map_map comp_def g ..
  finally have all: "mset (fan_out_owners q) = image_mset (map_prod id (map_prod sort_depends_on id)) (mset (fan_out_owners p))"
    by simp
  have "{#x \<in># image_mset (map_prod id (map_prod sort_depends_on id)) M. fst x = i#} =
      image_mset (map_prod id (map_prod sort_depends_on id)) {#x \<in># M. fst x = i#}" for M :: "(string \<times> plan_step \<times> nat) multiset"
    by (induction M) simp_all
  then show ?thesis
    by (simp add: mset_pushes_at all image_mset.compositionality comp_def)
qed

lemma available:
  assumes "distinct (map s_id (p_steps p))"
  shows "reference_is_available q (sort_depends_on s) source = reference_is_available p s source"
proof -
  have owners: "set (pushes_at i (fan_out_owners q)) = map_prod sort_depends_on id ` set (pushes_at i (fan_out_owners p))" for i
    using arg_cong [OF fan_out_owners_mset [of i], of set_mset] by simp
  have Nil: "pushes_at i (fan_out_owners q) = [] \<longleftrightarrow> pushes_at i (fan_out_owners p) = []" for i
    using owners [of i] by (metis image_is_empty set_empty)
  have ex: "list_ex P (pushes_at i (fan_out_owners q)) \<longleftrightarrow> list_ex (P \<circ> map_prod sort_depends_on id) (pushes_at i (fan_out_owners p))"
    for P i by (simp add: list_ex_iff owners)
  have len: "length (pushes_at i (fan_out_owners q)) = length (pushes_at i (fan_out_owners p))" for i
    using arg_cong [OF fan_out_owners_mset [of i], of size] by simp
  consider (none) "pushes_at (s_id s) (fan_out_owners p) = []"
    | (one) o' n where "pushes_at (s_id s) (fan_out_owners p) = [(o', n)]"
    | (more) x y r where "pushes_at (s_id s) (fan_out_owners p) = x # y # r"
    by (metis list.exhaust surj_pair)
  then show ?thesis
  proof cases
    case none
    then have "pushes_at (s_id s) (fan_out_owners q) = []" using Nil by simp
    with none Nil [of source] show ?thesis unfolding reference_is_available_def sorted_step_sel depends [OF assms] by simp
  next
    case one
    then have "pushes_at (s_id s) (fan_out_owners q) = [(sort_depends_on o', n)]"
      using fan_out_owners_mset [of "s_id s"] by simp
    with one show ?thesis
      by (simp add: reference_is_available_def depends [OF assms] ex comp_def case_prod_unfold)
  next
    case more
    then obtain x' y' r' where "pushes_at (s_id s) (fan_out_owners q) = x' # y' # r'"
      using len [of "s_id s"] by (metis length_Suc_conv)
    with more show ?thesis by (simp add: reference_is_available_def)
  qed
qed

lemma item_var:
  "check_item_var (sort_depends_on s) (pushes_at i (item_owners q)) ph var = [] \<longleftrightarrow>
   check_item_var s (pushes_at i (item_owners p)) ph var = []"
proof -
  have "check_item_var t owners ph var = [] \<longleftrightarrow> owners \<noteq> [] \<and> (\<forall>x \<in> set owners. snd x = var)" for t owners
    by (force simp: check_item_var_def find_None_iff split: list.split option.split dest!: find_SomeD')
  moreover have "pushes_at i (item_owners q) = [] \<longleftrightarrow> pushes_at i (item_owners p) = []"
    using item_owner_pushes [of i] by (metis set_empty)
  ultimately show ?thesis by (simp add: item_owner_pushes)
qed

lemma placeholder:
  assumes "distinct (map s_id (p_steps p))"
  shows "check_placeholder q (sort_depends_on s) is_code ph = [] \<longleftrightarrow> check_placeholder p s is_code ph = []"
proof (cases "\<exists>ns name. splitn 3 (CHR ''.'') ph = [ns, name]")
  case True
  then obtain ns name where "splitn 3 (CHR ''.'') ph = [ns, name]" by blast
  then show ?thesis
    unfolding check_placeholder_def Let_def inputs keys sorted_step_sel by (simp add: item_var)
next
  case False
  then consider "splitn 3 (CHR ''.'') ph = []" | x where "splitn 3 (CHR ''.'') ph = [x]"
    | x y z r where "splitn 3 (CHR ''.'') ph = x # y # z # r"
    by (metis list.exhaust)
  then show ?thesis
    unfolding check_placeholder_def Let_def step_output [OF assms] sorted_step_sel
    by cases (simp, simp, cases "tl (tl (tl (splitn 3 (CHR ''.'') ph)))", simp_all)
qed

lemma placeholder_string:
  assumes "distinct (map s_id (p_steps p))"
  shows "check_string q (sort_depends_on s) x = [] \<longleftrightarrow> check_string p s x = []"
  by (cases x) (simp add: check_string_def placeholder [OF assms])

lemma reference_order:
  assumes "distinct (map s_id (p_steps p))"
  shows "validate_step_reference_order q = [] \<longleftrightarrow> validate_step_reference_order p = []"
proof -
  have "check_preflight_reference q (sort_depends_on s) = check_preflight_reference p s" for s
    by (simp add: fun_eq_iff check_preflight_reference_def available [OF assms])
  moreover have "check_until_reference q (sort_depends_on s) c = check_until_reference p s c" for s c
    by (simp add: fun_eq_iff check_until_reference_def depends [OF assms])
  ultimately show ?thesis
    unfolding validate_step_reference_order_def concat_map_empty all_steps
    by (simp add: step_checks_sorted split: step_config.split option.split)
qed

lemma placeholders:
  assumes "distinct (map s_id (p_steps p))"
  shows "validate_placeholders q = [] \<longleftrightarrow> validate_placeholders p = []"
  unfolding validate_placeholders_def append_is_Nil_conv concat_map_empty all_steps sorted_step_sel
    placeholder_string [OF assms] reference_order [OF assms] ..

lemma output_sources:
  assumes "distinct (map s_id (p_steps p))"
  shows "validate_plan_output_sources q = validate_plan_output_sources p"
  unfolding validate_plan_output_sources_def check_plan_output_def fun_eq_iff step_output [OF assms] outputs ..

lemma tool_step:
  assumes "distinct (map s_id (p_steps p))"
  shows "check_tool_step q catalog (sort_depends_on s) = check_tool_step p catalog s"
proof -
  have binding: "check_input_binding (sort_depends_on s) = check_input_binding s"
    unfolding fun_eq_iff check_input_binding_def sorted_step_sel by simp
  have argument: "check_argument q (sort_depends_on s) = check_argument p s"
    unfolding check_argument_def inputs sorted_step_sel binding ..
  then have "check_argument_types q (sort_depends_on s) = check_argument_types p s"
    unfolding check_argument_types_def argument by (simp add: fun_eq_iff)
  moreover have "check_allowlisted (sort_depends_on s) = check_allowlisted s"
    "check_required_arguments (sort_depends_on s) = check_required_arguments s"
    unfolding fun_eq_iff check_allowlisted_def check_required_arguments_def sorted_step_sel by simp_all
  ultimately show ?thesis
    by (simp add: check_tool_step_def routed [OF assms] split: step_config.split option.split)
qed

lemma graph:
  assumes "distinct (map s_id (p_steps p))"
  shows "validate_graph (p_steps q) = [] \<longleftrightarrow> validate_graph (p_steps p) = []"
proof -
  have "dep_edges (p_steps q) = dep_edges (p_steps p)"
    using dep_edges_mset [OF steps] by (simp add: dep_edges_sorted)
  then show ?thesis
    using assms distinct_ids by (simp add: validate_graph_Nil all_steps ids)
qed

lemma accepted: "validate q catalog = [] \<longleftrightarrow> validate p catalog = []"
proof (cases "distinct (map s_id (p_steps p))")
  case True
  have "validate_step_contracts q = [] \<longleftrightarrow> validate_step_contracts p = []"
    unfolding validate_step_contracts_def append_is_Nil_conv concat_map_empty all_steps step_contract [OF True]
      fan_out_constraints [OF True] condition_constraints [OF True] root_directory ..
  moreover have "validate_tool_bindings q catalog = [] \<longleftrightarrow> validate_tool_bindings p catalog = []"
    unfolding validate_tool_bindings_def concat_map_empty all_steps tool_step [OF True] ..
  ultimately show ?thesis
    unfolding validate_def by (simp add: structure_pass graph [OF True] placeholders [OF True] output_sources [OF True])
next
  case False
  then have "validate_step_ids r \<noteq> []" if "r \<in> {p, q}" for r
    using that distinct_ids by (auto simp: validate_step_ids_def check_step_ids_iff)
  then have "validate_structure r \<noteq> []" if "r \<in> {p, q}" for r
    using that by (auto simp: validate_structure_def)
  then show ?thesis by (auto simp: validate_def)
qed

end

text \<open>A normal form is a rearrangement of the plan.\<close>

interpretation normal: rearrangement p "normalized p" for p
proof
  show "mset (p_steps (normalized p)) = mset (map sort_depends_on (p_steps p))"
    by (simp add: normalized_def normalize_eq norm.permutes)
  show "set (im_keys (p_config (normalized p))) = set (im_keys (p_config p))"
    by (simp add: normalized_def normalize_eq sorted_by_key_def keys_extend im_keys_def [of "[]"] im_keys_def [of "p_config p"])
qed (simp_all add: normalized_def normalize_eq)

section \<open>Properties\<close>

text \<open>
  C14: normalization neither breaks nor repairs a plan: the normal form that is stored is accepted by the
  validator, under any tool catalog, exactly when the plan it was made from is.
\<close>

theorem normalization_keeps_validity: "validate (normalized p) catalog = [] \<longleftrightarrow> validate p catalog = []"
  by (rule normal.accepted)

end
