(* ===== verification/Diagnostics.thy ===== *)
theory Diagnostics
  imports Llm
begin

text \<open>
  \<^verbatim>\<open>compiler/diagnostics.rs\<close>: what of a failed run is shown to a model.  Secrets are replaced,
  and every field and their total are cut to a byte budget.

  Reading and pretty-printing JSON is \<^verbatim>\<open>serde_json\<close>'s business and a parameter.  A string
  can itself be a JSON document, so redaction recurses through the parser; the recursion is bounded
  by the length of the text, which the text of a document always exceeds.
\<close>

record json_host =
  jt_parse :: "string \<Rightarrow> json option"
  jt_pretty :: "json \<Rightarrow> string"

definition APPROX_BYTES_PER_TOKEN :: nat where "APPROX_BYTES_PER_TOKEN = 4"
definition DIAGNOSTIC_FIELD_MAX_BYTES :: nat where "DIAGNOSTIC_FIELD_MAX_BYTES = 4096"
definition DIAGNOSTIC_TOTAL_MAX_TOKENS :: nat where "DIAGNOSTIC_TOTAL_MAX_TOKENS = 4096"
definition DIAGNOSTIC_TOTAL_MAX_BYTES :: nat where
  "DIAGNOSTIC_TOTAL_MAX_BYTES = DIAGNOSTIC_TOTAL_MAX_TOKENS * APPROX_BYTES_PER_TOKEN"
definition MODEL_RESPONSE_MAX_BYTES :: nat where "MODEL_RESPONSE_MAX_BYTES = 2048"
definition REDACTED_VALUE :: string where "REDACTED_VALUE = ''[REDACTED]''"
definition REDACTED_LINE :: string where "REDACTED_LINE = ''[REDACTED SENSITIVE LINE]''"

definition SENSITIVE_KEY_PARTS :: "string list" where
  "SENSITIVE_KEY_PARTS = [''access_key'', ''api_key'', ''authorization'', ''client_secret'', ''cookie'', ''credential'',
     ''password'', ''private_key'', ''secret'', ''session'', ''token'']"

section \<open>Redaction\<close>

definition normalize_name :: "string \<Rightarrow> string" where
  "normalize_name s = map (\<lambda>c. if c = CHR ''-'' \<or> c = CHR '' '' then CHR ''_'' else c) (to_ascii_lowercase s)"

definition is_sensitive_key :: "string \<Rightarrow> bool" where
  "is_sensitive_key key = (let n = normalize_name key
     in list_ex (\<lambda>part. n = part \<or> ends_with n (fmt ''_{}'' [part])) SENSITIVE_KEY_PARTS)"

definition sensitive_line :: "string \<Rightarrow> bool" where
  "sensitive_line line = (let n = normalize_name line
     in list_ex (\<lambda>part. str_contains n (fmt ''{}='' [part]) \<or> str_contains n (fmt ''{}:'' [part]) \<or>
          str_contains n (CHR 0x22 # part @ [CHR 0x22])) SENSITIVE_KEY_PARTS)"

definition redact_lines :: "string \<Rightarrow> string" where
  "redact_lines text = join newline (map (\<lambda>line. if sensitive_line line then REDACTED_LINE else line) (str_lines text))"

text \<open>Redaction of a value, given that of strings; \<open>None\<close> when the recursion bound is used up.\<close>

fun redact_with :: "(string \<Rightarrow> string option) \<Rightarrow> json \<Rightarrow> json option" where
  "redact_with f (JObject kvs) = map_option JObject (those (map (\<lambda>(k, v).
     map_option (Pair k) (if is_sensitive_key k then Some (JString REDACTED_VALUE) else redact_with f v)) kvs))"
| "redact_with f (JArray vs) = map_option JArray (those (map (redact_with f) vs))"
| "redact_with f (JString s) = map_option JString (f s)"
| "redact_with f v = Some v"

fun redact_text :: "json_host \<Rightarrow> nat \<Rightarrow> string \<Rightarrow> string option" where
  "redact_text jt 0 s = None"
| "redact_text jt (Suc n) s = (case jt_parse jt s of
       Some v \<Rightarrow> map_option (jt_pretty jt) (redact_with (redact_text jt n) v)
     | None \<Rightarrow> Some (redact_lines s))"

text \<open>The length of the longest string of a value.\<close>

fun longest :: "json \<Rightarrow> nat" where
  "longest (JObject kvs) = fold max (map (\<lambda>(k, v). longest v) kvs) 0"
| "longest (JArray vs) = fold max (map longest vs) 0"
| "longest (JString s) = length s"
| "longest v = 0"

definition redact_sensitive_text :: "json_host \<Rightarrow> string \<Rightarrow> string" where
  "redact_sensitive_text jt s = (case redact_text jt (Suc (length s)) s of Some t \<Rightarrow> t | None \<Rightarrow> REDACTED_VALUE)"

definition redact_json :: "json_host \<Rightarrow> json \<Rightarrow> json" where
  "redact_json jt v = (case redact_with (redact_text jt (Suc (longest v))) v of Some w \<Rightarrow> w | None \<Rightarrow> JString REDACTED_VALUE)"

section \<open>Cutting to a budget\<close>

text \<open>\<^verbatim>\<open>is_char_boundary\<close>: the byte at the position does not continue a character.\<close>

definition is_char_boundary :: "string \<Rightarrow> nat \<Rightarrow> bool" where
  "is_char_boundary s i \<longleftrightarrow> i = 0 \<or> i = length s \<or> (i < length s \<and> \<not> (CHR 0x80 \<le> s ! i \<and> s ! i \<le> CHR 0xBF))"

fun boundary_below :: "string \<Rightarrow> nat \<Rightarrow> nat" where
  "boundary_below s 0 = 0"
| "boundary_below s (Suc i) = (if is_char_boundary s (Suc i) then Suc i else boundary_below s i)"

definition truncate_utf8 :: "string \<Rightarrow> nat \<Rightarrow> string" where
  "truncate_utf8 s n = take (boundary_below s (min (length s) n)) s"

definition FNV_OFFSET_BASIS :: "64 word" where "FNV_OFFSET_BASIS = 0xcbf29ce484222325"
definition FNV_PRIME :: "64 word" where "FNV_PRIME = 0x100000001b3"

definition stable_hash :: "string \<Rightarrow> 64 word" where
  "stable_hash bytes = foldl (\<lambda>hash b. xor hash (word_of_nat (of_char b)) * FNV_PRIME) FNV_OFFSET_BASIS bytes"

text \<open>\<^verbatim>\<open>{:016x}\<close>.\<close>

definition hex16 :: "64 word \<Rightarrow> string" where
  "hex16 w = map (\<lambda>i. ''0123456789abcdef'' ! (unat w div 16 ^ (15 - i) mod 16)) [0..<16]"

definition projection_header :: "string \<Rightarrow> nat \<Rightarrow> 64 word \<Rightarrow> bool \<Rightarrow> string" where
  "projection_header name original_bytes hash truncated =
     fmt ''[diagnostic field={} original_bytes={} approx_tokens={} hash=fnv1a64:{} truncated={}]''
       [name, nat_str original_bytes, nat_str ((original_bytes + (APPROX_BYTES_PER_TOKEN - 1)) div APPROX_BYTES_PER_TOKEN),
        hex16 hash, if truncated then ''true'' else ''false''] @ newline"

definition render_projection_with_hash :: "string \<Rightarrow> string \<Rightarrow> nat \<Rightarrow> nat \<Rightarrow> 64 word \<Rightarrow> string" where
  "render_projection_with_hash name value original_bytes max_bytes hash =
     (if max_bytes = 0 then []
      else let header_with_truncation = projection_header name original_bytes hash True
      in if length header_with_truncation \<ge> max_bytes then truncate_utf8 header_with_truncation max_bytes
      else let initial_excerpt = truncate_utf8 value (max_bytes - length header_with_truncation);
               header = projection_header name original_bytes hash (length initial_excerpt < length value)
      in if length header \<ge> max_bytes then truncate_utf8 header max_bytes
      else header @ truncate_utf8 value (max_bytes - length header))"

definition render_projection :: "string \<Rightarrow> string \<Rightarrow> nat \<Rightarrow> nat \<Rightarrow> string" where
  "render_projection name value original_bytes max_bytes =
     render_projection_with_hash name value original_bytes max_bytes (stable_hash value)"

definition safe_model_response :: "json_host \<Rightarrow> string \<Rightarrow> string" where
  "safe_model_response jt raw = render_projection_with_hash ''model_response'' (redact_sensitive_text jt raw) (length raw)
     MODEL_RESPONSE_MAX_BYTES (stable_hash raw)"

section \<open>The budget of a projection\<close>

text \<open>The remaining bytes are threaded through the fields; a field is left out when none remain.\<close>

definition project_pre_redacted :: "string \<Rightarrow> string \<Rightarrow> nat \<Rightarrow> nat \<Rightarrow> nat \<times> string option" where
  "project_pre_redacted name value original_bytes remaining =
     (if remaining = 0 then (remaining, None)
      else let projection = render_projection name value original_bytes (min DIAGNOSTIC_FIELD_MAX_BYTES remaining)
           in (remaining - length projection, Some projection))"

definition project_optional_text :: "json_host \<Rightarrow> string \<Rightarrow> string \<Rightarrow> nat \<Rightarrow> nat \<times> string option" where
  "project_optional_text jt name value remaining =
     (if remaining = 0 then (remaining, None)
      else project_pre_redacted name (redact_sensitive_text jt value) (length value) remaining)"

definition project_text :: "json_host \<Rightarrow> string \<Rightarrow> string \<Rightarrow> nat \<Rightarrow> nat \<times> string" where
  "project_text jt name value remaining = (case project_optional_text jt name value remaining of
       (r, Some s) \<Rightarrow> (r, s)
     | (r, None) \<Rightarrow> (r, fmt ''[diagnostic field={} omitted=true reason=total_budget_exhausted]'' [name]))"

definition diagnostic_kind :: "json \<Rightarrow> string" where
  "diagnostic_kind v = (case v of JNull \<Rightarrow> ''null'' | JBool b \<Rightarrow> ''boolean'' | JNumber n \<Rightarrow> ''number'' | JString s \<Rightarrow> ''string''
     | JArray vs \<Rightarrow> ''array'' | JObject kvs \<Rightarrow> ''object'')"

definition project_optional_json :: "json_host \<Rightarrow> string \<Rightarrow> json \<Rightarrow> nat \<Rightarrow> nat \<times> string option" where
  "project_optional_json jt name value remaining =
     (if remaining = 0 then (remaining, None)
      else let serialized = jt_pretty jt (redact_json jt value)
           in project_pre_redacted name (fmt ''kind={}'' [diagnostic_kind value] @ newline @ serialized) (length serialized) remaining)"

record repair_diagnostics =
  dg_error_message :: string
  dg_stdout :: "string option"
  dg_stderr :: "string option"
  dg_runtime_inputs :: "string option"
  dg_dependency_outputs :: "string imap"

definition project_present :: "json_host \<Rightarrow> string \<Rightarrow> string option \<Rightarrow> nat \<Rightarrow> nat \<times> string option" where
  "project_present jt name value remaining = (case value of
       Some s \<Rightarrow> if trim s = [] then (remaining, None) else project_optional_text jt name s remaining
     | None \<Rightarrow> (remaining, None))"

fun project_outputs :: "json_host \<Rightarrow> json imap \<Rightarrow> nat \<Rightarrow> nat \<times> string imap" where
  "project_outputs jt [] remaining = (remaining, [])"
| "project_outputs jt ((i, v) # kvs) remaining =
     (let (r1, p) = project_optional_json jt (fmt ''dependency_outputs.{}'' [i]) v remaining;
          (r2, ps) = project_outputs jt kvs r1
      in (r2, case p of Some s \<Rightarrow> (i, s) # ps | None \<Rightarrow> ps))"

definition repair_projection :: "json_host \<Rightarrow> string \<Rightarrow> string option \<Rightarrow> string option \<Rightarrow> json \<Rightarrow> json imap \<Rightarrow>
    repair_diagnostics" where
  "repair_projection jt error_message stdout stderr runtime_inputs dependency_outputs =
     (let (r1, e) = project_text jt ''error_message'' error_message DIAGNOSTIC_TOTAL_MAX_BYTES;
          (r2, out) = project_present jt ''stdout'' stdout r1;
          (r3, err) = project_present jt ''stderr'' stderr r2;
          (r4, inputs) = (if is_null runtime_inputs then (r3, None)
             else project_optional_json jt ''runtime_inputs'' runtime_inputs r3);
          (r5, outputs) = project_outputs jt dependency_outputs r4
      in \<lparr>dg_error_message = e, dg_stdout = out, dg_stderr = err, dg_runtime_inputs = inputs,
          dg_dependency_outputs = outputs\<rparr>)"

text \<open>The run history of a plan edit; a run whose JSON form fails is \<open>None\<close>.\<close>

fun history_projection_from :: "json_host \<Rightarrow> nat \<Rightarrow> json option list \<Rightarrow> nat \<Rightarrow> string list" where
  "history_projection_from jt i [] remaining = []"
| "history_projection_from jt i (None # runs) remaining = history_projection_from jt (i + 1) runs remaining"
| "history_projection_from jt i (Some v # runs) remaining =
     (let (r, p) = project_optional_json jt (fmt ''run_history[{}]'' [nat_str i]) v remaining
      in (case p of Some s \<Rightarrow> [s] | None \<Rightarrow> []) @ history_projection_from jt (i + 1) runs r)"

definition history_projection :: "json_host \<Rightarrow> json option list \<Rightarrow> string list" where
  "history_projection jt runs = history_projection_from jt 0 runs DIAGNOSTIC_TOTAL_MAX_BYTES"

section \<open>Bounds\<close>

lemma boundary_below_le: "boundary_below s i \<le> i"
  by (induction s i rule: boundary_below.induct) auto

lemma boundary_below_boundary: "is_char_boundary s (boundary_below s i)"
  by (induction s i rule: boundary_below.induct) (auto simp: is_char_boundary_def)

lemma truncate_utf8_length: "length (truncate_utf8 s n) \<le> n"
  using boundary_below_le [of s "min (length s) n"] by (simp add: truncate_utf8_def)

lemma render_with_hash_length: "length (render_projection_with_hash name value original_bytes n hash) \<le> n"
  using truncate_utf8_length by (simp add: render_projection_with_hash_def Let_def) (metis add.commute le_diff_conv2 nat_le_linear)

lemma project_pre_redacted_length:
  assumes "project_pre_redacted name value b r = (r', p)"
  shows "r' + (case p of Some s \<Rightarrow> length s | None \<Rightarrow> 0) = r \<and> (\<forall>s. p = Some s \<longrightarrow> length s \<le> DIAGNOSTIC_FIELD_MAX_BYTES)"
  using assms render_with_hash_length [of name "value" b "min DIAGNOSTIC_FIELD_MAX_BYTES r" "stable_hash value"]
  by (auto simp: project_pre_redacted_def render_projection_def Let_def split: if_splits)

text \<open>The bytes of an optional field, and what every projected field keeps.\<close>

definition field_bytes :: "string option \<Rightarrow> nat" where
  "field_bytes p = (case p of Some s \<Rightarrow> length s | None \<Rightarrow> 0)"

definition spends :: "nat \<Rightarrow> nat \<times> string option \<Rightarrow> bool" where
  "spends r rp \<longleftrightarrow> fst rp + field_bytes (snd rp) = r \<and> (\<forall>s. snd rp = Some s \<longrightarrow> length s \<le> DIAGNOSTIC_FIELD_MAX_BYTES)"

lemma spends_pre_redacted: "spends r (project_pre_redacted name value b r)"
  using project_pre_redacted_length [of name "value" b r] by (simp add: spends_def field_bytes_def prod_eq_iff)

lemma spends_none: "spends r (r, None)"
  by (simp add: spends_def field_bytes_def)

lemma spends_text: "spends r (project_optional_text jt name value r)"
  using spends_pre_redacted spends_none by (simp add: project_optional_text_def)

lemma spends_json: "spends r (project_optional_json jt name v r)"
  using spends_pre_redacted spends_none by (simp add: project_optional_json_def Let_def)

lemma spends_present: "spends r (project_present jt name value r)"
  using spends_text spends_none by (auto simp: project_present_def split: option.splits)

definition outputs_bytes :: "string imap \<Rightarrow> nat" where
  "outputs_bytes ps = (\<Sum>(i, s) \<leftarrow> ps. length s)"

lemma spends_outputs: "project_outputs jt kvs r = (r', ps) \<Longrightarrow>
    r' + outputs_bytes ps = r \<and> (\<forall>(i, s) \<in> set ps. length s \<le> DIAGNOSTIC_FIELD_MAX_BYTES)"
proof (induction jt kvs r arbitrary: r' ps rule: project_outputs.induct)
  case (2 jt i v kvs r)
  obtain r1 p where p: "project_optional_json jt (fmt ''dependency_outputs.{}'' [i]) v r = (r1, p)" by fastforce
  obtain r2 qs where qs: "project_outputs jt kvs r1 = (r2, qs)" by fastforce
  have "spends r (r1, p)" using spends_json p by metis
  with 2 "2.IH" [OF p [symmetric] refl qs] p qs show ?case
    by (auto simp: spends_def field_bytes_def outputs_bytes_def split: option.splits)
qed (simp add: outputs_bytes_def)

lemma first_field_present: "r \<noteq> 0 \<Longrightarrow> project_text jt name value r = (r', s) \<Longrightarrow> r' + length s = r \<and> length s \<le> DIAGNOSTIC_FIELD_MAX_BYTES"
proof -
  assume a: "r \<noteq> 0" "project_text jt name value r = (r', s)"
  then have "snd (project_optional_text jt name value r) = Some s \<and> fst (project_optional_text jt name value r) = r'"
    by (auto simp: project_text_def project_optional_text_def project_pre_redacted_def Let_def split: if_splits)
  with spends_text [of r jt name "value"] show ?thesis by (simp add: spends_def field_bytes_def)
qed

definition fixed_fields :: "repair_diagnostics \<Rightarrow> string option list" where
  "fixed_fields d = [Some (dg_error_message d), dg_stdout d, dg_stderr d, dg_runtime_inputs d]"

text \<open>
  C21: Whatever a failed run left behind, the diagnostics put into a repair prompt take at most 16384 bytes together
  and 4096 each, and the excerpt of a model response kept in an error takes at most 2048 bytes.
\<close>

theorem diagnostics_within_budget:
  "(let d = repair_projection jt error_message stdout stderr runtime_inputs dependency_outputs in
    sum_list (map field_bytes (fixed_fields d)) + outputs_bytes (dg_dependency_outputs d) \<le> 16384 \<and>
    list_all (\<lambda>p. field_bytes p \<le> 4096) (fixed_fields d) \<and> list_all (\<lambda>(i, s). length s \<le> 4096) (dg_dependency_outputs d)) \<and>
    length (safe_model_response jt raw) \<le> 2048"
proof -
  obtain r1 e where e: "project_text jt ''error_message'' error_message DIAGNOSTIC_TOTAL_MAX_BYTES = (r1, e)" by fastforce
  obtain r2 out where out: "project_present jt ''stdout'' stdout r1 = (r2, out)" by fastforce
  obtain r3 err where err: "project_present jt ''stderr'' stderr r2 = (r3, err)" by fastforce
  obtain r4 ins where ins: "(if is_null runtime_inputs then (r3, None)
      else project_optional_json jt ''runtime_inputs'' runtime_inputs r3) = (r4, ins)" by fastforce
  obtain r5 outs where outs: "project_outputs jt dependency_outputs r4 = (r5, outs)" by fastforce
  have d: "repair_projection jt error_message stdout stderr runtime_inputs dependency_outputs = \<lparr>dg_error_message = e, dg_stdout = out, dg_stderr = err, dg_runtime_inputs = ins, dg_dependency_outputs = outs\<rparr>"
    unfolding repair_projection_def by (simp only: Let_def e out err ins outs prod.case)
  have limits: "DIAGNOSTIC_TOTAL_MAX_BYTES = 16384" "DIAGNOSTIC_FIELD_MAX_BYTES = 4096"
    by (simp_all add: DIAGNOSTIC_TOTAL_MAX_BYTES_def DIAGNOSTIC_TOTAL_MAX_TOKENS_def APPROX_BYTES_PER_TOKEN_def DIAGNOSTIC_FIELD_MAX_BYTES_def)
  have 1: "r1 + length e = 16384 \<and> length e \<le> 4096" using first_field_present [OF _ e] by (simp add: limits)
  have 2: "spends r1 (r2, out)" "spends r2 (r3, err)" using spends_present out err by metis+
  have 3: "spends r3 (r4, ins)" using ins spends_json [of r3] spends_none [of r3] by (metis (full_types))
  have 4: "r5 + outputs_bytes outs = r4" "list_all (\<lambda>(i, s). length s \<le> 4096) outs"
    using spends_outputs [OF outs] by (auto simp: limits list_all_iff)
  have "field_bytes p \<le> 4096" if "spends r (r', p)" for r r' p
    using that by (auto simp: spends_def field_bytes_def limits split: option.splits)
  moreover have "length (safe_model_response jt raw) \<le> 2048"
    using render_with_hash_length [of _ _ _ MODEL_RESPONSE_MAX_BYTES] by (simp add: safe_model_response_def MODEL_RESPONSE_MAX_BYTES_def)
  ultimately show ?thesis
    using 1 2 3 4 by (auto simp: fixed_fields_def d spends_def field_bytes_def)
qed

section \<open>What redaction leaves\<close>

text \<open>
  A value without secrets: what stands under a sensitive key is the placeholder, and a string is a
  document without secrets or has no sensitive line.
\<close>

inductive secret_free :: "json_host \<Rightarrow> json \<Rightarrow> bool" for jt where
  free_null: "secret_free jt JNull"
| free_bool: "secret_free jt (JBool b)"
| free_number: "secret_free jt (JNumber n)"
| free_array: "list_all (secret_free jt) vs \<Longrightarrow> secret_free jt (JArray vs)"
| free_object: "list_all (\<lambda>(k, v). if is_sensitive_key k then v = JString REDACTED_VALUE else secret_free jt v) kvs \<Longrightarrow>
    secret_free jt (JObject kvs)"
| free_document: "jt_parse jt s = Some v \<Longrightarrow> secret_free jt v \<Longrightarrow> secret_free jt (JString s)"
| free_text: "list_all (\<lambda>line. \<not> sensitive_line line) (str_lines s) \<Longrightarrow> secret_free jt (JString s)"

text \<open>
  What is used of \<^verbatim>\<open>serde_json\<close>: the text of a document is longer than any string in it, and the printed
  form of a redacted document is read back as that document.
\<close>

definition json_host_ok :: "json_host \<Rightarrow> bool" where
  "json_host_ok jt \<longleftrightarrow> (\<forall>s v. jt_parse jt s = Some v \<longrightarrow> longest v < length s) \<and>
     (\<forall>s n v w. jt_parse jt s = Some v \<longrightarrow> redact_with (redact_text jt n) v = Some w \<longrightarrow> jt_parse jt (jt_pretty jt w) = Some w)"

lemma fold_max_less: "fold max xs a < (n :: nat) \<longleftrightarrow> a < n \<and> (\<forall>x \<in> set xs. x < n)"
  by (induction xs arbitrary: a) auto

lemma those_Some: "those xs = Some ys \<longleftrightarrow> xs = map Some ys"
proof (induction xs arbitrary: ys)
  case (Cons x xs)
  show ?case by (cases x; cases ys) (auto simp: Cons)
qed auto

lemma those_total: "(\<And>x. x \<in> set xs \<Longrightarrow> x \<noteq> None) \<Longrightarrow> those xs \<noteq> None"
proof (induction xs)
  case (Cons x xs)
  then show ?case by (cases x) fastforce+
qed simp

lemma redact_with_total: "longest v < n \<Longrightarrow> (\<And>s. length s < n \<Longrightarrow> f s \<noteq> None) \<Longrightarrow> redact_with f v \<noteq> None"
proof (induction f v rule: redact_with.induct)
  case (1 f kvs)
  then show ?case by (auto simp: fold_max_less simp del: not_None_eq intro!: those_total) fastforce
next
  case (2 f vs)
  have "those (map (redact_with f) vs) \<noteq> None"
  proof (rule those_total)
    fix x
    assume "x \<in> set (map (redact_with f) vs)"
    with 2 show "x \<noteq> None" by (auto simp: fold_max_less simp del: not_None_eq)
  qed
  then show ?case by simp
qed auto

lemma redact_text_total: "json_host_ok jt \<Longrightarrow> length s < n \<Longrightarrow> redact_text jt n s \<noteq> None"
proof (induction n arbitrary: s)
  case (Suc n)
  show ?case
  proof (cases "jt_parse jt s")
    case (Some v)
    with Suc.prems have "longest v < n" by (auto simp: json_host_ok_def) (metis less_Suc_eq less_le_trans not_less_eq linorder_not_le order_less_trans)
    then have "redact_with (redact_text jt n) v \<noteq> None" by (rule redact_with_total) (use Suc in auto)
    with Some show ?thesis by auto
  qed simp
qed simp

lemma redacted_line_plain: "\<not> sensitive_line REDACTED_LINE"
  by code_simp

lemma contains_prefix: "str_contains s p \<Longrightarrow> str_contains (s @ t) p"
  by (auto simp: str_contains_iff) (metis append.assoc)

lemma sensitive_prefix: "sensitive_line s \<Longrightarrow> sensitive_line (s @ t)"
  unfolding sensitive_line_def Let_def normalize_name_def to_ascii_lowercase_def map_append list_ex_iff
  by (blast intro: contains_prefix)

definition plain_line :: "string \<Rightarrow> bool" where
  "plain_line l \<longleftrightarrow> CHR 0x0A \<notin> set l \<and> \<not> sensitive_line l"

lemma lines_from_no_newline: "CHR 0x0A \<notin> set acc \<Longrightarrow> l \<in> set (lines_from acc s) \<Longrightarrow> CHR 0x0A \<notin> set l"
  by (induction acc s rule: lines_from.induct) (auto simp: newline_def split: if_splits list.splits)

lemma lines_from_append: "CHR 0x0A \<notin> set l \<Longrightarrow> lines_from acc (l @ s) = lines_from (rev l @ acc) s"
  by (induction l arbitrary: acc) (auto simp: newline_def)

lemma line_end: "(case acc of [] \<Rightarrow> [] | a # as \<Rightarrow> if a = carriage_return then as else acc) = r \<Longrightarrow> \<exists>t. rev acc = rev r @ t"
  by (auto split: list.splits if_splits)

lemma joined_lines_plain:
  assumes "list_all plain_line ls" and "l \<in> set (str_lines (join newline ls))"
  shows "\<not> sensitive_line l"
  using assms
proof (induction newline ls rule: join.induct)
  case (2 x)
  then show ?case by (auto simp: str_lines_def plain_line_def lines_from_append [of x "[]" "[]", simplified] split: if_splits)
next
  case (3 x y ys)
  let ?acc = "rev x"
  have x: "CHR 0x0A \<notin> set x" "\<not> sensitive_line x" using "3.prems" by (auto simp: plain_line_def)
  let ?r = "case ?acc of [] \<Rightarrow> [] | a # as \<Rightarrow> if a = carriage_return then as else ?acc"
  have "str_lines (join newline (x # y # ys)) = rev ?r # str_lines (join newline (y # ys))"
    using lines_from_append [OF x(1), of "[]" "newline @ join newline (y # ys)"]
    by (simp add: str_lines_def) (simp add: newline_def)
  moreover obtain t where "x = rev ?r @ t" using line_end [of ?acc ?r] by auto
  then have "\<not> sensitive_line (rev ?r)" using x(2) sensitive_prefix by metis
  ultimately show ?case using 3 by auto
qed (simp add: str_lines_def)

lemma redact_lines_free: "secret_free jt (JString (redact_lines s))"
proof (rule free_text)
  have "CHR 0x0A \<notin> set REDACTED_LINE" by code_simp
  then have "list_all plain_line (map (\<lambda>line. if sensitive_line line then REDACTED_LINE else line) (str_lines s))"
    using lines_from_no_newline [of "[]" _ s] redacted_line_plain by (auto simp: list_all_iff plain_line_def str_lines_def)
  from joined_lines_plain [OF this] show "list_all (\<lambda>line. \<not> sensitive_line line) (str_lines (redact_lines s))"
    by (simp add: list_all_iff redact_lines_def)
qed

lemma redact_with_free: "redact_with f v = Some w \<Longrightarrow> (\<And>s t. f s = Some t \<Longrightarrow> secret_free jt (JString t)) \<Longrightarrow> secret_free jt w"
proof (induction f v arbitrary: w rule: redact_with.induct)
  case (1 f kvs)
  then obtain ws where ws: "w = JObject ws" "map (\<lambda>(k, v). map_option (Pair k)
      (if is_sensitive_key k then Some (JString REDACTED_VALUE) else redact_with f v)) kvs = map Some ws"
    by (auto simp: those_Some)
  have "if is_sensitive_key k then u = JString REDACTED_VALUE else secret_free jt u" if "(k, u) \<in> set ws" for k u
  proof -
    from that have "Some (k, u) \<in> set (map Some ws)" by auto
    then obtain v where "(k, v) \<in> set kvs" "(if is_sensitive_key k then Some (JString REDACTED_VALUE) else redact_with f v) = Some u"
      unfolding ws(2) [symmetric] by (auto split: if_splits dest!: sym [of "Some _"])
    with 1 show ?thesis by (auto split: if_splits)
  qed
  then show ?case by (auto simp: ws(1) list_all_iff intro!: free_object)
next
  case (2 f vs)
  then obtain ws where ws: "w = JArray ws" "map (redact_with f) vs = map Some ws" by (auto simp: those_Some)
  have "secret_free jt u" if "u \<in> set ws" for u
  proof -
    from that have "Some u \<in> set (map (redact_with f) vs)" by (simp add: ws(2))
    with 2 show ?thesis by auto
  qed
  then show ?case by (auto simp: ws(1) list_all_iff intro!: free_array)
qed (auto intro: secret_free.intros)

lemma redact_text_free: "json_host_ok jt \<Longrightarrow> redact_text jt n s = Some t \<Longrightarrow> secret_free jt (JString t)"
proof (induction n arbitrary: s t)
  case (Suc n)
  show ?case
  proof (cases "jt_parse jt s")
    case (Some v)
    with Suc.prems(2) obtain w where w: "redact_with (redact_text jt n) v = Some w" "t = jt_pretty jt w" by auto
    have "secret_free jt w" using redact_with_free [OF w(1)] Suc.IH [OF Suc.prems(1)] by blast
    moreover have "jt_parse jt t = Some w" using Suc.prems(1) Some w by (simp add: json_host_ok_def)
    ultimately show ?thesis by (rule_tac free_document)
  qed (use Suc.prems redact_lines_free in auto)
qed simp


text \<open>A parser and printer that know one document and its redacted form.\<close>

definition sample_doc :: json where
  "sample_doc = JObject [(''api_key'', JString ''x''), (''note'', JString ''token=1'')]"

definition hidden_doc :: json where
  "hidden_doc = JObject [(''api_key'', JString REDACTED_VALUE), (''note'', JString REDACTED_LINE)]"

definition sample_json_text :: json_host where
  "sample_json_text = \<lparr>jt_parse = \<lambda>s. if s = ''{api_key:x,note:token=1}'' then Some sample_doc
       else if s = ''{api_key:[REDACTED],note:[REDACTED SENSITIVE LINE]}'' then Some hidden_doc else None,
     jt_pretty = \<lambda>v. ''{api_key:[REDACTED],note:[REDACTED SENSITIVE LINE]}''\<rparr>"

lemmas sensitive_simps = sensitive_line_def normalize_name_def to_ascii_lowercase_def to_ascii_lower_def SENSITIVE_KEY_PARTS_def
  str_contains_def fmt.simps

lemma sample_long: "longest sample_doc = 7" "longest hidden_doc = 25"
  by code_simp+

lemma sample_texts:
  "redact_text sample_json_text (Suc n) ''token=1'' = Some REDACTED_LINE"
  "redact_text sample_json_text (Suc n) REDACTED_LINE = Some REDACTED_LINE"
proof -
  have "sensitive_line ''token=1''" by (simp add: sensitive_simps)
  moreover have "str_lines ''token=1'' = [''token=1'']" "str_lines REDACTED_LINE = [REDACTED_LINE]" by code_simp+
  ultimately have "redact_lines ''token=1'' = REDACTED_LINE" "redact_lines REDACTED_LINE = REDACTED_LINE"
    by (simp_all add: redact_lines_def redacted_line_plain)
  then show "redact_text sample_json_text (Suc n) ''token=1'' = Some REDACTED_LINE"
    "redact_text sample_json_text (Suc n) REDACTED_LINE = Some REDACTED_LINE"
    by (simp_all add: sample_json_text_def) (simp add: REDACTED_LINE_def)
qed

lemma sample_redacted:
  assumes "redact_with (redact_text sample_json_text n) v = Some w" and "v = sample_doc \<or> v = hidden_doc"
  shows "w = hidden_doc"
proof -
  have "is_sensitive_key ''api_key''" "\<not> is_sensitive_key ''note''" by code_simp+
  with assms sample_texts show ?thesis
    by (cases n) (auto simp: sample_doc_def hidden_doc_def simp del: redact_text.simps(2))
qed

lemma sample_json_host_ok: "json_host_ok sample_json_text"
proof -
  have "jt_parse sample_json_text s = Some v \<Longrightarrow> v = sample_doc \<or> v = hidden_doc" for s v
    by (auto simp: sample_json_text_def split: if_splits)
  moreover have "jt_parse sample_json_text s = Some v \<Longrightarrow> longest v < length s" for s v
    by (auto simp: sample_json_text_def sample_long split: if_splits)
  moreover have "jt_parse sample_json_text (jt_pretty sample_json_text w) = Some hidden_doc" for w
    by (simp add: sample_json_text_def)
  ultimately show ?thesis unfolding json_host_ok_def using sample_redacted by metis
qed


text \<open>
  What the markers do not catch: an assignment with a space before its operator, since spaces count as underscores,
  and a key in camel case.
\<close>

lemma spaced_assignment_not_redacted:
  "redact_lines ''password = hunter2'' = ''password = hunter2''" "\<not> is_sensitive_key ''accessToken''"
proof -
  have "str_lines ''password = hunter2'' = [''password = hunter2'']" by code_simp
  moreover have "\<not> sensitive_line ''password = hunter2''" by (simp add: sensitive_simps)
  ultimately show "redact_lines ''password = hunter2'' = ''password = hunter2''" by (simp add: redact_lines_def)
  show "\<not> is_sensitive_key ''accessToken''" by code_simp
qed

end
