(* ===== verification/Extractor.thy ===== *)
theory Extractor
  imports Diagnostics PlanTypes
begin

text \<open>
  \<^verbatim>\<open>compiler/extractor.rs\<close>: the JSON object in a model response, from a fenced block or from the
  first opening to the last closing brace; and the compiler errors of \<^verbatim>\<open>error.rs\<close>.

  A parse failure is reported with the text \<^verbatim>\<open>serde_json\<close> gives for it, a parameter.
\<close>

text \<open>\<open>CE_Panic\<close> is the panic of indexing a JSON value that is no object with a new key.\<close>

datatype compiler_error =
    CE_Api string string
  | CE_InvalidResponse string string string
  | CE_PlanValidationFailed string plan "string list"
  | CE_Config string
  | CE_Json string
  | CE_Panic

definition show_compiler_error :: "compiler_error \<Rightarrow> string" where
  "show_compiler_error e = (case e of
     CE_Api backend message \<Rightarrow> fmt ''API error from {}: {}'' [backend, message]
   | CE_InvalidResponse backend message raw \<Rightarrow> fmt ''invalid response from {}: {}'' [backend, message] @ newline @ fmt ''raw: {}'' [raw]
   | CE_PlanValidationFailed backend p errors \<Rightarrow>
       fmt ''compiled plan from {} failed deterministic validation: {}'' [backend, join ''; '' errors]
   | CE_Config m \<Rightarrow> fmt ''compiler config error: {}'' [m]
   | CE_Json m \<Rightarrow> fmt ''JSON error: {}'' [m]
   | CE_Panic \<Rightarrow> ''panic'')"

text \<open>\<^verbatim>\<open>str::rfind\<close> of a character.\<close>

definition rfind_char :: "char \<Rightarrow> string \<Rightarrow> nat option" where
  "rfind_char c s = map_option (\<lambda>i. length s - 1 - i) (find_str (rev s) [c])"

definition from_fence :: "string \<Rightarrow> string option" where
  "from_fence raw = (case find_str raw ''```json'' of
       None \<Rightarrow> None
     | Some start \<Rightarrow>
         let rest = drop (start + 7) raw;
             body = (if starts_with rest [CHR 0x0D, CHR 0x0A] then drop 2 rest
                     else if starts_with rest [CHR 0x0A] then drop 1 rest else rest)
         in map_option (\<lambda>e. trim (take e body)) (find_str body ''```''))"

definition from_braces :: "string \<Rightarrow> string option" where
  "from_braces raw = (case (find_str raw ''{'', rfind_char (CHR ''}'') raw) of
       (Some start, Some end_pos) \<Rightarrow> if end_pos < start then None else Some (take (Suc end_pos - start) (drop start raw))
     | _ \<Rightarrow> None)"

definition invalid_response :: "json_host \<Rightarrow> string \<Rightarrow> string \<Rightarrow> string \<Rightarrow> compiler_error" where
  "invalid_response jt backend message raw = CE_InvalidResponse backend message (safe_model_response jt raw)"

definition to_value :: "json_host \<Rightarrow> (string \<Rightarrow> string) \<Rightarrow> string \<Rightarrow> string \<Rightarrow> string \<Rightarrow> compiler_error + json" where
  "to_value jt why s kind raw =
     ok_or (invalid_response jt ''extractor'' (fmt ''JSON parse error ({}): {}'' [kind, why s]) raw) (jt_parse jt s)"

definition extract_json :: "json_host \<Rightarrow> (string \<Rightarrow> string) \<Rightarrow> string \<Rightarrow> string \<Rightarrow> compiler_error + json" where
  "extract_json jt why raw kind =
     (let by_braces = (\<lambda>otherwise. case from_braces raw of Some s \<Rightarrow> to_value jt why s kind raw | None \<Rightarrow> otherwise)
      in case from_fence raw of
           Some s \<Rightarrow> (case to_value jt why s kind raw of Inr v \<Rightarrow> Inr v | Inl fence_error \<Rightarrow> by_braces (Inl fence_error))
         | None \<Rightarrow> by_braces (Inl (invalid_response jt ''extractor'' (fmt ''no JSON object found in {} response'' [kind]) raw)))"

section \<open>What is extracted\<close>

text \<open>The candidates: the fenced block first, then the outermost braces.\<close>

definition json_candidates :: "string \<Rightarrow> string list" where
  "json_candidates raw = (case from_fence raw of Some s \<Rightarrow> [s] | None \<Rightarrow> []) @ (case from_braces raw of Some s \<Rightarrow> [s] | None \<Rightarrow> [])"

lemma find_char: "c \<notin> set a \<Longrightarrow> find_str (a @ c # s) [c] = Some (length a)"
  by (induction a) auto

lemma from_braces_outermost:
  assumes "CHR ''{'' \<notin> set a" and "CHR ''}'' \<notin> set c"
  shows "from_braces (a @ ''{'' @ b @ ''}'' @ c) = Some (''{'' @ b @ ''}'')"
proof -
  let ?raw = "a @ CHR ''{'' # b @ CHR ''}'' # c"
  have "find_str ?raw ''{'' = Some (length a)" using assms(1) by (rule find_char)
  moreover have "rfind_char (CHR ''}'') ?raw = Some (length a + length b + 1)"
    using find_char [of "CHR ''}''" "rev c" "rev b @ CHR ''{'' # rev a"] assms(2) by (simp add: rfind_char_def)
  ultimately show ?thesis by (simp add: from_braces_def Suc_diff_le)
qed

lemma invalid_response_short:
  "\<exists>m excerpt. invalid_response jt backend message raw = CE_InvalidResponse backend m excerpt \<and> length excerpt \<le> 2048"
  using render_with_hash_length [of _ _ _ MODEL_RESPONSE_MAX_BYTES]
  by (simp add: invalid_response_def safe_model_response_def MODEL_RESPONSE_MAX_BYTES_def)

lemma to_value_cases: "to_value jt why s kind raw = (case jt_parse jt s of Some v \<Rightarrow> Inr v
    | None \<Rightarrow> Inl (invalid_response jt ''extractor'' (fmt ''JSON parse error ({}): {}'' [kind, why s]) raw))"
  by (simp add: to_value_def ok_or_def split: option.split)

text \<open>
  Extraction gives the first candidate that parses, the fenced block before the outermost braces, and fails
  only when no candidate parses, with an excerpt of at most 2048 bytes in the error; every text between the
  first opening and the last closing brace is a candidate.
\<close>

theorem extract_json_first_candidate:
  "(case extract_json jt why raw kind of
      Inr v \<Rightarrow> List.map_filter (jt_parse jt) (json_candidates raw) \<noteq> [] \<and> v = hd (List.map_filter (jt_parse jt) (json_candidates raw))
    | Inl e \<Rightarrow> List.map_filter (jt_parse jt) (json_candidates raw) = [] \<and>
        (\<exists>message excerpt. e = CE_InvalidResponse ''extractor'' message excerpt \<and> length excerpt \<le> 2048)) \<and>
   (raw = a @ ''{'' @ b @ ''}'' @ c \<longrightarrow> CHR ''{'' \<notin> set a \<longrightarrow> CHR ''}'' \<notin> set c \<longrightarrow> ''{'' @ b @ ''}'' \<in> set (json_candidates raw))"
proof -
  have "''{'' @ b @ ''}'' \<in> set (json_candidates raw)"
    if "raw = a @ ''{'' @ b @ ''}'' @ c" "CHR ''{'' \<notin> set a" "CHR ''}'' \<notin> set c"
    using from_braces_outermost [OF that(2,3), of b] unfolding that(1) json_candidates_def by simp
  moreover have "case extract_json jt why raw kind of
      Inr v \<Rightarrow> List.map_filter (jt_parse jt) (json_candidates raw) \<noteq> [] \<and> v = hd (List.map_filter (jt_parse jt) (json_candidates raw))
    | Inl e \<Rightarrow> List.map_filter (jt_parse jt) (json_candidates raw) = [] \<and>
        (\<exists>message excerpt. e = CE_InvalidResponse ''extractor'' message excerpt \<and> length excerpt \<le> 2048)"
    by (auto simp: extract_json_def json_candidates_def to_value_cases List.map_filter_def invalid_response_short
        split: option.splits)
  ultimately show ?thesis by blast
qed

text \<open>At a text with prose around the braces: the candidate between them is found.\<close>

definition number_text :: json_host where
  "number_text = \<lparr>jt_parse = (\<lambda>s. if s = ''{}'' then Some (JObject []) else None), jt_pretty = (\<lambda>v. ''{}'')\<rparr>"

lemma extract_json_first_candidate_witness: "''{'' @ '''' @ ''}'' \<in> set (json_candidates ''so {} it is'')"
  using extract_json_first_candidate [where jt = number_text and raw = "''so {} it is''" and a = "''so ''" and b = "''''" and c = "'' it is''"]
  by simp

end
