(* ===== verification/CompilerBackend.thy ===== *)
theory CompilerBackend
  imports NormalValid Extractor
begin

text \<open>
  \<^verbatim>\<open>compiler/backend.rs\<close>: compiling a plan, proposing and correcting a repair, synthesizing a tool,
  assessing an intent and designing a solution with a model; and the compile loop of
  \<^verbatim>\<open>app/engine.rs\<close> (\<^verbatim>\<open>compile_validate_normalize\<close>).

  The completion port is a parameter over a world of its own, and so are the prompts
  (\<^verbatim>\<open>compiler/prompt.rs\<close>), the JSON parser and printer, and the decoder of a tool entry.  A session
  also keeps the completions asked for, as the telemetry events of \<^verbatim>\<open>complete_operation\<close> do.
\<close>

section \<open>Requests\<close>

datatype compiler_operation =
    OpAssess | OpCompile | OpDesign | OpDesignCorrection | OpRepairCorrection
  | OpRepairImplementation | OpRepairStrategy | OpSynthesizeTool | OpUtility

record compile_run_iteration =
  ci_iteration :: nat
  ci_status :: string
  ci_duration_ms :: "64 word"
  ci_outputs :: json
  ci_stdout :: "string option"
  ci_stderr :: "string option"
  ci_error :: "string option"

record compile_run_step =
  cs_step_id :: string
  cs_status :: string
  cs_attempt :: "32 word"
  cs_duration_ms :: "64 word option"
  cs_outputs :: json
  cs_stdout :: "string option"
  cs_stderr :: "string option"
  cs_error :: "string option"
  cs_iterations :: "compile_run_iteration list"

record compile_run_history_entry =
  ch_run_id :: string
  ch_plan_version :: "32 word"
  ch_status :: string
  ch_status_message :: "string option"
  ch_started_at :: string
  ch_inputs :: json
  ch_outputs :: json
  ch_steps :: "compile_run_step list"

record compile_request =
  cr_intent :: string
  cr_allowed_step_types :: "step_type list"
  cr_tool_catalog :: "tool_entry list"
  cr_existing_plan :: "plan option"
  cr_run_history :: "compile_run_history_entry list"
  cr_extra_context :: "string option"

record tool_synthesis_request =
  ts_name :: string
  ts_description :: string
  ts_input_schema :: json
  ts_output_schema :: json
  ts_kind_hint :: "tool_kind option"
  ts_extra_context :: "string option"

record spec_turn =
  st_role :: string
  st_content :: string

record assess_request =
  aq_intent :: string
  aq_conversation :: "spec_turn list"
  aq_tool_catalog :: "tool_entry list"
  aq_extra_context :: "string option"

record spec_input =
  si_name :: string
  si_description :: string
  si_value_type :: string
  si_input_kind :: input_kind
  si_required :: bool
  si_default :: "json option"

record spec_draft =
  sd_desired_outcome :: string
  sd_acceptance_criteria :: "string list"
  sd_inputs :: "spec_input list"

record intent_assessment =
  ia_confidence :: number
  ia_needs_clarification :: bool
  ia_question :: "string option"
  ia_spec :: spec_draft

record recommended_tool =
  rt_name :: string
  rt_reason :: string

record outline_step =
  os_name :: string
  os_step_kind :: string
  os_description :: string

record solution_design =
  de_title :: string
  de_summary :: string
  de_recommended_tools :: "recommended_tool list"
  de_execution_outline :: "outline_step list"

record design_request =
  dq_spec :: spec_draft
  dq_conversation :: "spec_turn list"
  dq_tool_catalog :: "tool_entry list"
  dq_previous_design :: "solution_design option"
  dq_feedback :: "string option"
  dq_extra_context :: "string option"

datatype outline_step_kind = OkToolCall | OkPromptCall | OkCodeCall | OkAgentCall | OkCondition | OkFanOut | OkHuman

definition outline_kind_names :: "(string \<times> outline_step_kind) list" where
  "outline_kind_names = [(''tool_call'', OkToolCall), (''prompt_call'', OkPromptCall), (''code_call'', OkCodeCall),
     (''agent_call'', OkAgentCall), (''condition'', OkCondition), (''fan_out'', OkFanOut), (''human'', OkHuman)]"

definition outline_kind :: "outline_step \<Rightarrow> outline_step_kind option" where
  "outline_kind s = map_of outline_kind_names (os_step_kind s)"

section \<open>The backend\<close>

record prompts =
  pr_compile_system :: "bool \<Rightarrow> string"
  pr_compile_user :: "compile_request \<Rightarrow> string"
  pr_strategy_system :: string
  pr_strategy_user :: "repair_request \<Rightarrow> string"
  pr_repair_system :: string
  pr_implementation_user :: "repair_request \<Rightarrow> json \<Rightarrow> string"
  pr_correction_user :: "repair_request \<Rightarrow> patch \<Rightarrow> string \<Rightarrow> string"
  pr_tool_system :: string
  pr_tool_user :: "tool_synthesis_request \<Rightarrow> string"
  pr_assess_system :: string
  pr_assess_user :: "assess_request \<Rightarrow> string"
  pr_design_system :: string
  pr_design_user :: "design_request \<Rightarrow> string"

record 'w session =
  ss_world :: 'w
  ss_calls :: "(compiler_operation \<times> nat) list"

record 'w backend =
  be_profile :: llm_profile
  be_complete :: "llm_profile \<Rightarrow> completion_request \<Rightarrow> ('w, llm_error + completion_response) effect"
  be_uuid :: "'w \<Rightarrow> string"
  be_now :: "'w \<Rightarrow> instant"
  be_llm :: llm_host
  be_json :: json_host
  be_parse_error :: "string \<Rightarrow> string"
  be_wire :: wire
  be_tool_entry :: "json \<Rightarrow> tool_entry option"
  be_prompts :: prompts

type_synonym ('w, 'a) compiling = "('w session, compiler_error + 'a) effect"

definition cret :: "'a \<Rightarrow> ('w, 'a) compiling" where
  "cret v s = (s, Inr v)"

definition cfail :: "compiler_error \<Rightarrow> ('w, 'a) compiling" where
  "cfail e s = (s, Inl e)"

definition clift :: "compiler_error + 'a \<Rightarrow> ('w, 'a) compiling" where
  "clift r s = (s, r)"

definition cbind :: "('w, 'a) compiling \<Rightarrow> ('a \<Rightarrow> ('w, 'b) compiling) \<Rightarrow> ('w, 'b) compiling" where
  "cbind m k s = (case m s of (s', Inl e) \<Rightarrow> (s', Inl e) | (s', Inr v) \<Rightarrow> k v s')"

text \<open>\<^verbatim>\<open>Backend::from_profile\<close> checks the profile; the rest of the record is the host.\<close>

definition checked_backend :: "'w backend \<Rightarrow> compiler_error + 'w backend" where
  "checked_backend b = (case validate_profile (be_llm b) (be_profile b) of
       Inl e \<Rightarrow> Inl (CE_Config (show_llm_error (be_llm b) e)) | Inr u \<Rightarrow> Inr b)"

definition backend_name :: "'w backend \<Rightarrow> string" where
  "backend_name b = profile_label (be_profile b)"

definition complete_operation :: "'w backend \<Rightarrow> compiler_operation \<Rightarrow> string \<Rightarrow> string \<Rightarrow> nat \<Rightarrow> ('w, string) compiling" where
  "complete_operation b op system user corrections s =
     (case be_complete b (be_profile b)
         \<lparr>cq_system = Some system, cq_user = user, cq_model = None, cq_max_tokens = lp_max_tokens (be_profile b),
          cq_temperature = lp_temperature (be_profile b)\<rparr> (ss_world s) of
        (w, r) \<Rightarrow> (\<lparr>ss_world = w, ss_calls = ss_calls s @ [(op, corrections)]\<rparr>,
          (case r of Inl e \<Rightarrow> Inl (CE_Api (backend_name b) (show_llm_error (be_llm b) e)) | Inr response \<Rightarrow> Inr (cr_text response))))"

definition complete_utility :: "'w backend \<Rightarrow> string \<Rightarrow> string \<Rightarrow> ('w, string) compiling" where
  "complete_utility b system user = complete_operation b OpUtility system user 0"

definition bad_response :: "'w backend \<Rightarrow> string \<Rightarrow> string \<Rightarrow> compiler_error" where
  "bad_response b message raw = invalid_response (be_json b) (backend_name b) message raw"

definition extract_value :: "'w backend \<Rightarrow> string \<Rightarrow> string \<Rightarrow> ('w, json) compiling" where
  "extract_value b raw kind = clift (extract_json (be_json b) (be_parse_error b) raw kind)"

section \<open>Compiling a plan\<close>

definition build_metadata :: "string \<Rightarrow> instant \<Rightarrow> compile_request \<Rightarrow> string \<Rightarrow> plan_metadata" where
  "build_metadata uuid now rq compiled_by = (case cr_existing_plan rq of
     None \<Rightarrow> \<lparr>m_id = uuid, m_version = 1, m_created_at = now, m_updated_at = now, m_compiled_by = Some compiled_by,
       m_intent = Some (cr_intent rq), m_parent_plan_id = None, m_parent_version = None, m_status = Published,
       m_solution_design = None\<rparr>
   | Some existing \<Rightarrow> (let m = p_metadata existing in
       \<lparr>m_id = m_id m, m_version = m_version m + 1, m_created_at = m_created_at m, m_updated_at = now,
        m_compiled_by = Some compiled_by, m_intent = Some (cr_intent rq), m_parent_plan_id = Some (m_id m),
        m_parent_version = Some (m_version m), m_status = m_status m, m_solution_design = m_solution_design m\<rparr>))"

definition validate_compiled_plan :: "plan \<Rightarrow> compile_request \<Rightarrow> string list" where
  "validate_compiled_plan p rq =
     map (\<lambda>s. fmt ''step '{}' emitted disallowed type {}'' [s_id s, show_step_type (step_type_of s)])
       (filter (\<lambda>s. step_type_of s \<notin> set (cr_allowed_step_types rq)) (p_steps p)) @
     map show_validation_error (validate p (catalog_new (cr_tool_catalog rq)))"

text \<open>
  \<^verbatim>\<open>value[key] = v\<close>: a null becomes an object, and any other value that is no object panics.
\<close>

definition put_member :: "string \<Rightarrow> json \<Rightarrow> json \<Rightarrow> json option" where
  "put_member k v w = (case w of
     JObject kvs \<Rightarrow> Some (JObject (obj_insert k v kvs)) | JNull \<Rightarrow> Some (JObject [(k, v)]) | _ \<Rightarrow> None)"

text \<open>What is made of a response, given the metadata.\<close>

definition compiled_plan :: "'w backend \<Rightarrow> compile_request \<Rightarrow> string \<Rightarrow> plan_metadata \<Rightarrow> json \<Rightarrow> compiler_error + plan" where
  "compiled_plan b rq raw metadata plan_json =
     try_bind (ok_or CE_Panic (put_member ''metadata'' (canon (metadata_doc (be_wire b) metadata)) plan_json)) (\<lambda>doc.
     try_bind (ok_or (bad_response b (fmt ''plan deserialisation failed: {}'' [wi_error (be_wire b) ''plan'' doc]) raw)
       (plan_of (be_wire b) doc)) (\<lambda>p.
     let violations = validate_compiled_plan p rq
     in if violations \<noteq> [] then Inl (CE_PlanValidationFailed (backend_name b) p violations) else Inr p))"

definition compile_plan :: "'w backend \<Rightarrow> compile_request \<Rightarrow> ('w, plan) compiling" where
  "compile_plan b rq =
     cbind (complete_operation b OpCompile (pr_compile_system (be_prompts b) (TAgentCall \<in> set (cr_allowed_step_types rq)))
         (pr_compile_user (be_prompts b) rq) 0) (\<lambda>raw.
     cbind (extract_value b raw ''plan'') (\<lambda>plan_json s.
       clift (compiled_plan b rq raw (build_metadata (be_uuid b (ss_world s)) (be_now b (ss_world s)) rq
         (fmt ''{}:{}'' [backend_name b, lp_model (be_profile b)])) plan_json) s))"

section \<open>The compile loop\<close>

datatype compile_failure = CompilePanic | CompileFailed string

definition regenerate_request :: "compile_request \<Rightarrow> string \<Rightarrow> compile_request" where
  "regenerate_request rq message = rq\<lparr>cr_intent := cr_intent rq @ newline @ newline @
     fmt (''Your previous response could not be parsed as plan JSON: {}. Regenerate the complete plan. '' @
       ''Return strict valid JSON, correctly escape every inline script and multiline string, and keep descriptions and scripts concise.'')
       [message]\<rparr>"

definition correction_request :: "compile_request \<Rightarrow> string list \<Rightarrow> plan \<Rightarrow> compile_request" where
  "correction_request rq errors p = rq\<lparr>cr_intent := cr_intent rq @ newline @ newline @
     ''The previous plan failed deterministic validation. Correct only the issues below and return the complete corrected plan:'' @
     newline @ bullet_list errors, cr_existing_plan := Some p\<rparr>"

text \<open>The first plan, after at most one regeneration; the flag says whether there was one.\<close>

definition first_attempt :: "'w backend \<Rightarrow> compile_request \<Rightarrow> ('w session, bool \<times> (compiler_error + plan)) effect" where
  "first_attempt b rq s = (case compile_plan b rq s of
       (s', Inl (CE_InvalidResponse backend message raw)) \<Rightarrow>
         (case compile_plan b (regenerate_request rq message) s' of (s'', r) \<Rightarrow> (s'', True, r))
     | (s', r) \<Rightarrow> (s', False, r))"

definition compile_failure_of :: "string \<Rightarrow> compiler_error \<Rightarrow> compile_failure" where
  "compile_failure_of context e =
     (if e = CE_Panic then CompilePanic else CompileFailed (fmt ''{}: {}'' [context, show_compiler_error e]))"

definition still_invalid :: "string list \<Rightarrow> compile_failure" where
  "still_invalid errors =
     CompileFailed (''the compiled plan failed validation after one correction attempt:'' @ newline @ bullet_list errors)"

definition corrected_plan :: "'w backend \<Rightarrow> compile_request \<Rightarrow> tool_catalog \<Rightarrow> string \<Rightarrow> plan \<Rightarrow> string list \<Rightarrow>
    ('w session, compile_failure + plan) effect" where
  "corrected_plan b rq catalog error_context p errors s =
     (case compile_plan b (correction_request rq errors p) s of
        (s', Inl (CE_PlanValidationFailed backend q es)) \<Rightarrow> (s', Inl (still_invalid es))
      | (s', Inl e) \<Rightarrow> (s', Inl (compile_failure_of (fmt ''{} during validation retry'' [error_context]) e))
      | (s', Inr q) \<Rightarrow>
          (let kept = q\<lparr>p_metadata := p_metadata p\<rparr>;
               remaining = validate kept catalog
           in (s', if remaining \<noteq> [] then Inl (still_invalid (map show_validation_error remaining)) else Inr (normalized kept))))"

definition compile_validate_normalize :: "'w backend \<Rightarrow> compile_request \<Rightarrow> tool_catalog \<Rightarrow> string \<Rightarrow>
    ('w session, compile_failure + plan) effect" where
  "compile_validate_normalize b rq catalog error_context s =
     (case first_attempt b rq s of (s', regenerated, got) \<Rightarrow>
        (case (case got of
             Inr p \<Rightarrow> Inr (p, [])
           | Inl (CE_PlanValidationFailed backend p errors) \<Rightarrow> Inr (p, errors)
           | Inl e \<Rightarrow> Inl (compile_failure_of
               (if regenerated then fmt ''{} during JSON regeneration'' [error_context] else error_context) e)) of
           Inl failure \<Rightarrow> (s', Inl failure)
         | Inr (p, errors) \<Rightarrow>
             (let errors' = (if errors = [] then map show_validation_error (validate p catalog) else errors)
              in if errors' = [] then (s', Inr (normalized p)) else corrected_plan b rq catalog error_context p errors' s')))"

section \<open>Repair\<close>

definition usable_action :: "json \<Rightarrow> remediation_action option" where
  "usable_action action = Option.bind (as_str (idx action ''description'')) (\<lambda>d.
     if trim d = [] then None
     else Some \<lparr>ra_description = trim d, ra_command = (case as_str (idx action ''command'') of
         None \<Rightarrow> None | Some c \<Rightarrow> if trim c = [] then None else Some (trim c))\<rparr>)"

definition parse_world_fix_strategy :: "string \<Rightarrow> instant \<Rightarrow> json \<Rightarrow> repair_request \<Rightarrow> world_fix option" where
  "parse_world_fix_strategy uuid now strategy rq =
     (if as_str (idx strategy ''failure_locus'') \<noteq> Some ''world'' then None
      else if (case idx strategy ''changes'' of JArray changes \<Rightarrow> changes \<noteq> [] | _ \<Rightarrow> False) then None
      else case idx strategy ''world_remediation'' of
        JArray actions \<Rightarrow>
          (let remediation = List.map_filter usable_action actions
           in if remediation = [] then None
              else Some (world_fix_new uuid now (m_id (p_metadata (rq_plan rq))) (m_version (p_metadata (rq_plan rq)))
                (rq_run_id rq) (rq_failing_step_id rq) (str_or (idx strategy ''diagnosis'') ''(no diagnosis provided)'') remediation))
      | _ \<Rightarrow> None)"

definition parse_patch_json :: "'w backend \<Rightarrow> string \<Rightarrow> instant \<Rightarrow> json \<Rightarrow> repair_request \<Rightarrow> string \<Rightarrow> compiler_error + patch" where
  "parse_patch_json b uuid now patch_json rq raw =
     try_bind (ok_or (bad_response b (fmt ''patch operation deserialisation failed: {}''
         [wi_error (be_wire b) ''operation'' (idx patch_json ''operation'')]) raw)
       (operation_of (be_wire b) (idx patch_json ''operation''))) (\<lambda>operation.
     Inr (patch_new uuid now (m_id (p_metadata (rq_plan rq))) (m_version (p_metadata (rq_plan rq))) (rq_run_id rq)
       (rq_failing_step_id rq) operation (str_or (idx patch_json ''rationale'') ''(no rationale provided)'')))"

text \<open>The patch in a response, with the identifier and time of the session.\<close>

definition receive_patch :: "'w backend \<Rightarrow> repair_request \<Rightarrow> string \<Rightarrow> ('w, patch) compiling" where
  "receive_patch b rq raw = cbind (extract_value b raw ''patch'') (\<lambda>patch_json s.
     clift (parse_patch_json b (be_uuid b (ss_world s)) (be_now b (ss_world s)) patch_json rq raw) s)"

definition backend_propose :: "'w backend \<Rightarrow> repair_request \<Rightarrow> ('w, repair_proposal) compiling" where
  "backend_propose b rq =
     cbind (complete_operation b OpRepairStrategy (pr_strategy_system (be_prompts b)) (pr_strategy_user (be_prompts b) rq) 0) (\<lambda>raw.
     cbind (extract_value b raw ''patch'') (\<lambda>strategy s.
       case parse_world_fix_strategy (be_uuid b (ss_world s)) (be_now b (ss_world s)) strategy rq of
         Some fix \<Rightarrow> cret (WorldFixProposal fix) s
       | None \<Rightarrow> cbind (complete_operation b OpRepairImplementation (pr_repair_system (be_prompts b))
             (pr_implementation_user (be_prompts b) rq strategy) 0) (\<lambda>raw.
           cbind (receive_patch b rq raw) (\<lambda>pt. cret (PatchProposal pt))) s))"

definition correct_patch :: "'w backend \<Rightarrow> repair_request \<Rightarrow> patch \<Rightarrow> string \<Rightarrow> ('w, patch) compiling" where
  "correct_patch b rq rejected errors =
     cbind (complete_operation b OpRepairCorrection (pr_repair_system (be_prompts b))
       (pr_correction_user (be_prompts b) rq rejected errors) 1) (receive_patch b rq)"

section \<open>Synthesizing a tool\<close>

definition synthesize_tool :: "'w backend \<Rightarrow> tool_synthesis_request \<Rightarrow> ('w, tool_entry) compiling" where
  "synthesize_tool b rq =
     cbind (complete_operation b OpSynthesizeTool (pr_tool_system (be_prompts b)) (pr_tool_user (be_prompts b) rq) 0) (\<lambda>raw.
     cbind (extract_value b raw ''tool'') (\<lambda>tool_json.
     cbind (clift (ok_or (bad_response b (fmt ''tool deserialisation failed: {}'' [wi_error (be_wire b) ''tool'' tool_json]) raw)
       (be_tool_entry b tool_json))) (\<lambda>entry.
     cret (entry\<lparr>te_name := ts_name rq, te_allowlisted := False\<rparr>))))"

section \<open>Assessing an intent\<close>

definition spec_input_of :: "json \<Rightarrow> spec_input option" where
  "spec_input_of v = Option.bind (struct_of [(''name'', False), (''description'', False), (''value_type'', False),
       (''input_kind'', True), (''required'', False), (''default'', True)] v) (\<lambda>kvs.
     Option.bind (req as_str kvs ''name'') (\<lambda>n.
     Option.bind (req as_str kvs ''description'') (\<lambda>d.
     Option.bind (req as_str kvs ''value_type'') (\<lambda>t.
     Option.bind (dflt KValue (variant_of input_kind_names) kvs ''input_kind'') (\<lambda>k.
     Option.bind (req as_bool kvs ''required'') (\<lambda>r.
     Option.bind (opt (Some \<circ> canon) kvs ''default'') (\<lambda>x.
     Some \<lparr>si_name = n, si_description = d, si_value_type = t, si_input_kind = k, si_required = r, si_default = x\<rparr>)))))))"

definition spec_draft_of :: "json \<Rightarrow> spec_draft option" where
  "spec_draft_of v = Option.bind (struct_of [(''desired_outcome'', False), (''acceptance_criteria'', False), (''inputs'', True)] v) (\<lambda>kvs.
     Option.bind (req as_str kvs ''desired_outcome'') (\<lambda>d.
     Option.bind (req (list_of as_str) kvs ''acceptance_criteria'') (\<lambda>a.
     Option.bind (dflt [] (list_of spec_input_of) kvs ''inputs'') (\<lambda>i.
     Some \<lparr>sd_desired_outcome = d, sd_acceptance_criteria = a, sd_inputs = i\<rparr>))))"

definition assessment_of :: "wire \<Rightarrow> json \<Rightarrow> intent_assessment option" where
  "assessment_of w v = Option.bind (struct_of [(''confidence'', False), (''needs_clarification'', False), (''question'', False),
       (''spec'', False)] v) (\<lambda>kvs.
     Option.bind (req (float_of w) kvs ''confidence'') (\<lambda>c.
     Option.bind (req as_bool kvs ''needs_clarification'') (\<lambda>n.
     Option.bind (opt as_str kvs ''question'') (\<lambda>q.
     Option.bind (req spec_draft_of kvs ''spec'') (\<lambda>d.
     Some \<lparr>ia_confidence = c, ia_needs_clarification = n, ia_question = q, ia_spec = d\<rparr>)))))"

text \<open>\<^verbatim>\<open>clamp(0.0, 1.0)\<close> of the number \<open>m * 2 ^ e\<close>.\<close>

definition above_one :: "number \<Rightarrow> bool" where
  "above_one n \<longleftrightarrow> (case n of NumInt i \<Rightarrow> 1 < i
     | NumFloat m e \<Rightarrow> if 0 \<le> e then 1 < m * 2 ^ nat e else 2 ^ nat (- e) < m)"

definition below_zero :: "number \<Rightarrow> bool" where
  "below_zero n \<longleftrightarrow> (case n of NumInt i \<Rightarrow> i < 0 | NumFloat m e \<Rightarrow> m < 0)"

definition clamp_unit :: "number \<Rightarrow> number" where
  "clamp_unit n = (if below_zero n then NumFloat 0 0 else if above_one n then NumFloat 1 0 else n)"

definition ALLOWED_INPUT_TYPES :: "string list" where
  "ALLOWED_INPUT_TYPES = [''string'', ''number'', ''integer'', ''boolean'', ''object'', ''array'', ''any'']"

definition blank :: "string \<Rightarrow> bool" where
  "blank s \<longleftrightarrow> trim s = []"

definition problem :: "bool \<Rightarrow> string \<Rightarrow> string list" where
  "problem c message = (if c then [message] else [])"

definition spec_input_problems :: "nat \<times> spec_input \<Rightarrow> string list" where
  "spec_input_problems = (\<lambda>(i, input).
     problem (blank (si_name input)) (fmt ''spec.inputs[{}].name must not be empty'' [nat_str i]) @
     problem (blank (si_description input)) (fmt ''spec.inputs[{}].description must not be empty'' [nat_str i]) @
     problem (si_value_type input \<notin> set ALLOWED_INPUT_TYPES)
       (fmt ''spec.inputs[{}].value_type '{}' is not supported'' [nat_str i, si_value_type input]) @
     problem (si_input_kind input \<noteq> KValue \<and> si_value_type input \<noteq> ''string'')
       (fmt ''spec.inputs[{}] input_kind '{}' requires value_type 'string', got '{}{}'' [nat_str i, show_input_kind (si_input_kind input),
         si_value_type input, squote]))"

definition assessment_problems :: "intent_assessment \<Rightarrow> string list" where
  "assessment_problems a = (let spec = ia_spec a in
     problem (blank (sd_desired_outcome spec)) ''spec.desired_outcome must not be empty'' @
     problem (sd_acceptance_criteria spec = []) ''spec.acceptance_criteria must contain at least one criterion'' @
     concat (map (\<lambda>(i, c). problem (blank c) (fmt ''spec.acceptance_criteria[{}] must not be empty'' [nat_str i]))
       (enumerate 0 (sd_acceptance_criteria spec))) @
     concat (map spec_input_problems (enumerate 0 (sd_inputs spec))) @
     problem (ia_needs_clarification a \<and> (case ia_question a of None \<Rightarrow> True | Some q \<Rightarrow> blank q))
       ''question must contain one focused question when clarification is needed'')"

definition domain_check :: "'w backend \<Rightarrow> string \<Rightarrow> string \<Rightarrow> string list \<Rightarrow> compiler_error + unit" where
  "domain_check b what raw errors =
     (if errors = [] then Inr () else Inl (bad_response b (fmt ''{} domain validation failed: {}'' [what, join ''; '' errors]) raw))"

definition validate_assessment :: "'w backend \<Rightarrow> intent_assessment \<Rightarrow> string \<Rightarrow> compiler_error + unit" where
  "validate_assessment b a raw = domain_check b ''assessment'' raw (assessment_problems a)"

definition assess :: "'w backend \<Rightarrow> assess_request \<Rightarrow> ('w, intent_assessment) compiling" where
  "assess b rq =
     cbind (complete_operation b OpAssess (pr_assess_system (be_prompts b)) (pr_assess_user (be_prompts b) rq) 0) (\<lambda>raw.
     cbind (extract_value b raw ''assessment'') (\<lambda>v.
     cbind (clift (ok_or (bad_response b (fmt ''assessment deserialisation failed: {}'' [wi_error (be_wire b) ''assessment'' v]) raw)
       (assessment_of (be_wire b) v))) (\<lambda>a.
     let a' = a\<lparr>ia_confidence := clamp_unit (ia_confidence a),
                ia_question := (if ia_needs_clarification a then ia_question a else None)\<rparr>
     in cbind (clift (validate_assessment b a' raw)) (\<lambda>u. cret a'))))"

section \<open>Designing a solution\<close>

definition MIN_OUTLINE_STEPS :: nat where "MIN_OUTLINE_STEPS = 2"
definition MAX_OUTLINE_STEPS :: nat where "MAX_OUTLINE_STEPS = 7"

definition recommended_tool_of :: "json \<Rightarrow> recommended_tool option" where
  "recommended_tool_of v = Option.bind (struct_of [(''name'', False), (''reason'', False)] v) (\<lambda>kvs.
     Option.bind (req as_str kvs ''name'') (\<lambda>n.
     Option.bind (req as_str kvs ''reason'') (\<lambda>r.
     Some \<lparr>rt_name = n, rt_reason = r\<rparr>)))"

definition outline_step_of :: "json \<Rightarrow> outline_step option" where
  "outline_step_of v = Option.bind (struct_of [(''name'', False), (''step_kind'', False), (''description'', False)] v) (\<lambda>kvs.
     Option.bind (req as_str kvs ''name'') (\<lambda>n.
     Option.bind (req as_str kvs ''step_kind'') (\<lambda>k.
     Option.bind (req as_str kvs ''description'') (\<lambda>d.
     Some \<lparr>os_name = n, os_step_kind = k, os_description = d\<rparr>))))"

definition design_of :: "json \<Rightarrow> solution_design option" where
  "design_of v = Option.bind (struct_of [(''title'', False), (''summary'', False), (''recommended_tools'', False),
       (''execution_outline'', False)] v) (\<lambda>kvs.
     Option.bind (req as_str kvs ''title'') (\<lambda>t.
     Option.bind (req as_str kvs ''summary'') (\<lambda>m.
     Option.bind (req (list_of recommended_tool_of) kvs ''recommended_tools'') (\<lambda>r.
     Option.bind (req (list_of outline_step_of) kvs ''execution_outline'') (\<lambda>ol.
     Some \<lparr>de_title = t, de_summary = m, de_recommended_tools = r, de_execution_outline = ol\<rparr>)))))"

definition recommended_tool_problems :: "string set \<Rightarrow> nat \<times> recommended_tool \<Rightarrow> string list" where
  "recommended_tool_problems known_tools = (\<lambda>(i, tool).
     (if blank (rt_name tool) then [fmt ''recommended_tools[{}].name must not be empty'' [nat_str i]]
      else problem (rt_name tool \<notin> known_tools)
        (fmt ''recommended_tools[{}] references unknown tool '{}{}'' [nat_str i, rt_name tool, squote])) @
     problem (blank (rt_reason tool)) (fmt ''recommended_tools[{}].reason must not be empty'' [nat_str i]))"

definition outline_step_problems :: "nat \<times> outline_step \<Rightarrow> string list" where
  "outline_step_problems = (\<lambda>(i, s).
     problem (blank (os_name s)) (fmt ''execution_outline[{}].name must not be empty'' [nat_str i]) @
     problem (blank (os_description s)) (fmt ''execution_outline[{}].description must not be empty'' [nat_str i]) @
     problem (outline_kind s = None)
       (fmt ''execution_outline[{}].step_kind '{}' is not supported'' [nat_str i, os_step_kind s]))"

definition design_problems :: "solution_design \<Rightarrow> design_request \<Rightarrow> string list" where
  "design_problems d rq =
     problem (blank (de_title d)) ''title must not be empty'' @
     problem (blank (de_summary d)) ''summary must not be empty'' @
     problem (\<not> (MIN_OUTLINE_STEPS \<le> length (de_execution_outline d) \<and> length (de_execution_outline d) \<le> MAX_OUTLINE_STEPS))
       (fmt ''execution_outline must contain between {} and {} steps'' [nat_str MIN_OUTLINE_STEPS, nat_str MAX_OUTLINE_STEPS]) @
     concat (map (recommended_tool_problems (te_name ` set (dq_tool_catalog rq))) (enumerate 0 (de_recommended_tools d))) @
     concat (map outline_step_problems (enumerate 0 (de_execution_outline d)))"

definition parse_design :: "'w backend \<Rightarrow> string \<Rightarrow> design_request \<Rightarrow> ('w, solution_design) compiling" where
  "parse_design b raw rq =
     cbind (extract_value b raw ''design'') (\<lambda>v.
     cbind (clift (ok_or (bad_response b (fmt ''design deserialisation failed: {}'' [wi_error (be_wire b) ''design'' v]) raw) (design_of v))) (\<lambda>d.
     cbind (clift (domain_check b ''design'' raw (design_problems d rq))) (\<lambda>u. cret d)))"

text \<open>How often a design has each kind, in the order of the kinds.\<close>

definition outline_kind_counts :: "solution_design \<Rightarrow> (string \<times> nat) list" where
  "outline_kind_counts d = (let kinds = map (\<lambda>s. to_ascii_lowercase (os_step_kind s)) (de_execution_outline d)
     in map (\<lambda>k. (k, count_list kinds k)) (sorted_list_of_set (set kinds)))"

definition missing_outline_kinds :: "solution_design \<Rightarrow> solution_design \<Rightarrow> string list" where
  "missing_outline_kinds previous revised = List.map_filter (\<lambda>(kind, n).
       let m = (case map_of (outline_kind_counts revised) kind of None \<Rightarrow> 0 | Some m \<Rightarrow> m)
       in if m < n then Some (fmt ''{} (previously {}, now {})'' [kind, nat_str n, nat_str m]) else None)
     (outline_kind_counts previous)"

definition build_design_continuity_correction :: "string \<Rightarrow> string list \<Rightarrow> string" where
  "build_design_continuity_correction user_prompt missing_kinds = user_prompt @ newline @ newline @ ''## Revision continuity check'' @ newline @
     fmt (''The proposed revision reduced or removed these outline step kinds: {}. '' @
       ''Re-read the user's feedback. If it did not explicitly request each structural '' @
       ''change, restore the affected steps and preserve their topology, including '' @
       ''fan-out boundaries. If the feedback did explicitly request the change, keep it. '' @
       ''Return the complete revised design JSON only.'') [join '', '' missing_kinds]"

definition design :: "'w backend \<Rightarrow> design_request \<Rightarrow> ('w, solution_design) compiling" where
  "design b rq = (let user = pr_design_user (be_prompts b) rq in
     cbind (complete_operation b OpDesign (pr_design_system (be_prompts b)) user 0) (\<lambda>raw.
     cbind (parse_design b raw rq) (\<lambda>d. case dq_previous_design rq of
         None \<Rightarrow> cret d
       | Some previous \<Rightarrow> (let missing_kinds = missing_outline_kinds previous d in
           if missing_kinds = [] then cret d
           else cbind (complete_operation b OpDesignCorrection (pr_design_system (be_prompts b))
               (build_design_continuity_correction user missing_kinds) 1) (\<lambda>corrected.
             parse_design b corrected rq)))))"

section \<open>Results and calls\<close>

lemma cbind_Inr: "cbind m k s = (s', Inr v) \<longleftrightarrow> (\<exists>s1 x. m s = (s1, Inr x) \<and> k x s1 = (s', Inr v))"
  by (auto simp: cbind_def split: prod.splits sum.splits)

lemma ok_or_Inr_Some: "ok_or e x = Inr v \<longleftrightarrow> x = Some v"
  by (cases x) (simp_all add: ok_or_def)

lemmas compiling_simps = cbind_Inr clift_def cret_def extract_value_def try_bind_Inr ok_or_Inr_Some

text \<open>At most \<open>n\<close> completions are asked for.\<close>

definition at_most :: "nat \<Rightarrow> ('w session, 'a) effect \<Rightarrow> bool" where
  "at_most n m \<longleftrightarrow> (\<forall>s. \<exists>cs. ss_calls (fst (m s)) = ss_calls s @ cs \<and> length cs \<le> n)"

lemma at_most_complete: "at_most 1 (complete_operation b op system user corrections)"
  by (auto simp: at_most_def complete_operation_def split: prod.splits)

lemma at_most_none: "(\<And>s. fst (m s) = s) \<Longrightarrow> at_most 0 m"
  by (simp add: at_most_def)

lemma at_most_simple: "at_most 0 (clift r)" "at_most 0 (cret v)" "at_most 0 (extract_value b raw kind)"
  by (simp_all add: at_most_def clift_def cret_def extract_value_def)

lemma at_most_mono: "at_most i m \<Longrightarrow> i \<le> n \<Longrightarrow> at_most n m"
  unfolding at_most_def by (meson le_trans)

lemma at_most_cbind:
  assumes "at_most i m" and "\<And>x. at_most j (k x)" and "i + j \<le> n"
  shows "at_most n (cbind m k)"
  unfolding at_most_def
proof
  fix s
  obtain s1 r where m: "m s = (s1, r)" by fastforce
  from assms(1) m obtain cs where cs: "ss_calls s1 = ss_calls s @ cs" "length cs \<le> i"
    unfolding at_most_def by (metis fst_conv)
  show "\<exists>cs. ss_calls (fst (cbind m k s)) = ss_calls s @ cs \<and> length cs \<le> n"
  proof (cases r)
    case (Inl e)
    with m cs assms(3) show ?thesis by (auto simp: cbind_def)
  next
    case (Inr x)
    from assms(2) [of x] obtain ds where "ss_calls (fst (k x s1)) = ss_calls s1 @ ds" "length ds \<le> j"
      unfolding at_most_def by blast
    with m Inr cs assms(3) show ?thesis by (auto simp: cbind_def)
  qed
qed

lemma at_most_state: "(\<And>s. at_most n (m s)) \<Longrightarrow> at_most n (\<lambda>s. m s s)"
  by (simp add: at_most_def)

lemma at_most_compile: "at_most 1 (compile_plan b rq)"
  unfolding compile_plan_def
  by (rule at_most_cbind [OF at_most_complete [of b]], rule at_most_cbind [OF at_most_simple(3)], rule at_most_state,
      rule at_most_simple(1)) simp_all

lemma at_most_receive: "at_most 0 (receive_patch b rq raw)"
  unfolding receive_patch_def by (rule at_most_cbind [OF at_most_simple(3)], rule at_most_state, rule at_most_simple(1)) simp

lemma at_most_correct: "at_most 1 (correct_patch b rq rejected errors)"
  unfolding correct_patch_def by (rule at_most_cbind [OF at_most_complete at_most_receive]) simp

section \<open>What the compile loop gives\<close>

lemma obj_insert_found: "map_of (obj_insert k v kvs) k = Some v"
  by (induction kvs) auto

lemma put_member_found: "put_member k v w = Some doc \<Longrightarrow> \<exists>kvs. doc = JObject kvs \<and> map_of kvs k = Some v"
  by (cases w) (auto simp: put_member_def obj_insert_found)

lemma plan_of_metadata:
  assumes "plan_of w (JObject kvs) = Some p" and "map_of kvs ''metadata'' = Some v"
  shows "metadata_of w v = Some (p_metadata p)"
  using assms by (auto simp: plan_of_def struct_of_def req_def bind_eq_Some_conv split: if_splits)

lemma compiled_plan_cases:
  assumes "times_roundtrip (be_wire b)"
  shows "(case compiled_plan b rq raw m v of
      Inr p \<Rightarrow> p_metadata p = m \<and> validate_compiled_plan p rq = []
    | Inl (CE_PlanValidationFailed backend p errors) \<Rightarrow> p_metadata p = m \<and> errors = validate_compiled_plan p rq \<and> errors \<noteq> []
    | Inl e \<Rightarrow> True)"
proof (cases "put_member ''metadata'' (canon (metadata_doc (be_wire b) m)) v")
  case (Some doc)
  then obtain kvs where k: "doc = JObject kvs" "map_of kvs ''metadata'' = Some (canon (metadata_doc (be_wire b) m))"
    using put_member_found by blast
  then have "p_metadata p = m" if "plan_of (be_wire b) doc = Some p" for p
    using plan_of_metadata that as_value.metadata_view [OF assms, of m] by fastforce
  with Some show ?thesis
    by (cases "plan_of (be_wire b) doc")
      (auto simp: compiled_plan_def try_bind_def ok_or_def bad_response_def invalid_response_def Let_def)
qed (simp add: compiled_plan_def try_bind_def ok_or_def)

text \<open>A result of a compilation that carries a plan: it has the given metadata, and no violation unless it is a failure.\<close>

definition stamped :: "compile_request \<Rightarrow> plan_metadata \<Rightarrow> compiler_error + plan \<Rightarrow> bool" where
  "stamped rq m r \<longleftrightarrow> (case r of
      Inr p \<Rightarrow> p_metadata p = m \<and> validate_compiled_plan p rq = []
    | Inl (CE_PlanValidationFailed backend p errors) \<Rightarrow> p_metadata p = m \<and> errors \<noteq> []
    | Inl e \<Rightarrow> True)"

definition metadata_at :: "'w backend \<Rightarrow> compile_request \<Rightarrow> 'w \<Rightarrow> plan_metadata" where
  "metadata_at b rq w = build_metadata (be_uuid b w) (be_now b w) rq (fmt ''{}:{}'' [backend_name b, lp_model (be_profile b)])"

lemma extract_json_invalid: "extract_json jt why raw kind = Inl e \<Longrightarrow> \<exists>backend m x. e = CE_InvalidResponse backend m x"
  by (auto simp: extract_json_def to_value_cases invalid_response_def split: option.splits)

lemma compile_plan_stamped:
  assumes "times_roundtrip (be_wire b)"
  shows "\<exists>w. stamped rq (metadata_at b rq w) (snd (compile_plan b rq s))"
proof -
  obtain s1 r where c: "complete_operation b OpCompile (pr_compile_system (be_prompts b) (TAgentCall \<in> set (cr_allowed_step_types rq)))
      (pr_compile_user (be_prompts b) rq) 0 s = (s1, r)" by fastforce
  show ?thesis
  proof (cases r)
    case (Inl e)
    then have "\<exists>backend m. e = CE_Api backend m" using c by (auto simp: complete_operation_def split: prod.splits sum.splits)
    with c Inl show ?thesis by (auto simp: compile_plan_def cbind_def stamped_def)
  next
    case (Inr raw)
    show ?thesis
    proof (cases "extract_json (be_json b) (be_parse_error b) raw ''plan''")
      case (Inl e)
      with extract_json_invalid [OF this] c Inr show ?thesis
        by (auto simp: compile_plan_def cbind_def stamped_def extract_value_def clift_def)
    next
      case v: (Inr v)
      from compiled_plan_cases [OF assms, where rq = rq and raw = raw and m = "metadata_at b rq (ss_world s1)" and v = v]
      have "stamped rq (metadata_at b rq (ss_world s1)) (compiled_plan b rq raw (metadata_at b rq (ss_world s1)) v)"
        by (auto simp: stamped_def split: sum.splits compiler_error.splits)
      then show ?thesis using c Inr v
        by (auto simp: compile_plan_def cbind_def extract_value_def clift_def metadata_at_def)
    qed
  qed
qed

text \<open>The request with another intent, as the loop asks again.\<close>

lemma stamped_intent: "validate_compiled_plan p (rq\<lparr>cr_intent := i\<rparr>) = validate_compiled_plan p rq"
    "validate_compiled_plan p (rq\<lparr>cr_intent := i, cr_existing_plan := e\<rparr>) = validate_compiled_plan p rq"
  by (simp_all add: validate_compiled_plan_def)

lemma first_attempt_stamped:
  assumes "times_roundtrip (be_wire b)"
  shows "\<exists>w i. stamped rq (metadata_at b (rq\<lparr>cr_intent := i\<rparr>) w) (snd (snd (first_attempt b rq s)))"
proof -
  obtain s1 r where c: "compile_plan b rq s = (s1, r)" by fastforce
  show ?thesis
  proof (cases "\<exists>backend m raw. r = Inl (CE_InvalidResponse backend m raw)")
    case True
    then obtain backend m raw where r: "r = Inl (CE_InvalidResponse backend m raw)" by blast
    obtain s2 r2 where c2: "compile_plan b (regenerate_request rq m) s1 = (s2, r2)" by fastforce
    from compile_plan_stamped [OF assms, of "regenerate_request rq m" s1] c2
    obtain w where "stamped (regenerate_request rq m) (metadata_at b (regenerate_request rq m) w) r2" by auto
    then have "\<exists>i. stamped rq (metadata_at b (rq\<lparr>cr_intent := i\<rparr>) w) r2"
      unfolding regenerate_request_def stamped_def stamped_intent by blast
    with c r c2 show ?thesis by (auto simp: first_attempt_def)
  next
    case False
    from compile_plan_stamped [OF assms, of rq s] c obtain w where w: "stamped rq (metadata_at b rq w) r" by auto
    have "snd (snd (first_attempt b rq s)) = r" using c False
      by (cases r; (rename_tac e, case_tac e)?) (auto simp: first_attempt_def)
    with w show ?thesis by (metis compile_request.surjective compile_request.update_convs(1))
  qed
qed

lemma at_most_first: "at_most 2 (first_attempt b rq)"
  unfolding at_most_def
proof
  fix s
  obtain s1 r where c: "compile_plan b rq s = (s1, r)" by fastforce
  from at_most_compile [of b rq] c obtain cs where cs: "ss_calls s1 = ss_calls s @ cs" "length cs \<le> 1"
    unfolding at_most_def by (metis fst_conv)
  show "\<exists>cs. ss_calls (fst (first_attempt b rq s)) = ss_calls s @ cs \<and> length cs \<le> 2"
  proof (cases "\<exists>backend m raw. r = Inl (CE_InvalidResponse backend m raw)")
    case True
    then obtain backend m raw where r: "r = Inl (CE_InvalidResponse backend m raw)" by blast
    obtain s2 r2 where c2: "compile_plan b (regenerate_request rq m) s1 = (s2, r2)" by fastforce
    from at_most_compile [of b "regenerate_request rq m"] c2 obtain ds where "ss_calls s2 = ss_calls s1 @ ds" "length ds \<le> 1"
      unfolding at_most_def by (metis fst_conv)
    with c r c2 cs show ?thesis by (auto simp: first_attempt_def)
  next
    case False
    then have "fst (first_attempt b rq s) = s1" using c by (cases r; (rename_tac e, case_tac e)?) (auto simp: first_attempt_def)
    with cs show ?thesis by auto
  qed
qed

lemma validate_compiled_Nil: "validate_compiled_plan p rq = [] \<longleftrightarrow>
    (\<forall>s \<in> set (p_steps p). step_type_of s \<in> set (cr_allowed_step_types rq)) \<and> validate p (catalog_new (cr_tool_catalog rq)) = []"
  by (auto simp: validate_compiled_plan_def filter_empty_conv)

lemma normalized_step_types: "step_type_of ` set (p_steps (normalized p)) = step_type_of ` set (p_steps p)"
proof -
  have "step_type_of (sort_depends_on s) = step_type_of s" for s by (simp add: sort_depends_on_def step_type_of_def)
  then show ?thesis by (simp add: normalized_def normalize_eq norm.set_order image_image)
qed

text \<open>What the loop gives back: the normal form of a plan that both catalogs accept.\<close>

definition accepted :: "compile_request \<Rightarrow> tool_catalog \<Rightarrow> plan \<Rightarrow> bool" where
  "accepted rq catalog p \<longleftrightarrow> validate_compiled_plan p rq = [] \<and> validate p catalog = []"

lemma accepted_metadata: "accepted rq catalog (with_metadata p m) \<longleftrightarrow> accepted rq catalog p"
  by (simp add: accepted_def validate_compiled_Nil validate_blind)

lemma corrected_plan_accepted:
  assumes "times_roundtrip (be_wire b)" and "corrected_plan b rq catalog error_context p errors s = (s', Inr q)"
  shows "\<exists>r. q = normalized r \<and> accepted rq catalog r \<and> p_metadata r = p_metadata p"
proof -
  obtain s1 x where c: "compile_plan b (correction_request rq errors p) s = (s1, x)" by fastforce
  with assms(2) obtain r where r: "x = Inr r" "validate (with_metadata r (p_metadata p)) catalog = []"
      "q = normalized (with_metadata r (p_metadata p))"
    by (auto simp: corrected_plan_def Let_def split: sum.splits compiler_error.splits if_splits)
  from compile_plan_stamped [OF assms(1), of "correction_request rq errors p" s] c r(1)
  have "validate_compiled_plan r (correction_request rq errors p) = []" by (auto simp: stamped_def)
  then have "validate_compiled_plan r rq = []" by (simp only: correction_request_def stamped_intent)
  with r(2) have "accepted rq catalog (with_metadata r (p_metadata p))"
    unfolding accepted_metadata by (simp add: accepted_def validate_blind)
  with r(3) show ?thesis by (intro exI [of _ "with_metadata r (p_metadata p)"]) simp
qed

lemma loop_accepted:
  assumes "times_roundtrip (be_wire b)" and "compile_validate_normalize b rq catalog error_context s = (s', Inr q)"
  shows "\<exists>r w i. q = normalized r \<and> accepted rq catalog r \<and> p_metadata r = metadata_at b (rq\<lparr>cr_intent := i\<rparr>) w"
proof -
  obtain s1 regenerated got where f: "first_attempt b rq s = (s1, regenerated, got)" by (metis prod_cases3)
  from first_attempt_stamped [OF assms(1), of rq s] f
  obtain w i where st: "stamped rq (metadata_at b (rq\<lparr>cr_intent := i\<rparr>) w) got" by auto
  show ?thesis
  proof (cases got)
    case (Inr p)
    with st have p: "p_metadata p = metadata_at b (rq\<lparr>cr_intent := i\<rparr>) w" "validate_compiled_plan p rq = []"
      by (simp_all add: stamped_def)
    show ?thesis
    proof (cases "validate p catalog = []")
      case True
      with assms(2) f Inr p show ?thesis by (auto simp: compile_validate_normalize_def accepted_def)
    next
      case False
      with assms(2) f Inr have "corrected_plan b rq catalog error_context p (map show_validation_error (validate p catalog)) s1 = (s', Inr q)"
        by (simp add: compile_validate_normalize_def Let_def)
      from corrected_plan_accepted [OF assms(1) this] p(1) show ?thesis by metis
    qed
  next
    case (Inl e)
    with assms(2) f obtain backend p errors where e: "e = CE_PlanValidationFailed backend p errors"
      by (cases e) (auto simp: compile_validate_normalize_def)
    with st Inl have p: "p_metadata p = metadata_at b (rq\<lparr>cr_intent := i\<rparr>) w" "errors \<noteq> []" by (simp_all add: stamped_def)
    with assms(2) f Inl e have "corrected_plan b rq catalog error_context p errors s1 = (s', Inr q)"
      by (simp add: compile_validate_normalize_def Let_def)
    from corrected_plan_accepted [OF assms(1) this] p(1) show ?thesis by metis
  qed
qed

lemma corrected_plan_calls: "fst (corrected_plan b rq catalog error_context p errors s) = fst (compile_plan b (correction_request rq errors p) s)"
  by (auto simp: corrected_plan_def Let_def split: prod.splits sum.splits compiler_error.splits)

lemma loop_calls:
  "\<exists>cs. ss_calls (fst (compile_validate_normalize b rq catalog error_context s)) = ss_calls s @ cs \<and> length cs \<le> 3"
proof -
  obtain s1 regenerated got where f: "first_attempt b rq s = (s1, regenerated, got)" by (metis prod_cases3)
  from at_most_first [of b rq] f obtain cs where cs: "ss_calls s1 = ss_calls s @ cs" "length cs \<le> 2"
    unfolding at_most_def by (metis fst_conv)
  have next_call: "\<exists>ds. ss_calls (fst (compile_plan b rq' s1)) = ss_calls s1 @ ds \<and> length ds \<le> 1" for rq'
    using at_most_compile [of b rq'] unfolding at_most_def by blast
  have "fst (compile_validate_normalize b rq catalog error_context s) = s1 \<or>
      (\<exists>rq'. fst (compile_validate_normalize b rq catalog error_context s) = fst (compile_plan b rq' s1))"
    using f by (auto simp: compile_validate_normalize_def Let_def corrected_plan_calls split: sum.splits compiler_error.splits)
  then show ?thesis
  proof
    assume "\<exists>rq'. fst (compile_validate_normalize b rq catalog error_context s) = fst (compile_plan b rq' s1)"
    then obtain rq' where "fst (compile_validate_normalize b rq catalog error_context s) = fst (compile_plan b rq' s1)" ..
    moreover from next_call obtain ds where "ss_calls (fst (compile_plan b rq' s1)) = ss_calls s1 @ ds" "length ds \<le> 1" by blast
    ultimately show ?thesis using cs by auto
  qed (use cs in auto)
qed

text \<open>
  C15: Whatever the model answers, the compile loop asks it at most three times, and a plan it gives back is
  in normal form and has no validation error, against the full catalog and against the tools
  the request offered, with steps of allowed types only; its metadata is not the model's but that of
  a new plan or of the next version of the plan that is edited.
\<close>

theorem compiled_plan_is_valid:
  assumes "times_roundtrip (be_wire b)" and "compile_validate_normalize b rq catalog error_context s = (s', r)"
  shows "(\<exists>cs. ss_calls s' = ss_calls s @ cs \<and> length cs \<le> 3) \<and>
    (\<forall>q. r = Inr q \<longrightarrow>
      (\<exists>p. q = normalized p) \<and> validate q catalog = [] \<and> validate q (catalog_new (cr_tool_catalog rq)) = [] \<and>
      (\<forall>st \<in> set (p_steps q). step_type_of st \<in> set (cr_allowed_step_types rq)) \<and>
      (\<exists>w intent. p_metadata q = build_metadata (be_uuid b w) (be_now b w) (rq\<lparr>cr_intent := intent\<rparr>)
        (fmt ''{}:{}'' [backend_name b, lp_model (be_profile b)])))"
proof -
  have "\<exists>cs. ss_calls s' = ss_calls s @ cs \<and> length cs \<le> 3"
    using loop_calls [of b rq catalog error_context s] assms(2) by simp
  moreover have "(\<exists>p. q = normalized p) \<and> validate q catalog = [] \<and> validate q (catalog_new (cr_tool_catalog rq)) = [] \<and>
      (\<forall>st \<in> set (p_steps q). step_type_of st \<in> set (cr_allowed_step_types rq)) \<and>
      (\<exists>w intent. p_metadata q = build_metadata (be_uuid b w) (be_now b w) (rq\<lparr>cr_intent := intent\<rparr>)
        (fmt ''{}:{}'' [backend_name b, lp_model (be_profile b)]))" if "r = Inr q" for q
  proof -
    from loop_accepted [OF assms(1)] assms(2) that obtain p w i where p: "q = normalized p" "accepted rq catalog p"
        "p_metadata p = metadata_at b (rq\<lparr>cr_intent := i\<rparr>) w" by blast
    then have "step_type_of ` set (p_steps q) \<subseteq> set (cr_allowed_step_types rq)"
      unfolding p(1) normalized_step_types by (auto simp: accepted_def validate_compiled_Nil)
    then have "\<forall>st \<in> set (p_steps q). step_type_of st \<in> set (cr_allowed_step_types rq)" by blast
    with p show ?thesis
      by (auto simp: normal.accepted accepted_def validate_compiled_Nil normalized_metadata metadata_at_def)
  qed
  ultimately show ?thesis by blast
qed

section \<open>What a repair proposal is about\<close>

lemma patch_new_fields: "pt_status (patch_new uuid now pl v r f op why) = Pending" "pt_plan_id (patch_new uuid now pl v r f op why) = pl"
    "pt_plan_version (patch_new uuid now pl v r f op why) = v" "pt_run_id (patch_new uuid now pl v r f op why) = r"
    "pt_failing_step_id (patch_new uuid now pl v r f op why) = f"
  by (simp_all add: patch_new_def)

text \<open>A patch or a world fix for the failed step of the run in a request.\<close>

definition about_request :: "repair_request \<Rightarrow> patch \<Rightarrow> bool" where
  "about_request rq pt \<longleftrightarrow> pt_status pt = Pending \<and> pt_plan_id pt = m_id (p_metadata (rq_plan rq)) \<and>
     pt_plan_version pt = m_version (p_metadata (rq_plan rq)) \<and> pt_run_id pt = rq_run_id rq \<and> pt_failing_step_id pt = rq_failing_step_id rq"

lemma receive_patch_about: "receive_patch b rq raw s = (s', Inr pt) \<Longrightarrow> about_request rq pt"
  by (auto simp: receive_patch_def compiling_simps parse_patch_json_def about_request_def patch_new_fields)

lemma correct_patch_about: "correct_patch b rq rejected errors s = (s', Inr pt) \<Longrightarrow> about_request rq pt"
  by (auto simp: correct_patch_def cbind_Inr intro: receive_patch_about)

lemma usable_action_text: "usable_action v = Some a \<Longrightarrow> ra_description a \<noteq> [] \<and> ra_command a \<noteq> Some []"
  by (auto simp: usable_action_def bind_eq_Some_conv split: if_splits option.splits)

definition fix_about_request :: "repair_request \<Rightarrow> world_fix \<Rightarrow> bool" where
  "fix_about_request rq x \<longleftrightarrow> wx_plan_id x = m_id (p_metadata (rq_plan rq)) \<and> wx_plan_version x = m_version (p_metadata (rq_plan rq)) \<and>
    wx_run_id x = rq_run_id rq \<and> wx_failing_step_id x = rq_failing_step_id rq \<and> wx_remediation x \<noteq> [] \<and>
    (\<forall>a \<in> set (wx_remediation x). ra_description a \<noteq> [] \<and> ra_command a \<noteq> Some [])"

lemma world_fix_about:
  assumes "parse_world_fix_strategy uuid now strategy rq = Some x"
  shows "fix_about_request rq x"
proof -
  from assms obtain actions diagnosis where "x = world_fix_new uuid now (m_id (p_metadata (rq_plan rq))) (m_version (p_metadata (rq_plan rq)))
      (rq_run_id rq) (rq_failing_step_id rq) diagnosis (List.map_filter usable_action actions)" "List.map_filter usable_action actions \<noteq> []"
    by (auto simp: parse_world_fix_strategy_def Let_def split: if_splits json.splits)
  then show ?thesis using usable_action_text by (fastforce simp: fix_about_request_def world_fix_new_def List.map_filter_def)
qed

definition fits :: "repair_request \<Rightarrow> repair_proposal \<Rightarrow> bool" where
  "fits rq proposal = (case proposal of PatchProposal pt \<Rightarrow> about_request rq pt | WorldFixProposal x \<Rightarrow> fix_about_request rq x)"

lemma backend_propose_fits:
  assumes "backend_propose b rq s = (s', Inr proposal)"
  shows "fits rq proposal"
proof -
  from assms obtain strategy s2 where r: "(case parse_world_fix_strategy (be_uuid b (ss_world s2)) (be_now b (ss_world s2)) strategy rq of
        Some fix \<Rightarrow> cret (WorldFixProposal fix) s2
      | None \<Rightarrow> cbind (complete_operation b OpRepairImplementation (pr_repair_system (be_prompts b))
            (pr_implementation_user (be_prompts b) rq strategy) 0) (\<lambda>raw.
          cbind (receive_patch b rq raw) (\<lambda>pt. cret (PatchProposal pt))) s2) = (s', Inr proposal)"
    unfolding backend_propose_def cbind_Inr by blast
  show ?thesis
  proof (cases "parse_world_fix_strategy (be_uuid b (ss_world s2)) (be_now b (ss_world s2)) strategy rq")
    case None
    with r receive_patch_about show ?thesis by (auto simp: cbind_Inr cret_def fits_def)
  next
    case (Some x)
    with r world_fix_about [OF Some] show ?thesis by (auto simp: cret_def fits_def)
  qed
qed

text \<open>
  The repair loop with this backend: the correction is asked for in the session the proposal leaves.
\<close>

definition with_backend :: "'w backend \<Rightarrow> 'w session \<Rightarrow> repair_env \<Rightarrow> repair_env" where
  "with_backend b s renv = renv\<lparr>
     re_propose := (\<lambda>rq. map_sum show_compiler_error id (snd (backend_propose b rq s))),
     re_correct := (\<lambda>rq pt errors. map_sum show_compiler_error id (snd (correct_patch b rq pt errors (fst (backend_propose b rq s)))))\<rparr>"

lemma with_backend_propose: "re_propose (with_backend b s renv) rq = Inr proposal \<Longrightarrow> fits rq proposal"
  using backend_propose_fits [of b rq s]
  by (cases "backend_propose b rq s"; cases "snd (backend_propose b rq s)") (auto simp: with_backend_def)

lemma with_backend_correct: "re_correct (with_backend b s renv) rq rejected errors = Inr pt \<Longrightarrow> about_request rq pt"
proof -
  assume "re_correct (with_backend b s renv) rq rejected errors = Inr pt"
  then have "snd (correct_patch b rq rejected errors (fst (backend_propose b rq s))) = Inr pt"
    by (cases "snd (correct_patch b rq rejected errors (fst (backend_propose b rq s)))") (auto simp: with_backend_def)
  then show ?thesis by (metis correct_patch_about prod.collapse)
qed

lemma correct_candidate_fits:
  assumes "correct_candidate (with_backend b s renv) rq proposed es p catalog d = (d', Done (Inr proposal))"
  shows "fits rq proposal"
proof -
  let ?renv = "with_backend b s renv"
  obtain corrected where c: "re_correct ?renv rq proposed es = Inr corrected"
    using assms by (cases "re_correct ?renv rq proposed es") (auto simp: correct_candidate_def rbind_Inr lift_sum_Done)
  with assms obtain d3 d4 x where p: "persist_validated_candidate ?renv corrected p catalog d3 = (d4, Done x)" and x: "(case x of Inr u \<Rightarrow> rok (PatchProposal corrected)
       | Inl (RE_PatchInvalid corrected_errors) \<Rightarrow> rfail (RE_PatchInvalid
           (fmt ''corrected patch remained invalid: {}; initial candidate: {}'' [corrected_errors, es]))
       | Inl e \<Rightarrow> rfail e) d4 = (d', Done (Inr proposal))"
    unfolding correct_candidate_def rbind_Inr bind_Done lift_sum_Done c map_sum.simps id_apply sum.inject by blast
  from with_backend_correct [OF c] have "fits rq (PatchProposal corrected)" by (simp add: fits_def)
  with x show ?thesis by (cases x rule: sum.exhaust) (auto simp: rok_Done split: repair_error.splits)
qed

lemma candidate_fits:
  assumes "propose_candidate (with_backend b s renv) rq p catalog d = (d', Done (Inr proposal))"
  shows "fits rq proposal"
proof -
  let ?renv = "with_backend b s renv"
  obtain first where first: "re_propose ?renv rq = Inr first"
    using assms by (cases "re_propose ?renv rq") (auto simp: propose_candidate_def rbind_Inr lift_sum_Done)
  with assms obtain d1 where r: "(case first of
      WorldFixProposal f \<Rightarrow> rbind (lift_io storage_failure (save_record (re_store ?renv) (re_world_fixes ?renv) f)) (\<lambda>u. rok (WorldFixProposal f))
    | PatchProposal proposed \<Rightarrow> bind (persist_validated_candidate ?renv proposed p catalog) (\<lambda>r. case r of
           Inr u \<Rightarrow> rok (PatchProposal proposed)
         | Inl (RE_PatchInvalid initial_errors) \<Rightarrow> correct_candidate ?renv rq proposed initial_errors p catalog
         | Inl e \<Rightarrow> rfail e)) d1 = (d', Done (Inr proposal))"
    unfolding propose_candidate_def rbind_Inr lift_sum_Done first map_sum.simps id_apply sum.inject by blast
  have ok: "fits rq first" by (rule with_backend_propose [OF first])
  show ?thesis
  proof (cases first)
    case (PatchProposal proposed)
    with r obtain d2 x where p: "persist_validated_candidate ?renv proposed p catalog d1 = (d2, Done x)" and x: "(case x of
           Inr u \<Rightarrow> rok (PatchProposal proposed)
         | Inl (RE_PatchInvalid initial_errors) \<Rightarrow> correct_candidate ?renv rq proposed initial_errors p catalog
         | Inl e \<Rightarrow> rfail e) d2 = (d', Done (Inr proposal))"
      unfolding PatchProposal repair_proposal.case bind_Done by blast
    then show ?thesis using ok PatchProposal
      by (cases x rule: sum.exhaust) (auto simp: rok_Done split: repair_error.splits intro: correct_candidate_fits)
  next
    case (WorldFixProposal f)
    with r ok show ?thesis by (auto simp: rbind_Inr rok_Done)
  qed
qed

text \<open>
  C16: With the model as its backend, the repair loop exposes only pending patches for the very version of the
  plan that was run, for the failed run and for its failed step, and world fixes for the same that
  have at least one remediation, none of them blank.
\<close>

theorem proposal_targets_failed_step:
  assumes "propose_repair (with_backend b s renv) r p catalog extra d = (d', Done (Inr proposal))"
  shows "\<exists>sr. failed_step_for_repair r = Inr sr \<and> (case proposal of
      PatchProposal pt \<Rightarrow> pt_status pt = Pending \<and> pt_plan_id pt = m_id (p_metadata p) \<and> pt_plan_version pt = m_version (p_metadata p) \<and>
        pt_run_id pt = r_id r \<and> pt_failing_step_id pt = sr_step_id sr
    | WorldFixProposal x \<Rightarrow> wx_plan_id x = m_id (p_metadata p) \<and> wx_plan_version x = m_version (p_metadata p) \<and> wx_run_id x = r_id r \<and>
        wx_failing_step_id x = sr_step_id sr \<and> wx_remediation x \<noteq> [] \<and> (\<forall>a \<in> set (wx_remediation x). ra_description a \<noteq> []))"
proof -
  from assms obtain sr packet message d0 where sr: "Inr sr = failed_step_for_repair r"
    and c: "propose_candidate (with_backend b s renv) (repair_request_for packet message r p sr catalog extra) p catalog d0 = (d', Done (Inr proposal))"
    unfolding propose_repair_def rbind_Inr bind_Done lift_sum_Done Let_def by blast
  from candidate_fits [OF c] have "fits (repair_request_for packet message r p sr catalog extra) proposal" .
  with sr [symmetric] show ?thesis
    by (auto simp: fits_def about_request_def fix_about_request_def repair_request_for_def split: repair_proposal.splits)
qed

section \<open>The intent after a regeneration\<close>

text \<open>
  A plan that is accepted after a regeneration keeps the intent it was asked for with: the request of
  the user followed by the instruction to the model, with the parse error in it.  The correction, by
  contrast, restores the metadata of the first plan.
\<close>

lemma regenerated_intent:
  assumes "times_roundtrip (be_wire b)"
    and "compile_plan b rq s = (s1, Inl (CE_InvalidResponse backend message raw))"
    and "compile_plan b (regenerate_request rq message) s1 = (s2, Inr p)" and "validate p catalog = []"
  shows "compile_validate_normalize b rq catalog error_context s = (s2, Inr (normalized p)) \<and>
    m_intent (p_metadata (normalized p)) = Some (cr_intent (regenerate_request rq message)) \<and>
    cr_intent (regenerate_request rq message) \<noteq> cr_intent rq"
proof -
  have "first_attempt b rq s = (s2, True, Inr p)" using assms(2,3) by (simp add: first_attempt_def)
  then have "compile_validate_normalize b rq catalog error_context s = (s2, Inr (normalized p))"
    using assms(4) by (simp add: compile_validate_normalize_def)
  moreover from compile_plan_stamped [OF assms(1), of "regenerate_request rq message" s1] assms(3)
  have "m_intent (p_metadata p) = Some (cr_intent (regenerate_request rq message))"
    by (auto simp: stamped_def metadata_at_def build_metadata_def Let_def split: option.splits)
  ultimately show ?thesis by (simp add: normalized_metadata regenerate_request_def newline_def)
qed

section \<open>A model that answers from a list\<close>

definition answering :: "(string \<Rightarrow> json option) \<Rightarrow> string list backend" where
  "answering parse = \<lparr>be_profile = demo_profile OpenAiChat ''model'',
     be_complete = \<lambda>profile request w. (tl w, Inr \<lparr>cr_text = hd w, cr_input_tokens = None, cr_output_tokens = None, cr_usage = None\<rparr>),
     be_uuid = \<lambda>w. ''new'', be_now = \<lambda>w. 0, be_llm = anthropic_host, be_json = \<lparr>jt_parse = parse, jt_pretty = \<lambda>v. ''{}''\<rparr>,
     be_parse_error = \<lambda>s. ''unreadable'', be_wire = demo_wire, be_tool_entry = \<lambda>v. None,
     be_prompts = \<lparr>pr_compile_system = \<lambda>agents. ''compile'', pr_compile_user = cr_intent, pr_strategy_system = ''diagnose'',
       pr_strategy_user = rq_error_message, pr_repair_system = ''repair'', pr_implementation_user = \<lambda>rq v. rq_error_message rq,
       pr_correction_user = \<lambda>rq pt errors. errors, pr_tool_system = ''tool'', pr_tool_user = ts_name, pr_assess_system = ''assess'',
       pr_assess_user = aq_intent, pr_design_system = ''design'', pr_design_user = \<lambda>rq. ''design''\<rparr>\<rparr>"

definition answers :: "string list \<Rightarrow> string list session" where
  "answers texts = \<lparr>ss_world = texts, ss_calls = []\<rparr>"

definition review_request :: compile_request where
  "review_request = \<lparr>cr_intent = ''review'', cr_allowed_step_types = [TPromptCall], cr_tool_catalog = [], cr_existing_plan = None,
     cr_run_history = [], cr_extra_context = None\<rparr>"

definition plan_answer :: "string list backend" where
  "plan_answer = answering (\<lambda>s. if s = ''{}'' then Some (plan_doc demo_wire review_plan) else None)"

lemma braces_answer: "parse ''{}'' = Some v \<Longrightarrow> extract_value (answering parse) ''{}'' kind s = (s, Inr v)"
  by (simp add: extract_value_def clift_def extract_json_def from_fence_def from_braces_def rfind_char_def to_value_cases answering_def starts_with_def)

lemma answer: "complete_operation (answering parse) op system user n \<lparr>ss_world = t # ts, ss_calls = cs\<rparr> =
    (\<lparr>ss_world = ts, ss_calls = cs @ [(op, n)]\<rparr>, Inr t)"
  by (simp add: complete_operation_def answering_def)

lemma answering_sel: "be_uuid (answering parse) w = ''new''" "be_now (answering parse) w = 0" "be_wire (answering parse) = demo_wire"
  by (simp_all add: answering_def)

definition review_metadata :: plan_metadata where
  "review_metadata = \<lparr>m_id = ''new'', m_version = 1, m_created_at = 0, m_updated_at = 0, m_compiled_by = Some ''openai:m'',
     m_intent = Some ''review'', m_parent_plan_id = None, m_parent_version = None, m_status = Published, m_solution_design = None\<rparr>"

lemma review_metadata: "build_metadata (be_uuid plan_answer w) (be_now plan_answer w) review_request
    (fmt ''{}:{}'' [backend_name plan_answer, lp_model (be_profile plan_answer)]) = review_metadata"
proof -
  have "fmt ''{}:{}'' [''openai'', ''m''] = ''openai:m''" by code_simp
  then show ?thesis
    by (simp add: build_metadata_def review_request_def plan_answer_def answering_def backend_name_def demo_profile_def profile_label_def
        review_metadata_def)
qed

definition reviewed_doc :: json where
  "reviewed_doc = the (put_member ''metadata'' (canon (metadata_doc demo_wire review_metadata)) (plan_doc demo_wire review_plan))"

lemma review_compiled: "compiled_plan plan_answer review_request ''{}'' review_metadata (plan_doc demo_wire review_plan) =
    Inr (review_plan\<lparr>p_metadata := review_metadata\<rparr>)"
proof -
  have "put_member ''metadata'' (canon (metadata_doc demo_wire review_metadata)) (plan_doc demo_wire review_plan) = Some reviewed_doc"
    unfolding reviewed_doc_def by (simp add: put_member_def plan_doc_def)
  moreover have "plan_of demo_wire reviewed_doc = Some (review_plan\<lparr>p_metadata := review_metadata\<rparr>)" by code_simp
  moreover have "validate_compiled_plan (review_plan\<lparr>p_metadata := review_metadata\<rparr>) review_request = []" by code_simp
  moreover have "be_wire plan_answer = demo_wire" by (simp add: plan_answer_def answering_sel)
  ultimately show ?thesis by (simp add: compiled_plan_def try_bind_def ok_or_def)
qed

lemma compiled_plan_is_valid_witness:
  "\<exists>s' q cs. compile_validate_normalize plan_answer review_request [] ''compile'' (answers [''{}'']) = (s', Inr q) \<and>
     ss_calls s' = cs \<and> length cs \<le> 3 \<and> (\<exists>p. q = normalized p) \<and> validate q [] = []"
proof -
  let ?p = "review_plan\<lparr>p_metadata := review_metadata\<rparr>"
  have "compile_plan plan_answer review_request (answers [''{}'']) = (\<lparr>ss_world = [], ss_calls = [(OpCompile, 0)]\<rparr>, Inr ?p)"
    unfolding compile_plan_def cbind_def review_metadata
    by (simp add: plan_answer_def answers_def answer braces_answer clift_def review_compiled [unfolded plan_answer_def])
  moreover have "validate ?p [] = []" by code_simp
  ultimately have r: "compile_validate_normalize plan_answer review_request [] ''compile'' (answers [''{}'']) =
      (\<lparr>ss_world = [], ss_calls = [(OpCompile, 0)]\<rparr>, Inr (normalized ?p))"
    by (simp add: compile_validate_normalize_def first_attempt_def)
  have w: "times_roundtrip (be_wire plan_answer)" unfolding plan_answer_def answering_sel by (rule demo_times)
  from compiled_plan_is_valid [OF w r] show ?thesis using r by (auto simp: answers_def)
qed

definition patch_answer :: "string list backend" where
  "patch_answer = answering (\<lambda>s. if s = ''{}'' then Some (JObject [(''operation'', operation_doc (pt_operation rename_patch))]) else None)"

definition answered_patch :: "repair_request \<Rightarrow> patch" where
  "answered_patch rq = patch_new ''new'' 0 (m_id (p_metadata (rq_plan rq))) (m_version (p_metadata (rq_plan rq))) (rq_run_id rq)
     (rq_failing_step_id rq) (pt_operation rename_patch) ''(no rationale provided)''"

lemma patch_answered: "\<exists>s'. backend_propose patch_answer rq (answers [''{}'', ''{}'']) = (s', Inr (PatchProposal (answered_patch rq)))"
proof -
  have op: "operation_of demo_wire (operation_doc (pt_operation rename_patch)) = Some (pt_operation rename_patch)" by code_simp
  show ?thesis
    unfolding backend_propose_def receive_patch_def cbind_def
    by (simp add: patch_answer_def answers_def answer braces_answer parse_world_fix_strategy_def idx_def cret_def clift_def
        parse_patch_json_def op answering_sel str_or_def answered_patch_def try_bind_def ok_or_def)
qed

lemma proposal_targets_failed_step_witness:
  "\<exists>d' pt. propose_repair (with_backend patch_answer (answers [''{}'', ''{}'']) repair_sample) failed_sample review_plan [] None demo_disk =
      (d', Done (Inr (PatchProposal pt))) \<and> pt_status pt = Pending \<and> pt_run_id pt = ''run''"
proof -
  let ?renv = "\<lambda>g. repair_sample\<lparr>re_propose := \<lambda>rq. Inr (PatchProposal (answered_patch rq)), re_correct := g\<rparr>"
  have "case propose_repair (?renv g) failed_sample review_plan [] None demo_disk of
      (d', Done (Inr (PatchProposal pt))) \<Rightarrow> True | _ \<Rightarrow> False" for g by code_simp
  moreover have "\<exists>g. with_backend patch_answer (answers [''{}'', ''{}'']) repair_sample = ?renv g"
  proof -
    have "map_sum show_compiler_error id (snd (backend_propose patch_answer rq (answers [''{}'', ''{}'']))) =
        Inr (PatchProposal (answered_patch rq))" for rq using patch_answered [of rq] by auto
    then show ?thesis by (simp add: with_backend_def) blast
  qed
  ultimately obtain d' pt where r: "propose_repair (with_backend patch_answer (answers [''{}'', ''{}'']) repair_sample) failed_sample review_plan [] None
      demo_disk = (d', Done (Inr (PatchProposal pt)))"
    by (fastforce split: prod.splits outcome.splits sum.splits repair_proposal.splits)
  from proposal_targets_failed_step [OF r] show ?thesis using r by (auto simp: failed_sample_def run_new_def)
qed

end
