(* ===== verification/Bundle.thy ===== *)
theory Bundle
  imports NormalValid
begin

text \<open>
  Exporting and importing plans: the bundle of \<^verbatim>\<open>plan/bundle.rs\<close>, and the import of
  \<^verbatim>\<open>app/engine.rs\<close>, which validates a bundle against the local catalog and resolves a clash
  of names in the store.

  The bundle file is the text itself; the catalog and the setting that admits agent steps are
  parameters.  The in-process mutation gate is left out: operations run one after the other.
\<close>

section \<open>Bundles\<close>

definition CURRENT_FORMAT_VERSION :: "32 word" where
  "CURRENT_FORMAT_VERSION = 1"

definition empty_schema :: json where
  "empty_schema = JObject [(''type'', JString ''object'')]"

record tool_reference =
  tr_name :: string
  tr_description :: string
  tr_input_schema :: json
  tr_output_schema :: json
  tr_kind_hint :: "tool_kind option"

record plan_bundle =
  pb_format_version :: "32 word"
  pb_exported_at :: instant
  pb_app_version :: string
  pb_plan :: plan
  pb_tools :: "tool_reference list"

text \<open>An \<^verbatim>\<open>IndexSet\<close> of the elements of a list: the first occurrences, in order.\<close>

definition index_set :: "string list \<Rightarrow> string list" where
  "index_set xs = rev (remdups (rev xs))"

definition called_tool :: "plan_step \<Rightarrow> string option" where
  "called_tool s = (case s_config s of ToolCall c \<Rightarrow> Some (tc_tool c) | _ \<Rightarrow> None)"

definition called_tools :: "plan \<Rightarrow> string list" where
  "called_tools p = index_set (List.map_filter called_tool (p_steps p))"

definition tool_reference_for :: "tool_catalog \<Rightarrow> string \<Rightarrow> tool_reference" where
  "tool_reference_for catalog name = (case catalog_get catalog name of
     Some e \<Rightarrow> \<lparr>tr_name = te_name e, tr_description = te_description e, tr_input_schema = te_input_schema e,
       tr_output_schema = te_output_schema e, tr_kind_hint = Some (tool_config_kind (te_config e))\<rparr>
   | None \<Rightarrow> \<lparr>tr_name = name, tr_description = [], tr_input_schema = empty_schema, tr_output_schema = empty_schema,
       tr_kind_hint = None\<rparr>)"

definition from_plan :: "string \<Rightarrow> instant \<Rightarrow> plan \<Rightarrow> tool_catalog \<Rightarrow> plan_bundle \<times> string list" where
  "from_plan app_version now p catalog =
     (\<lparr>pb_format_version = CURRENT_FORMAT_VERSION, pb_exported_at = now, pb_app_version = app_version, pb_plan = p,
       pb_tools = map (tool_reference_for catalog) (called_tools p)\<rparr>,
      filter (\<lambda>name. catalog_get catalog name = None) (called_tools p))"

text \<open>The elements that have occurred before.\<close>

fun repeated :: "string set \<Rightarrow> string list \<Rightarrow> string list" where
  "repeated seen [] = []"
| "repeated seen (x # xs) = (if x \<in> seen then x # repeated seen xs else repeated (insert x seen) xs)"

definition reference_problems :: "plan_bundle \<Rightarrow> string list" where
  "reference_problems b =
     (let expected = called_tools (pb_plan b);
          names = map tr_name (pb_tools b);
          actual = index_set names;
          duplicates = index_set (repeated {} names);
          missing = filter (\<lambda>n. n \<notin> set actual) expected;
          extraneous = filter (\<lambda>n. n \<notin> set expected) actual;
          say = (\<lambda>template ns. if ns = [] then [] else [fmt template [join '', '' ns]])
      in say ''duplicate tool references: {}'' duplicates @
         say ''missing tool references: {}'' missing @
         say ''extraneous tool references: {}'' extraneous)"

definition preflight_bundle :: "plan_bundle \<Rightarrow> plan_error + unit" where
  "preflight_bundle b =
     (let problems = reference_problems b
      in if problems = [] then Inr ()
         else Inl (PE_Invalid (fmt ''bundle tool references do not match plan TOOL_CALL steps ({})'' [join ''; '' problems])))"

section \<open>The document\<close>

definition tool_kind_names :: "(string \<times> tool_kind) list" where
  "tool_kind_names = [(''subprocess'', KSubprocess), (''http'', KHttp), (''mcp'', KMcp)]"

fun show_tool_kind :: "tool_kind \<Rightarrow> string" where
  "show_tool_kind KSubprocess = ''subprocess''"
| "show_tool_kind KHttp = ''http''"
| "show_tool_kind KMcp = ''mcp''"

definition tool_reference_doc :: "tool_reference \<Rightarrow> json" where
  "tool_reference_doc t = JObject [(''name'', JString (tr_name t)), (''description'', JString (tr_description t)),
     (''input_schema'', tr_input_schema t), (''output_schema'', tr_output_schema t),
     (''kind_hint'', opt_json (JString \<circ> show_tool_kind) (tr_kind_hint t))]"

definition tool_reference_of :: "json \<Rightarrow> tool_reference option" where
  "tool_reference_of v = Option.bind (struct_of [(''name'', False), (''description'', True), (''input_schema'', True),
       (''output_schema'', True), (''kind_hint'', True)] v) (\<lambda>kvs.
     Option.bind (req as_str kvs ''name'') (\<lambda>n.
     Option.bind (dflt [] as_str kvs ''description'') (\<lambda>d.
     Option.bind (dflt empty_schema (Some \<circ> canon) kvs ''input_schema'') (\<lambda>i.
     Option.bind (dflt empty_schema (Some \<circ> canon) kvs ''output_schema'') (\<lambda>out.
     Option.bind (opt (variant_of tool_kind_names) kvs ''kind_hint'') (\<lambda>k.
     Some \<lparr>tr_name = n, tr_description = d, tr_input_schema = i, tr_output_schema = out, tr_kind_hint = k\<rparr>))))))"

definition bundle_doc :: "wire \<Rightarrow> plan_bundle \<Rightarrow> json" where
  "bundle_doc w b = JObject [(''format_version'', u64_json (pb_format_version b)),
     (''exported_at'', JString (wi_show_time w (pb_exported_at b))), (''app_version'', JString (pb_app_version b)),
     (''plan'', plan_doc w (pb_plan b)), (''tools'', JArray (map tool_reference_doc (pb_tools b)))]"

definition bundle_of :: "wire \<Rightarrow> json \<Rightarrow> plan_bundle option" where
  "bundle_of w v = Option.bind (struct_of [(''format_version'', False), (''exported_at'', False), (''app_version'', False),
       (''plan'', False), (''tools'', True)] v) (\<lambda>kvs.
     Option.bind (req word_of kvs ''format_version'') (\<lambda>n.
     Option.bind (req (time_of w) kvs ''exported_at'') (\<lambda>t.
     Option.bind (req as_str kvs ''app_version'') (\<lambda>a.
     Option.bind (req (plan_of w) kvs ''plan'') (\<lambda>p.
     Option.bind (dflt [] (list_of tool_reference_of) kvs ''tools'') (\<lambda>ts.
     Some \<lparr>pb_format_version = n, pb_exported_at = t, pb_app_version = a, pb_plan = p, pb_tools = ts\<rparr>))))))"

definition bundle_to_json :: "store_env \<Rightarrow> plan_bundle \<Rightarrow> plan_error + string" where
  "bundle_to_json env b = try_bind (preflight_bundle b) (\<lambda>u. Inr (se_text env (bundle_doc (se_wire env) b)))"

definition bundle_from_json :: "store_env \<Rightarrow> string \<Rightarrow> plan_error + plan_bundle" where
  "bundle_from_json env text =
     try_bind (ok_or (PE_Json (se_json_error env ''bundle'' text)) (Option.bind (se_parse env text) (bundle_of (se_wire env)))) (\<lambda>b.
     if CURRENT_FORMAT_VERSION < pb_format_version b then
       Inl (PE_Invalid (fmt ''bundle format version {} is newer than this app supports ({}) {} update the app''
         [version_str (pb_format_version b), version_str CURRENT_FORMAT_VERSION, em_dash]))
     else try_bind (preflight_bundle b) (\<lambda>u. Inr b))"

section \<open>Importing\<close>

datatype import_conflict_policy = RejectConflict | NewVersionOnConflict | DuplicateOnConflict

datatype import_outcome = Imported | ImportRejected | ImportedNewVersion | ImportedDuplicate

record import_resolution =
  ir_outcome :: import_outcome
  ir_plan :: plan
  ir_same_name_plan_ids :: "string list"

definition unavailable_plan_tools :: "tool_reference list \<Rightarrow> tool_catalog \<Rightarrow> string list" where
  "unavailable_plan_tools tools catalog = map tr_name (filter (\<lambda>t. case catalog_get catalog (tr_name t) of
     Some e \<Rightarrow> \<not> te_allowlisted e | None \<Rightarrow> True) tools)"

text \<open>Stored as a plan of its own: nothing of the imported metadata is kept but the intent.\<close>

definition save_as_new :: "store_env \<Rightarrow> plan \<Rightarrow> import_outcome \<Rightarrow> string list \<Rightarrow> (engine_error, import_resolution) rio" where
  "save_as_new env imported outcome ids =
     bind (fresh_uuid env) (\<lambda>uuid. bind (utc_now env) (\<lambda>now.
       let p = with_metadata imported (metadata_new uuid now (m_intent (p_metadata imported)))
       in rbind (lift_io EE_Storage (save_plan env p)) (\<lambda>u.
            rok \<lparr>ir_outcome = outcome, ir_plan = p, ir_same_name_plan_ids = ids\<rparr>)))"

text \<open>Stored as the next version of a local plan, with the local metadata.\<close>

definition save_as_version :: "store_env \<Rightarrow> plan \<Rightarrow> string \<Rightarrow> (engine_error, import_resolution) rio" where
  "save_as_version env imported plan_id =
     rbind (lift_io EE_Storage (load_current env plan_id)) (\<lambda>current.
       let m = p_metadata current in
       if m_version m = - 1 then
         rfail (EE_Message (fmt ''cannot import '{}' as a new version: local version counter overflowed'' [p_name imported]))
       else bind (utc_now env) (\<lambda>now.
         let p = with_metadata imported (m\<lparr>m_version := m_version m + 1, m_updated_at := now\<rparr>)
         in rbind (lift_io EE_Storage (save_plan env p)) (\<lambda>u.
              rok \<lparr>ir_outcome = ImportedNewVersion, ir_plan = p, ir_same_name_plan_ids = [plan_id]\<rparr>)))"

definition same_name :: "string \<Rightarrow> string \<Rightarrow> bool" where
  "same_name a b \<longleftrightarrow> to_ascii_lowercase a = to_ascii_lowercase b"

definition resolve_import_conflict :: "store_env \<Rightarrow> plan \<Rightarrow> import_conflict_policy \<Rightarrow> (engine_error, import_resolution) rio" where
  "resolve_import_conflict env imported policy =
     rbind (lift_io EE_Storage (open_storage env)) (\<lambda>u.
     rbind (lift_io EE_Storage (list_plans env)) (\<lambda>summaries.
     let ids = sort (map ps_id (filter (\<lambda>s. same_name (ps_name s) (p_name imported)) summaries))
     in if ids = [] then save_as_new env imported Imported ids
        else case policy of
          RejectConflict \<Rightarrow> rok \<lparr>ir_outcome = ImportRejected, ir_plan = imported, ir_same_name_plan_ids = ids\<rparr>
        | DuplicateOnConflict \<Rightarrow> save_as_new env imported ImportedDuplicate ids
        | NewVersionOnConflict \<Rightarrow> (case ids of
              [plan_id] \<Rightarrow> save_as_version env imported plan_id
            | _ \<Rightarrow> rfail (EE_Message (fmt ''cannot import '{}' as a new version: its local lineage is ambiguous ({})''
                [p_name imported, join '', '' ids])))))"

definition AGENT_CALL_DISABLED :: string where
  "AGENT_CALL_DISABLED = fmt (''this plan contains experimental AGENT_CALL steps, but this system is not configured to run them '' @
     ''{} enable Experimental agent steps in Settings and select Claude API, OpenAI API, OpenAI account, Claude account, or an '' @
     ''explicitly agent-shaped Custom CLI'') [em_dash]"

definition ensure_agent_call_allowed :: "bool \<Rightarrow> plan \<Rightarrow> engine_error + unit" where
  "ensure_agent_call_allowed supported p =
     (if list_ex (\<lambda>s. step_type_of s = TAgentCall) (p_steps p) \<and> \<not> supported then Inl (EE_Message AGENT_CALL_DISABLED) else Inr ())"

definition check_import :: "tool_catalog \<Rightarrow> plan_bundle \<Rightarrow> engine_error + plan" where
  "check_import catalog b =
     (let p = pb_plan b;
          unavailable = unavailable_plan_tools (pb_tools b) catalog;
          errors = validate p catalog
      in if unavailable \<noteq> [] then
           Inl (EE_Message (fmt (''The plan uses tools that are missing or disabled in your local MCP Tools catalog: {}. '' @
             ''Add or configure them and allowlist them, then retry the import'') [join '', '' unavailable]))
         else if errors \<noteq> [] then
           Inl (EE_Message (''the imported plan failed validation against the local tool catalog:'' @ newline @
             bullet_list (map show_validation_error errors)))
         else Inr p)"

definition import_plan :: "store_env \<Rightarrow> bool \<Rightarrow> (engine_error, tool_catalog) rio \<Rightarrow> string \<Rightarrow> import_conflict_policy \<Rightarrow>
    (engine_error, import_resolution) rio" where
  "import_plan env supported read_catalog text policy =
     rbind (lift_sum (map_sum (\<lambda>e. EE_Message (fmt ''could not read plan bundle: {}'' [show_plan_error e])) id (bundle_from_json env text))) (\<lambda>b.
     rbind (lift_sum (ensure_agent_call_allowed supported (pb_plan b))) (\<lambda>u.
     rbind read_catalog (\<lambda>catalog.
     rbind (lift_sum (check_import catalog b)) (\<lambda>p.
     resolve_import_conflict env (normalized p) policy))))"

section \<open>What a preflighted bundle lists\<close>

lemma set_called_tools: "set (called_tools p) = {n. \<exists>s \<in> set (p_steps p). called_tool s = Some n}"
  by (force simp: called_tools_def index_set_def List.map_filter_def)

lemma repeated_Nil: "repeated seen xs = [] \<longleftrightarrow> distinct xs \<and> set xs \<inter> seen = {}"
  by (induction xs arbitrary: seen) auto

lemma index_set_distinct: "distinct xs \<Longrightarrow> index_set xs = xs" "set (index_set xs) = set xs" "distinct (index_set xs)"
  by (simp_all add: index_set_def distinct_remdups_id)

lemma index_set_Nil: "index_set xs = [] \<longleftrightarrow> xs = []"
  by (simp add: index_set_def)

text \<open>The preflight is exact: one reference per called tool, and none besides.\<close>

lemma preflight_bundle_iff: "preflight_bundle b = Inr () \<longleftrightarrow>
    distinct (map tr_name (pb_tools b)) \<and> set (map tr_name (pb_tools b)) = set (called_tools (pb_plan b))"
proof -
  have "reference_problems b = [] \<longleftrightarrow> repeated {} (map tr_name (pb_tools b)) = [] \<and>
      set (called_tools (pb_plan b)) \<subseteq> set (map tr_name (pb_tools b)) \<and> set (map tr_name (pb_tools b)) \<subseteq> set (called_tools (pb_plan b))"
    by (auto simp: reference_problems_def Let_def index_set_Nil index_set_distinct(2) filter_empty_conv simp del: set_map)
  then show ?thesis by (auto simp: preflight_bundle_def repeated_Nil)
qed

definition catalog_values :: "tool_catalog \<Rightarrow> bool" where
  "catalog_values catalog \<longleftrightarrow> list_all (\<lambda>(n, e). te_name e = n \<and> canon (te_input_schema e) = te_input_schema e \<and>
     canon (te_output_schema e) = te_output_schema e) catalog"

lemma catalog_value: "catalog_values catalog \<Longrightarrow> catalog_get catalog n = Some e \<Longrightarrow>
    te_name e = n \<and> canon (te_input_schema e) = te_input_schema e \<and> canon (te_output_schema e) = te_output_schema e"
  by (auto simp: catalog_values_def catalog_get_def im_get_def list_all_iff dest!: map_of_SomeD)

lemma empty_schema_value: "canon empty_schema = empty_schema"
  by code_simp

lemma reference_for:
  assumes "catalog_values catalog"
  shows "tr_name (tool_reference_for catalog n) = n"
    and "canon (tr_input_schema (tool_reference_for catalog n)) = tr_input_schema (tool_reference_for catalog n)"
    and "canon (tr_output_schema (tool_reference_for catalog n)) = tr_output_schema (tool_reference_for catalog n)"
  using catalog_value [OF assms, of n]
  by (auto simp: tool_reference_for_def empty_schema_value split: option.split)

lemma exported_preflight: "catalog_values catalog \<Longrightarrow> preflight_bundle (fst (from_plan v now p catalog)) = Inr ()"
  by (simp add: preflight_bundle_iff from_plan_def reference_for comp_def called_tools_def index_set_distinct(3))

lemma tool_kind_text: "opt_value (variant_of tool_kind_names) (opt_json (JString \<circ> show_tool_kind) k) = Some k"
proof -
  have "variant_of tool_kind_names (JString (show_tool_kind k)) = Some k" for k
    by (cases k) (simp_all add: variant_of_def tool_kind_names_def)
  then show ?thesis by (cases k) (simp_all add: opt_value_def opt_json_def)
qed

lemma tool_reference_text:
  assumes "canon (tr_input_schema t) = tr_input_schema t" and "canon (tr_output_schema t) = tr_output_schema t"
  shows "tool_reference_of (tool_reference_doc t) = Some t"
proof -
  show ?thesis
    unfolding tool_reference_of_def tool_reference_doc_def
    by (rule as_text.struct_view) (simp_all add: req_def opt_def dflt_def tool_kind_text assms)
qed

lemma bundle_text:
  assumes "wf_plan w (pb_plan b)" and "times_roundtrip w"
    and "\<And>t. t \<in> set (pb_tools b) \<Longrightarrow> canon (tr_input_schema t) = tr_input_schema t \<and> canon (tr_output_schema t) = tr_output_schema t"
  shows "bundle_of w (bundle_doc w b) = Some b"
proof -
  have "list_of tool_reference_of (JArray (map tool_reference_doc (pb_tools b))) = Some (pb_tools b)"
    using as_text.list_view [of "pb_tools b" tool_reference_of tool_reference_doc id] assms(3) by (simp add: tool_reference_text)
  moreover have "time_of w (JString (wi_show_time w (pb_exported_at b))) = Some (pb_exported_at b)"
    using assms(2) by (simp add: time_of_def times_roundtrip_def)
  ultimately show ?thesis
    unfolding bundle_of_def bundle_doc_def
    by (intro as_text.struct_view) (simp_all add: req_def dflt_def as_text.word_view plan_of_text [OF assms(1,2)])
qed

section \<open>What an import stores\<close>

lemma bundle_from_json_Inr: "bundle_from_json env text = Inr b \<Longrightarrow> preflight_bundle b = Inr ()"
  by (auto simp: bundle_from_json_def try_bind_def ok_or_def split: option.splits sum.splits if_splits)

lemma check_import_Inr: "Inr p = check_import catalog b \<longleftrightarrow>
    p = pb_plan b \<and> unavailable_plan_tools (pb_tools b) catalog = [] \<and> validate p catalog = []"
  by (auto simp: check_import_def Let_def)

lemma called_tools_normalized: "set (called_tools (normalized p)) = set (called_tools p)"
proof -
  have "called_tool (sort_depends_on s) = called_tool s" for s by (simp add: called_tool_def)
  then show ?thesis by (auto simp: set_called_tools normal.set_steps)
qed

lemma with_metadata_back: "with_metadata (with_metadata q m) (p_metadata q) = q"
  by simp

lemma called_tools_blind: "called_tools (with_metadata p m) = called_tools p"
  by (simp add: called_tools_def)

text \<open>Looking for plans of the same name only reads.\<close>

lemma pub_read_dir: "triple (pub f) (read_dir env dir) (\<lambda>es. pub f) (pub f)"
  unfolding read_dir_def by (rule triple_sys) (auto simp: triple_def io_error_def throw_def)

lemma load_current_reads: "triple (pub f) (attempt (load_current env i)) (\<lambda>r. pub f) (pub f)"
  by (rule triple_conseq [OF triple_attempt [OF load_current_triple]]) (auto split: sum.splits)

lemma collect_summaries_reads: "triple (pub f) (collect_summaries env es) (\<lambda>ss. pub f) (pub f)"
proof (induction env es rule: collect_summaries.induct)
  case (2 env name is_file entries)
  have rest: "triple (pub f) (bind (attempt (load_current env name)) (\<lambda>r. bind (collect_summaries env entries) (\<lambda>rest. ret (g r rest))))
      (\<lambda>ss. pub f) (pub f)" if "triple (pub f) (collect_summaries env entries) (\<lambda>ss. pub f) (pub f)" for g
    by (intro triple_bind [OF load_current_reads] triple_bind [OF that] triple_ret)
  show ?case
  proof (cases is_file)
    case False
    show ?thesis
      unfolding collect_summaries.simps if_not_P [OF False]
      by (rule triple_bind [OF pub_exists]) (use 2(2,3) False rest in \<open>auto split: if_splits\<close>)
  qed (use 2(1) in simp)
qed (auto intro: triple_ret)

lemma list_plans_reads: "triple (pub f) (list_plans env) (\<lambda>ss. pub f) (pub f)"
  unfolding list_plans_def
proof (rule triple_bind [OF pub_exists], goal_cases)
  case (1 found)
  have "triple (pub f) (bind (read_dir env PLANS_DIR) (\<lambda>entries. bind (collect_summaries env entries) (\<lambda>ss. ret (g ss))))
      (\<lambda>ss. pub f) (pub f)" for g
    by (intro triple_bind [OF pub_read_dir] triple_bind [OF collect_summaries_reads] triple_ret)
  then show ?case by (auto intro: triple_ret)
qed

lemma list_plans_published: "list_plans env d = (d', Done ss) \<Longrightarrow> published d' = published d"
  using triple_done [OF list_plans_reads [of "published d" env], of d ss] by simp

text \<open>The current plan of its lineage, or one equal to it that was there already.\<close>

definition stored_plan :: "store_env \<Rightarrow> disk \<Rightarrow> plan \<Rightarrow> bool" where
  "stored_plan env d p \<longleftrightarrow> published d (plan_current_path p) = Some (plan_text env p) \<or>
     (\<exists>c. plan_at env (published d) (plan_current_path p) c \<and> same_plan c p)"

lemma save_plan_stored: "save_plan env p d = (d', Done u) \<Longrightarrow> stored_plan env d' p"
proof -
  assume "save_plan env p d = (d', Done u)"
  then obtain expected d1 where "advance_current env p expected d1 = (d', Done ())"
    unfolding save_plan_def seq_def bind_Done by auto
  then show ?thesis
    using triple_done [OF advance_current_triple [of "published d1" env p expected], of d1 "()"] by (auto simp: stored_plan_def)
qed

definition local_metadata :: "store_env \<Rightarrow> disk \<Rightarrow> plan \<Rightarrow> import_outcome \<Rightarrow> plan_metadata \<Rightarrow> bool" where
  "local_metadata env d imported outcome m \<longleftrightarrow> (case outcome of
     ImportRejected \<Rightarrow> m = p_metadata imported
   | ImportedNewVersion \<Rightarrow> (\<exists>c now. plan_at env (published d) (plan_current_path c) c \<and> m = next_version now (p_metadata c))
   | _ \<Rightarrow> (\<exists>uuid now. m = metadata_new uuid now (m_intent (p_metadata imported))))"

lemma saved_as_new:
  assumes "save_as_new env q outcome ids d = (d', Done (Inr r))"
  shows "\<exists>uuid now. ir_plan r = with_metadata q (metadata_new uuid now (m_intent (p_metadata q))) \<and>
    ir_outcome r = outcome \<and> stored_plan env d' (ir_plan r)"
  using assms by (auto simp: save_as_new_def bind_Done result_simps Let_def fresh_uuid_def utc_now_def dest!: save_plan_stored)

lemma saved_as_version:
  assumes "save_as_version env q i d = (d', Done (Inr r))"
  shows "\<exists>c now. plan_at env (published d) (plan_current_path c) c \<and> ir_plan r = with_metadata q (next_version now (p_metadata c)) \<and>
    ir_outcome r = ImportedNewVersion \<and> stored_plan env d' (ir_plan r)"
proof -
  from assms obtain c d1 now where c: "load_current env i d = (d1, Done c)"
      "ir_plan r = with_metadata q (next_version now (p_metadata c))" "ir_outcome r = ImportedNewVersion" "stored_plan env d' (ir_plan r)"
    by (auto simp: save_as_version_def bind_Done result_simps Let_def utc_now_def next_version_def dest!: save_plan_stored split: if_splits)
  moreover have "plan_at env (published d) (plan_current_path c) c"
    using triple_done [OF load_current_triple [of "published d" env i], of d c] c(1) by auto
  ultimately show ?thesis by blast
qed

lemma resolved_import:
  assumes "resolve_import_conflict env q policy d = (d', Done (Inr r))"
  shows "\<exists>m d1. ir_plan r = with_metadata q m \<and> open_storage env d = (d1, Done ()) \<and>
    local_metadata env d1 q (ir_outcome r) m \<and>
    (if ir_outcome r = ImportRejected then published d' = published d1 else stored_plan env d' (ir_plan r))"
proof -
  from assms obtain d1 d2 summaries where o': "open_storage env d = (d1, Done ())" and l: "list_plans env d1 = (d2, Done summaries)"
    and k: "(let ids = sort (map ps_id (filter (\<lambda>s. same_name (ps_name s) (p_name q)) summaries))
     in if ids = [] then save_as_new env q Imported ids
        else case policy of
          RejectConflict \<Rightarrow> rok \<lparr>ir_outcome = ImportRejected, ir_plan = q, ir_same_name_plan_ids = ids\<rparr>
        | DuplicateOnConflict \<Rightarrow> save_as_new env q ImportedDuplicate ids
        | NewVersionOnConflict \<Rightarrow> (case ids of
              [plan_id] \<Rightarrow> save_as_version env q plan_id
            | _ \<Rightarrow> rfail (EE_Message (fmt ''cannot import '{}' as a new version: its local lineage is ambiguous ({})''
                [p_name q, join '', '' ids])))) d2 = (d', Done (Inr r))"
    unfolding resolve_import_conflict_def result_simps by auto
  note pub = list_plans_published [OF l]
  consider ids outcome where "outcome \<in> {Imported, ImportedDuplicate}" "save_as_new env q outcome ids d2 = (d', Done (Inr r))"
    | i where "save_as_version env q i d2 = (d', Done (Inr r))"
    | ids where "r = \<lparr>ir_outcome = ImportRejected, ir_plan = q, ir_same_name_plan_ids = ids\<rparr>" "d' = d2"
    using k by (auto simp: Let_def rok_Done split: if_splits import_conflict_policy.splits list.splits)
  then show ?thesis
  proof cases
    case 1
    then show ?thesis using saved_as_new [OF 1(2)] o' by (fastforce simp: local_metadata_def)
  next
    case 2
    then show ?thesis using saved_as_version [OF 2] o' pub by (fastforce simp: local_metadata_def)
  next
    case 3
    have "with_metadata q (p_metadata q) = q" by simp
    with 3 show ?thesis using o' pub by (auto simp: local_metadata_def)
  qed
qed

section \<open>Properties\<close>

text \<open>
  C18: an exported plan comes back.  The bundle of any plan always passes the preflight of the export, and
  reading the exported text gives the same bundle: the plan, and for every tool it calls the reference taken
  from the catalog.
\<close>

theorem exported_bundle_reads_back:
  assumes "wf_plan (se_wire env) p" and "times_roundtrip (se_wire env)" and "catalog_values catalog"
    and "reads_back env (bundle_doc (se_wire env) (fst (from_plan v now p catalog)))"
  shows "\<exists>text. bundle_to_json env (fst (from_plan v now p catalog)) = Inr text \<and>
    bundle_from_json env text = Inr (fst (from_plan v now p catalog))"
proof -
  let ?b = "fst (from_plan v now p catalog)"
  have "bundle_of (se_wire env) (bundle_doc (se_wire env) ?b) = Some ?b"
    using assms(1-3) by (intro bundle_text) (auto simp: from_plan_def reference_for)
  then have "bundle_from_json env (se_text env (bundle_doc (se_wire env) ?b)) = Inr ?b"
    using assms(4) exported_preflight [OF assms(3)]
    by (simp add: bundle_from_json_def reads_back_def ok_or_def try_bind_def) (simp add: from_plan_def CURRENT_FORMAT_VERSION_def)
  then show ?thesis
    using exported_preflight [OF assms(3)] by (simp add: bundle_to_json_def try_bind_def)
qed

text \<open>
  C17: what an import lets in.  When an import succeeds, whatever the bundle says, the plan it gives is accepted by
  the validator under the local catalog, calls only tools of that catalog that are allowlisted, and is the
  normal form of the plan of the bundle but for its metadata, which is local: a fresh lineage with the imported
  intent, or the next version of the local plan of that name.  The plan has been stored, except for a
  rejected clash of names, which has changed no published file since the storage was opened.
\<close>

theorem imported_plan_is_checked:
  assumes "import_plan env supported (rok catalog) text policy d = (d', Done (Inr r))"
  shows "validate (ir_plan r) catalog = [] \<and>
    (\<forall>n \<in> set (called_tools (ir_plan r)). \<exists>e. catalog_get catalog n = Some e \<and> te_allowlisted e) \<and>
    (\<exists>b d1. bundle_from_json env text = Inr b \<and> with_metadata (ir_plan r) (p_metadata (pb_plan b)) = normalized (pb_plan b) \<and>
       open_storage env d = (d1, Done ()) \<and> local_metadata env d1 (pb_plan b) (ir_outcome r) (p_metadata (ir_plan r)) \<and>
       (if ir_outcome r = ImportRejected then published d' = published d1 else stored_plan env d' (ir_plan r)))"
proof -
  from assms obtain b where b: "bundle_from_json env text = Inr b" "unavailable_plan_tools (pb_tools b) catalog = []"
      "validate (pb_plan b) catalog = []" "resolve_import_conflict env (normalized (pb_plan b)) policy d = (d', Done (Inr r))"
    by (auto simp: import_plan_def result_simps check_import_Inr map_sum_def split: sum.splits)
  let ?q = "normalized (pb_plan b)"
  from resolved_import [OF b(4)] obtain m d1 where m: "ir_plan r = with_metadata ?q m" "open_storage env d = (d1, Done ())"
      "local_metadata env d1 ?q (ir_outcome r) m"
      "if ir_outcome r = ImportRejected then published d' = published d1 else stored_plan env d' (ir_plan r)"
    by blast
  have "validate (ir_plan r) catalog = []"
    using b(3) by (simp add: m(1) validate_blind normal.accepted)
  moreover have "\<exists>e. catalog_get catalog n = Some e \<and> te_allowlisted e" if "n \<in> set (called_tools (ir_plan r))" for n
  proof -
    have "n \<in> set (map tr_name (pb_tools b))"
      using that bundle_from_json_Inr [OF b(1)] by (simp add: m(1) called_tools_blind called_tools_normalized preflight_bundle_iff)
    with b(2) show ?thesis by (auto simp: unavailable_plan_tools_def filter_empty_conv split: option.splits)
  qed
  moreover have "local_metadata env d1 (pb_plan b) (ir_outcome r) (p_metadata (ir_plan r))"
  proof -
    have eq: "p_metadata (ir_plan r) = m" by (simp add: m(1))
    show ?thesis using m(3) unfolding local_metadata_def normalized_metadata eq .
  qed
  moreover have "with_metadata (ir_plan r) (p_metadata (pb_plan b)) = ?q"
    using with_metadata_back [of ?q m] by (simp add: m(1) normalized_metadata)
  ultimately show ?thesis using b(1) m(2,4) by blast
qed

section \<open>Plans that are exported and imported\<close>

definition list_tool :: tool_entry where
  "list_tool = demo_tool ''list''"

definition shared_plan :: plan where
  "shared_plan = demo_plan\<lparr>p_steps := [(prompt_step ''call'' [] [])\<lparr>s_config :=
     ToolCall \<lparr>tc_tool = ''list'', tc_arguments = []\<rparr>\<rparr>]\<rparr>"

definition exchange_store :: store_env where
  "exchange_store = working_store\<lparr>se_clock := \<lambda>n. 0, se_text := demo_text, se_parse := demo_parse\<rparr>"

lemma exported_bundle_reads_back_witness:
  "\<exists>text. bundle_from_json exchange_store text = Inr (fst (from_plan ''1.0'' 0 shared_plan (catalog_new [list_tool])))"
proof -
  have "wf_plan demo_wire shared_plan" "catalog_values (catalog_new [list_tool])" by code_simp+
  moreover have "se_wire exchange_store = demo_wire" by (simp add: exchange_store_def demo_store_def)
  moreover have "reads_back exchange_store v" for v
    by (simp add: reads_back_def exchange_store_def demo_parse_text)
  ultimately show ?thesis
    using exported_bundle_reads_back [of exchange_store shared_plan] demo_times by fastforce
qed

definition import_store :: store_env where
  "import_store = working_store\<lparr>se_clock := \<lambda>n. 0, se_text := \<lambda>v. ''x'',
     se_parse := \<lambda>s. Some (bundle_doc demo_wire (fst (from_plan ''1.0'' 0 shared_plan (catalog_new [list_tool]))))\<rparr>"

lemma imported_plan_is_checked_witness:
  "\<exists>d' r. import_plan import_store False (rok (catalog_new [list_tool])) ''x'' RejectConflict demo_disk = (d', Done (Inr r)) \<and>
     called_tools (ir_plan r) = [''list''] \<and> validate (ir_plan r) (catalog_new [list_tool]) = [] \<and>
     stored_plan import_store d' (ir_plan r)"
proof -
  have "case import_plan import_store False (rok (catalog_new [list_tool])) ''x'' RejectConflict demo_disk of
      (d', Done (Inr r)) \<Rightarrow> called_tools (ir_plan r) = [''list''] \<and> ir_outcome r = Imported | _ \<Rightarrow> False"
    by code_simp
  then obtain d' r where r: "import_plan import_store False (rok (catalog_new [list_tool])) ''x'' RejectConflict demo_disk =
      (d', Done (Inr r))" "called_tools (ir_plan r) = [''list'']" "ir_outcome r = Imported"
    by (auto split: prod.splits outcome.splits sum.splits)
  from imported_plan_is_checked [OF r(1)] r show ?thesis by auto
qed

end
